(* ===== verification/Prelude.thy ===== *)
theory Prelude imports Main "HOL-Library.Multiset" begin

text \<open>
  Vocabulary shared by every component: the JavaScript string operations the sources use, the
  insertion-ordered \<open>Map\<close> as an association list, dense arrays with \<open>splice\<close>, and the
  result type of a call that may throw. A call that throws returns \<open>Inl error\<close>, a call that
  returns gives \<open>Inr value\<close>. The named collections gather the facts that component proofs use
  together: \<open>js_simps\<close> for the string and array operations, \<open>map_simps\<close> for the ordered
  maps, \<open>inv_intros\<close> for the introduction rules of component invariants.
\<close>

named_theorems js_simps \<open>JavaScript string and array operations\<close>
named_theorems map_simps \<open>insertion-ordered maps\<close>
named_theorems inv_intros \<open>introduction rules of component invariants\<close>

section \<open>Calls that may throw\<close>

type_synonym 'a throws = "string + 'a"

definition bind_throws :: "('e + 'a) \<Rightarrow> ('a \<Rightarrow> 'e + 'b) \<Rightarrow> 'e + 'b" where
  "bind_throws r f = (case r of Inl e \<Rightarrow> Inl e | Inr a \<Rightarrow> f a)"

lemma bind_throws_Inl [simp]: "bind_throws (Inl e) f = Inl e"
  by (simp add: bind_throws_def)

lemma bind_throws_Inr [simp]: "bind_throws (Inr a) f = f a"
  by (simp add: bind_throws_def)

lemma bind_throws_eq_Inr: "bind_throws r f = Inr b \<longleftrightarrow> (\<exists>a. r = Inr a \<and> f a = Inr b)"
  by (cases r) simp_all

lemma bind_throws_assoc: "bind_throws (bind_throws r f) g = bind_throws r (\<lambda>a. bind_throws (f a) g)"
  by (cases r) simp_all

text \<open>A loop \<open>for (const x of xs)\<close> whose body may throw: it stops at the first error.\<close>

fun fold_throws :: "('x \<Rightarrow> 's \<Rightarrow> 'e + 's) \<Rightarrow> 'x list \<Rightarrow> 's \<Rightarrow> 'e + 's" where
  "fold_throws f [] s = Inr s"
| "fold_throws f (x # xs) s = bind_throws (f x s) (fold_throws f xs)"

lemma fold_throws_append:
  "fold_throws f (xs @ ys) s = bind_throws (fold_throws f xs s) (fold_throws f ys)"
  by (induction xs arbitrary: s) (simp_all add: bind_throws_assoc bind_throws_def split: sum.splits)

lemma fold_throws_invariant:
  assumes "fold_throws f xs s = Inr t" and "P s"
    and "\<And>x s s'. x \<in> set xs \<Longrightarrow> P s \<Longrightarrow> f x s = Inr s' \<Longrightarrow> P s'"
  shows "P t"
  using assms
proof (induction xs arbitrary: s)
  case Nil
  then show ?case by simp
next
  case (Cons x xs)
  then obtain u where u: "f x s = Inr u" "fold_throws f xs u = Inr t"
    by (auto simp: bind_throws_eq_Inr)
  moreover have "P u" using Cons.prems(2,3) u(1) by (meson list.set_intros(1))
  ultimately show ?case using Cons.IH Cons.prems(3) by (meson list.set_intros(2))
qed

section \<open>Strings\<close>

text \<open>
  A string of the model is the list of its UTF-16 code units, for code units up to 255. \<open>is_space\<close>
  is the class \<open>\s\<close> of the regular expressions, which \<open>trim()\<close> uses too, on that range.
\<close>

definition is_space :: "char \<Rightarrow> bool" where
  "is_space c \<longleftrightarrow> of_char c \<in> {9, 10, 11, 12, 13, 32, 160 :: nat}"

definition trim_start :: "string \<Rightarrow> string" where
  "trim_start s = dropWhile is_space s"

definition trim :: "string \<Rightarrow> string" where
  "trim s = rev (trim_start (rev (trim_start s)))"

definition startsWith :: "string \<Rightarrow> string \<Rightarrow> bool" where
  "startsWith s p \<longleftrightarrow> take (length p) s = p"

definition endsWith :: "string \<Rightarrow> string \<Rightarrow> bool" where
  "endsWith s p \<longleftrightarrow> length p \<le> length s \<and> drop (length s - length p) s = p"

definition slice_list :: "nat \<Rightarrow> nat \<Rightarrow> 'a list \<Rightarrow> 'a list" where
  "slice_list i j xs = take (j - i) (drop i xs)"

fun join :: "string \<Rightarrow> string list \<Rightarrow> string" where
  "join sep [] = []"
| "join sep [x] = x"
| "join sep (x # y # xs) = x @ sep @ join sep (y # xs)"

text \<open>\<open>s.includes(p)\<close> for a string \<open>p\<close>.\<close>

fun string_includes :: "string \<Rightarrow> string \<Rightarrow> bool" where
  "string_includes [] p \<longleftrightarrow> p = []"
| "string_includes (c # s) p \<longleftrightarrow> startsWith (c # s) p \<or> string_includes s p"

lemma trim_Nil [simp]: "trim [] = []"
  by (simp add: trim_def trim_start_def)

lemma startsWith_append [simp]: "startsWith (p @ s) p"
  by (simp add: startsWith_def)

lemma startsWith_iff: "startsWith s p \<longleftrightarrow> (\<exists>t. s = p @ t)"
  by (metis append_take_drop_id startsWith_append startsWith_def)

lemma endsWith_iff: "endsWith s p \<longleftrightarrow> (\<exists>t. s = t @ p)"
proof
  assume "endsWith s p"
  then have "s = take (length s - length p) s @ p"
    unfolding endsWith_def by (metis append_take_drop_id)
  then show "\<exists>t. s = t @ p" by blast
next
  assume "\<exists>t. s = t @ p"
  then show "endsWith s p" by (auto simp: endsWith_def)
qed

section \<open>Decimal numerals\<close>

text \<open>\<open>String(n)\<close> of a non-negative integer: the property name an array index stands for.\<close>

definition digit_char :: "nat \<Rightarrow> char" where
  "digit_char d = char_of (48 + d)"

fun show_nat :: "nat \<Rightarrow> string" where
  "show_nat n = (if n < 10 then [digit_char n] else show_nat (n div 10) @ [digit_char (n mod 10)])"

declare show_nat.simps [simp del]

fun read_digits :: "nat \<Rightarrow> string \<Rightarrow> nat" where
  "read_digits acc [] = acc"
| "read_digits acc (c # cs) = read_digits (10 * acc + (of_char c - 48)) cs"

lemma read_digits_append: "read_digits acc (s @ t) = read_digits (read_digits acc s) t"
  by (induction acc s rule: read_digits.induct) simp_all

lemma of_char_digit_char: "d < 10 \<Longrightarrow> of_char (digit_char d) = (48 + d :: nat)"
  by (simp add: digit_char_def)

lemma read_digits_show_nat: "read_digits 0 (show_nat n) = n"
proof (induction n rule: show_nat.induct)
  case (1 n)
  show ?case
  proof (cases "n < 10")
    case True
    then show ?thesis by (subst show_nat.simps) (simp add: of_char_digit_char)
  next
    case False
    with 1 have "read_digits 0 (show_nat (n div 10)) = n div 10" by simp
    with False show ?thesis
      by (subst show_nat.simps) (simp add: read_digits_append of_char_digit_char)
  qed
qed

lemma show_nat_inject [simp]: "show_nat m = show_nat n \<longleftrightarrow> m = n"
  by (metis read_digits_show_nat)

section \<open>Insertion-ordered maps\<close>

text \<open>
  A JavaScript \<open>Map\<close> (or the own properties of an object) in insertion order: \<open>set\<close> of a key that
  is present keeps its position, a new key goes last. Keys are distinct by construction.
\<close>

fun al_get :: "'k \<Rightarrow> ('k \<times> 'v) list \<Rightarrow> 'v option" where
  "al_get k [] = None"
| "al_get k ((k', v) # m) = (if k = k' then Some v else al_get k m)"

fun al_set :: "'k \<Rightarrow> 'v \<Rightarrow> ('k \<times> 'v) list \<Rightarrow> ('k \<times> 'v) list" where
  "al_set k v [] = [(k, v)]"
| "al_set k v ((k', v') # m) = (if k = k' then (k, v) # m else (k', v') # al_set k v m)"

fun al_delete :: "'k \<Rightarrow> ('k \<times> 'v) list \<Rightarrow> ('k \<times> 'v) list" where
  "al_delete k [] = []"
| "al_delete k ((k', v') # m) = (if k = k' then m else (k', v') # al_delete k m)"

abbreviation al_keys :: "('k \<times> 'v) list \<Rightarrow> 'k list" where
  "al_keys m \<equiv> map fst m"

definition al_has :: "'k \<Rightarrow> ('k \<times> 'v) list \<Rightarrow> bool" where
  "al_has k m \<longleftrightarrow> al_get k m \<noteq> None"

lemma al_get_map_of [map_simps]: "al_get k m = map_of m k"
  by (induction k m rule: al_get.induct) auto

lemma al_get_None_iff [map_simps]: "al_get k m = None \<longleftrightarrow> k \<notin> fst ` set m"
  by (induction k m rule: al_get.induct) auto

lemma al_has_iff [map_simps]: "al_has k m \<longleftrightarrow> k \<in> fst ` set m"
  by (simp add: al_has_def al_get_None_iff)

lemma al_get_SomeD: "al_get k m = Some v \<Longrightarrow> (k, v) \<in> set m"
  by (induction k m rule: al_get.induct) (auto split: if_splits)

lemma al_get_Some_iff: "distinct (al_keys m) \<Longrightarrow> al_get k m = Some v \<longleftrightarrow> (k, v) \<in> set m"
  by (simp add: al_get_map_of)

lemma al_get_set [simp]: "al_get k (al_set k' v m) = (if k = k' then Some v else al_get k m)"
  by (induction k' v m rule: al_set.induct) auto

lemma keys_al_set [simp]: "fst ` set (al_set k v m) = insert k (fst ` set m)"
  by (induction k v m rule: al_set.induct) auto

lemma distinct_al_set [simp]: "distinct (al_keys m) \<Longrightarrow> distinct (al_keys (al_set k v m))"
  by (induction k v m rule: al_set.induct) auto

lemma keys_al_delete [simp]:
  "distinct (al_keys m) \<Longrightarrow> fst ` set (al_delete k m) = fst ` set m - {k}"
  by (induction k m rule: al_delete.induct) auto

lemma distinct_al_delete [simp]: "distinct (al_keys m) \<Longrightarrow> distinct (al_keys (al_delete k m))"
  by (induction k m rule: al_delete.induct) auto

lemma al_get_delete [simp]:
  "distinct (al_keys m) \<Longrightarrow> al_get k (al_delete k' m) = (if k = k' then None else al_get k m)"
  by (induction k' m rule: al_delete.induct) (auto simp: al_get_None_iff)

lemma al_set_new: "k \<notin> fst ` set m \<Longrightarrow> al_set k v m = m @ [(k, v)]"
  by (induction k v m rule: al_set.induct) auto

lemma al_set_append_new: "k \<notin> fst ` set m \<Longrightarrow> al_set k v (m @ n) = m @ al_set k v n"
  by (induction m) auto

section \<open>Arrays\<close>

text \<open>\<open>xs.splice(start, remove, ...items)\<close> for a start that is not negative; it is clamped to the length.\<close>

definition splice :: "nat \<Rightarrow> nat \<Rightarrow> 'a list \<Rightarrow> 'a list \<Rightarrow> 'a list" where
  "splice start remove items xs = take start xs @ items @ drop (start + remove) xs"

lemma splice_Nil_0 [simp]: "splice i 0 [] xs = xs"
  by (simp add: splice_def)

lemma splice_middle [js_simps]:
  "length pre = i \<Longrightarrow> length mid = r \<Longrightarrow> splice i r items (pre @ mid @ post) = pre @ items @ post"
  by (simp add: splice_def)

text \<open>\<open>xs.findIndex(p)\<close>, with \<open>None\<close> for -1.\<close>

fun find_index :: "('a \<Rightarrow> bool) \<Rightarrow> 'a list \<Rightarrow> nat option" where
  "find_index p [] = None"
| "find_index p (x # xs) = (if p x then Some 0 else map_option Suc (find_index p xs))"

lemma find_index_None_iff: "find_index p xs = None \<longleftrightarrow> (\<forall>x \<in> set xs. \<not> p x)"
  by (induction p xs rule: find_index.induct) auto

lemma find_index_SomeD:
  "find_index p xs = Some i \<Longrightarrow> i < length xs \<and> p (xs ! i) \<and> (\<forall>j < i. \<not> p (xs ! j))"
proof (induction p xs arbitrary: i rule: find_index.induct)
  case (2 p x xs)
  show ?case
  proof (cases "p x")
    case False
    with "2.prems" obtain j where "find_index p xs = Some j" "i = Suc j" by auto
    with 2 False show ?thesis by (auto simp: less_Suc_eq_0_disj)
  qed (use "2.prems" in auto)
qed simp

end
