(* ===== verification/Perm_Contract.thy ===== *)
theory Perm_Contract imports Prelude begin

text \<open>
  The tool contract (\<open>coding-agent/src/core/tools/contract.ts\<close>), the prepared path operations
  (\<open>core/permissions/operations.ts\<close>) and the preview a prompt shows
  (\<open>core/permissions/responder.ts\<close>). An optional method of an interface is a field of option
  type, \<open>None\<close> when the tool does not declare it. The type \<open>'p\<close> stands for the parameter objects
  of calls, \<open>'r\<close> for tool results and \<open>'e\<close> for evidence records.
\<close>

section \<open>Capabilities and behaviours\<close>

datatype capability = Fs_Read | Fs_Write | Exec | Net | Delegate | Ui | State

definition ALL_CAPABILITIES :: "capability set" where
  "ALL_CAPABILITIES = {Fs_Read, Fs_Write, Exec, Net, Delegate, Ui, State}"

datatype permission_behavior = Allow | Deny | Ask

section \<open>Prepared operations\<close>

record file_identity =
  device :: nat
  inode :: nat

datatype prepared_path_operation =
    Path_Existing string file_identity
  | Path_New string

text \<open>The module's \<open>WeakMap\<close> from parameter objects to what was prepared for them.\<close>

type_synonym 'p prepared_operations = "'p \<rightharpoonup> prepared_path_operation"

definition setPreparedPathOperation ::
  "'p \<Rightarrow> prepared_path_operation \<Rightarrow> 'p prepared_operations \<Rightarrow> 'p prepared_operations" where
  "setPreparedPathOperation params operation ops = ops(params \<mapsto> operation)"

definition getPreparedPathOperation ::
  "'p \<Rightarrow> 'p prepared_operations \<Rightarrow> prepared_path_operation option" where
  "getPreparedPathOperation params ops = ops params"

section \<open>Previews\<close>

datatype permission_preview =
    Preview_Diff (preview_path: string) (preview_lines: "string list") (omittedLines: nat)
  | Preview_Summary (preview_lines: "string list")
  | Preview_Unavailable (preview_reason: string)

section \<open>The four axes of a contract\<close>

text \<open>
  \<open>prepareCall\<close> records facts on the call and may throw; \<open>previewCall\<close> reads a file and may
  throw. The other methods are pure.
\<close>

record 'p permission_spec =
  defaultBehavior :: permission_behavior
  defaultBehaviorFor :: "('p \<Rightarrow> permission_behavior option) option"
  withinWorkspace :: "('p \<Rightarrow> bool) option"
  protectedTarget :: "('p \<Rightarrow> string option) option"
  allowRuleGrants :: "(string option \<Rightarrow> 'p \<Rightarrow> bool) option"
  prepareCall :: "('p \<Rightarrow> 'p prepared_operations \<Rightarrow> 'p prepared_operations throws) option"
  previewCall :: "('p \<Rightarrow> permission_preview throws) option"
  spec_matches :: "string \<Rightarrow> 'p \<Rightarrow> bool"
  matchesDeny :: "(string \<Rightarrow> 'p \<Rightarrow> bool) option"
  isUnknown :: "('p \<Rightarrow> bool) option"
  describe :: "string \<Rightarrow> string"
  ruleForCall :: "'p \<Rightarrow> string option"

record context_spec =
  resultRecoverable :: bool
  evictionMarker :: "string option"
  deferSchema :: bool
  outputBudgetTokens :: "nat option"

datatype evidence_kind = Ev_Diff | Ev_Test | Ev_Command | Ev_Manual | Ev_Workflow | Ev_Diagnostic

record ('p, 'r, 'e) evidence_spec =
  emits :: "evidence_kind set"
  capture :: "'p \<Rightarrow> 'r \<Rightarrow> 'e list"

record ('p, 'r, 'e) tool_contract =
  capabilities :: "capability set"
  permission :: "'p permission_spec"
  tool_context :: context_spec
  evidence :: "('p, 'r, 'e) evidence_spec"

text \<open>
  The conservative contract of a tool registered without one. \<open>stringify\<close> is \<open>JSON.stringify\<close> on
  the call's parameters.
\<close>

definition UNCLASSIFIED :: "('p \<Rightarrow> string) \<Rightarrow> ('p, 'r, 'e) tool_contract" where
  "UNCLASSIFIED stringify =
     \<lparr>capabilities = ALL_CAPABILITIES,
      permission =
        \<lparr>defaultBehavior = Ask,
         defaultBehaviorFor = None,
         withinWorkspace = None,
         protectedTarget = None,
         allowRuleGrants = None,
         prepareCall = None,
         previewCall = None,
         spec_matches = (\<lambda>ruleContent params. ruleContent = stringify params),
         matchesDeny = None,
         isUnknown = None,
         describe = (\<lambda>ruleContent. ''Exact call: '' @ ruleContent),
         ruleForCall = (\<lambda>params. Some (stringify params))\<rparr>,
      tool_context =
        \<lparr>resultRecoverable = False, evictionMarker = None, deferSchema = False,
         outputBudgetTokens = None\<rparr>,
      evidence = \<lparr>emits = {}, capture = (\<lambda>_ _. [])\<rparr>\<rparr>"

definition resolveToolContract ::
  "('p \<Rightarrow> string) \<Rightarrow> (string \<Rightarrow> ('p, 'r, 'e) tool_contract option) \<Rightarrow> string \<Rightarrow> ('p, 'r, 'e) tool_contract" where
  "resolveToolContract stringify lookup toolName =
     (case lookup toolName of Some contract \<Rightarrow> contract | None \<Rightarrow> UNCLASSIFIED stringify)"

definition resolveToolContext ::
  "(string \<Rightarrow> context_spec option) \<Rightarrow> string \<Rightarrow> context_spec" where
  "resolveToolContext lookup toolName =
     (case lookup toolName of
        Some context_of \<Rightarrow> context_of
      | None \<Rightarrow> tool_context (UNCLASSIFIED (\<lambda>_ :: unit. []) :: (unit, unit, unit) tool_contract))"

text \<open>Every contract carries a capability set below that of the fallback, so a foreign tool is never
  narrower than a declared one.\<close>

lemma capabilities_le_UNCLASSIFIED:
  "capabilities c \<subseteq> capabilities (UNCLASSIFIED stringify)"
proof
  fix x assume "x \<in> capabilities c"
  show "x \<in> capabilities (UNCLASSIFIED stringify)"
    by (cases x) (simp_all add: UNCLASSIFIED_def ALL_CAPABILITIES_def)
qed

end
