(* ===== verification/Perm_Rules.thy ===== *)
theory Perm_Rules imports Perm_Contract "HOL-Library.Extended_Nat" begin

text \<open>
  The permission rule model (\<open>coding-agent/src/core/permissions/rules.ts\<close>): the eight sources and
  their precedence, which rule matches a call, and the resolution of a call to the behaviour of the
  highest-precedence matching rule. \<open>localeCompare\<close> is the host's collation of two strings; it is an
  argument of the definitions that use it.
\<close>

section \<open>Sources\<close>

datatype permission_source =
  Policy | Flag | Local | Project | User | Cli_Arg | Command | Session

definition PERMISSION_SOURCES :: "permission_source list" where
  "PERMISSION_SOURCES = [Policy, Flag, Local, Project, User, Cli_Arg, Command, Session]"

text \<open>The index of a source in the list above: 0 has the highest precedence.\<close>

definition SOURCE_RANK :: "permission_source \<Rightarrow> nat option" where
  "SOURCE_RANK source = find_index (\<lambda>s. s = source) PERMISSION_SOURCES"

fun source_rank :: "permission_source \<Rightarrow> nat" where
  "source_rank Policy = 0"
| "source_rank Flag = 1"
| "source_rank Local = 2"
| "source_rank Project = 3"
| "source_rank User = 4"
| "source_rank Cli_Arg = 5"
| "source_rank Command = 6"
| "source_rank Session = 7"

lemma SOURCE_RANK_eq: "SOURCE_RANK s = Some (source_rank s)"
  by (cases s) (simp_all add: SOURCE_RANK_def PERMISSION_SOURCES_def)

lemma source_rank_inject [simp]: "source_rank s = source_rank t \<longleftrightarrow> s = t"
  by (cases s; cases t) simp_all

text \<open>The precedence order is a linear order: a lower rank is smaller, so the winner is the least.\<close>

instantiation permission_source :: linorder
begin

definition less_eq_permission_source :: "permission_source \<Rightarrow> permission_source \<Rightarrow> bool" where
  "less_eq_permission_source s t \<longleftrightarrow> source_rank s \<le> source_rank t"

definition less_permission_source :: "permission_source \<Rightarrow> permission_source \<Rightarrow> bool" where
  "less_permission_source s t \<longleftrightarrow> source_rank s < source_rank t"

instance
  by standard (auto simp: less_eq_permission_source_def less_permission_source_def)

end

lemma source_less_iff [simp]: "(s :: permission_source) < t \<longleftrightarrow> source_rank s < source_rank t"
  by (simp add: less_permission_source_def)

lemma Session_lowest: "(s :: permission_source) \<le> Session"
  by (cases s) (simp_all add: less_eq_permission_source_def)

section \<open>Rules and their matching\<close>

record permission_rule =
  source :: permission_source
  behavior :: permission_behavior
  toolName :: string
  ruleContent :: "string option"

record permission_resolution =
  res_behavior :: permission_behavior
  res_rule :: "permission_rule option"

definition ruleMatchesCall :: "permission_rule \<Rightarrow> 'p permission_spec \<Rightarrow> 'p \<Rightarrow> bool" where
  "ruleMatchesCall rule spec params =
     (let unknown = (case isUnknown spec of Some f \<Rightarrow> f params | None \<Rightarrow> False) in
      if unknown \<and> behavior rule = Allow then False
      else if unknown \<and> behavior rule = Deny then True
      else case ruleContent rule of
          None \<Rightarrow> True
        | Some content \<Rightarrow>
            (if behavior rule = Deny
             then (case matchesDeny spec of
                     Some f \<Rightarrow> f content params
                   | None \<Rightarrow> spec_matches spec content params)
             else spec_matches spec content params))"

text \<open>Negative when the first rule wins, as the comparison functions of the source.\<close>

definition compareSameSourceRules ::
  "(string \<Rightarrow> string \<Rightarrow> int) \<Rightarrow> permission_rule \<Rightarrow> permission_rule \<Rightarrow> int" where
  "compareSameSourceRules localeCompare a b =
     (case (ruleContent a, ruleContent b) of
        (Some _, None) \<Rightarrow> -1
      | (None, Some _) \<Rightarrow> 1
      | (None, None) \<Rightarrow> 0
      | (Some x, Some y) \<Rightarrow>
          (let lengthDelta = int (length y) - int (length x) in
           if lengthDelta \<noteq> 0 then lengthDelta else localeCompare x y))"

text \<open>The three filters of the loop: the tool's name, the match, and the veto on allow rules.\<close>

definition candidate_applies ::
  "string \<Rightarrow> 'p permission_spec \<Rightarrow> 'p \<Rightarrow> permission_rule \<Rightarrow> bool" where
  "candidate_applies tool spec params candidate \<longleftrightarrow>
     toolName candidate = tool \<and> ruleMatchesCall candidate spec params \<and>
     \<not> (behavior candidate = Allow \<and>
        (case allowRuleGrants spec of
           Some grants \<Rightarrow> \<not> grants (ruleContent candidate) params
         | None \<Rightarrow> False))"

text \<open>The rank the loop compares: a source that is not in the table counts as infinitely low.\<close>

definition rank_of :: "permission_source \<Rightarrow> enat" where
  "rank_of s = (case SOURCE_RANK s of Some n \<Rightarrow> enat n | None \<Rightarrow> \<infinity>)"

definition beats ::
  "(string \<Rightarrow> string \<Rightarrow> int) \<Rightarrow> permission_rule \<Rightarrow> permission_rule \<Rightarrow> bool" where
  "beats localeCompare candidate winner \<longleftrightarrow>
     (let candidateRank = rank_of (source candidate); winnerRank = rank_of (source winner) in
      candidateRank < winnerRank \<or>
      candidateRank = winnerRank \<and> compareSameSourceRules localeCompare candidate winner < 0)"

fun resolve_loop ::
  "(string \<Rightarrow> string \<Rightarrow> int) \<Rightarrow> string \<Rightarrow> 'p permission_spec \<Rightarrow> 'p \<Rightarrow>
   permission_rule list \<Rightarrow> permission_rule option \<Rightarrow> permission_rule option" where
  "resolve_loop lc tool spec params [] winner = winner"
| "resolve_loop lc tool spec params (candidate # rules) winner =
     (if \<not> candidate_applies tool spec params candidate
      then resolve_loop lc tool spec params rules winner
      else case winner of
          None \<Rightarrow> resolve_loop lc tool spec params rules (Some candidate)
        | Some w \<Rightarrow>
            resolve_loop lc tool spec params rules (Some (if beats lc candidate w then candidate else w)))"

definition default_for :: "'p permission_spec \<Rightarrow> 'p \<Rightarrow> permission_behavior" where
  "default_for spec params =
     (case defaultBehaviorFor spec of
        None \<Rightarrow> defaultBehavior spec
      | Some f \<Rightarrow> (case f params of Some b \<Rightarrow> b | None \<Rightarrow> defaultBehavior spec))"

definition resolvePermission ::
  "(string \<Rightarrow> string \<Rightarrow> int) \<Rightarrow> permission_rule list \<Rightarrow> string \<Rightarrow> 'p permission_spec \<Rightarrow> 'p \<Rightarrow>
   permission_resolution" where
  "resolvePermission lc rules tool spec params =
     (case resolve_loop lc tool spec params rules None of
        Some w \<Rightarrow> \<lparr>res_behavior = behavior w, res_rule = Some w\<rparr>
      | None \<Rightarrow> \<lparr>res_behavior = default_for spec params, res_rule = None\<rparr>)"


section \<open>The winning rule\<close>

text \<open>
  What the specification of \<open>localeCompare\<close> promises: a consistent comparison function, that is, the
  sign of the result is that of a total preorder.
\<close>

definition collation :: "(string \<Rightarrow> string \<Rightarrow> int) \<Rightarrow> bool" where
  "collation lc \<longleftrightarrow>
     (\<forall>x y. lc x y < 0 \<longleftrightarrow> 0 < lc y x) \<and>
     (\<forall>x y z. lc x y \<le> 0 \<longrightarrow> lc y z \<le> 0 \<longrightarrow> lc x z \<le> 0)"

text \<open>A collation, by the first code unit that differs, on which witnesses compute.\<close>

fun codepoint_compare :: "string \<Rightarrow> string \<Rightarrow> int" where
  "codepoint_compare [] [] = 0"
| "codepoint_compare [] (_ # _) = -1"
| "codepoint_compare (_ # _) [] = 1"
| "codepoint_compare (x # xs) (y # ys) =
     (if x = y then codepoint_compare xs ys
      else if (of_char x :: nat) < of_char y then -1 else 1)"

lemma codepoint_compare_flip: "codepoint_compare x y < 0 \<longleftrightarrow> 0 < codepoint_compare y x"
  by (induction x y rule: codepoint_compare.induct) auto

lemma codepoint_compare_trans:
  "codepoint_compare x y \<le> 0 \<Longrightarrow> codepoint_compare y z \<le> 0 \<Longrightarrow> codepoint_compare x z \<le> 0"
proof (induction x y arbitrary: z rule: codepoint_compare.induct)
  case (1 z) then show ?case by simp
next
  case (2 a as z) then show ?case by (cases z) auto
next
  case (3 a as z) then show ?case by simp
next
  case (4 x xs y ys z)
  then show ?case by (cases z) (auto split: if_splits)
qed

lemma collation_codepoint: "collation codepoint_compare"
  unfolding collation_def using codepoint_compare_flip codepoint_compare_trans by blast

lemma rank_of_eq [simp]: "rank_of s = enat (source_rank s)"
  by (simp add: rank_of_def SOURCE_RANK_eq)

lemma beats_iff:
  "beats lc a b \<longleftrightarrow> source_rank (source a) < source_rank (source b) \<or>
     source a = source b \<and> compareSameSourceRules lc a b < 0"
  by (simp add: beats_def Let_def)

lemma compare_flip:
  "collation lc \<Longrightarrow> compareSameSourceRules lc a b < 0 \<longleftrightarrow> 0 < compareSameSourceRules lc b a"
  by (auto simp: compareSameSourceRules_def Let_def collation_def split: option.split)

lemma compare_trans:
  assumes lc: "collation lc"
    and ab: "compareSameSourceRules lc a b \<le> 0" and bc: "compareSameSourceRules lc b c \<le> 0"
  shows "compareSameSourceRules lc a c \<le> 0"
proof (cases "ruleContent a = None \<or> ruleContent b = None \<or> ruleContent c = None")
  case True
  then show ?thesis using ab bc
    by (auto simp: compareSameSourceRules_def Let_def split: option.splits)
next
  case False
  then obtain x y z where [simp]: "ruleContent a = Some x" "ruleContent b = Some y" "ruleContent c = Some z"
    by auto
  have "lc x y \<le> 0 \<Longrightarrow> lc y z \<le> 0 \<Longrightarrow> lc x z \<le> 0" using lc unfolding collation_def by blast
  then show ?thesis using ab bc by (simp add: compareSameSourceRules_def Let_def split: if_splits)
qed

lemma not_beats_trans:
  assumes lc: "collation lc" and "\<not> beats lc b a" and "\<not> beats lc c b"
  shows "\<not> beats lc c a"
proof
  assume "beats lc c a"
  then consider "source_rank (source c) < source_rank (source a)"
    | "source c = source a" "compareSameSourceRules lc c a < 0"
    by (auto simp: beats_iff)
  then show False
  proof cases
    case 1
    then show False using assms(2,3) by (auto simp: beats_iff)
  next
    case 2
    have "source b = source a" and le: "\<not> compareSameSourceRules lc b a < 0" "\<not> compareSameSourceRules lc c b < 0"
      using assms(2,3) 2 by (auto simp: beats_iff not_less)
    have "compareSameSourceRules lc a b \<le> 0" and "compareSameSourceRules lc b c \<le> 0"
      using le compare_flip [OF lc, of b a] compare_flip [OF lc, of c b] by linarith+
    then have "compareSameSourceRules lc a c \<le> 0" by (rule compare_trans [OF lc])
    with 2 compare_flip [OF lc, of c a] show False by linarith
  qed
qed

lemma beats_asym: "collation lc \<Longrightarrow> beats lc a b \<Longrightarrow> \<not> beats lc b a"
  using compare_flip [of lc a b] compare_flip [of lc b a] by (auto simp: beats_iff)

lemma beats_not_beats_trans:
  assumes "collation lc" and "beats lc a b" and "\<not> beats lc c b"
  shows "beats lc a c"
  using assms not_beats_trans by blast

lemma beats_trans:
  assumes "collation lc" and "beats lc a b" and "beats lc b c"
  shows "beats lc a c"
  using assms beats_not_beats_trans beats_asym by blast

text \<open>\<open>first_best\<close>: \<open>w\<close> stands in the list, beats every rule before it and is beaten by none after it.\<close>

definition first_best ::
  "(string \<Rightarrow> string \<Rightarrow> int) \<Rightarrow> (permission_rule \<Rightarrow> bool) \<Rightarrow> permission_rule list \<Rightarrow> permission_rule \<Rightarrow> bool" where
  "first_best lc applies rules w \<longleftrightarrow>
     (\<exists>pre post. rules = pre @ w # post \<and> applies w \<and>
        (\<forall>r \<in> set pre. applies r \<longrightarrow> beats lc w r) \<and>
        (\<forall>r \<in> set post. applies r \<longrightarrow> \<not> beats lc r w))"

lemma first_best_here:
  "applies w \<Longrightarrow> (\<forall>r \<in> set post. applies r \<longrightarrow> \<not> beats lc r w) \<Longrightarrow> first_best lc applies (w # post) w"
  unfolding first_best_def by (rule exI [of _ "[]"], rule exI [of _ post]) simp

lemma first_best_Cons:
  "first_best lc applies rules w \<Longrightarrow> (applies r \<Longrightarrow> beats lc w r) \<Longrightarrow> first_best lc applies (r # rules) w"
  unfolding first_best_def by (metis append_Cons set_ConsD)

lemma resolve_loop_Some:
  assumes lc: "collation lc"
  shows "\<exists>w. resolve_loop lc tool spec params rules (Some w0) = Some w \<and>
     (w = w0 \<and> (\<forall>r \<in> set rules. candidate_applies tool spec params r \<longrightarrow> \<not> beats lc r w0) \<or>
      beats lc w w0 \<and> first_best lc (candidate_applies tool spec params) rules w)"
proof (induction rules arbitrary: w0)
  case Nil
  then show ?case by simp
next
  case (Cons r rules)
  consider (skip) "\<not> candidate_applies tool spec params r"
    | (win) "candidate_applies tool spec params r" "beats lc r w0"
    | (lose) "candidate_applies tool spec params r" "\<not> beats lc r w0"
    by blast
  then show ?case
  proof cases
    case skip
    then show ?thesis using Cons.IH [of w0] by (auto intro: first_best_Cons)
  next
    case win
    then show ?thesis using Cons.IH [of r] beats_trans [OF lc]
      by (auto intro: first_best_Cons first_best_here)
  next
    case lose
    then show ?thesis using Cons.IH [of w0] by (auto intro: first_best_Cons beats_not_beats_trans [OF lc])
  qed
qed

lemma resolve_loop_None:
  assumes lc: "collation lc"
  shows "case resolve_loop lc tool spec params rules None of
      None \<Rightarrow> (\<forall>r \<in> set rules. \<not> candidate_applies tool spec params r)
    | Some w \<Rightarrow> first_best lc (candidate_applies tool spec params) rules w"
proof (induction rules)
  case Nil
  then show ?case by simp
next
  case (Cons r rules)
  show ?case
  proof (cases "candidate_applies tool spec params r")
    case True
    then show ?thesis using resolve_loop_Some [OF lc, of tool spec params rules r]
      by (auto intro: first_best_Cons first_best_here)
  next
    case False
    then show ?thesis using Cons.IH by (auto intro: first_best_Cons split: option.splits)
  qed
qed

lemma resolve_loop_set:
  "resolve_loop lc tool spec params rules w0 = Some w \<Longrightarrow>
   w0 = Some w \<or> w \<in> set rules \<and> candidate_applies tool spec params w"
  by (induction rules arbitrary: w0) (auto split: if_splits option.splits)

lemma resolve_loop_append:
  "resolve_loop lc tool spec params (xs @ ys) w0 =
   resolve_loop lc tool spec params ys (resolve_loop lc tool spec params xs w0)"
  by (induction xs arbitrary: w0) (auto split: option.split)

lemma resolve_loop_unbeaten:
  "(\<And>y. y \<in> set ys \<Longrightarrow> \<not> beats lc y w) \<Longrightarrow> resolve_loop lc tool spec params ys (Some w) = Some w"
  by (induction ys) auto

text \<open>Rules of lower sources than the winner's, listed after, do not change the resolution.\<close>

lemma resolvePermission_lower_rules:
  assumes "res_rule (resolvePermission lc xs tool spec params) = Some w"
    and "\<And>y. y \<in> set ys \<Longrightarrow> source w < source y"
  shows "resolvePermission lc (xs @ ys) tool spec params = resolvePermission lc xs tool spec params"
proof -
  have "resolve_loop lc tool spec params xs None = Some w"
    using assms(1) by (auto simp: resolvePermission_def split: option.splits)
  moreover have "resolve_loop lc tool spec params ys (Some w) = Some w"
    using assms(2) by (intro resolve_loop_unbeaten) (force simp: beats_iff)
  ultimately show ?thesis by (simp add: resolvePermission_def resolve_loop_append)
qed

text \<open>Every applicable rule is beaten or tied by the winner.\<close>

lemma first_best_maximal:
  assumes "collation lc" and "first_best lc applies rules w" and "r \<in> set rules" and "applies r"
  shows "\<not> beats lc r w"
  using assms beats_asym [OF assms(1)] unfolding first_best_def
  by (metis (no_types, lifting) Un_iff set_ConsD set_append)

lemma candidate_applies_unknown:
  assumes "isUnknown spec = Some f" and "f params" and "candidate_applies tool spec params r"
  shows "behavior r \<noteq> Allow"
  using assms by (auto simp: candidate_applies_def ruleMatchesCall_def)

lemma candidate_applies_unknown_deny:
  assumes "isUnknown spec = Some f" and "f params" and "toolName r = tool" and "behavior r = Deny"
  shows "candidate_applies tool spec params r"
  using assms by (auto simp: candidate_applies_def ruleMatchesCall_def)

section \<open>Properties\<close>

text \<open>A rule set on which witnesses evaluate: a fallback contract whose parameter is the command itself.\<close>

definition sample_spec :: "string permission_spec" where
  "sample_spec = permission (UNCLASSIFIED (\<lambda>s. s) :: (string, unit, unit) tool_contract)"

definition sample_rules :: "permission_rule list" where
  "sample_rules =
     [\<lparr>source = Session, behavior = Allow, toolName = ''bash'', ruleContent = None\<rparr>,
      \<lparr>source = User, behavior = Ask, toolName = ''bash'', ruleContent = None\<rparr>,
      \<lparr>source = User, behavior = Deny, toolName = ''bash'', ruleContent = Some ''ls''\<rparr>,
      \<lparr>source = Policy, behavior = Allow, toolName = ''edit'', ruleContent = None\<rparr>]"

lemmas sample_simps = sample_spec_def sample_rules_def UNCLASSIFIED_def resolvePermission_def
  candidate_applies_def ruleMatchesCall_def beats_iff compareSameSourceRules_def

lemma sample_resolution:
  "res_rule (resolvePermission codepoint_compare sample_rules ''bash'' sample_spec ''ls'') =
   Some \<lparr>source = User, behavior = Deny, toolName = ''bash'', ruleContent = Some ''ls''\<rparr>"
  by (simp add: sample_simps)

text \<open>
  C23: The resolution of a call is that of one matching rule, the first of the list among those of
  maximal precedence: it beats every applicable rule before it and is beaten by none after it. With no
  applicable rule, and only then, the tool's own default applies.
\<close>

theorem resolvePermission_first_best:
  assumes "collation lc"
  shows "let res = resolvePermission lc rules tool spec params;
             applies = candidate_applies tool spec params in
         case res_rule res of
           Some w \<Rightarrow> res_behavior res = behavior w \<and> first_best lc applies rules w
         | None \<Rightarrow> res_behavior res = default_for spec params \<and> (\<forall>r \<in> set rules. \<not> applies r)"
  using resolve_loop_None [where tool = tool and spec = spec and params = params and rules = rules, OF assms]
  by (simp add: resolvePermission_def Let_def split: option.splits)

theorem resolvePermission_first_best_witness:
  "res_behavior (resolvePermission codepoint_compare sample_rules ''bash'' sample_spec ''ls'') = Deny \<and>
   first_best codepoint_compare (candidate_applies ''bash'' sample_spec ''ls'') sample_rules
     \<lparr>source = User, behavior = Deny, toolName = ''bash'', ruleContent = Some ''ls''\<rparr>"
  using resolvePermission_first_best [where rules = sample_rules and tool = "''bash''" and spec = sample_spec and
      params = "''ls''", OF collation_codepoint]
    sample_resolution by (simp add: Let_def)

text \<open>
  The resolution does not depend on the order in which the store lists the rules, provided no two
  distinct applicable rules tie: any list of the same rules gives the same behaviour and the same rule.
\<close>

theorem resolvePermission_order_independent:
  assumes "collation lc" and "set rules = set rules'"
    and "\<And>r s. r \<in> set rules \<Longrightarrow> s \<in> set rules \<Longrightarrow> r \<noteq> s \<Longrightarrow>
      candidate_applies tool spec params r \<Longrightarrow> candidate_applies tool spec params s \<Longrightarrow>
      beats lc r s \<or> beats lc s r"
  shows "resolvePermission lc rules tool spec params = resolvePermission lc rules' tool spec params"
proof -
  let ?f = "\<lambda>rs. resolve_loop lc tool spec params rs None"
  note r = resolve_loop_None [where tool = tool and spec = spec and params = params and rules = rules, OF assms(1)]
    and r' = resolve_loop_None [where tool = tool and spec = spec and params = params and rules = rules', OF assms(1)]
  have mem: "w \<in> set rs \<and> candidate_applies tool spec params w" if "?f rs = Some w" for rs w
    using resolve_loop_set [OF that] by simp
  have "?f rules = ?f rules'"
  proof (cases "?f rules"; cases "?f rules'")
    fix w w' assume w: "?f rules = Some w" "?f rules' = Some w'"
    then have "\<not> beats lc w' w" and "\<not> beats lc w w'"
      using r r' mem [OF w(1)] mem [OF w(2)] assms(2) first_best_maximal [OF assms(1)] by auto
    then show ?thesis using assms(2,3) w mem by metis
  qed (use r r' mem assms(2) in auto)
  then show ?thesis by (simp add: resolvePermission_def)
qed

theorem resolvePermission_order_independent_witness:
  "resolvePermission codepoint_compare (rev (take 2 sample_rules)) ''bash'' sample_spec ''ls'' =
   resolvePermission codepoint_compare (take 2 sample_rules) ''bash'' sample_spec ''ls''"
  by (rule resolvePermission_order_independent [OF collation_codepoint])
     (auto simp: sample_rules_def beats_iff)

text \<open>
  C24: A call whose effect the tool cannot analyse is never allowed by a rule: an allow rule does not
  match it, every deny rule for the tool does whatever its content, and a deny rule that no ask rule of
  the same or a higher source accompanies decides the call.
\<close>

theorem resolvePermission_unknown:
  assumes "collation lc" and "isUnknown spec = Some unknown" and "unknown params"
  shows "(\<forall>w. res_rule (resolvePermission lc rules tool spec params) = Some w \<longrightarrow> behavior w \<noteq> Allow) \<and>
     (\<forall>d \<in> set rules. toolName d = tool \<longrightarrow> behavior d = Deny \<longrightarrow>
        (\<forall>a \<in> set rules. toolName a = tool \<longrightarrow> behavior a = Ask \<longrightarrow> source d < source a) \<longrightarrow>
        res_behavior (resolvePermission lc rules tool spec params) = Deny)"
proof (intro conjI allI impI ballI)
  fix w assume "res_rule (resolvePermission lc rules tool spec params) = Some w"
  then show "behavior w \<noteq> Allow"
    using resolve_loop_set [of lc tool spec params rules None w] candidate_applies_unknown assms(2,3)
    by (fastforce simp: resolvePermission_def split: option.splits)
next
  fix d assume d: "d \<in> set rules" "toolName d = tool" "behavior d = Deny"
    and ask: "\<forall>a \<in> set rules. toolName a = tool \<longrightarrow> behavior a = Ask \<longrightarrow> source d < source a"
  have applies: "candidate_applies tool spec params d"
    using d candidate_applies_unknown_deny [of spec unknown params d tool] assms(2,3) by simp
  then obtain w where w: "resolve_loop lc tool spec params rules None = Some w"
    using resolve_loop_None [where tool = tool and spec = spec and params = params and rules = rules, OF assms(1)] d(1)
    by (cases "resolve_loop lc tool spec params rules None") auto
  then have "first_best lc (candidate_applies tool spec params) rules w"
    using resolve_loop_None [where tool = tool and spec = spec and params = params and rules = rules, OF assms(1)] by simp
  then have "\<not> beats lc d w" using first_best_maximal assms(1) applies d(1) by blast
  have mem: "w \<in> set rules" "candidate_applies tool spec params w"
    using resolve_loop_set [OF w] by simp_all
  have "behavior w \<noteq> Ask"
  proof
    assume "behavior w = Ask"
    then have "source d < source w" using ask mem by (simp add: candidate_applies_def)
    with \<open>\<not> beats lc d w\<close> show False by (simp add: beats_iff)
  qed
  moreover have "behavior w \<noteq> Allow" by (rule candidate_applies_unknown [OF assms(2,3) mem(2)])
  ultimately have "behavior w = Deny" by (metis permission_behavior.exhaust)
  then show "res_behavior (resolvePermission lc rules tool spec params) = Deny"
    using w by (simp add: resolvePermission_def)
qed

theorem resolvePermission_unknown_witness:
  "res_behavior (resolvePermission codepoint_compare (drop 2 sample_rules) ''bash''
     (sample_spec\<lparr>isUnknown := Some (\<lambda>_. True)\<rparr>) ''rm'') = Deny"
proof -
  let ?d = "\<lparr>source = User, behavior = Deny, toolName = ''bash'', ruleContent = Some ''ls''\<rparr>"
  have rules: "?d \<in> set (drop 2 sample_rules)" "\<And>a. a \<in> set (drop 2 sample_rules) \<Longrightarrow> behavior a \<noteq> Ask"
    by (auto simp: sample_rules_def)
  show ?thesis
    by (rule resolvePermission_unknown [OF collation_codepoint, where unknown = "\<lambda>_. True",
          THEN conjunct2, rule_format, OF _ _ rules(1)]) (use rules(2) in auto)
qed

text \<open>
  Two applicable rules that tie are decided by their position: the first in the list wins, so two rules
  of one source that differ in behaviour only resolve differently in the two orders.
\<close>

lemma resolvePermission_tie_first:
  assumes "candidate_applies tool spec params a" and "candidate_applies tool spec params b"
    and "\<not> beats lc a b" and "\<not> beats lc b a"
  shows "res_behavior (resolvePermission lc [a, b] tool spec params) = behavior a \<and>
    res_behavior (resolvePermission lc [b, a] tool spec params) = behavior b"
  using assms by (simp add: resolvePermission_def)

lemma resolvePermission_blanket_tie:
  "let allow = \<lparr>source = User, behavior = Allow, toolName = ''bash'', ruleContent = None\<rparr>;
       deny = \<lparr>source = User, behavior = Deny, toolName = ''bash'', ruleContent = None\<rparr> in
   res_behavior (resolvePermission lc [allow, deny] ''bash'' sample_spec ''ls'') = Allow \<and>
   res_behavior (resolvePermission lc [deny, allow] ''bash'' sample_spec ''ls'') = Deny"
  by (simp add: sample_simps)

end
