(* ===== verification/Perm_Modes.thy ===== *)
theory Perm_Modes imports Perm_Rules begin

text \<open>
  Permission modes: the layer \<open>resolveWithMode\<close> puts over a rule resolution
  (\<open>coding-agent/src/core/permissions/modes.ts\<close>), the mode and source types of
  \<open>permissions/store.ts\<close>, and the choice of the effective mode at startup
  (\<open>permissions/startup.ts\<close>).
\<close>

section \<open>Modes and writable sources\<close>

datatype permission_mode = Default_Mode | Plan | AcceptEdits | BypassPermissions | DontAsk

fun mode_name :: "permission_mode \<Rightarrow> string" where
  "mode_name Default_Mode = ''default''"
| "mode_name Plan = ''plan''"
| "mode_name AcceptEdits = ''acceptEdits''"
| "mode_name BypassPermissions = ''bypassPermissions''"
| "mode_name DontAsk = ''dontAsk''"

definition PERMISSION_MODES :: "permission_mode list" where
  "PERMISSION_MODES = [Default_Mode, Plan, AcceptEdits, BypassPermissions, DontAsk]"

text \<open>The three file-backed sources and the two runtime sources that an update may target.\<close>

datatype file_source = F_Local | F_Project | F_User
datatype runtime_source = R_Command | R_Session
datatype writable_source = W_File file_source | W_Runtime runtime_source

fun source_of :: "writable_source \<Rightarrow> permission_source" where
  "source_of (W_File F_Local) = Local"
| "source_of (W_File F_Project) = Project"
| "source_of (W_File F_User) = User"
| "source_of (W_Runtime R_Command) = Command"
| "source_of (W_Runtime R_Session) = Session"

lemma source_of_inject [simp]: "source_of a = source_of b \<longleftrightarrow> a = b"
  by (cases a rule: source_of.cases; cases b rule: source_of.cases) simp_all

section \<open>The mode overlay\<close>

definition PLAN_MODE_DENIED_CAPABILITIES :: "capability list" where
  "PLAN_MODE_DENIED_CAPABILITIES = [Fs_Write, Exec, Delegate]"

definition isPlanModeDenied :: "capability set \<Rightarrow> bool" where
  "isPlanModeDenied caps \<longleftrightarrow> list_ex (\<lambda>c. c \<in> caps) PLAN_MODE_DENIED_CAPABILITIES"

definition isEditShaped :: "capability set \<Rightarrow> bool" where
  "isEditShaped caps \<longleftrightarrow>
     Fs_Write \<in> caps \<and> Exec \<notin> caps \<and> Net \<notin> caps \<and> Delegate \<notin> caps \<and> State \<notin> caps"

definition resolveWithMode ::
  "permission_mode \<Rightarrow> permission_resolution \<Rightarrow> capability set \<Rightarrow> bool option \<Rightarrow> string option \<Rightarrow>
   permission_resolution" where
  "resolveWithMode mode ruleResolution caps withinWs protectedT =
     (if mode = Plan \<and> isPlanModeDenied caps then \<lparr>res_behavior = Deny, res_rule = None\<rparr>
      else if map_option source (res_rule ruleResolution) = Some Policy then ruleResolution
      else if protectedT \<noteq> None then \<lparr>res_behavior = Ask, res_rule = None\<rparr>
      else if mode = BypassPermissions then \<lparr>res_behavior = Allow, res_rule = None\<rparr>
      else if res_rule ruleResolution \<noteq> None then ruleResolution
      else if mode = DontAsk \<and> res_behavior ruleResolution = Ask
        then \<lparr>res_behavior = Deny, res_rule = None\<rparr>
      else if mode = AcceptEdits \<and> res_behavior ruleResolution = Ask \<and> isEditShaped caps \<and>
              withinWs = Some True
        then \<lparr>res_behavior = Allow, res_rule = None\<rparr>
      else ruleResolution)"

section \<open>The effective mode\<close>

datatype startup_result = Startup_Ok permission_mode | Startup_Failed string

definition resolvePermissionModeForStartup :: "bool \<Rightarrow> permission_mode option \<Rightarrow> startup_result" where
  "resolvePermissionModeForStartup interactive requestedMode =
     (case requestedMode of
        Some mode \<Rightarrow> Startup_Ok mode
      | None \<Rightarrow>
          if \<not> interactive
          then Startup_Failed
            (''Non-interactive sessions require an explicit --permission-mode. Valid modes: '' @
             join '', '' (map mode_name PERMISSION_MODES) @ ''.'')
          else Startup_Ok Default_Mode)"

datatype mode_origin = Origin_Interactive | Origin_Flag | Origin_Source writable_source | Origin_Default

text \<open>\<open>None\<close> stands for the entry \<open>"flag"\<close> of the order.\<close>

definition MODE_SOURCE_ORDER :: "writable_source option list" where
  "MODE_SOURCE_ORDER =
     [None, Some (W_File F_Local), Some (W_File F_Project), Some (W_File F_User),
      Some (W_Runtime R_Command), Some (W_Runtime R_Session)]"

fun effective_mode_loop ::
  "permission_mode option \<Rightarrow> (writable_source \<rightharpoonup> permission_mode) \<Rightarrow> writable_source option list \<Rightarrow>
   permission_mode \<times> mode_origin" where
  "effective_mode_loop flagMode modes [] = (Default_Mode, Origin_Default)"
| "effective_mode_loop flagMode modes (None # order) =
     (case flagMode of
        Some mode \<Rightarrow> (mode, Origin_Flag)
      | None \<Rightarrow> effective_mode_loop flagMode modes order)"
| "effective_mode_loop flagMode modes (Some s # order) =
     (case modes s of
        Some mode \<Rightarrow> (mode, Origin_Source s)
      | None \<Rightarrow> effective_mode_loop flagMode modes order)"

definition resolveEffectiveModeWithOrigin ::
  "permission_mode option \<Rightarrow> (writable_source \<rightharpoonup> permission_mode) \<Rightarrow> permission_mode \<times> mode_origin" where
  "resolveEffectiveModeWithOrigin flagMode modes = effective_mode_loop flagMode modes MODE_SOURCE_ORDER"

definition resolveEffectiveMode ::
  "permission_mode option \<Rightarrow> (writable_source \<rightharpoonup> permission_mode) \<Rightarrow> permission_mode" where
  "resolveEffectiveMode flagMode modes = fst (resolveEffectiveModeWithOrigin flagMode modes)"

section \<open>Properties\<close>

text \<open>
  Exactly when a call is allowed: never for a mutating tool in plan mode; otherwise by an allow rule
  of the managed policy, or, when no policy rule matched and the target is not protected, by
  \<open>bypassPermissions\<close>, by an allow rule or default, or by \<open>acceptEdits\<close> for an edit-shaped tool that
  would have asked by default and states that it stays in the workspace.
\<close>

theorem resolveWithMode_allows_iff:
  "res_behavior (resolveWithMode mode r caps inside target) = Allow \<longleftrightarrow>
     \<not> (mode = Plan \<and> isPlanModeDenied caps) \<and>
     (if map_option source (res_rule r) = Some Policy then res_behavior r = Allow
      else target = None \<and>
        (mode = BypassPermissions \<or> res_behavior r = Allow \<or>
         mode = AcceptEdits \<and> res_rule r = None \<and> res_behavior r = Ask \<and> isEditShaped caps \<and>
           inside = Some True))"
  by (auto simp: resolveWithMode_def)

text \<open>
  A mode never relaxes a refusal by rule, except \<open>bypassPermissions\<close> on a rule that is not the
  managed policy's: a call denied by its rule stays denied, or is asked about when its target is
  protected.
\<close>

theorem resolveWithMode_deny_floor:
  assumes "res_rule r = Some rule" and "res_behavior r = Deny"
    and "mode = BypassPermissions \<Longrightarrow> source rule = Policy"
  shows "res_behavior (resolveWithMode mode r caps inside target) = Deny \<or>
     res_behavior (resolveWithMode mode r caps inside target) = Ask \<and> target \<noteq> None \<and> source rule \<noteq> Policy"
  using assms by (auto simp: resolveWithMode_def)

theorem resolveWithMode_deny_floor_witness:
  "res_behavior (resolveWithMode BypassPermissions
     \<lparr>res_behavior = Deny,
      res_rule = Some \<lparr>source = Policy, behavior = Deny, toolName = ''bash'', ruleContent = None\<rparr>\<rparr>
     {Exec} None (Some ''key'')) = Deny"
  using resolveWithMode_deny_floor
    [of "\<lparr>res_behavior = Deny,
      res_rule = Some \<lparr>source = Policy, behavior = Deny, toolName = ''bash'', ruleContent = None\<rparr>\<rparr>"
      "\<lparr>source = Policy, behavior = Deny, toolName = ''bash'', ruleContent = None\<rparr>" BypassPermissions
      "{Exec}" None "Some ''key''"] by simp

lemmas effective_mode_simps = resolveEffectiveModeWithOrigin_def MODE_SOURCE_ORDER_def

lemma no_modes_iff:
  "dom modes = {} \<longleftrightarrow> (\<forall>s \<in> {W_File F_Local, W_File F_Project, W_File F_User, W_Runtime R_Command,
     W_Runtime R_Session}. modes s = None)"
proof -
  have "dom modes = {} \<longleftrightarrow> (\<forall>s. modes s = None)" by auto
  moreover have "modes s = None" if "\<forall>s \<in> {W_File F_Local, W_File F_Project, W_File F_User,
    W_Runtime R_Command, W_Runtime R_Session}. modes s = None" for s
    using that by (cases s rule: source_of.cases) simp_all
  ultimately show ?thesis by blast
qed

text \<open>
  The effective mode is that of the highest source that sets one, the command-line flag first, and
  the reported origin says which: a write to a lower source than the origin changes nothing. Without any
  setting the mode is the default one.
\<close>

theorem resolveEffectiveMode_highest:
  assumes res: "resolveEffectiveModeWithOrigin flagMode modes = (mode, origin)"
  shows "(\<forall>m. flagMode = Some m \<longrightarrow> mode = m \<and> origin = Origin_Flag) \<and>
     (\<forall>s. origin = Origin_Source s \<longrightarrow> modes s = Some mode \<and>
        (\<forall>t. source_of t < source_of s \<longrightarrow> modes t = None) \<and>
        (\<forall>t m. source_of s < source_of t \<longrightarrow>
           resolveEffectiveModeWithOrigin flagMode (modes(t \<mapsto> m)) = (mode, origin))) \<and>
     (origin = Origin_Default \<longleftrightarrow> flagMode = None \<and> dom modes = {}) \<and>
     (origin = Origin_Default \<longrightarrow> mode = Default_Mode)"
proof (intro conjI allI impI)
  fix m assume "flagMode = Some m"
  then show "mode = m" and "origin = Origin_Flag" using res by (auto simp: effective_mode_simps)
next
  fix s assume s: "origin = Origin_Source s"
  show "modes s = Some mode" using res s by (auto simp: effective_mode_simps split: option.splits)
  fix t
  show "modes t = None" if "source_of t < source_of s"
    using res s that unfolding effective_mode_simps
    by (cases s rule: source_of.cases; cases t rule: source_of.cases)
       (simp_all split: option.split_asm)
  fix m
  show "resolveEffectiveModeWithOrigin flagMode (modes(t \<mapsto> m)) = (mode, origin)"
    if "source_of s < source_of t"
    using res s that unfolding effective_mode_simps
    by (cases s rule: source_of.cases; cases t rule: source_of.cases)
       (simp_all split: option.split_asm)
next
  show "origin = Origin_Default \<longleftrightarrow> flagMode = None \<and> dom modes = {}"
    using res unfolding no_modes_iff by (auto simp: effective_mode_simps split: option.splits)
  show "origin = Origin_Default \<Longrightarrow> mode = Default_Mode"
    using res by (auto simp: effective_mode_simps split: option.splits)
qed

theorem resolveEffectiveMode_highest_witness:
  "resolveEffectiveModeWithOrigin None
     ([W_File F_Project \<mapsto> Plan, W_File F_User \<mapsto> DontAsk, W_Runtime R_Session \<mapsto> BypassPermissions]) =
   (Plan, Origin_Source (W_File F_Project))"
  using resolveEffectiveMode_highest
    [of None "[W_File F_Project \<mapsto> Plan, W_File F_User \<mapsto> DontAsk]" Plan "Origin_Source (W_File F_Project)"]
  by (auto simp: resolveEffectiveModeWithOrigin_def MODE_SOURCE_ORDER_def)

end
