(* ===== verification/Json.thy ===== *)
theory Json imports Prelude "HOL-Library.Word" begin

text \<open>
  JavaScript numbers and JSON values. A number is an integral value \<open>JInt\<close> or the bit pattern of any
  other binary64 value \<open>JFrac\<close> (fractions, infinities, NaN, negative zero). An object is the list of
  its own properties in enumeration order.
\<close>

section \<open>Numbers\<close>

datatype jsnum = JInt int | JFrac "64 word"

definition NEG_ZERO :: "64 word" where
  "NEG_ZERO = 0x8000000000000000"

text \<open>Exponent bits all ones, and a mantissa that is not zero.\<close>

fun num_is_nan :: "jsnum \<Rightarrow> bool" where
  "num_is_nan (JInt _) = False"
| "num_is_nan (JFrac w) \<longleftrightarrow>
     take_bit 11 (drop_bit 52 w) = 0x7FF \<and> take_bit 52 w \<noteq> 0"

fun num_is_finite :: "jsnum \<Rightarrow> bool" where
  "num_is_finite (JInt _) = True"
| "num_is_finite (JFrac w) \<longleftrightarrow> take_bit 11 (drop_bit 52 w) \<noteq> 0x7FF"

text \<open>The operator \<open>===\<close> on numbers: NaN differs from itself, the two zeros are equal.\<close>

definition num_zero :: "jsnum \<Rightarrow> bool" where
  "num_zero n \<longleftrightarrow> n = JInt 0 \<or> n = JFrac NEG_ZERO"

definition num_eq :: "jsnum \<Rightarrow> jsnum \<Rightarrow> bool" where
  "num_eq a b \<longleftrightarrow> \<not> num_is_nan a \<and> (a = b \<or> num_zero a \<and> num_zero b)"

lemma num_eq_refl_iff: "num_eq a a \<longleftrightarrow> \<not> num_is_nan a"
  by (simp add: num_eq_def)

lemma num_finite_not_nan: "num_is_finite a \<Longrightarrow> \<not> num_is_nan a"
  by (cases a) simp_all

lemma num_zero_not_nan: "num_zero a \<Longrightarrow> \<not> num_is_nan a"
  by (auto simp: num_zero_def NEG_ZERO_def)

lemma num_eq_sym: "num_eq a b \<Longrightarrow> num_eq b a"
  by (auto simp: num_eq_def num_zero_not_nan)

lemma num_eq_trans: "num_eq a b \<Longrightarrow> num_eq b c \<Longrightarrow> num_eq a c"
  by (auto simp: num_eq_def)

section \<open>Values\<close>

datatype json =
    JNull
  | JBool bool
  | JNum jsnum
  | JStr string
  | JArr "json list"
  | JObj "(string \<times> json) list"

end
