(* ===== verification/Perm_Store.thy ===== *)
theory Perm_Store imports Perm_Modes Json begin

text \<open>
  The rule stores (\<open>coding-agent/src/core/permissions/store.ts\<close>): the stored scope and its parser, the
  four updates, the file-backed store, which captures each file once, and the derived store of a
  delegated child. \<open>parse\<close> and \<open>stringify\<close> stand for \<open>JSON.parse\<close> and \<open>JSON.stringify\<close>, \<open>disk\<close> for
  what a read of each file would return now. Unknown fields of a stored file are not kept.
\<close>

section \<open>Updates and scopes\<close>

record stored_rule =
  st_toolName :: string
  st_behavior :: permission_behavior
  st_ruleContent :: "string option"

record rule_matcher =
  m_toolName :: string
  m_ruleContent :: "string option"

datatype permission_update =
    AddRules (destination: writable_source) "stored_rule list"
  | ReplaceRules (destination: writable_source) "stored_rule list"
  | RemoveRules (destination: writable_source) "rule_matcher list"
  | SetMode (destination: writable_source) permission_mode

record store_error =
  err_source :: permission_source
  err_message :: string

record store_snapshot =
  snap_rules :: "permission_rule list"
  snap_modes :: "writable_source \<rightharpoonup> permission_mode"
  snap_errors :: "store_error list"

definition STORE_VERSION :: int where
  "STORE_VERSION = 1"

record stored_scope =
  scope_rules :: "stored_rule list"
  scope_mode :: "permission_mode option"

definition emptyScope :: stored_scope where
  "emptyScope = \<lparr>scope_rules = [], scope_mode = None\<rparr>"

section \<open>Parsing a scope\<close>

definition behavior_of_name :: "string \<Rightarrow> permission_behavior option" where
  "behavior_of_name s =
     (if s = ''allow'' then Some Allow else if s = ''deny'' then Some Deny
      else if s = ''ask'' then Some Ask else None)"

definition isPermissionBehavior :: "json option \<Rightarrow> bool" where
  "isPermissionBehavior v = (case v of Some (JStr s) \<Rightarrow> behavior_of_name s \<noteq> None | _ \<Rightarrow> False)"

definition mode_of_name :: "string \<Rightarrow> permission_mode option" where
  "mode_of_name s = List.find (\<lambda>m. mode_name m = s) PERMISSION_MODES"

text \<open>One element of \<open>parsed.rules\<close>: the test of the \<open>every\<close> callback, then the fields it checked.\<close>

definition stored_rule_of :: "json \<Rightarrow> stored_rule option" where
  "stored_rule_of v =
     (case v of
        JObj m \<Rightarrow>
          (case (al_get ''toolName'' m, al_get ''behavior'' m) of
             (Some (JStr t), Some (JStr b)) \<Rightarrow>
               (case behavior_of_name b of
                  None \<Rightarrow> None
                | Some bv \<Rightarrow>
                    (case al_get ''ruleContent'' m of
                       None \<Rightarrow> Some \<lparr>st_toolName = t, st_behavior = bv, st_ruleContent = None\<rparr>
                     | Some (JStr c) \<Rightarrow>
                         Some \<lparr>st_toolName = t, st_behavior = bv, st_ruleContent = Some c\<rparr>
                     | Some _ \<Rightarrow> None))
           | _ \<Rightarrow> None)
      | _ \<Rightarrow> None)"

fun map_all :: "('a \<Rightarrow> 'b option) \<Rightarrow> 'a list \<Rightarrow> 'b list option" where
  "map_all f [] = Some []"
| "map_all f (x # xs) =
     (case f x of None \<Rightarrow> None | Some y \<Rightarrow> (case map_all f xs of None \<Rightarrow> None | Some ys \<Rightarrow> Some (y # ys)))"

definition BAD_SHAPE :: string where
  "BAD_SHAPE = ''Invalid permission rules file: unexpected shape''"

definition scope_of_object :: "(string \<times> json) list \<Rightarrow> stored_scope option" where
  "scope_of_object parsed =
     (let version_ok = (case al_get ''version'' parsed of
            Some (JNum n) \<Rightarrow> num_eq n (JInt STORE_VERSION) | _ \<Rightarrow> False);
          mode = (case al_get ''mode'' parsed of
            None \<Rightarrow> Some None
          | Some (JStr s) \<Rightarrow> (case mode_of_name s of None \<Rightarrow> None | Some m \<Rightarrow> Some (Some m))
          | Some _ \<Rightarrow> None);
          rules = (case al_get ''rules'' parsed of
            Some (JArr vs) \<Rightarrow> map_all stored_rule_of vs | _ \<Rightarrow> None) in
      if \<not> version_ok then None
      else case (mode, rules) of
          (Some m, Some rs) \<Rightarrow> Some \<lparr>scope_rules = rs, scope_mode = m\<rparr>
        | _ \<Rightarrow> None)"

definition parseScope :: "(string \<Rightarrow> json throws) \<Rightarrow> string option \<Rightarrow> stored_scope throws" where
  "parseScope parse content =
     (case content of
        None \<Rightarrow> Inr emptyScope
      | Some c \<Rightarrow>
          if c = [] then Inr emptyScope
          else bind_throws (parse c) (\<lambda>parsed. case parsed of
              JObj m \<Rightarrow>
                (if \<not> al_has ''version'' m \<and> \<not> al_has ''rules'' m \<and> \<not> al_has ''mode'' m
                 then Inr emptyScope
                 else case scope_of_object m of None \<Rightarrow> Inl BAD_SHAPE | Some s \<Rightarrow> Inr s)
            | _ \<Rightarrow> Inl BAD_SHAPE))"

definition permissionContentConfersAuthority :: "(string \<Rightarrow> json throws) \<Rightarrow> string option \<Rightarrow> bool" where
  "permissionContentConfersAuthority parse content =
     (case parseScope parse content of
        Inl _ \<Rightarrow> True
      | Inr s \<Rightarrow> scope_rules s \<noteq> [] \<or> scope_mode s \<noteq> None)"

section \<open>Applying an update to a scope\<close>

fun applyToScope :: "permission_update \<Rightarrow> stored_scope \<Rightarrow> stored_scope" where
  "applyToScope (AddRules d rules) s = s\<lparr>scope_rules := scope_rules s @ rules\<rparr>"
| "applyToScope (ReplaceRules d rules) s = s\<lparr>scope_rules := rules\<rparr>"
| "applyToScope (RemoveRules d matching) s =
     s\<lparr>scope_rules := filter (\<lambda>rule. \<not> list_ex (\<lambda>m. m_toolName m = st_toolName rule \<and>
        m_ruleContent m = st_ruleContent rule) matching) (scope_rules s)\<rparr>"
| "applyToScope (SetMode d mode) s = s\<lparr>scope_mode := Some mode\<rparr>"

section \<open>The file-backed store\<close>

text \<open>What a read of a file returns: its content (a backend may return none), a missing file, a failure.\<close>

datatype read_result = Read_Ok "string option" | Read_Enoent | Read_Failed string

record disk =
  file_content :: "file_source \<Rightarrow> read_result"
  policy_content :: read_result

record captured =
  cap_scope :: stored_scope
  cap_error :: "string option"

record file_store =
  initialRules :: "permission_rule list"
  projectTrusted :: bool
  fileScopes :: "file_source \<rightharpoonup> captured"
  runtimeRules :: "runtime_source \<Rightarrow> stored_rule list"
  runtimeModes :: "runtime_source \<rightharpoonup> permission_mode"

definition newFilePermissionRuleStore :: "permission_rule list \<Rightarrow> bool \<Rightarrow> file_store" where
  "newFilePermissionRuleStore initial trusted =
     \<lparr>initialRules = initial, projectTrusted = trusted,
      fileScopes =
        (if trusted then Map.empty
         else [F_Local \<mapsto> \<lparr>cap_scope = emptyScope, cap_error = None\<rparr>,
               F_Project \<mapsto> \<lparr>cap_scope = emptyScope, cap_error = None\<rparr>]),
      runtimeRules = (\<lambda>_. []), runtimeModes = Map.empty\<rparr>"

definition scope_of_read :: "(string \<Rightarrow> json throws) \<Rightarrow> read_result \<Rightarrow> captured" where
  "scope_of_read parse r =
     (case r of
        Read_Enoent \<Rightarrow> \<lparr>cap_scope = emptyScope, cap_error = None\<rparr>
      | Read_Failed e \<Rightarrow> \<lparr>cap_scope = emptyScope, cap_error = Some e\<rparr>
      | Read_Ok content \<Rightarrow>
          (case parseScope parse content of
             Inr s \<Rightarrow> \<lparr>cap_scope = s, cap_error = None\<rparr>
           | Inl e \<Rightarrow> \<lparr>cap_scope = emptyScope, cap_error = Some e\<rparr>))"

definition readFileBackedScope ::
  "(string \<Rightarrow> json throws) \<Rightarrow> disk \<Rightarrow> file_source \<Rightarrow> captured" where
  "readFileBackedScope parse d src = scope_of_read parse (file_content d src)"

definition readPolicy :: "(string \<Rightarrow> json throws) \<Rightarrow> disk \<Rightarrow> captured" where
  "readPolicy parse d = scope_of_read parse (policy_content d)"

definition capturedFileBackedScope ::
  "(string \<Rightarrow> json throws) \<Rightarrow> disk \<Rightarrow> file_source \<Rightarrow> file_store \<Rightarrow> captured \<times> file_store" where
  "capturedFileBackedScope parse d src s =
     (case fileScopes s src of
        Some c \<Rightarrow> (c, s)
      | None \<Rightarrow>
          (let initial = readFileBackedScope parse d src in
           (initial, s\<lparr>fileScopes := (fileScopes s)(src \<mapsto> initial)\<rparr>)))"

definition rule_with_source :: "permission_source \<Rightarrow> stored_rule \<Rightarrow> permission_rule" where
  "rule_with_source src r =
     \<lparr>source = src, behavior = st_behavior r, toolName = st_toolName r, ruleContent = st_ruleContent r\<rparr>"

definition error_of :: "permission_source \<Rightarrow> captured \<Rightarrow> store_error list" where
  "error_of src c =
     (case cap_error c of None \<Rightarrow> [] | Some e \<Rightarrow> [\<lparr>err_source = src, err_message = e\<rparr>])"

definition rules_of :: "permission_source \<Rightarrow> captured \<Rightarrow> permission_rule list" where
  "rules_of src c = map (rule_with_source src) (scope_rules (cap_scope c))"

definition modes_by_source ::
  "captured \<Rightarrow> captured \<Rightarrow> captured \<Rightarrow> (runtime_source \<rightharpoonup> permission_mode) \<Rightarrow> writable_source \<rightharpoonup> permission_mode" where
  "modes_by_source local project user runtime ws =
     (case ws of
        W_File F_Local \<Rightarrow> scope_mode (cap_scope local)
      | W_File F_Project \<Rightarrow> scope_mode (cap_scope project)
      | W_File F_User \<Rightarrow> scope_mode (cap_scope user)
      | W_Runtime r \<Rightarrow> runtime r)"

definition snapshot ::
  "(string \<Rightarrow> json throws) \<Rightarrow> disk \<Rightarrow> file_store \<Rightarrow> store_snapshot \<times> file_store" where
  "snapshot parse d s =
     (let policy = readPolicy parse d;
          (user, s1) = capturedFileBackedScope parse d F_User s;
          (local, s2) = capturedFileBackedScope parse d F_Local s1;
          (project, s3) = capturedFileBackedScope parse d F_Project s2 in
      (\<lparr>snap_rules =
          rules_of Policy policy @ initialRules s @ rules_of Local local @ rules_of Project project @
          rules_of User user @ map (rule_with_source Command) (runtimeRules s R_Command) @
          map (rule_with_source Session) (runtimeRules s R_Session),
        snap_modes = modes_by_source local project user (runtimeModes s),
        snap_errors =
          error_of Policy policy @ error_of Local local @ error_of Project project @ error_of User user\<rparr>,
       s3))"

definition applyRuntime :: "runtime_source \<Rightarrow> permission_update \<Rightarrow> file_store \<Rightarrow> file_store" where
  "applyRuntime r update s =
     (case update of
        SetMode _ mode \<Rightarrow> s\<lparr>runtimeModes := (runtimeModes s)(r \<mapsto> mode)\<rparr>
      | _ \<Rightarrow>
          (let current = \<lparr>scope_rules = runtimeRules s r, scope_mode = None\<rparr> in
           s\<lparr>runtimeRules := (runtimeRules s)(r := scope_rules (applyToScope update current))\<rparr>))"

text \<open>
  \<open>apply\<close>. \<open>write\<close> is the locked write of a backend: it fails with an error or gives the new disk. Updates
  of one file are serialized by the store, so one update is one step.
\<close>

definition source_name :: "permission_source \<Rightarrow> string" where
  "source_name s =
     (case s of Policy \<Rightarrow> ''policy'' | Flag \<Rightarrow> ''flag'' | Local \<Rightarrow> ''local'' | Project \<Rightarrow> ''project''
      | User \<Rightarrow> ''user'' | Cli_Arg \<Rightarrow> ''cliArg'' | Command \<Rightarrow> ''command'' | Session \<Rightarrow> ''session'')"

definition apply_update ::
  "(string \<Rightarrow> json throws) \<Rightarrow> (stored_scope \<Rightarrow> string) \<Rightarrow>
   (file_source \<Rightarrow> string \<Rightarrow> disk \<Rightarrow> disk throws) \<Rightarrow> permission_update \<Rightarrow> file_store \<times> disk \<Rightarrow>
   unit throws \<times> file_store \<times> disk" where
  "apply_update parse stringify write update st =
     (let (s, d) = st in
      case destination update of
        W_Runtime r \<Rightarrow> (Inr (), applyRuntime r update s, d)
      | W_File dest \<Rightarrow>
          (if \<not> projectTrusted s \<and> (dest = F_Local \<or> dest = F_Project)
           then (Inl (''Cannot update untrusted '' @ source_name (source_of (W_File dest)) @
                      '' permission scope''), s, d)
           else
             (let (current, s1) = capturedFileBackedScope parse d dest s;
                  next_scope = applyToScope update (cap_scope current) in
              case write dest (stringify next_scope) d of
                Inl e \<Rightarrow> (Inl e, s1, d)
              | Inr d' \<Rightarrow>
                  (Inr (),
                   s1\<lparr>fileScopes := (fileScopes s1)(dest \<mapsto> \<lparr>cap_scope = next_scope, cap_error = None\<rparr>)\<rparr>,
                   d'))))"

section \<open>The store of a delegated child\<close>

record derived_store =
  overlayRules :: "runtime_source \<Rightarrow> stored_rule list"
  overlayModes :: "runtime_source \<rightharpoonup> permission_mode"

definition newDerivedPermissionRuleStore :: derived_store where
  "newDerivedPermissionRuleStore = \<lparr>overlayRules = (\<lambda>_. []), overlayModes = Map.empty\<rparr>"

definition derived_modes ::
  "(writable_source \<rightharpoonup> permission_mode) \<Rightarrow> derived_store \<Rightarrow> writable_source \<rightharpoonup> permission_mode" where
  "derived_modes parent_modes s ws =
     (case ws of
        W_File _ \<Rightarrow> parent_modes ws
      | W_Runtime r \<Rightarrow> (case overlayModes s r of Some m \<Rightarrow> Some m | None \<Rightarrow> parent_modes ws))"

definition derived_snapshot :: "store_snapshot \<Rightarrow> derived_store \<Rightarrow> store_snapshot" where
  "derived_snapshot parent s =
     \<lparr>snap_rules = snap_rules parent @ map (rule_with_source Command) (overlayRules s R_Command) @
        map (rule_with_source Session) (overlayRules s R_Session),
      snap_modes = derived_modes (snap_modes parent) s,
      snap_errors = snap_errors parent\<rparr>"

definition derived_apply :: "permission_update \<Rightarrow> derived_store \<Rightarrow> unit throws \<times> derived_store" where
  "derived_apply update s =
     (case destination update of
        W_File f \<Rightarrow>
          (Inl (''A delegated child cannot persist permission rules to \"'' @
                source_name (source_of (W_File f)) @
                ''\" -- only \"command\" and \"session\" are writable from a derived store (ADR 0008).''), s)
      | W_Runtime r \<Rightarrow>
          (case update of
             SetMode _ mode \<Rightarrow> (Inr (), s\<lparr>overlayModes := (overlayModes s)(r \<mapsto> mode)\<rparr>)
           | _ \<Rightarrow>
               (let current = \<lparr>scope_rules = overlayRules s r, scope_mode = None\<rparr> in
                (Inr (), s\<lparr>overlayRules := (overlayRules s)(r := scope_rules (applyToScope update current))\<rparr>))))"

section \<open>What a store promises to the gate\<close>

text \<open>
  The interface \<open>PermissionRuleStore\<close>: a session update always succeeds and shows up last in the next
  snapshot, which otherwise is the same.
\<close>

locale permission_store =
  fixes snap :: "'s \<Rightarrow> store_snapshot"
    and app :: "permission_update \<Rightarrow> 's \<Rightarrow> unit throws \<times> 's"
  assumes add_session_ok: "fst (app (AddRules (W_Runtime R_Session) rs) s) = Inr ()"
    and add_session_rules: "snap_rules (snap (snd (app (AddRules (W_Runtime R_Session) rs) s))) =
      snap_rules (snap s) @ map (rule_with_source Session) rs"
    and add_session_modes: "snap_modes (snap (snd (app (AddRules (W_Runtime R_Session) rs) s))) =
      snap_modes (snap s)"
    and add_session_errors: "snap_errors (snap (snd (app (AddRules (W_Runtime R_Session) rs) s))) =
      snap_errors (snap s)"
begin

text \<open>The session rule decides the next call when it applies and no rule of the store outranks or ties it.\<close>

lemma added_session_rule_decides:
  fixes stored :: stored_rule
  defines "r \<equiv> rule_with_source Session stored"
  assumes lc: "collation lc" and applies: "candidate_applies tool spec params r"
    and best: "\<And>w. w \<in> set (snap_rules (snap s)) \<Longrightarrow> candidate_applies tool spec params w \<Longrightarrow> beats lc r w"
  shows "resolvePermission lc (snap_rules (snap (snd (app (AddRules (W_Runtime R_Session) [stored]) s))))
    tool spec params = \<lparr>res_behavior = st_behavior stored, res_rule = Some r\<rparr>"
proof -
  have "resolve_loop lc tool spec params (snap_rules (snap s) @ [r]) None = Some r"
    using resolve_loop_set [of lc tool spec params "snap_rules (snap s)" None] applies best
    by (auto simp: resolve_loop_append split: option.split)
  then show ?thesis
    by (simp add: add_session_rules resolvePermission_def r_def rule_with_source_def)
qed

text \<open>No session rule changes the outcome of a call that a rule of another source decides.\<close>

lemma added_session_rule_outranked:
  assumes "res_rule (resolvePermission lc (snap_rules (snap s)) tool spec params) = Some w"
    and "source w \<noteq> Session"
  shows "resolvePermission lc (snap_rules (snap (snd (app (AddRules (W_Runtime R_Session) rs) s))))
    tool spec params = resolvePermission lc (snap_rules (snap s)) tool spec params"
  unfolding add_session_rules
  by (rule resolvePermission_lower_rules [OF assms(1)])
     (use assms(2) in \<open>cases "source w"; auto simp: rule_with_source_def\<close>)

end

lemma captured_id [simp]:
  "initialRules (snd (capturedFileBackedScope parse d src s)) = initialRules s"
  "projectTrusted (snd (capturedFileBackedScope parse d src s)) = projectTrusted s"
  "runtimeRules (snd (capturedFileBackedScope parse d src s)) = runtimeRules s"
  "runtimeModes (snd (capturedFileBackedScope parse d src s)) = runtimeModes s"
  by (simp_all add: capturedFileBackedScope_def Let_def split: option.split)

text \<open>The captured scope of a source, whether it was read before or is read now.\<close>

definition scope_now :: "(string \<Rightarrow> json throws) \<Rightarrow> disk \<Rightarrow> file_store \<Rightarrow> file_source \<Rightarrow> captured" where
  "scope_now parse d s src =
     (case fileScopes s src of Some c \<Rightarrow> c | None \<Rightarrow> readFileBackedScope parse d src)"

lemma captured_scope_now: "fst (capturedFileBackedScope parse d src s) = scope_now parse d s src"
  by (simp add: capturedFileBackedScope_def scope_now_def Let_def split: option.split)

lemma captured_snd:
  "snd (capturedFileBackedScope parse d src s) =
     s\<lparr>fileScopes := (fileScopes s)(src \<mapsto> scope_now parse d s src)\<rparr>"
proof (cases "fileScopes s src")
  case None
  then show ?thesis by (simp add: capturedFileBackedScope_def scope_now_def Let_def)
next
  case (Some c)
  then have "(fileScopes s)(src \<mapsto> c) = fileScopes s" by (rule fun_upd_idem)
  with Some show ?thesis by (simp add: capturedFileBackedScope_def scope_now_def)
qed

lemma captured_fileScopes:
  "fileScopes (snd (capturedFileBackedScope parse d src s)) =
     (fileScopes s)(src \<mapsto> scope_now parse d s src)"
  by (simp add: captured_snd)

lemma scope_now_captured [simp]:
  "scope_now parse d (snd (capturedFileBackedScope parse d src s)) src' = scope_now parse d s src'"
  by (auto simp: scope_now_def captured_fileScopes)

lemma snapshot_fst:
  "fst (snapshot parse d s) =
     \<lparr>snap_rules =
        rules_of Policy (readPolicy parse d) @ initialRules s @ rules_of Local (scope_now parse d s F_Local) @
        rules_of Project (scope_now parse d s F_Project) @ rules_of User (scope_now parse d s F_User) @
        map (rule_with_source Command) (runtimeRules s R_Command) @
        map (rule_with_source Session) (runtimeRules s R_Session),
      snap_modes = modes_by_source (scope_now parse d s F_Local) (scope_now parse d s F_Project)
        (scope_now parse d s F_User) (runtimeModes s),
      snap_errors =
        error_of Policy (readPolicy parse d) @ error_of Local (scope_now parse d s F_Local) @
        error_of Project (scope_now parse d s F_Project) @ error_of User (scope_now parse d s F_User)\<rparr>"
  by (simp add: snapshot_def Let_def split_beta captured_scope_now)

lemma snapshot_snd:
  "snd (snapshot parse d s) = s\<lparr>fileScopes := (\<lambda>src. Some (scope_now parse d s src))\<rparr>"
proof -
  have *: "(fileScopes s)(F_User \<mapsto> scope_now parse d s F_User, F_Local \<mapsto> scope_now parse d s F_Local,
      F_Project \<mapsto> scope_now parse d s F_Project) = (\<lambda>src. Some (scope_now parse d s src))"
    (is "?l = ?r")
  proof
    fix src show "?l src = ?r src" by (cases src) simp_all
  qed
  have "snd (snapshot parse d s) = s\<lparr>fileScopes := (fileScopes s)(F_User \<mapsto> scope_now parse d s F_User,
      F_Local \<mapsto> scope_now parse d s F_Local, F_Project \<mapsto> scope_now parse d s F_Project)\<rparr>"
    by (simp add: snapshot_def split_beta Let_def captured_snd scope_now_captured [unfolded captured_snd])
  then show ?thesis unfolding * .
qed

lemma applyRuntime_simps [simp]:
  "initialRules (applyRuntime r u s) = initialRules s"
  "projectTrusted (applyRuntime r u s) = projectTrusted s"
  "fileScopes (applyRuntime r u s) = fileScopes s"
  by (cases u; simp add: applyRuntime_def Let_def)+

interpretation file_rules: permission_store
  "\<lambda>s. fst (snapshot parse d s)"
  "\<lambda>u s. (fst (apply_update parse stringify wr u (s, d)), fst (snd (apply_update parse stringify wr u (s, d))))"
  for parse d stringify wr
  by unfold_locales
     (simp_all add: apply_update_def snapshot_fst applyRuntime_def scope_now_def Let_def)

interpretation derived_rules: permission_store "derived_snapshot parent" derived_apply
  for parent
  by unfold_locales
     (auto simp: derived_apply_def derived_snapshot_def derived_modes_def fun_eq_iff Let_def
        split: writable_source.split)

text \<open>Reading the snapshot may capture files; it does not change what the next snapshot says.\<close>

locale gate_store = permission_store snap app
  for snap :: "'s \<Rightarrow> store_snapshot" and app :: "permission_update \<Rightarrow> 's \<Rightarrow> unit throws \<times> 's" +
  fixes settle :: "'s \<Rightarrow> 's"
  assumes snap_settle: "snap (settle s) = snap s"
begin

lemma session_rule_after_settle:
  "snap_rules (snap (snd (app (AddRules (W_Runtime R_Session) rs) (settle s)))) =
   snap_rules (snap s) @ map (rule_with_source Session) rs"
  by (simp add: add_session_rules snap_settle)

end

lemma snapshot_settles: "fst (snapshot parse d (snd (snapshot parse d s))) = fst (snapshot parse d s)"
  by (simp add: snapshot_fst snapshot_snd scope_now_def)

interpretation file_gate: gate_store
  "\<lambda>s. fst (snapshot parse d s)"
  "\<lambda>u s. (fst (apply_update parse stringify wr u (s, d)), fst (snd (apply_update parse stringify wr u (s, d))))"
  "\<lambda>s. snd (snapshot parse d s)"
  for parse d stringify wr
  by unfold_locales (rule snapshot_settles)

text \<open>A child's store over a file-backed parent: its state is the parent's and the overlay.\<close>

interpretation child_gate: gate_store
  "\<lambda>(p, s). derived_snapshot (fst (snapshot parse d p)) s"
  "\<lambda>u (p, s). (fst (derived_apply u s), (p, snd (derived_apply u s)))"
  "\<lambda>(p, s). (snd (snapshot parse d p), s)"
  for parse d
  by unfold_locales
     (auto simp: snapshot_settles derived_rules.add_session_ok derived_rules.add_session_rules
        derived_rules.add_session_modes derived_rules.add_session_errors)

section \<open>A session of the file-backed store\<close>

text \<open>
  What can happen to the store and the disk: another program changes the files, the store takes a
  snapshot, or it applies an update.
\<close>

datatype store_event = External_Write disk | Take_Snapshot | Apply_Update permission_update

fun store_step ::
  "(string \<Rightarrow> json throws) \<Rightarrow> (stored_scope \<Rightarrow> string) \<Rightarrow>
   (file_source \<Rightarrow> string \<Rightarrow> disk \<Rightarrow> disk throws) \<Rightarrow> store_event \<Rightarrow> file_store \<times> disk \<Rightarrow> file_store \<times> disk" where
  "store_step parse stringify wr (External_Write d') (s, d) = (s, d')"
| "store_step parse stringify wr Take_Snapshot (s, d) = (snd (snapshot parse d s), d)"
| "store_step parse stringify wr (Apply_Update u) (s, d) = snd (apply_update parse stringify wr u (s, d))"

abbreviation store_run ::
  "(string \<Rightarrow> json throws) \<Rightarrow> (stored_scope \<Rightarrow> string) \<Rightarrow>
   (file_source \<Rightarrow> string \<Rightarrow> disk \<Rightarrow> disk throws) \<Rightarrow> store_event list \<Rightarrow> file_store \<times> disk \<Rightarrow> file_store \<times> disk" where
  "store_run parse stringify wr \<equiv> fold (store_step parse stringify wr)"

lemma apply_update_fixed [simp]:
  "initialRules (fst (snd (apply_update parse stringify wr u (s, d)))) = initialRules s"
  "projectTrusted (fst (snd (apply_update parse stringify wr u (s, d)))) = projectTrusted s"
  by (simp_all add: apply_update_def Let_def split_beta split: writable_source.split sum.split)

lemma store_step_fixed [simp]:
  "initialRules (fst (store_step parse stringify wr e st)) = initialRules (fst st)"
  "projectTrusted (fst (store_step parse stringify wr e st)) = projectTrusted (fst st)"
  by (cases st; cases e; simp add: snapshot_snd)+

lemma store_run_fixed:
  "initialRules (fst (store_run parse stringify wr es st)) = initialRules (fst st)"
  "projectTrusted (fst (store_run parse stringify wr es st)) = projectTrusted (fst st)"
  by (induction es arbitrary: st) simp_all

text \<open>A captured scope changes only through an update of that very source.\<close>

lemma store_step_captured:
  assumes "fileScopes (fst st) src = Some c"
    and "\<And>u. e = Apply_Update u \<Longrightarrow> destination u \<noteq> W_File src \<or>
      \<not> projectTrusted (fst st) \<and> src \<noteq> F_User"
  shows "fileScopes (fst (store_step parse stringify wr e st)) src = Some c"
proof (cases e)
  case (Apply_Update u)
  obtain s d where st: "st = (s, d)" by (cases st)
  show ?thesis
  proof (cases "destination u")
    case (W_File dest)
    have "dest \<noteq> src \<or> \<not> projectTrusted s \<and> (dest = F_Local \<or> dest = F_Project)"
      using assms(2) [OF Apply_Update] W_File st by (cases dest) auto
    then show ?thesis using assms(1) st Apply_Update W_File
      by (auto simp: apply_update_def captured_snd scope_now_def split_beta Let_def split: sum.splits)
  next
    case (W_Runtime r)
    then show ?thesis using assms(1) st Apply_Update by (simp add: apply_update_def)
  qed
qed (use assms(1) in \<open>cases st; simp add: snapshot_snd scope_now_def\<close>)+

lemma store_run_captured:
  assumes "fileScopes (fst st) src = Some c"
    and "\<And>u. Apply_Update u \<in> set es \<Longrightarrow> destination u \<noteq> W_File src \<or>
      \<not> projectTrusted (fst st) \<and> src \<noteq> F_User"
  shows "fileScopes (fst (store_run parse stringify wr es st)) src = Some c"
  using assms
proof (induction es arbitrary: st)
  case (Cons e es)
  let ?st = "store_step parse stringify wr e st"
  have "fileScopes (fst ?st) src = Some c"
    by (rule store_step_captured [OF Cons.prems(1)]) (use Cons.prems(2) in auto)
  moreover have "destination u \<noteq> W_File src \<or> \<not> projectTrusted (fst ?st) \<and> src \<noteq> F_User"
    if "Apply_Update u \<in> set es" for u using that Cons.prems(2) by auto
  ultimately show ?case using Cons.IH by simp
qed simp

lemma rules_of_source: "r \<in> set (rules_of src c) \<Longrightarrow> source r = src"
  by (auto simp: rules_of_def rule_with_source_def)

lemma filter_rules_of [simp]:
  "filter (\<lambda>r. source r = src) (rules_of src' c) = (if src = src' then rules_of src c else [])"
  "filter (\<lambda>r. source r = src) (map (rule_with_source src') rs) =
     (if src = src' then map (rule_with_source src') rs else [])"
  by (auto simp: rules_of_def rule_with_source_def filter_empty_conv intro!: filter_True)

lemma filter_snapshot:
  assumes "\<And>r. r \<in> set (initialRules s) \<Longrightarrow> source r \<in> {Flag, Cli_Arg}"
  shows "filter (\<lambda>r. source r = source_of (W_File src)) (snap_rules (fst (snapshot parse d s))) =
    rules_of (source_of (W_File src)) (scope_now parse d s src)"
proof -
  have "filter (\<lambda>r. source r = source_of (W_File src)) (initialRules s) = []"
    using assms by (cases src) (force simp: filter_empty_conv)+
  then show ?thesis by (cases src) (simp_all add: snapshot_fst)
qed

section \<open>Properties\<close>

text \<open>A parser and a writer on which witnesses compute: one file text, and writes that keep the disk.\<close>

definition sample_parse :: "string \<Rightarrow> json throws" where
  "sample_parse c =
     (if c = ''allow bash'' then
        Inr (JObj [(''version'', JNum (JInt 1)), (''rules'', JArr [JObj
          [(''toolName'', JStr ''bash''), (''behavior'', JStr ''allow'')]]), (''mode'', JStr ''plan'')])
      else if c = ''{}'' then Inr (JObj [])
      else Inl ''Unexpected token'')"

definition sample_disk :: disk where
  "sample_disk = \<lparr>file_content = (\<lambda>_. Read_Enoent), policy_content = Read_Enoent\<rparr>"

definition sample_attack :: disk where
  "sample_attack = \<lparr>file_content = (\<lambda>_. Read_Ok (Some ''allow bash'')), policy_content = Read_Enoent\<rparr>"

text \<open>
  C25: File-backed rules are captured once. After the first snapshot, whatever other programs write to the
  files and however often the store is read, the rules and the mode of a file source stay those of that
  snapshot until the store itself applies an update to this source.
\<close>

theorem file_rules_captured_once:
  assumes initial: "\<And>r. r \<in> set (initialRules s) \<Longrightarrow> source r \<in> {Flag, Cli_Arg}"
    and no_update: "\<And>u. Apply_Update u \<in> set es \<Longrightarrow> destination u \<noteq> W_File src"
    and run: "store_run parse stringify wr es (snd (snapshot parse d s), d1) = (s', d')"
  shows "let before = fst (snapshot parse d s); after = fst (snapshot parse d' s');
             from_src = filter (\<lambda>r. source r = source_of (W_File src)) in
     from_src (snap_rules after) = from_src (snap_rules before) \<and>
     snap_modes after (W_File src) = snap_modes before (W_File src)"
proof -
  let ?c = "scope_now parse d s src"
  have "fileScopes s' src = Some ?c"
    using store_run_captured [of "(snd (snapshot parse d s), d1)" src ?c es parse stringify wr] no_update run
    by (auto simp: snapshot_snd)
  then have now: "scope_now parse d' s' src = ?c" by (simp add: scope_now_def)
  have "initialRules s' = initialRules s"
    using store_run_fixed(1) [of parse stringify wr es "(snd (snapshot parse d s), d1)"] run
    by (simp add: snapshot_snd)
  then have rules: "filter (\<lambda>r. source r = source_of (W_File src)) (snap_rules (fst (snapshot parse d' s'))) =
      filter (\<lambda>r. source r = source_of (W_File src)) (snap_rules (fst (snapshot parse d s)))"
    using filter_snapshot [of s src parse d] filter_snapshot [of s' src parse d'] initial now by auto
  have "snap_modes (fst (snapshot parse d' s')) (W_File src) = snap_modes (fst (snapshot parse d s)) (W_File src)"
    using now by (cases src) (simp_all add: snapshot_fst modes_by_source_def)
  with rules show ?thesis by (simp add: Let_def)
qed

theorem file_rules_captured_once_witness:
  "snap_rules (fst (snapshot sample_parse sample_attack
     (fst (store_step sample_parse (\<lambda>_. []) (\<lambda>_ _ d. Inr d) (External_Write sample_attack)
       (snd (snapshot sample_parse sample_disk (newFilePermissionRuleStore [] True)), sample_disk))))) = []"
proof -
  have "filter (\<lambda>r. source r = source_of (W_File F_Project)) (snap_rules (fst (snapshot sample_parse sample_attack
     (fst (store_step sample_parse (\<lambda>_. []) (\<lambda>_ _ d. Inr d) (External_Write sample_attack)
       (snd (snapshot sample_parse sample_disk (newFilePermissionRuleStore [] True)), sample_disk)))))) = []"
    using file_rules_captured_once [of "newFilePermissionRuleStore [] True" "[External_Write sample_attack]"
        F_Project sample_parse "\<lambda>_. []" "\<lambda>_ _ d. Inr d" sample_disk sample_disk]
    by (simp add: newFilePermissionRuleStore_def snapshot_fst snapshot_snd readPolicy_def sample_disk_def
        sample_attack_def scope_of_read_def emptyScope_def rules_of_def scope_now_def readFileBackedScope_def)
  then show ?thesis
    by (simp add: newFilePermissionRuleStore_def snapshot_fst snapshot_snd readPolicy_def sample_disk_def
        sample_attack_def scope_of_read_def emptyScope_def rules_of_def scope_now_def readFileBackedScope_def)
qed

text \<open>
  C26: An untrusted checkout grants nothing. In every state a store created without project trust can
  reach, the snapshot has no rule and no mode from the local and the project file, neither file's content
  can raise an error, and an update of either scope is refused without changing the store or the disk.
\<close>

theorem untrusted_project_inert:
  assumes initial: "\<And>r. r \<in> set initial \<Longrightarrow> source r \<in> {Flag, Cli_Arg}"
    and run: "store_run parse stringify wr es (newFilePermissionRuleStore initial False, d) = (s', d')"
    and src: "src = F_Local \<or> src = F_Project"
  shows "let snap = fst (snapshot parse d' s') in
     (\<forall>r \<in> set (snap_rules snap). source r \<noteq> source_of (W_File src)) \<and>
     snap_modes snap (W_File src) = None \<and>
     (\<forall>e \<in> set (snap_errors snap). err_source e \<noteq> source_of (W_File src)) \<and>
     (\<forall>u. destination u = W_File src \<longrightarrow>
        (\<exists>msg. apply_update parse stringify wr u (s', d') = (Inl msg, s', d')))"
proof -
  let ?s0 = "newFilePermissionRuleStore initial False"
  let ?c = "\<lparr>cap_scope = emptyScope, cap_error = None\<rparr>"
  have "fileScopes ?s0 src = Some ?c" using src by (auto simp: newFilePermissionRuleStore_def)
  then have "fileScopes s' src = Some ?c"
    using store_run_captured [of "(?s0, d)" src ?c es parse stringify wr] run src
    by (auto simp: newFilePermissionRuleStore_def)
  then have now: "scope_now parse d' s' src = ?c" by (simp add: scope_now_def)
  have fixed: "initialRules s' = initial" "\<not> projectTrusted s'"
    using store_run_fixed [of parse stringify wr es "(?s0, d)"] run
    by (simp_all add: newFilePermissionRuleStore_def)
  have "filter (\<lambda>r. source r = source_of (W_File src)) (snap_rules (fst (snapshot parse d' s'))) = []"
    using filter_snapshot [of s' src parse d'] fixed initial now by (simp add: rules_of_def emptyScope_def)
  then have rules: "\<forall>r \<in> set (snap_rules (fst (snapshot parse d' s'))). source r \<noteq> source_of (W_File src)"
    by (simp add: filter_empty_conv)
  have "snap_modes (fst (snapshot parse d' s')) (W_File src) = None \<and>
     (\<forall>e \<in> set (snap_errors (fst (snapshot parse d' s'))). err_source e \<noteq> source_of (W_File src))"
    using now src
    by (auto simp: snapshot_fst modes_by_source_def emptyScope_def error_of_def split: option.splits)
  moreover have "\<exists>msg. apply_update parse stringify wr u (s', d') = (Inl msg, s', d')"
    if "destination u = W_File src" for u
    using that src fixed(2) by (auto simp: apply_update_def)
  ultimately show ?thesis using rules by (simp add: Let_def)
qed

theorem untrusted_project_inert_witness:
  "snap_modes (fst (snapshot sample_parse sample_attack (newFilePermissionRuleStore [] False))) (W_File F_Project) = None \<and>
   snap_modes (fst (snapshot sample_parse sample_attack (newFilePermissionRuleStore [] True))) (W_File F_Project) = Some Plan"
  using untrusted_project_inert [of "[]" sample_parse "\<lambda>_. []" "\<lambda>_ _ d. Inr d" "[]" sample_attack
      "newFilePermissionRuleStore [] False" sample_attack F_Project]
  by (simp add: Let_def snapshot_fst modes_by_source_def scope_now_def newFilePermissionRuleStore_def
      readFileBackedScope_def scope_of_read_def sample_attack_def parseScope_def sample_parse_def al_has_def
      scope_of_object_def stored_rule_of_def behavior_of_name_def STORE_VERSION_def num_eq_def mode_of_name_def
      PERMISSION_MODES_def)

text \<open>
  A permission file for which no trust question is asked contributes nothing: if its content confers
  no authority, reading it gives no rule, no mode and no error.
\<close>

theorem no_authority_no_effect:
  assumes "\<not> permissionContentConfersAuthority parse content"
  shows "scope_of_read parse (Read_Ok content) = \<lparr>cap_scope = emptyScope, cap_error = None\<rparr>"
  using assms
  by (auto simp: permissionContentConfersAuthority_def scope_of_read_def emptyScope_def split: sum.splits)

theorem no_authority_no_effect_witness:
  "scope_of_read sample_parse (Read_Ok (Some ''{}'')) = \<lparr>cap_scope = emptyScope, cap_error = None\<rparr> \<and>
   permissionContentConfersAuthority sample_parse (Some ''{'')"
  using no_authority_no_effect [of sample_parse "Some ''{}''"]
  by (simp add: permissionContentConfersAuthority_def parseScope_def sample_parse_def emptyScope_def al_has_def)

text \<open>
  C27: A delegated child cannot widen what its parent decides, nor write to it: after any updates to its
  own store, a call that the parent's rules decide by a rule above the runtime sources resolves as for
  the parent, the parent's errors and file modes are kept, and every update whose destination is a
  file-backed scope - added, replaced or removed rules, or a mode - is refused with an error and changes nothing.
\<close>

theorem derived_store_confined:
  assumes "s = fold (\<lambda>u s. snd (derived_apply u s)) us newDerivedPermissionRuleStore"
    and "res_rule (resolvePermission lc (snap_rules parent) tool spec params) = Some w"
    and "source w < Command"
  shows "resolvePermission lc (snap_rules (derived_snapshot parent s)) tool spec params =
       resolvePermission lc (snap_rules parent) tool spec params \<and>
     snap_errors (derived_snapshot parent s) = snap_errors parent \<and>
     snap_modes (derived_snapshot parent s) (W_File f) = snap_modes parent (W_File f) \<and>
     (\<forall>update. destination update = W_File f \<longrightarrow> (\<exists>msg. derived_apply update s = (Inl msg, s)))"
proof (intro conjI)
  show "resolvePermission lc (snap_rules (derived_snapshot parent s)) tool spec params =
       resolvePermission lc (snap_rules parent) tool spec params"
    unfolding derived_snapshot_def store_snapshot.simps
    by (rule resolvePermission_lower_rules [OF assms(2)]) (use assms(3) in \<open>auto simp: rule_with_source_def\<close>)
qed (simp_all add: derived_snapshot_def derived_modes_def derived_apply_def)

theorem derived_store_confined_witness:
  "res_behavior (resolvePermission codepoint_compare (snap_rules (derived_snapshot
     \<lparr>snap_rules = sample_rules, snap_modes = Map.empty, snap_errors = []\<rparr>
     (snd (derived_apply (AddRules (W_Runtime R_Session)
        [\<lparr>st_toolName = ''bash'', st_behavior = Allow, st_ruleContent = Some ''ls''\<rparr>])
        newDerivedPermissionRuleStore)))) ''bash'' sample_spec ''ls'') = Deny"
  using derived_store_confined [where us = "[AddRules (W_Runtime R_Session)
        [\<lparr>st_toolName = ''bash'', st_behavior = Allow, st_ruleContent = Some ''ls''\<rparr>]]" and
      lc = codepoint_compare and parent = "\<lparr>snap_rules = sample_rules, snap_modes = Map.empty, snap_errors = []\<rparr>"
      and tool = "''bash''" and spec = sample_spec and params = "''ls''", OF refl _]
    sample_resolution by (simp add: sample_simps)

end
