(* ===== verification/Perm_Gate.thy ===== *)
theory Perm_Gate imports Perm_Store begin

text \<open>
  The permission gate (\<open>coding-agent/src/core/permissions/gate.ts\<close>), the interactive responder
  (\<open>permissions/responder.ts\<close>) and the authority for configured commands
  (\<open>permissions/policy-command.ts\<close>). The state of an evaluation is the store's and the map of prepared
  operations. The host's prompt, the tools' contracts and the clock of the mode are arguments.
  A dash of the source's messages that is not a single byte is written as its UTF-8 bytes.
\<close>

section \<open>Requests and answers\<close>

record permission_ask_request =
  req_toolName :: string
  req_description :: string
  sessionScope :: "string option"
  preview :: "permission_preview option"

record permission_answer =
  allow :: bool
  persist :: bool
  guidance :: "string option"

type_synonym permission_responder = "permission_ask_request \<Rightarrow> permission_answer throws"

record gate_decision =
  blocked :: bool
  reason :: "string option"

record ('p, 'r, 'e, 's) gate_options =
  getContract :: "string \<Rightarrow> ('p, 'r, 'e) tool_contract option"
  opt_snapshot :: "'s \<Rightarrow> store_snapshot \<times> 's"
  opt_apply :: "permission_update \<Rightarrow> 's \<Rightarrow> unit throws \<times> 's"
  getMode :: "'s \<Rightarrow> permission_mode"
  responder :: "permission_responder option"
  getResponder :: "permission_responder option option"

section \<open>The gate\<close>

definition describeDecision :: "('p, 'r, 'e) tool_contract \<Rightarrow> string \<Rightarrow> string option \<Rightarrow> string" where
  "describeDecision contract tool content =
     (case content of
        Some c \<Rightarrow> describe (permission contract) c
      | None \<Rightarrow> tool @ '' is not permitted by the current permission configuration.'')"

definition MAX_GUIDANCE_CHARS :: nat where
  "MAX_GUIDANCE_CHARS = 400"

definition producePreview :: "'p permission_spec \<Rightarrow> 'p \<Rightarrow> permission_preview option" where
  "producePreview spec params =
     (case previewCall spec of
        None \<Rightarrow> None
      | Some f \<Rightarrow> (case f params of Inr p \<Rightarrow> Some p | Inl e \<Rightarrow> Some (Preview_Unavailable e)))"

definition describeDecline :: "string \<Rightarrow> string option \<Rightarrow> string" where
  "describeDecline tool guide =
     (case guide of
        None \<Rightarrow> tool @ '' was declined.''
      | Some g \<Rightarrow>
          (let trimmed = slice_list 0 MAX_GUIDANCE_CHARS (trim g) in
           if trimmed = [] then tool @ '' was declined.''
           else tool @ '' was declined. The user asked for this instead. '' @ trimmed))"

text \<open>\<open>[...new Set(xs)]\<close>: the first occurrence of each element, in order.\<close>

definition unique :: "'a list \<Rightarrow> 'a list" where
  "unique xs = rev (remdups (rev xs))"

definition no_responder_reason :: "string \<Rightarrow> string option \<Rightarrow> string" where
  "no_responder_reason tool protectedT =
     (case protectedT of
        Some t \<Rightarrow> tool @ '' was refused: '' @ t @
          ''. No rule can grant this path; supply the contents deliberately if you need them.''
      | None \<Rightarrow> tool @ '' requires approval, and no responder is available in this session.'')"

definition current_responder :: "('p, 'r, 'e, 's) gate_options \<Rightarrow> permission_responder option" where
  "current_responder options =
     (case getResponder options of Some (Some r) \<Rightarrow> Some r | _ \<Rightarrow> responder options)"

text \<open>The branch on \<open>ask\<close>: the prompt, the session rule the answer persists, and the outcome.\<close>

definition ask_call ::
  "('p, 'r, 'e, 's) gate_options \<Rightarrow> 'p permission_spec \<Rightarrow> string \<Rightarrow> 'p \<Rightarrow> string option \<Rightarrow> 's \<Rightarrow>
   gate_decision throws \<times> 's" where
  "ask_call options spec tool params protectedT s =
     (case current_responder options of
        None \<Rightarrow> (Inr \<lparr>blocked = True, reason = Some (no_responder_reason tool protectedT)\<rparr>, s)
      | Some r \<Rightarrow>
          (let ruleFor = ruleForCall spec params in
           case r \<lparr>req_toolName = tool,
                   req_description = (case ruleFor of Some c \<Rightarrow> describe spec c | None \<Rightarrow> ''Run '' @ tool),
                   sessionScope = map_option (describe spec) ruleFor,
                   preview = producePreview spec params\<rparr> of
             Inl e \<Rightarrow> (Inl e, s)
           | Inr answer \<Rightarrow>
               (let (saved, s') =
                      (case ruleFor of
                         Some c \<Rightarrow>
                           (if persist answer
                            then opt_apply options
                              (AddRules (W_Runtime R_Session)
                                [\<lparr>st_toolName = tool, st_behavior = (if allow answer then Allow else Deny),
                                  st_ruleContent = Some c\<rparr>]) s
                            else (Inr (), s))
                       | None \<Rightarrow> (Inr (), s)) in
                case saved of
                  Inl e \<Rightarrow> (Inl e, s')
                | Inr _ \<Rightarrow>
                    (if \<not> allow answer
                     then (Inr \<lparr>blocked = True, reason = Some (describeDecline tool (guidance answer))\<rparr>, s')
                     else (Inr \<lparr>blocked = False, reason = None\<rparr>, s')))))"

definition evaluateToolCall ::
  "(string \<Rightarrow> string \<Rightarrow> int) \<Rightarrow> ('p \<Rightarrow> string) \<Rightarrow> string \<Rightarrow> 'p \<Rightarrow> ('p, 'r, 'e, 's) gate_options \<Rightarrow>
   's \<times> 'p prepared_operations \<Rightarrow> gate_decision throws \<times> 's \<times> 'p prepared_operations" where
  "evaluateToolCall lc stringify tool params options st =
     (let (s, prepared) = st;
          contract = resolveToolContract stringify (getContract options) tool;
          spec = permission contract in
      case (case prepareCall spec of Some f \<Rightarrow> f params prepared | None \<Rightarrow> Inr prepared) of
        Inl e \<Rightarrow> (Inl e, s, prepared)
      | Inr prepared' \<Rightarrow>
          (let (snap, s1) = opt_snapshot options s in
           if snap_errors snap \<noteq> []
           then (Inr \<lparr>blocked = True, reason = Some
                  (''Permission configuration could not be loaded ('' @
                   join '', '' (map source_name (unique (map err_source (snap_errors snap)))) @
                   ''); refusing to run '' @ tool @ ''.'')\<rparr>, s1, prepared')
           else
             (let protectedT = (case protectedTarget spec of Some f \<Rightarrow> f params | None \<Rightarrow> None);
                  ruleResolution = resolvePermission lc (snap_rules snap) tool spec params;
                  resolution = resolveWithMode (getMode options s1) ruleResolution (capabilities contract)
                    (map_option (\<lambda>f. f params) (withinWorkspace spec)) protectedT in
              case res_behavior resolution of
                Allow \<Rightarrow> (Inr \<lparr>blocked = False, reason = None\<rparr>, s1, prepared')
              | Deny \<Rightarrow>
                  (Inr \<lparr>blocked = True, reason = Some (describeDecision contract tool
                     (case res_rule resolution of Some r \<Rightarrow> ruleContent r | None \<Rightarrow> None))\<rparr>, s1, prepared')
              | Ask \<Rightarrow>
                  (let (d, s2) = ask_call options spec tool params protectedT s1 in (d, s2, prepared')))))"

text \<open>The adapter to \<open>beforeToolCall\<close>: nothing for a call that may run.\<close>

definition createPermissionGate ::
  "(string \<Rightarrow> string \<Rightarrow> int) \<Rightarrow> ('p \<Rightarrow> string) \<Rightarrow> ('p, 'r, 'e, 's) gate_options \<Rightarrow> string \<Rightarrow> 'p \<Rightarrow>
   's \<times> 'p prepared_operations \<Rightarrow> gate_decision option throws \<times> 's \<times> 'p prepared_operations" where
  "createPermissionGate lc stringify options tool params st =
     (let (d, st') = evaluateToolCall lc stringify tool params options st in
      (bind_throws d (\<lambda>decision.
         Inr (if blocked decision then Some \<lparr>blocked = True, reason = reason decision\<rparr> else None)), st'))"

section \<open>The interactive responder\<close>

definition ALLOW_ONCE :: string where "ALLOW_ONCE = ''Allow once''"
definition ALLOW_SESSION :: string where "ALLOW_SESSION = ''Allow for this session''"
definition REJECT_WITH_GUIDANCE :: string where
  "REJECT_WITH_GUIDANCE = ''Reject and say what to do instead''"
definition DENY :: string where "DENY = ''Deny''"

record select_ui =
  ui_select :: "string \<Rightarrow> string list \<Rightarrow> permission_preview option \<Rightarrow> string option"
  ui_input :: "(string \<Rightarrow> string option) option"

definition prompt_options :: "select_ui \<Rightarrow> permission_ask_request \<Rightarrow> string list" where
  "prompt_options ui req =
     [ALLOW_ONCE] @ (if sessionScope req \<noteq> None then [ALLOW_SESSION] else []) @
     (if ui_input ui \<noteq> None then [REJECT_WITH_GUIDANCE] else []) @ [DENY]"

definition createInteractiveResponder :: "select_ui \<Rightarrow> permission_responder" where
  "createInteractiveResponder ui req =
     (let options = prompt_options ui req;
          choice = ui_select ui
            (''Permission required '' @ map char_of [0xE2, 0x80, 0x94 :: nat] @ '' '' @ req_toolName req @
             '': '' @ req_description req) options (preview req) in
      if choice = Some ALLOW_ONCE then Inr \<lparr>allow = True, persist = False, guidance = None\<rparr>
      else if choice = Some ALLOW_SESSION then Inr \<lparr>allow = True, persist = True, guidance = None\<rparr>
      else case (choice = Some REJECT_WITH_GUIDANCE, ui_input ui) of
          (True, Some input) \<Rightarrow>
            (case input (''What should Apex do instead of '' @ req_toolName req @ ''?'') of
               Some g \<Rightarrow>
                 (if trim g \<noteq> [] then Inr \<lparr>allow = False, persist = False, guidance = Some (trim g)\<rparr>
                  else Inr \<lparr>allow = False, persist = False, guidance = None\<rparr>)
             | None \<Rightarrow> Inr \<lparr>allow = False, persist = False, guidance = None\<rparr>)
        | _ \<Rightarrow> Inr \<lparr>allow = False, persist = False, guidance = None\<rparr>)"

section \<open>Configured commands\<close>

record configured_command_operation =
  policyId :: string
  executable :: string
  argv :: "string list"
  op_cwd :: string
  writeScope :: "string list option"
  op_capabilities :: "capability set"
  op_permission :: permission_behavior

record command_authorization_options =
  cmd_mode :: permission_mode
  cmd_responder :: "permission_responder option"
  cmd_getResponder :: "permission_responder option option"

definition describe_operation :: "configured_command_operation \<Rightarrow> string" where
  "describe_operation operation = join '' '' (executable operation # argv operation)"

definition authorizeConfiguredCommand ::
  "configured_command_operation \<Rightarrow> command_authorization_options \<Rightarrow> gate_decision throws" where
  "authorizeConfiguredCommand operation options =
     (if op_permission operation = Deny
      then Inr \<lparr>blocked = True, reason = Some (''Policy '' @ policyId operation @
             '' is configured with permission \"deny\".'')\<rparr>
      else
        (let base = (if op_permission operation = Allow then Allow else Ask);
             resolution = resolveWithMode (cmd_mode options) \<lparr>res_behavior = base, res_rule = None\<rparr>
               (op_capabilities operation) None None in
         case res_behavior resolution of
           Allow \<Rightarrow> Inr \<lparr>blocked = False, reason = None\<rparr>
         | Deny \<Rightarrow> Inr \<lparr>blocked = True, reason = Some (''Policy '' @ policyId operation @
             '' is not permitted in the current permission mode.'')\<rparr>
         | Ask \<Rightarrow>
             (case (case cmd_getResponder options of Some (Some r) \<Rightarrow> Some r | _ \<Rightarrow> cmd_responder options) of
                None \<Rightarrow> Inr \<lparr>blocked = True, reason = Some (''Policy '' @ policyId operation @
                  '' requires approval, and no responder is available in this session.'')\<rparr>
              | Some r \<Rightarrow>
                  bind_throws (r \<lparr>req_toolName = policyId operation,
                      req_description = describe_operation operation, sessionScope = None, preview = None\<rparr>)
                    (\<lambda>answer. Inr (if \<not> allow answer
                       then \<lparr>blocked = True, reason = Some (''Policy '' @ policyId operation @ '' was declined.'')\<rparr>
                       else \<lparr>blocked = False, reason = None\<rparr>)))))"

section \<open>The gate and its store\<close>

text \<open>The resolution an evaluation reaches from the rules of a snapshot, in the given mode.\<close>

definition gate_resolution ::
  "(string \<Rightarrow> string \<Rightarrow> int) \<Rightarrow> ('p, 'r, 'e) tool_contract \<Rightarrow> string \<Rightarrow> 'p \<Rightarrow> permission_mode \<Rightarrow>
   permission_rule list \<Rightarrow> permission_resolution" where
  "gate_resolution lc contract tool params mode rules =
     (let spec = permission contract in
      resolveWithMode mode (resolvePermission lc rules tool spec params) (capabilities contract)
        (map_option (\<lambda>f. f params) (withinWorkspace spec))
        (case protectedTarget spec of Some f \<Rightarrow> f params | None \<Rightarrow> None))"

lemmas gate_simps = evaluateToolCall_def gate_resolution_def Let_def split_beta

lemma ask_call_unblocked:
  assumes "fst (ask_call options spec tool params target s) = Inr dec" and "\<not> blocked dec"
  shows "\<exists>r req answer. current_responder options = Some r \<and> req_toolName req = tool \<and>
    r req = Inr answer \<and> allow answer"
proof (cases "current_responder options")
  case None
  then show ?thesis using assms by (auto simp: ask_call_def)
next
  case (Some r)
  let ?req = "\<lparr>req_toolName = tool,
    req_description = (case ruleForCall spec params of Some c \<Rightarrow> describe spec c | None \<Rightarrow> ''Run '' @ tool),
    sessionScope = map_option (describe spec) (ruleForCall spec params), preview = producePreview spec params\<rparr>"
  show ?thesis
  proof (cases "r ?req")
    case (Inl e)
    then show ?thesis using assms(1) Some by (simp add: ask_call_def)
  next
    case (Inr answer)
    then have "allow answer"
      using assms Some by (auto simp: ask_call_def Let_def split_beta split: sum.splits if_splits)
    moreover have "req_toolName ?req = tool" by simp
    ultimately show ?thesis using Some Inr by blast
  qed
qed

lemma ask_call_no_responder:
  "current_responder options = None \<Longrightarrow>
   ask_call options spec tool params target s =
     (Inr \<lparr>blocked = True, reason = Some (no_responder_reason tool target)\<rparr>, s)"
  by (simp add: ask_call_def)

context gate_store
begin

lemma evaluate_settled:
  assumes "opt_snapshot options = (\<lambda>s. (snap s, settle s))"
    and "prepareCall (permission contract) = None"
    and "resolveToolContract stringify (getContract options) tool = contract"
    and "snap_errors (snap s) = []"
  shows "evaluateToolCall lc stringify tool params options (s, prep) =
    (let res = gate_resolution lc contract tool params (getMode options (settle s)) (snap_rules (snap s)) in
     case res_behavior res of
       Allow \<Rightarrow> (Inr \<lparr>blocked = False, reason = None\<rparr>, settle s, prep)
     | Deny \<Rightarrow> (Inr \<lparr>blocked = True, reason = Some (describeDecision contract tool
          (case res_rule res of Some r \<Rightarrow> ruleContent r | None \<Rightarrow> None))\<rparr>, settle s, prep)
     | Ask \<Rightarrow>
         (let (d, s2) = ask_call options (permission contract) tool params
            (case protectedTarget (permission contract) of Some f \<Rightarrow> f params | None \<Rightarrow> None) (settle s)
          in (d, s2, prep)))"
  using assms by (simp add: gate_simps split: permission_behavior.split)

text \<open>
  A persisted answer decides the next evaluation of the same call, without a responder, when the rule
  it wrote matches the call and no rule of the store outranks it.
\<close>

lemma persisted_answer_decides:
  fixes options :: "('p, 'r, 'e, 's) gate_options" and contract :: "('p, 'r, 'e) tool_contract" and params :: 'p
  defines "target \<equiv> case protectedTarget (permission contract) of Some f \<Rightarrow> f params | None \<Rightarrow> None"
  assumes lc: "collation lc"
    and ops: "opt_snapshot options = (\<lambda>s. (snap s, settle s))" "opt_apply options = app"
    and contract: "resolveToolContract stringify (getContract options) tool = contract"
      "prepareCall (permission contract) = None" "target = None"
      "ruleForCall (permission contract) params = Some c"
    and mode: "\<And>s. getMode options s \<notin> {Plan, BypassPermissions}"
    and asked: "snap_errors (snap s) = []"
      "res_behavior (gate_resolution lc contract tool params (getMode options (settle s)) (snap_rules (snap s))) = Ask"
    and answered: "current_responder options = Some r" "\<And>req. r req = Inr answer" "persist answer"
    and rule: "stored = \<lparr>st_toolName = tool, st_behavior = (if allow answer then Allow else Deny), st_ruleContent = Some c\<rparr>"
      "candidate_applies tool (permission contract) params (rule_with_source Session stored)"
    and best: "\<And>w. w \<in> set (snap_rules (snap s)) \<Longrightarrow> candidate_applies tool (permission contract) params w \<Longrightarrow>
      beats lc (rule_with_source Session stored) w"
    and first: "evaluateToolCall lc stringify tool params options (s, prep) = (dec, s', prep')"
    and second: "evaluateToolCall lc stringify tool params (options\<lparr>responder := None, getResponder := None\<rparr>)
      (s', prep') = (dec2, s'', prep'')"
  shows "dec = Inr d1 \<Longrightarrow> dec2 = Inr d2 \<Longrightarrow> blocked d1 = (\<not> allow answer) \<and> blocked d2 = (\<not> allow answer)"
    and "\<exists>d1 d2. dec = Inr d1 \<and> dec2 = Inr d2"
proof -
  let ?add = "app (AddRules (W_Runtime R_Session) [stored]) (settle s)"
  have ask: "ask_call options (permission contract) tool params target (settle s) =
      (Inr (if allow answer then \<lparr>blocked = False, reason = None\<rparr>
        else \<lparr>blocked = True, reason = Some (describeDecline tool (guidance answer))\<rparr>), snd ?add)"
    using answered contract(4) ops(2) rule(1) add_session_ok [of "[stored]" "settle s"]
    by (cases ?add) (simp add: ask_call_def)
  have s': "s' = snd ?add" and dec: "\<exists>d. dec = Inr d \<and> blocked d = (\<not> allow answer)" and prep: "prep' = prep"
    using first asked(2) ask
    unfolding evaluate_settled [OF ops(1) contract(2,1) asked(1)] target_def by (auto simp: Let_def)
  let ?o = "options\<lparr>responder := None, getResponder := None\<rparr>"
  have rules: "snap_rules (snap s') = snap_rules (snap s) @ [rule_with_source Session stored]"
    using s' by (simp add: session_rule_after_settle)
  have errors: "snap_errors (snap s') = []"
    using s' asked(1) by (simp add: add_session_errors snap_settle)
  have "resolvePermission lc (snap_rules (snap s')) tool (permission contract) params =
      \<lparr>res_behavior = st_behavior stored, res_rule = Some (rule_with_source Session stored)\<rparr>"
    using added_session_rule_decides [of lc tool "permission contract" params stored s] lc rule(2) best rules
    by (simp add: add_session_rules)
  then have "gate_resolution lc contract tool params (getMode options (settle s')) (snap_rules (snap s')) =
      \<lparr>res_behavior = st_behavior stored, res_rule = Some (rule_with_source Session stored)\<rparr>"
    using mode [of "settle s'"] contract(3)
    by (simp add: gate_resolution_def resolveWithMode_def target_def rule_with_source_def Let_def)
  then have dec2: "\<exists>d. dec2 = Inr d \<and> blocked d = (\<not> allow answer)"
    using second rule(1) evaluate_settled [of ?o contract stringify tool s' lc params prep'] ops(1) contract(1,2) errors
    by (auto simp: Let_def split: if_splits)
  show "dec = Inr d1 \<Longrightarrow> dec2 = Inr d2 \<Longrightarrow> blocked d1 = (\<not> allow answer) \<and> blocked d2 = (\<not> allow answer)"
    using dec dec2 by auto
  show "\<exists>d1 d2. dec = Inr d1 \<and> dec2 = Inr d2" using dec dec2 by blast
qed

end

section \<open>Properties\<close>

text \<open>Gate options on which witnesses evaluate: no declared contract, a file-backed store, one answer.\<close>

definition sample_options ::
  "permission_mode \<Rightarrow> permission_answer \<Rightarrow> (string, unit, unit, file_store) gate_options" where
  "sample_options mode answer =
     \<lparr>getContract = (\<lambda>_. None),
      opt_snapshot = snapshot sample_parse sample_disk,
      opt_apply = (\<lambda>u s. (fst (apply_update sample_parse (\<lambda>_. []) (\<lambda>_ _ d. Inr d) u (s, sample_disk)),
         fst (snd (apply_update sample_parse (\<lambda>_. []) (\<lambda>_ _ d. Inr d) u (s, sample_disk))))),
      getMode = (\<lambda>_. mode),
      responder = Some (\<lambda>_. Inr answer),
      getResponder = None\<rparr>"

definition sample_store :: file_store where
  "sample_store = newFilePermissionRuleStore [] True"

abbreviation sample_gate ::
  "(string, unit, unit, file_store) gate_options \<Rightarrow> file_store \<Rightarrow>
   gate_decision throws \<times> file_store \<times> string prepared_operations" where
  "sample_gate options s \<equiv> evaluateToolCall codepoint_compare (\<lambda>p. p) ''bash'' ''ls'' options (s, Map.empty)"

lemmas sample_gate_simps = sample_options_def sample_store_def newFilePermissionRuleStore_def sample_disk_def
  scope_of_read_def emptyScope_def rules_of_def scope_now_def readFileBackedScope_def readPolicy_def error_of_def

lemma sample_snapshot:
  "fst (snapshot sample_parse sample_disk sample_store) =
     \<lparr>snap_rules = [], snap_modes = Map.empty, snap_errors = []\<rparr>"
  by (auto simp: snapshot_fst sample_gate_simps modes_by_source_def fun_eq_iff
      split: writable_source.split file_source.split)

text \<open>
  A tool call runs only if the gate may let it: the prepared operation was captured without an error,
  the rule store loaded without an error, and the call resolves to allow, or resolves to ask and a
  responder of the session allowed this tool. The decision to run never carries a reason.
\<close>

theorem gate_unblocked:
  assumes "evaluateToolCall lc stringify tool params options (s, prep) = (Inr dec, s', prep')"
    and "\<not> blocked dec"
  shows "let contract = resolveToolContract stringify (getContract options) tool;
             snap = fst (opt_snapshot options s); s1 = snd (opt_snapshot options s);
             res = gate_resolution lc contract tool params (getMode options s1) (snap_rules snap) in
     snap_errors snap = [] \<and>
     (res_behavior res = Allow \<or>
      res_behavior res = Ask \<and>
        (\<exists>r req answer. current_responder options = Some r \<and> req_toolName req = tool \<and>
           r req = Inr answer \<and> allow answer))"
proof -
  obtain prep1 where prepared: "(case prepareCall (permission (resolveToolContract stringify (getContract options) tool)) of
      Some f \<Rightarrow> f params prep | None \<Rightarrow> Inr prep) = Inr prep1"
    using assms(1) by (auto simp: evaluateToolCall_def Let_def split: sum.splits)
  show ?thesis
    using assms prepared
    by (auto simp: gate_simps dest!: ask_call_unblocked split: if_splits permission_behavior.splits)
qed

theorem gate_unblocked_witness:
  "snap_errors (fst (snapshot sample_parse sample_disk sample_store)) = [] \<and>
   fst (sample_gate (sample_options Default_Mode \<lparr>allow = True, persist = False, guidance = None\<rparr>) sample_store) =
     Inr \<lparr>blocked = False, reason = None\<rparr>"
proof -
  let ?o = "sample_options Default_Mode \<lparr>allow = True, persist = False, guidance = None\<rparr>"
  have run: "sample_gate ?o sample_store =
      (Inr \<lparr>blocked = False, reason = None\<rparr>, snd (snapshot sample_parse sample_disk sample_store), Map.empty)"
    by (simp add: gate_simps sample_snapshot resolveToolContract_def UNCLASSIFIED_def resolvePermission_def
        default_for_def resolveWithMode_def ask_call_def current_responder_def sample_options_def)
  with gate_unblocked [OF run] show ?thesis by (simp add: Let_def sample_options_def)
qed

text \<open>
  Plan mode is a floor no answer and no rule lifts: for a tool with a capability plan mode denies,
  an evaluation never lets the call run, never asks, and never writes to the store.
\<close>

theorem plan_mode_gate:
  assumes "isPlanModeDenied (capabilities (resolveToolContract stringify (getContract options) tool))"
    and "\<And>s. getMode options s = Plan"
    and "evaluateToolCall lc stringify tool params options (s, prep) = (dec, s', prep')"
  shows "(case dec of Inl e \<Rightarrow> True | Inr d \<Rightarrow> blocked d) \<and>
    s' \<in> {s, snd (opt_snapshot options s)} \<and>
    dec = fst (evaluateToolCall lc stringify tool params (options\<lparr>responder := r, getResponder := r'\<rparr>) (s, prep))"
  using assms by (auto simp: gate_simps resolveWithMode_def split: sum.splits if_splits)

theorem plan_mode_gate_witness:
  "case fst (sample_gate (sample_options Plan \<lparr>allow = True, persist = True, guidance = None\<rparr>) sample_store) of
     Inl e \<Rightarrow> True | Inr d \<Rightarrow> blocked d"
  using plan_mode_gate [where options = "sample_options Plan \<lparr>allow = True, persist = True, guidance = None\<rparr>" and
      tool = "''bash''" and stringify = "\<lambda>p. p" and lc = codepoint_compare and params = "''ls''" and
      s = sample_store and prep = Map.empty]
  by (cases "sample_gate (sample_options Plan \<lparr>allow = True, persist = True, guidance = None\<rparr>) sample_store")
     (simp add: sample_options_def resolveToolContract_def UNCLASSIFIED_def ALL_CAPABILITIES_def
        isPlanModeDenied_def PLAN_MODE_DENIED_CAPABILITIES_def)

text \<open>
  A session without a responder fails closed: an evaluation blocks exactly the calls that do not
  resolve to allow, and a store that failed to load blocks every call; nothing is written to the store.
\<close>

theorem gate_fails_closed:
  assumes "current_responder options = None"
    and "evaluateToolCall lc stringify tool params options (s, prep) = (Inr dec, s', prep')"
  shows "let contract = resolveToolContract stringify (getContract options) tool;
             snap = fst (opt_snapshot options s); s1 = snd (opt_snapshot options s);
             res = gate_resolution lc contract tool params (getMode options s1) (snap_rules snap) in
     s' = s1 \<and> (blocked dec \<longleftrightarrow> snap_errors snap \<noteq> [] \<or> res_behavior res \<noteq> Allow)"
proof -
  obtain prep1 where prepared: "(case prepareCall (permission (resolveToolContract stringify (getContract options) tool)) of
      Some f \<Rightarrow> f params prep | None \<Rightarrow> Inr prep) = Inr prep1"
    using assms(2) by (auto simp: evaluateToolCall_def Let_def split: sum.splits)
  show ?thesis
    using assms prepared
    by (auto simp: gate_simps ask_call_no_responder split: if_splits permission_behavior.splits)
qed

theorem gate_fails_closed_witness:
  "fst (sample_gate ((sample_options Default_Mode \<lparr>allow = True, persist = True, guidance = None\<rparr>)
      \<lparr>responder := None\<rparr>) sample_store) \<noteq> Inr \<lparr>blocked = False, reason = None\<rparr>"
proof
  let ?o = "(sample_options Default_Mode \<lparr>allow = True, persist = True, guidance = None\<rparr>)\<lparr>responder := None\<rparr>"
  assume *: "fst (sample_gate ?o sample_store) = Inr \<lparr>blocked = False, reason = None\<rparr>"
  have none: "current_responder ?o = None" by (simp add: current_responder_def sample_options_def)
  obtain s' prep' where run: "sample_gate ?o sample_store = (Inr \<lparr>blocked = False, reason = None\<rparr>, s', prep')"
    using * by (cases "sample_gate ?o sample_store") auto
  from gate_fails_closed [OF none run] show False
    by (simp add: Let_def gate_resolution_def sample_options_def sample_snapshot resolveToolContract_def
        UNCLASSIFIED_def resolvePermission_def default_for_def resolveWithMode_def)
qed

text \<open>
  A persisted answer is remembered. When the user answers a call for the whole session, and the rule
  the tool writes for the call matches it and no rule of the store outranks it, the next evaluation of
  the same call has the same outcome without asking: allowed after an allow, blocked after a refusal.
\<close>

theorem persisted_answer_remembered:
  fixes options :: "('p, 'r, 'e, file_store) gate_options" and contract :: "('p, 'r, 'e) tool_contract"
    and params :: 'p
  assumes "collation lc"
    and "opt_snapshot options = snapshot parse d"
    and "opt_apply options = (\<lambda>u s. (fst (apply_update parse stringify_scope wr u (s, d)),
      fst (snd (apply_update parse stringify_scope wr u (s, d)))))"
    and "resolveToolContract stringify (getContract options) tool = contract"
    and "prepareCall (permission contract) = None" and "protectedTarget (permission contract) = None"
    and "ruleForCall (permission contract) params = Some c"
    and "\<And>s. getMode options s \<notin> {Plan, BypassPermissions}"
    and "snap_errors (fst (snapshot parse d s)) = []"
    and "res_behavior (gate_resolution lc contract tool params (getMode options (snd (snapshot parse d s)))
      (snap_rules (fst (snapshot parse d s)))) = Ask"
    and "current_responder options = Some r" and "\<And>req. r req = Inr answer" and "persist answer"
    and "stored = \<lparr>st_toolName = tool, st_behavior = (if allow answer then Allow else Deny), st_ruleContent = Some c\<rparr>"
    and "candidate_applies tool (permission contract) params (rule_with_source Session stored)"
    and "\<And>w. w \<in> set (snap_rules (fst (snapshot parse d s))) \<Longrightarrow>
      candidate_applies tool (permission contract) params w \<Longrightarrow> beats lc (rule_with_source Session stored) w"
    and "evaluateToolCall lc stringify tool params options (s, prep) = (dec, s', prep')"
    and "evaluateToolCall lc stringify tool params (options\<lparr>responder := None, getResponder := None\<rparr>)
      (s', prep') = (dec2, s'', prep'')"
  shows "\<exists>d1 d2. dec = Inr d1 \<and> dec2 = Inr d2 \<and> blocked d1 = (\<not> allow answer) \<and> blocked d2 = (\<not> allow answer)"
proof -
  have ops: "opt_snapshot options = (\<lambda>s. (fst (snapshot parse d s), snd (snapshot parse d s)))"
    using assms(2) by simp
  have target: "(case protectedTarget (permission contract) of None \<Rightarrow> None | Some f \<Rightarrow> f params) = None"
    using assms(6) by simp
  from file_gate.persisted_answer_decides(2) [OF assms(1) ops assms(3-5) target assms(7-18)]
  obtain d1 d2 where d: "dec = Inr d1" "dec2 = Inr d2" by blast
  from file_gate.persisted_answer_decides(1) [OF assms(1) ops assms(3-5) target assms(7-18) d] d
  show ?thesis by blast
qed

theorem persisted_answer_remembered_witness:
  "\<exists>d. fst (sample_gate ((sample_options Default_Mode \<lparr>allow = False, persist = True, guidance = None\<rparr>)
        \<lparr>responder := None, getResponder := None\<rparr>)
        (fst (snd (sample_gate (sample_options Default_Mode \<lparr>allow = False, persist = True, guidance = None\<rparr>)
           sample_store)))) = Inr d \<and> blocked d"
proof -
  let ?answer = "\<lparr>allow = False, persist = True, guidance = None\<rparr>"
  let ?o = "sample_options Default_Mode ?answer"
  let ?contract = "UNCLASSIFIED (\<lambda>p. p) :: (string, unit, unit) tool_contract"
  let ?stored = "\<lparr>st_toolName = ''bash'', st_behavior = Deny, st_ruleContent = Some ''ls''\<rparr>"
  obtain dec s' prep' where one: "sample_gate ?o sample_store = (dec, s', prep')"
    by (cases "sample_gate ?o sample_store") auto
  have "prep' = Map.empty"
    using one by (simp add: gate_simps sample_options_def resolveToolContract_def UNCLASSIFIED_def
        split: if_splits permission_behavior.splits)
  moreover obtain dec2 s'' prep'' where two: "evaluateToolCall codepoint_compare (\<lambda>p. p) ''bash'' ''ls''
      (?o\<lparr>responder := None, getResponder := None\<rparr>) (s', prep') = (dec2, s'', prep'')"
    by (metis prod.exhaust)
  moreover have "\<exists>d1 d2. dec = Inr d1 \<and> dec2 = Inr d2 \<and> blocked d1 = (\<not> allow ?answer) \<and>
      blocked d2 = (\<not> allow ?answer)"
  proof (rule persisted_answer_remembered [where contract = ?contract and c = "''ls''" and parse = sample_parse and
        d = sample_disk and stringify_scope = "\<lambda>_. []" and wr = "\<lambda>_ _ d. Inr d" and stored = ?stored and
        r = "\<lambda>_. Inr ?answer", OF collation_codepoint _ _ _ _ _ _ _ _ _ _ _ _ _ _ _ one two])
  qed (simp_all add: sample_options_def resolveToolContract_def UNCLASSIFIED_def sample_snapshot
      gate_resolution_def resolvePermission_def default_for_def resolveWithMode_def current_responder_def
      candidate_applies_def ruleMatchesCall_def rule_with_source_def)
  ultimately show ?thesis using one by auto
qed

text \<open>
  The prompt fails closed and offers what will be honoured: the answer is an allow only when the user
  chose one of the two allow entries, and it asks to persist only when the session entry was chosen,
  which a host that returns offered entries can do only for a request with a session scope.
\<close>

theorem interactive_answer:
  assumes "\<And>title opts p c. ui_select ui title opts p = Some c \<Longrightarrow> c \<in> set opts"
  shows "\<exists>answer choice. createInteractiveResponder ui req = Inr answer \<and>
     (choice = None \<or> (\<exists>c \<in> set (prompt_options ui req). choice = Some c)) \<and>
     allow answer = (choice = Some ALLOW_ONCE \<or> choice = Some ALLOW_SESSION) \<and>
     persist answer = (choice = Some ALLOW_SESSION) \<and>
     (persist answer \<longrightarrow> allow answer \<and> sessionScope req \<noteq> None) \<and>
     (guidance answer \<noteq> None \<longrightarrow> choice = Some REJECT_WITH_GUIDANCE)"
proof -
  define title where "title = ''Permission required '' @ map char_of [0xE2, 0x80, 0x94 :: nat] @ '' '' @
    req_toolName req @ '': '' @ req_description req"
  define choice where "choice = ui_select ui title (prompt_options ui req) (preview req)"
  have mem: "\<And>c. choice = Some c \<Longrightarrow> c \<in> set (prompt_options ui req)"
    using assms [of title "prompt_options ui req" "preview req"] by (simp add: choice_def)
  then have scope: "choice = Some ALLOW_SESSION \<Longrightarrow> sessionScope req \<noteq> None"
    by (fastforce simp: prompt_options_def ALLOW_ONCE_def ALLOW_SESSION_def REJECT_WITH_GUIDANCE_def DENY_def
        split: if_splits)
  have distinct: "ALLOW_ONCE \<noteq> ALLOW_SESSION" by (simp add: ALLOW_ONCE_def ALLOW_SESSION_def)
  obtain answer where answer: "createInteractiveResponder ui req = Inr answer"
    "allow answer = (choice = Some ALLOW_ONCE \<or> choice = Some ALLOW_SESSION)"
    "persist answer = (choice = Some ALLOW_SESSION)"
    "guidance answer \<noteq> None \<longrightarrow> choice = Some REJECT_WITH_GUIDANCE"
    using distinct
    by (cases "createInteractiveResponder ui req")
       (auto simp: createInteractiveResponder_def Let_def choice_def title_def split: option.splits if_splits bool.splits)
  show ?thesis
    by (rule exI [of _ answer], rule exI [of _ choice]) (use answer scope mem in auto)
qed

theorem interactive_answer_witness:
  "\<exists>answer. createInteractiveResponder \<lparr>ui_select = (\<lambda>_ _ _. None), ui_input = None\<rparr>
     \<lparr>req_toolName = ''bash'', req_description = ''ls'', sessionScope = None, preview = None\<rparr> = Inr answer \<and>
     \<not> persist answer"
  using interactive_answer [of "\<lparr>ui_select = (\<lambda>_ _ _. None), ui_input = None\<rparr>"
      "\<lparr>req_toolName = ''bash'', req_description = ''ls'', sessionScope = None, preview = None\<rparr>"]
  by auto

text \<open>
  A configured command is authorized exactly when its policy is not deny, plan mode does not refuse
  its capabilities, and either the policy allows it, or bypass mode is on, or a responder allows it in a
  mode that asks. No mode raises a deny policy.
\<close>

theorem configured_command_allowed_iff:
  "(\<exists>dec. authorizeConfiguredCommand operation options = Inr dec \<and> \<not> blocked dec) \<longleftrightarrow>
     op_permission operation \<noteq> Deny \<and>
     \<not> (cmd_mode options = Plan \<and> isPlanModeDenied (op_capabilities operation)) \<and>
     (op_permission operation = Allow \<or> cmd_mode options = BypassPermissions \<or>
      cmd_mode options \<noteq> DontAsk \<and>
        (\<exists>r answer. (case cmd_getResponder options of Some (Some r) \<Rightarrow> Some r | _ \<Rightarrow> cmd_responder options) = Some r \<and>
           r \<lparr>req_toolName = policyId operation, req_description = describe_operation operation,
              sessionScope = None, preview = None\<rparr> = Inr answer \<and> allow answer))"
proof -
  define resp where "resp = (case cmd_getResponder options of Some (Some r) \<Rightarrow> Some r | _ \<Rightarrow> cmd_responder options)"
  let ?req = "\<lparr>req_toolName = policyId operation, req_description = describe_operation operation,
    sessionScope = None, preview = None\<rparr> :: permission_ask_request"
  note unfolded = authorizeConfiguredCommand_def resolveWithMode_def Let_def resp_def [symmetric]
  show ?thesis
  proof (cases resp)
    case None
    then show ?thesis unfolding unfolded
      by (cases "op_permission operation"; cases "cmd_mode options") simp_all
  next
    case (Some r)
    then show ?thesis unfolding unfolded
      by (cases "op_permission operation"; cases "cmd_mode options"; cases "r ?req") simp_all
  qed
qed

text \<open>
  The limit of a persisted answer: a rule of a source above the session still decides the call, so an
  explicit ask rule asks again after "Allow for this session".
\<close>

lemma persisted_answer_outranked:
  assumes "res_rule (resolvePermission lc (snap_rules (fst (snapshot parse d s))) tool spec params) = Some w"
    and "source w \<noteq> Session"
  shows "resolvePermission lc (snap_rules (fst (snapshot parse d (fst (snd (apply_update parse stringify wr
      (AddRules (W_Runtime R_Session) rs) (s, d))))))) tool spec params =
    resolvePermission lc (snap_rules (fst (snapshot parse d s))) tool spec params"
  using file_rules.added_session_rule_outranked [OF assms, where rs = rs and stringify = stringify and wr = wr]
  by simp

end
