(* ===== verification/Bash_Grammar.thy ===== *)
theory Bash_Grammar imports Perm_Gate begin

text \<open>
  The permission grammar of the shell tool: which operation a call requests
  (\<open>coding-agent/src/core/tools/shell-operation.ts\<close>), the decomposition of a command into segments
  (\<open>tools/bash-command-segments.ts\<close>), the read-only allow-list (\<open>tools/bash-readonly.ts\<close>) and the
  permission spec of the tool (\<open>tools/bash.ts\<close>). The parameters of a call are a JSON value.
\<close>

section \<open>The requested operation\<close>

datatype shell_operation =
    Op_Run (op_command: string) (op_timeout: "jsnum option") (op_background: bool)
  | Op_Retrieve string
  | Op_Kill string

text \<open>The value of a property that may be absent: an object has its own fields, an array none of these.\<close>

definition field :: "string \<Rightarrow> json \<Rightarrow> json option" where
  "field k v = (case v of JObj m \<Rightarrow> al_get k m | _ \<Rightarrow> None)"

definition meaningful :: "json option \<Rightarrow> bool" where
  "meaningful v \<longleftrightarrow> v \<noteq> None \<and> v \<noteq> Some JNull \<and> v \<noteq> Some (JStr [])"

definition presentString :: "json option \<Rightarrow> string option" where
  "presentString v = (case v of Some (JStr s) \<Rightarrow> (if s \<noteq> [] then Some s else None) | _ \<Rightarrow> None)"

definition is_object :: "json \<Rightarrow> bool" where
  "is_object v = (case v of JObj _ \<Rightarrow> True | JArr _ \<Rightarrow> True | _ \<Rightarrow> False)"

definition number_field :: "json option \<Rightarrow> jsnum option" where
  "number_field v = (case v of Some (JNum n) \<Rightarrow> Some n | _ \<Rightarrow> None)"

definition RUN_HINT :: string where
  "RUN_HINT = ''Supply `command` to run a command, or `handle` to retrieve or kill a background command.''"

definition parseShellOperation :: "json \<Rightarrow> shell_operation throws" where
  "parseShellOperation params =
     (if \<not> is_object params then Inl (''Shell arguments must be an object. '' @ RUN_HINT)
      else
        (let command = presentString (field ''command'' params);
             handle = presentString (field ''handle'' params);
             wantsKill = (field ''kill'' params = Some (JBool True)) in
         case (command, handle) of
           (Some _, Some _) \<Rightarrow>
             Inl (''Ambiguous shell call: `command` and `handle` request different operations. '' @ RUN_HINT @
                  '' Send one, not both.'')
         | (None, Some h) \<Rightarrow>
             (let stray = (if number_field (field ''timeout'' params) \<noteq> None then [''timeout''] else []) @
                    (if field ''background'' params = Some (JBool True) then [''background''] else []) in
              if stray \<noteq> []
              then Inl (''A background handle call takes only `handle` and optional `kill`. Remove: '' @
                        join '', '' stray @ ''.'')
              else Inr (if wantsKill then Op_Kill h else Op_Retrieve h))
         | (Some c, None) \<Rightarrow>
             (if wantsKill
              then Inl ''`kill: true` terminates a background command and requires its `handle`. It cannot be combined with `command`.''
              else Inr (Op_Run c (number_field (field ''timeout'' params))
                          (field ''background'' params = Some (JBool True))))
         | (None, None) \<Rightarrow>
             Inl (if field ''handle'' params \<noteq> None \<and> \<not> meaningful (field ''handle'' params)
                  then ''`handle` is empty, which is not a background handle. '' @ RUN_HINT
                  else ''Shell call names no operation. '' @ RUN_HINT)))"

section \<open>Segments of a command\<close>

datatype bash_classification = Empty_Command | Unparseable | Segments "string list"

abbreviation NEWLINE :: char where "NEWLINE \<equiv> CHR 0x0A"
abbreviation BACKSLASH :: char where "BACKSLASH \<equiv> CHR 0x5C"
abbreviation SQUOTE :: char where "SQUOTE \<equiv> CHR 0x27"
abbreviation DQUOTE :: char where "DQUOTE \<equiv> CHR 0x22"
abbreviation TAB :: char where "TAB \<equiv> CHR 0x09"

definition is_digit :: "char \<Rightarrow> bool" where
  "is_digit c \<longleftrightarrow> 48 \<le> (of_char c :: nat) \<and> (of_char c :: nat) \<le> 57"

text \<open>The lookahead \<open>(?=$|[\s;&|)])\<close>.\<close>

definition redirection_ends :: "string \<Rightarrow> bool" where
  "redirection_ends s =
     (case s of [] \<Rightarrow> True | c # _ \<Rightarrow> is_space c \<or> c \<in> {CHR '';'', CHR ''&'', CHR ''|'', CHR '')''})"

text \<open>After the operator \<open>></\<close>: the length of \<open>&d\<close> or \<open>/dev/null\<close>, when it is one.\<close>

definition redirection_target :: "string \<Rightarrow> nat option" where
  "redirection_target s =
     (case s of
        c # d # rest \<Rightarrow>
          (if c = CHR ''&'' \<and> is_digit d \<and> redirection_ends rest then Some 2
           else if startsWith s ''/dev/null'' \<and> redirection_ends (drop 9 s) then Some 9 else None)
      | _ \<Rightarrow> None)"

text \<open>\<open>DISCARD_REDIRECTION\<close>: the length of its match at the start of a string.\<close>

definition discard_redirection :: "string \<Rightarrow> nat option" where
  "discard_redirection s =
     (if startsWith s ''&>/dev/null'' \<and> redirection_ends (drop 11 s) then Some 11
      else case s of
          c # rest \<Rightarrow>
            (if c = CHR ''>'' then map_option (\<lambda>n. n + 1) (redirection_target rest)
             else if is_digit c \<and> startsWith rest ''>''
               then map_option (\<lambda>n. n + 2) (redirection_target (drop 1 rest))
             else None)
        | [] \<Rightarrow> None)"

definition escapable_in_double_quotes :: "char \<Rightarrow> bool" where
  "escapable_in_double_quotes c \<longleftrightarrow> c \<in> {CHR ''$'', CHR ''`'', DQUOTE, BACKSLASH, NEWLINE}"

definition forbidden_unquoted :: "char \<Rightarrow> bool" where
  "forbidden_unquoted c \<longleftrightarrow>
     c \<in> {CHR ''<'', CHR ''>'', CHR ''$'', CHR ''{'', CHR ''}'', CHR ''('', CHR '')'', CHR ''*'',
          CHR ''?'', CHR ''['', CHR '']''}"

text \<open>Whether a tilde after the current text starts a word (or follows \<open>=\<close>, \<open>:\<close> or \<open>;\<close>).\<close>

definition tilde_expands :: "string \<Rightarrow> bool" where
  "tilde_expands current =
     (if current = [] then True
      else is_space (last current) \<or> last current \<in> {CHR ''='', CHR '':'', CHR '';''})"

definition push_segment :: "string list \<Rightarrow> string \<Rightarrow> string list" where
  "push_segment segments current = (if trim current \<noteq> [] then segments @ [trim current] else segments)"

datatype quote = Unquoted | Single | Double

text \<open>
  One step of the scanner at \<open>command[i]\<close> (the argument is the command from \<open>i\<close> on). \<open>scan_token\<close> covers the
  branches that extend the current segment: how many characters they take, and the quote after them.
  It is \<open>None\<close> for an operator that ends the segment, which \<open>boundary\<close> then measures, and for what makes
  the command unparseable.
\<close>

definition scan_token :: "quote \<Rightarrow> string \<Rightarrow> string \<Rightarrow> (nat \<times> quote) option" where
  "scan_token q current s =
     (case s of [] \<Rightarrow> None
      | ch # rest \<Rightarrow>
        (if q = Single then Some (1, if ch = SQUOTE then Unquoted else Single)
         else if ch = CHR ''$'' \<and> startsWith rest ''('' then None
         else if ch = CHR ''`'' then None
         else if q = Unquoted \<and> ch = CHR ''<'' \<and> startsWith rest ''('' then None
         else if q = Unquoted \<and> ch = CHR ''>'' \<and> startsWith rest ''('' then None
         else if q = Double then
           (if ch = DQUOTE then Some (1, Unquoted)
            else if ch = CHR ''$'' then None
            else if ch = BACKSLASH \<and> rest \<noteq> [] \<and> escapable_in_double_quotes (hd rest) then Some (2, Double)
            else Some (1, Double))
         else if ch = SQUOTE then Some (1, Single)
         else if ch = DQUOTE then Some (1, Double)
         else if ch = BACKSLASH \<and> rest \<noteq> [] then Some (2, Unquoted)
         else case discard_redirection (ch # rest) of
             Some n \<Rightarrow> Some (n, Unquoted)
           | None \<Rightarrow>
               (if ch = CHR ''~'' then (if tilde_expands current then None else Some (1, Unquoted))
                else if ch = CHR ''#'' then None
                else if forbidden_unquoted ch then None
                else if ch = NEWLINE \<or> ch = CHR '';'' \<or> ch = CHR ''&'' \<or> ch = CHR ''|'' then None
                else Some (1, Unquoted))))"

definition boundary :: "string \<Rightarrow> nat option" where
  "boundary s =
     (case s of [] \<Rightarrow> None
      | ch # rest \<Rightarrow>
         (if ch = NEWLINE \<or> ch = CHR '';'' then Some 1
          else if ch = CHR ''&'' \<and> startsWith rest ''&'' then Some 2
          else if ch = CHR ''|'' \<and> startsWith rest ''|'' then Some 2
          else if ch = CHR ''|'' \<or> ch = CHR ''&'' then Some 1 else None))"

lemma startsWith_simps [simp]:
  "startsWith s []" "startsWith [] (c # p) \<longleftrightarrow> False" "startsWith (x # s) (c # p) \<longleftrightarrow> x = c \<and> startsWith s p"
  by (auto simp: startsWith_def)

lemma redirection_target_bounds: "redirection_target s = Some n \<Longrightarrow> 2 \<le> n \<and> n \<le> length s"
  by (auto simp: redirection_target_def startsWith_iff split: list.splits if_splits)

lemma discard_bounds: "discard_redirection s = Some n \<Longrightarrow> 3 \<le> n \<and> n \<le> length s"
  by (auto simp: discard_redirection_def startsWith_iff split: list.splits if_splits
      dest!: redirection_target_bounds)

text \<open>The shapes of a step that extends the segment.\<close>

definition plain_char :: "char \<Rightarrow> bool" where
  "plain_char c \<longleftrightarrow> c \<notin> {SQUOTE, DQUOTE, CHR ''`'', CHR ''~'', CHR ''#'', NEWLINE, CHR '';'', CHR ''&'', CHR ''|''} \<and>
     \<not> forbidden_unquoted c"

lemma scan_token_cases:
  assumes "scan_token q current s = Some (n, q')"
  obtains
    (single) ch rest where "q = Single" "s = ch # rest" "n = 1" "q' = (if ch = SQUOTE then Unquoted else Single)"
  | (dclose) rest where "q = Double" "s = DQUOTE # rest" "n = 1" "q' = Unquoted"
  | (dplain) ch rest where "q = Double" "s = ch # rest" "n = 1" "q' = Double" "ch \<noteq> DQUOTE" "ch \<noteq> CHR ''$''"
      "ch \<noteq> CHR ''`''" "ch = BACKSLASH \<Longrightarrow> rest = [] \<or> \<not> escapable_in_double_quotes (hd rest)"
  | (dpair) c rest where "q = Double" "s = BACKSLASH # c # rest" "n = 2" "q' = Double" "escapable_in_double_quotes c"
  | (squote) rest where "q = Unquoted" "s = SQUOTE # rest" "n = 1" "q' = Single"
  | (dquote) rest where "q = Unquoted" "s = DQUOTE # rest" "n = 1" "q' = Double"
  | (pair) c rest where "q = Unquoted" "s = BACKSLASH # c # rest" "n = 2" "q' = Unquoted"
  | (discard) "q = Unquoted" "discard_redirection s = Some n" "q' = Unquoted"
  | (tilde) rest where "q = Unquoted" "s = CHR ''~'' # rest" "n = 1" "q' = Unquoted" "\<not> tilde_expands current"
  | (plain) ch rest where "q = Unquoted" "s = ch # rest" "n = 1" "q' = Unquoted" "discard_redirection s = None"
      "plain_char ch" "ch = BACKSLASH \<Longrightarrow> rest = []"
proof (cases s)
  case Nil
  then show ?thesis using assms by (simp add: scan_token_def)
next
  case (Cons ch rest)
  consider "q = Single" | "q = Double" | "q = Unquoted" by (cases q)
  then show ?thesis
  proof cases
    case 1
    then show ?thesis using assms Cons single by (simp add: scan_token_def)
  next
    case 2
    show ?thesis
    proof (cases "ch = BACKSLASH \<and> rest \<noteq> [] \<and> escapable_in_double_quotes (hd rest)")
      case True
      then show ?thesis using assms Cons 2 dpair [of "hd rest" "tl rest"] by (simp add: scan_token_def)
    next
      case False
      then show ?thesis using assms Cons 2 dclose [of rest] dplain [of ch rest]
        unfolding scan_token_def by (simp split: if_split_asm)
    qed
  next
    case 3
    consider "ch = SQUOTE" | "ch = DQUOTE" | "ch = BACKSLASH" "rest \<noteq> []"
      | "\<not> (ch = SQUOTE \<or> ch = DQUOTE \<or> ch = BACKSLASH \<and> rest \<noteq> [])" by blast
    then show ?thesis
    proof cases
      case 1
      then show ?thesis using assms Cons 3 squote by (simp add: scan_token_def)
    next
      case 2
      then show ?thesis using assms Cons 3 dquote by (simp add: scan_token_def)
    next
      case esc: 3
      then show ?thesis using assms Cons 3 pair [of "hd rest" "tl rest"] by (simp add: scan_token_def)
    next
      case other: 4
      show ?thesis
      proof (cases "discard_redirection s")
        case (Some m)
        then show ?thesis using assms Cons 3 other discard
          unfolding scan_token_def by (simp split: if_split_asm)
      next
        case None
        then show ?thesis using assms Cons 3 other tilde plain [of ch rest]
          unfolding scan_token_def plain_char_def by (simp split: if_split_asm)
      qed
    qed
  qed
qed

lemma discard_first: "discard_redirection s = Some n \<Longrightarrow> \<exists>ch rest. s = ch # rest \<and> (ch = CHR ''&'' \<or> ch = CHR ''>'' \<or> is_digit ch)"
  by (auto simp: discard_redirection_def startsWith_iff split: list.splits if_splits)

lemma plain_not_operator: "plain_char c \<Longrightarrow> c \<noteq> CHR ''&'' \<and> c \<noteq> CHR ''>'' \<and> c \<noteq> CHR ''*''"
  by (auto simp: plain_char_def forbidden_unquoted_def)

lemma is_digit_eq: "is_digit c \<Longrightarrow> c \<notin> {SQUOTE, DQUOTE, CHR ''`'', CHR ''$'', CHR ''~'', CHR ''#'', BACKSLASH, CHR ''<'', CHR ''&'', CHR ''>'', CHR ''*''}"
  by (auto simp: is_digit_def)

lemma scan_token_intros:
  "scan_token Single current (ch # rest) = Some (1, if ch = SQUOTE then Unquoted else Single)"
  "scan_token Double current (DQUOTE # rest) = Some (1, Unquoted)"
  "ch \<noteq> DQUOTE \<Longrightarrow> ch \<noteq> CHR ''$'' \<Longrightarrow> ch \<noteq> CHR ''`'' \<Longrightarrow>
     (ch = BACKSLASH \<Longrightarrow> rest = [] \<or> \<not> escapable_in_double_quotes (hd rest)) \<Longrightarrow>
     scan_token Double current (ch # rest) = Some (1, Double)"
  "escapable_in_double_quotes c \<Longrightarrow> scan_token Double current (BACKSLASH # c # rest) = Some (2, Double)"
  "scan_token Unquoted current (SQUOTE # rest) = Some (1, Single)"
  "scan_token Unquoted current (DQUOTE # rest) = Some (1, Double)"
  "scan_token Unquoted current (BACKSLASH # c # rest) = Some (2, Unquoted)"
  "\<not> tilde_expands current \<Longrightarrow> scan_token Unquoted current (CHR ''~'' # rest) = Some (1, Unquoted)"
  "plain_char ch \<Longrightarrow> (ch = BACKSLASH \<Longrightarrow> rest = []) \<Longrightarrow> discard_redirection (ch # rest) = None \<Longrightarrow>
     scan_token Unquoted current (ch # rest) = Some (1, Unquoted)"
  subgoal by (simp add: scan_token_def)
  subgoal by (simp add: scan_token_def)
  subgoal by (simp add: scan_token_def)
  subgoal by (simp add: scan_token_def)
  subgoal by (simp add: scan_token_def)
  subgoal by (simp add: scan_token_def)
  subgoal by (simp add: scan_token_def)
  subgoal using discard_first [of "CHR ''~'' # rest"]
    by (cases "discard_redirection (CHR ''~'' # rest)") (auto simp: scan_token_def is_digit_def forbidden_unquoted_def)
  subgoal by (simp add: scan_token_def plain_char_def forbidden_unquoted_def)
  done

lemma scan_token_discard:
  assumes "discard_redirection s = Some n"
  shows "scan_token Unquoted current s = Some (n, Unquoted)"
proof -
  obtain ch rest where s: "s = ch # rest" and ch: "ch = CHR ''&'' \<or> ch = CHR ''>'' \<or> is_digit ch"
    using discard_first [OF assms] by blast
  have gt: "\<not> startsWith rest ''(''" if "ch = CHR ''>''"
    using assms s that
    by (cases rest) (auto simp: discard_redirection_def redirection_target_def split: list.splits if_splits)
  consider "ch = CHR ''&''" | "ch = CHR ''>''" | "is_digit ch" using ch by blast
  then show ?thesis
  proof cases
    case 3
    then show ?thesis using assms s is_digit_eq [OF 3] by (simp add: scan_token_def)
  qed (use assms s gt in \<open>simp_all add: scan_token_def\<close>)
qed

lemma scan_token_bounds: "scan_token q current s = Some (n, q') \<Longrightarrow> 0 < n \<and> n \<le> length s"
  by (erule scan_token_cases) (auto dest: discard_bounds)

lemma boundary_bounds: "boundary s = Some n \<Longrightarrow> 0 < n \<and> n \<le> length s"
  by (cases s) (auto simp: boundary_def startsWith_iff split: if_splits)

text \<open>
  The scanner. Its arguments are \<open>quote\<close>, \<open>segments\<close>, \<open>current\<close> and the command from index \<open>i\<close> on;
  \<open>None\<close> is the result "unparseable".
\<close>

function scan :: "quote \<Rightarrow> string list \<Rightarrow> string \<Rightarrow> string \<Rightarrow> string list option" where
  "scan q segments current s =
     (if s = [] then (if q \<noteq> Unquoted then None else Some (push_segment segments current))
      else case scan_token q current s of
          Some (n, q') \<Rightarrow> scan q' segments (current @ take n s) (drop n s)
        | None \<Rightarrow>
            (case (if q = Unquoted then boundary s else None) of
               Some n \<Rightarrow> scan Unquoted (push_segment segments current) [] (drop n s)
             | None \<Rightarrow> None))"
  by pat_completeness auto
termination
  by (relation "measure (\<lambda>(q, segments, current, s). length s)")
     (auto split: if_splits dest!: scan_token_bounds boundary_bounds)

declare scan.simps [simp del]

definition classifyBashCommand :: "string \<Rightarrow> bash_classification" where
  "classifyBashCommand command =
     (case scan Unquoted [] [] command of
        None \<Rightarrow> Unparseable
      | Some segments \<Rightarrow> if segments = [] then Empty_Command else Segments segments)"

section \<open>The read-only allow-list\<close>

text \<open>\<open>s.trim().split(/\s+/).filter(Boolean)\<close>: the words of a string.\<close>

fun words :: "string \<Rightarrow> string \<Rightarrow> string list" where
  "words w [] = (if w = [] then [] else [w])"
| "words w (c # s) =
     (if is_space c then (if w = [] then words [] s else w # words [] s) else words (w @ [c]) s)"

definition VERSION_TOOLS :: "string list" where
  "VERSION_TOOLS = [''git'', ''node'', ''npm'', ''rg'', ''python3'']"

definition GIT_FLAGS :: "(string \<times> string list) list" where
  "GIT_FLAGS =
     [(''status'', [''-s'', ''-b'', ''--short'', ''--branch'', ''--porcelain'']),
      (''log'', [''--oneline'', ''--stat'', ''--graph'', ''--decorate'', ''--all'', ''-p'']),
      (''diff'', [''--stat'', ''--name-only'', ''--name-status'', ''--cached'', ''--staged'']),
      (''show'', [''--stat'', ''--oneline'', ''--name-only'', ''--no-patch'', ''-s'']),
      (''branch'', [''-a'', ''-r'', ''-v'', ''-vv'', ''--all'', ''--remotes'', ''--list'', ''--show-current'']),
      (''rev-parse'', [''--abbrev-ref'', ''--show-toplevel'', ''--short'', ''--git-dir''])]"

text \<open>
  \<open>GIT_FLAGS[subcommand]\<close> on a plain object: its own entries, the names every object inherits (values
  that are not sets, so \<open>has\<close> on them throws), or undefined.
\<close>

datatype git_flags = Flags "string list" | Inherited | Absent

definition OBJECT_PROTOTYPE :: "string list" where
  "OBJECT_PROTOTYPE =
     [''constructor'', ''__defineGetter__'', ''__defineSetter__'', ''hasOwnProperty'', ''__lookupGetter__'',
      ''__lookupSetter__'', ''isPrototypeOf'', ''propertyIsEnumerable'', ''toString'', ''valueOf'',
      ''__proto__'', ''toLocaleString'']"

definition git_flags_of :: "string \<Rightarrow> git_flags" where
  "git_flags_of subcommand =
     (case al_get subcommand GIT_FLAGS of
        Some fs \<Rightarrow> Flags fs
      | None \<Rightarrow> if subcommand \<in> set OBJECT_PROTOTYPE then Inherited else Absent)"

definition flags_has :: "git_flags \<Rightarrow> string \<Rightarrow> bool throws" where
  "flags_has flags token =
     (case flags of Flags fs \<Rightarrow> Inr (token \<in> set fs) | _ \<Rightarrow> Inl ''flags.has is not a function'')"

definition ref_char :: "char \<Rightarrow> bool" where
  "ref_char c \<longleftrightarrow>
     (let n = (of_char c :: nat) in
      65 \<le> n \<and> n \<le> 90 \<or> 97 \<le> n \<and> n \<le> 122 \<or> is_digit c \<or>
      c \<in> {CHR ''.'', CHR ''_'', CHR ''~'', CHR ''^'', CHR ''@'', CHR ''/'', CHR '':'', CHR ''+'', CHR ''-''})"

definition isRefLike :: "string \<Rightarrow> bool" where
  "isRefLike token =
     (if startsWith token ''-'' \<or> string_includes token ''--'' then False
      else if startsWith token ''/'' \<or> startsWith token ''./'' \<or> startsWith token ''../'' then False
      else if string_includes token ''/../'' then False
      else token \<noteq> [] \<and> list_all ref_char token)"

text \<open>\<open>xs.every(p)\<close> for a predicate that may throw.\<close>

fun every_throws :: "('a \<Rightarrow> bool throws) \<Rightarrow> 'a list \<Rightarrow> bool throws" where
  "every_throws p [] = Inr True"
| "every_throws p (x # xs) = bind_throws (p x) (\<lambda>b. if b then every_throws p xs else Inr False)"

definition isReadOnlyGit :: "string list \<Rightarrow> bool throws" where
  "isReadOnlyGit tokens =
     (case tokens of
        [] \<Rightarrow> Inr False
      | subcommand # rest \<Rightarrow>
          (let flags = (if subcommand = [] then Absent else git_flags_of subcommand) in
           if flags = Absent then Inr False
           else if subcommand = ''branch'' then every_throws (flags_has flags) rest
           else every_throws (\<lambda>token.
               if startsWith token ''-''
               then bind_throws (flags_has flags token) (\<lambda>b. Inr (b \<or> subcommand = ''log'' \<and>
                 length token \<ge> 2 \<and> list_all is_digit (tl token)))
               else Inr (isRefLike token)) rest))"

definition isReadOnlyCommand :: "string \<Rightarrow> bool throws" where
  "isReadOnlyCommand segment =
     (case words [] segment of
        [] \<Rightarrow> Inr False
      | program # args \<Rightarrow>
          (if args = [] \<and> program = ''pwd'' then Inr True
           else if program = ''git'' then isReadOnlyGit args
           else Inr (program \<in> set VERSION_TOOLS \<and> args = [''--version''])))"

section \<open>Matching and the permission spec\<close>

definition normalizeSegment :: "string \<Rightarrow> string" where
  "normalizeSegment text = join '' '' (words [] text)"

definition hasGrammarSensitiveStructure :: "string \<Rightarrow> bool" where
  "hasGrammarSensitiveStructure value \<longleftrightarrow>
     list_ex (\<lambda>c. c \<in> {DQUOTE, SQUOTE, BACKSLASH, TAB, NEWLINE, CHR ''#''}) value"

definition segmentMatchesRule :: "string \<Rightarrow> string \<Rightarrow> bool" where
  "segmentMatchesRule segment content =
     (let sensitive = hasGrammarSensitiveStructure segment \<or> hasGrammarSensitiveStructure content;
          normalizedSegment = (if sensitive then segment else normalizeSegment segment);
          normalizedRule = (if sensitive then content else normalizeSegment content) in
      if endsWith normalizedRule '':*''
      then
        (let prefix = trim (take (length normalizedRule - 2) normalizedRule) in
         prefix \<noteq> [] \<and> (normalizedSegment = prefix \<or> startsWith normalizedSegment (prefix @ '' '')))
      else normalizedSegment = normalizedRule)"

definition BACKGROUND_HANDLE_RULE :: string where
  "BACKGROUND_HANDLE_RULE = ''background-handle''"

definition bash_defaultBehaviorFor :: "json \<Rightarrow> permission_behavior option throws" where
  "bash_defaultBehaviorFor params =
     (case parseShellOperation params of
        Inl _ \<Rightarrow> Inr None
      | Inr (Op_Run command _ _) \<Rightarrow>
          (case classifyBashCommand command of
             Segments [segment] \<Rightarrow>
               bind_throws (isReadOnlyCommand segment) (\<lambda>b. Inr (if b then Some Allow else None))
           | _ \<Rightarrow> Inr None)
      | Inr _ \<Rightarrow> Inr (Some Allow))"

definition bash_matches :: "string \<Rightarrow> json \<Rightarrow> bool" where
  "bash_matches content params =
     (case parseShellOperation params of
        Inl _ \<Rightarrow> False
      | Inr (Op_Run command _ _) \<Rightarrow>
          (case classifyBashCommand command of
             Segments segments \<Rightarrow> list_all (\<lambda>s. segmentMatchesRule s content) segments
           | _ \<Rightarrow> False)
      | Inr _ \<Rightarrow> content = BACKGROUND_HANDLE_RULE)"

definition bash_matchesDeny :: "string \<Rightarrow> json \<Rightarrow> bool" where
  "bash_matchesDeny content params =
     (case parseShellOperation params of
        Inl _ \<Rightarrow> False
      | Inr (Op_Run command _ _) \<Rightarrow>
          (case classifyBashCommand command of
             Segments segments \<Rightarrow> list_ex (\<lambda>s. segmentMatchesRule s content) segments
           | _ \<Rightarrow> False)
      | Inr _ \<Rightarrow> content = BACKGROUND_HANDLE_RULE)"

definition bash_isUnknown :: "json \<Rightarrow> bool" where
  "bash_isUnknown params =
     (case parseShellOperation params of
        Inl _ \<Rightarrow> True
      | Inr (Op_Run command _ _) \<Rightarrow> \<not> (\<exists>ss. classifyBashCommand command = Segments ss)
      | Inr _ \<Rightarrow> False)"

definition bash_describe :: "string \<Rightarrow> string" where
  "bash_describe content =
     (if content = BACKGROUND_HANDLE_RULE then ''Retrieve or kill background shell commands''
      else ''Run bash commands matching \"'' @ content @ ''\"'')"

definition bash_previewCall :: "json \<Rightarrow> permission_preview throws" where
  "bash_previewCall params =
     (case parseShellOperation params of
        Inl why \<Rightarrow> Inr (Preview_Summary [why])
      | Inr (Op_Kill h) \<Rightarrow> Inr (Preview_Summary [''Kill background shell command '' @ h])
      | Inr (Op_Retrieve h) \<Rightarrow> Inr (Preview_Summary [''Retrieve output from background shell command '' @ h])
      | Inr (Op_Run command _ _) \<Rightarrow> Inr (Preview_Summary [command]))"

definition bash_ruleForCall :: "json \<Rightarrow> string option" where
  "bash_ruleForCall params =
     (case parseShellOperation params of
        Inl _ \<Rightarrow> None
      | Inr (Op_Run command _ _) \<Rightarrow>
          (case classifyBashCommand command of
             Segments [segment] \<Rightarrow>
               Some (if hasGrammarSensitiveStructure segment then segment else normalizeSegment segment)
           | _ \<Rightarrow> None)
      | Inr _ \<Rightarrow> Some BACKGROUND_HANDLE_RULE)"

text \<open>
  The methods of the spec. A \<open>defaultBehaviorFor\<close> that throws makes the whole evaluation reject; the
  record has no such outcome, and stands for it with no default of its own (the call asks).
\<close>

definition createBashPermissionSpec :: "json permission_spec" where
  "createBashPermissionSpec =
     \<lparr>defaultBehavior = Ask,
      defaultBehaviorFor = Some (\<lambda>params. case bash_defaultBehaviorFor params of Inr b \<Rightarrow> b | Inl _ \<Rightarrow> None),
      withinWorkspace = None,
      protectedTarget = None,
      allowRuleGrants = None,
      prepareCall = None,
      previewCall = Some bash_previewCall,
      spec_matches = bash_matches,
      matchesDeny = Some bash_matchesDeny,
      isUnknown = Some bash_isUnknown,
      describe = bash_describe,
      ruleForCall = bash_ruleForCall\<rparr>"

end
