(* ===== verification/Bash_Segments.thy ===== *)
theory Bash_Segments imports Bash_Grammar begin

text \<open>
  What the segments of a command are: each one, scanned alone, is one segment again, and what the
  permission spec of the shell tool derives from them. \<open>accepts q current p\<close> says that the scanner, in
  quote \<open>q\<close> after the text \<open>current\<close>, takes all of \<open>p\<close> into the segment and ends unquoted.
\<close>

section \<open>The lookahead of a redirection\<close>

lemma redirection_ends_append:
  "redirection_ends (p @ y) \<Longrightarrow> redirection_ends p"
  "redirection_ends p \<Longrightarrow> redirection_ends y \<Longrightarrow> redirection_ends (p @ y)"
  by (cases p; simp add: redirection_ends_def)+

text \<open>The texts a discarding redirection may be.\<close>

definition target_text :: "string \<Rightarrow> bool" where
  "target_text t \<longleftrightarrow> t = ''/dev/null'' \<or> (\<exists>d. is_digit d \<and> t = [CHR ''&'', d])"

definition discard_text :: "string \<Rightarrow> bool" where
  "discard_text t \<longleftrightarrow>
     t = ''&>/dev/null'' \<or> (\<exists>u. target_text u \<and> (t = CHR ''>'' # u \<or> (\<exists>e. is_digit e \<and> t = e # CHR ''>'' # u)))"

lemma redirection_target_iff:
  "redirection_target s = Some n \<longleftrightarrow> (\<exists>t r. s = t @ r \<and> n = length t \<and> target_text t \<and> redirection_ends r)"
  (is "?l = ?r")
proof
  assume l: ?l
  then obtain c d rest where s: "s = c # d # rest"
    by (auto simp: redirection_target_def split: list.splits)
  show ?r
  proof (cases "c = CHR ''&'' \<and> is_digit d \<and> redirection_ends rest")
    case True
    then have "s = [CHR ''&'', d] @ rest \<and> n = length [CHR ''&'', d] \<and> target_text [CHR ''&'', d] \<and> redirection_ends rest"
      using l s by (simp add: redirection_target_def target_text_def)
    then show ?thesis by blast
  next
    case False
    then have l': "startsWith s ''/dev/null''" "redirection_ends (drop 9 s)" "n = 9"
      using l s by (auto simp: redirection_target_def split: if_splits)
    obtain r where r: "s = ''/dev/null'' @ r" using l'(1) unfolding startsWith_iff by blast
    then have "redirection_ends r" using l'(2) by simp
    then have "s = ''/dev/null'' @ r \<and> n = length ''/dev/null'' \<and> target_text ''/dev/null'' \<and> redirection_ends r"
      using r l'(3) by (simp add: target_text_def)
    then show ?thesis by blast
  qed
next
  assume ?r
  then show ?l by (auto simp: redirection_target_def target_text_def)
qed

lemma discard_iff:
  "discard_redirection s = Some n \<longleftrightarrow> (\<exists>t r. s = t @ r \<and> n = length t \<and> discard_text t \<and> redirection_ends r)"
  (is "?l = ?r")
proof
  assume l: ?l
  show ?r
  proof (cases "startsWith s ''&>/dev/null'' \<and> redirection_ends (drop 11 s)")
    case True
    then obtain r where r: "s = ''&>/dev/null'' @ r" unfolding startsWith_iff by blast
    then have "s = ''&>/dev/null'' @ r \<and> n = length ''&>/dev/null'' \<and> discard_text ''&>/dev/null'' \<and> redirection_ends r"
      using True l by (simp add: discard_redirection_def discard_text_def)
    then show ?thesis by blast
  next
    case False
    obtain c rest where s: "s = c # rest" using discard_first [OF l] by blast
    consider (plain) m where "c = CHR ''>''" "redirection_target rest = Some m" "n = m + 1"
      | (digit) x m where "c \<noteq> CHR ''>''" "is_digit c" "rest = CHR ''>'' # x" "redirection_target x = Some m" "n = m + 2"
      using l False s unfolding discard_redirection_def
      by (cases rest) (auto split: if_splits)
    then show ?thesis
    proof cases
      case plain
      then obtain t r where t: "rest = t @ r" "m = length t" "target_text t" "redirection_ends r"
        unfolding redirection_target_iff by blast
      then have "s = (CHR ''>'' # t) @ r \<and> n = length (CHR ''>'' # t) \<and> discard_text (CHR ''>'' # t) \<and> redirection_ends r"
        using plain s by (auto simp: discard_text_def)
      then show ?thesis by blast
    next
      case digit
      then obtain t r where t: "x = t @ r" "m = length t" "target_text t" "redirection_ends r"
        unfolding redirection_target_iff by blast
      then have "s = (c # CHR ''>'' # t) @ r \<and> n = length (c # CHR ''>'' # t) \<and> discard_text (c # CHR ''>'' # t) \<and>
          redirection_ends r"
        using digit s by (auto simp: discard_text_def)
      then show ?thesis by blast
    qed
  qed
next
  assume ?r
  then obtain t r where t: "s = t @ r" "n = length t" "discard_text t" "redirection_ends r" by blast
  have target: "target_text u \<Longrightarrow> redirection_target (u @ r) = Some (length u)" for u
    using t(4) redirection_target_iff by blast
  consider "t = ''&>/dev/null''" | u where "target_text u" "t = CHR ''>'' # u"
    | u e where "target_text u" "is_digit e" "t = e # CHR ''>'' # u"
    using t(3) unfolding discard_text_def by blast
  then show ?l
  proof cases
    case 1
    then show ?thesis using t by (simp add: discard_redirection_def)
  next
    case 2
    then show ?thesis using t target by (simp add: discard_redirection_def)
  next
    case 3
    then show ?thesis using t target is_digit_eq [of e] by (simp add: discard_redirection_def)
  qed
qed

lemma discard_extend:
  "discard_redirection s = Some n \<Longrightarrow> redirection_ends y \<Longrightarrow> discard_redirection (s @ y) = Some n"
  unfolding discard_iff by (metis append.assoc redirection_ends_append(2))

lemma discard_restrict:
  assumes "discard_redirection (t @ r) = Some (length t)"
  shows "redirection_ends r" and "redirection_ends y \<Longrightarrow> discard_redirection (t @ y) = Some (length t)"
    and "discard_text t"
  using assms unfolding discard_iff by (metis append_eq_append_conv)+

lemma discard_digit:
  assumes "is_digit d" and "discard_redirection (CHR ''>'' # x) = Some m"
  shows "discard_redirection (d # CHR ''>'' # x) = Some (Suc m)"
proof -
  obtain t r where t: "CHR ''>'' # x = t @ r" "m = length t" "discard_text t" "redirection_ends r"
    using assms(2) unfolding discard_iff by blast
  have "\<not> is_digit CHR ''>''" by (simp add: is_digit_def)
  moreover have "hd t = CHR ''>''" using t(1,3) by (cases t) (auto simp: discard_text_def)
  ultimately obtain u where "target_text u" "t = CHR ''>'' # u" using t(3) by (auto simp: discard_text_def)
  then have "discard_text (d # t)" using assms(1) by (auto simp: discard_text_def)
  then have "d # CHR ''>'' # x = (d # t) @ r \<and> Suc m = length (d # t) \<and> discard_text (d # t) \<and> redirection_ends r"
    using t by simp
  then show ?thesis unfolding discard_iff by blast
qed

lemma discard_gt_tail:
  assumes "discard_redirection (d # y) = Some m" and "plain_char d"
  shows "is_digit d \<and> (\<exists>x. y = CHR ''>'' # x)"
  using assms plain_not_operator [OF assms(2)] unfolding discard_iff discard_text_def
  by (auto simp: Cons_eq_append_conv)

lemma discard_text_last: "discard_text t \<Longrightarrow> t \<noteq> [] \<and> \<not> is_space (last t) \<and> last t \<noteq> CHR '':'' \<and> CHR ''*'' \<notin> set t \<and>
    2 < length t"
  by (auto simp: discard_text_def target_text_def is_digit_def is_space_def)

lemma boundary_ends: "boundary s = Some n \<Longrightarrow> redirection_ends s"
  by (cases s) (auto simp: boundary_def redirection_ends_def is_space_def split: if_splits)

section \<open>What a segment may contain\<close>

text \<open>
  A specification of inert text, written without the scanner. In double quotes there is no substitution: every
  \<open>$\<close> and backtick is escaped. Outside quotes there are words, whose characters are none of the special ones,
  quoted parts, escaped characters, and the redirections that discard or merge output, each followed by the end,
  white space or an operator. A lone backslash may end the text.
\<close>

definition SHELL_SPECIALS :: "char set" where
  "SHELL_SPECIALS = {CHR ''|'', CHR ''&'', CHR '';'', NEWLINE, CHR ''<'', CHR ''>'', CHR ''$'', CHR ''`'', CHR ''('', CHR '')'',
     CHR ''{'', CHR ''}'', CHR ''*'', CHR ''?'', CHR ''['', CHR '']'', CHR ''#'', SQUOTE, DQUOTE, BACKSLASH}"

definition OPERATORS :: "string set" where
  "OPERATORS = {[NEWLINE], '';'', ''&&'', ''||'', ''|'', ''&''}"

inductive quoted_text :: "string \<Rightarrow> bool" where
  quoted_end: "quoted_text []"
| quoted_pair: "c \<in> {CHR ''$'', CHR ''`'', DQUOTE, BACKSLASH, NEWLINE} \<Longrightarrow> quoted_text t \<Longrightarrow> quoted_text (BACKSLASH # c # t)"
| quoted_backslash: "c \<notin> {CHR ''$'', CHR ''`'', DQUOTE, BACKSLASH, NEWLINE} \<Longrightarrow> quoted_text (c # t) \<Longrightarrow>
    quoted_text (BACKSLASH # c # t)"
| quoted_char: "c \<notin> {CHR ''$'', CHR ''`'', DQUOTE, BACKSLASH} \<Longrightarrow> quoted_text t \<Longrightarrow> quoted_text (c # t)"

inductive discarding :: "string \<Rightarrow> bool" where
  discard_both: "discarding ''&>/dev/null''"
| discard_one: "discarding ''>/dev/null''"
| discard_fd: "is_digit e \<Longrightarrow> discarding (e # ''>/dev/null'')"
| merge_one: "is_digit d \<Longrightarrow> discarding [CHR ''>'', CHR ''&'', d]"
| merge_fd: "is_digit e \<Longrightarrow> is_digit d \<Longrightarrow> discarding [e, CHR ''>'', CHR ''&'', d]"

definition word_ends :: "string \<Rightarrow> bool" where
  "word_ends s \<longleftrightarrow> s = [] \<or> is_space (hd s) \<or> hd s \<in> {CHR '';'', CHR ''&'', CHR ''|'', CHR '')''}"

inductive inert :: "string \<Rightarrow> bool" where
  inert_end: "inert []"
| inert_word: "c \<notin> SHELL_SPECIALS \<Longrightarrow> inert s \<Longrightarrow> inert (c # s)"
| inert_single: "SQUOTE \<notin> set t \<Longrightarrow> inert s \<Longrightarrow> inert (SQUOTE # t @ SQUOTE # s)"
| inert_double: "quoted_text t \<Longrightarrow> inert s \<Longrightarrow> inert (DQUOTE # t @ DQUOTE # s)"
| inert_pair: "inert s \<Longrightarrow> inert (BACKSLASH # c # s)"
| inert_backslash: "inert [BACKSLASH]"
| inert_discard: "discarding t \<Longrightarrow> word_ends s \<Longrightarrow> inert s \<Longrightarrow> inert (t @ s)"

lemma not_space_quotes [simp]: "\<not> is_space SQUOTE" "\<not> is_space DQUOTE" "\<not> is_space BACKSLASH" "is_space CHR '' ''"
  by (simp_all add: is_space_def)

lemma discard_text_discarding: "discard_text t \<Longrightarrow> discarding t"
  by (auto simp: discard_text_def target_text_def intro: discarding.intros)

lemma discarding_last: "discarding t \<Longrightarrow> t \<noteq> [] \<and> \<not> is_space (last t) \<and> \<not> is_space (hd t)"
  by (auto elim!: discarding.cases simp: is_space_def is_digit_def)

lemma redirection_ends_word: "redirection_ends s \<longleftrightarrow> word_ends s"
  by (cases s) (auto simp: redirection_ends_def word_ends_def)

text \<open>What the specification rules out: no inert text starts with a pipe, a semicolon, an input redirection and so on.\<close>

lemma discarding_first: "discarding t \<Longrightarrow> t \<noteq> [] \<and> (hd t = CHR ''&'' \<or> hd t = CHR ''>'' \<or> is_digit (hd t))"
  by (erule discarding.cases) auto

lemma special_not_inert:
  assumes "inert (c # s)"
  shows "c \<notin> SHELL_SPECIALS - {SQUOTE, DQUOTE, BACKSLASH, CHR ''&'', CHR ''>''}"
  using assms
proof (rule inert.cases)
  fix t u assume t: "c # s = t @ u" "discarding t"
  then have "c = hd t" by (cases t) (auto dest: discarding_first)
  then show ?thesis using discarding_first [OF t(2)] by (auto simp: SHELL_SPECIALS_def is_digit_def)
qed auto

text \<open>White space around inert text can be cut off.\<close>

lemma inert_cut_first: "inert (c # s) \<Longrightarrow> is_space c \<Longrightarrow> inert s"
  by (erule inert.cases) (auto dest: discarding_last simp: Cons_eq_append_conv)

lemma inert_cut_last: "inert u \<Longrightarrow> u = p @ [c] \<Longrightarrow> is_space c \<Longrightarrow> inert p"
proof (induction u arbitrary: p rule: inert.induct)
  case (inert_word x s)
  then show ?case by (cases p) (auto intro: inert.intros)
next
  case (inert_single t s)
  obtain s' where "s = s' @ [c]" "p = SQUOTE # t @ SQUOTE # s'"
    using inert_single.prems by (cases s rule: rev_cases) (auto simp: append_eq_Cons_conv)
  then show ?case using inert_single by (auto intro: inert.intros)
next
  case (inert_double t s)
  obtain s' where "s = s' @ [c]" "p = DQUOTE # t @ DQUOTE # s'"
    using inert_double.prems by (cases s rule: rev_cases) (auto simp: append_eq_Cons_conv)
  then show ?case using inert_double by (auto intro: inert.intros)
next
  case (inert_pair s x)
  show ?case
  proof (cases s rule: rev_cases)
    case Nil
    then show ?thesis using inert_pair.prems by (cases p) (auto intro: inert.intros simp: Cons_eq_append_conv)
  next
    case (snoc s' d)
    then have "p = BACKSLASH # x # s'" "d = c" using inert_pair.prems by (auto simp: Cons_eq_append_conv)
    then show ?thesis using inert_pair snoc by (auto intro: inert.intros)
  qed
next
  case (inert_discard t s)
  show ?case
  proof (cases s rule: rev_cases)
    case Nil
    then show ?thesis using inert_discard.prems discarding_last [OF inert_discard.hyps(1)] by auto
  next
    case (snoc s' d)
    then have "p = t @ s'" "d = c" using inert_discard.prems by auto
    moreover have "word_ends s'" using inert_discard.hyps(2) snoc by (cases s') (auto simp: word_ends_def)
    ultimately show ?thesis using inert_discard snoc by (auto intro: inert.intros)
  qed
qed auto

lemma inert_trim_start: "inert s \<Longrightarrow> inert (dropWhile is_space s)"
  by (induction s) (auto dest: inert_cut_first)

lemma inert_trim: "inert s \<Longrightarrow> inert (trim s)"
proof -
  have "inert (rev s) \<Longrightarrow> inert (rev (dropWhile is_space s))" for s
    by (induction s) (auto dest: inert_cut_last)
  then show "inert s \<Longrightarrow> inert (trim s)" using inert_trim_start [of s] by (simp add: trim_def trim_start_def)
qed

lemma plain_not_special: "plain_char c \<Longrightarrow> c \<noteq> BACKSLASH \<Longrightarrow> c \<notin> SHELL_SPECIALS"
  by (simp add: SHELL_SPECIALS_def plain_char_def forbidden_unquoted_def)

text \<open>Text that is inert from inside a quote on.\<close>

definition inert_from :: "quote \<Rightarrow> string \<Rightarrow> bool" where
  "inert_from q p \<longleftrightarrow>
     (case q of
        Unquoted \<Rightarrow> inert p
      | Single \<Rightarrow> (\<exists>t s. p = t @ SQUOTE # s \<and> SQUOTE \<notin> set t \<and> inert s)
      | Double \<Rightarrow> (\<exists>t s. p = t @ DQUOTE # s \<and> quoted_text t \<and> inert s))"

lemma inert_from_intros:
  "SQUOTE \<notin> set u \<Longrightarrow> inert s \<Longrightarrow> inert_from Single (u @ SQUOTE # s)"
  "quoted_text u \<Longrightarrow> inert s \<Longrightarrow> inert_from Double (u @ DQUOTE # s)"
  unfolding inert_from_def by auto

lemma inert_step:
  assumes "scan_token q current (t @ p @ y) = Some (length t, q')" and "inert_from q' p" and "redirection_ends y"
  shows "inert_from q (t @ p)"
  using assms(1)
proof (cases rule: scan_token_cases)
  case (single ch rest)
  then have t: "t = [ch]" by (cases t) auto
  show ?thesis
  proof (cases "ch = SQUOTE")
    case True
    then show ?thesis using single t assms(2) by (auto simp: inert_from_def intro: exI [of _ "[]"])
  next
    case False
    then obtain u s where "p = u @ SQUOTE # s" "SQUOTE \<notin> set u" "inert s"
      using single assms(2) by (auto simp: inert_from_def)
    then show ?thesis using inert_from_intros(1) [of "ch # u" s] single(1) t False by simp
  qed
next
  case (dclose rest)
  then have "t = [DQUOTE]" by (cases t) auto
  then show ?thesis using dclose assms(2) quoted_end by (auto simp: inert_from_def intro: exI [of _ "[]"])
next
  case (dplain ch rest)
  then have t: "t = [ch]" "rest = p @ y" by (cases t; simp)+
  obtain u s where p: "p = u @ DQUOTE # s" "quoted_text u" "inert s" using dplain assms(2) by (auto simp: inert_from_def)
  have "quoted_text (ch # u)"
  proof (cases "ch = BACKSLASH")
    case True
    then have "\<not> escapable_in_double_quotes (hd (u @ [DQUOTE]))" using dplain(8) t(2) p(1) by (cases u) auto
    then obtain c v where "u = c # v" "c \<notin> {CHR ''$'', CHR ''`'', DQUOTE, BACKSLASH, NEWLINE}"
      by (cases u) (auto simp: escapable_in_double_quotes_def)
    then show ?thesis using True p(2) quoted_backslash by simp
  next
    case False
    then show ?thesis using dplain p(2) quoted_char by simp
  qed
  then show ?thesis using inert_from_intros(2) [of "ch # u" s] dplain(1) t p by simp
next
  case (dpair c rest)
  then have t: "t = [BACKSLASH, c]" by (cases t; cases "tl t") auto
  obtain u s where p: "p = u @ DQUOTE # s" "quoted_text u" "inert s" using dpair assms(2) by (auto simp: inert_from_def)
  have "quoted_text (BACKSLASH # c # u)"
    using dpair(5) p(2) by (intro quoted_pair) (simp_all add: escapable_in_double_quotes_def)
  then show ?thesis using inert_from_intros(2) [of "BACKSLASH # c # u" s] dpair(1) t p by simp
next
  case (squote rest)
  then have "t = [SQUOTE]" by (cases t) auto
  then show ?thesis using squote assms(2) inert_single by (auto simp: inert_from_def)
next
  case (dquote rest)
  then have "t = [DQUOTE]" by (cases t) auto
  then show ?thesis using dquote assms(2) inert_double by (auto simp: inert_from_def)
next
  case (pair c rest)
  then have "t = [BACKSLASH, c]" by (cases t; cases "tl t") auto
  then show ?thesis using pair assms(2) inert_pair by (auto simp: inert_from_def)
next
  case discard
  then have "discarding t" using discard_restrict(3) [of t "p @ y"] discard_text_discarding by simp
  moreover have "word_ends p"
    using discard discard_restrict(1) [of t "p @ y"] redirection_ends_append(1) by (simp add: redirection_ends_word)
  ultimately show ?thesis using discard assms(2) inert_discard by (simp add: inert_from_def)
next
  case (tilde rest)
  then have "t = [CHR ''~'']" by (cases t) auto
  then show ?thesis using tilde assms(2) inert_word by (auto simp: inert_from_def SHELL_SPECIALS_def)
next
  case (plain ch rest)
  then have t: "t = [ch]" "rest = p @ y" by (cases t; simp)+
  show ?thesis
  proof (cases "ch = BACKSLASH")
    case True
    then show ?thesis using plain t inert_backslash by (simp add: inert_from_def)
  next
    case False
    then have "ch \<notin> SHELL_SPECIALS" by (rule plain_not_special [OF plain(6)])
    then show ?thesis using plain t assms(2) inert_word by (simp add: inert_from_def)
  qed
qed

lemma boundary_operator: "boundary s = Some n \<Longrightarrow> take n s \<in> OPERATORS"
  by (cases s) (auto simp: boundary_def OPERATORS_def startsWith_iff split: if_splits)

section \<open>Runs inside a segment\<close>

definition accepts :: "quote \<Rightarrow> string \<Rightarrow> string \<Rightarrow> bool" where
  "accepts q current p \<longleftrightarrow>
     (\<forall>segments current'. tilde_expands current' = tilde_expands current \<longrightarrow>
        scan q segments current' p = Some (push_segment segments (current' @ p)))"

text \<open>No text of a run ends in an unquoted \<open>:*\<close>.\<close>

definition no_suffix :: "quote \<Rightarrow> string \<Rightarrow> bool" where
  "no_suffix q p \<longleftrightarrow> (\<forall>x. p \<noteq> x @ '':*'') \<and> (q = Unquoted \<longrightarrow> p \<noteq> ''*'')"

definition run_ok :: "quote \<Rightarrow> string \<Rightarrow> string \<Rightarrow> bool" where
  "run_ok q current p \<longleftrightarrow>
     (\<forall>p1 ws. p = p1 @ ws \<longrightarrow> list_all is_space ws \<longrightarrow> accepts q current p1 \<and> no_suffix q p1) \<and>
     (q \<noteq> Unquoted \<longrightarrow> SQUOTE \<in> set p \<or> DQUOTE \<in> set p) \<and>
     (q = Unquoted \<longrightarrow> p = [] \<or> hd p \<noteq> NEWLINE) \<and>
     (q = Unquoted \<longrightarrow> set p \<inter> {SQUOTE, DQUOTE, BACKSLASH} = {} \<longrightarrow> CHR ''*'' \<notin> set p)"

lemma run_okD:
  assumes "run_ok q current p"
  shows "p = p1 @ ws \<Longrightarrow> list_all is_space ws \<Longrightarrow> accepts q current p1"
    and "p = p1 @ ws \<Longrightarrow> list_all is_space ws \<Longrightarrow> no_suffix q p1"
    and "q \<noteq> Unquoted \<Longrightarrow> SQUOTE \<in> set p \<or> DQUOTE \<in> set p"
    and "q = Unquoted \<Longrightarrow> p = [] \<or> hd p \<noteq> NEWLINE"
    and "q = Unquoted \<Longrightarrow> set p \<inter> {SQUOTE, DQUOTE, BACKSLASH} = {} \<Longrightarrow> CHR ''*'' \<notin> set p"
  using assms unfolding run_ok_def by blast+

lemma tilde_expands_append: "t \<noteq> [] \<Longrightarrow> tilde_expands (a @ t) = tilde_expands t"
  by (simp add: tilde_expands_def)

lemma accepts_Nil: "accepts Unquoted current []"
  by (simp add: accepts_def scan.simps)

lemma run_ok_Nil: "run_ok Unquoted current []"
  by (simp add: run_ok_def accepts_Nil no_suffix_def)

lemma accepts_step:
  assumes "accepts q' (current @ t) p"
    and "\<And>c. tilde_expands c = tilde_expands current \<Longrightarrow> scan_token q c (t @ p) = Some (length t, q')"
    and "t \<noteq> []"
  shows "accepts q current (t @ p)"
  unfolding accepts_def
proof (intro allI impI)
  fix segments c assume "tilde_expands c = tilde_expands current"
  then have "scan q segments c (t @ p) = scan q' segments (c @ t) p"
    using assms(2,3) by (subst scan.simps) simp
  also have "\<dots> = Some (push_segment segments ((c @ t) @ p))"
    using assms(1,3) by (simp add: accepts_def tilde_expands_append)
  finally show "scan q segments c (t @ p) = Some (push_segment segments (c @ t @ p))" by simp
qed

text \<open>A plain character keeps being plain when the rest is cut at white space.\<close>

lemma discard_None_cut:
  assumes "plain_char d" and "discard_redirection (d # p1 @ y) = None" and "redirection_ends y"
    and "accepts Unquoted current p1"
  shows "discard_redirection (d # p1) = None"
proof (rule ccontr)
  assume "discard_redirection (d # p1) \<noteq> None"
  then obtain m where m: "discard_redirection (d # p1) = Some m" by blast
  from discard_gt_tail [OF m assms(1)] obtain x where d: "is_digit d" and x: "p1 = CHR ''>'' # x"
    by (elim conjE exE) (rule that)
  have "scan Unquoted [] current p1 = Some (push_segment [] (current @ p1))"
    using assms(4) by (simp add: accepts_def)
  moreover have "scan Unquoted [] current p1 = None" if "scan_token Unquoted current p1 = None"
    using that x scan.simps [of Unquoted "[]" current p1] by (simp add: boundary_def)
  ultimately obtain n q' where tok: "scan_token Unquoted current p1 = Some (n, q')"
    by (cases "scan_token Unquoted current p1") auto
  from tok have "discard_redirection p1 = Some n"
  proof (cases rule: scan_token_cases)
    case (plain ch rest)
    then show ?thesis using x plain_not_operator [of ch] by simp
  qed (use x in simp_all)
  then have "discard_redirection (p1 @ y) = Some n" by (rule discard_extend [OF _ assms(3)])
  then have "discard_redirection (d # p1 @ y) = Some (Suc n)" using discard_digit [OF d] x by simp
  then show False using assms(2) by simp
qed

lemma split_run:
  assumes "t @ p' = p1 @ ws"
  obtains (inside) p1' where "p1 = t @ p1'" "p' = p1' @ ws"
  | (cut) x where "x \<noteq> []" "t = p1 @ x" "ws = x @ p'"
  using assms by (auto simp: append_eq_append_conv2) (metis append_Nil2)

lemma run_ok_accepts: "run_ok q current p \<Longrightarrow> accepts q current p"
  using run_okD(1) [of q current p p "[]"] by simp

text \<open>The extension of a run by one step of the scanner.\<close>

lemma accepts_cut:
  assumes tok: "scan_token q current (t @ p' @ y) = Some (length t, q')" and ok: "run_ok q' (current @ t) p'"
    and y: "redirection_ends y"
    and split: "t @ p' = p1 @ ws" and ws: "list_all is_space ws"
  shows "accepts q current p1"
  using split
proof (cases rule: split_run)
  case (inside p1')
  have acc: "accepts q' (current @ t) p1'" using run_okD(1) [OF ok inside(2) ws] .
  have wsy: "redirection_ends (ws @ y)" using ws y by (cases ws) (auto simp: redirection_ends_def)
  have t: "t \<noteq> []" using scan_token_bounds [OF tok] by auto
  have step: "scan_token q c (t @ p1') = Some (length t, q')" if "tilde_expands c = tilde_expands current" for c
    using tok
  proof (cases rule: scan_token_cases)
    case (single ch rest)
    then show ?thesis by (cases t) (auto simp: scan_token_intros)
  next
    case (dclose rest)
    then show ?thesis by (cases t) (auto simp: scan_token_intros)
  next
    case (dplain ch rest)
    then have t1: "t = [ch]" and rest: "rest = p' @ y" by (cases t; simp)+
    have "ch = BACKSLASH \<Longrightarrow> p1' = [] \<or> \<not> escapable_in_double_quotes (hd p1')"
      using dplain(8) rest inside(2) by (cases p1') auto
    then show ?thesis using dplain t1 by (simp add: scan_token_intros)
  next
    case (dpair c' rest)
    then show ?thesis by (cases t; cases "tl t") (auto simp: scan_token_intros)
  next
    case (squote rest)
    then show ?thesis by (cases t) (auto simp: scan_token_intros)
  next
    case (dquote rest)
    then show ?thesis by (cases t) (auto simp: scan_token_intros)
  next
    case (pair c' rest)
    then show ?thesis by (cases t; cases "tl t") (auto simp: scan_token_intros)
  next
    case discard
    then have "discard_redirection (t @ p1') = Some (length t)"
      using discard_restrict(1,2) [of t "p' @ y"] inside(2) redirection_ends_append(1) by simp
    then show ?thesis using discard by (simp add: scan_token_discard)
  next
    case (tilde rest)
    then show ?thesis using that by (cases t) (auto simp: scan_token_intros)
  next
    case (plain ch rest)
    then have t1: "t = [ch]" and rest: "rest = p1' @ ws @ y" using inside(2) by (cases t; simp)+
    have "discard_redirection (ch # p1' @ ws @ y) = None" using plain(5) t1 inside(2) by simp
    then have "discard_redirection (ch # p1') = None"
      using discard_None_cut [of ch p1' "ws @ y" "current @ t"] plain(4,6) wsy acc by simp
    then show ?thesis using plain t1 rest by (simp add: scan_token_intros)
  qed
  show ?thesis using accepts_step [OF acc step t] inside(1) by simp
next
  case (cut x)
  have x: "list_all is_space x" and p': "list_all is_space p'" using cut(3) ws by simp_all
  have "q' = Unquoted"
  proof (rule ccontr)
    assume "q' \<noteq> Unquoted"
    then have "SQUOTE \<in> set p' \<or> DQUOTE \<in> set p'" using run_okD(3) [OF ok] by simp
    then show False using p' by (auto simp: list_all_iff)
  qed
  have lst: "is_space (last t)" using cut x by (simp add: list_all_iff)
  have short: "accepts Unquoted current [BACKSLASH]"
    using accepts_step [where t = "[BACKSLASH]" and q = Unquoted and current = current, OF accepts_Nil]
    by (simp add: scan_token_intros plain_char_def forbidden_unquoted_def discard_redirection_def is_digit_def)
  from tok show ?thesis
  proof (cases rule: scan_token_cases)
    case (single ch rest)
    then have "t = [SQUOTE]" using \<open>q' = Unquoted\<close> by (cases t) (auto split: if_splits)
    then show ?thesis using lst by simp
  next
    case (dclose rest)
    then have "t = [DQUOTE]" by (cases t) auto
    then show ?thesis using lst by simp
  next
    case (pair c' rest)
    then have "t = [BACKSLASH, c']" by (cases t; cases "tl t") auto
    then have "p1 = [] \<or> p1 = [BACKSLASH]" using cut(1,2) by (cases p1; cases "tl p1") auto
    then show ?thesis using short accepts_Nil pair(1) by auto
  next
    case discard
    then have "discard_text t" using discard_restrict(3) [of t "p' @ y"] by simp
    then show ?thesis using discard_text_last lst by blast
  next
    case (plain ch rest)
    then have "t = [ch]" by (cases t) auto
    then have "p1 = []" using cut(1,2) by (cases p1) auto
    then show ?thesis using plain(1) accepts_Nil by simp
  next
    case (tilde rest)
    then have "t = [CHR ''~'']" by (cases t) auto
    then show ?thesis using lst by (simp add: is_space_def)
  qed (use \<open>q' = Unquoted\<close> in simp_all)
qed

text \<open>The text of one step, by its shape.\<close>

lemma scan_token_text:
  assumes "scan_token q current (t @ r) = Some (length t, q')"
  shows "q \<noteq> Unquoted \<Longrightarrow> q' = Unquoted \<Longrightarrow> SQUOTE \<in> set t \<or> DQUOTE \<in> set t"
    and "q = Unquoted \<Longrightarrow> q' = Unquoted \<Longrightarrow> BACKSLASH \<notin> set t \<Longrightarrow> CHR ''*'' \<notin> set t"
    and "q = Unquoted \<Longrightarrow> q' \<noteq> Unquoted \<Longrightarrow> SQUOTE \<in> set t \<or> DQUOTE \<in> set t"
    and "q' = Unquoted \<Longrightarrow> t \<noteq> x @ '':*''"
    and "q = Unquoted \<Longrightarrow> t \<noteq> ''*'' \<and> hd t \<noteq> NEWLINE"
proof -
  have "(q \<noteq> Unquoted \<longrightarrow> q' = Unquoted \<longrightarrow> SQUOTE \<in> set t \<or> DQUOTE \<in> set t) \<and>
    (q = Unquoted \<longrightarrow> q' = Unquoted \<longrightarrow> BACKSLASH \<notin> set t \<longrightarrow> CHR ''*'' \<notin> set t) \<and>
    (q = Unquoted \<longrightarrow> q' \<noteq> Unquoted \<longrightarrow> SQUOTE \<in> set t \<or> DQUOTE \<in> set t) \<and>
    (q' = Unquoted \<longrightarrow> t \<noteq> x @ '':*'') \<and> (q = Unquoted \<longrightarrow> t \<noteq> ''*'' \<and> hd t \<noteq> NEWLINE)"
    using assms
  proof (cases rule: scan_token_cases)
    case (single ch rest)
    then have "t = [ch]" by (cases t) auto
    then show ?thesis using single by (auto split: if_splits)
  next
    case (dclose rest)
    then have "t = [DQUOTE]" by (cases t) auto
    then show ?thesis using dclose by auto
  next
    case (pair c rest)
    then have "t = [BACKSLASH, c]" by (cases t; cases "tl t") auto
    then show ?thesis using pair by (cases x) auto
  next
    case discard
    then have "discard_text t" using discard_restrict(3) by simp
    then have d: "last t \<noteq> CHR '':''" "CHR ''*'' \<notin> set t" using discard_text_last by auto
    then have "t \<noteq> x @ '':*''" "t \<noteq> ''*''" by auto
    moreover have "hd t \<noteq> NEWLINE" using \<open>discard_text t\<close> by (auto simp: discard_text_def is_digit_def)
    ultimately show ?thesis using discard d by auto
  next
    case (squote rest)
    then have "t = [SQUOTE]" by (cases t) auto
    then show ?thesis using squote by auto
  next
    case (dquote rest)
    then have "t = [DQUOTE]" by (cases t) auto
    then show ?thesis using dquote by auto
  next
    case (plain ch rest)
    then have "t = [ch]" by (cases t) auto
    moreover have "ch \<noteq> NEWLINE" using plain(6) by (simp add: plain_char_def)
    ultimately show ?thesis using plain plain_not_operator [of ch] by (cases x) auto
  next
    case (tilde rest)
    then have "t = [CHR ''~'']" by (cases t) auto
    then show ?thesis using tilde by (cases x) auto
  qed auto
  then show "q \<noteq> Unquoted \<Longrightarrow> q' = Unquoted \<Longrightarrow> SQUOTE \<in> set t \<or> DQUOTE \<in> set t"
    and "q = Unquoted \<Longrightarrow> q' = Unquoted \<Longrightarrow> BACKSLASH \<notin> set t \<Longrightarrow> CHR ''*'' \<notin> set t"
    and "q = Unquoted \<Longrightarrow> q' \<noteq> Unquoted \<Longrightarrow> SQUOTE \<in> set t \<or> DQUOTE \<in> set t"
    and "q' = Unquoted \<Longrightarrow> t \<noteq> x @ '':*''" and "q = Unquoted \<Longrightarrow> t \<noteq> ''*'' \<and> hd t \<noteq> NEWLINE" by blast+
qed

lemma no_suffix_cut:
  assumes tok: "scan_token q current (t @ p' @ y) = Some (length t, q')" and ok: "run_ok q' (current @ t) p'"
    and split: "t @ p' = p1 @ ws" and ws: "list_all is_space ws"
  shows "no_suffix q p1"
  using split
proof (cases rule: split_run)
  case (cut x)
  then have "is_space (last t)" using ws by (auto simp: list_all_iff)
  have one: "p1 = []" if "length t = 1" using cut(1,2) that by (cases p1) auto
  have two: "p1 = [] \<or> p1 = [BACKSLASH]" if "t = [BACKSLASH, c]" for c
    using cut(1,2) that by (cases p1; cases "tl p1") auto
  from tok have "p1 = [] \<or> p1 = [BACKSLASH]"
  proof (cases rule: scan_token_cases)
    case (dpair c rest)
    then have "t = [BACKSLASH, c]" by (cases t; cases "tl t") auto
    then show ?thesis by (rule two)
  next
    case (pair c rest)
    then have "t = [BACKSLASH, c]" by (cases t; cases "tl t") auto
    then show ?thesis by (rule two)
  next
    case discard
    then have "discard_text t" using discard_restrict(3) [of t "p' @ y"] by simp
    then show ?thesis using discard_text_last \<open>is_space (last t)\<close> by blast
  qed (use one in simp_all)
  then show ?thesis by (auto simp: no_suffix_def Cons_eq_append_conv)
next
  case (inside u)
  have suffix: "no_suffix q' u" using run_okD(2) [OF ok inside(2) ws] .
  have closes: "SQUOTE \<in> set u \<or> DQUOTE \<in> set u" if "q' \<noteq> Unquoted"
    using run_okD(3) [OF ok that] inside(2) ws by (auto simp: list_all_iff)
  note tk = scan_token_text [OF tok]
  have "t @ u \<noteq> x @ '':*''" for x
  proof
    assume eq: "t @ u = x @ '':*''"
    consider (two) a v where "u = v @ [a] @ ''*''" | (one) "u = ''*''" | (none) "u = []"
      | (other) v a where "u = v @ [a]" "a \<noteq> CHR ''*''"
      by (metis append_Cons append_Nil append_assoc rev_exhaust)
    then show False
    proof cases
      case two
      then have "a = CHR '':''" using eq by (metis append_assoc append_Cons append_Nil butlast_snoc last_snoc)
      then show False using two suffix by (auto simp: no_suffix_def)
    next
      case one
      then show False using suffix closes by (cases "q' = Unquoted") (auto simp: no_suffix_def)
    next
      case none
      then have "q' = Unquoted" using closes by auto
      then show False using tk(4) eq none by auto
    next
      case other
      then show False using eq by (metis append_assoc last_snoc append_Cons append_Nil)
    qed
  qed
  moreover have "t @ u \<noteq> ''*''" if "q = Unquoted"
    using tk(5) [OF that] scan_token_bounds [OF tok] by (cases t) auto
  ultimately show ?thesis using inside(1) by (simp add: no_suffix_def)
qed

lemma run_ok_step:
  assumes tok: "scan_token q current (t @ p' @ y) = Some (length t, q')" and ok: "run_ok q' (current @ t) p'"
    and y: "redirection_ends y"
  shows "run_ok q current (t @ p')"
  unfolding run_ok_def
proof (intro conjI allI impI)
  note tk = scan_token_text [OF tok]
  show "accepts q current p1" and "no_suffix q p1" if "t @ p' = p1 @ ws" "list_all is_space ws" for p1 ws
    using accepts_cut [OF tok ok y that] no_suffix_cut [OF tok ok that] .
  show "SQUOTE \<in> set (t @ p') \<or> DQUOTE \<in> set (t @ p')" if "q \<noteq> Unquoted"
    using tk(1) [OF that] run_okD(3) [OF ok] by (cases "q' = Unquoted") auto
  show "t @ p' = [] \<or> hd (t @ p') \<noteq> NEWLINE" if "q = Unquoted"
    using tk(5) [OF that] scan_token_bounds [OF tok] by (cases t) auto
  show "CHR ''*'' \<notin> set (t @ p')"
    if "q = Unquoted" "set (t @ p') \<inter> {SQUOTE, DQUOTE, BACKSLASH} = {}"
  proof -
    have "q' = Unquoted" using tk(3) [OF that(1)] that(2) by auto
    then show ?thesis using tk(2) [OF that(1)] run_okD(5) [OF ok] that(2) by auto
  qed
qed

text \<open>A successful scan takes a run into the current segment, up to the end or to an operator.\<close>

lemma scan_run:
  assumes "scan q segments current s = Some out"
  shows "\<exists>p rest. s = p @ rest \<and> run_ok q current p \<and> inert_from q p \<and>
     (rest = [] \<and> out = push_segment segments (current @ p) \<or>
      (\<exists>n. boundary rest = Some n \<and>
         scan Unquoted (push_segment segments (current @ p)) [] (drop n rest) = Some out))"
  using assms
proof (induction q segments current s rule: scan.induct)
  case (1 q segments current s)
  show ?case
  proof (cases "s = []")
    case True
    then have "q = Unquoted" "out = push_segment segments current"
      using "1.prems" by (auto simp: scan.simps split: if_splits)
    then show ?thesis using True run_ok_Nil inert_end by (auto simp: inert_from_def)
  next
    case nonempty: False
    show ?thesis
    proof (cases "scan_token q current s")
      case None
      then have "q = Unquoted" using "1.prems" nonempty by (subst (asm) scan.simps) (auto split: if_splits)
      then obtain n where "boundary s = Some n" "scan Unquoted (push_segment segments current) [] (drop n s) = Some out"
        using "1.prems" nonempty None by (subst (asm) scan.simps) (auto split: option.splits)
      then show ?thesis using \<open>q = Unquoted\<close> run_ok_Nil inert_end
        by (intro exI [of _ "[]"] exI [of _ s]) (auto simp: inert_from_def)
    next
      case (Some nq)
      obtain n q' where nq: "nq = (n, q')" by (cases nq)
      let ?t = "take n s"
      have tok: "scan_token q current s = Some (n, q')" using Some nq by simp
      have len: "length ?t = n" using scan_token_bounds [OF tok] by simp
      have "scan q' segments (current @ ?t) (drop n s) = Some out"
        using "1.prems" nonempty tok by (subst (asm) scan.simps) simp
      from "1.IH"(2) [OF nonempty tok refl this] obtain p' rest
        where p': "drop n s = p' @ rest" "run_ok q' (current @ ?t) p'" and inert: "inert_from q' p'" and
          out: "rest = [] \<and> out = push_segment segments ((current @ ?t) @ p') \<or>
           (\<exists>m. boundary rest = Some m \<and>
              scan Unquoted (push_segment segments ((current @ ?t) @ p')) [] (drop m rest) = Some out)"
        by blast
      have s: "s = ?t @ p' @ rest" using p'(1) by (metis append_take_drop_id)
      have "redirection_ends rest" using out boundary_ends by (auto simp: redirection_ends_def)
      then have "run_ok q current (?t @ p')" "inert_from q (?t @ p')"
        using run_ok_step [of q current ?t p' rest q'] inert_step [of q current ?t p' rest q'] tok s len p'(2) inert by simp_all
      then show ?thesis using s out by (intro exI [of _ "?t @ p'"] exI [of _ rest]) auto
    qed
  qed
qed

section \<open>Segments scanned alone\<close>

text \<open>A trimmed text that the scanner takes as one segment.\<close>

definition single_segment :: "string \<Rightarrow> bool" where
  "single_segment x \<longleftrightarrow>
     accepts Unquoted [] x \<and> inert x \<and> x \<noteq> [] \<and> trim x = x \<and> \<not> endsWith x '':*'' \<and>
     (set x \<inter> {SQUOTE, DQUOTE, BACKSLASH} = {} \<longrightarrow> CHR ''*'' \<notin> set x)"

lemma scan_space:
  assumes "is_space w" and "w \<noteq> NEWLINE"
  shows "scan Unquoted segments current (w # s) = scan Unquoted segments (current @ [w]) s"
proof -
  have "w \<notin> {SQUOTE, DQUOTE, CHR ''`'', CHR ''~'', CHR ''#'', CHR '';'', CHR ''&'', CHR ''|'', BACKSLASH}"
    "\<not> forbidden_unquoted w" "\<not> is_digit w" "w \<noteq> CHR ''>''"
    using assms(1) by (auto simp: is_space_def forbidden_unquoted_def is_digit_def)
  then have "plain_char w" "w \<noteq> BACKSLASH" "discard_redirection (w # s) = None"
    using assms(2) by (auto simp: plain_char_def discard_redirection_def)
  then show ?thesis using scan.simps [of Unquoted segments current "w # s"] scan_token_intros(9) [of w s current] by simp
qed

lemma scan_spaces:
  "list_all (\<lambda>c. is_space c \<and> c \<noteq> NEWLINE) w \<Longrightarrow>
   scan Unquoted segments current (w @ s) = scan Unquoted segments (current @ w) s"
  by (induction w arbitrary: current) (auto simp: scan_space)

lemma trim_start_append: "list_all is_space w \<Longrightarrow> trim_start (w @ p) = trim_start p"
  by (simp add: trim_start_def dropWhile_append list_all_iff)

lemma trim_start_id: "p = [] \<or> \<not> is_space (hd p) \<Longrightarrow> trim_start p = p"
  by (cases p) (auto simp: trim_start_def)

lemma trim_split:
  assumes "list_all is_space w" and "p = [] \<or> \<not> is_space (hd p)"
  shows "\<exists>ws. p = trim (w @ p) @ ws \<and> list_all is_space ws \<and> trim (trim (w @ p)) = trim (w @ p)"
proof -
  have t: "trim (w @ p) = rev (dropWhile is_space (rev p))"
    using trim_start_append [OF assms(1)] trim_start_id [OF assms(2)] by (simp add: trim_def trim_start_def)
  let ?ws = "rev (takeWhile is_space (rev p))" and ?p1 = "rev (dropWhile is_space (rev p))"
  have p: "p = ?p1 @ ?ws" by (metis rev_append rev_rev_ident takeWhile_dropWhile_id)
  have "?p1 = [] \<or> \<not> is_space (hd ?p1)"
  proof (cases "?p1 = []")
    case False
    then have "p \<noteq> [] \<and> hd ?p1 = hd p" using p by (metis Nil_is_append_conv hd_append2)
    then show ?thesis using assms(2) by simp
  qed simp
  then have "trim_start ?p1 = ?p1" by (rule trim_start_id)
  then have "trim ?p1 = ?p1"
    by (simp add: trim_def) (simp add: trim_start_def dropWhile_idem)
  moreover have "list_all is_space ?ws" by (auto simp: list_all_iff dest: set_takeWhileD)
  ultimately show ?thesis using p t by metis
qed

lemma scan_first_segment:
  assumes "scan Unquoted segments [] s = Some out"
  shows "\<exists>new. list_all single_segment new \<and>
     (out = segments @ new \<or>
      (\<exists>rest. length rest < length s \<and> scan Unquoted (segments @ new) [] rest = Some out))"
proof -
  let ?P = "\<lambda>c. is_space c \<and> c \<noteq> NEWLINE"
  define w where "w = takeWhile ?P s"
  define s2 where "s2 = dropWhile ?P s"
  have s: "s = w @ s2" by (simp add: w_def s2_def)
  have wP: "list_all ?P w" by (auto simp: w_def list_all_iff dest: set_takeWhileD)
  then have ws: "list_all is_space w" by (simp add: list_all_iff)
  have "scan Unquoted segments w s2 = Some out" using assms s scan_spaces [OF wP, of segments "[]" s2] by simp
  from scan_run [OF this] obtain p rest where p: "s2 = p @ rest" "run_ok Unquoted w p"
    and inert_p: "inert_from Unquoted p" and out: "rest = [] \<and> out = push_segment segments (w @ p) \<or>
      (\<exists>n. boundary rest = Some n \<and> scan Unquoted (push_segment segments (w @ p)) [] (drop n rest) = Some out)"
    by blast
  have hd: "p = [] \<or> \<not> is_space (hd p)"
  proof (cases p)
    case (Cons c x)
    then have "\<not> ?P c" using p(1) hd_dropWhile [of ?P s] by (auto simp: s2_def [symmetric])
    moreover have "c \<noteq> NEWLINE" using run_okD(4) [OF p(2)] Cons by simp
    ultimately show ?thesis using Cons by simp
  qed simp
  obtain r where r: "p = trim (w @ p) @ r" "list_all is_space r" "trim (trim (w @ p)) = trim (w @ p)"
    using trim_split [OF ws hd] by blast
  define new where "new = (if trim (w @ p) \<noteq> [] then [trim (w @ p)] else [])"
  have push: "push_segment segments (w @ p) = segments @ new" by (simp add: push_segment_def new_def)
  let ?x = "trim (w @ p)"
  have "accepts Unquoted w ?x" and suffix: "no_suffix Unquoted ?x" using run_okD(1,2) [OF p(2) r(1,2)] .
  moreover have "tilde_expands w = tilde_expands []"
    using ws by (cases w rule: rev_cases) (auto simp: tilde_expands_def)
  ultimately have acc: "accepts Unquoted [] (trim (w @ p))" by (simp add: accepts_def)
  have "set p \<inter> {SQUOTE, DQUOTE, BACKSLASH} = set ?x \<inter> {SQUOTE, DQUOTE, BACKSLASH}" and "set ?x \<subseteq> set p"
  proof -
    have "set p = set ?x \<union> set r" using r(1) by (metis set_append)
    moreover have "set r \<inter> {SQUOTE, DQUOTE, BACKSLASH} = {}" using r(2) by (auto simp: list_all_iff)
    ultimately show "set p \<inter> {SQUOTE, DQUOTE, BACKSLASH} = set ?x \<inter> {SQUOTE, DQUOTE, BACKSLASH}" and "set ?x \<subseteq> set p"
      by blast+
  qed
  then have star: "set ?x \<inter> {SQUOTE, DQUOTE, BACKSLASH} = {} \<longrightarrow> CHR ''*'' \<notin> set ?x"
    using run_okD(5) [OF p(2)] by auto
  have "trim (w @ p) = trim p" using trim_start_append [OF ws] by (simp add: trim_def)
  then have "inert ?x" using inert_p inert_trim by (simp add: inert_from_def)
  then have new: "list_all single_segment new"
    using acc r(3) suffix star by (simp add: new_def single_segment_def no_suffix_def endsWith_iff)
  from out show ?thesis
  proof (elim disjE exE conjE)
    assume "rest = []" "out = push_segment segments (w @ p)"
    then show ?thesis using new push by auto
  next
    fix n assume n: "boundary rest = Some n" and "scan Unquoted (push_segment segments (w @ p)) [] (drop n rest) = Some out"
    moreover have "length (drop n rest) < length s" using boundary_bounds [OF n] s p(1) by auto
    ultimately show ?thesis using new push by auto
  qed
qed

lemma scan_segments:
  "scan Unquoted segments [] s = Some out \<Longrightarrow> \<exists>new. out = segments @ new \<and> list_all single_segment new"
proof (induction "length s" arbitrary: segments s rule: less_induct)
  case less
  from scan_first_segment [OF less.prems] obtain new where new: "list_all single_segment new"
    and out: "out = segments @ new \<or>
      (\<exists>rest. length rest < length s \<and> scan Unquoted (segments @ new) [] rest = Some out)" by blast
  from out show ?case
  proof (elim disjE exE conjE)
    assume "out = segments @ new"
    then show ?thesis using new by blast
  next
    fix rest assume "length rest < length s" "scan Unquoted (segments @ new) [] rest = Some out"
    from less.hyps [OF this] obtain more where "out = (segments @ new) @ more" "list_all single_segment more" by blast
    then show ?thesis using new by (intro exI [of _ "new @ more"]) simp
  qed
qed

lemma classify_single: "single_segment x \<Longrightarrow> classifyBashCommand x = Segments [x]"
  by (simp add: single_segment_def accepts_def classifyBashCommand_def push_segment_def)

lemma classify_segments:
  "classifyBashCommand command = Segments ss \<Longrightarrow> ss \<noteq> [] \<and> list_all single_segment ss"
  using scan_segments [of "[]" command]
  by (auto simp: classifyBashCommand_def split: option.splits if_splits)

text \<open>A command as pieces, each followed by an operator, and a last piece.\<close>

definition assemble :: "(string \<times> string) list \<Rightarrow> string \<Rightarrow> string" where
  "assemble front final = concat (map (\<lambda>(piece, operator). piece @ operator) front) @ final"

definition inert_pieces :: "(string \<times> string) list \<Rightarrow> string \<Rightarrow> bool" where
  "inert_pieces front final \<longleftrightarrow> list_all (\<lambda>(piece, operator). inert piece \<and> operator \<in> OPERATORS) front \<and> inert final"

definition trimmed_pieces :: "(string \<times> string) list \<Rightarrow> string \<Rightarrow> string list" where
  "trimmed_pieces front final = filter (\<lambda>s. s \<noteq> []) (map trim (map fst front @ [final]))"

lemma scan_pieces:
  "scan Unquoted segments [] s = Some out \<Longrightarrow>
   \<exists>front final. s = assemble front final \<and> inert_pieces front final \<and> out = segments @ trimmed_pieces front final"
proof (induction "length s" arbitrary: segments s rule: less_induct)
  case less
  from scan_run [OF less.prems] obtain p rest where p: "s = p @ rest" "inert p"
    and out: "rest = [] \<and> out = push_segment segments p \<or>
      (\<exists>n. boundary rest = Some n \<and> scan Unquoted (push_segment segments p) [] (drop n rest) = Some out)"
    unfolding inert_from_def by auto
  have push: "push_segment segments p = segments @ filter (\<lambda>s. s \<noteq> []) [trim p]" by (simp add: push_segment_def)
  from out show ?case
  proof (elim disjE exE conjE)
    assume "rest = []" "out = push_segment segments p"
    then show ?thesis using p push
      by (intro exI [of _ "[]"] exI [of _ p]) (simp add: assemble_def inert_pieces_def trimmed_pieces_def)
  next
    fix n assume n: "boundary rest = Some n" and more: "scan Unquoted (push_segment segments p) [] (drop n rest) = Some out"
    have "length (drop n rest) < length s" using boundary_bounds [OF n] p(1) by auto
    from less.hyps [OF this more] obtain front final where ff: "drop n rest = assemble front final" "inert_pieces front final"
      "out = push_segment segments p @ trimmed_pieces front final" by blast
    have "rest = take n rest @ assemble front final" using ff(1) by (metis append_take_drop_id)
    then have "s = assemble ((p, take n rest) # front) final" using p(1) by (simp add: assemble_def)
    moreover have "inert_pieces ((p, take n rest) # front) final"
      using ff(2) p(2) boundary_operator [OF n] by (simp add: inert_pieces_def)
    moreover have "out = segments @ trimmed_pieces ((p, take n rest) # front) final"
      using ff(3) push by (simp add: trimmed_pieces_def)
    ultimately show ?thesis by blast
  qed
qed

lemma classify_pieces:
  "classifyBashCommand command = Segments ss \<Longrightarrow>
   \<exists>front final. command = assemble front final \<and> inert_pieces front final \<and> ss = trimmed_pieces front final"
  using scan_pieces [of "[]" command] by (auto simp: classifyBashCommand_def split: option.splits if_splits)

section \<open>Normalization\<close>

lemma words_not_space: "x \<in> set (words w s) \<Longrightarrow> list_all (\<lambda>c. \<not> is_space c) w \<Longrightarrow> x \<noteq> [] \<and> list_all (\<lambda>c. \<not> is_space c) x"
  by (induction w s rule: words.induct) (auto split: if_splits)

lemma words_chars: "x \<in> set (words w s) \<Longrightarrow> set x \<subseteq> set w \<union> set s"
  by (induction w s rule: words.induct) (auto split: if_splits)

lemma words_word: "list_all (\<lambda>c. \<not> is_space c) x \<Longrightarrow> words w (x @ s) = words (w @ x) s"
  by (induction x arbitrary: w) auto

lemma words_join:
  "list_all (\<lambda>x. x \<noteq> [] \<and> list_all (\<lambda>c. \<not> is_space c) x) xs \<Longrightarrow> words [] (join '' '' xs) = xs"
proof (induction "'' ''" xs rule: join.induct)
  case (2 x)
  then show ?case using words_word [of x "[]" "[]"] by simp
next
  case (3 x y xs)
  then show ?case using words_word [of x "[]" "'' '' @ join '' '' (y # xs)"] by simp
qed simp

lemma normalize_idem: "normalizeSegment (normalizeSegment s) = normalizeSegment s"
  unfolding normalizeSegment_def
  by (subst words_join) (auto simp: list_all_iff dest: words_not_space [unfolded list_all_iff])

lemma set_join: "set (join '' '' xs) \<subseteq> insert CHR '' '' (\<Union>x \<in> set xs. set x)"
  by (induction "'' ''" xs rule: join.induct) auto

lemma normalize_chars: "set (normalizeSegment s) \<subseteq> insert CHR '' '' (set s)"
  using set_join [of "words [] s"] words_chars [of _ "[]" s] by (fastforce simp: normalizeSegment_def)

lemma normalize_not_sensitive:
  "\<not> hasGrammarSensitiveStructure s \<Longrightarrow> \<not> hasGrammarSensitiveStructure (normalizeSegment s)"
  using normalize_chars [of s] by (auto simp: hasGrammarSensitiveStructure_def list_ex_iff)

text \<open>The rule the tool writes for a segment matches the segment.\<close>

lemma own_rule_matches:
  assumes "single_segment x"
  shows "segmentMatchesRule x (if hasGrammarSensitiveStructure x then x else normalizeSegment x)"
proof (cases "hasGrammarSensitiveStructure x")
  case True
  then show ?thesis using assms by (simp add: segmentMatchesRule_def single_segment_def Let_def)
next
  case False
  then have "set x \<inter> {SQUOTE, DQUOTE, BACKSLASH} = {}"
    by (auto simp: hasGrammarSensitiveStructure_def list_ex_iff)
  then have "CHR ''*'' \<notin> set x" using assms by (simp add: single_segment_def)
  then have "CHR ''*'' \<notin> set (normalizeSegment x)" using normalize_chars [of x] by auto
  then have "\<not> endsWith (normalizeSegment x) '':*''" by (auto simp: endsWith_iff)
  then show ?thesis using False normalize_not_sensitive [OF False] by (simp add: segmentMatchesRule_def normalize_idem)
qed

lemma rule_for_call_matches:
  assumes "bash_ruleForCall params = Some c"
  shows "bash_matches c params \<and> bash_matchesDeny c params \<and> \<not> bash_isUnknown params \<and>
    (case parseShellOperation params of
       Inr (Op_Run command _ _) \<Rightarrow> \<exists>s. classifyBashCommand command = Segments [s]
     | _ \<Rightarrow> c = BACKGROUND_HANDLE_RULE)"
proof (cases "parseShellOperation params")
  case (Inl e)
  then show ?thesis using assms by (simp add: bash_ruleForCall_def)
next
  case (Inr op)
  show ?thesis
  proof (cases op)
    case (Op_Run command t b)
    then obtain s where s: "classifyBashCommand command = Segments [s]"
      "c = (if hasGrammarSensitiveStructure s then s else normalizeSegment s)"
      using assms Inr by (auto simp: bash_ruleForCall_def split: bash_classification.splits list.splits)
    then have "segmentMatchesRule s c" using own_rule_matches classify_segments [OF s(1)] by simp
    then show ?thesis using s(1) Inr Op_Run
      by (simp add: bash_matches_def bash_matchesDeny_def bash_isUnknown_def)
  qed (use assms Inr in \<open>simp_all add: bash_ruleForCall_def bash_matches_def bash_matchesDeny_def bash_isUnknown_def\<close>)
qed

lemma default_allow_only: "bash_defaultBehaviorFor params = Inr (Some b) \<Longrightarrow> b = Allow"
  by (auto simp: bash_defaultBehaviorFor_def bind_throws_eq_Inr
      split: sum.splits shell_operation.splits bash_classification.splits list.splits if_splits)

section \<open>Properties\<close>

text \<open>
  C12: A command that decomposes is its segments and nothing else. The command is a row of pieces separated by the
  operators newline, \<open>;\<close>, \<open>&&\<close>, \<open>||\<close>, \<open>|\<close> and \<open>&\<close>; the segments are the pieces, trimmed, in order, without the empty
  ones. Every piece and every segment is inert: outside quotes and escapes it has no operator, no substitution, no glob,
  brace, parenthesis or comment and no redirection, except one that discards output to \<open>/dev/null\<close> or merges it
  into a file descriptor, and in double quotes it has no unescaped \<open>$\<close> or backtick. Classified alone, each segment is
  exactly one segment, itself.
\<close>

theorem segments_are_single:
  assumes "classifyBashCommand command = Segments ss"
  shows "(\<exists>front final. command = assemble front final \<and> inert_pieces front final \<and> ss = trimmed_pieces front final) \<and>
    list_all (\<lambda>s. s \<noteq> [] \<and> inert s \<and> classifyBashCommand s = Segments [s]) ss"
proof
  show "\<exists>front final. command = assemble front final \<and> inert_pieces front final \<and> ss = trimmed_pieces front final"
    by (rule classify_pieces [OF assms])
  show "list_all (\<lambda>s. s \<noteq> [] \<and> inert s \<and> classifyBashCommand s = Segments [s]) ss"
    using classify_segments [OF assms] classify_single by (simp add: list_all_iff) (simp add: single_segment_def)
qed

lemma sample_command:
  "classifyBashCommand ''git status && ls \"a;b\" 2>&1'' = Segments [''git status'', ''ls \"a;b\" 2>&1'']"
  by code_simp

theorem segments_are_single_witness:
  "inert ''git status'' \<and> inert ''ls \"a;b\" 2>&1'' \<and>
   classifyBashCommand ''ls \"a;b\" 2>&1'' = Segments [''ls \"a;b\" 2>&1'']"
  using segments_are_single [OF sample_command] by simp

text \<open>
  C22: An allow rule never lets a hidden command through: when an allow rule with content decides a shell
  run, the command decomposes, and the rule matches every one of its segments, each a single command.
\<close>

theorem bash_allow_covers_every_segment:
  assumes "res_rule (resolvePermission lc rules tool createBashPermissionSpec params) = Some w"
    and "behavior w = Allow" and "ruleContent w = Some c"
    and "parseShellOperation params = Inr (Op_Run command timeout background)"
  shows "\<exists>ss. classifyBashCommand command = Segments ss \<and> ss \<noteq> [] \<and>
     list_all (\<lambda>s. segmentMatchesRule s c \<and> classifyBashCommand s = Segments [s]) ss"
proof -
  have "candidate_applies tool createBashPermissionSpec params w"
    using assms(1) resolve_loop_set [of lc tool createBashPermissionSpec params rules None w]
    by (auto simp: resolvePermission_def split: option.splits)
  then have m: "bash_matches c params"
    using assms(2,3) by (auto simp: candidate_applies_def ruleMatchesCall_def createBashPermissionSpec_def Let_def
        split: if_splits)
  then obtain ss where ss: "classifyBashCommand command = Segments ss" "list_all (\<lambda>s. segmentMatchesRule s c) ss"
    using assms(4) by (auto simp: bash_matches_def split: bash_classification.splits)
  then show ?thesis using classify_segments [OF ss(1)] by (auto simp: list_all_iff intro: classify_single)
qed

definition sample_call :: "string \<Rightarrow> json" where
  "sample_call command = JObj [(''command'', JStr command)]"

lemma sample_parse_call: "command \<noteq> [] \<Longrightarrow> parseShellOperation (sample_call command) = Inr (Op_Run command None False)"
  by (simp add: sample_call_def parseShellOperation_def is_object_def presentString_def field_def number_field_def Let_def)

theorem bash_allow_covers_every_segment_witness:
  "\<exists>ss. classifyBashCommand ''git status'' = Segments ss \<and> ss \<noteq> [] \<and>
     list_all (\<lambda>s. segmentMatchesRule s ''git:*'' \<and> classifyBashCommand s = Segments [s]) ss"
proof (rule bash_allow_covers_every_segment [where params = "sample_call ''git status''" and lc = codepoint_compare and
      tool = "''bash''" and timeout = None and background = False and
      rules = "[\<lparr>source = User, behavior = Allow, toolName = ''bash'', ruleContent = Some ''git:*''\<rparr>]"])
  have "classifyBashCommand ''git status'' = Segments [''git status'']" by code_simp
  moreover have "segmentMatchesRule ''git status'' ''git:*''" by code_simp
  ultimately show "res_rule (resolvePermission codepoint_compare
      [\<lparr>source = User, behavior = Allow, toolName = ''bash'', ruleContent = Some ''git:*''\<rparr>] ''bash''
      createBashPermissionSpec (sample_call ''git status'')) =
    Some \<lparr>source = User, behavior = Allow, toolName = ''bash'', ruleContent = Some ''git:*''\<rparr>"
    by (simp add: resolvePermission_def candidate_applies_def ruleMatchesCall_def createBashPermissionSpec_def
        bash_matches_def bash_isUnknown_def sample_parse_call)
qed (simp_all add: sample_parse_call)

text \<open>
  C28: The rule the shell tool writes for a call is about that call: it matches the call as an allow rule and
  as a deny rule, the call is not unknown, and a run has a rule only when it is a single segment.
\<close>

theorem bash_rule_for_call:
  assumes "bash_ruleForCall params = Some c"
  shows "bash_matches c params \<and> bash_matchesDeny c params \<and> \<not> bash_isUnknown params \<and>
    (case parseShellOperation params of
       Inr (Op_Run command _ _) \<Rightarrow> \<exists>s. classifyBashCommand command = Segments [s]
     | _ \<Rightarrow> c = BACKGROUND_HANDLE_RULE)"
  by (rule rule_for_call_matches [OF assms])

theorem bash_rule_for_call_witness:
  "bash_matches ''git log -p'' (sample_call '' git   log -p'')"
proof -
  have "classifyBashCommand '' git   log -p'' = Segments [''git   log -p'']" by code_simp
  moreover have "normalizeSegment ''git   log -p'' = ''git log -p''" "\<not> hasGrammarSensitiveStructure ''git   log -p''"
    by code_simp+
  ultimately have "bash_ruleForCall (sample_call '' git   log -p'') = Some ''git log -p''"
    by (simp add: bash_ruleForCall_def sample_parse_call)
  from bash_rule_for_call [OF this] show ?thesis by simp
qed

text \<open>
  A default allow of a shell run is for a read-only command: one segment whose words are \<open>pwd\<close>, a
  version query of a listed tool other than git, or a git subcommand that is listed or is a property every
  object inherits, with arguments that are listed flags, a count for \<open>log\<close>, or names of refs.
\<close>

theorem bash_default_allow_shape:
  assumes "parseShellOperation params = Inr (Op_Run command timeout background)"
    and "bash_defaultBehaviorFor params = Inr (Some Allow)"
  shows "\<exists>s. classifyBashCommand command = Segments [s] \<and>
    (words [] s = [''pwd''] \<or>
     (\<exists>tool \<in> set VERSION_TOOLS. tool \<noteq> ''git'' \<and> words [] s = [tool, ''--version'']) \<or>
     (\<exists>sub args. words [] s = ''git'' # sub # args \<and>
        (sub \<in> fst ` set GIT_FLAGS \<or> sub \<in> set OBJECT_PROTOTYPE) \<and>
        list_all (\<lambda>a. isRefLike a \<or> (\<exists>fs. (sub, fs) \<in> set GIT_FLAGS \<and> a \<in> set fs) \<or>
           sub = ''log'' \<and> startsWith a ''-'' \<and> list_all is_digit (tl a)) args))"
proof -
  obtain s where s: "classifyBashCommand command = Segments [s]" and ro: "isReadOnlyCommand s = Inr True"
    using assms by (auto simp: bash_defaultBehaviorFor_def bind_throws_eq_Inr
        split: bash_classification.splits list.splits if_splits)
  obtain program args where w: "words [] s = program # args"
    using ro by (cases "words [] s") (simp_all add: isReadOnlyCommand_def)
  have every: "list_all (\<lambda>x. p x = Inr True) xs" if "every_throws p xs = Inr True" for p :: "string \<Rightarrow> bool throws" and xs
    using that by (induction xs) (auto simp: bind_throws_eq_Inr split: if_splits)
  show ?thesis
  proof (cases "program = ''git''")
    case False
    then show ?thesis using ro w s by (auto simp: isReadOnlyCommand_def split: if_splits)
  next
    case True
    then obtain sub rest where args: "args = sub # rest" and git: "isReadOnlyGit (sub # rest) = Inr True"
      using ro w by (cases args) (auto simp: isReadOnlyCommand_def isReadOnlyGit_def split: if_splits)
    have sub: "git_flags_of sub \<noteq> Absent" "sub \<noteq> []"
      using git by (auto simp: isReadOnlyGit_def Let_def split: if_splits)
    then have known: "sub \<in> fst ` set GIT_FLAGS \<or> sub \<in> set OBJECT_PROTOTYPE"
      by (cases "al_get sub GIT_FLAGS") (force simp: git_flags_of_def dest: al_get_SomeD split: if_splits)+
    have has: "flags_has (git_flags_of sub) a = Inr True \<Longrightarrow> \<exists>fs. (sub, fs) \<in> set GIT_FLAGS \<and> a \<in> set fs" for a
      by (auto simp: flags_has_def git_flags_of_def dest: al_get_SomeD split: option.splits git_flags.splits if_splits)
    have "list_all (\<lambda>a. isRefLike a \<or> (\<exists>fs. (sub, fs) \<in> set GIT_FLAGS \<and> a \<in> set fs) \<or>
           sub = ''log'' \<and> startsWith a ''-'' \<and> list_all is_digit (tl a)) rest"
    proof (cases "sub = ''branch''")
      case True
      then have "list_all (\<lambda>a. flags_has (git_flags_of sub) a = Inr True) rest"
        using git sub every by (simp add: isReadOnlyGit_def)
      then show ?thesis using has by (auto simp: list_all_iff)
    next
      case False
      then have "list_all (\<lambda>token. (if startsWith token ''-''
               then bind_throws (flags_has (git_flags_of sub) token) (\<lambda>b. Inr (b \<or> sub = ''log'' \<and>
                 length token \<ge> 2 \<and> list_all is_digit (tl token)))
               else Inr (isRefLike token)) = Inr True) rest"
        using git sub every by (simp add: isReadOnlyGit_def)
      then show ?thesis using has by (fastforce simp: list_all_iff bind_throws_eq_Inr split: if_splits)
    qed
    then show ?thesis using s w True args known by blast
  qed
qed

theorem bash_default_allow_shape_witness:
  "bash_defaultBehaviorFor (sample_call ''git log -3'') = Inr (Some Allow) \<and>
   (\<exists>s. classifyBashCommand ''git log -3'' = Segments [s])"
proof -
  have "classifyBashCommand ''git log -3'' = Segments [''git log -3'']" by code_simp
  moreover have "isReadOnlyCommand ''git log -3'' = Inr True" by code_simp
  ultimately have "bash_defaultBehaviorFor (sample_call ''git log -3'') = Inr (Some Allow)"
    by (simp add: bash_defaultBehaviorFor_def sample_parse_call)
  with bash_default_allow_shape [OF sample_parse_call this] show ?thesis by blast
qed

text \<open>A predicate that decides each token by \<open>isRefLike\<close> unless it is a flag: the first token that is not a ref decides.\<close>

lemma every_token_inherited:
  assumes "\<And>token. startsWith token ''-'' \<Longrightarrow> p token = Inl e"
    and "\<And>token. \<not> startsWith token ''-'' \<Longrightarrow> p token = Inr (isRefLike token)"
  shows "every_throws p tokens =
    (case dropWhile isRefLike tokens of [] \<Rightarrow> Inr True | token # _ \<Rightarrow> if startsWith token ''-'' then Inl e else Inr False)"
proof (induction tokens)
  case (Cons token tokens)
  have "\<not> isRefLike token" if "startsWith token ''-''" using that by (simp add: isRefLike_def)
  then show ?case using Cons assms [of token] by (cases "startsWith token ''-''") auto
qed simp

lemma inherited_names:
  assumes "sub \<in> set OBJECT_PROTOTYPE"
  shows "sub \<noteq> []" "sub \<noteq> ''branch''" "sub \<noteq> ''log''" "git_flags_of sub = Inherited"
  using assms by (auto simp: OBJECT_PROTOTYPE_def git_flags_of_def GIT_FLAGS_def)

lemma isReadOnlyGit_inherited:
  assumes "sub \<in> set OBJECT_PROTOTYPE"
  shows "isReadOnlyGit (sub # tokens) =
    (case dropWhile isRefLike tokens of [] \<Rightarrow> Inr True
     | token # _ \<Rightarrow> if startsWith token ''-'' then Inl ''flags.has is not a function'' else Inr False)"
  using inherited_names [OF assms] every_token_inherited by (simp add: isReadOnlyGit_def flags_has_def)

text \<open>
  C29: The allow-list is not closed. For any run of \<open>git\<close> whose subcommand is a name every JavaScript object inherits,
  the first argument that is not like a ref decides: without one the run is allowed by default, whatever the name and
  the arguments; when it is a flag the default behaviour throws; otherwise there is no default. And the entry \<open>git\<close> of
  the version tools has no effect: no run of \<open>git --version\<close>, with any further arguments, is allowed by default.
\<close>

theorem bash_readonly_inherited_names:
  assumes "parseShellOperation params = Inr (Op_Run command timeout background)"
    and "classifyBashCommand command = Segments [s]" and "words [] s = ''git'' # sub # tokens"
  shows "(sub \<in> set OBJECT_PROTOTYPE \<longrightarrow> bash_defaultBehaviorFor params =
      (case dropWhile isRefLike tokens of [] \<Rightarrow> Inr (Some Allow)
       | token # _ \<Rightarrow> if startsWith token ''-'' then Inl ''flags.has is not a function'' else Inr None)) \<and>
    ''git'' \<in> set VERSION_TOOLS \<and> (sub = ''--version'' \<longrightarrow> bash_defaultBehaviorFor params = Inr None)"
proof -
  have default: "bash_defaultBehaviorFor params = bind_throws (isReadOnlyGit (sub # tokens)) (\<lambda>b. Inr (if b then Some Allow else None))"
    using assms by (simp add: bash_defaultBehaviorFor_def isReadOnlyCommand_def)
  have "isReadOnlyGit (''--version'' # tokens) = Inr False"
    by (simp add: isReadOnlyGit_def git_flags_of_def GIT_FLAGS_def OBJECT_PROTOTYPE_def)
  then show ?thesis using default isReadOnlyGit_inherited [of sub tokens]
    by (cases "dropWhile isRefLike tokens") (auto simp: VERSION_TOOLS_def simp del: dropWhile_eq_Nil_conv)
qed

theorem bash_readonly_inherited_names_witness:
  "bash_defaultBehaviorFor (sample_call ''git toString HEAD'') = Inr (Some Allow) \<and>
   bash_defaultBehaviorFor (sample_call ''git toString HEAD -s'') = Inl ''flags.has is not a function'' \<and>
   bash_defaultBehaviorFor (sample_call ''git --version'') = Inr None"
proof -
  have one: "classifyBashCommand ''git toString HEAD'' = Segments [''git toString HEAD'']"
    "classifyBashCommand ''git toString HEAD -s'' = Segments [''git toString HEAD -s'']"
    "classifyBashCommand ''git --version'' = Segments [''git --version'']"
    by code_simp+
  have "words [] ''git toString HEAD'' = [''git'', ''toString'', ''HEAD'']"
    "words [] ''git toString HEAD -s'' = [''git'', ''toString'', ''HEAD'', ''-s'']"
    "words [] ''git --version'' = [''git'', ''--version'']"
    "dropWhile isRefLike [''HEAD''] = []" "dropWhile isRefLike [''HEAD'', ''-s''] = [''-s'']"
    by code_simp+
  then show ?thesis
    using bash_readonly_inherited_names [OF sample_parse_call one(1)]
      bash_readonly_inherited_names [OF sample_parse_call one(2)]
      bash_readonly_inherited_names [OF sample_parse_call one(3)]
    by (simp add: OBJECT_PROTOTYPE_def)
qed

text \<open>
  "Allow for this session" holds for the shell tool end to end: a single-segment run that no stored rule
  decides and that is not allowed by default asks; when the user answers for the session, the same call is
  decided by that answer the next time, without a prompt, on the file-backed store.
\<close>

theorem bash_session_answer_decides:
  fixes options :: "(json, 'r, 'e, file_store) gate_options" and contract :: "(json, 'r, 'e) tool_contract"
  assumes "collation lc"
    and "opt_snapshot options = (\<lambda>s. (fst (snapshot parse d s), snd (snapshot parse d s)))"
    and "opt_apply options = (\<lambda>u s. (fst (apply_update parse stringify_scope wr u (s, d)),
      fst (snd (apply_update parse stringify_scope wr u (s, d)))))"
    and contract: "getContract options tool = Some contract" "permission contract = createBashPermissionSpec"
    and "\<And>s. getMode options s \<in> {Default_Mode, AcceptEdits}"
    and rule: "bash_ruleForCall params = Some c"
    and default: "bash_defaultBehaviorFor params \<noteq> Inr (Some Allow)"
    and "snap_errors (fst (snapshot parse d s)) = []"
    and none: "\<And>w. w \<in> set (snap_rules (fst (snapshot parse d s))) \<Longrightarrow>
      \<not> candidate_applies tool createBashPermissionSpec params w"
    and "current_responder options = Some r" and "\<And>req. r req = Inr answer" and "persist answer"
    and "evaluateToolCall lc stringify tool params options (s, prep) = (dec, s', prep')"
    and "evaluateToolCall lc stringify tool params (options\<lparr>responder := None, getResponder := None\<rparr>)
      (s', prep') = (dec2, s'', prep'')"
  shows "\<exists>d1 d2. dec = Inr d1 \<and> dec2 = Inr d2 \<and> blocked d1 = (\<not> allow answer) \<and> blocked d2 = (\<not> allow answer)"
proof -
  let ?rules = "snap_rules (fst (snapshot parse d s))"
  define stored where "stored = \<lparr>st_toolName = tool, st_behavior = (if allow answer then Allow else Deny), st_ruleContent = Some c\<rparr>"
  have mode: "getMode options x \<notin> {Plan, BypassPermissions}" for x using assms(6) [of x] by auto
  have res: "resolveToolContract stringify (getContract options) tool = contract"
    using contract(1) by (simp add: resolveToolContract_def)
  have no_prepare: "prepareCall (permission contract) = None"
    and no_target: "(case protectedTarget (permission contract) of None \<Rightarrow> None | Some f \<Rightarrow> f params) = None"
    and rule': "ruleForCall (permission contract) params = Some c"
    using contract(2) rule by (simp_all add: createBashPermissionSpec_def)
  have "resolve_loop lc tool createBashPermissionSpec params ?rules None = None"
    using resolve_loop_None [where tool = tool and spec = createBashPermissionSpec and params = params and rules = ?rules,
      OF assms(1)] none
      resolve_loop_set [of lc tool createBashPermissionSpec params ?rules None]
    by (cases "resolve_loop lc tool createBashPermissionSpec params ?rules None") auto
  then have ask: "res_behavior (gate_resolution lc contract tool params (getMode options (snd (snapshot parse d s))) ?rules) = Ask"
    using default contract(2) assms(6) [of "snd (snapshot parse d s)"] default_allow_only
    by (auto simp: gate_resolution_def resolvePermission_def resolveWithMode_def createBashPermissionSpec_def
        default_for_def Let_def split: sum.splits option.splits)
  have own: "candidate_applies tool (permission contract) params (rule_with_source Session stored)"
    using rule_for_call_matches [OF rule] contract(2)
    by (auto simp: candidate_applies_def ruleMatchesCall_def rule_with_source_def stored_def
        createBashPermissionSpec_def Let_def)
  have best: "beats lc (rule_with_source Session stored) w" if "w \<in> set ?rules"
    "candidate_applies tool (permission contract) params w" for w
    using none [OF that(1)] that(2) contract(2) by simp
  note facts = assms(1-3) res no_prepare no_target rule' mode assms(9) ask assms(11-13) stored_def own best assms(14,15)
  from file_gate.persisted_answer_decides(2) [OF facts]
  obtain d1 d2 where d: "dec = Inr d1" "dec2 = Inr d2" by blast
  from file_gate.persisted_answer_decides(1) [OF facts d] d show ?thesis by blast
qed

definition bash_options :: "permission_answer \<Rightarrow> (json, unit, unit, file_store) gate_options" where
  "bash_options answer =
     \<lparr>getContract = (\<lambda>_. Some ((UNCLASSIFIED (\<lambda>_. [])) \<lparr>permission := createBashPermissionSpec\<rparr>)),
      opt_snapshot = (\<lambda>s. (fst (snapshot sample_parse sample_disk s), snd (snapshot sample_parse sample_disk s))),
      opt_apply = (\<lambda>u s. (fst (apply_update sample_parse (\<lambda>_. []) (\<lambda>_ _ d. Inr d) u (s, sample_disk)),
         fst (snd (apply_update sample_parse (\<lambda>_. []) (\<lambda>_ _ d. Inr d) u (s, sample_disk))))),
      getMode = (\<lambda>_. Default_Mode),
      responder = Some (\<lambda>_. Inr answer),
      getResponder = None\<rparr>"

theorem bash_session_answer_decides_witness:
  "\<exists>d. fst (evaluateToolCall codepoint_compare (\<lambda>_. []) ''bash'' (sample_call ''rm x'')
     ((bash_options \<lparr>allow = True, persist = True, guidance = None\<rparr>)\<lparr>responder := None, getResponder := None\<rparr>)
     (snd (evaluateToolCall codepoint_compare (\<lambda>_. []) ''bash'' (sample_call ''rm x'')
       (bash_options \<lparr>allow = True, persist = True, guidance = None\<rparr>) (sample_store, Map.empty)))) = Inr d \<and> \<not> blocked d"
proof -
  let ?answer = "\<lparr>allow = True, persist = True, guidance = None\<rparr>"
  let ?o = "bash_options ?answer"
  obtain dec s' prep' where one: "evaluateToolCall codepoint_compare (\<lambda>_. []) ''bash'' (sample_call ''rm x'') ?o
      (sample_store, Map.empty) = (dec, s', prep')" by (metis prod.exhaust)
  obtain dec2 s'' prep'' where two: "evaluateToolCall codepoint_compare (\<lambda>_. []) ''bash'' (sample_call ''rm x'')
      (?o\<lparr>responder := None, getResponder := None\<rparr>) (s', prep') = (dec2, s'', prep'')" by (metis prod.exhaust)
  have cmd: "classifyBashCommand ''rm x'' = Segments [''rm x'']" by code_simp
  have norm: "normalizeSegment ''rm x'' = ''rm x''" "\<not> hasGrammarSensitiveStructure ''rm x''" by code_simp+
  have ro: "isReadOnlyCommand ''rm x'' = Inr False" by code_simp
  have "\<exists>d1 d2. dec = Inr d1 \<and> dec2 = Inr d2 \<and> blocked d1 = (\<not> allow ?answer) \<and> blocked d2 = (\<not> allow ?answer)"
  proof (rule bash_session_answer_decides [where parse = sample_parse and d = sample_disk and
        stringify_scope = "\<lambda>_. []" and wr = "\<lambda>_ _ d. Inr d" and c = "''rm x''" and r = "\<lambda>_. Inr ?answer" and
        contract = "(UNCLASSIFIED (\<lambda>_. [])) \<lparr>permission := createBashPermissionSpec\<rparr>",
        OF collation_codepoint _ _ _ _ _ _ _ _ _ _ _ _ one two])
  qed (simp_all add: bash_options_def sample_snapshot current_responder_def bash_ruleForCall_def
      bash_defaultBehaviorFor_def sample_parse_call cmd norm ro)
  then show ?thesis using one two by auto
qed

end
