(* ===== verification/Framing.thy ===== *)
theory Framing imports Prelude "HOL-Library.Word" begin

text \<open>
  Length-prefixed framing (\<open>packages/protocol/src/framing.ts\<close>): \<open>encodeFrame\<close> and the incremental
  \<open>FrameDecoder\<close>, whose state keeps the header bytes read so far and the payload as a list of blocks of at
  most 64 KiB, each with its capacity and the bytes filled in. The reference is \<open>split_frames\<close>, which splits
  a complete byte stream; the decoder refines it for every way of cutting the stream into chunks.
\<close>

type_synonym byte = "8 word"

lemma byte_less: "unat (b :: byte) < 256"
  by (rule order_less_le_trans [OF unsigned_less]) simp

lemma byte_of_nat_low: "(of_nat (k * 256 + unat b) :: byte) = b"
  using byte_less [of b] by (simp add: word_unat_eq_iff unat_of_nat del: of_nat_add of_nat_mult)

section \<open>Encoding\<close>

definition FRAME_HEADER_LENGTH :: nat where "FRAME_HEADER_LENGTH = 4"
definition MAX_UINT32 :: nat where "MAX_UINT32 = 0xffffffff"
definition PAYLOAD_BLOCK_SIZE :: nat where "PAYLOAD_BLOCK_SIZE = 64 * 1024"
definition DEFAULT_MAX_FRAME_LENGTH :: nat where "DEFAULT_MAX_FRAME_LENGTH = 16 * 1024 * 1024"

text \<open>The option is an integer; an absent one takes the default.\<close>

definition resolveMaxFrameLength :: "int option \<Rightarrow> nat throws" where
  "resolveMaxFrameLength opt =
     (let v = (case opt of Some v \<Rightarrow> v | None \<Rightarrow> int DEFAULT_MAX_FRAME_LENGTH) in
      if v < 0 \<or> v > int MAX_UINT32
      then Inl ''maxFrameLength must be an integer between 0 and 4294967295'' else Inr (nat v))"

text \<open>The four bytes of an unsigned 32-bit big-endian number, as stores into a \<open>Uint8Array\<close> write them.\<close>

definition u32_bytes :: "nat \<Rightarrow> byte list" where
  "u32_bytes n = [of_nat (n div 0x1000000), of_nat (n div 0x10000), of_nat (n div 0x100), of_nat n]"

definition u32_value :: "byte list \<Rightarrow> nat" where
  "u32_value h = unat (h ! 0) * 0x1000000 + unat (h ! 1) * 0x10000 + unat (h ! 2) * 0x100 + unat (h ! 3)"

definition encodeFrame :: "byte list \<Rightarrow> byte list throws" where
  "encodeFrame payload =
     (if length payload > MAX_UINT32 then Inl ''Frame payload exceeds the unsigned 32-bit length limit''
      else Inr (u32_bytes (length payload) @ payload))"

lemma length_u32_bytes [simp]: "length (u32_bytes n) = 4"
  by (simp add: u32_bytes_def)

lemma u32_value_bytes:
  assumes "n \<le> MAX_UINT32"
  shows "u32_value (u32_bytes n @ r) = n"
proof -
  have d: "n div 0x10000 = (n div 0x1000000) * 0x100 + (n div 0x10000) mod 0x100"
    "n div 0x100 = (n div 0x10000) * 0x100 + (n div 0x100) mod 0x100" "n = (n div 0x100) * 0x100 + n mod 0x100"
    using div_mult2_eq [of n "0x10000" "0x100"] div_mult2_eq [of n "0x100" "0x100"]
    by (simp_all add: mult.commute)
  have "n div 0x1000000 < 0x100" using assms by (simp add: MAX_UINT32_def div_less_iff_less_mult)
  then have "unat (of_nat (n div 0x1000000) :: byte) = n div 0x1000000"
    by (simp add: unat_of_nat)
  moreover have "n = n div 0x1000000 * 0x1000000 + (n div 0x10000) mod 0x100 * 0x10000 + (n div 0x100) mod 0x100 * 0x100 +
      n mod 0x100" using d by linarith
  ultimately show ?thesis by (simp add: u32_value_def u32_bytes_def unat_of_nat)
qed

lemma u32_value_take: "4 \<le> length h \<Longrightarrow> u32_value (take 4 h) = u32_value h"
  by (simp add: u32_value_def)

lemma u32_value_bound: "u32_value h \<le> MAX_UINT32"
proof -
  have "unat (b :: byte) \<le> 255" for b using byte_less [of b] by simp
  from this [of "h ! 0"] this [of "h ! 1"] this [of "h ! 2"] this [of "h ! 3"]
  show ?thesis by (simp add: u32_value_def MAX_UINT32_def)
qed

lemma u32_bytes_value:
  assumes "length h = 4"
  shows "u32_bytes (u32_value h) = h"
proof -
  obtain a b c d where h: "h = [a, b, c, d]" using assms by (auto simp: length_Suc_conv numeral_eq_Suc)
  have lt: "unat (x :: byte) < 256" for x by (rule byte_less)
  define v where "v = u32_value h"
  have v: "v = ((unat a * 256 + unat b) * 256 + unat c) * 256 + unat d" by (simp add: v_def u32_value_def h)
  have d1: "v div 0x100 = (unat a * 256 + unat b) * 256 + unat c" using lt [of d] v by simp
  have "v div 0x10000 = v div 0x100 div 0x100" by (simp add: div_mult2_eq [symmetric])
  then have d2: "v div 0x10000 = unat a * 256 + unat b" using lt [of c] d1 by simp
  have "v div 0x1000000 = v div 0x10000 div 0x100" by (simp add: div_mult2_eq [symmetric])
  then have d3: "v div 0x1000000 = unat a" using lt [of b] d2 by simp
  have d4: "(of_nat v :: byte) = d" unfolding v by (rule byte_of_nat_low)
  have "u32_bytes v = [a, b, c, d]"
    unfolding u32_bytes_def d1 d2 d3 d4 byte_of_nat_low by simp
  then show ?thesis by (simp add: v_def h)
qed

section \<open>The decoder\<close>

datatype decoder_state = Open | Ended | Failed

text \<open>A block of the payload: its capacity and the bytes written to it.\<close>

record payload_block =
  capacity :: nat
  filled :: "byte list"

text \<open>
  \<open>header\<close> holds the first \<open>headerLength\<close> bytes of the header array, \<open>payloadBlocks\<close> the blocks in order;
  the current block is the last one, and its length the bytes filled.
\<close>

record frame_decoder =
  maxFrameLength :: nat
  header :: "byte list"
  payloadBlocks :: "payload_block list"
  expectedPayloadLength :: "nat option"
  payloadLength :: nat
  state :: decoder_state

definition newFrameDecoder :: "int option \<Rightarrow> frame_decoder throws" where
  "newFrameDecoder opt = bind_throws (resolveMaxFrameLength opt) (\<lambda>limit.
     Inr \<lparr>maxFrameLength = limit, header = [], payloadBlocks = [], expectedPayloadLength = None,
          payloadLength = 0, state = Open\<rparr>)"

definition fail_decoder :: "frame_decoder \<Rightarrow> frame_decoder" where
  "fail_decoder s = s\<lparr>state := Failed, header := [], payloadBlocks := [], expectedPayloadLength := None,
     payloadLength := 0\<rparr>"

text \<open>The inner loop: bytes of the chunk go into the current block, or into a new one when it is full.\<close>

definition open_block :: "nat \<Rightarrow> frame_decoder \<Rightarrow> frame_decoder" where
  "open_block expected s =
     (if payloadBlocks s = [] \<or> length (filled (last (payloadBlocks s))) = capacity (last (payloadBlocks s))
      then s\<lparr>payloadBlocks := payloadBlocks s @
             [\<lparr>capacity = min PAYLOAD_BLOCK_SIZE (expected - payloadLength s), filled = []\<rparr>]\<rparr>
      else s)"

definition block_room :: "frame_decoder \<Rightarrow> nat" where
  "block_room s = capacity (last (payloadBlocks s)) - length (filled (last (payloadBlocks s)))"

definition write_block :: "byte list \<Rightarrow> frame_decoder \<Rightarrow> frame_decoder" where
  "write_block bs s =
     s\<lparr>payloadBlocks := butlast (payloadBlocks s) @
         [(last (payloadBlocks s))\<lparr>filled := filled (last (payloadBlocks s)) @ bs\<rparr>],
       payloadLength := payloadLength s + length bs\<rparr>"

partial_function (option) fill :: "nat \<Rightarrow> byte list \<Rightarrow> frame_decoder \<Rightarrow> (byte list \<times> frame_decoder) option" where
  "fill expected chunk s =
     (if chunk \<noteq> [] \<and> payloadLength s < expected
      then
        (let s1 = open_block expected s;
             payloadBytes = min (block_room s1) (length chunk) in
         fill expected (drop payloadBytes chunk) (write_block (take payloadBytes chunk) s1))
      else Some (chunk, s))"

definition finish_frame :: "frame_decoder \<Rightarrow> byte list \<times> frame_decoder" where
  "finish_frame s =
     (concat (map filled (payloadBlocks s)),
      s\<lparr>payloadBlocks := [], expectedPayloadLength := None, payloadLength := 0\<rparr>)"

text \<open>The rest of an iteration once the frame length is known, and the loop of \<open>push\<close>.\<close>

definition frame_too_long :: "nat \<Rightarrow> nat \<Rightarrow> string" where
  "frame_too_long n limit =
     ''Frame length '' @ show_nat n @ '' exceeds configured limit of '' @ show_nat limit"

partial_function (option) push_loop ::
  "byte list \<Rightarrow> byte list list \<Rightarrow> frame_decoder \<Rightarrow> (byte list list throws \<times> frame_decoder) option" where
  "push_loop chunk frames s =
     (if chunk = [] then Some (Inr frames, s)
      else case expectedPayloadLength s of
          None \<Rightarrow>
            (let headerBytes = min (FRAME_HEADER_LENGTH - length (header s)) (length chunk);
                 h = header s @ take headerBytes chunk;
                 rest = drop headerBytes chunk in
             if length h < FRAME_HEADER_LENGTH then push_loop rest frames (s\<lparr>header := h\<rparr>)
             else
               (let frameLength = u32_value h; s1 = s\<lparr>header := []\<rparr> in
                if frameLength > maxFrameLength s
                then Some (Inl (frame_too_long frameLength (maxFrameLength s)), fail_decoder s1)
                else if frameLength = 0 then push_loop rest (frames @ [[]]) s1
                else push_loop rest frames
                  (s1\<lparr>expectedPayloadLength := Some frameLength, payloadBlocks := [], payloadLength := 0\<rparr>)))
        | Some expected \<Rightarrow>
            (case fill expected chunk s of
               None \<Rightarrow> None
             | Some (rest, s1) \<Rightarrow>
                 (if payloadLength s1 = expected
                  then (let (payload, s2) = finish_frame s1 in push_loop rest (frames @ [payload]) s2)
                  else push_loop rest frames s1)))"

definition push_frames ::
  "frame_decoder \<Rightarrow> byte list \<Rightarrow> (byte list list throws \<times> frame_decoder) option" where
  "push_frames s chunk =
     (case state s of
        Ended \<Rightarrow> Some (Inl ''Frame decoder has ended'', s)
      | Failed \<Rightarrow> Some (Inl ''Frame decoder has failed'', s)
      | Open \<Rightarrow> push_loop chunk [] s)"

definition end_frames :: "frame_decoder \<Rightarrow> unit throws \<times> frame_decoder" where
  "end_frames s =
     (case state s of
        Ended \<Rightarrow> (Inl ''Frame decoder has ended'', s)
      | Failed \<Rightarrow> (Inl ''Frame decoder has failed'', s)
      | Open \<Rightarrow>
          (if header s \<noteq> [] \<or> expectedPayloadLength s \<noteq> None
           then (Inl ''Truncated frame at end of stream'', fail_decoder s)
           else (Inr (), s\<lparr>state := Ended\<rparr>)))"

section \<open>The reference\<close>

text \<open>
  The frames of a complete byte stream, and what is left: a truncated frame \<open>Inr rest\<close>, or the length of
  the first frame above the limit.
\<close>

function split_frames :: "nat \<Rightarrow> byte list \<Rightarrow> byte list list \<times> (nat + byte list)" where
  "split_frames limit bs =
     (if length bs < 4 then ([], Inr bs)
      else
        (let n = u32_value bs; rest = drop 4 bs in
         if n > limit then ([], Inl n)
         else if length rest < n then ([], Inr bs)
         else (let (fs, r) = split_frames limit (drop n rest) in (take n rest # fs, r))))"
  by pat_completeness auto
termination by (relation "measure (\<lambda>(limit, bs). length bs)") auto

declare split_frames.simps [simp del]

lemma split_frames_short: "length bs < 4 \<Longrightarrow> split_frames limit bs = ([], Inr bs)"
  by (simp add: split_frames.simps)

lemma split_frames_frame:
  assumes "n \<le> limit" and "limit \<le> MAX_UINT32" and "length payload = n"
  shows "split_frames limit (u32_bytes n @ payload @ bs) =
    (let (fs, r) = split_frames limit bs in (payload # fs, r))"
  using assms by (subst split_frames.simps) (simp add: u32_value_bytes)

lemma split_frames_partial:
  assumes "n \<le> limit" and "limit \<le> MAX_UINT32" and "length payload < n"
  shows "split_frames limit (u32_bytes n @ payload) = ([], Inr (u32_bytes n @ payload))"
  using assms by (subst split_frames.simps) (simp add: u32_value_bytes)

text \<open>A stream can be split in two steps.\<close>

lemma split_frames_append:
  "split_frames limit (xs @ ys) =
     (case split_frames limit xs of
        (fs, Inl n) \<Rightarrow> (fs, Inl n)
      | (fs, Inr rest) \<Rightarrow> (let (gs, r) = split_frames limit (rest @ ys) in (fs @ gs, r)))"
proof (induction limit xs rule: split_frames.induct)
  case (1 limit xs)
  show ?case
  proof (cases "length xs < 4")
    case True
    then show ?thesis by (simp add: split_frames_short split: prod.split)
  next
    case long: False
    let ?n = "u32_value xs"
    have v: "u32_value (xs @ ys) = ?n" using long u32_value_take [of xs] u32_value_take [of "xs @ ys"] by simp
    show ?thesis
    proof (cases "?n > limit")
      case True
      then show ?thesis using long v by (simp add: split_frames.simps [of limit xs] split_frames.simps [of limit "xs @ ys"])
    next
      case fits: False
      show ?thesis
      proof (cases "length (drop 4 xs) < ?n")
        case True
        then have "split_frames limit xs = ([], Inr xs)" using long fits by (simp add: split_frames.simps)
        then show ?thesis by (simp split: prod.split)
      next
        case False
        note IH = "1" [OF long refl refl fits False]
        have first: "split_frames limit xs = (let (fs, r) = split_frames limit (drop ?n (drop 4 xs)) in (take ?n (drop 4 xs) # fs, r))"
          using long fits False by (subst split_frames.simps) (simp add: Let_def)
        have "\<not> length xs + length ys - 4 < ?n" using False by simp
        then have "split_frames limit (xs @ ys) =
            (let (fs, r) = split_frames limit (drop ?n (drop 4 xs) @ ys) in (take ?n (drop 4 xs) # fs, r))"
          using long fits False v by (subst split_frames.simps) (simp add: Let_def)
        moreover note first
        ultimately show ?thesis using IH by (auto split: prod.splits sum.splits)
      qed
    qed
  qed
qed

section \<open>The decoder refines the reference\<close>

abbreviation payload_of :: "frame_decoder \<Rightarrow> byte list" where
  "payload_of s \<equiv> concat (map filled (payloadBlocks s))"

definition blocks_ok :: "nat \<Rightarrow> frame_decoder \<Rightarrow> bool" where
  "blocks_ok expected s \<longleftrightarrow>
     payloadLength s = length (payload_of s) \<and>
     (\<forall>b \<in> set (butlast (payloadBlocks s)). length (filled b) = capacity b) \<and>
     (\<forall>b \<in> set (payloadBlocks s). length (filled b) \<le> capacity b \<and> 0 < capacity b \<and> capacity b \<le> PAYLOAD_BLOCK_SIZE) \<and>
     sum_list (map capacity (payloadBlocks s)) \<le> expected"

definition decoder_ok :: "frame_decoder \<Rightarrow> bool" where
  "decoder_ok s \<longleftrightarrow>
     state s = Open \<and> maxFrameLength s \<le> MAX_UINT32 \<and>
     (case expectedPayloadLength s of
        None \<Rightarrow> length (header s) < 4 \<and> payloadBlocks s = [] \<and> payloadLength s = 0
      | Some n \<Rightarrow> header s = [] \<and> payloadLength s < n \<and> n \<le> maxFrameLength s \<and> blocks_ok n s)"

definition pending :: "frame_decoder \<Rightarrow> byte list" where
  "pending s = (case expectedPayloadLength s of None \<Rightarrow> header s | Some n \<Rightarrow> u32_bytes n @ payload_of s)"

lemma full_blocks_length:
  "(\<forall>b \<in> set bs. length (filled b) = capacity b) \<Longrightarrow> sum_list (map capacity bs) = length (concat (map filled bs))"
  by (induction bs) auto

lemma open_block_ok:
  assumes "blocks_ok n s" and "payloadLength s < n"
  shows "blocks_ok n (open_block n s) \<and> payloadBlocks (open_block n s) \<noteq> [] \<and> 0 < block_room (open_block n s) \<and>
    payload_of (open_block n s) = payload_of s \<and> payloadLength (open_block n s) = payloadLength s"
proof (cases "payloadBlocks s = [] \<or> length (filled (last (payloadBlocks s))) = capacity (last (payloadBlocks s))")
  case True
  let ?b = "\<lparr>capacity = min PAYLOAD_BLOCK_SIZE (n - payloadLength s), filled = []\<rparr> :: payload_block"
  have all: "\<forall>b \<in> set (payloadBlocks s). length (filled b) = capacity b"
    using True assms(1) unfolding blocks_ok_def
    by (cases "payloadBlocks s" rule: rev_cases) auto
  then have "sum_list (map capacity (payloadBlocks s)) = payloadLength s"
    using assms(1) full_blocks_length by (simp add: blocks_ok_def)
  then show ?thesis using True assms all
    by (auto simp: open_block_def blocks_ok_def block_room_def PAYLOAD_BLOCK_SIZE_def)
next
  case False
  then have "length (filled (last (payloadBlocks s))) < capacity (last (payloadBlocks s))"
    using assms(1) unfolding blocks_ok_def by (metis last_in_set le_neq_implies_less)
  then show ?thesis using False assms by (simp add: open_block_def block_room_def)
qed

lemma write_block_ok:
  assumes "blocks_ok n s" and "payloadBlocks s \<noteq> []" and "length bs \<le> block_room s"
  shows "blocks_ok n (write_block bs s) \<and> payload_of (write_block bs s) = payload_of s @ bs \<and>
    payloadLength (write_block bs s) = payloadLength s + length bs"
proof -
  obtain init b where b: "payloadBlocks s = init @ [b]" using assms(2) by (metis rev_exhaust)
  then show ?thesis using assms by (auto simp: blocks_ok_def write_block_def block_room_def)
qed

lemma block_room_bound:
  assumes "blocks_ok n s" and "payloadBlocks s \<noteq> []"
  shows "payloadLength s + block_room s \<le> n"
proof -
  obtain init b where b: "payloadBlocks s = init @ [b]" using assms(2) by (metis rev_exhaust)
  then have "sum_list (map capacity init) = length (concat (map filled init))"
    using assms(1) full_blocks_length [of init] by (simp add: blocks_ok_def)
  then show ?thesis using assms b by (auto simp: blocks_ok_def block_room_def)
qed

text \<open>The fields a block operation keeps.\<close>

definition same_control :: "frame_decoder \<Rightarrow> frame_decoder \<Rightarrow> bool" where
  "same_control s t \<longleftrightarrow> maxFrameLength t = maxFrameLength s \<and> header t = header s \<and>
     expectedPayloadLength t = expectedPayloadLength s \<and> state t = state s"

lemma same_control_block:
  "same_control s (open_block n s)" "same_control s (write_block bs s)"
  "same_control s t \<Longrightarrow> same_control t u \<Longrightarrow> same_control s u"
  by (simp_all add: same_control_def open_block_def write_block_def)

lemma fill_spec:
  assumes "blocks_ok n s" and "payloadLength s \<le> n"
  shows "\<exists>s'. fill n chunk s = Some (drop (n - payloadLength s) chunk, s') \<and> blocks_ok n s' \<and>
    payload_of s' = payload_of s @ take (n - payloadLength s) chunk \<and> same_control s s' \<and>
    payloadLength s' = payloadLength s + min (n - payloadLength s) (length chunk)"
  using assms
proof (induction "length chunk" arbitrary: chunk s rule: less_induct)
  case less
  show ?case
  proof (cases "chunk \<noteq> [] \<and> payloadLength s < n")
    case False
    then show ?thesis using less.prems by (subst fill.simps) (auto simp: same_control_def)
  next
    case True
    define s1 where "s1 = open_block n s"
    define k where "k = min (block_room s1) (length chunk)"
    define s2 where "s2 = write_block (take k chunk) s1"
    have s1: "blocks_ok n s1" "payloadBlocks s1 \<noteq> []" "0 < block_room s1" "payload_of s1 = payload_of s"
      "payloadLength s1 = payloadLength s"
      using open_block_ok [OF less.prems(1)] True by (simp_all add: s1_def)
    have k: "0 < k" "k \<le> length chunk" "k \<le> block_room s1" using s1(3) True by (auto simp: k_def)
    have s2: "blocks_ok n s2" "payload_of s2 = payload_of s @ take k chunk" "payloadLength s2 = payloadLength s + k"
      using write_block_ok [OF s1(1,2), of "take k chunk"] k s1 by (simp_all add: s2_def)
    have le: "payloadLength s2 \<le> n" using block_room_bound [OF s1(1,2)] k(3) s1(5) s2(3) by simp
    have same: "same_control s s2" unfolding s2_def s1_def by (metis same_control_block)
    from less.hyps [of "drop k chunk", OF _ s2(1) le] k True obtain s' where s':
      "fill n (drop k chunk) s2 = Some (drop (n - payloadLength s2) (drop k chunk), s')" "blocks_ok n s'"
      "payload_of s' = payload_of s2 @ take (n - payloadLength s2) (drop k chunk)" "same_control s2 s'"
      "payloadLength s' = payloadLength s2 + min (n - payloadLength s2) (length (drop k chunk))" by auto
    have "fill n chunk s = fill n (drop k chunk) s2"
      using True by (subst fill.simps) (simp add: s2_def s1_def k_def Let_def)
    moreover have rest: "n - payloadLength s = k + (n - payloadLength s2)" using le s2(3) by simp
    ultimately have f1: "fill n chunk s = Some (drop (n - payloadLength s) chunk, s')"
      using s'(1) by (simp add: add.commute)
    have f2: "payload_of s' = payload_of s @ take (n - payloadLength s) chunk"
      unfolding s'(3) s2(2) rest take_add by simp
    have f3: "payloadLength s' = payloadLength s + min (n - payloadLength s) (length chunk)"
      unfolding s'(5) s2(3) rest using k(2) by (auto simp: min_def)
    show ?thesis
      by (intro exI [of _ s'] conjI f1 f2 f3 s'(2) same_control_block(3) [OF same s'(4)])
  qed
qed

lemma push_loop_spec:
  assumes "decoder_ok s"
  shows "\<exists>res s'. push_loop chunk frames s = Some (res, s') \<and>
    (case split_frames (maxFrameLength s) (pending s @ chunk) of
       (fs, Inr rest) \<Rightarrow> res = Inr (frames @ fs) \<and> decoder_ok s' \<and> pending s' = rest \<and>
         maxFrameLength s' = maxFrameLength s
     | (fs, Inl n) \<Rightarrow> res = Inl (frame_too_long n (maxFrameLength s)) \<and> state s' = Failed)"
  using assms
proof (induction "length chunk" arbitrary: chunk frames s rule: less_induct)
  case less
  note ok = less.prems
  let ?max = "maxFrameLength s"
  have limit: "?max \<le> MAX_UINT32" using ok by (simp add: decoder_ok_def)
  consider (stop) "chunk = []" | (head) "chunk \<noteq> []" "expectedPayloadLength s = None"
    | (body) n where "chunk \<noteq> []" "expectedPayloadLength s = Some n" by blast
  then show ?case
  proof cases
    case stop
    have "split_frames ?max (pending s) = ([], Inr (pending s))"
      using ok split_frames_partial [OF _ limit]
      by (auto simp: decoder_ok_def pending_def blocks_ok_def split_frames_short split: option.splits)
    then show ?thesis using stop ok by (subst push_loop.simps) simp
  next
    case head
    define k where "k = min (4 - length (header s)) (length chunk)"
    define h where "h = header s @ take k chunk"
    define rest where "rest = drop k chunk"
    have hs: "length (header s) < 4" "payloadBlocks s = []" "payloadLength s = 0"
      using ok head by (simp_all add: decoder_ok_def)
    then have k: "0 < k" using head(1) by (cases chunk) (auto simp: k_def)
    then have shorter: "length rest < length chunk" using head(1) by (cases chunk) (auto simp: rest_def)
    have stream: "pending s @ chunk = h @ rest" using head(2) by (simp add: pending_def h_def rest_def)
    show ?thesis
    proof (cases "length h < 4")
      case True
      let ?s1 = "s\<lparr>header := h\<rparr>"
      have ok1: "decoder_ok ?s1" using ok head True by (simp add: decoder_ok_def)
      have "push_loop chunk frames s = push_loop rest frames ?s1"
        using head True
        unfolding push_loop.simps [of chunk frames s] FRAME_HEADER_LENGTH_def k_def [symmetric] Let_def
          h_def [symmetric] rest_def [symmetric] by simp
      moreover have "pending ?s1 @ rest = pending s @ chunk" using stream head(2) by (simp add: pending_def)
      ultimately show ?thesis using less.hyps [OF shorter ok1, of frames] by simp
    next
      case full: False
      let ?n = "u32_value h" and ?s1 = "s\<lparr>header := []\<rparr>"
      have len: "length h = 4" using full hs(1) by (auto simp: min_def h_def k_def)
      then have h: "h = u32_bytes ?n" using u32_bytes_value by metis
      have step: "push_loop chunk frames s =
         (if ?n > ?max then Some (Inl (frame_too_long ?n ?max), fail_decoder ?s1)
          else if ?n = 0 then push_loop rest (frames @ [[]]) ?s1
          else push_loop rest frames
            (?s1\<lparr>expectedPayloadLength := Some ?n, payloadBlocks := [], payloadLength := 0\<rparr>))"
        using head full
        unfolding push_loop.simps [of chunk frames s] FRAME_HEADER_LENGTH_def k_def [symmetric] Let_def
          h_def [symmetric] rest_def [symmetric] by simp
      have v: "u32_value (h @ rest) = ?n" using len u32_value_take [of h] u32_value_take [of "h @ rest"] by simp
      consider (big) "?n > ?max" | (empty) "?n = 0" | (some) "0 < ?n" "?n \<le> ?max" by linarith
      then show ?thesis
      proof cases
        case big
        then have "split_frames ?max (pending s @ chunk) = ([], Inl ?n)"
          unfolding stream using v len by (subst split_frames.simps) simp
        then show ?thesis using step big by (simp add: fail_decoder_def)
      next
        case empty
        have ok1: "decoder_ok ?s1" using ok head by (simp add: decoder_ok_def)
        have "split_frames ?max (pending s @ chunk) = (let (fs, r) = split_frames ?max rest in ([] # fs, r))"
          unfolding stream using split_frames_frame [of 0 ?max "[]" rest] limit h empty by simp
        moreover have "pending ?s1 = []" using head(2) by (simp add: pending_def)
        ultimately show ?thesis using less.hyps [OF shorter ok1, of "frames @ [[]]"] step empty
          by (auto split: prod.splits sum.splits)
      next
        case some
        let ?s2 = "?s1\<lparr>expectedPayloadLength := Some ?n, payloadBlocks := [], payloadLength := 0\<rparr>"
        have ok2: "decoder_ok ?s2" using ok some by (simp add: decoder_ok_def blocks_ok_def)
        have "pending ?s2 @ rest = pending s @ chunk" unfolding stream using h by (simp add: pending_def)
        then show ?thesis using less.hyps [OF shorter ok2, of frames] step some by simp
      qed
    qed
  next
    case (body n)
    have bs: "blocks_ok n s" "header s = []" "payloadLength s < n" "n \<le> ?max" using ok body by (simp_all add: decoder_ok_def)
    let ?k = "n - payloadLength s"
    let ?rest = "drop ?k chunk"
    from fill_spec [OF bs(1), of chunk] bs(3) obtain s1 where s1:
      "fill n chunk s = Some (?rest, s1)" "blocks_ok n s1" "payload_of s1 = payload_of s @ take ?k chunk"
      "same_control s s1" "payloadLength s1 = payloadLength s + min ?k (length chunk)" by auto
    have shorter: "length ?rest < length chunk" using body(1) bs(3) by (cases chunk) auto
    have stream: "pending s @ chunk = u32_bytes n @ payload_of s1 @ ?rest"
      using body s1(3) by (simp add: pending_def)
    show ?thesis
    proof (cases "payloadLength s1 = n")
      case True
      let ?s2 = "s1\<lparr>payloadBlocks := [], expectedPayloadLength := None, payloadLength := 0\<rparr>"
      have ok2: "decoder_ok ?s2" using ok s1(4) bs(2) by (simp add: decoder_ok_def same_control_def)
      have "push_loop chunk frames s = push_loop ?rest (frames @ [payload_of s1]) ?s2"
        using body s1(1) True by (subst push_loop.simps) (simp add: finish_frame_def)
      moreover have "split_frames ?max (pending s @ chunk) =
          (let (fs, r) = split_frames ?max ?rest in (payload_of s1 # fs, r))"
        unfolding stream using split_frames_frame [OF bs(4) limit] s1(2) True by (simp add: blocks_ok_def)
      moreover have "pending ?s2 = []" "maxFrameLength ?s2 = ?max"
        using s1(4) bs(2) by (simp_all add: pending_def same_control_def)
      ultimately show ?thesis using less.hyps [OF shorter ok2, of "frames @ [payload_of s1]"]
        by (auto split: prod.splits sum.splits)
    next
      case False
      then have "payloadLength s1 < n" using s1(5) bs(3) by (simp add: min_def split: if_splits)
      then have ok1: "decoder_ok s1" using ok s1(2,4) bs body(2) by (simp add: decoder_ok_def same_control_def)
      have "push_loop chunk frames s = push_loop ?rest frames s1"
        using body s1(1) False by (subst push_loop.simps) simp
      moreover have "pending s1 @ ?rest = pending s @ chunk" "maxFrameLength s1 = ?max"
        using stream s1(4) body(2) by (simp_all add: pending_def same_control_def)
      ultimately show ?thesis using less.hyps [OF shorter ok1, of frames] by simp
    qed
  qed
qed

end
