(* ===== verification/Utf.thy ===== *)
theory Utf imports Framing begin

text \<open>
  \<open>TextEncoder\<close> and the fatal UTF-8 \<open>TextDecoder\<close> (with \<open>ignoreBOM\<close>) of the host, which the CBOR codec
  uses, on JavaScript strings as lists of UTF-16 code units. A code unit that is half of a surrogate pair
  only is encoded as the replacement character.
\<close>

type_synonym code_unit = "16 word"
type_synonym js_string = "code_unit list"

section \<open>Encoding\<close>

definition high_surrogate :: "nat \<Rightarrow> bool" where
  "high_surrogate u \<longleftrightarrow> 0xD800 \<le> u \<and> u \<le> 0xDBFF"

definition low_surrogate :: "nat \<Rightarrow> bool" where
  "low_surrogate u \<longleftrightarrow> 0xDC00 \<le> u \<and> u \<le> 0xDFFF"

text \<open>The code point of each unit or pair; a lone surrogate gives U+FFFD.\<close>

fun code_points :: "js_string \<Rightarrow> nat list" where
  "code_points [] = []"
| "code_points [u] =
     [if high_surrogate (unat u) \<or> low_surrogate (unat u) then 0xFFFD else unat u]"
| "code_points (u # v # s) =
     (if high_surrogate (unat u) \<and> low_surrogate (unat v)
      then (0x10000 + (unat u - 0xD800) * 0x400 + (unat v - 0xDC00)) # code_points s
      else if high_surrogate (unat u) \<or> low_surrogate (unat u) then 0xFFFD # code_points (v # s)
      else unat u # code_points (v # s))"

definition utf8_bytes :: "nat \<Rightarrow> byte list" where
  "utf8_bytes c =
     (if c < 0x80 then [of_nat c]
      else if c < 0x800 then [of_nat (0xC0 + c div 0x40), of_nat (0x80 + c mod 0x40)]
      else if c < 0x10000
        then [of_nat (0xE0 + c div 0x1000), of_nat (0x80 + c div 0x40 mod 0x40), of_nat (0x80 + c mod 0x40)]
      else [of_nat (0xF0 + c div 0x40000), of_nat (0x80 + c div 0x1000 mod 0x40),
            of_nat (0x80 + c div 0x40 mod 0x40), of_nat (0x80 + c mod 0x40)])"

definition utf8_encode :: "js_string \<Rightarrow> byte list" where
  "utf8_encode s = concat (map utf8_bytes (code_points s))"

section \<open>Decoding\<close>

definition utf16_units :: "nat \<Rightarrow> js_string" where
  "utf16_units c =
     (if c < 0x10000 then [of_nat c]
      else [of_nat (0xD800 + (c - 0x10000) div 0x400), of_nat (0xDC00 + (c - 0x10000) mod 0x400)])"

definition continuation :: "nat \<Rightarrow> bool" where
  "continuation b \<longleftrightarrow> 0x80 \<le> b \<and> b \<le> 0xBF"

text \<open>
  One code point from the front: the sequences of the Unicode standard's table of well-formed UTF-8, so no
  overlong form, no surrogate and nothing above U+10FFFF.
\<close>

definition decode_point :: "byte list \<Rightarrow> (nat \<times> byte list) option" where
  "decode_point bs =
     (case map unat (take 4 bs) of
        [] \<Rightarrow> None
      | b0 # bt \<Rightarrow>
          if b0 < 0x80 then Some (b0, drop 1 bs)
          else if 0xC2 \<le> b0 \<and> b0 \<le> 0xDF
            then (case bt of
                b1 # _ \<Rightarrow> if continuation b1 then Some ((b0 - 0xC0) * 0x40 + (b1 - 0x80), drop 2 bs) else None
              | _ \<Rightarrow> None)
          else if 0xE0 \<le> b0 \<and> b0 \<le> 0xEF
            then (case bt of
                b1 # b2 # _ \<Rightarrow>
                  if continuation b1 \<and> continuation b2 \<and> (b0 = 0xE0 \<longrightarrow> 0xA0 \<le> b1) \<and> (b0 = 0xED \<longrightarrow> b1 \<le> 0x9F)
                  then Some ((b0 - 0xE0) * 0x1000 + (b1 - 0x80) * 0x40 + (b2 - 0x80), drop 3 bs) else None
              | _ \<Rightarrow> None)
          else if 0xF0 \<le> b0 \<and> b0 \<le> 0xF4
            then (case bt of
                b1 # b2 # b3 # _ \<Rightarrow>
                  if continuation b1 \<and> continuation b2 \<and> continuation b3 \<and> (b0 = 0xF0 \<longrightarrow> 0x90 \<le> b1) \<and>
                     (b0 = 0xF4 \<longrightarrow> b1 \<le> 0x8F)
                  then Some ((b0 - 0xF0) * 0x40000 + (b1 - 0x80) * 0x1000 + (b2 - 0x80) * 0x40 + (b3 - 0x80), drop 4 bs)
                  else None
              | _ \<Rightarrow> None)
          else None)"

lemma decode_point_shorter: "decode_point bs = Some (c, rest) \<Longrightarrow> length rest < length bs"
  by (cases bs) (auto simp: decode_point_def split: if_splits list.splits)

function utf8_decode :: "byte list \<Rightarrow> js_string option" where
  "utf8_decode bs =
     (if bs = [] then Some []
      else case decode_point bs of
          None \<Rightarrow> None
        | Some (c, rest) \<Rightarrow> (case utf8_decode rest of None \<Rightarrow> None | Some s \<Rightarrow> Some (utf16_units c @ s)))"
  by pat_completeness auto
termination by (relation "measure length") (auto dest: decode_point_shorter)

declare utf8_decode.simps [simp del]

section \<open>Round trip\<close>

text \<open>The scalar values: code points that are not surrogates.\<close>

definition scalar :: "nat \<Rightarrow> bool" where
  "scalar c \<longleftrightarrow> c < 0xD800 \<or> 0xE000 \<le> c \<and> c \<le> 0x10FFFF"

lemma unat_byte: "n < 256 \<Longrightarrow> unat (of_nat n :: byte) = n"
  by (simp add: unat_of_nat)

lemma decode_point_2:
  assumes "unat x = 0xC0 + a" and "unat y = 0x80 + b" and "2 \<le> a" and "a < 0x20" and "b < 0x40"
  shows "decode_point (x # y # rest) = Some (a * 0x40 + b, rest)"
  using assms by (simp add: decode_point_def continuation_def)

lemma decode_point_3:
  assumes "unat x = 0xE0 + a" and "unat y = 0x80 + b" and "unat z = 0x80 + d" and "a < 0x10" and "b < 0x40"
    and "d < 0x40" and "a = 0 \<Longrightarrow> 0x20 \<le> b" and "a = 0xD \<Longrightarrow> b < 0x20"
  shows "decode_point (x # y # z # rest) = Some (a * 0x1000 + b * 0x40 + d, rest)"
proof -
  have "continuation (0x80 + b)" "continuation (0x80 + d)" using assms by (simp_all add: continuation_def)
  moreover have "0xE0 + a = 0xE0 \<Longrightarrow> 0xA0 \<le> 0x80 + b" "0xE0 + a = 0xED \<Longrightarrow> 0x80 + b \<le> 0x9F"
    using assms(7,8) by simp_all
  ultimately show ?thesis using assms(4) unfolding decode_point_def by (simp add: assms(1-3))
qed

lemma decode_point_4:
  assumes "unat x = 0xF0 + a" and "unat y = 0x80 + b" and "unat z = 0x80 + d" and "unat w = 0x80 + e" and "a \<le> 4"
    and "b < 0x40" and "d < 0x40" and "e < 0x40" and "a = 0 \<Longrightarrow> 0x10 \<le> b" and "a = 4 \<Longrightarrow> b < 0x10"
  shows "decode_point (x # y # z # w # rest) = Some (a * 0x40000 + b * 0x1000 + d * 0x40 + e, rest)"
proof -
  have "continuation (0x80 + b)" "continuation (0x80 + d)" "continuation (0x80 + e)"
    using assms by (simp_all add: continuation_def)
  moreover have "0xF0 + a = 0xF0 \<Longrightarrow> 0x90 \<le> 0x80 + b" "0xF0 + a = 0xF4 \<Longrightarrow> 0x80 + b \<le> 0x8F"
    using assms(9,10) by simp_all
  ultimately show ?thesis using assms(5) unfolding decode_point_def by (simp add: assms(1-4))
qed

lemma decode_point_utf8_bytes:
  assumes "scalar c"
  shows "decode_point (utf8_bytes c @ rest) = Some (c, rest)"
proof -
  consider "c < 0x80" | "0x80 \<le> c" "c < 0x800" | "0x800 \<le> c" "c < 0x10000" | "0x10000 \<le> c" "c < 0x110000"
    using assms unfolding scalar_def by linarith
  then show ?thesis
  proof cases
    case 1
    then show ?thesis by (simp add: utf8_bytes_def decode_point_def unat_byte)
  next
    case 2
    define a b where "a = c div 0x40" and "b = c mod 0x40"
    have c: "c = a * 0x40 + b" "b < 0x40" by (simp_all add: a_def b_def)
    then have ab: "2 \<le> a" "a < 0x20" using 2 by linarith+
    have bytes: "utf8_bytes c = [of_nat (0xC0 + a), of_nat (0x80 + b)]" using 2 by (simp add: utf8_bytes_def a_def b_def)
    have "decode_point (of_nat (0xC0 + a) # of_nat (0x80 + b) # rest) = Some (a * 0x40 + b, rest)"
      by (rule decode_point_2) (use ab c(2) in \<open>simp_all add: unat_byte del: of_nat_add\<close>)
    then show ?thesis unfolding bytes using c(1) by simp
  next
    case 3
    define a b d where "a = c div 0x1000" and "b = c div 0x40 mod 0x40" and "d = c mod 0x40"
    have split: "c = c div 0x40 * 0x40 + d" "c div 0x40 = a * 0x40 + b"
      using div_mult2_eq [of c "0x40" "0x40"] by (simp_all add: a_def b_def d_def)
    have c: "c = a * 0x1000 + b * 0x40 + d" using split by linarith
    have lt: "b < 0x40" "d < 0x40" by (simp_all add: b_def d_def)
    have ab: "a < 0x10" "a = 0 \<Longrightarrow> 0x20 \<le> b" "a = 0xD \<Longrightarrow> b < 0x20"
      using 3 assms c lt unfolding scalar_def by linarith+
    have bytes: "utf8_bytes c = [of_nat (0xE0 + a), of_nat (0x80 + b), of_nat (0x80 + d)]"
      using 3 by (simp add: utf8_bytes_def a_def b_def d_def)
    have "decode_point (of_nat (0xE0 + a) # of_nat (0x80 + b) # of_nat (0x80 + d) # rest) =
        Some (a * 0x1000 + b * 0x40 + d, rest)"
      by (rule decode_point_3) (use ab lt in \<open>simp_all add: unat_byte del: of_nat_add\<close>)
    then show ?thesis unfolding bytes using c by simp
  next
    case 4
    define a b d e where "a = c div 0x40000" and "b = c div 0x1000 mod 0x40" and "d = c div 0x40 mod 0x40" and "e = c mod 0x40"
    have split: "c = c div 0x40 * 0x40 + e" "c div 0x40 = c div 0x1000 * 0x40 + d" "c div 0x1000 = a * 0x40 + b"
      using div_mult2_eq [of c "0x40" "0x40"] div_mult2_eq [of c "0x1000" "0x40"]
      by (simp_all add: a_def b_def d_def e_def)
    have c: "c = a * 0x40000 + b * 0x1000 + d * 0x40 + e" using split by linarith
    have lt: "b < 0x40" "d < 0x40" "e < 0x40" by (simp_all add: b_def d_def e_def)
    have ab: "a \<le> 4" "a = 0 \<Longrightarrow> 0x10 \<le> b" "a = 4 \<Longrightarrow> b < 0x10" using 4 c lt by linarith+
    have bytes: "utf8_bytes c = [of_nat (0xF0 + a), of_nat (0x80 + b), of_nat (0x80 + d), of_nat (0x80 + e)]"
      using 4 by (simp add: utf8_bytes_def a_def b_def d_def e_def)
    have "decode_point (of_nat (0xF0 + a) # of_nat (0x80 + b) # of_nat (0x80 + d) # of_nat (0x80 + e) # rest) =
        Some (a * 0x40000 + b * 0x1000 + d * 0x40 + e, rest)"
      by (rule decode_point_4) (use ab lt in \<open>simp_all add: unat_byte del: of_nat_add\<close>)
    then show ?thesis unfolding bytes using c by simp
  qed
qed

text \<open>Strings whose surrogates are paired.\<close>

fun well_formed :: "js_string \<Rightarrow> bool" where
  "well_formed [] = True"
| "well_formed [u] \<longleftrightarrow> \<not> high_surrogate (unat u) \<and> \<not> low_surrogate (unat u)"
| "well_formed (u # v # s) \<longleftrightarrow>
     (if high_surrogate (unat u) then low_surrogate (unat v) \<and> well_formed s
      else \<not> low_surrogate (unat u) \<and> well_formed (v # s))"

lemma unit_less: "unat (u :: code_unit) < 65536"
  by (rule order_less_le_trans [OF unsigned_less]) simp

lemma code_points_scalar: "list_all scalar (code_points s)"
proof (induction s rule: code_points.induct)
  case (2 u)
  then show ?case using unit_less [of u] by (auto simp: scalar_def high_surrogate_def low_surrogate_def)
next
  case (3 u v s)
  then show ?case using unit_less [of u] unit_less [of v]
    by (auto simp: scalar_def high_surrogate_def low_surrogate_def)
qed simp

lemma utf8_decode_points:
  "list_all scalar cs \<Longrightarrow> utf8_decode (concat (map utf8_bytes cs)) = Some (concat (map utf16_units cs))"
proof (induction cs)
  case Nil
  then show ?case by (simp add: utf8_decode.simps)
next
  case (Cons c cs)
  have "utf8_bytes c \<noteq> []" by (simp add: utf8_bytes_def)
  then show ?case using Cons by (subst utf8_decode.simps) (simp add: decode_point_utf8_bytes)
qed

lemma utf16_units_single: "utf16_units (unat u) = [u]"
  using unit_less [of u] by (simp add: utf16_units_def)

lemma utf16_units_pair:
  assumes "high_surrogate (unat u)" and "low_surrogate (unat v)"
  shows "utf16_units (0x10000 + (unat u - 0xD800) * 0x400 + (unat v - 0xDC00)) = [u, v]"
proof -
  define a b where "a = unat u - 0xD800" and "b = unat v - 0xDC00"
  have "b < 0x400" "unat u = 0xD800 + a" "unat v = 0xDC00 + b"
    using assms by (auto simp: a_def b_def high_surrogate_def low_surrogate_def)
  then have "(a * 0x400 + b) div 0x400 = a" "(a * 0x400 + b) mod 0x400 = b"
    "of_nat (0xD800 + a) = u" "of_nat (0xDC00 + b) = v" by (simp_all flip: \<open>unat u = _\<close> \<open>unat v = _\<close>)
  then show ?thesis by (simp add: utf16_units_def a_def [symmetric] b_def [symmetric] del: of_nat_add)
qed

lemma code_points_units:
  "concat (map utf16_units (code_points s)) = s \<longleftrightarrow> well_formed s"
proof (induction s rule: code_points.induct)
  case (2 u)
  have "utf16_units 0xFFFD = [0xFFFD]" by (simp add: utf16_units_def)
  moreover have "u = 0xFFFD \<Longrightarrow> unat u = 0xFFFD" by simp
  ultimately show ?case
    by (auto simp: utf16_units_single high_surrogate_def low_surrogate_def)
next
  case (3 u v s)
  have rep: "utf16_units 0xFFFD = [0xFFFD]" by (simp add: utf16_units_def)
  have ne: "u = 0xFFFD \<Longrightarrow> unat u = 0xFFFD" by simp
  have disj: "high_surrogate n \<Longrightarrow> \<not> low_surrogate n" for n by (simp add: high_surrogate_def low_surrogate_def)
  have repl: "\<not> high_surrogate 0xFFFD" "\<not> low_surrogate 0xFFFD" by (simp_all add: high_surrogate_def low_surrogate_def)
  show ?case
    using 3 ne repl disj by (auto simp: utf16_units_single utf16_units_pair rep)
qed simp

lemma utf8_decode_encode: "utf8_decode (utf8_encode s) = Some s \<longleftrightarrow> well_formed s"
  using code_points_units [of s] by (simp add: utf8_encode_def utf8_decode_points [OF code_points_scalar])

end
