(* ===== verification/Cbor.thy ===== *)
theory Cbor imports Utf Json begin

text \<open>
  The strict CBOR subset of the protocol (\<open>packages/protocol/src/cbor/encoder.ts\<close>, \<open>decoder.ts\<close>,
  \<open>options.ts\<close>). The values are those a JavaScript program can hand to the encoder, undefined and
  unsupported ones included, without cycles. The writer is the bytes written so far (the source keeps them in
  a buffer that it enlarges up to the limit); the reader is the bytes not yet read. Nesting is bounded by
  \<open>maxDepth\<close>, on which the recursion of the decoder terminates.
\<close>

section \<open>Options\<close>

record cbor_options =
  maxByteLength :: nat
  maxContainerLength :: nat
  maxDepth :: nat

definition UINT32_BASE :: nat where "UINT32_BASE = 0x100000000"
definition MAX_CONFIGURED_DEPTH :: nat where "MAX_CONFIGURED_DEPTH = 512"
definition DEFAULT_MAX_CBOR_BYTE_LENGTH :: nat where "DEFAULT_MAX_CBOR_BYTE_LENGTH = 16 * 1024 * 1024"
definition DEFAULT_MAX_CBOR_CONTAINER_LENGTH :: nat where "DEFAULT_MAX_CBOR_CONTAINER_LENGTH = 1000000"
definition DEFAULT_MAX_CBOR_DEPTH :: nat where "DEFAULT_MAX_CBOR_DEPTH = 64"

definition resolveLimit :: "string \<Rightarrow> int \<Rightarrow> nat \<Rightarrow> nat throws" where
  "resolveLimit name v maximum =
     (if v < 0 \<or> v > int maximum
      then Inl (name @ '' must be an integer between 0 and '' @ show_nat maximum) else Inr (nat v))"

definition resolveOptions :: "int option \<Rightarrow> int option \<Rightarrow> int option \<Rightarrow> cbor_options throws" where
  "resolveOptions byteLength containerLength depth =
     (let pick = (\<lambda>v d. case v of Some x \<Rightarrow> x | None \<Rightarrow> int d) in
      bind_throws (resolveLimit ''maxByteLength'' (pick byteLength DEFAULT_MAX_CBOR_BYTE_LENGTH) MAX_UINT32) (\<lambda>b.
      bind_throws (resolveLimit ''maxContainerLength'' (pick containerLength DEFAULT_MAX_CBOR_CONTAINER_LENGTH) MAX_UINT32) (\<lambda>c.
      bind_throws (resolveLimit ''maxDepth'' (pick depth DEFAULT_MAX_CBOR_DEPTH) MAX_CONFIGURED_DEPTH) (\<lambda>d.
      Inr \<lparr>maxByteLength = b, maxContainerLength = c, maxDepth = d\<rparr>))))"

section \<open>Values\<close>

datatype jsv =
    VUndefined
  | VNull
  | VBool bool
  | VNum jsnum
  | VText js_string
  | VBytes "byte list"
  | VArray "jsv list"
  | VObject "(js_string \<times> jsv) list"
  | VOther string

text \<open>The number a binary64 bit pattern stands for, with integral values as integers.\<close>

definition double_exponent :: "64 word \<Rightarrow> nat" where
  "double_exponent w = unat w div 2 ^ 52 mod 2 ^ 11"

definition double_mantissa :: "64 word \<Rightarrow> nat" where
  "double_mantissa w = unat w mod 2 ^ 52"

definition num_of_bits :: "64 word \<Rightarrow> jsnum" where
  "num_of_bits w =
     (let e = double_exponent w; m = 2 ^ 52 + double_mantissa w;
          sign = (if unat w < 2 ^ 63 then 1 else -1 :: int) in
      if w = 0 then JInt 0
      else if e = 0 \<or> e = 2047 then JFrac w
      else if 1075 \<le> e then JInt (sign * int (m * 2 ^ (e - 1075)))
      else if 1075 - e \<le> 52 \<and> 2 ^ (1075 - e) dvd m then JInt (sign * int (m div 2 ^ (1075 - e)))
      else JFrac w)"

text \<open>A number of the model in normal form: a bit pattern only where the value is not integral.\<close>

fun num_canonical :: "jsnum \<Rightarrow> bool" where
  "num_canonical (JInt _) = True"
| "num_canonical (JFrac w) \<longleftrightarrow> num_of_bits w = JFrac w"

definition MAX_SAFE_INTEGER :: int where "MAX_SAFE_INTEGER = 9007199254740991"

definition is_safe :: "int \<Rightarrow> bool" where
  "is_safe n \<longleftrightarrow> - MAX_SAFE_INTEGER \<le> n \<and> n \<le> MAX_SAFE_INTEGER"

section \<open>The encoder\<close>

definition limit_error :: "string \<Rightarrow> nat \<Rightarrow> string" where
  "limit_error what limit = ''CBOR '' @ what @ '' exceeds configured limit of '' @ show_nat limit"

definition emit :: "cbor_options \<Rightarrow> byte list \<Rightarrow> byte list \<Rightarrow> byte list throws" where
  "emit opts bs out =
     (if length out + length bs > maxByteLength opts then Inl (limit_error ''byte length'' (maxByteLength opts))
      else Inr (out @ bs))"

definition float64_bytes :: "64 word \<Rightarrow> byte list" where
  "float64_bytes w = u32_bytes (unat w div UINT32_BASE) @ u32_bytes (unat w mod UINT32_BASE)"

definition float64_value :: "byte list \<Rightarrow> 64 word" where
  "float64_value bs = of_nat (u32_value (take 4 bs) * UINT32_BASE + u32_value (drop 4 bs))"

text \<open>The three-bit major type and five bits of additional information.\<close>

definition initial_byte :: "nat \<Rightarrow> nat \<Rightarrow> byte" where
  "initial_byte majorType info = of_nat (majorType * 32 + info)"

definition writeArgument :: "cbor_options \<Rightarrow> nat \<Rightarrow> nat \<Rightarrow> byte list \<Rightarrow> byte list throws" where
  "writeArgument opts majorType v out =
     (if v < 24 then emit opts [initial_byte majorType v] out
      else if v \<le> 0xff
        then bind_throws (emit opts [initial_byte majorType 24] out) (emit opts [of_nat v])
      else if v \<le> 0xffff
        then bind_throws (emit opts [initial_byte majorType 25] out) (emit opts [of_nat (v div 0x100), of_nat v])
      else if v \<le> MAX_UINT32
        then bind_throws (emit opts [initial_byte majorType 26] out) (emit opts (u32_bytes v))
      else bind_throws (emit opts [initial_byte majorType 27] out) (\<lambda>out1.
           bind_throws (emit opts (u32_bytes (v div UINT32_BASE)) out1)
             (emit opts (u32_bytes (v mod UINT32_BASE)))))"

definition encodeText :: "cbor_options \<Rightarrow> js_string \<Rightarrow> byte list \<Rightarrow> byte list throws" where
  "encodeText opts s out =
     (let bytes = utf8_encode s in
      if length bytes > maxByteLength opts then Inl (limit_error ''text string length'' (maxByteLength opts))
      else if utf8_decode bytes \<noteq> Some s then Inl ''CBOR text strings must contain valid Unicode scalar values''
      else bind_throws (writeArgument opts 3 (length bytes) out) (emit opts bytes))"

definition encodeNumber :: "cbor_options \<Rightarrow> jsnum \<Rightarrow> byte list \<Rightarrow> byte list throws" where
  "encodeNumber opts n out =
     (case n of
        JInt i \<Rightarrow>
          (if \<not> is_safe i then Inl ''CBOR integers must be safe JavaScript integers''
           else if 0 \<le> i then writeArgument opts 0 (nat i) out
           else writeArgument opts 1 (nat (-1 - i)) out)
      | JFrac w \<Rightarrow>
          (if \<not> num_is_finite n then Inl ''CBOR numbers must be finite''
           else emit opts (initial_byte 7 27 # float64_bytes w) out))"

text \<open>The entries of an object that are written: those that are not undefined.\<close>

definition defined_entries :: "(js_string \<times> jsv) list \<Rightarrow> (js_string \<times> jsv) list" where
  "defined_entries entries = filter (\<lambda>(k, v). v \<noteq> VUndefined) entries"

fun encodeValue :: "cbor_options \<Rightarrow> nat \<Rightarrow> jsv \<Rightarrow> byte list \<Rightarrow> byte list throws"
  and encodeItems :: "cbor_options \<Rightarrow> nat \<Rightarrow> jsv list \<Rightarrow> byte list \<Rightarrow> byte list throws"
  and encodeEntries :: "cbor_options \<Rightarrow> nat \<Rightarrow> (js_string \<times> jsv) list \<Rightarrow> byte list \<Rightarrow> byte list throws" where
  "encodeValue opts depth v out =
     (if depth > maxDepth opts then Inl (limit_error ''nesting depth'' (maxDepth opts))
      else case v of
          VNull \<Rightarrow> emit opts [0xf6] out
        | VBool b \<Rightarrow> emit opts [if b then 0xf5 else 0xf4] out
        | VNum n \<Rightarrow> encodeNumber opts n out
        | VText s \<Rightarrow> encodeText opts s out
        | VBytes bs \<Rightarrow>
            (if length bs > maxByteLength opts then Inl (limit_error ''byte string length'' (maxByteLength opts))
             else bind_throws (writeArgument opts 2 (length bs) out) (emit opts bs))
        | VArray vs \<Rightarrow>
            (if length vs > maxContainerLength opts then Inl (limit_error ''array length'' (maxContainerLength opts))
             else bind_throws (writeArgument opts 4 (length vs) out) (encodeItems opts (depth + 1) vs))
        | VObject entries \<Rightarrow>
            (if length (defined_entries entries) > maxContainerLength opts
             then Inl (limit_error ''map length'' (maxContainerLength opts))
             else bind_throws (writeArgument opts 5 (length (defined_entries entries)) out)
               (encodeEntries opts (depth + 1) entries))
        | VUndefined \<Rightarrow> Inl ''Unsupported CBOR value type: undefined''
        | VOther t \<Rightarrow> Inl (''Unsupported CBOR value type: '' @ t))"
| "encodeItems opts depth [] out = Inr out"
| "encodeItems opts depth (v # vs) out =
     (if v = VUndefined then Inl ''CBOR arrays must not contain holes or undefined values''
      else bind_throws (encodeValue opts depth v out) (encodeItems opts depth vs))"
| "encodeEntries opts depth [] out = Inr out"
| "encodeEntries opts depth ((k, v) # entries) out =
     (if v = VUndefined then encodeEntries opts depth entries out
      else bind_throws (encodeText opts k out) (\<lambda>out1.
           bind_throws (encodeValue opts depth v out1) (encodeEntries opts depth entries)))"

definition encodeCbor :: "cbor_options \<Rightarrow> jsv \<Rightarrow> byte list throws" where
  "encodeCbor opts v = encodeValue opts 0 v []"

section \<open>The decoder\<close>

type_synonym 'a reader = "byte list \<Rightarrow> ('a \<times> byte list) throws"

definition TRUNCATED :: string where "TRUNCATED = ''Truncated CBOR payload''"

definition readBytes :: "nat \<Rightarrow> byte list reader" where
  "readBytes n bs = (if n > length bs then Inl TRUNCATED else Inr (take n bs, drop n bs))"

definition readByte :: "nat reader" where
  "readByte bs = (case bs of [] \<Rightarrow> Inl TRUNCATED | b # rest \<Rightarrow> Inr (unat b, rest))"

definition readUint32 :: "nat reader" where
  "readUint32 bs = bind_throws (readBytes 4 bs) (\<lambda>(b, rest). Inr (u32_value b, rest))"

definition readArgument :: "nat \<Rightarrow> nat reader" where
  "readArgument info bs =
     (if info < 24 then Inr (info, bs)
      else if info = 24 then readByte bs
      else if info = 25
        then bind_throws (readBytes 2 bs) (\<lambda>(b, rest). Inr (unat (b ! 0) * 0x100 + unat (b ! 1), rest))
      else if info = 26 then readUint32 bs
      else if info = 27
        then bind_throws (readUint32 bs) (\<lambda>(high, rest).
             bind_throws (readUint32 rest) (\<lambda>(low, rest').
               if high > 0x1fffff then Inl ''Decoded CBOR integer or length is outside the safe range''
               else Inr (high * UINT32_BASE + low, rest')))
      else if info = 31 then Inl ''Indefinite-length CBOR items are not supported''
      else Inl ''Malformed CBOR additional information'')"

definition readLength :: "nat \<Rightarrow> string \<Rightarrow> nat \<Rightarrow> nat reader" where
  "readLength info kind limit bs =
     (if info = 31 then Inl (''Indefinite-length CBOR '' @ kind @ ''s are not supported'')
      else bind_throws (readArgument info bs) (\<lambda>(n, rest).
        if n > limit then Inl (limit_error (kind @ '' length'') limit) else Inr (n, rest)))"

definition readSimple :: "nat \<Rightarrow> jsv reader" where
  "readSimple info bs =
     (if info = 20 then Inr (VBool False, bs)
      else if info = 21 then Inr (VBool True, bs)
      else if info = 22 then Inr (VNull, bs)
      else if info = 27
        then bind_throws (readBytes 8 bs) (\<lambda>(b, rest).
          (let n = num_of_bits (float64_value b) in
           if \<not> num_is_finite n then Inl ''Decoded CBOR number must be finite''
           else case n of
               JInt i \<Rightarrow> if \<not> is_safe i then Inl ''Decoded CBOR integer is outside the safe range'' else Inr (VNum n, rest)
             | JFrac _ \<Rightarrow> Inr (VNum n, rest)))
      else if info = 31 then Inl ''CBOR break marker is not supported''
      else Inl ''Unsupported CBOR simple value or floating-point width'')"

function readItem :: "cbor_options \<Rightarrow> nat \<Rightarrow> jsv reader"
  and readItems :: "cbor_options \<Rightarrow> nat \<Rightarrow> nat \<Rightarrow> jsv list reader"
  and readEntries :: "cbor_options \<Rightarrow> nat \<Rightarrow> nat \<Rightarrow> js_string list \<Rightarrow> (js_string \<times> jsv) list reader" where
  "readItem opts depth bs =
     (if depth > maxDepth opts then Inl (limit_error ''nesting depth'' (maxDepth opts))
      else bind_throws (readByte bs) (\<lambda>(initial, rest).
        (let majorType = initial div 32; info = initial mod 32 in
         if majorType = 0 then bind_throws (readArgument info rest) (\<lambda>(n, r). Inr (VNum (JInt (int n)), r))
         else if majorType = 1
           then bind_throws (readArgument info rest) (\<lambda>(n, r).
             (let i = -1 - int n in
              if \<not> is_safe i then Inl ''Decoded CBOR integer is outside the safe range'' else Inr (VNum (JInt i), r)))
         else if majorType = 2
           then bind_throws (readLength info ''byte string'' (maxByteLength opts) rest) (\<lambda>(n, r).
                bind_throws (readBytes n r) (\<lambda>(b, r'). Inr (VBytes b, r')))
         else if majorType = 3
           then bind_throws (readLength info ''text string'' (maxByteLength opts) rest) (\<lambda>(n, r).
                bind_throws (readBytes n r) (\<lambda>(b, r').
                  case utf8_decode b of None \<Rightarrow> Inl ''CBOR text string contains invalid UTF-8''
                  | Some s \<Rightarrow> Inr (VText s, r')))
         else if majorType = 4
           then bind_throws (readLength info ''array'' (maxContainerLength opts) rest) (\<lambda>(n, r).
                bind_throws (readItems opts (depth + 1) n r) (\<lambda>(vs, r'). Inr (VArray vs, r')))
         else if majorType = 5
           then bind_throws (readLength info ''map'' (maxContainerLength opts) rest) (\<lambda>(n, r).
                bind_throws (readEntries opts (depth + 1) n [] r) (\<lambda>(es, r'). Inr (VObject es, r')))
         else if majorType = 6 then Inl ''CBOR tags are not supported''
         else readSimple info rest)))"
| "readItems opts depth 0 bs = Inr ([], bs)"
| "readItems opts depth (Suc n) bs =
     bind_throws (readItem opts depth bs) (\<lambda>(v, rest).
       bind_throws (readItems opts depth n rest) (\<lambda>(vs, rest'). Inr (v # vs, rest')))"
| "readEntries opts depth 0 keys bs = Inr ([], bs)"
| "readEntries opts depth (Suc n) keys bs =
     bind_throws (readItem opts depth bs) (\<lambda>(key, rest).
       case key of
         VText k \<Rightarrow>
           (if k \<in> set keys then Inl ''CBOR map contains a duplicate key''
            else bind_throws (readItem opts depth rest) (\<lambda>(v, rest1).
              bind_throws (readEntries opts depth n (k # keys) rest1) (\<lambda>(es, rest2). Inr ((k, v) # es, rest2))))
       | _ \<Rightarrow> Inl ''CBOR map keys must be strings'')"
  by pat_completeness auto
termination
  by (relation "measures [\<lambda>x. case x of Inl (opts, depth, _) \<Rightarrow> maxDepth opts + 1 - depth
        | Inr (Inl (opts, depth, _, _)) \<Rightarrow> maxDepth opts + 1 - depth
        | Inr (Inr (opts, depth, _, _, _)) \<Rightarrow> maxDepth opts + 1 - depth,
      \<lambda>x. case x of Inl _ \<Rightarrow> 0 | Inr (Inl (_, _, n, _)) \<Rightarrow> n + 1 | Inr (Inr (_, _, n, _, _)) \<Rightarrow> n + 1]") auto

definition decodeCbor :: "cbor_options \<Rightarrow> byte list \<Rightarrow> jsv throws" where
  "decodeCbor opts bs =
     (if length bs > maxByteLength opts then Inl (limit_error ''byte length'' (maxByteLength opts))
      else bind_throws (readItem opts 0 bs) (\<lambda>(v, rest).
        if rest \<noteq> [] then Inl ''CBOR payload contains trailing data'' else Inr v))"

end
