(* ===== verification/Cbor_Roundtrip.thy ===== *)
theory Cbor_Roundtrip imports Cbor begin

text \<open>
  What the CBOR codec guarantees: decoding what was encoded gives the value back (without its undefined
  entries), and whatever the decoder accepts respects the configured limits and the number ranges of the
  protocol.
\<close>

section \<open>Writing and reading arguments\<close>

lemma emit_Inr: "emit opts bs out = Inr out' \<longleftrightarrow> out' = out @ bs \<and> length out' \<le> maxByteLength opts"
  by (auto simp: emit_def)

lemma float64_round_trip: "float64_value (float64_bytes w) = w"
proof -
  have lt: "unat w < 2 ^ 64" by (rule order_less_le_trans [OF unsigned_less]) simp
  have "unat w div UINT32_BASE \<le> MAX_UINT32" "unat w mod UINT32_BASE \<le> MAX_UINT32"
    using lt by (simp_all add: UINT32_BASE_def MAX_UINT32_def less_Suc_eq_le [symmetric] less_mult_imp_div_less)
  then have "u32_value (u32_bytes (unat w div UINT32_BASE)) = unat w div UINT32_BASE"
    "u32_value (u32_bytes (unat w mod UINT32_BASE)) = unat w mod UINT32_BASE"
    using u32_value_bytes [where r = "[]"] by simp_all
  then have "float64_value (float64_bytes w) = of_nat (unat w div UINT32_BASE * UINT32_BASE + unat w mod UINT32_BASE)"
    by (simp add: float64_value_def float64_bytes_def)
  then show ?thesis by simp
qed

lemma unat_initial_byte: "majorType < 8 \<Longrightarrow> info < 32 \<Longrightarrow> unat (initial_byte majorType info) = majorType * 32 + info"
  by (simp add: initial_byte_def unat_of_nat del: of_nat_add of_nat_mult)

definition MAX_SAFE_NAT :: nat where "MAX_SAFE_NAT = 9007199254740991"

lemma writeArgument_read:
  assumes "writeArgument opts majorType v out = Inr out'" and "v \<le> MAX_SAFE_NAT"
  shows "\<exists>info bs. out' = out @ initial_byte majorType info # bs \<and> info < 32 \<and> info \<noteq> 31 \<and>
    length out' \<le> maxByteLength opts \<and> (\<forall>rest. readArgument info (bs @ rest) = Inr (v, rest))"
proof -
  consider "v < 24" | "24 \<le> v" "v \<le> 0xff" | "0xff < v" "v \<le> 0xffff" | "0xffff < v" "v \<le> MAX_UINT32" | "MAX_UINT32 < v"
    by linarith
  then show ?thesis
  proof cases
    case 1
    then show ?thesis using assms(1)
      by (intro exI [of _ v] exI [of _ "[]"]) (auto simp: writeArgument_def emit_Inr readArgument_def)
  next
    case 2
    then show ?thesis using assms(1)
      by (intro exI [of _ 24] exI [of _ "[of_nat v]"])
         (auto simp: writeArgument_def emit_Inr bind_throws_eq_Inr readArgument_def readByte_def unat_byte)
  next
    case 3
    have "v div 256 < 256" using 3 by linarith
    then have "unat (of_nat (v div 256) :: byte) * 256 + unat (of_nat v :: byte) = v"
      by (simp add: unat_of_nat)
    then show ?thesis using 3 assms(1)
      by (intro exI [of _ 25] exI [of _ "[of_nat (v div 256), of_nat v]"])
         (auto simp: writeArgument_def emit_Inr bind_throws_eq_Inr readArgument_def readBytes_def)
  next
    case 4
    then show ?thesis using assms(1) u32_value_bytes [of v "[]"]
      by (intro exI [of _ 26] exI [of _ "u32_bytes v"])
         (auto simp: writeArgument_def emit_Inr bind_throws_eq_Inr readArgument_def readUint32_def readBytes_def)
  next
    case 5
    define high low where "high = v div UINT32_BASE" and "low = v mod UINT32_BASE"
    have v: "high * UINT32_BASE + low = v" by (simp add: high_def low_def)
    have h: "high \<le> 0x1fffff" "low \<le> MAX_UINT32"
      using assms(2) by (auto simp: high_def low_def UINT32_BASE_def MAX_UINT32_def MAX_SAFE_NAT_def less_Suc_eq_le [symmetric])
    then have "u32_value (u32_bytes high) = high" "u32_value (u32_bytes low) = low"
      using u32_value_bytes [where r = "[]"] by (simp_all add: MAX_UINT32_def)
    then have "readArgument 27 ((u32_bytes high @ u32_bytes low) @ rest) = Inr (v, rest)" for rest
      using h(1) v by (simp add: readArgument_def readUint32_def readBytes_def)
    moreover have "out' = out @ initial_byte majorType 27 # (u32_bytes high @ u32_bytes low) \<and>
        length out' \<le> maxByteLength opts"
      using 5 assms(1)
      by (auto simp: writeArgument_def emit_Inr bind_throws_eq_Inr high_def low_def MAX_UINT32_def)
    ultimately show ?thesis
      by (intro exI [of _ 27] exI [of _ "u32_bytes high @ u32_bytes low"]) auto
  qed
qed

lemma writeArgument_bound: "writeArgument opts majorType v out = Inr out' \<Longrightarrow> length out' \<le> maxByteLength opts"
  by (auto simp: writeArgument_def emit_Inr bind_throws_eq_Inr split: if_splits)

section \<open>Values\<close>

text \<open>The decoded value: an object without its undefined entries.\<close>

fun strip :: "jsv \<Rightarrow> jsv" and strip_list :: "jsv list \<Rightarrow> jsv list"
  and strip_entries :: "(js_string \<times> jsv) list \<Rightarrow> (js_string \<times> jsv) list" where
  "strip (VArray vs) = VArray (strip_list vs)"
| "strip (VObject es) = VObject (strip_entries es)"
| "strip v = v"
| "strip_list [] = []"
| "strip_list (v # vs) = strip v # strip_list vs"
| "strip_entries [] = []"
| "strip_entries ((k, v) # es) = (if v = VUndefined then strip_entries es else (k, strip v) # strip_entries es)"

text \<open>Values of the model that are JavaScript values: canonical numbers and distinct property names.\<close>

fun value_ok :: "jsv \<Rightarrow> bool" and values_ok :: "jsv list \<Rightarrow> bool"
  and entries_ok :: "(js_string \<times> jsv) list \<Rightarrow> bool" where
  "value_ok (VNum n) = num_canonical n"
| "value_ok (VArray vs) = values_ok vs"
| "value_ok (VObject es) \<longleftrightarrow> distinct (map fst es) \<and> entries_ok es"
| "value_ok _ = True"
| "values_ok [] = True"
| "values_ok (v # vs) \<longleftrightarrow> value_ok v \<and> values_ok vs"
| "entries_ok [] = True"
| "entries_ok ((k, v) # es) \<longleftrightarrow> value_ok v \<and> entries_ok es"

definition options_ok :: "cbor_options \<Rightarrow> bool" where
  "options_ok opts \<longleftrightarrow> maxByteLength opts \<le> MAX_UINT32 \<and> maxContainerLength opts \<le> MAX_UINT32 \<and>
     maxDepth opts \<le> MAX_CONFIGURED_DEPTH"

lemma resolveOptions_ok: "resolveOptions b c d = Inr opts \<Longrightarrow> options_ok opts"
  by (auto simp: resolveOptions_def resolveLimit_def options_ok_def Let_def bind_throws_eq_Inr split: if_splits)

text \<open>The dispatch of the decoder on an initial byte.\<close>

definition read_major :: "cbor_options \<Rightarrow> nat \<Rightarrow> nat \<Rightarrow> nat \<Rightarrow> jsv reader" where
  "read_major opts depth majorType info rest =
    (if majorType = 0 then bind_throws (readArgument info rest) (\<lambda>(n, r). Inr (VNum (JInt (int n)), r))
     else if majorType = 1
       then bind_throws (readArgument info rest) (\<lambda>(n, r).
         (let i = -1 - int n in
          if \<not> is_safe i then Inl ''Decoded CBOR integer is outside the safe range'' else Inr (VNum (JInt i), r)))
     else if majorType = 2
       then bind_throws (readLength info ''byte string'' (maxByteLength opts) rest) (\<lambda>(n, r).
            bind_throws (readBytes n r) (\<lambda>(b, r'). Inr (VBytes b, r')))
     else if majorType = 3
       then bind_throws (readLength info ''text string'' (maxByteLength opts) rest) (\<lambda>(n, r).
            bind_throws (readBytes n r) (\<lambda>(b, r').
              case utf8_decode b of None \<Rightarrow> Inl ''CBOR text string contains invalid UTF-8''
              | Some s \<Rightarrow> Inr (VText s, r')))
     else if majorType = 4
       then bind_throws (readLength info ''array'' (maxContainerLength opts) rest) (\<lambda>(n, r).
            bind_throws (readItems opts (depth + 1) n r) (\<lambda>(vs, r'). Inr (VArray vs, r')))
     else if majorType = 5
       then bind_throws (readLength info ''map'' (maxContainerLength opts) rest) (\<lambda>(n, r).
            bind_throws (readEntries opts (depth + 1) n [] r) (\<lambda>(es, r'). Inr (VObject es, r')))
     else if majorType = 6 then Inl ''CBOR tags are not supported''
     else readSimple info rest)"

lemma readItem_Cons:
  assumes "depth \<le> maxDepth opts"
  shows "readItem opts depth (b # rest) = read_major opts depth (unat b div 32) (unat b mod 32) rest"
proof -
  have "readByte (b # rest) = Inr (unat b, rest)" "\<not> maxDepth opts < depth" using assms by (simp_all add: readByte_def)
  then show ?thesis
    by (simp only: readItem.simps [of opts depth "_ # _"] read_major_def Let_def bind_throws_Inr prod.case if_False)
qed

declare readItem.simps [simp del] encodeValue.simps [simp del]

lemma readItem_initial:
  assumes "depth \<le> maxDepth opts" and "majorType < 8" and "info < 32"
  shows "readItem opts depth (initial_byte majorType info # rest) = read_major opts depth majorType info rest"
  using assms by (simp add: readItem_Cons unat_initial_byte)

lemma encodeText_read:
  assumes "encodeText opts s out = Inr out'" and "options_ok opts" and "depth \<le> maxDepth opts"
  shows "\<exists>enc. out' = out @ enc \<and> length out' \<le> maxByteLength opts \<and>
    (\<forall>rest. readItem opts depth (enc @ rest) = Inr (VText s, rest))"
proof -
  let ?b = "utf8_encode s"
  obtain out1 where len: "length ?b \<le> maxByteLength opts" and dec: "utf8_decode ?b = Some s"
    and w: "writeArgument opts 3 (length ?b) out = Inr out1" and e: "emit opts ?b out1 = Inr out'"
    using assms(1) by (auto simp: encodeText_def Let_def bind_throws_eq_Inr split: if_splits)
  have "length ?b \<le> MAX_SAFE_NAT" using len assms(2) by (simp add: options_ok_def MAX_UINT32_def MAX_SAFE_NAT_def)
  from writeArgument_read [OF w this] obtain info bs where
    out1: "out1 = out @ initial_byte 3 info # bs" "info < 32" "info \<noteq> 31" and
    rd: "\<And>rest. readArgument info (bs @ rest) = Inr (length ?b, rest)" by blast
  have "readItem opts depth ((initial_byte 3 info # bs @ ?b) @ rest) = Inr (VText s, rest)" for rest
    using assms(3) out1 rd [of "?b @ rest"] len dec
    by (simp add: readItem_initial read_major_def readLength_def readBytes_def)
  then show ?thesis using e out1(1) by (intro exI [of _ "initial_byte 3 info # bs @ ?b"]) (auto simp: emit_Inr)
qed

lemma encodeNumber_read:
  assumes "encodeNumber opts n out = Inr out'" and "num_canonical n" and "depth \<le> maxDepth opts"
  shows "\<exists>enc. out' = out @ enc \<and> length out' \<le> maxByteLength opts \<and>
    (\<forall>rest. readItem opts depth (enc @ rest) = Inr (VNum n, rest))"
proof (cases n)
  case (JInt i)
  then have safe: "is_safe i" using assms(1) by (auto simp: encodeNumber_def split: if_splits)
  show ?thesis
  proof (cases "0 \<le> i")
    case True
    then have "writeArgument opts 0 (nat i) out = Inr out'" "nat i \<le> MAX_SAFE_NAT"
      using assms(1) JInt safe
      by (auto simp: encodeNumber_def is_safe_def MAX_SAFE_INTEGER_def MAX_SAFE_NAT_def split: if_splits)
    from writeArgument_read [OF this] obtain info bs where
      o: "out' = out @ initial_byte 0 info # bs" "info < 32" "length out' \<le> maxByteLength opts" and
      rd: "\<And>rest. readArgument info (bs @ rest) = Inr (nat i, rest)" by blast
    have "readItem opts depth ((initial_byte 0 info # bs) @ rest) = Inr (VNum n, rest)" for rest
      using assms(3) o rd [of rest] JInt True
      by (simp add: readItem_initial read_major_def)
    then show ?thesis using o by (intro exI [of _ "initial_byte 0 info # bs"]) simp
  next
    case False
    then have "writeArgument opts 1 (nat (-1 - i)) out = Inr out'" "nat (-1 - i) \<le> MAX_SAFE_NAT"
      using assms(1) JInt safe
      by (auto simp: encodeNumber_def is_safe_def MAX_SAFE_INTEGER_def MAX_SAFE_NAT_def split: if_splits)
    from writeArgument_read [OF this] obtain info bs where
      o: "out' = out @ initial_byte 1 info # bs" "info < 32" "length out' \<le> maxByteLength opts" and
      rd: "\<And>rest. readArgument info (bs @ rest) = Inr (nat (-1 - i), rest)" by blast
    have "readItem opts depth ((initial_byte 1 info # bs) @ rest) = Inr (VNum n, rest)" for rest
      using assms(3) o rd [of rest] JInt False safe
      by (simp add: readItem_initial read_major_def)
    then show ?thesis using o by (intro exI [of _ "initial_byte 1 info # bs"]) simp
  qed
next
  case (JFrac w)
  then have fin: "num_is_finite n" and e: "emit opts (initial_byte 7 27 # float64_bytes w) out = Inr out'"
    using assms(1) by (auto simp: encodeNumber_def split: if_splits)
  have bits: "num_of_bits w = n" using assms(2) JFrac by simp
  have len: "length (float64_bytes w) = 8" by (simp add: float64_bytes_def)
  have "readItem opts depth ((initial_byte 7 27 # float64_bytes w) @ rest) = Inr (VNum n, rest)" for rest
    using assms(3) fin JFrac len bits
    by (simp add: readItem_initial read_major_def readSimple_def readBytes_def float64_round_trip del: num_is_finite.simps)
  then show ?thesis using e by (intro exI [of _ "initial_byte 7 27 # float64_bytes w"]) (auto simp: emit_Inr)
qed

lemma strip_not_undefined: "v \<noteq> VUndefined \<Longrightarrow> strip v \<noteq> VUndefined"
  by (cases v) auto

lemma length_strip_list [simp]: "length (strip_list vs) = length vs"
  by (induction vs) auto

lemma length_strip_entries: "length (strip_entries es) = length (defined_entries es)"
proof (induction es)
  case (Cons p es)
  then show ?case by (cases p) (simp add: defined_entries_def)
qed (simp add: defined_entries_def)

lemma keys_strip_entries: "fst ` set (strip_entries es) \<subseteq> fst ` set es"
proof (induction es)
  case (Cons p es)
  then show ?case by (cases p) auto
qed simp


section \<open>Decoding what was encoded\<close>

definition reads_back ::
  "cbor_options \<Rightarrow> byte list \<Rightarrow> byte list \<Rightarrow> (byte list \<Rightarrow> ('a \<times> byte list) throws) \<Rightarrow> 'a \<Rightarrow> bool" where
  "reads_back opts out out' reader v \<longleftrightarrow>
     (\<exists>enc. out' = out @ enc \<and> length out' \<le> maxByteLength opts \<and> (\<forall>rest. reader (enc @ rest) = Inr (v, rest)))"

lemma reads_backI:
  assumes "out' = out @ enc" "length out' \<le> maxByteLength opts" "\<And>rest. reader (enc @ rest) = Inr (v, rest)"
  shows "reads_back opts out out' reader v"
  using assms by (auto simp: reads_back_def)

lemma emit_item_read:
  assumes "emit opts (initial_byte majorType info # bs) out = Inr out'" and "depth \<le> maxDepth opts"
    and "majorType < 8" and "info < 32" and "\<And>rest. read_major opts depth majorType info (bs @ rest) = Inr (v, rest)"
  shows "reads_back opts out out' (readItem opts depth) v"
  using assms by (intro reads_backI [of _ _ "initial_byte majorType info # bs"])
    (auto simp: emit_Inr readItem_initial)

text \<open>An item of major type 2, 4 or 5: a length, then a body that its own reader reads back.\<close>

lemma header_body_read:
  assumes w: "writeArgument opts majorType n out = Inr out1" and n: "n \<le> limit" "limit \<le> MAX_UINT32"
    and body: "reads_back opts out1 out' body x" and depth: "depth \<le> maxDepth opts" and major: "majorType < 8"
    and dispatch: "\<And>info bs. info \<noteq> 31 \<Longrightarrow> read_major opts depth majorType info bs =
      bind_throws (readLength info kind limit bs) (\<lambda>(m, r). bind_throws (reader m r) (\<lambda>(y, r'). Inr (f y, r')))"
    and reader: "reader n = body"
  shows "reads_back opts out out' (readItem opts depth) (f x)"
proof -
  have "n \<le> MAX_SAFE_NAT" using n by (simp add: MAX_UINT32_def MAX_SAFE_NAT_def)
  from writeArgument_read [OF w this] obtain info bs where
    out1: "out1 = out @ initial_byte majorType info # bs" "info < 32" "info \<noteq> 31" and
    rd: "\<And>rest. readArgument info (bs @ rest) = Inr (n, rest)" by blast
  from body obtain enc where enc: "out' = out1 @ enc" "length out' \<le> maxByteLength opts"
    "\<And>rest. body (enc @ rest) = Inr (x, rest)" unfolding reads_back_def by blast
  have "readItem opts depth ((initial_byte majorType info # bs @ enc) @ rest) = Inr (f x, rest)" for rest
    using out1 rd [of "enc @ rest"] enc(3) depth major n(1) reader
    by (simp add: readItem_initial dispatch readLength_def)
  then show ?thesis using out1(1) enc(1,2)
    by (intro reads_backI [of _ _ "initial_byte majorType info # bs @ enc"]) simp_all
qed

lemma initial_byte_simple: "initial_byte 7 20 = 0xf4" "initial_byte 7 21 = 0xf5" "initial_byte 7 22 = 0xf6"
  by (simp_all add: initial_byte_def)

lemma encodeText_reads_back:
  assumes "encodeText opts s out = Inr out'" and "options_ok opts" and "depth \<le> maxDepth opts"
  shows "reads_back opts out out' (readItem opts depth) (VText s)"
  using encodeText_read [OF assms] by (auto simp: reads_back_def)

lemma encodeNumber_reads_back:
  assumes "encodeNumber opts n out = Inr out'" and "num_canonical n" and "depth \<le> maxDepth opts"
  shows "reads_back opts out out' (readItem opts depth) (VNum n)"
  using encodeNumber_read [OF assms] by (auto simp: reads_back_def)

lemma encode_reads_back:
  "encodeValue opts depth v out = Inr out' \<Longrightarrow> options_ok opts \<Longrightarrow> value_ok v \<Longrightarrow>
     reads_back opts out out' (readItem opts depth) (strip v)"
  "encodeItems opts depth vs out = Inr out' \<Longrightarrow> options_ok opts \<Longrightarrow> values_ok vs \<Longrightarrow> length out \<le> maxByteLength opts \<Longrightarrow>
     reads_back opts out out' (readItems opts depth (length vs)) (strip_list vs)"
  "encodeEntries opts depth es out = Inr out' \<Longrightarrow> options_ok opts \<Longrightarrow> entries_ok es \<Longrightarrow> length out \<le> maxByteLength opts \<Longrightarrow>
     distinct (map fst es) \<Longrightarrow> set keys \<inter> fst ` set es = {} \<Longrightarrow>
     reads_back opts out out' (readEntries opts depth (length (defined_entries es)) keys) (strip_entries es)"
proof (induction opts depth v out and opts depth vs out and opts depth es out
    arbitrary: out' and out' and out' keys rule: encodeValue_encodeItems_encodeEntries.induct)
  case (1 opts depth v out)
  have d: "depth \<le> maxDepth opts" using 1(3) by (simp add: encodeValue.simps split: if_splits)
  then have nd: "\<not> maxDepth opts < depth" by simp
  note enc = 1(3) [unfolded encodeValue.simps if_not_P [OF nd]]
  note lims = 1(4) [unfolded options_ok_def]
  show ?case
  proof (cases v)
    case VNull
    then show ?thesis using enc d
      by (auto intro!: emit_item_read [where majorType = 7 and info = 22 and bs = "[]"]
          simp: initial_byte_simple read_major_def readSimple_def)
  next
    case (VBool b)
    then show ?thesis using enc d
      by (intro emit_item_read [where majorType = 7 and info = "if b then 21 else 20" and bs = "[]"])
         (auto simp: initial_byte_simple read_major_def readSimple_def)
  next
    case (VNum n)
    then show ?thesis using enc d 1(5) encodeNumber_reads_back by simp
  next
    case (VText s)
    then show ?thesis using enc d 1(4) encodeText_reads_back by simp
  next
    case (VBytes bs)
    then obtain out1 where len: "length bs \<le> maxByteLength opts" and w: "writeArgument opts 2 (length bs) out = Inr out1"
      and e: "emit opts bs out1 = Inr out'"
      using enc by (auto simp: bind_throws_eq_Inr split: if_splits)
    have "reads_back opts out1 out' (readBytes (length bs)) bs"
      using e by (intro reads_backI [of _ _ bs]) (auto simp: emit_Inr readBytes_def)
    from header_body_read [OF w len _ this d, where kind = "''byte string''" and f = VBytes and reader = readBytes] lims
    show ?thesis using VBytes by (simp add: read_major_def)
  next
    case (VArray vs)
    then obtain out1 where len: "length vs \<le> maxContainerLength opts" and w: "writeArgument opts 4 (length vs) out = Inr out1"
      and e: "encodeItems opts (depth + 1) vs out1 = Inr out'"
      using enc by (auto simp: bind_throws_eq_Inr split: if_splits)
    have "length out1 \<le> maxByteLength opts" using w writeArgument_bound by blast
    then have "reads_back opts out1 out' (readItems opts (depth + 1) (length vs)) (strip_list vs)"
      using 1(1) [OF nd VArray _ e] 1(4,5) len VArray by simp
    from header_body_read [OF w len _ this d, where kind = "''array''" and f = VArray and reader = "readItems opts (depth + 1)"] lims
    show ?thesis using VArray by (simp add: read_major_def)
  next
    case (VObject es)
    let ?n = "length (defined_entries es)"
    obtain out1 where len: "?n \<le> maxContainerLength opts" and w: "writeArgument opts 5 ?n out = Inr out1"
      and e: "encodeEntries opts (depth + 1) es out1 = Inr out'"
      using enc VObject by (auto simp: bind_throws_eq_Inr split: if_splits)
    have "length out1 \<le> maxByteLength opts" using w writeArgument_bound by blast
    then have "reads_back opts out1 out' (readEntries opts (depth + 1) ?n []) (strip_entries es)"
      using 1(2) [OF nd VObject _ e, where keys = "[]"] 1(4,5) len VObject by simp
    from header_body_read [OF w len _ this d, where kind = "''map''" and f = VObject and reader = "\<lambda>n. readEntries opts (depth + 1) n []"] lims
    show ?thesis using VObject by (simp add: read_major_def)
  qed (use enc in auto)
next
  case (2 opts depth out)
  then show ?case by (auto intro: reads_backI)
next
  case (3 opts depth v vs out)
  then obtain out1 where v: "v \<noteq> VUndefined" "encodeValue opts depth v out = Inr out1" "encodeItems opts depth vs out1 = Inr out'"
    by (auto simp: bind_throws_eq_Inr split: if_splits)
  have hd: "reads_back opts out out1 (readItem opts depth) (strip v)" using 3 v by simp
  then obtain e1 where e1: "out1 = out @ e1" "length out1 \<le> maxByteLength opts"
    "\<And>rest. readItem opts depth (e1 @ rest) = Inr (strip v, rest)" unfolding reads_back_def by blast
  have "reads_back opts out1 out' (readItems opts depth (length vs)) (strip_list vs)"
    using 3 v e1(2) by simp
  then obtain e2 where e2: "out' = out1 @ e2" "length out' \<le> maxByteLength opts"
    "\<And>rest. readItems opts depth (length vs) (e2 @ rest) = Inr (strip_list vs, rest)" unfolding reads_back_def by blast
  show ?case using e1 e2 by (intro reads_backI [of _ _ "e1 @ e2"]) simp_all
next
  case (4 opts depth out)
  then show ?case by (auto intro: reads_backI simp: defined_entries_def)
next
  case (5 opts depth k v es out)
  show ?case
  proof (cases "v = VUndefined")
    case True
    then show ?thesis using 5 by (simp add: defined_entries_def)
  next
    case False
    from 5 False obtain out1 out2 where s: "encodeText opts k out = Inr out1" "encodeValue opts depth v out1 = Inr out2"
      "encodeEntries opts depth es out2 = Inr out'"
      by (auto simp: bind_throws_eq_Inr)
    have "depth \<le> maxDepth opts" using s(2) by (simp add: encodeValue.simps split: if_splits)
    then have "reads_back opts out out1 (readItem opts depth) (VText k)" using encodeText_reads_back 5 s(1) by blast
    then obtain e1 where e1: "out1 = out @ e1" "length out1 \<le> maxByteLength opts"
      "\<And>rest. readItem opts depth (e1 @ rest) = Inr (VText k, rest)" unfolding reads_back_def by blast
    have "reads_back opts out1 out2 (readItem opts depth) (strip v)" using 5 s False by simp
    then obtain e2 where e2: "out2 = out1 @ e2" "length out2 \<le> maxByteLength opts"
      "\<And>rest. readItem opts depth (e2 @ rest) = Inr (strip v, rest)" unfolding reads_back_def by blast
    have "set (k # keys) \<inter> fst ` set es = {}" using 5 by auto
    then have "reads_back opts out2 out' (readEntries opts depth (length (defined_entries es)) (k # keys)) (strip_entries es)"
      using 5 s e2(2) False by simp
    then obtain e3 where e3: "out' = out2 @ e3" "length out' \<le> maxByteLength opts"
      "\<And>rest. readEntries opts depth (length (defined_entries es)) (k # keys) (e3 @ rest) = Inr (strip_entries es, rest)"
      unfolding reads_back_def by blast
    have "k \<notin> set keys" using 5 by auto
    then show ?thesis using e1 e2 e3 False
      by (intro reads_backI [of _ _ "e1 @ e2 @ e3"]) (simp_all add: defined_entries_def)
  qed
qed

lemma encodeCbor_reads_back: "encodeCbor opts v = Inr bs \<Longrightarrow> options_ok opts \<Longrightarrow> value_ok v \<Longrightarrow>
    decodeCbor opts bs = Inr (strip v) \<and> length bs \<le> maxByteLength opts"
proof -
  assume "encodeCbor opts v = Inr bs" "options_ok opts" "value_ok v"
  then have "reads_back opts [] bs (readItem opts 0) (strip v)"
    using encode_reads_back(1) unfolding encodeCbor_def by blast
  then obtain enc where "bs = enc" "length bs \<le> maxByteLength opts" "\<And>rest. readItem opts 0 (enc @ rest) = Inr (strip v, rest)"
    unfolding reads_back_def by auto
  from this(1,2) this(3) [of "[]"] show ?thesis by (simp add: decodeCbor_def)
qed

section \<open>What the decoder accepts\<close>

text \<open>
  A decoded value within the limits at nesting level \<open>depth\<close>: it has no undefined part, its numbers are finite
  and its integers safe, its lengths and its nesting bounded, and the names in an object distinct.
\<close>

fun within_limits :: "cbor_options \<Rightarrow> nat \<Rightarrow> jsv \<Rightarrow> bool" where
  "within_limits opts depth v \<longleftrightarrow> depth \<le> maxDepth opts \<and>
     (case v of
        VUndefined \<Rightarrow> False
      | VOther _ \<Rightarrow> False
      | VNum n \<Rightarrow> num_canonical n \<and> num_is_finite n \<and> (case n of JInt i \<Rightarrow> is_safe i | JFrac _ \<Rightarrow> True)
      | VBytes bs \<Rightarrow> length bs \<le> maxByteLength opts
      | VArray vs \<Rightarrow> length vs \<le> maxContainerLength opts \<and> (\<forall>x \<in> set vs. within_limits opts (depth + 1) x)
      | VObject es \<Rightarrow> length es \<le> maxContainerLength opts \<and> distinct (map fst es) \<and>
          (\<forall>e \<in> set es. within_limits opts (depth + 1) (snd e))
      | _ \<Rightarrow> True)"

declare within_limits.simps [simp del]

lemma readArgument_safe:
  assumes "readArgument info bs = Inr (n, rest)" and "info < 32"
  shows "is_safe (int n)"
proof -
  have u32: "n \<le> MAX_UINT32" if "readUint32 b = Inr (n, r)" for n b r
    using that u32_value_bound by (auto simp: readUint32_def bind_throws_eq_Inr)
  show ?thesis
  proof (cases "info = 27")
    case True
    then obtain high low r where "readUint32 bs = Inr (high, r)" "readUint32 r = Inr (low, rest)"
      "high \<le> 0x1fffff" "n = high * UINT32_BASE + low"
      using assms(1) by (auto simp: readArgument_def bind_throws_eq_Inr split: if_splits)
    then show ?thesis using u32 [of r low rest] by (simp add: is_safe_def MAX_SAFE_INTEGER_def UINT32_BASE_def MAX_UINT32_def)
  next
    case False
    have "n \<le> MAX_UINT32"
    proof (cases "info = 26")
      case True
      then show ?thesis using assms(1) u32 by (simp add: readArgument_def)
    next
      case other: False
      have b: "unat (x :: byte) \<le> 255" for x using byte_less [of x] by simp
      have "unat (x :: byte) * 256 + unat (y :: byte) \<le> 65535" for x y using b [of x] b [of y] by linarith
      moreover have "unat (x :: byte) \<le> 65535" for x using b [of x] by linarith
      ultimately have "n \<le> 65535" using assms False other
        by (auto simp: readArgument_def readByte_def bind_throws_eq_Inr split: if_splits list.splits)
      then show ?thesis by (simp add: MAX_UINT32_def)
    qed
    then show ?thesis by (simp add: is_safe_def MAX_SAFE_INTEGER_def MAX_UINT32_def)
  qed
qed

lemma num_canonical_bits: "num_of_bits w = n \<Longrightarrow> num_canonical n"
  by (cases n) (auto simp: num_of_bits_def Let_def split: if_splits)

lemma readSimple_within:
  "readSimple info bs = Inr (v, rest) \<Longrightarrow> depth \<le> maxDepth opts \<Longrightarrow> within_limits opts depth v"
  by (auto simp: readSimple_def within_limits.simps bind_throws_eq_Inr Let_def num_canonical_bits
      split: if_splits jsnum.splits simp del: num_canonical.simps num_is_finite.simps)

lemma readLength_bound: "readLength info kind limit bs = Inr (n, rest) \<Longrightarrow> n \<le> limit"
  by (auto simp: readLength_def bind_throws_eq_Inr split: if_splits)

lemma readBytes_length: "readBytes n bs = Inr (b, rest) \<Longrightarrow> length b = n"
  by (auto simp: readBytes_def split: if_splits)

lemma read_within_limits:
  "readItem opts depth bs = Inr (v, rest) \<Longrightarrow> within_limits opts depth v"
  "readItems opts depth n bs = Inr (vs, rest) \<Longrightarrow> length vs = n \<and> (\<forall>x \<in> set vs. within_limits opts depth x)"
  "readEntries opts depth n keys bs = Inr (es, rest) \<Longrightarrow> length es = n \<and> distinct (map fst es) \<and>
     set keys \<inter> fst ` set es = {} \<and> (\<forall>e \<in> set es. within_limits opts depth (snd e))"
proof (induction opts depth bs and opts depth n bs and opts depth n keys bs
    arbitrary: v rest and vs rest and es rest rule: readItem_readItems_readEntries.induct)
  case (1 opts depth bs)
  then obtain initial r where d: "depth \<le> maxDepth opts" and rb: "readByte bs = Inr (initial, r)"
    by (auto simp: readItem.simps [of opts depth bs] bind_throws_eq_Inr split: if_splits)
  then have nd: "\<not> maxDepth opts < depth" by simp
  let ?info = "initial mod 32"
  have info: "?info < 32" by simp
  have item: "read_major opts depth (initial div 32) ?info r = Inr (v, rest)"
    using 1(3) nd rb by (simp only: readItem.simps [of opts depth bs] read_major_def Let_def bind_throws_Inr prod.case if_False)
  consider "initial div 32 = 0" | "initial div 32 = 1" | "initial div 32 = 2" | "initial div 32 = 3"
    | "initial div 32 = 4" | "initial div 32 = 5" | "initial div 32 \<ge> 6" by linarith
  then show ?case
  proof cases
    case 1
    then show ?thesis using item d readArgument_safe [OF _ info]
      by (auto simp: read_major_def bind_throws_eq_Inr within_limits.simps)
  next
    case 2
    then show ?thesis using item d
      by (auto simp: read_major_def bind_throws_eq_Inr within_limits.simps Let_def split: if_splits)
  next
    case 3
    then show ?thesis using item d readLength_bound readBytes_length
      by (fastforce simp: read_major_def bind_throws_eq_Inr within_limits.simps)
  next
    case 4
    then show ?thesis using item d
      by (auto simp: read_major_def bind_throws_eq_Inr within_limits.simps split: option.splits)
  next
    case 5
    with item obtain n r1 vs where *: "readLength ?info ''array'' (maxContainerLength opts) r = Inr (n, r1)"
      "readItems opts (depth + 1) n r1 = Inr (vs, rest)" "v = VArray vs"
      by (auto simp: read_major_def bind_throws_eq_Inr)
    have ne: "initial div 32 \<noteq> 0" "initial div 32 \<noteq> 1" "initial div 32 \<noteq> 2" "initial div 32 \<noteq> 3"
      using 5 by simp_all
    have "length vs = n \<and> (\<forall>x \<in> set vs. within_limits opts (depth + 1) x)"
      by (rule "1.IH"(1) [OF nd refl refl ne(1-4) 5 *(2)])
    then show ?thesis using * d readLength_bound [OF *(1)] by (simp add: within_limits.simps [of opts depth])
  next
    case 6
    with item obtain n r1 es where *: "readLength ?info ''map'' (maxContainerLength opts) r = Inr (n, r1)"
      "readEntries opts (depth + 1) n [] r1 = Inr (es, rest)" "v = VObject es"
      by (auto simp: read_major_def bind_throws_eq_Inr)
    have ne: "initial div 32 \<noteq> 0" "initial div 32 \<noteq> 1" "initial div 32 \<noteq> 2" "initial div 32 \<noteq> 3"
      "initial div 32 \<noteq> 4" using 6 by simp_all
    have "length es = n \<and> distinct (map fst es) \<and> (\<forall>e \<in> set es. within_limits opts (depth + 1) (snd e))"
      using "1.IH"(2) [OF nd refl refl ne 6 *(2)] by simp
    then show ?thesis using * d readLength_bound [OF *(1)] by (simp add: within_limits.simps [of opts depth])
  next
    case 7
    then have "read_major opts depth (initial div 32) ?info r = (if initial div 32 = 6 then Inl ''CBOR tags are not supported'' else readSimple ?info r)"
      by (simp add: read_major_def)
    then have "readSimple ?info r = Inr (v, rest)" using item by (simp split: if_splits)
    then show ?thesis using d by (rule readSimple_within)
  qed
next
  case (2 opts depth bs)
  then show ?case by simp
next
  case (3 opts depth n bs)
  then show ?case by (fastforce simp: bind_throws_eq_Inr)
next
  case (4 opts depth keys bs)
  then show ?case by simp
next
  case (5 opts depth n keys bs)
  from "5.prems" obtain key r where key: "readItem opts depth bs = Inr (key, r)" by (auto simp: bind_throws_eq_Inr)
  then obtain k where k: "key = VText k" using "5.prems" by (cases key) auto
  then obtain v r1 es' where *: "readItem opts depth bs = Inr (VText k, r)" "k \<notin> set keys"
    "readItem opts depth r = Inr (v, r1)" "readEntries opts depth n (k # keys) r1 = Inr (es', rest)" "es = (k, v) # es'"
    using "5.prems" key by (auto simp: bind_throws_eq_Inr split: if_splits)
  have "within_limits opts depth v" using "5.IH"(2) * by fastforce
  moreover have "length es' = n \<and> distinct (map fst es') \<and> set (k # keys) \<inter> fst ` set es' = {} \<and>
      (\<forall>e \<in> set es'. within_limits opts depth (snd e))"
    by (rule "5.IH"(3) [OF refl *(2,4)])
  ultimately show ?case using * by auto
qed

section \<open>Properties\<close>

text \<open>
  C19: CBOR round trip: when the encoder accepts a value, its output is within the byte limit and the decoder,
  with the same options, gives the value back (an object without its undefined entries).
\<close>

theorem cbor_round_trip:
  assumes "resolveOptions byteLength containerLength depth = Inr opts" and "value_ok v" and "encodeCbor opts v = Inr bs"
  shows "decodeCbor opts bs = Inr (strip v) \<and> length bs \<le> maxByteLength opts"
  using encodeCbor_reads_back assms resolveOptions_ok by blast

theorem cbor_round_trip_witness:
  "decodeCbor \<lparr>maxByteLength = 64, maxContainerLength = 1000000, maxDepth = 64\<rparr>
      [0xa1, 0x61, 0x78, 0x82, 0x39, 1, 0xf3, 0xf5] =
      Inr (strip (VObject [([0x78], VArray [VNum (JInt (-500)), VBool True]), ([0x79], VUndefined)])) \<and>
    length [0xa1, 0x61, 0x78, 0x82, 0x39, 1, 0xf3, 0xf5 :: byte] \<le>
      maxByteLength \<lparr>maxByteLength = 64, maxContainerLength = 1000000, maxDepth = 64\<rparr>"
proof (rule cbor_round_trip)
  show "resolveOptions (Some 64) None None = Inr \<lparr>maxByteLength = 64, maxContainerLength = 1000000, maxDepth = 64\<rparr>"
    by (simp add: resolveOptions_def resolveLimit_def Let_def MAX_UINT32_def MAX_CONFIGURED_DEPTH_def
        DEFAULT_MAX_CBOR_CONTAINER_LENGTH_def DEFAULT_MAX_CBOR_DEPTH_def)
  show "value_ok (VObject [([0x78], VArray [VNum (JInt (-500)), VBool True]), ([0x79], VUndefined)])" by simp
  show "encodeCbor \<lparr>maxByteLength = 64, maxContainerLength = 1000000, maxDepth = 64\<rparr>
      (VObject [([0x78], VArray [VNum (JInt (-500)), VBool True]), ([0x79], VUndefined)]) =
      Inr [0xa1, 0x61, 0x78, 0x82, 0x39, 1, 0xf3, 0xf5]"
    by (simp add: encodeCbor_def encodeValue.simps defined_entries_def encodeText_def encodeNumber_def writeArgument_def
        emit_def initial_byte_def utf8_encode_def utf8_bytes_def utf8_decode.simps [of "[0x78]"] utf8_decode.simps [of "[]"] decode_point_def utf16_units_def
        is_safe_def MAX_SAFE_INTEGER_def high_surrogate_def low_surrogate_def Let_def)
qed

text \<open>
  C31: Whatever bytes the decoder accepts, the value respects the configured limits: nesting depth, array, map and
  byte string lengths, finite numbers in normal form with safe integers, distinct names in every object, and no
  undefined or unsupported part.
\<close>

theorem cbor_decoded_within_limits:
  assumes "decodeCbor opts bs = Inr v"
  shows "within_limits opts 0 v"
  using assms read_within_limits(1) [of opts 0 bs] by (auto simp: decodeCbor_def bind_throws_eq_Inr split: if_splits)

theorem cbor_decoded_within_limits_witness:
  "within_limits \<lparr>maxByteLength = 64, maxContainerLength = 10, maxDepth = 2\<rparr> 0 (VArray [VNum (JInt 2)])"
  by (rule cbor_decoded_within_limits [of _ "[0x81, 0x02]"])
     (simp add: decodeCbor_def readItem_Cons read_major_def readLength_def readArgument_def)

end
