(* ===== verification/Stream_Decoder.thy ===== *)
theory Stream_Decoder imports Prelude "HOL-Library.Sublist" begin

text \<open>
  The contract shared by the decoders that are fed a byte stream in chunks (the frame decoder and the message
  decoder of \<open>packages/protocol\<close>): how a stream splits into items is a function of the bytes alone, a push
  delivers the items the bytes so far complete, and a failed decoder stays failed. From these laws the locale
  derives that the cutting of the stream into chunks does not matter.
\<close>

text \<open>
  Feeding chunks until a push throws: the items delivered, the error if one was thrown, and the state.
  \<open>None\<close> would be a push that does not return.
\<close>

fun push_all :: "('s \<Rightarrow> 'c \<Rightarrow> (('e + 'm list) \<times> 's) option) \<Rightarrow> 's \<Rightarrow> 'c list \<Rightarrow> ('m list \<times> 'e option \<times> 's) option" where
  "push_all push s [] = Some ([], None, s)"
| "push_all push s (c # cs) =
     (case push s c of
        None \<Rightarrow> None
      | Some (Inl e, s') \<Rightarrow> Some ([], Some e, s')
      | Some (Inr ms, s') \<Rightarrow> map_option (\<lambda>(ns, e, t). (ms @ ns, e, t)) (push_all push s' cs))"

locale stream_decoder =
  fixes push :: "'s \<Rightarrow> 'b list \<Rightarrow> (('e + 'm list) \<times> 's) option"
    and live :: "'s \<Rightarrow> bool"
    and failed :: "'s \<Rightarrow> bool"
    and buffered :: "'s \<Rightarrow> 'b list"
    and split :: "'b list \<Rightarrow> 'm list \<times> 'b list option"
  assumes split_append: "split (xs @ ys) =
      (case split xs of
         (ms, None) \<Rightarrow> (ms, None)
       | (ms, Some rest) \<Rightarrow> (let (ns, r) = split (rest @ ys) in (ms @ ns, r)))"
    and split_buffered: "live s \<Longrightarrow> split (buffered s) = ([], Some (buffered s))"
    and push_more: "live s \<Longrightarrow> split (buffered s @ c) = (ms, Some rest) \<Longrightarrow>
      \<exists>s'. push s c = Some (Inr ms, s') \<and> live s' \<and> buffered s' = rest"
    and push_error: "live s \<Longrightarrow> split (buffered s @ c) = (ms, None) \<Longrightarrow>
      \<exists>e s'. push s c = Some (Inl e, s') \<and> failed s'"
    and push_failed: "failed s \<Longrightarrow> \<exists>e. push s c = Some (Inl e, s)"
begin

lemma push_all_more:
  assumes "live s" and "split (buffered s @ concat cs) = (ms, Some rest)"
  shows "\<exists>s'. push_all push s cs = Some (ms, None, s') \<and> live s' \<and> buffered s' = rest"
  using assms
proof (induction cs arbitrary: s ms)
  case Nil
  then show ?case using split_buffered by simp
next
  case (Cons c cs)
  have whole: "split ((buffered s @ c) @ concat cs) = (ms, Some rest)" using Cons.prems(2) by simp
  then obtain ms1 r1 ms2 where first: "split (buffered s @ c) = (ms1, Some r1)"
    and second: "split (r1 @ concat cs) = (ms2, Some rest)" and ms: "ms = ms1 @ ms2"
    unfolding split_append [of "buffered s @ c"] by (auto split: prod.splits option.splits)
  obtain s1 where s1: "push s c = Some (Inr ms1, s1)" "live s1" "buffered s1 = r1"
    using push_more [OF Cons.prems(1) first] by blast
  from Cons.IH [OF s1(2), of ms2] second s1(3) obtain s2 where
    "push_all push s1 cs = Some (ms2, None, s2)" "live s2" "buffered s2 = rest" by auto
  then show ?case using s1(1) ms by simp
qed

text \<open>What a failing stream delivers before the error depends on its chunks, but never leaves the reference.\<close>

lemma push_all_error:
  assumes "live s" and "split (buffered s @ concat cs) = (ms, None)"
  shows "\<exists>ds e s'. push_all push s cs = Some (ds, Some e, s') \<and> failed s' \<and> prefix ds ms"
  using assms
proof (induction cs arbitrary: s ms)
  case Nil
  then show ?case using split_buffered [OF Nil.prems(1)] by simp
next
  case (Cons c cs)
  have whole: "split ((buffered s @ c) @ concat cs) = (ms, None)" using Cons.prems(2) by simp
  show ?case
  proof (cases "split (buffered s @ c)")
    case (Pair ms1 r)
    show ?thesis
    proof (cases r)
      case None
      then show ?thesis using push_error [OF Cons.prems(1), of c ms1] Pair by fastforce
    next
      case (Some r1)
      then obtain ms2 where second: "split (r1 @ concat cs) = (ms2, None)" and ms: "ms = ms1 @ ms2"
        using whole Pair unfolding split_append [of "buffered s @ c"] by (auto split: prod.splits)
      obtain s1 where s1: "push s c = Some (Inr ms1, s1)" "live s1" "buffered s1 = r1"
        using push_more [OF Cons.prems(1)] Pair Some by blast
      from Cons.IH [OF s1(2), of ms2] second s1(3) obtain ds e s2 where
        "push_all push s1 cs = Some (ds, Some e, s2)" "failed s2" "prefix ds ms2" by auto
      then show ?thesis using s1(1) ms by auto
    qed
  qed
qed

text \<open>So a decoder always returns, and two ways of cutting a stream agree on a stream without errors.\<close>

lemma push_all_returns: "live s \<Longrightarrow> push_all push s cs \<noteq> None"
  using push_all_more [of s cs] push_all_error [of s cs]
  by (cases "split (buffered s @ concat cs)"; cases "snd (split (buffered s @ concat cs))") force+

lemma push_all_chunks_irrelevant:
  assumes "live s" and "concat cs = concat ds" and "push_all push s cs = Some (ms, None, s')"
  shows "\<exists>t. push_all push s ds = Some (ms, None, t) \<and> buffered t = buffered s'"
proof -
  obtain ns r where sp: "split (buffered s @ concat cs) = (ns, r)" by fastforce
  show ?thesis
  proof (cases r)
    case None
    then show ?thesis using push_all_error [OF assms(1)] sp assms(3) by fastforce
  next
    case (Some rest)
    then have "ms = ns" "buffered s' = rest"
      using push_all_more [OF assms(1)] sp assms(3) by fastforce+
    moreover obtain t where "push_all push s ds = Some (ns, None, t)" "buffered t = rest"
      using push_all_more [OF assms(1), of ds ns rest] sp Some assms(2) by auto
    ultimately show ?thesis by blast
  qed
qed

lemma failed_stays_failed: "failed s \<Longrightarrow> cs \<noteq> [] \<Longrightarrow> \<exists>e. push_all push s cs = Some ([], Some e, s)"
  using push_failed [of s "hd cs"] by (cases cs) auto

end

end
