(* ===== verification/Frame_Stream.thy ===== *)
theory Frame_Stream imports Framing Stream_Decoder begin

text \<open>
  The frame decoder as a stream decoder: its interpretation of the contract, and the properties of
  \<open>encodeFrame\<close> and \<open>FrameDecoder\<close> that follow.
\<close>

definition frame_split :: "nat \<Rightarrow> byte list \<Rightarrow> byte list list \<times> byte list option" where
  "frame_split limit bs =
     (case split_frames limit bs of (fs, Inl n) \<Rightarrow> (fs, None) | (fs, Inr rest) \<Rightarrow> (fs, Some rest))"

definition frames_live :: "nat \<Rightarrow> frame_decoder \<Rightarrow> bool" where
  "frames_live limit s \<longleftrightarrow> decoder_ok s \<and> maxFrameLength s = limit"

lemma frame_split_append: "frame_split limit (xs @ ys) =
   (case frame_split limit xs of
      (ms, None) \<Rightarrow> (ms, None)
    | (ms, Some rest) \<Rightarrow> (let (ns, r) = frame_split limit (rest @ ys) in (ms @ ns, r)))"
  by (auto simp: frame_split_def split_frames_append [of limit xs ys] split: prod.splits sum.splits)

lemma frame_split_pending:
  assumes "frames_live limit s"
  shows "frame_split limit (pending s) = ([], Some (pending s))"
proof (cases "expectedPayloadLength s")
  case None
  then show ?thesis using assms by (simp add: frames_live_def decoder_ok_def pending_def frame_split_def split_frames_short)
next
  case (Some n)
  then have "split_frames limit (u32_bytes n @ payload_of s) = ([], Inr (u32_bytes n @ payload_of s))"
    using assms by (intro split_frames_partial) (auto simp: frames_live_def decoder_ok_def blocks_ok_def)
  then show ?thesis using Some by (simp add: pending_def frame_split_def)
qed

lemma push_frames_live: "frames_live limit s \<Longrightarrow> push_frames s c = push_loop c [] s"
  by (simp add: frames_live_def decoder_ok_def push_frames_def)

interpretation frames: stream_decoder push_frames "frames_live limit" "\<lambda>s. state s = Failed" pending "frame_split limit"
  for limit
proof (unfold_locales, goal_cases)
  case (1 xs ys)
  show ?case by (rule frame_split_append)
next
  case (2 s)
  then show ?case by (rule frame_split_pending)
next
  case (3 s c ms rest)
  with push_loop_spec [of s c "[]"] show ?case
    by (auto simp: frames_live_def push_frames_live [OF 3(1)] frame_split_def split: prod.splits sum.splits)
next
  case (4 s c ms)
  with push_loop_spec [of s c "[]"] show ?case
    by (auto simp: frames_live_def push_frames_live [OF 4(1)] frame_split_def split: prod.splits sum.splits)
next
  case (5 s c)
  then show ?case by (simp add: push_frames_def)
qed

lemma newFrameDecoder_live:
  assumes "newFrameDecoder opt = Inr s"
  shows "frames_live (maxFrameLength s) s" "pending s = []"
  using assms
  by (auto simp: newFrameDecoder_def bind_throws_eq_Inr resolveMaxFrameLength_def Let_def frames_live_def
      decoder_ok_def pending_def split: if_splits)

lemma split_encoded:
  assumes "list_all2 (\<lambda>p b. encodeFrame p = Inr b) ps bs" and "\<forall>p \<in> set ps. length p \<le> limit" and "limit \<le> MAX_UINT32"
  shows "frame_split limit (concat bs) = (ps, Some [])"
  using assms
proof (induction rule: list_all2_induct)
  case Nil
  then show ?case by (simp add: frame_split_def split_frames_short)
next
  case (Cons p ps b bs)
  then have b: "b = u32_bytes (length p) @ p" by (simp add: encodeFrame_def split: if_splits)
  have "split_frames limit (u32_bytes (length p) @ p @ concat bs) =
      (let (fs, r) = split_frames limit (concat bs) in (p # fs, r))"
    using Cons by (intro split_frames_frame) auto
  then show ?case using Cons b by (auto simp: frame_split_def split: prod.splits sum.splits)
qed

lemma end_frames_idle:
  assumes "decoder_ok t" and "pending t = []"
  shows "fst (end_frames t) = Inr ()"
proof -
  have "u32_bytes n \<noteq> []" for n by (simp add: u32_bytes_def)
  then have "expectedPayloadLength t = None \<and> header t = [] \<and> state t = Open"
    using assms by (auto simp: decoder_ok_def pending_def split: option.splits)
  then show ?thesis by (simp add: end_frames_def)
qed

section \<open>Properties\<close>

text \<open>
  C30: Whatever the chunks, a frame decoder refines the splitting of the complete stream: pushing chunks always
  returns, and either delivers exactly the frames of the concatenated stream and buffers exactly its incomplete
  tail, or (when the stream has a frame above the limit) ends failed, having delivered a prefix of the frames before it.
\<close>

theorem frame_decoder_refines_split:
  assumes "newFrameDecoder opt = Inr s"
  shows "case split_frames (maxFrameLength s) (concat chunks) of
      (fs, Inr rest) \<Rightarrow> \<exists>t. push_all push_frames s chunks = Some (fs, None, t) \<and> decoder_ok t \<and> pending t = rest
    | (fs, Inl n) \<Rightarrow> \<exists>ds e t. push_all push_frames s chunks = Some (ds, Some e, t) \<and> state t = Failed \<and> prefix ds fs"
  using frames.push_all_more [OF newFrameDecoder_live(1) [OF assms], of chunks]
    frames.push_all_error [OF newFrameDecoder_live(1) [OF assms], of chunks]
    newFrameDecoder_live(2) [OF assms]
  by (auto simp: frame_split_def frames_live_def split: prod.splits sum.splits)

theorem frame_decoder_refines_split_witness:
  "case split_frames 8 (concat [[0, 0], [0, 1, 7]]) of
      (fs, Inr rest) \<Rightarrow> \<exists>t. push_all push_frames
         \<lparr>maxFrameLength = 8, header = [], payloadBlocks = [], expectedPayloadLength = None, payloadLength = 0, state = Open\<rparr>
         [[0, 0], [0, 1, 7]] = Some (fs, None, t) \<and> decoder_ok t \<and> pending t = rest
    | (fs, Inl n) \<Rightarrow> \<exists>ds e t. push_all push_frames
         \<lparr>maxFrameLength = 8, header = [], payloadBlocks = [], expectedPayloadLength = None, payloadLength = 0, state = Open\<rparr>
         [[0, 0], [0, 1, 7]] = Some (ds, Some e, t) \<and> state t = Failed \<and> prefix ds fs"
  using frame_decoder_refines_split [of "Some 8"
      "\<lparr>maxFrameLength = 8, header = [], payloadBlocks = [], expectedPayloadLength = None, payloadLength = 0, state = Open\<rparr>"
      "[[0, 0], [0, 1, 7]]"]
  by (simp add: newFrameDecoder_def resolveMaxFrameLength_def MAX_UINT32_def del: push_all.simps concat.simps)

text \<open>
  Frames encoded from payloads within the limit, sent as one byte stream and received in any chunks, are
  delivered as exactly those payloads, and the decoder then ends without error.
\<close>

theorem frames_round_trip:
  assumes "newFrameDecoder opt = Inr s" and "list_all2 (\<lambda>p b. encodeFrame p = Inr b) payloads encoded"
    and "\<forall>p \<in> set payloads. length p \<le> maxFrameLength s" and "concat chunks = concat encoded"
  shows "\<exists>t. push_all push_frames s chunks = Some (payloads, None, t) \<and> fst (end_frames t) = Inr ()"
proof -
  have "maxFrameLength s \<le> MAX_UINT32" using newFrameDecoder_live(1) [OF assms(1)] by (simp add: frames_live_def decoder_ok_def)
  then have "frame_split (maxFrameLength s) (pending s @ concat chunks) = (payloads, Some [])"
    using split_encoded [OF assms(2,3)] assms(4) newFrameDecoder_live(2) [OF assms(1)] by simp
  from frames.push_all_more [OF newFrameDecoder_live(1) [OF assms(1)] this] obtain t where
    t: "push_all push_frames s chunks = Some (payloads, None, t)" "decoder_ok t" "pending t = []"
    by (auto simp: frames_live_def)
  then show ?thesis using end_frames_idle by blast
qed

theorem frames_round_trip_witness:
  "\<exists>t. push_all push_frames
      \<lparr>maxFrameLength = 8, header = [], payloadBlocks = [], expectedPayloadLength = None, payloadLength = 0, state = Open\<rparr>
      [[0, 0, 0], [2, 5, 6, 0, 0, 0], [0]] = Some ([[5, 6], []], None, t) \<and> fst (end_frames t) = Inr ()"
  by (rule frames_round_trip [of "Some 8" _ _ "[[0, 0, 0, 2, 5, 6], [0, 0, 0, 0]]"])
     (simp_all add: newFrameDecoder_def resolveMaxFrameLength_def MAX_UINT32_def encodeFrame_def u32_bytes_def)

text \<open>
  While a decoder has not failed it never holds more than its limit: the blocks allocated for a frame add up
  to at most the maximum frame length, whatever length a header announced so far, each is at most 64 KiB and full
  but for the last one, and fewer than four header bytes are kept.
\<close>

theorem frame_decoder_memory_bounded:
  assumes "newFrameDecoder opt = Inr s" and "push_all push_frames s chunks = Some (fs, None, t)"
  shows "sum_list (map capacity (payloadBlocks t)) \<le> maxFrameLength s \<and> length (header t) < 4 \<and>
    (\<forall>b \<in> set (payloadBlocks t). capacity b \<le> PAYLOAD_BLOCK_SIZE) \<and>
    (\<forall>b \<in> set (butlast (payloadBlocks t)). length (filled b) = capacity b)"
proof -
  obtain ms r where sp: "frame_split (maxFrameLength s) (pending s @ concat chunks) = (ms, r)" by fastforce
  have "frames_live (maxFrameLength s) t"
  proof (cases r)
    case None
    then show ?thesis
      using frames.push_all_error [OF newFrameDecoder_live(1) [OF assms(1)], of chunks ms] sp assms(2) by auto
  next
    case (Some rest)
    then show ?thesis
      using frames.push_all_more [OF newFrameDecoder_live(1) [OF assms(1)], of chunks ms] sp assms(2) by auto
  qed
  then show ?thesis
    by (cases "expectedPayloadLength t") (auto simp: frames_live_def decoder_ok_def blocks_ok_def)
qed

theorem frame_decoder_memory_bounded_witness:
  "\<exists>t. push_all push_frames
      \<lparr>maxFrameLength = 8, header = [], payloadBlocks = [], expectedPayloadLength = None, payloadLength = 0, state = Open\<rparr>
      [[0, 0], [0, 5, 9]] = Some ([], None, t) \<and> sum_list (map capacity (payloadBlocks t)) \<le> 8"
proof -
  let ?s = "\<lparr>maxFrameLength = 8, header = [], payloadBlocks = [], expectedPayloadLength = None, payloadLength = 0, state = Open\<rparr>"
  have new: "newFrameDecoder (Some 8) = Inr ?s"
    by (simp add: newFrameDecoder_def resolveMaxFrameLength_def MAX_UINT32_def)
  have "frame_split 8 (pending ?s @ concat [[0, 0], [0, 5, 9]]) = ([], Some [0, 0, 0, 5, 9])"
    by (simp add: frame_split_def pending_def split_frames.simps u32_value_def)
  with frames.push_all_more [of 8 ?s "[[0, 0], [0, 5, 9]]"] newFrameDecoder_live(1) [OF new]
  obtain t where "push_all push_frames ?s [[0, 0], [0, 5, 9]] = Some ([], None, t)" by auto
  with frame_decoder_memory_bounded [OF new this] show ?thesis by auto
qed

end
