(* ===== verification/Codec.thy ===== *)
theory Codec imports Cbor_Roundtrip Frame_Stream begin

text \<open>
  The message codec of the protocol (\<open>packages/protocol/src/codec.ts\<close>), over the CBOR and framing layers, and
  \<open>isJsonValue\<close> (\<open>packages/chord/src/json.ts\<close>), which every message must satisfy. The check of a message
  against its TypeBox schema is the argument \<open>matches\<close>.
\<close>

section \<open>JSON values\<close>

text \<open>On values without cycles; a property is an enumerable data property and every key is a string.\<close>

fun json_check :: "nat \<Rightarrow> jsv \<Rightarrow> bool" where
  "json_check depth v \<longleftrightarrow> depth \<le> 512 \<and>
     (case v of
        VNull \<Rightarrow> True
      | VText _ \<Rightarrow> True
      | VBool _ \<Rightarrow> True
      | VNum n \<Rightarrow> num_is_finite n
      | VArray vs \<Rightarrow> (\<forall>x \<in> set vs. json_check (depth + 1) x)
      | VObject es \<Rightarrow> (\<forall>e \<in> set es. json_check (depth + 1) (snd e))
      | _ \<Rightarrow> False)"

definition isJsonValue :: "jsv \<Rightarrow> bool" where
  "isJsonValue v = json_check 0 v"

declare json_check.simps [simp del]

lemma json_check_defined: "json_check d v \<Longrightarrow> v \<noteq> VUndefined"
  by (auto simp: json_check.simps)

text \<open>So the codec transports a JSON value unchanged.\<close>

lemma strip_json:
  "json_check d v \<Longrightarrow> strip v = v"
  "(\<forall>x \<in> set vs. json_check d x) \<Longrightarrow> strip_list vs = vs"
  "(\<forall>e \<in> set es. json_check d (snd e)) \<Longrightarrow> strip_entries es = es"
proof (induction v and vs and es arbitrary: d and d and d rule: strip_strip_list_strip_entries.induct)
  case (1 vs)
  then show ?case by (auto simp: json_check.simps [of d])
next
  case (2 es)
  then show ?case by (auto simp: json_check.simps [of d])
qed (auto dest: json_check_defined)

section \<open>Messages\<close>

text \<open>Every error the codec handles is an \<open>Error\<close>; those of its own class pass through the handlers.\<close>

datatype thrown = ProtocolValidationError string | OtherError string

definition parse_message :: "string \<Rightarrow> (jsv \<Rightarrow> bool) \<Rightarrow> jsv \<Rightarrow> thrown + jsv" where
  "parse_message kind matches v =
     (if \<not> matches v \<or> \<not> isJsonValue v
      then Inl (ProtocolValidationError (''Invalid '' @ kind @ '' protocol message'')) else Inr v)"

definition boundedErrorMessage :: "string \<Rightarrow> string" where
  "boundedErrorMessage m = (if length m \<le> 500 then m else slice_list 0 497 m @ ''...'')"

text \<open>The handler of both methods: what is thrown instead of a caught error.\<close>

definition rethrow :: "string \<Rightarrow> thrown \<Rightarrow> thrown" where
  "rethrow what e =
     (case e of ProtocolValidationError m \<Rightarrow> e
      | OtherError m \<Rightarrow> ProtocolValidationError (what @ boundedErrorMessage m))"

definition other_error :: "'a throws \<Rightarrow> thrown + 'a" where
  "other_error r = (case r of Inl e \<Rightarrow> Inl (OtherError e) | Inr v \<Rightarrow> Inr v)"

definition frame_limit :: "int option \<Rightarrow> int" where
  "frame_limit opt = (case opt of Some v \<Rightarrow> v | None \<Rightarrow> int DEFAULT_MAX_FRAME_LENGTH)"

definition encodeProtocolMessage ::
  "string \<Rightarrow> (jsv \<Rightarrow> bool) \<Rightarrow> int option \<Rightarrow> jsv \<Rightarrow> thrown + byte list" where
  "encodeProtocolMessage kind matches opt v =
     bind_throws (parse_message kind matches v) (\<lambda>validated.
       case bind_throws (resolveOptions (Some (frame_limit opt)) None None) (\<lambda>opts.
            bind_throws (encodeCbor opts validated) encodeFrame) of
         Inl e \<Rightarrow> Inl (rethrow (''Unable to encode '' @ kind @ '' protocol message: '') (OtherError e))
       | Inr bs \<Rightarrow> Inr bs)"

section \<open>The message decoder\<close>

record message_decoder =
  decoder_failed :: bool
  decoder_frames :: frame_decoder
  decoder_kind :: string
  decoder_limit :: int

definition newMessageDecoder :: "string \<Rightarrow> int option \<Rightarrow> message_decoder throws" where
  "newMessageDecoder kind opt = bind_throws (newFrameDecoder opt) (\<lambda>frames.
     Inr \<lparr>decoder_failed = False, decoder_frames = frames, decoder_kind = kind, decoder_limit = frame_limit opt\<rparr>)"

definition decode_frame :: "string \<Rightarrow> (jsv \<Rightarrow> bool) \<Rightarrow> int \<Rightarrow> byte list \<Rightarrow> thrown + jsv" where
  "decode_frame kind matches limit frame =
     bind_throws (other_error (bind_throws (resolveOptions (Some limit) None None) (\<lambda>opts. decodeCbor opts frame)))
       (parse_message kind matches)"

fun decode_frames :: "(byte list \<Rightarrow> thrown + jsv) \<Rightarrow> byte list list \<Rightarrow> jsv list \<Rightarrow> thrown + jsv list" where
  "decode_frames dec [] messages = Inr messages"
| "decode_frames dec (f # fs) messages = bind_throws (dec f) (\<lambda>m. decode_frames dec fs (messages @ [m]))"

definition decoder_has_failed :: "message_decoder \<Rightarrow> thrown" where
  "decoder_has_failed s = ProtocolValidationError (decoder_kind s @ '' message decoder has failed'')"

definition push_messages ::
  "(jsv \<Rightarrow> bool) \<Rightarrow> message_decoder \<Rightarrow> byte list \<Rightarrow> ((thrown + jsv list) \<times> message_decoder) option" where
  "push_messages matches s chunk =
     (if decoder_failed s then Some (Inl (decoder_has_failed s), s)
      else case push_frames (decoder_frames s) chunk of
          None \<Rightarrow> None
        | Some (r, frames) \<Rightarrow>
            (let s1 = s\<lparr>decoder_frames := frames\<rparr> in
             case bind_throws (other_error r)
                 (\<lambda>fs. decode_frames (decode_frame (decoder_kind s) matches (decoder_limit s)) fs []) of
               Inl e \<Rightarrow> Some (Inl (rethrow (''Invalid '' @ decoder_kind s @ '' protocol frame: '') e), s1\<lparr>decoder_failed := True\<rparr>)
             | Inr messages \<Rightarrow> Some (Inr messages, s1)))"

definition end_messages :: "message_decoder \<Rightarrow> (thrown + unit) \<times> message_decoder" where
  "end_messages s =
     (if decoder_failed s then (Inl (decoder_has_failed s), s)
      else (let (r, frames) = end_frames (decoder_frames s); s1 = s\<lparr>decoder_frames := frames\<rparr> in
        case r of
          Inl e \<Rightarrow> (Inl (rethrow (''Invalid '' @ decoder_kind s @ '' protocol framing: '') (OtherError e)), s1\<lparr>decoder_failed := True\<rparr>)
        | Inr u \<Rightarrow> (Inr u, s1)))"

definition PROTOCOL_VERSION :: int where "PROTOCOL_VERSION = 8"

definition isSupportedProtocolVersion :: "jsnum \<Rightarrow> bool" where
  "isSupportedProtocolVersion version = (case version of JInt n \<Rightarrow> n = PROTOCOL_VERSION | JFrac _ \<Rightarrow> False)"

section \<open>The message decoder as a stream decoder\<close>

text \<open>The messages of the frames before the first one that does not decode, and whether all do.\<close>

fun decodable :: "(byte list \<Rightarrow> thrown + jsv) \<Rightarrow> byte list list \<Rightarrow> jsv list \<times> bool" where
  "decodable dec [] = ([], True)"
| "decodable dec (f # fs) =
     (case dec f of Inl _ \<Rightarrow> ([], False) | Inr m \<Rightarrow> (let (ms, good) = decodable dec fs in (m # ms, good)))"

lemma decodable_append: "decodable dec (fs @ gs) =
  (case decodable dec fs of (ms, False) \<Rightarrow> (ms, False) | (ms, True) \<Rightarrow> (let (ns, good) = decodable dec gs in (ms @ ns, good)))"
  by (induction fs) (auto split: sum.splits prod.splits bool.splits)

lemma decode_frames_decodable:
  "decode_frames dec fs acc = Inr ms \<longleftrightarrow> (\<exists>ns. decodable dec fs = (ns, True) \<and> ms = acc @ ns)"
  by (induction fs arbitrary: acc) (auto simp: bind_throws_def split: sum.splits prod.splits)

definition message_split :: "(byte list \<Rightarrow> thrown + jsv) \<Rightarrow> nat \<Rightarrow> byte list \<Rightarrow> jsv list \<times> byte list option" where
  "message_split dec limit bs =
     (case frame_split limit bs of (fs, r) \<Rightarrow>
       (case decodable dec fs of (ms, True) \<Rightarrow> (ms, r) | (ms, False) \<Rightarrow> (ms, None)))"

definition messages_live :: "string \<Rightarrow> nat \<Rightarrow> message_decoder \<Rightarrow> bool" where
  "messages_live kind limit s \<longleftrightarrow> \<not> decoder_failed s \<and> frames_live limit (decoder_frames s) \<and> decoder_kind s = kind \<and>
     decoder_limit s = int limit"

lemma push_messages_more:
  assumes "messages_live kind limit s"
    and "message_split (decode_frame kind matches (int limit)) limit (pending (decoder_frames s) @ c) = (ms, Some rest)"
  shows "\<exists>t. push_messages matches s c = Some (Inr ms, t) \<and> messages_live kind limit t \<and> pending (decoder_frames t) = rest"
proof -
  let ?dec = "decode_frame kind matches (int limit)"
  obtain fs where fs: "frame_split limit (pending (decoder_frames s) @ c) = (fs, Some rest)" "decodable ?dec fs = (ms, True)"
    using assms(2) by (auto simp: message_split_def split: prod.splits bool.splits)
  have live: "frames_live limit (decoder_frames s)" using assms(1) by (simp add: messages_live_def)
  obtain f where f: "push_frames (decoder_frames s) c = Some (Inr fs, f)" "frames_live limit f" "pending f = rest"
    using frames.push_more [OF live fs(1)] by blast
  have "decode_frames ?dec fs [] = Inr ms" using fs(2) by (simp add: decode_frames_decodable)
  then show ?thesis using assms(1) f by (simp add: push_messages_def messages_live_def other_error_def)
qed

lemma push_messages_error:
  assumes "messages_live kind limit s"
    and "message_split (decode_frame kind matches (int limit)) limit (pending (decoder_frames s) @ c) = (ms, None)"
  shows "\<exists>e t. push_messages matches s c = Some (Inl e, t) \<and> decoder_failed t"
proof -
  let ?dec = "decode_frame kind matches (int limit)"
  have live: "frames_live limit (decoder_frames s)" using assms(1) by (simp add: messages_live_def)
  obtain fs r where fs: "frame_split limit (pending (decoder_frames s) @ c) = (fs, r)" by fastforce
  show ?thesis
  proof (cases r)
    case None
    then obtain e f where "push_frames (decoder_frames s) c = Some (Inl e, f)" using frames.push_error [OF live] fs by blast
    then show ?thesis using assms(1) by (simp add: push_messages_def messages_live_def other_error_def)
  next
    case (Some rest)
    then obtain f where f: "push_frames (decoder_frames s) c = Some (Inr fs, f)" using frames.push_more [OF live] fs by blast
    have "\<not> (\<exists>ns. decode_frames ?dec fs [] = Inr ns)"
      using assms(2) fs Some by (auto simp: message_split_def decode_frames_decodable split: prod.splits bool.splits)
    then obtain e where "decode_frames ?dec fs [] = Inl e" by (cases "decode_frames ?dec fs []") auto
    then show ?thesis using assms(1) f by (simp add: push_messages_def messages_live_def other_error_def)
  qed
qed

interpretation messages: stream_decoder "push_messages matches" "messages_live kind limit" decoder_failed
    "\<lambda>s. pending (decoder_frames s)" "message_split (decode_frame kind matches (int limit)) limit"
  for matches kind limit
proof (unfold_locales, goal_cases)
  case (1 xs ys)
  show ?case
    by (auto simp: message_split_def frame_split_append [of limit xs ys] decodable_append split: prod.splits bool.splits option.splits)
next
  case (2 s)
  then show ?case by (simp add: message_split_def messages_live_def frame_split_pending)
next
  case (3 s c ms rest)
  then show ?case by (rule push_messages_more)
next
  case (4 s c ms)
  then show ?case by (rule push_messages_error)
next
  case (5 s c)
  then show ?case by (simp add: push_messages_def)
qed

section \<open>Properties\<close>

lemma newMessageDecoder_live:
  assumes "newMessageDecoder kind opt = Inr s"
  obtains limit where "frame_limit opt = int limit" "limit \<le> MAX_UINT32" "messages_live kind limit s"
    "pending (decoder_frames s) = []"
proof -
  obtain f where f: "newFrameDecoder opt = Inr f" and s: "s = \<lparr>decoder_failed = False, decoder_frames = f, decoder_kind = kind,
      decoder_limit = frame_limit opt\<rparr>"
    using assms by (auto simp: newMessageDecoder_def bind_throws_eq_Inr)
  have live: "frames_live (maxFrameLength f) f" "pending f = []" by (rule newFrameDecoder_live [OF f])+
  have "frame_limit opt = int (maxFrameLength f)"
    using f by (auto simp: newFrameDecoder_def bind_throws_eq_Inr resolveMaxFrameLength_def frame_limit_def Let_def split: if_splits)
  moreover have "maxFrameLength f \<le> MAX_UINT32" using live(1) by (simp add: frames_live_def decoder_ok_def)
  moreover have "messages_live kind (maxFrameLength f) s" using calculation(1) live s by (simp add: messages_live_def)
  ultimately show thesis using that live s by auto
qed

lemma parse_message_Inr: "parse_message kind matches v = Inr m \<longleftrightarrow> m = v \<and> matches v \<and> isJsonValue v"
  by (auto simp: parse_message_def)

lemma encoded_message:
  assumes "encodeProtocolMessage kind matches opt m = Inr b" and "value_ok m" and "frame_limit opt = int limit"
  shows "\<exists>p. encodeFrame p = Inr b \<and> length p \<le> limit \<and> decode_frame kind matches (int limit) p = Inr m"
proof -
  obtain opts p where parse: "matches m" "isJsonValue m" and opts: "resolveOptions (Some (int limit)) None None = Inr opts"
    and p: "encodeCbor opts m = Inr p" "encodeFrame p = Inr b"
    using assms(1,3)
    by (auto simp: encodeProtocolMessage_def bind_throws_eq_Inr parse_message_Inr split: sum.splits)
  have "maxByteLength opts = limit"
    using opts by (auto simp: resolveOptions_def resolveLimit_def Let_def bind_throws_eq_Inr split: if_splits)
  moreover have "decodeCbor opts p = Inr (strip m) \<and> length p \<le> maxByteLength opts"
    using encodeCbor_reads_back [OF p(1) resolveOptions_ok [OF opts] assms(2)] .
  moreover have "strip m = m" using parse(2) strip_json(1) by (simp add: isJsonValue_def)
  ultimately show ?thesis using p(2) opts parse
    by (intro exI [of _ p]) (simp add: decode_frame_def other_error_def parse_message_Inr)
qed

lemma split_encoded_messages:
  assumes "list_all2 (\<lambda>m b. encodeProtocolMessage kind matches opt m = Inr b) ms bs" and "\<forall>m \<in> set ms. value_ok m"
    and "frame_limit opt = int limit" and "limit \<le> MAX_UINT32"
  shows "message_split (decode_frame kind matches (int limit)) limit (concat bs) = (ms, Some [])"
proof -
  have "\<exists>ps. list_all2 (\<lambda>p b. encodeFrame p = Inr b) ps bs \<and> (\<forall>p \<in> set ps. length p \<le> limit) \<and>
      decodable (decode_frame kind matches (int limit)) ps = (ms, True)"
    using assms(1,2)
  proof (induction rule: list_all2_induct)
    case (Cons m ms b bs)
    from encoded_message [OF Cons.hyps(1) _ assms(3)] Cons.prems obtain p where
      p: "encodeFrame p = Inr b" "length p \<le> limit" "decode_frame kind matches (int limit) p = Inr m" by auto
    from Cons obtain ps where "list_all2 (\<lambda>p b. encodeFrame p = Inr b) ps bs" "\<forall>p \<in> set ps. length p \<le> limit"
      "decodable (decode_frame kind matches (int limit)) ps = (ms, True)" by auto
    with p show ?case by (intro exI [of _ "p # ps"]) simp
  qed simp
  then show ?thesis using split_encoded assms(4) by (fastforce simp: message_split_def)
qed

text \<open>
  C21: Messages the encoder accepts arrive: their encodings, concatenated and cut into any chunks, make the decoder
  of the same kind and limit deliver exactly those messages, and the stream then ends without error.
\<close>

theorem message_stream_round_trip:
  assumes "newMessageDecoder kind opt = Inr s"
    and "list_all2 (\<lambda>m b. encodeProtocolMessage kind matches opt m = Inr b) messages encoded"
    and "\<forall>m \<in> set messages. value_ok m" and "concat chunks = concat encoded"
  shows "\<exists>t. push_all (push_messages matches) s chunks = Some (messages, None, t) \<and> fst (end_messages t) = Inr ()"
proof -
  from newMessageDecoder_live [OF assms(1)] obtain limit where limit: "frame_limit opt = int limit" "limit \<le> MAX_UINT32"
    and live: "messages_live kind limit s" "pending (decoder_frames s) = []" by blast
  have "message_split (decode_frame kind matches (int limit)) limit (pending (decoder_frames s) @ concat chunks) =
      (messages, Some [])"
    using split_encoded_messages [OF assms(2,3) limit] live(2) assms(4) by simp
  from messages.push_all_more [OF live(1) this] obtain t where
    t: "push_all (push_messages matches) s chunks = Some (messages, None, t)" "messages_live kind limit t"
      "pending (decoder_frames t) = []" by blast
  have "fst (end_frames (decoder_frames t)) = Inr ()"
    using t(2,3) by (intro end_frames_idle) (auto simp: messages_live_def frames_live_def)
  then show ?thesis using t
    by (cases "end_frames (decoder_frames t)") (auto simp: end_messages_def messages_live_def)
qed

text \<open>
  The message decoder fails closed: the error a push throws is always of the codec's own class, and after it
  every later push and the end of the stream throw the same "has failed" error and deliver nothing.
\<close>

theorem message_decoder_fail_stop:
  assumes "push_messages matches s chunk = Some (Inl e, t)"
  shows "(\<exists>m. e = ProtocolValidationError m) \<and> end_messages t = (Inl (decoder_has_failed t), t) \<and>
    push_messages matches t later = Some (Inl (decoder_has_failed t), t)"
  using assms
  by (auto simp: push_messages_def end_messages_def decoder_has_failed_def rethrow_def Let_def
      split: if_splits option.splits prod.splits sum.splits thrown.splits)

lemma decoded_messages_valid:
  assumes "decode_frames (decode_frame kind matches limit) fs acc = Inr ms"
    and "\<forall>m \<in> set acc. matches m \<and> isJsonValue m"
  shows "\<forall>m \<in> set ms. matches m \<and> isJsonValue m"
  using assms
proof (induction fs arbitrary: acc)
  case (Cons f fs)
  then obtain m where m: "decode_frame kind matches limit f = Inr m"
    "decode_frames (decode_frame kind matches limit) fs (acc @ [m]) = Inr ms"
    by (auto simp: bind_throws_eq_Inr)
  have "matches m \<and> isJsonValue m" using m(1) by (auto simp: decode_frame_def bind_throws_eq_Inr parse_message_Inr)
  then have "\<forall>x \<in> set (acc @ [m]). matches x \<and> isJsonValue x" using Cons.prems(2) by simp
  then show ?case using Cons.IH [OF m(2)] by blast
qed simp

text \<open>
  Whatever bytes arrive, every message a push delivers satisfies the schema of its direction and is a JSON
  value (finite numbers, no undefined part, at most 512 levels deep).
\<close>

theorem delivered_messages_valid:
  assumes "push_messages matches s chunk = Some (Inr messages, t)"
  shows "\<forall>m \<in> set messages. matches m \<and> isJsonValue m"
proof -
  obtain fs where "decode_frames (decode_frame (decoder_kind s) matches (decoder_limit s)) fs [] = Inr messages"
    using assms by (auto simp: push_messages_def bind_throws_eq_Inr Let_def split: if_splits option.splits sum.splits)
  then show ?thesis using decoded_messages_valid by fastforce
qed

section \<open>Witnesses\<close>

text \<open>A schema that accepts the numbers, a message 5 and its frame of one byte.\<close>

definition is_number :: "jsv \<Rightarrow> bool" where
  "is_number v = (case v of VNum _ \<Rightarrow> True | _ \<Rightarrow> False)"

definition idle_decoder :: "message_decoder" where
  "idle_decoder = \<lparr>decoder_failed = False, decoder_frames = \<lparr>maxFrameLength = 8, header = [], payloadBlocks = [],
     expectedPayloadLength = None, payloadLength = 0, state = Open\<rparr>, decoder_kind = ''client'', decoder_limit = 8\<rparr>"

lemma new_idle_decoder: "newMessageDecoder ''client'' (Some 8) = Inr idle_decoder"
  by (simp add: newMessageDecoder_def newFrameDecoder_def resolveMaxFrameLength_def MAX_UINT32_def frame_limit_def
      idle_decoder_def)

lemma idle_decoder_live: "messages_live ''client'' 8 idle_decoder" "pending (decoder_frames idle_decoder) = []"
  by (simp_all add: idle_decoder_def messages_live_def frames_live_def decoder_ok_def MAX_UINT32_def pending_def)

lemma encode_five: "encodeProtocolMessage ''client'' is_number (Some 8) (VNum (JInt 5)) = Inr [0, 0, 0, 1, 5]"
  by (simp add: encodeProtocolMessage_def parse_message_def is_number_def isJsonValue_def json_check.simps frame_limit_def
      resolveOptions_def resolveLimit_def MAX_UINT32_def MAX_CONFIGURED_DEPTH_def DEFAULT_MAX_CBOR_CONTAINER_LENGTH_def
      DEFAULT_MAX_CBOR_DEPTH_def encodeCbor_def encodeValue.simps encodeNumber_def is_safe_def MAX_SAFE_INTEGER_def
      writeArgument_def emit_def initial_byte_def encodeFrame_def u32_bytes_def Let_def)

theorem message_stream_round_trip_witness:
  "\<exists>t. push_all (push_messages is_number) idle_decoder [[0, 0, 0], [1], [5, 0, 0, 0, 1, 5]] =
      Some ([VNum (JInt 5), VNum (JInt 5)], None, t) \<and> fst (end_messages t) = Inr ()"
  by (rule message_stream_round_trip [OF new_idle_decoder, of _ _ "[[0, 0, 0, 1, 5], [0, 0, 0, 1, 5]]"])
     (simp_all add: encode_five)

lemma push_too_long: "\<exists>e t. push_messages is_number idle_decoder [0, 0, 1, 0] = Some (Inl e, t)"
proof -
  have "message_split (decode_frame ''client'' is_number (int 8)) 8 (pending (decoder_frames idle_decoder) @ [0, 0, 1, 0]) = ([], None)"
    by (simp add: message_split_def frame_split_def split_frames.simps u32_value_def idle_decoder_live)
  then show ?thesis using push_messages_error [OF idle_decoder_live(1)] by blast
qed

theorem message_decoder_fail_stop_witness:
  "\<exists>e t. push_messages is_number idle_decoder [0, 0, 1, 0] = Some (Inl e, t) \<and>
     end_messages t = (Inl (decoder_has_failed t), t) \<and>
     push_messages is_number t [0, 0] = Some (Inl (decoder_has_failed t), t)"
  using push_too_long message_decoder_fail_stop [where matches = is_number and s = idle_decoder and chunk = "[0, 0, 1, 0]"]
  by blast

theorem delivered_messages_valid_witness: "is_number (VNum (JInt 5)) \<and> isJsonValue (VNum (JInt 5))"
proof -
  have "\<exists>t. push_messages is_number idle_decoder [0, 0, 0, 1, 5] = Some (Inr [VNum (JInt 5)], t)"
  proof -
    have "message_split (decode_frame ''client'' is_number (int 8)) 8 (concat [[0, 0, 0, 1, 5]]) = ([VNum (JInt 5)], Some [])"
      by (rule split_encoded_messages [where opt = "Some 8"]) (simp_all add: encode_five frame_limit_def MAX_UINT32_def)
    then show ?thesis using push_messages_more [OF idle_decoder_live(1), of is_number "[0, 0, 0, 1, 5]"] idle_decoder_live(2) by auto
  qed
  then obtain t where "push_messages is_number idle_decoder [0, 0, 0, 1, 5] = Some (Inr [VNum (JInt 5)], t)" by blast
  from delivered_messages_valid [OF this] show ?thesis by simp
qed

end
