(* ===== verification/Session_Values.thy ===== *)
theory Session_Values imports Json begin

text \<open>
  The data of the agent session store (\<open>packages/agent/src/harness/session/types.ts\<close>, \<open>values.ts\<close>,
  \<open>commit.ts\<close> and \<open>utils/usage.ts\<close>): entries of the conversation tree, usage rows, addresses of scalar and
  list values, and how writes are numbered and validated before they are applied. Numbers of a usage row are of
  any type with addition, since the costs are not integers.
\<close>

section \<open>Usage\<close>

record 'n usage_cost =
  cost_input :: 'n
  cost_output :: 'n
  cost_cacheRead :: 'n
  cost_cacheWrite :: 'n
  cost_total :: 'n

record 'n usage =
  inputTokens :: 'n
  outputTokens :: 'n
  cacheRead :: 'n
  cacheWrite :: 'n
  cacheWrite1h :: "'n option"
  reasoning :: "'n option"
  totalTokens :: 'n
  cost :: "'n usage_cost"

definition emptyUsage :: "'n::zero usage" where
  "emptyUsage = \<lparr>inputTokens = 0, outputTokens = 0, cacheRead = 0, cacheWrite = 0, cacheWrite1h = None, reasoning = None,
     totalTokens = 0, cost = \<lparr>cost_input = 0, cost_output = 0, cost_cacheRead = 0, cost_cacheWrite = 0, cost_total = 0\<rparr>\<rparr>"

text \<open>A field that is absent on both sides stays absent.\<close>

definition add_optional :: "'n::{zero, plus} option \<Rightarrow> 'n option \<Rightarrow> 'n option" where
  "add_optional l r = (if l = None \<and> r = None then None
     else Some ((case l of Some x \<Rightarrow> x | None \<Rightarrow> 0) + (case r of Some x \<Rightarrow> x | None \<Rightarrow> 0)))"

definition addUsage :: "'n::{zero, plus} usage \<Rightarrow> 'n usage \<Rightarrow> 'n usage" where
  "addUsage l r =
     \<lparr>inputTokens = inputTokens l + inputTokens r, outputTokens = outputTokens l + outputTokens r, cacheRead = cacheRead l + cacheRead r,
      cacheWrite = cacheWrite l + cacheWrite r, cacheWrite1h = add_optional (cacheWrite1h l) (cacheWrite1h r),
      reasoning = add_optional (reasoning l) (reasoning r), totalTokens = totalTokens l + totalTokens r,
      cost = \<lparr>cost_input = cost_input (cost l) + cost_input (cost r), cost_output = cost_output (cost l) + cost_output (cost r),
        cost_cacheRead = cost_cacheRead (cost l) + cost_cacheRead (cost r),
        cost_cacheWrite = cost_cacheWrite (cost l) + cost_cacheWrite (cost r),
        cost_total = cost_total (cost l) + cost_total (cost r)\<rparr>\<rparr>"

section \<open>Entries\<close>

record agent_message =
  role :: string
  stopReason :: "string option"
  toolCallId_of :: "string option"
  message_body :: json

datatype entry_type = MessageType | CompactionType | BranchSummaryType | CustomType

datatype entry_data =
    MessageData agent_message
  | CompactionData string "agent_message list" int
  | BranchSummaryData "string option" string
  | CustomData json

fun type_of_data :: "entry_data \<Rightarrow> entry_type" where
  "type_of_data (MessageData _) = MessageType"
| "type_of_data (CompactionData _ _ _) = CompactionType"
| "type_of_data (BranchSummaryData _ _) = BranchSummaryType"
| "type_of_data (CustomData _) = CustomType"

text \<open>An entry of a transaction, and the stored entry with the sequence number and timestamp it is given.\<close>

record new_entry =
  entry_id :: string
  parentId :: "string option"
  customType :: "string option"
  entry_data :: entry_data

record entry = new_entry +
  entry_seq :: int
  timestamp :: int

definition entry_type :: "entry \<Rightarrow> entry_type" where
  "entry_type e = type_of_data (entry_data e)"

record 'n new_usage_row =
  row_id :: string
  row_usage :: "'n usage"
  row_entryId :: "string option"
  row_adjustment :: bool

record 'n usage_row = "'n new_usage_row" +
  row_seq :: int

section \<open>Addresses\<close>

datatype value_kind = ValueKind | ListKind

text \<open>The namespace and the key of a value or a list.\<close>

type_synonym address = "string \<times> string"

definition NUL :: char where "NUL = CHR 0x00"

text \<open>The six characters of the escape in the error messages.\<close>

definition NUL_ESCAPE :: string where "NUL_ESCAPE = CHR 0x5C # ''u0000''"

definition validateAddress :: "string \<Rightarrow> string \<Rightarrow> unit throws" where
  "validateAddress namespace key =
     (if length namespace = 0 then Inl ''Value namespace must not be empty''
      else if NUL \<in> set namespace then Inl (''Value namespace must not contain '' @ NUL_ESCAPE)
      else if NUL \<in> set key then Inl (''Value key must not contain '' @ NUL_ESCAPE)
      else Inr ())"

text \<open>\<open>value()\<close> and \<open>list()\<close> differ only in the kind of the address.\<close>

definition make_address :: "string \<Rightarrow> string \<Rightarrow> address throws" where
  "make_address namespace key = bind_throws (validateAddress namespace key) (\<lambda>_. Inr (namespace, key))"

abbreviation valid_address :: "string \<Rightarrow> string \<Rightarrow> bool" where
  "valid_address namespace key \<equiv> validateAddress namespace key = Inr ()"

definition physicalKey :: "string \<Rightarrow> string \<Rightarrow> string" where
  "physicalKey namespace key = namespace @ NUL # key"

text \<open>The separator makes physical keys of valid addresses unambiguous.\<close>

lemma physicalKey_inject:
  assumes "NUL \<notin> set n" and "NUL \<notin> set n'"
  shows "physicalKey n k = physicalKey n' k' \<longleftrightarrow> n = n' \<and> k = k'"
proof
  assume eq: "physicalKey n k = physicalKey n' k'"
  have "takeWhile (\<lambda>c. c \<noteq> NUL) (physicalKey n k) = n" "takeWhile (\<lambda>c. c \<noteq> NUL) (physicalKey n' k') = n'"
    using assms by (auto simp: physicalKey_def takeWhile_append)
  then have "n = n'" using eq by simp
  then show "n = n' \<and> k = k'" using eq by (simp add: physicalKey_def)
qed simp

record list_read_options =
  read_cursor :: "int option"
  read_descending :: bool
  read_limit :: nat

definition resolveListReadOptions :: "int option \<Rightarrow> bool \<Rightarrow> int option \<Rightarrow> list_read_options throws" where
  "resolveListReadOptions cursor descending limit =
     (let requested = (case limit of Some l \<Rightarrow> l | None \<Rightarrow> 1000) in
      if requested > 9007199254740991 \<or> requested \<le> 0 then Inl ''List read limit must be a positive safe integer''
      else Inr \<lparr>read_cursor = cursor, read_descending = descending, read_limit = nat (min requested 10000)\<rparr>)"

section \<open>Writes\<close>

text \<open>A scalar set or a list append, and their deletions.\<close>

record put =
  put_kind :: value_kind
  put_seq :: int
  put_namespace :: string
  put_key :: string
  put_value :: json

datatype 'n session_write =
    EntryWrite new_entry
  | UsageWrite "'n new_usage_row"
  | PutWrite value_kind string string json
  | DeleteWrite value_kind string string

datatype 'n committed_write =
    CommittedEntry entry
  | CommittedUsage "'n usage_row"
  | CommittedPut put
  | CommittedDelete value_kind int string string

fun committed_seq :: "'n committed_write \<Rightarrow> int" where
  "committed_seq (CommittedEntry e) = entry_seq e"
| "committed_seq (CommittedUsage r) = row_seq r"
| "committed_seq (CommittedPut p) = put_seq p"
| "committed_seq (CommittedDelete _ s _ _) = s"

definition materializeCommittedEntry :: "new_entry \<Rightarrow> int \<Rightarrow> int \<Rightarrow> entry" where
  "materializeCommittedEntry e seq time = new_entry.extend e (entry.fields seq time)"

fun commitWrite :: "'n session_write \<Rightarrow> int \<Rightarrow> int \<Rightarrow> 'n committed_write" where
  "commitWrite (EntryWrite e) seq time = CommittedEntry (materializeCommittedEntry e seq time)"
| "commitWrite (UsageWrite r) seq time = CommittedUsage (new_usage_row.extend r (usage_row.fields seq))"
| "commitWrite (PutWrite kind namespace key v) seq time =
     CommittedPut \<lparr>put_kind = kind, put_seq = seq, put_namespace = namespace, put_key = key, put_value = v\<rparr>"
| "commitWrite (DeleteWrite kind namespace key) seq time = CommittedDelete kind seq namespace key"

text \<open>The constructors of writes.\<close>

definition insertEntry :: "new_entry \<Rightarrow> 'n session_write" where "insertEntry e = EntryWrite e"
definition insertUsage :: "'n new_usage_row \<Rightarrow> 'n session_write" where "insertUsage r = UsageWrite r"

definition setValue :: "address \<Rightarrow> json \<Rightarrow> 'n session_write" where
  "setValue a v = PutWrite ValueKind (fst a) (snd a) v"

definition deleteValue :: "address \<Rightarrow> 'n session_write" where
  "deleteValue a = DeleteWrite ValueKind (fst a) (snd a)"

definition appendList :: "address \<Rightarrow> json \<Rightarrow> 'n session_write" where
  "appendList a v = PutWrite ListKind (fst a) (snd a) v"

definition deleteList :: "address \<Rightarrow> 'n session_write" where
  "deleteList a = DeleteWrite ListKind (fst a) (snd a)"

text \<open>The addresses of the agent runtime, from the parts of their keys.\<close>

definition branchTip :: "string \<Rightarrow> address throws" where "branchTip branch = make_address ''pi.branch.tip'' branch"
definition laneConfig :: "string \<Rightarrow> address throws" where "laneConfig lane = make_address ''pi.lane.config'' lane"
definition laneState :: "string \<Rightarrow> address throws" where "laneState lane = make_address ''pi.lane.state'' lane"
definition operationResult :: "string \<Rightarrow> address throws" where "operationResult op = make_address ''pi.result'' op"
definition operationMeta :: "string \<Rightarrow> address throws" where "operationMeta op = make_address ''pi.op.meta'' op"
definition operationState :: "string \<Rightarrow> address throws" where "operationState op = make_address ''pi.op.state'' op"

definition operationToolArgs :: "string \<Rightarrow> string \<Rightarrow> nat \<Rightarrow> address throws" where
  "operationToolArgs op step sourceIndex = make_address ''pi.op.tool_args'' (op @ '':'' @ step @ '':'' @ show_nat sourceIndex)"

definition operationToolMemo :: "string \<Rightarrow> string \<Rightarrow> string \<Rightarrow> address throws" where
  "operationToolMemo op invocation name = make_address ''pi.op.tool_memo'' (op @ '':'' @ invocation @ '':'' @ name)"

definition operationPreparation :: "string \<Rightarrow> string \<Rightarrow> address throws" where
  "operationPreparation op task = make_address ''pi.op.preparation'' (op @ '':'' @ task)"

definition operationToolArgsPrefix :: "string \<Rightarrow> string option \<Rightarrow> address throws" where
  "operationToolArgsPrefix op step =
     make_address ''pi.op.tool_args'' (case step of None \<Rightarrow> op @ '':'' | Some i \<Rightarrow> op @ '':'' @ i @ '':'')"

definition operationToolMemoPrefix :: "string \<Rightarrow> string option \<Rightarrow> address throws" where
  "operationToolMemoPrefix op invocation =
     make_address ''pi.op.tool_memo'' (case invocation of None \<Rightarrow> op @ '':'' | Some i \<Rightarrow> op @ '':'' @ i @ '':'')"

definition operationPreparationPrefix :: "string \<Rightarrow> address throws" where
  "operationPreparationPrefix op = make_address ''pi.op.preparation'' (op @ '':'')"

definition pendingEntry :: "string \<Rightarrow> address throws" where "pendingEntry i = make_address ''pi.pending.entry'' i"

definition pendingToolOutput :: "string \<Rightarrow> string \<Rightarrow> address throws" where
  "pendingToolOutput op invocation = make_address ''pi.pending.tool_output'' (op @ '':'' @ invocation)"

definition pendingAssistantFrames :: "string \<Rightarrow> string \<Rightarrow> address throws" where
  "pendingAssistantFrames op response = make_address ''pi.pending.assistant_frame'' (op @ '':'' @ response)"

definition pendingToolOutputPrefix :: "string \<Rightarrow> address throws" where
  "pendingToolOutputPrefix op = make_address ''pi.pending.tool_output'' (op @ '':'')"

definition sessionName :: "address throws" where "sessionName = make_address ''pi.session.name'' []"
definition entryLabel :: "string \<Rightarrow> address throws" where "entryLabel i = make_address ''pi.entry.label'' i"

lemmas runtime_addresses = branchTip_def laneConfig_def laneState_def operationResult_def operationMeta_def operationState_def
  operationToolArgs_def operationToolMemo_def operationPreparation_def operationToolArgsPrefix_def operationToolMemoPrefix_def
  operationPreparationPrefix_def pendingEntry_def pendingToolOutput_def pendingAssistantFrames_def pendingToolOutputPrefix_def
  sessionName_def entryLabel_def

lemma make_address_Inr: "make_address n k = Inr a \<longleftrightarrow> a = (n, k) \<and> valid_address n k"
  by (auto simp: make_address_def bind_throws_eq_Inr)

text \<open>The writes of a commit get consecutive sequence numbers, in order.\<close>

fun commit_from :: "'n session_write list \<Rightarrow> int \<Rightarrow> int \<Rightarrow> 'n committed_write list" where
  "commit_from [] seq time = []"
| "commit_from (w # ws) seq time = commitWrite w seq time # commit_from ws (seq + 1) time"

record 'n prepared_commit =
  prepared_writes :: "'n committed_write list"
  firstSeq :: int
  prepared_seqs :: "int list"
  prepared_timestamp :: int

definition prepareStorageCommit :: "'n session_write list \<Rightarrow> int \<Rightarrow> int \<Rightarrow> 'n prepared_commit" where
  "prepareStorageCommit ws first time =
     (let committed = commit_from ws first time in
      \<lparr>prepared_writes = committed, firstSeq = first, prepared_seqs = map committed_seq committed, prepared_timestamp = time\<rparr>)"

section \<open>Validation\<close>

definition show_int :: "int \<Rightarrow> string" where
  "show_int i = (if i < 0 then CHR 0x2D # show_nat (nat (- i)) else show_nat (nat i))"

text \<open>
  The loop of \<open>validateCommittedWrites\<close>: the last sequence number, the identifiers and the entry identifiers of the
  transaction so far. \<open>has_id\<close> and \<open>has_entry\<close> are the two questions it asks the store.
\<close>

fun validate_writes ::
  "(string \<Rightarrow> bool) \<Rightarrow> (string \<Rightarrow> bool) \<Rightarrow> int \<Rightarrow> string set \<Rightarrow> string set \<Rightarrow> 'n committed_write list \<Rightarrow> unit throws" where
  "validate_writes has_id has_entry prev ids entryIds [] = Inr ()"
| "validate_writes has_id has_entry prev ids entryIds (w # ws) =
     (if committed_seq w \<le> prev then Inl (''Non-monotonic storage sequence: '' @ show_int (committed_seq w))
      else case w of
          CommittedEntry e \<Rightarrow>
            (if has_id (entry_id e) \<or> entry_id e \<in> ids then Inl (''Duplicate entry or usage id: '' @ entry_id e)
             else case parentId e of
                 Some p \<Rightarrow>
                   (if \<not> has_entry p \<and> p \<notin> entryIds then Inl (''Missing parent entry: '' @ p)
                    else validate_writes has_id has_entry (committed_seq w) (insert (entry_id e) ids)
                      (insert (entry_id e) entryIds) ws)
               | None \<Rightarrow> validate_writes has_id has_entry (committed_seq w) (insert (entry_id e) ids)
                      (insert (entry_id e) entryIds) ws)
        | CommittedUsage r \<Rightarrow>
            (if has_id (row_id r) \<or> row_id r \<in> ids then Inl (''Duplicate entry or usage id: '' @ row_id r)
             else validate_writes has_id has_entry (committed_seq w) (insert (row_id r) ids) entryIds ws)
        | _ \<Rightarrow> validate_writes has_id has_entry (committed_seq w) ids entryIds ws)"

definition validateCommittedWrites ::
  "'n committed_write list \<Rightarrow> int \<Rightarrow> (string \<Rightarrow> bool) \<Rightarrow> (string \<Rightarrow> bool) \<Rightarrow> unit throws" where
  "validateCommittedWrites ws first has_id has_entry = validate_writes has_id has_entry (first - 1) {} {} ws"

text \<open>A commit numbered by the store itself never fails for its sequence numbers.\<close>

lemma committed_seq_commitWrite [simp]: "committed_seq (commitWrite w seq time) = seq"
  by (cases w) (simp_all add: materializeCommittedEntry_def new_entry.extend_def entry.fields_def
      new_usage_row.extend_def usage_row.fields_def)

lemma seqs_commit_from: "map committed_seq (commit_from ws seq time) = map (\<lambda>i. seq + int i) [0..<length ws]"
proof (induction ws arbitrary: seq)
  case (Cons w ws)
  have "map (\<lambda>i. seq + int i) [0..<Suc (length ws)] = seq # map (\<lambda>i. (seq + 1) + int i) [0..<length ws]"
    by (simp add: upt_conv_Cons map_Suc_upt [symmetric] del: upt_Suc)
  then show ?case using Cons by simp
qed simp

end
