(* ===== verification/Session_Store.thy ===== *)
theory Session_Store imports Session_Values begin

text \<open>
  The materialised session state (\<open>packages/agent/src/harness/session/in-memory-storage-state.ts\<close>): the entries
  by id and in order of their sequence numbers, scalar and list values by physical key, usage rows, the totals and
  the next sequence number. A method that may throw half-way gives its error together with the state it leaves.
\<close>

section \<open>State\<close>

record 'n session_stats =
  messageCount :: nat
  stats_usage :: "'n usage"

record stored_value =
  value_address :: address
  stored_data :: json
  value_seq :: int

record list_element =
  element_seq :: int
  element_value :: json

record stored_list =
  list_address :: address
  elements :: "list_element list"

record 'n session_state =
  entries :: "(string \<times> entry) list"
  entriesBySeq :: "entry list"
  scalarValues :: "(string \<times> stored_value) list"
  listValues :: "(string \<times> stored_list) list"
  usage_rows :: "(string \<times> 'n usage_row) list"
  stats :: "'n session_stats"
  nextSeq :: int

definition newSessionState :: "'n::{zero, plus} session_state" where
  "newSessionState = \<lparr>entries = [], entriesBySeq = [], scalarValues = [], listValues = [], usage_rows = [],
     stats = \<lparr>messageCount = 0, stats_usage = emptyUsage\<rparr>, nextSeq = 1\<rparr>"

section \<open>Commits\<close>

definition validateCommitted :: "'n session_state \<Rightarrow> 'n committed_write list \<Rightarrow> unit throws" where
  "validateCommitted s ws =
     validateCommittedWrites ws (nextSeq s) (\<lambda>i. al_has i (entries s) \<or> al_has i (usage_rows s)) (\<lambda>i. al_has i (entries s))"

definition prepareCommit :: "'n session_state \<Rightarrow> 'n session_write list \<Rightarrow> int \<Rightarrow> 'n prepared_commit throws" where
  "prepareCommit s ws time =
     (let prepared = prepareStorageCommit ws (nextSeq s) time in
      bind_throws (validateCommitted s (prepared_writes prepared)) (\<lambda>_. Inr prepared))"

definition applyValueSetOrListAppend :: "put \<Rightarrow> 'n session_state \<Rightarrow> 'n session_state throws" where
  "applyValueSetOrListAppend w s =
     (let key = physicalKey (put_namespace w) (put_key w) in
      case put_kind w of
        ValueKind \<Rightarrow> bind_throws (make_address (put_namespace w) (put_key w)) (\<lambda>address.
          Inr (s\<lparr>scalarValues := al_set key
            \<lparr>value_address = address, stored_data = put_value w, value_seq = put_seq w\<rparr> (scalarValues s)\<rparr>))
      | ListKind \<Rightarrow>
          (let element = \<lparr>element_seq = put_seq w, element_value = put_value w\<rparr> in
           case al_get key (listValues s) of
             None \<Rightarrow> bind_throws (make_address (put_namespace w) (put_key w)) (\<lambda>address.
               Inr (s\<lparr>listValues := al_set key \<lparr>list_address = address, elements = [element]\<rparr> (listValues s)\<rparr>))
           | Some stored \<Rightarrow>
               Inr (s\<lparr>listValues := al_set key (stored\<lparr>elements := elements stored @ [element]\<rparr>) (listValues s)\<rparr>)))"

definition add_entry :: "entry \<Rightarrow> 'n session_state \<Rightarrow> 'n session_state" where
  "add_entry e s = s\<lparr>entries := al_set (entry_id e) e (entries s), entriesBySeq := entriesBySeq s @ [e],
     stats := (if entry_type e = MessageType then (stats s)\<lparr>messageCount := messageCount (stats s) + 1\<rparr> else stats s)\<rparr>"

definition add_usage_row :: "'n::{zero, plus} usage_row \<Rightarrow> 'n session_state \<Rightarrow> 'n session_state" where
  "add_usage_row r s = s\<lparr>usage_rows := al_set (row_id r) r (usage_rows s),
     stats := (stats s)\<lparr>stats_usage := addUsage (stats_usage (stats s)) (row_usage r)\<rparr>\<rparr>"

definition apply_write :: "'n::{zero, plus} committed_write \<Rightarrow> 'n session_state \<Rightarrow> 'n session_state throws" where
  "apply_write w s =
     (case w of
        CommittedEntry e \<Rightarrow> Inr (add_entry e s)
      | CommittedUsage r \<Rightarrow> Inr (add_usage_row r s)
      | CommittedPut p \<Rightarrow> applyValueSetOrListAppend p s
      | CommittedDelete ValueKind _ namespace key \<Rightarrow>
          Inr (s\<lparr>scalarValues := al_delete (physicalKey namespace key) (scalarValues s)\<rparr>)
      | CommittedDelete ListKind _ namespace key \<Rightarrow>
          Inr (s\<lparr>listValues := al_delete (physicalKey namespace key) (listValues s)\<rparr>))"

text \<open>A write that throws leaves the earlier ones applied.\<close>

fun applyValidated :: "'n::{zero, plus} committed_write list \<Rightarrow> 'n session_state \<Rightarrow> 'n session_stats throws \<times> 'n session_state" where
  "applyValidated [] s = (Inr (stats s), s)"
| "applyValidated (w # ws) s =
     (case apply_write w s of
        Inl e \<Rightarrow> (Inl e, s)
      | Inr s' \<Rightarrow> applyValidated ws (s'\<lparr>nextSeq := committed_seq w + 1\<rparr>))"

definition advanceNextSeq :: "int \<Rightarrow> 'n session_state \<Rightarrow> 'n session_state throws" where
  "advanceNextSeq n s =
     (if n > 9007199254740991 \<or> n < 1 then Inl (''Invalid storage sequence high-water mark: '' @ show_int n)
      else Inr (s\<lparr>nextSeq := max (nextSeq s) n\<rparr>))"

section \<open>Reading\<close>

definition getEntries :: "string list \<Rightarrow> 'n session_state \<Rightarrow> (string \<times> entry) list" where
  "getEntries ids s =
     fold (\<lambda>i found. case al_get i (entries s) of Some e \<Rightarrow> al_set i e found | None \<Rightarrow> found) ids []"

definition getValue :: "address \<Rightarrow> 'n session_state \<Rightarrow> stored_value option" where
  "getValue address s = al_get (physicalKey (fst address) (snd address)) (scalarValues s)"

text \<open>The comparison by code points, and a stable sort by a comparison function.\<close>

fun compareKeys :: "string \<Rightarrow> string \<Rightarrow> int" where
  "compareKeys (c # l) (d # r) =
     (if (of_char c :: int) - of_char d \<noteq> 0 then of_char c - of_char d else compareKeys l r)"
| "compareKeys l r = int (length l) - int (length r)"

fun insert_by :: "('a \<Rightarrow> 'a \<Rightarrow> int) \<Rightarrow> 'a \<Rightarrow> 'a list \<Rightarrow> 'a list" where
  "insert_by cmp x [] = [x]"
| "insert_by cmp x (y # ys) = (if cmp x y \<le> 0 then x # y # ys else y # insert_by cmp x ys)"

definition sort_by :: "('a \<Rightarrow> 'a \<Rightarrow> int) \<Rightarrow> 'a list \<Rightarrow> 'a list" where
  "sort_by cmp xs = foldr (insert_by cmp) xs []"

definition scanValues :: "address \<Rightarrow> 'n session_state \<Rightarrow> stored_value list" where
  "scanValues pre s =
     sort_by (\<lambda>l r. compareKeys (snd (value_address l)) (snd (value_address r)))
       (filter (\<lambda>v. fst (value_address v) = fst pre \<and> startsWith (snd (value_address v)) (snd pre))
         (map snd (scalarValues s)))"

definition readList :: "address \<Rightarrow> list_read_options \<Rightarrow> 'n session_state \<Rightarrow> list_element list" where
  "readList address opts s =
     (let es = (case al_get (physicalKey (fst address) (snd address)) (listValues s) of Some l \<Rightarrow> elements l | None \<Rightarrow> []);
          filtered = filter (\<lambda>e. case read_cursor opts of None \<Rightarrow> True
            | Some c \<Rightarrow> if read_descending opts then element_seq e < c else element_seq e > c) es;
          ordered = (if read_descending opts then rev filtered else filtered) in
      take (read_limit opts) ordered)"

record branch_scan =
  scan_start :: string
  stopAtType :: "entry_type option"
  stopAtId :: "string option"
  scan_type :: "entry_type option"
  scan_customType :: "string option"
  oldestFirst :: bool
  scan_limit :: "int option"
  scan_cursor :: "int option"

text \<open>The walk from an entry to its root; \<open>None\<close> when the parent chain never ends.\<close>

partial_function (option) branch_path :: "(string \<times> entry) list \<Rightarrow> entry \<Rightarrow> entry list \<Rightarrow> entry list throws option" where
  "branch_path es e path =
     (case parentId e of
        None \<Rightarrow> Some (Inr (path @ [e]))
      | Some p \<Rightarrow>
          (case al_get p es of
             None \<Rightarrow> Some (Inl ''Corrupt branch: missing parent'')
           | Some e' \<Rightarrow> branch_path es e' (path @ [e])))"

text \<open>The candidates up to and including the first one with the stopping id or type.\<close>

fun stop_at :: "(entry \<Rightarrow> bool) \<Rightarrow> entry list \<Rightarrow> entry list" where
  "stop_at stop [] = []"
| "stop_at stop (e # es) = (if stop e then [e] else e # stop_at stop es)"

definition scanBranch :: "branch_scan \<Rightarrow> 'n session_state \<Rightarrow> entry list throws option" where
  "scanBranch q s =
     (case al_get (scan_start q) (entries s) of
        None \<Rightarrow> Some (Inl (''Unknown branch start: '' @ scan_start q))
      | Some e \<Rightarrow>
          (case branch_path (entries s) e [] of
             None \<Rightarrow> None
           | Some (Inl err) \<Rightarrow> Some (Inl err)
           | Some (Inr newest) \<Rightarrow>
               (let path = (if oldestFirst q then rev newest else newest);
                    stopped = stop_at (\<lambda>c. Some (entry_id c) = stopAtId q \<or> Some (entry_type c) = stopAtType q) path;
                    filtered = filter (\<lambda>c. scan_type q = None \<or> Some (entry_type c) = scan_type q)
                      (filter (\<lambda>c. scan_customType q = None \<or> customType c = scan_customType q)
                        (filter (\<lambda>c. case scan_cursor q of None \<Rightarrow> True
                           | Some cur \<Rightarrow> if oldestFirst q then entry_seq c > cur else entry_seq c < cur) stopped)) in
                Some (Inr (case scan_limit q of None \<Rightarrow> filtered | Some l \<Rightarrow> take (nat (max 0 l)) filtered)))))"

record entry_structure =
  structure_id :: string
  structure_parentId :: "string option"
  structure_seq :: int
  structure_timestamp :: int
  structure_type :: entry_type
  structure_customType :: "string option"

definition structure_of :: "entry \<Rightarrow> entry_structure" where
  "structure_of e = \<lparr>structure_id = entry_id e, structure_parentId = parentId e, structure_seq = entry_seq e,
     structure_timestamp = timestamp e, structure_type = entry_type e, structure_customType = customType e\<rparr>"

definition scanBranchStructure :: "branch_scan \<Rightarrow> 'n session_state \<Rightarrow> entry_structure list throws option" where
  "scanBranchStructure q s = map_option (\<lambda>r. bind_throws r (\<lambda>es. Inr (map structure_of es))) (scanBranch q s)"

record entry_scan =
  entry_scan_type :: "entry_type option"
  entry_scan_customType :: "string option"
  fromSeq :: "int option"
  toSeq :: "int option"
  descending :: bool
  entry_scan_limit :: "int option"

definition in_seq_range :: "int option \<Rightarrow> int option \<Rightarrow> int \<Rightarrow> bool" where
  "in_seq_range from to seq \<longleftrightarrow>
     (case from of None \<Rightarrow> True | Some f \<Rightarrow> seq \<ge> f) \<and> (case to of None \<Rightarrow> True | Some t \<Rightarrow> seq \<le> t)"

definition entry_matches :: "entry_scan \<Rightarrow> entry \<Rightarrow> bool" where
  "entry_matches q e \<longleftrightarrow>
     (entry_scan_type q = None \<or> Some (entry_type e) = entry_scan_type q) \<and>
     (entry_scan_customType q = None \<or> customType e = entry_scan_customType q) \<and>
     in_seq_range (fromSeq q) (toSeq q) (entry_seq e)"

text \<open>The loop over the entries in scan order, until the limit is reached.\<close>

fun scan_loop :: "(entry \<Rightarrow> bool) \<Rightarrow> nat option \<Rightarrow> entry list \<Rightarrow> entry list \<Rightarrow> entry list" where
  "scan_loop p limit [] found = found"
| "scan_loop p limit (e # es) found =
     (if (case limit of None \<Rightarrow> False | Some l \<Rightarrow> length found \<ge> l) then found
      else scan_loop p limit es (if p e then found @ [e] else found))"

definition scanEntries :: "entry_scan \<Rightarrow> 'n session_state \<Rightarrow> entry list" where
  "scanEntries q s =
     scan_loop (entry_matches q) (map_option (\<lambda>l. nat (max 0 l)) (entry_scan_limit q))
       (if descending q then rev (entriesBySeq s) else entriesBySeq s) []"

definition scanUsage :: "int option \<Rightarrow> int option \<Rightarrow> bool \<Rightarrow> int option \<Rightarrow> 'n session_state \<Rightarrow> 'n usage_row list" where
  "scanUsage from to desc limit s =
     (let rows = sort_by (\<lambda>l r. if desc then row_seq r - row_seq l else row_seq l - row_seq r)
        (filter (\<lambda>r. in_seq_range from to (row_seq r)) (map snd (usage_rows s))) in
      case limit of None \<Rightarrow> rows | Some l \<Rightarrow> take (nat (max 0 l)) rows)"

end
