(* ===== verification/Session_Commit.thy ===== *)
theory Session_Commit imports Session_Store begin

text \<open>
  Commits of the session store. The locale states the interface between the validation of a commit and a store:
  the validation asks which identifiers exist, and a store that can take every write that fits its identifiers and
  sequence numbers takes a validated commit as a whole. The in-memory state provides it, with its invariant.
\<close>

section \<open>The interface\<close>

text \<open>A write that a store with these identifiers and this next sequence number can take.\<close>

definition write_fits :: "string set \<Rightarrow> string set \<Rightarrow> int \<Rightarrow> 'n committed_write \<Rightarrow> bool" where
  "write_fits ids entryIds next w \<longleftrightarrow> next \<le> committed_seq w \<and>
     (case w of
        CommittedEntry e \<Rightarrow> entry_id e \<notin> ids \<and> (\<forall>p. parentId e = Some p \<longrightarrow> p \<in> entryIds)
      | CommittedUsage r \<Rightarrow> row_id r \<notin> ids
      | CommittedPut p \<Rightarrow> valid_address (put_namespace p) (put_key p)
      | _ \<Rightarrow> True)"

text \<open>The identifiers a write adds, all of them and those of entries.\<close>

fun new_ids :: "'n committed_write \<Rightarrow> string set" where
  "new_ids (CommittedEntry e) = {entry_id e}"
| "new_ids (CommittedUsage r) = {row_id r}"
| "new_ids _ = {}"

fun new_entry_ids :: "'n committed_write \<Rightarrow> string set" where
  "new_entry_ids (CommittedEntry e) = {entry_id e}"
| "new_entry_ids _ = {}"

definition addresses_ok :: "'n committed_write list \<Rightarrow> bool" where
  "addresses_ok ws \<longleftrightarrow> (\<forall>p. CommittedPut p \<in> set ws \<longrightarrow> valid_address (put_namespace p) (put_key p))"

lemma validate_writes_Cons:
  assumes "validate_writes has_id has_entry prev A B (w # ws) = Inr ()" and "addresses_ok (w # ws)"
    and "{i. has_id i} \<union> A = ids" and "{i. has_entry i} \<union> B = eids"
  shows "write_fits ids eids (prev + 1) w"
    and "validate_writes has_id has_entry (committed_seq w) (new_ids w \<union> A) (new_entry_ids w \<union> B) ws = Inr ()"
  using assms by (cases w; auto simp: write_fits_def addresses_ok_def split: if_splits option.splits)+

locale commit_store =
  fixes ok :: "'s \<Rightarrow> bool"
    and ids :: "'s \<Rightarrow> string set"
    and entry_ids :: "'s \<Rightarrow> string set"
    and next_seq :: "'s \<Rightarrow> int"
    and take_write :: "'n committed_write \<Rightarrow> 's \<Rightarrow> string + 's"
  assumes take_fitting: "ok s \<Longrightarrow> write_fits (ids s) (entry_ids s) (next_seq s) w \<Longrightarrow>
      \<exists>t. take_write w s = Inr t \<and> ok t \<and> ids t = ids s \<union> new_ids w \<and> entry_ids t = entry_ids s \<union> new_entry_ids w \<and>
        next_seq t = committed_seq w + 1"
begin

lemma take_validated:
  assumes "validate_writes has_id has_entry prev A B ws = Inr ()" and "addresses_ok ws" and "ok s"
    and "next_seq s = prev + 1" and "ids s = {i. has_id i} \<union> A" and "entry_ids s = {i. has_entry i} \<union> B"
  shows "\<exists>t. fold_throws take_write ws s = Inr t \<and> ok t \<and>
    next_seq t = (if ws = [] then prev + 1 else committed_seq (last ws) + 1)"
  using assms
proof (induction ws arbitrary: prev A B s)
  case (Cons w ws)
  note fits = validate_writes_Cons [OF Cons.prems(1,2) Cons.prems(5,6) [symmetric]]
  have "write_fits (ids s) (entry_ids s) (next_seq s) w" using fits(1) Cons.prems(4) by simp
  from take_fitting [OF Cons.prems(3) this] obtain t where
    t: "take_write w s = Inr t" "ok t" "ids t = ids s \<union> new_ids w" "entry_ids t = entry_ids s \<union> new_entry_ids w"
      "next_seq t = committed_seq w + 1" by blast
  have "addresses_ok ws" using Cons.prems(2) by (simp add: addresses_ok_def)
  then have "\<exists>u. fold_throws take_write ws t = Inr u \<and> ok u \<and>
      next_seq u = (if ws = [] then committed_seq w + 1 else committed_seq (last ws) + 1)"
    using t Cons.prems(5,6) by (intro Cons.IH [OF fits(2)]) auto
  then show ?case using t(1) by (auto split: if_splits)
qed auto

lemma take_commit:
  assumes "validateCommittedWrites ws (next_seq s) has_id has_entry = Inr ()" and "addresses_ok ws" and "ok s"
    and "ids s = {i. has_id i}" and "entry_ids s = {i. has_entry i}"
  shows "\<exists>t. fold_throws take_write ws s = Inr t \<and> ok t \<and>
    next_seq t = (if ws = [] then next_seq s else committed_seq (last ws) + 1)"
  using take_validated [of has_id has_entry "next_seq s - 1" "{}" "{}" ws s] assms
  by (auto simp: validateCommittedWrites_def split: if_splits)

end

section \<open>The invariant of the in-memory state\<close>

definition entries_ok :: "'n session_state \<Rightarrow> bool" where
  "entries_ok s \<longleftrightarrow>
     entries s = map (\<lambda>e. (entry_id e, e)) (entriesBySeq s) \<and> distinct (map entry_id (entriesBySeq s)) \<and>
     sorted_wrt (<) (map entry_seq (entriesBySeq s)) \<and> (\<forall>e \<in> set (entriesBySeq s). entry_seq e < nextSeq s) \<and>
     (\<forall>e \<in> set (entriesBySeq s). \<forall>p. parentId e = Some p \<longrightarrow>
        (\<exists>e' \<in> set (entriesBySeq s). entry_id e' = p \<and> entry_seq e' < entry_seq e))"

definition usage_ok :: "'n session_state \<Rightarrow> bool" where
  "usage_ok s \<longleftrightarrow> distinct (al_keys (usage_rows s)) \<and> (\<forall>(k, r) \<in> set (usage_rows s). k = row_id r \<and> row_seq r < nextSeq s) \<and>
     fst ` set (usage_rows s) \<inter> fst ` set (entries s) = {}"

text \<open>The totals are those of a recount.\<close>

definition stats_ok :: "'n::{zero, plus} session_state \<Rightarrow> bool" where
  "stats_ok s \<longleftrightarrow>
     messageCount (stats s) = length (filter (\<lambda>e. entry_type e = MessageType) (entriesBySeq s)) \<and>
     stats_usage (stats s) = foldl addUsage emptyUsage (map (row_usage \<circ> snd) (usage_rows s))"

definition values_ok :: "'n session_state \<Rightarrow> bool" where
  "values_ok s \<longleftrightarrow>
     distinct (al_keys (scalarValues s)) \<and> distinct (al_keys (listValues s)) \<and>
     (\<forall>(k, v) \<in> set (scalarValues s). k = physicalKey (fst (value_address v)) (snd (value_address v)) \<and>
        valid_address (fst (value_address v)) (snd (value_address v)) \<and> value_seq v < nextSeq s) \<and>
     (\<forall>(k, l) \<in> set (listValues s). k = physicalKey (fst (list_address l)) (snd (list_address l)) \<and>
        valid_address (fst (list_address l)) (snd (list_address l)) \<and> elements l \<noteq> [] \<and>
        sorted_wrt (<) (map element_seq (elements l)) \<and> (\<forall>x \<in> set (elements l). element_seq x < nextSeq s))"

definition session_ok :: "'n::{zero, plus} session_state \<Rightarrow> bool" where
  "session_ok s \<longleftrightarrow> entries_ok s \<and> usage_ok s \<and> stats_ok s \<and> values_ok s"

lemma newSessionState_ok: "session_ok newSessionState"
  by (simp add: session_ok_def entries_ok_def usage_ok_def stats_ok_def values_ok_def newSessionState_def)

section \<open>Every write keeps it\<close>

definition take_session_write :: "'n::{zero, plus} committed_write \<Rightarrow> 'n session_state \<Rightarrow> 'n session_state throws" where
  "take_session_write w s = bind_throws (apply_write w s) (\<lambda>t. Inr (t\<lparr>nextSeq := committed_seq w + 1\<rparr>))"

lemma applyValidated_fold:
  "fold_throws take_session_write ws s = Inr t \<Longrightarrow> applyValidated ws s = (Inr (stats t), t)"
  by (induction ws arbitrary: s) (auto simp: take_session_write_def bind_throws_eq_Inr)

definition session_ids :: "'n session_state \<Rightarrow> string set" where
  "session_ids s = fst ` set (entries s) \<union> fst ` set (usage_rows s)"

definition session_entry_ids :: "'n session_state \<Rightarrow> string set" where
  "session_entry_ids s = fst ` set (entries s)"

lemma entries_ok_ids: "entries_ok s \<Longrightarrow> fst ` set (entries s) = entry_id ` set (entriesBySeq s)"
  by (force simp: entries_ok_def)

lemma take_entry_ok:
  assumes ok: "session_ok s" and fits: "write_fits (session_ids s) (session_entry_ids s) (nextSeq s) (CommittedEntry e)"
  shows "session_ok ((add_entry e s)\<lparr>nextSeq := entry_seq e + 1\<rparr>)"
proof -
  have e: "entry_id e \<notin> fst ` set (entries s)" "entry_id e \<notin> fst ` set (usage_rows s)" "nextSeq s \<le> entry_seq e"
    "\<And>p. parentId e = Some p \<Longrightarrow> p \<in> fst ` set (entries s)"
    using fits by (auto simp: write_fits_def session_ids_def session_entry_ids_def)
  have eo: "entries_ok s" using ok by (simp add: session_ok_def)
  have new: "al_set (entry_id e) e (entries s) = entries s @ [(entry_id e, e)]" using e(1) by (rule al_set_new)
  have old: "\<And>x. x \<in> set (entriesBySeq s) \<Longrightarrow> entry_seq x < entry_seq e" using eo e(3) by (fastforce simp: entries_ok_def)
  let ?t = "(add_entry e s)\<lparr>nextSeq := entry_seq e + 1\<rparr>"
  have by_seq: "entriesBySeq ?t = entriesBySeq s @ [e]" "entries ?t = entries s @ [(entry_id e, e)]"
    by (simp_all add: add_entry_def new)
  have parents: "\<exists>e' \<in> set (entriesBySeq s). entry_id e' = p \<and> entry_seq e' < entry_seq x"
    if x: "x \<in> set (entriesBySeq ?t)" and p: "parentId x = Some p" for x p
  proof (cases "x \<in> set (entriesBySeq s)")
    case True
    then show ?thesis using eo p by (simp add: entries_ok_def)
  next
    case False
    then have "x = e" using x by_seq by simp
    then have "p \<in> entry_id ` set (entriesBySeq s)" using e(4) p entries_ok_ids [OF eo] by simp
    then show ?thesis using old \<open>x = e\<close> by blast
  qed
  have "entries_ok ?t"
    unfolding entries_ok_def
  proof (intro conjI)
    show "entries ?t = map (\<lambda>e. (entry_id e, e)) (entriesBySeq ?t)" using eo by (simp add: by_seq entries_ok_def)
    show "distinct (map entry_id (entriesBySeq ?t))"
      using eo e(1) entries_ok_ids [OF eo] by (simp add: by_seq entries_ok_def)
    show "sorted_wrt (<) (map entry_seq (entriesBySeq ?t))"
      using eo old by (simp add: by_seq entries_ok_def sorted_wrt_append)
    show "\<forall>x \<in> set (entriesBySeq ?t). entry_seq x < nextSeq ?t" using old by (fastforce simp: by_seq)
    show "\<forall>x \<in> set (entriesBySeq ?t). \<forall>p. parentId x = Some p \<longrightarrow>
        (\<exists>e' \<in> set (entriesBySeq ?t). entry_id e' = p \<and> entry_seq e' < entry_seq x)"
      using parents by_seq by auto
  qed
  moreover have "usage_ok ((add_entry e s)\<lparr>nextSeq := entry_seq e + 1\<rparr>)"
    using ok e(2,3) by (fastforce simp: session_ok_def usage_ok_def add_entry_def)
  moreover have "stats_ok ((add_entry e s)\<lparr>nextSeq := entry_seq e + 1\<rparr>)"
    using ok by (auto simp: session_ok_def stats_ok_def add_entry_def)
  moreover have "values_ok ((add_entry e s)\<lparr>nextSeq := entry_seq e + 1\<rparr>)"
    using ok e(3) by (fastforce simp: session_ok_def values_ok_def add_entry_def)
  ultimately show ?thesis by (simp add: session_ok_def)
qed

lemma take_usage_ok:
  assumes ok: "session_ok s" and fits: "write_fits (session_ids s) (session_entry_ids s) (nextSeq s) (CommittedUsage r)"
  shows "session_ok ((add_usage_row r s)\<lparr>nextSeq := row_seq r + 1\<rparr>)"
proof -
  have r: "row_id r \<notin> fst ` set (entries s)" "row_id r \<notin> fst ` set (usage_rows s)" "nextSeq s \<le> row_seq r"
    using fits by (auto simp: write_fits_def session_ids_def)
  have new: "al_set (row_id r) r (usage_rows s) = usage_rows s @ [(row_id r, r)]" using r(2) by (rule al_set_new)
  have "entries_ok ((add_usage_row r s)\<lparr>nextSeq := row_seq r + 1\<rparr>)"
    using ok r(3) by (fastforce simp: session_ok_def entries_ok_def add_usage_row_def)
  moreover have "usage_ok ((add_usage_row r s)\<lparr>nextSeq := row_seq r + 1\<rparr>)"
    using ok r by (fastforce simp: session_ok_def usage_ok_def add_usage_row_def new)
  moreover have "stats_ok ((add_usage_row r s)\<lparr>nextSeq := row_seq r + 1\<rparr>)"
    using ok by (simp add: session_ok_def stats_ok_def add_usage_row_def new)
  moreover have "values_ok ((add_usage_row r s)\<lparr>nextSeq := row_seq r + 1\<rparr>)"
    using ok r(3) by (fastforce simp: session_ok_def values_ok_def add_usage_row_def)
  ultimately show ?thesis by (simp add: session_ok_def)
qed

text \<open>A write of values leaves entries, usage and totals alone.\<close>

definition same_records :: "'n session_state \<Rightarrow> 'n session_state \<Rightarrow> bool" where
  "same_records s t \<longleftrightarrow> entries t = entries s \<and> entriesBySeq t = entriesBySeq s \<and> usage_rows t = usage_rows s \<and> stats t = stats s"

lemma same_records_ok:
  assumes "session_ok s" and "same_records s t" and "nextSeq s \<le> nextSeq t" and "values_ok t"
  shows "session_ok t"
proof -
  have "entries_ok t" using assms by (fastforce simp: session_ok_def entries_ok_def same_records_def)
  moreover have "usage_ok t" using assms by (fastforce simp: session_ok_def usage_ok_def same_records_def)
  moreover have "stats_ok t" using assms by (simp add: session_ok_def stats_ok_def same_records_def)
  ultimately show ?thesis using assms(4) by (simp add: session_ok_def)
qed

lemma set_al_set_subset: "distinct (al_keys m) \<Longrightarrow> set (al_set k v m) \<subseteq> insert (k, v) (set m)"
  by (induction k v m rule: al_set.induct) auto

lemma set_al_delete_subset: "set (al_delete k m) \<subseteq> set m"
  by (induction k m rule: al_delete.induct) auto

lemma put_values_ok:
  assumes vals: "values_ok (s\<lparr>nextSeq := N\<rparr>)" and valid: "valid_address (put_namespace p) (put_key p)" and seq: "put_seq p < N"
    and later: "put_kind p = ListKind \<Longrightarrow> \<forall>l. al_get (physicalKey (put_namespace p) (put_key p)) (listValues s) = Some l \<longrightarrow>
      (\<forall>x \<in> set (elements l). element_seq x < put_seq p)"
  shows "\<exists>t. applyValueSetOrListAppend p s = Inr t \<and> values_ok (t\<lparr>nextSeq := N\<rparr>) \<and> same_records s t \<and> nextSeq t = nextSeq s"
proof -
  have addr: "make_address (put_namespace p) (put_key p) = Inr (put_namespace p, put_key p)"
    using valid by (simp add: make_address_def)
  let ?k = "physicalKey (put_namespace p) (put_key p)"
  have lists: "values_ok ((s\<lparr>listValues := al_set ?k l (listValues s)\<rparr>)\<lparr>nextSeq := N\<rparr>)"
    if "?k = physicalKey (fst (list_address l)) (snd (list_address l))" "valid_address (fst (list_address l)) (snd (list_address l))"
      "elements l \<noteq> []" "sorted_wrt (<) (map element_seq (elements l))" "\<forall>x \<in> set (elements l). element_seq x \<le> put_seq p" for l
    using vals seq that set_al_set_subset [of "listValues s" ?k l] unfolding values_ok_def by fastforce
  show ?thesis
  proof (cases "put_kind p")
    case ValueKind
    let ?v = "\<lparr>value_address = (put_namespace p, put_key p), stored_data = put_value p, value_seq = put_seq p\<rparr>"
    let ?t = "s\<lparr>scalarValues := al_set ?k ?v (scalarValues s)\<rparr>"
    have "values_ok (?t\<lparr>nextSeq := N\<rparr>)"
      using vals valid seq set_al_set_subset [of "scalarValues s" ?k ?v] unfolding values_ok_def by fastforce
    then show ?thesis using ValueKind addr by (simp add: applyValueSetOrListAppend_def same_records_def)
  next
    case ListKind
    let ?e = "\<lparr>element_seq = put_seq p, element_value = put_value p\<rparr>"
    define l where "l = (case al_get ?k (listValues s) of
        None \<Rightarrow> \<lparr>list_address = (put_namespace p, put_key p), elements = [?e]\<rparr>
      | Some stored \<Rightarrow> stored\<lparr>elements := elements stored @ [?e]\<rparr>)"
    have "values_ok ((s\<lparr>listValues := al_set ?k l (listValues s)\<rparr>)\<lparr>nextSeq := N\<rparr>)"
    proof (cases "al_get ?k (listValues s)")
      case None
      then show ?thesis using valid by (intro lists) (simp_all add: l_def)
    next
      case (Some stored)
      then have "(?k, stored) \<in> set (listValues s)" by (rule al_get_SomeD)
      then have st: "?k = physicalKey (fst (list_address stored)) (snd (list_address stored))"
        "valid_address (fst (list_address stored)) (snd (list_address stored))" "sorted_wrt (<) (map element_seq (elements stored))"
        using vals unfolding values_ok_def by fastforce+
      show ?thesis
        using st Some later [OF ListKind] by (intro lists) (auto simp: l_def sorted_wrt_append)
    qed
    moreover have "applyValueSetOrListAppend p s = Inr (s\<lparr>listValues := al_set ?k l (listValues s)\<rparr>)"
      using ListKind addr by (simp add: applyValueSetOrListAppend_def l_def Let_def split: option.split)
    ultimately show ?thesis by (simp add: same_records_def)
  qed
qed

lemma put_ok:
  assumes ok: "session_ok s" and valid: "valid_address (put_namespace p) (put_key p)" and seq: "nextSeq s \<le> put_seq p"
  shows "\<exists>t. applyValueSetOrListAppend p s = Inr t \<and> session_ok (t\<lparr>nextSeq := put_seq p + 1\<rparr>) \<and> same_records s t"
proof -
  have vo: "values_ok s" using ok by (simp add: session_ok_def)
  have "values_ok (s\<lparr>nextSeq := put_seq p + 1\<rparr>)" using vo seq by (fastforce simp: values_ok_def)
  moreover have "\<forall>l. al_get (physicalKey (put_namespace p) (put_key p)) (listValues s) = Some l \<longrightarrow>
      (\<forall>x \<in> set (elements l). element_seq x < put_seq p)"
    using vo seq unfolding values_ok_def by (fastforce dest: al_get_SomeD)
  ultimately obtain t where t: "applyValueSetOrListAppend p s = Inr t" "values_ok (t\<lparr>nextSeq := put_seq p + 1\<rparr>)"
    "same_records s t" using put_values_ok [where s = s and N = "put_seq p + 1", OF _ valid] by auto
  have "session_ok (t\<lparr>nextSeq := put_seq p + 1\<rparr>)"
    using t same_records_ok [OF ok, where t = "t\<lparr>nextSeq := put_seq p + 1\<rparr>"] seq by (simp add: same_records_def)
  then show ?thesis using t by blast
qed

lemma delete_ok:
  assumes ok: "session_ok s" and seq: "nextSeq s \<le> n"
  shows "session_ok (s\<lparr>scalarValues := al_delete k (scalarValues s), nextSeq := n + 1\<rparr>)"
    and "session_ok (s\<lparr>listValues := al_delete k (listValues s), nextSeq := n + 1\<rparr>)"
proof -
  have "values_ok (s\<lparr>nextSeq := n + 1\<rparr>)" using ok seq by (fastforce simp: session_ok_def values_ok_def)
  then have "values_ok (s\<lparr>scalarValues := al_delete k (scalarValues s), nextSeq := n + 1\<rparr>)"
    "values_ok (s\<lparr>listValues := al_delete k (listValues s), nextSeq := n + 1\<rparr>)"
    using set_al_delete_subset [of k "scalarValues s"] set_al_delete_subset [of k "listValues s"]
    unfolding values_ok_def by fastforce+
  then show "session_ok (s\<lparr>scalarValues := al_delete k (scalarValues s), nextSeq := n + 1\<rparr>)"
    "session_ok (s\<lparr>listValues := al_delete k (listValues s), nextSeq := n + 1\<rparr>)"
    using same_records_ok [OF ok] seq by (simp_all add: same_records_def)
qed

lemma take_session_write_fits:
  assumes ok: "session_ok s" and fits: "write_fits (session_ids s) (session_entry_ids s) (nextSeq s) w"
  shows "\<exists>t. take_session_write w s = Inr t \<and> session_ok t \<and> session_ids t = session_ids s \<union> new_ids w \<and>
    session_entry_ids t = session_entry_ids s \<union> new_entry_ids w \<and> nextSeq t = committed_seq w + 1"
proof (cases w)
  case (CommittedEntry e)
  have "session_ok ((add_entry e s)\<lparr>nextSeq := entry_seq e + 1\<rparr>)" using take_entry_ok [OF ok] fits CommittedEntry by simp
  moreover have "take_session_write w s = Inr ((add_entry e s)\<lparr>nextSeq := entry_seq e + 1\<rparr>)"
    using CommittedEntry by (simp add: take_session_write_def apply_write_def)
  ultimately show ?thesis using CommittedEntry by (auto simp: session_ids_def session_entry_ids_def add_entry_def)
next
  case (CommittedUsage r)
  have "session_ok ((add_usage_row r s)\<lparr>nextSeq := row_seq r + 1\<rparr>)" using take_usage_ok [OF ok] fits CommittedUsage by simp
  moreover have "take_session_write w s = Inr ((add_usage_row r s)\<lparr>nextSeq := row_seq r + 1\<rparr>)"
    using CommittedUsage by (simp add: take_session_write_def apply_write_def)
  ultimately show ?thesis using CommittedUsage by (auto simp: session_ids_def session_entry_ids_def add_usage_row_def)
next
  case (CommittedPut p)
  then have "valid_address (put_namespace p) (put_key p)" "nextSeq s \<le> put_seq p" using fits by (auto simp: write_fits_def)
  from put_ok [OF ok this] show ?thesis using CommittedPut
    by (auto simp: take_session_write_def apply_write_def session_ids_def session_entry_ids_def same_records_def)
next
  case (CommittedDelete kind n namespace key)
  then have "nextSeq s \<le> n" using fits by (simp add: write_fits_def)
  then show ?thesis using CommittedDelete delete_ok [OF ok]
    by (cases kind) (auto simp: take_session_write_def apply_write_def session_ids_def session_entry_ids_def)
qed

interpretation memory_store: commit_store session_ok session_ids session_entry_ids nextSeq take_session_write
  by unfold_locales (rule take_session_write_fits)

end
