(* ===== verification/Session_Props.thy ===== *)
theory Session_Props imports Session_Commit "HOL-Library.Sublist" begin

text \<open>
  The properties of the session store: a commit is applied as a whole and keeps the invariant, what was written is read
  back, and the walk along a branch always ends at its root.
\<close>

section \<open>Branches\<close>

text \<open>A list of entries, each followed by its parent, down to a root.\<close>

fun parent_chain :: "entry list \<Rightarrow> bool" where
  "parent_chain [] = False"
| "parent_chain [e] \<longleftrightarrow> parentId e = None"
| "parent_chain (e # e' # es) \<longleftrightarrow> parentId e = Some (entry_id e') \<and> parent_chain (e' # es)"

lemma entries_ok_get:
  assumes "entries_ok s"
  shows "al_get i (entries s) = Some e \<longleftrightarrow> e \<in> set (entriesBySeq s) \<and> entry_id e = i"
proof -
  have m: "entries s = map (\<lambda>e. (entry_id e, e)) (entriesBySeq s)" and "distinct (map entry_id (entriesBySeq s))"
    using assms by (simp_all add: entries_ok_def)
  then have "distinct (al_keys (entries s))" by (simp add: comp_def)
  then show ?thesis using m by (auto simp: al_get_Some_iff)
qed

lemma branch_path_chain:
  assumes "entries_ok s" and "e \<in> set (entriesBySeq s)"
  shows "\<exists>path. branch_path (entries s) e acc = Some (Inr (acc @ path)) \<and> parent_chain path \<and> hd path = e \<and>
    set path \<subseteq> set (entriesBySeq s) \<and> (\<forall>x \<in> set (tl path). entry_seq x < entry_seq e) \<and> distinct (map entry_id path)"
  using assms(2)
proof (induction "card {x \<in> set (entriesBySeq s). entry_seq x < entry_seq e}" arbitrary: e acc rule: less_induct)
  case less
  show ?case
  proof (cases "parentId e")
    case None
    then show ?thesis using less.prems by (subst branch_path.simps) (intro exI [of _ "[e]"], simp)
  next
    case (Some p)
    then obtain e' where e': "e' \<in> set (entriesBySeq s)" "entry_id e' = p" "entry_seq e' < entry_seq e"
      using assms(1) less.prems by (fastforce simp: entries_ok_def)
    have "{x \<in> set (entriesBySeq s). entry_seq x < entry_seq e'} \<subset> {x \<in> set (entriesBySeq s). entry_seq x < entry_seq e}"
      using e' by auto
    then have "card {x \<in> set (entriesBySeq s). entry_seq x < entry_seq e'} < card {x \<in> set (entriesBySeq s). entry_seq x < entry_seq e}"
      by (intro psubset_card_mono) auto
    from less.hyps [OF this e'(1), of "acc @ [e]"] obtain path where
      path: "branch_path (entries s) e' (acc @ [e]) = Some (Inr ((acc @ [e]) @ path))" "parent_chain path" "hd path = e'"
        "set path \<subseteq> set (entriesBySeq s)" "\<forall>x \<in> set (tl path). entry_seq x < entry_seq e'" "distinct (map entry_id path)" by blast
    obtain rest where rest: "path = e' # rest" using path(2,3) by (cases path) auto
    have below: "\<forall>x \<in> set path. entry_seq x < entry_seq e" using path(5) e'(3) rest by auto
    have inj: "\<And>x. x \<in> set (entriesBySeq s) \<Longrightarrow> entry_id x = entry_id e \<Longrightarrow> x = e"
      using assms(1) less.prems by (auto simp: entries_ok_def distinct_map inj_on_def)
    have "entry_id e \<notin> entry_id ` set path" using inj path(4) below by fastforce
    moreover have "branch_path (entries s) e acc = Some (Inr (acc @ e # path))"
      using Some e' path(1) entries_ok_get [OF assms(1), of p e'] by (subst branch_path.simps) simp
    ultimately show ?thesis using path rest Some e' less.prems below by (intro exI [of _ "e # path"]) auto
  qed
qed

section \<open>Reading a branch\<close>

text \<open>
  C32: In a consistent store the walk along a branch ends and is never corrupt: from any stored entry it gives the
  chain of parents down to a root, each entry once and every ancestor with a smaller sequence number, so
  \<open>scanBranch\<close> returns, and what it returns are entries of that chain in the order asked for.
\<close>

theorem scan_branch_reaches_root:
  assumes "session_ok s" and "al_get (scan_start q) (entries s) = Some e"
  shows "\<exists>path found. branch_path (entries s) e [] = Some (Inr path) \<and> parent_chain path \<and> hd path = e \<and>
    distinct (map entry_id path) \<and> (\<forall>x \<in> set (tl path). entry_seq x < entry_seq e) \<and>
    scanBranch q s = Some (Inr found) \<and> subseq found (if oldestFirst q then rev path else path)"
proof -
  have eo: "entries_ok s" using assms(1) by (simp add: session_ok_def)
  then have "e \<in> set (entriesBySeq s)" using assms(2) by (simp add: entries_ok_get)
  from branch_path_chain [OF eo this, of "[]"] obtain path where
    path: "branch_path (entries s) e [] = Some (Inr path)" "parent_chain path" "hd path = e" "distinct (map entry_id path)"
      "\<forall>x \<in> set (tl path). entry_seq x < entry_seq e" by auto
  let ?path = "if oldestFirst q then rev path else path"
  have stop: "subseq (stop_at p es) es" for p es by (induction es) auto
  have filter: "subseq xs ys \<Longrightarrow> subseq (filter p xs) ys" for p and xs ys :: "entry list"
    by (rule subseq_order.trans [OF subseq_filter_left])
  have take: "subseq xs ys \<Longrightarrow> subseq (take n xs) ys" for n and xs ys :: "entry list"
    by (rule subseq_order.trans [OF prefix_imp_subseq [OF take_is_prefix]])
  have "\<exists>found. scanBranch q s = Some (Inr found) \<and> subseq found ?path"
    unfolding scanBranch_def assms(2) option.case path(1) sum.case Let_def
    by (intro exI conjI, rule refl) (auto intro!: filter take stop split: option.split)
  then show ?thesis using path by blast
qed

definition two_entries :: "int session_state" where
  "two_entries = snd (applyValidated (commit_from
     [EntryWrite \<lparr>entry_id = ''a'', parentId = None, customType = None, entry_data = CustomData JNull\<rparr>,
      EntryWrite \<lparr>entry_id = ''b'', parentId = Some ''a'', customType = None, entry_data = CustomData JNull\<rparr>] 1 7) newSessionState)"

lemma two_entries_eq: "two_entries = newSessionState
   \<lparr>entries := [(''a'', \<lparr>entry_id = ''a'', parentId = None, customType = None, entry_data = CustomData JNull, entry_seq = 1, timestamp = 7\<rparr>),
      (''b'', \<lparr>entry_id = ''b'', parentId = Some ''a'', customType = None, entry_data = CustomData JNull, entry_seq = 2, timestamp = 7\<rparr>)],
    entriesBySeq := [\<lparr>entry_id = ''a'', parentId = None, customType = None, entry_data = CustomData JNull, entry_seq = 1, timestamp = 7\<rparr>,
      \<lparr>entry_id = ''b'', parentId = Some ''a'', customType = None, entry_data = CustomData JNull, entry_seq = 2, timestamp = 7\<rparr>],
    nextSeq := 3\<rparr>"
  by (simp add: two_entries_def apply_write_def add_entry_def entry_type_def materializeCommittedEntry_def
      new_entry.extend_def entry.fields_def newSessionState_def)

lemma two_entries_ok: "session_ok two_entries"
  by (simp add: two_entries_eq session_ok_def entries_ok_def usage_ok_def stats_ok_def values_ok_def newSessionState_def
      entry_type_def)

theorem scan_branch_reaches_root_witness:
  "\<exists>path found. branch_path (entries two_entries)
       \<lparr>entry_id = ''b'', parentId = Some ''a'', customType = None, entry_data = CustomData JNull, entry_seq = 2, timestamp = 7\<rparr> [] =
       Some (Inr path) \<and> parent_chain path \<and>
     scanBranch \<lparr>scan_start = ''b'', stopAtType = None, stopAtId = None, scan_type = None, scan_customType = None,
       oldestFirst = True, scan_limit = None, scan_cursor = None\<rparr> two_entries = Some (Inr found) \<and> subseq found (rev path)"
  using scan_branch_reaches_root [OF two_entries_ok, of "\<lparr>scan_start = ''b'', stopAtType = None, stopAtId = None,
      scan_type = None, scan_customType = None, oldestFirst = True, scan_limit = None, scan_cursor = None\<rparr>"
      "\<lparr>entry_id = ''b'', parentId = Some ''a'', customType = None, entry_data = CustomData JNull, entry_seq = 2, timestamp = 7\<rparr>"]
  by (auto simp: two_entries_eq)

section \<open>The abstract store of values\<close>

text \<open>What a sequence of writes does to one scalar value and to one list, as a reader sees them.\<close>

fun spec_value :: "address \<Rightarrow> 'n committed_write list \<Rightarrow> (json \<times> int) option \<Rightarrow> (json \<times> int) option" where
  "spec_value a [] old = old"
| "spec_value a (CommittedPut p # ws) old =
     spec_value a ws (if put_kind p = ValueKind \<and> a = (put_namespace p, put_key p) then Some (put_value p, put_seq p) else old)"
| "spec_value a (CommittedDelete kind _ n k # ws) old =
     spec_value a ws (if kind = ValueKind \<and> a = (n, k) then None else old)"
| "spec_value a (_ # ws) old = spec_value a ws old"

fun spec_list :: "address \<Rightarrow> 'n committed_write list \<Rightarrow> list_element list \<Rightarrow> list_element list" where
  "spec_list a [] old = old"
| "spec_list a (CommittedPut p # ws) old =
     spec_list a ws (if put_kind p = ListKind \<and> a = (put_namespace p, put_key p)
       then old @ [\<lparr>element_seq = put_seq p, element_value = put_value p\<rparr>] else old)"
| "spec_list a (CommittedDelete kind _ n k # ws) old =
     spec_list a ws (if kind = ListKind \<and> a = (n, k) then [] else old)"
| "spec_list a (_ # ws) old = spec_list a ws old"

definition abs_value :: "'n session_state \<Rightarrow> address \<Rightarrow> (json \<times> int) option" where
  "abs_value s a = map_option (\<lambda>v. (stored_data v, value_seq v)) (getValue a s)"

definition abs_list :: "'n session_state \<Rightarrow> address \<Rightarrow> list_element list" where
  "abs_list s a = (case al_get (physicalKey (fst a) (snd a)) (listValues s) of Some l \<Rightarrow> elements l | None \<Rightarrow> [])"

lemma valid_no_NUL: "valid_address n k \<Longrightarrow> NUL \<notin> set n \<and> NUL \<notin> set k"
  by (auto simp: validateAddress_def split: if_splits)

text \<open>The key of a valid address has a single separator, so no other pair has the same key.\<close>

lemma physicalKey_valid:
  assumes "valid_address (fst a) (snd a)"
  shows "physicalKey (fst a) (snd a) = physicalKey n k \<longleftrightarrow> a = (n, k)"
proof
  assume eq: "physicalKey (fst a) (snd a) = physicalKey n k"
  have "count_list (physicalKey (fst a) (snd a)) NUL = 1"
    using valid_no_NUL [OF assms] by (simp add: physicalKey_def count_notin)
  then have "count_list (physicalKey n k) NUL = 1" by (simp only: eq)
  then have "count_list n NUL = 0" by (simp add: physicalKey_def)
  then have "NUL \<notin> set n" by (simp add: count_list_0_iff)
  then show "a = (n, k)" using eq physicalKey_inject [of "fst a" n "snd a" k] valid_no_NUL [OF assms] by (cases a) auto
qed simp

definition keys_distinct :: "'n session_state \<Rightarrow> bool" where
  "keys_distinct s \<longleftrightarrow> distinct (al_keys (scalarValues s)) \<and> distinct (al_keys (listValues s))"

lemma take_session_write_abs:
  assumes "take_session_write w s = Inr t" and "keys_distinct s" and "valid_address (fst a) (snd a)"
  shows "keys_distinct t \<and> abs_value t a = spec_value a [w] (abs_value s a) \<and> abs_list t a = spec_list a [w] (abs_list s a)"
proof (cases w)
  case (CommittedEntry e)
  then show ?thesis using assms(1,2)
    by (auto simp: take_session_write_def apply_write_def add_entry_def keys_distinct_def abs_value_def abs_list_def getValue_def)
next
  case (CommittedUsage r)
  then show ?thesis using assms(1,2)
    by (auto simp: take_session_write_def apply_write_def add_usage_row_def keys_distinct_def abs_value_def abs_list_def getValue_def)
next
  case (CommittedPut p)
  note inj = physicalKey_valid [OF assms(3), of "put_namespace p" "put_key p"]
  show ?thesis using CommittedPut assms(1,2) inj
    by (cases "put_kind p")
       (auto simp: take_session_write_def apply_write_def applyValueSetOrListAppend_def make_address_def Let_def
          bind_throws_eq_Inr keys_distinct_def abs_value_def abs_list_def getValue_def split: option.splits)
next
  case (CommittedDelete kind q n k)
  note inj = physicalKey_valid [OF assms(3), of n k]
  show ?thesis using CommittedDelete assms(1,2) inj
    by (cases kind)
       (auto simp: take_session_write_def apply_write_def keys_distinct_def abs_value_def abs_list_def getValue_def)
qed

lemma spec_Cons: "spec_value a (w # ws) x = spec_value a ws (spec_value a [w] x)"
  "spec_list a (w # ws) y = spec_list a ws (spec_list a [w] y)"
  by (cases w; simp)+

lemma applyValidated_Inr: "applyValidated ws s = (Inr st, t) \<Longrightarrow> fold_throws take_session_write ws s = Inr t"
  by (induction ws arbitrary: s) (auto simp: take_session_write_def split: sum.splits)

lemma fold_writes_abs:
  assumes "fold_throws take_session_write ws s = Inr t" and "keys_distinct s" and "valid_address (fst a) (snd a)"
  shows "abs_value t a = spec_value a ws (abs_value s a) \<and> abs_list t a = spec_list a ws (abs_list s a)"
  using assms
proof (induction ws arbitrary: s)
  case (Cons w ws)
  then obtain u where u: "take_session_write w s = Inr u" "fold_throws take_session_write ws u = Inr t"
    by (auto simp: bind_throws_eq_Inr)
  have "keys_distinct u \<and> abs_value u a = spec_value a [w] (abs_value s a) \<and> abs_list u a = spec_list a [w] (abs_list s a)"
    using take_session_write_abs [OF u(1)] Cons.prems by simp
  then show ?case using Cons.IH [OF u(2)] Cons.prems spec_Cons by (metis list.set_intros(2))
qed simp

section \<open>A commit is applied as a whole\<close>

text \<open>
  What the writes of a transaction mean, from the first sequence number and the time they are given: the entries and
  usage rows they add, and what becomes of one value and one list.
\<close>

fun entries_written :: "'n session_write list \<Rightarrow> int \<Rightarrow> int \<Rightarrow> entry list" where
  "entries_written [] seq time = []"
| "entries_written (EntryWrite e # ws) seq time =
     \<lparr>entry_id = entry_id e, parentId = parentId e, customType = customType e, entry_data = entry_data e,
      entry_seq = seq, timestamp = time\<rparr> # entries_written ws (seq + 1) time"
| "entries_written (_ # ws) seq time = entries_written ws (seq + 1) time"

fun rows_written :: "'n session_write list \<Rightarrow> int \<Rightarrow> 'n usage_row list" where
  "rows_written [] seq = []"
| "rows_written (UsageWrite r # ws) seq =
     \<lparr>row_id = row_id r, row_usage = row_usage r, row_entryId = row_entryId r, row_adjustment = row_adjustment r,
      row_seq = seq\<rparr> # rows_written ws (seq + 1)"
| "rows_written (_ # ws) seq = rows_written ws (seq + 1)"

fun value_written :: "address \<Rightarrow> 'n session_write list \<Rightarrow> int \<Rightarrow> (json \<times> int) option \<Rightarrow> (json \<times> int) option" where
  "value_written a [] seq old = old"
| "value_written a (PutWrite ValueKind n k v # ws) seq old =
     value_written a ws (seq + 1) (if a = (n, k) then Some (v, seq) else old)"
| "value_written a (DeleteWrite ValueKind n k # ws) seq old =
     value_written a ws (seq + 1) (if a = (n, k) then None else old)"
| "value_written a (_ # ws) seq old = value_written a ws (seq + 1) old"

fun list_written :: "address \<Rightarrow> 'n session_write list \<Rightarrow> int \<Rightarrow> list_element list \<Rightarrow> list_element list" where
  "list_written a [] seq old = old"
| "list_written a (PutWrite ListKind n k v # ws) seq old =
     list_written a ws (seq + 1) (if a = (n, k) then old @ [\<lparr>element_seq = seq, element_value = v\<rparr>] else old)"
| "list_written a (DeleteWrite ListKind n k # ws) seq old =
     list_written a ws (seq + 1) (if a = (n, k) then [] else old)"
| "list_written a (_ # ws) seq old = list_written a ws (seq + 1) old"

lemma spec_value_commit_from: "spec_value a (commit_from ws seq time) old = value_written a ws seq old"
proof (induction ws arbitrary: seq old)
  case (Cons w ws)
  then show ?case by (cases "(a, w # ws, seq, old)" rule: value_written.cases) auto
qed simp

lemma spec_list_commit_from: "spec_list a (commit_from ws seq time) old = list_written a ws seq old"
proof (induction ws arbitrary: seq old)
  case (Cons w ws)
  then show ?case by (cases "(a, w # ws, seq, old)" rule: list_written.cases) auto
qed simp

lemma commit_applies:
  assumes "session_ok s" and "validateCommitted s (commit_from ws (nextSeq s) time) = Inr ()"
    and "\<forall>kind n k v. PutWrite kind n k v \<in> set ws \<longrightarrow> valid_address n k"
  shows "\<exists>t. fold_throws take_session_write (commit_from ws (nextSeq s) time) s = Inr t \<and> session_ok t \<and>
    nextSeq t = nextSeq s + int (length ws)"
proof -
  let ?cs = "commit_from ws (nextSeq s) time"
  have put: "CommittedPut q \<in> set (commit_from ws n time) \<Longrightarrow>
      PutWrite (put_kind q) (put_namespace q) (put_key q) (put_value q) \<in> set ws" for q n
  proof (induction ws arbitrary: n)
    case (Cons w ws)
    then show ?case by (cases w) auto
  qed simp
  then have "addresses_ok ?cs" using assms(3) unfolding addresses_ok_def by blast
  moreover have "session_ids s = {i. al_has i (entries s) \<or> al_has i (usage_rows s)}" "session_entry_ids s = {i. al_has i (entries s)}"
    by (auto simp: session_ids_def session_entry_ids_def al_has_iff)
  ultimately obtain t where t: "fold_throws take_session_write ?cs s = Inr t" "session_ok t"
    "nextSeq t = (if ?cs = [] then nextSeq s else committed_seq (last ?cs) + 1)"
    using memory_store.take_commit [OF assms(2) [unfolded validateCommitted_def] _ assms(1)] by blast
  have "nextSeq t = nextSeq s + int (length ws)"
  proof (cases "?cs = []")
    case True
    then show ?thesis using t(3) by (cases ws) auto
  next
    case False
    then have "committed_seq (last ?cs) = last (map committed_seq ?cs)" by (simp add: last_map)
    also have "\<dots> = nextSeq s + int (length ws - 1)"
      unfolding seqs_commit_from using False by (cases ws rule: rev_cases) (auto simp: last_map)
    finally show ?thesis using t(3) False by (cases ws) auto
  qed
  then show ?thesis using t by blast
qed

lemma take_entry_written:
  assumes "take_session_write (commitWrite w seq time) s = Inr u"
  shows "entriesBySeq u = entriesBySeq s @ entries_written [w] seq time"
  using assms
  by (cases w) (auto simp: take_session_write_def apply_write_def add_entry_def add_usage_row_def applyValueSetOrListAppend_def
      bind_throws_eq_Inr Let_def materializeCommittedEntry_def new_entry.extend_def entry.fields_def
      split: value_kind.splits option.splits)

lemma take_row_written:
  assumes "take_session_write (commitWrite w seq time) s = Inr u" and "\<And>r. w = UsageWrite r \<Longrightarrow> row_id r \<notin> fst ` set (usage_rows s)"
  shows "usage_rows u = usage_rows s @ map (\<lambda>r. (row_id r, r)) (rows_written [w] seq)"
proof (cases w)
  case (UsageWrite r)
  then show ?thesis using assms(1) al_set_new [OF assms(2) [OF UsageWrite]]
    by (auto simp: take_session_write_def apply_write_def add_usage_row_def new_usage_row.extend_def usage_row.fields_def)
qed (use assms(1) in \<open>auto simp: take_session_write_def apply_write_def add_entry_def applyValueSetOrListAppend_def
      bind_throws_eq_Inr Let_def split: value_kind.splits option.splits\<close>)

lemma written_Cons:
  "entries_written (w # ws) seq time = entries_written [w] seq time @ entries_written ws (seq + 1) time"
  "rows_written (w # ws) seq = rows_written [w] seq @ rows_written ws (seq + 1)"
  by (cases w; simp)+

lemma fold_entries_written:
  "fold_throws take_session_write (commit_from ws seq time) s = Inr t \<Longrightarrow>
   entriesBySeq t = entriesBySeq s @ entries_written ws seq time"
proof (induction ws arbitrary: seq s)
  case (Cons w ws)
  then obtain u where u: "take_session_write (commitWrite w seq time) s = Inr u"
    "fold_throws take_session_write (commit_from ws (seq + 1) time) u = Inr t" by (auto simp: bind_throws_eq_Inr)
  then show ?case using Cons.IH [OF u(2)] take_entry_written [OF u(1)] written_Cons(1) [of w ws] by simp
qed simp

text \<open>The validation keeps the identifiers of usage rows fresh, so each row is added, none replaced.\<close>

lemma fold_rows_written:
  assumes "validate_writes has_id has_entry prev A B (commit_from ws seq time) = Inr ()"
    and "fold_throws take_session_write (commit_from ws seq time) s = Inr t"
    and "fst ` set (usage_rows s) \<subseteq> {i. has_id i} \<union> A"
  shows "usage_rows t = usage_rows s @ map (\<lambda>r. (row_id r, r)) (rows_written ws seq)"
  using assms
proof (induction ws arbitrary: seq s prev A B)
  case (Cons w ws)
  from Cons.prems(2) obtain u where u: "take_session_write (commitWrite w seq time) s = Inr u"
    "fold_throws take_session_write (commit_from ws (seq + 1) time) u = Inr t" by (auto simp: bind_throws_eq_Inr)
  let ?new = "new_ids (commitWrite w seq time)"
  have fresh: "row_id r \<notin> fst ` set (usage_rows s)" if "w = UsageWrite r" for r
    using Cons.prems(1,3) that by (auto simp: new_usage_row.extend_def usage_row.fields_def split: if_splits)
  note row = take_row_written [OF u(1) fresh]
  have sub: "fst ` set (usage_rows u) \<subseteq> {i. has_id i} \<union> (?new \<union> A)"
    using row Cons.prems(3) by (cases w) (auto simp: new_usage_row.extend_def usage_row.fields_def)
  have "\<exists>prev' B'. validate_writes has_id has_entry prev' (?new \<union> A) B' (commit_from ws (seq + 1) time) = Inr ()"
    using Cons.prems(1) by (cases w) (auto split: if_splits option.splits)
  then obtain prev' B' where "validate_writes has_id has_entry prev' (?new \<union> A) B' (commit_from ws (seq + 1) time) = Inr ()"
    by blast
  from Cons.IH [OF this u(2) sub] show ?case using row written_Cons(2) [of w ws] by simp
qed simp

text \<open>
  C7: A commit is applied as a whole. When the validation of a transaction on a consistent state succeeds and the
  addresses of its values are valid, applying it never fails, and the new state is the old one with every write of the
  transaction in it: its entries after the old ones, with the next sequence numbers and the commit time; its usage rows
  after the old ones; and at every valid address the scalar value and the list as the sets, appends and deletions of
  that address leave them, in order. The sequence numbers are the next ones in order, and the new state is consistent:
  entries indexed by id and in strictly increasing sequence order with every parent earlier, usage rows disjoint from
  entries, totals equal to a recount, values under the key of their address.
\<close>

theorem session_commit_invariant:
  assumes "session_ok s" and "prepareCommit s ws time = Inr p"
    and "\<forall>kind n k v. PutWrite kind n k v \<in> set ws \<longrightarrow> valid_address n k"
  shows "\<exists>t. applyValidated (prepared_writes p) s = (Inr (stats t), t) \<and> session_ok t \<and>
    prepared_seqs p = map (\<lambda>i. nextSeq s + int i) [0..<length ws] \<and> nextSeq t = nextSeq s + int (length ws) \<and>
    entriesBySeq t = entriesBySeq s @ entries_written ws (nextSeq s) time \<and>
    usage_rows t = usage_rows s @ map (\<lambda>r. (row_id r, r)) (rows_written ws (nextSeq s)) \<and>
    (\<forall>a. valid_address (fst a) (snd a) \<longrightarrow>
      map_option (\<lambda>v. (stored_data v, value_seq v)) (getValue a t) =
        value_written a ws (nextSeq s) (map_option (\<lambda>v. (stored_data v, value_seq v)) (getValue a s)) \<and>
      (\<forall>n. readList a \<lparr>read_cursor = None, read_descending = False, read_limit = n\<rparr> t =
        take n (list_written a ws (nextSeq s) (abs_list s a))))"
proof -
  let ?cs = "commit_from ws (nextSeq s) time"
  have p: "prepared_writes p = ?cs" "prepared_seqs p = map committed_seq ?cs" and valid: "validateCommitted s ?cs = Inr ()"
    using assms(2) by (auto simp: prepareCommit_def prepareStorageCommit_def Let_def bind_throws_eq_Inr)
  obtain t where t: "fold_throws take_session_write ?cs s = Inr t" "session_ok t" "nextSeq t = nextSeq s + int (length ws)"
    using commit_applies [OF assms(1) valid assms(3)] by blast
  have "keys_distinct s" using assms(1) by (simp add: session_ok_def values_ok_def keys_distinct_def)
  note read = fold_writes_abs [OF t(1) this, unfolded spec_value_commit_from spec_list_commit_from]
  have "fst ` set (usage_rows s) \<subseteq> {i. al_has i (entries s) \<or> al_has i (usage_rows s)} \<union> {}" by (auto simp: al_has_iff)
  note rows = fold_rows_written [OF valid [unfolded validateCommitted_def validateCommittedWrites_def] t(1) this]
  have list: "readList a \<lparr>read_cursor = None, read_descending = False, read_limit = n\<rparr> t = take n (abs_list t a)" for a n
    by (simp add: abs_list_def readList_def Let_def split: option.split)
  show ?thesis
    by (intro exI [of _ t] conjI allI impI)
       (use t p seqs_commit_from [of ws "nextSeq s" time] applyValidated_fold [OF t(1)] fold_entries_written [OF t(1)] rows
          read list in \<open>simp_all add: abs_value_def\<close>)
qed

lemma session_commit_invariant_witness_writes:
  "prepareCommit (newSessionState :: int session_state)
     [EntryWrite \<lparr>entry_id = ''a'', parentId = None, customType = None, entry_data = CustomData JNull\<rparr>,
      PutWrite ListKind ''app'' ''l'' JNull, DeleteWrite ListKind ''app'' ''l'',
      PutWrite ListKind ''app'' ''l'' (JBool True), PutWrite ValueKind ''app'' ''k'' JNull] 7 =
   Inr \<lparr>prepared_writes = commit_from
     [EntryWrite \<lparr>entry_id = ''a'', parentId = None, customType = None, entry_data = CustomData JNull\<rparr>,
      PutWrite ListKind ''app'' ''l'' JNull, DeleteWrite ListKind ''app'' ''l'',
      PutWrite ListKind ''app'' ''l'' (JBool True), PutWrite ValueKind ''app'' ''k'' JNull] 1 7,
     firstSeq = 1, prepared_seqs = [1, 2, 3, 4, 5], prepared_timestamp = 7\<rparr>"
  by (simp add: prepareCommit_def prepareStorageCommit_def newSessionState_def validateCommitted_def
      validateCommittedWrites_def al_has_def materializeCommittedEntry_def new_entry.extend_def entry.fields_def)

theorem session_commit_invariant_witness:
  "\<exists>t. applyValidated (commit_from
     [EntryWrite \<lparr>entry_id = ''a'', parentId = None, customType = None, entry_data = CustomData JNull\<rparr>,
      PutWrite ListKind ''app'' ''l'' JNull, DeleteWrite ListKind ''app'' ''l'',
      PutWrite ListKind ''app'' ''l'' (JBool True), PutWrite ValueKind ''app'' ''k'' JNull] 1 7)
      (newSessionState :: int session_state) = (Inr (stats t), t) \<and>
    session_ok t \<and> nextSeq t = 6 \<and> map entry_id (entriesBySeq t) = [''a''] \<and>
    readList (''app'', ''l'') \<lparr>read_cursor = None, read_descending = False, read_limit = 10\<rparr> t =
      [\<lparr>element_seq = 4, element_value = JBool True\<rparr>]"
proof -
  have valid: "valid_address ''app'' k" if "k = ''l'' \<or> k = ''k''" for k
    using that by (auto simp: validateAddress_def NUL_def)
  have "valid_address (fst (''app'', ''l'')) (snd (''app'', ''l''))" using valid by simp
  then show ?thesis
    using session_commit_invariant [OF newSessionState_ok session_commit_invariant_witness_writes] valid
    by (fastforce simp: newSessionState_def abs_list_def)
qed

text \<open>
  C33: The store of values refines an abstract map from addresses to values and lists: after a commit a scalar read
  gives exactly the last write to that address (with its sequence number), or nothing after a deletion, and a list
  read gives the elements kept since its last deletion, in order of commit; writes to other addresses do not matter.
\<close>

theorem committed_values_read_back:
  assumes "session_ok s" and "applyValidated ws s = (Inr st, t)"
    and "valid_address (fst a) (snd a)"
  shows "map_option (\<lambda>v. (stored_data v, value_seq v)) (getValue a t) = spec_value a ws (abs_value s a) \<and>
    readList a \<lparr>read_cursor = None, read_descending = False, read_limit = n\<rparr> t = take n (spec_list a ws (abs_list s a))"
proof -
  have "keys_distinct s" using assms(1) by (simp add: session_ok_def values_ok_def keys_distinct_def)
  from fold_writes_abs [OF applyValidated_Inr [OF assms(2)] this assms(3)] show ?thesis
    by (auto simp: abs_value_def abs_list_def readList_def Let_def split: option.splits)
qed

theorem committed_values_read_back_witness:
  "\<exists>t :: int session_state. map_option (\<lambda>v. (stored_data v, value_seq v)) (getValue (''app'', ''k'') t) = Some (JBool True, 2) \<and>
     readList (''app'', ''k'') \<lparr>read_cursor = None, read_descending = False, read_limit = 10\<rparr> t = []"
proof -
  let ?ws = "commit_from [PutWrite ValueKind ''app'' ''k'' JNull, PutWrite ValueKind ''app'' ''k'' (JBool True)] 1 7 :: int committed_write list"
  have valid: "valid_address ''app'' ''k''" by (simp add: validateAddress_def NUL_def)
  then obtain st t where t: "applyValidated ?ws newSessionState = (Inr st, t)"
    by (simp add: apply_write_def applyValueSetOrListAppend_def make_address_def)
  from committed_values_read_back [OF newSessionState_ok t, of "(''app'', ''k'')" 10] valid show ?thesis
    by (auto simp: abs_value_def abs_list_def getValue_def newSessionState_def)
qed

end
