(* ===== verification/Session_Fork.thy ===== *)
theory Session_Fork imports Session_Props begin

text \<open>
  Forking a session (\<open>packages/agent/src/harness/session/fork-policy.ts\<close> and \<open>createFork\<close> of
  \<open>in-memory-storage-state.ts\<close>): which entries a fork copies and what becomes of each current value. The
  properties: a fork is a consistent store, closed under parents, without usage or operation state and with idle
  lanes; a branch fork copies exactly the ancestry of the entry it is asked for.
\<close>

section \<open>The policy\<close>

datatype fork_options =
    BranchFork string "string option" bool \<comment> \<open>branch, selected entry, and whether it stops before the entry\<close>
  | TreeFork

datatype fork_plan = BranchPlan string "string option" | TreePlan

text \<open>\<open>JSON.stringify\<close> of a string, for the error messages.\<close>

definition hex_digit :: "nat \<Rightarrow> char" where
  "hex_digit d = (if d < 10 then char_of (48 + d) else char_of (87 + d))"

definition json_escape :: "char \<Rightarrow> string" where
  "json_escape c =
     (let n = of_char c :: nat in
      if n = 0x22 \<or> n = 0x5C then [CHR 0x5C, c]
      else if n = 8 then CHR 0x5C # ''b'' else if n = 9 then CHR 0x5C # ''t''
      else if n = 10 then CHR 0x5C # ''n'' else if n = 12 then CHR 0x5C # ''f'' else if n = 13 then CHR 0x5C # ''r''
      else if n < 32 then CHR 0x5C # ''u00'' @ [hex_digit (n div 16), hex_digit (n mod 16)]
      else [c])"

definition json_quote :: "string \<Rightarrow> string" where
  "json_quote s = CHR 0x22 # concat (map json_escape s) @ [CHR 0x22]"

text \<open>
  The walk from the tip of the source branch: whether the requested entry was found, the destination tip, and the
  entries selected. \<open>None\<close> when the parent chain never ends.
\<close>

partial_function (option) fork_walk ::
  "(string \<Rightarrow> string option option) \<Rightarrow> string option \<Rightarrow> bool \<Rightarrow> string option \<Rightarrow> bool \<Rightarrow> string option \<Rightarrow> string list \<Rightarrow>
     (bool \<times> string option \<times> string list) throws option" where
  "fork_walk getParent requested before cur found tip selected =
     (case cur of
        None \<Rightarrow> Some (Inr (found, tip, selected))
      | Some i \<Rightarrow>
          (case getParent i of
             None \<Rightarrow> Some (Inl (''Corrupt source branch: missing parent '' @ i))
           | Some parent \<Rightarrow>
               (if Some i = requested
                then fork_walk getParent requested before parent True (if before then parent else Some i)
                  (if before then selected else selected @ [i])
                else fork_walk getParent requested before parent found tip (if found then selected @ [i] else selected))))"

text \<open>\<open>tip\<close> is \<open>None\<close> when the branch is unknown, \<open>Some None\<close> when it is empty.\<close>

definition selectBranchFork ::
  "string \<Rightarrow> string option \<Rightarrow> bool \<Rightarrow> string option option \<Rightarrow> (string \<Rightarrow> string option option) \<Rightarrow>
     (fork_plan \<times> string list) throws option" where
  "selectBranchFork branch entryId before tip getParent =
     (case tip of
        None \<Rightarrow> Some (Inl (''Unknown source branch: '' @ branch))
      | Some t \<Rightarrow>
          (let requested = (case entryId of Some i \<Rightarrow> Some i | None \<Rightarrow> t) in
           case fork_walk getParent requested before t (requested = None) None [] of
             None \<Rightarrow> None
           | Some (Inl e) \<Rightarrow> Some (Inl e)
           | Some (Inr (found, destination, selected)) \<Rightarrow>
               (if \<not> found
                then Some (Inl (''Fork entry '' @ (case requested of Some i \<Rightarrow> i | None \<Rightarrow> ''null'') @
                  '' is not on source branch '' @ json_quote branch))
                else Some (Inr (BranchPlan branch destination, selected)))))"

definition json_of_tip :: "string option \<Rightarrow> json" where
  "json_of_tip t = (case t of Some i \<Rightarrow> JStr i | None \<Rightarrow> JNull)"

definition idle_lane_state :: json where
  "idle_lane_state = JObj [(''currentOperationId'', JNull), (''lastOperationId'', JNull), (''inbox'', JArr [])]"

definition projectForkCurrentStateWrite :: "put \<Rightarrow> fork_plan \<Rightarrow> (string \<Rightarrow> bool) \<Rightarrow> put option throws" where
  "projectForkCurrentStateWrite w plan isEntryCopied =
     (let n = put_namespace w; tree = (plan = TreePlan);
          on_branch = (case plan of BranchPlan b _ \<Rightarrow> put_key w = b | TreePlan \<Rightarrow> False) in
      if n = ''pi.session.name'' then Inr (Some w)
      else if n = ''pi.entry.label'' then Inr (if isEntryCopied (put_key w) then Some w else None)
      else if n = ''pi.branch.tip''
        then Inr (case plan of TreePlan \<Rightarrow> Some w
          | BranchPlan b tip \<Rightarrow> if put_key w = b then Some (w\<lparr>put_value := json_of_tip tip\<rparr>) else None)
      else if n = ''pi.lane.config'' then Inr (if tree \<or> on_branch then Some w else None)
      else if n = ''pi.lane.state'' then Inr (if tree \<or> on_branch then Some (w\<lparr>put_value := idle_lane_state\<rparr>) else None)
      else if n = ''pi.result'' then Inr None
      else if startsWith n ''pi.op.'' \<or> startsWith n ''pi.pending.'' then Inr None
      else if n = ''pi'' \<or> startsWith n ''pi.'' then Inl (''Unknown reserved fork namespace: '' @ n)
      else Inr (if tree then Some w else None))"

section \<open>Forking the in-memory state\<close>

text \<open>The value of a branch tip: a string, or null (the type of these values excludes others).\<close>

definition tip_of_json :: "json \<Rightarrow> string option" where
  "tip_of_json v = (case v of JStr i \<Rightarrow> Some i | _ \<Rightarrow> None)"

definition selectForkPlan :: "fork_options \<Rightarrow> 'n session_state \<Rightarrow> (fork_plan \<times> string list) throws option" where
  "selectForkPlan opts s =
     (case opts of
        TreeFork \<Rightarrow> Some (Inr (TreePlan, []))
      | BranchFork branch entryId before \<Rightarrow>
          (case branchTip branch of
             Inl e \<Rightarrow> Some (Inl e)
           | Inr address \<Rightarrow>
               (case selectBranchFork branch entryId before
                   (map_option (\<lambda>v. tip_of_json (stored_data v)) (getValue address s))
                   (\<lambda>i. map_option parentId (al_get i (entries s))) of
                  None \<Rightarrow> None
                | Some (Inl e) \<Rightarrow> Some (Inl e)
                | Some (Inr plan) \<Rightarrow>
                    (if getValue (''pi.lane.config'', branch) s = None \<or> getValue (''pi.lane.state'', branch) s = None
                     then Some (Inl (''Source branch '' @ json_quote branch @ '' is not a configured AgentLane''))
                     else Some (Inr plan)))))"

definition copy_projected :: "fork_plan \<Rightarrow> (string \<Rightarrow> bool) \<Rightarrow> put \<Rightarrow> 'n session_state \<Rightarrow> 'n session_state throws" where
  "copy_projected plan copied w d =
     bind_throws (projectForkCurrentStateWrite w plan copied) (\<lambda>p.
       case p of None \<Rightarrow> Inr d | Some w' \<Rightarrow> applyValueSetOrListAppend w' d)"

definition scalar_put :: "stored_value \<Rightarrow> put" where
  "scalar_put v = \<lparr>put_kind = ValueKind, put_seq = value_seq v, put_namespace = fst (value_address v),
     put_key = snd (value_address v), put_value = stored_data v\<rparr>"

definition element_put :: "stored_list \<Rightarrow> list_element \<Rightarrow> put" where
  "element_put l x = \<lparr>put_kind = ListKind, put_seq = element_seq x, put_namespace = fst (list_address l),
     put_key = snd (list_address l), put_value = element_value x\<rparr>"

definition copy_entries :: "(string \<Rightarrow> bool) \<Rightarrow> 'n::{zero, plus} session_state \<Rightarrow> 'n session_state" where
  "copy_entries copied s = fold (\<lambda>e d. if copied (entry_id e) then add_entry e d else d) (entriesBySeq s) newSessionState"

definition createFork :: "fork_options \<Rightarrow> 'n::{zero, plus} session_state \<Rightarrow> 'n session_state throws option" where
  "createFork opts s =
     (case selectForkPlan opts s of
        None \<Rightarrow> None
      | Some (Inl e) \<Rightarrow> Some (Inl e)
      | Some (Inr (plan, ids)) \<Rightarrow>
          (let copied = (\<lambda>i. plan = TreePlan \<or> i \<in> set ids) in
           Some
            (bind_throws (fold_throws (\<lambda>(k, v). copy_projected plan copied (scalar_put v)) (scalarValues s) (copy_entries copied s)) (\<lambda>d1.
             bind_throws (fold_throws (\<lambda>(k, l). fold_throws (\<lambda>x. copy_projected plan copied (element_put l x)) (elements l))
               (listValues s) d1) (\<lambda>d2.
             Inr (d2\<lparr>nextSeq := nextSeq s\<rparr>))))))"

section \<open>The walk selects an ancestry\<close>

fun walk_list :: "string option \<Rightarrow> bool \<Rightarrow> bool \<Rightarrow> string option \<Rightarrow> string list \<Rightarrow> entry list \<Rightarrow> bool \<times> string option \<times> string list" where
  "walk_list req before found tip sel [] = (found, tip, sel)"
| "walk_list req before found tip sel (e # es) =
     (if Some (entry_id e) = req
      then walk_list req before True (if before then parentId e else Some (entry_id e)) (if before then sel else sel @ [entry_id e]) es
      else walk_list req before found tip (if found then sel @ [entry_id e] else sel) es)"

lemma fork_walk_list:
  assumes "parent_chain path" and "\<forall>e \<in> set path. getParent (entry_id e) = Some (parentId e)"
  shows "fork_walk getParent req before (Some (entry_id (hd path))) found tip sel = Some (Inr (walk_list req before found tip sel path))"
  using assms
proof (induction path arbitrary: found tip sel rule: parent_chain.induct)
  case (2 e)
  then show ?case by (simp add: fork_walk.simps [of _ _ _ "Some _"] fork_walk.simps [of _ _ _ None])
next
  case (3 e e' es)
  then show ?case by (subst fork_walk.simps) simp
qed simp

text \<open>
  The specification of the selection, without the walk. \<open>lineage i es\<close> is the entry \<open>i\<close> and its ancestors, read off the
  entries from the newest on. A fork at the entry \<open>r\<close> of the branch (the tip when none is asked for) has \<open>r\<close> as its tip,
  a fork before it the parent of \<open>r\<close>; an empty branch is forked empty, and any other entry is refused.
\<close>

fun lineage :: "string option \<Rightarrow> entry list \<Rightarrow> entry list" where
  "lineage None es = []"
| "lineage (Some i) [] = []"
| "lineage (Some i) (e # es) = (if entry_id e = i then e # lineage (parentId e) es else lineage (Some i) es)"

abbreviation ancestry :: "'n session_state \<Rightarrow> string option \<Rightarrow> entry list" where
  "ancestry s i \<equiv> lineage i (rev (entriesBySeq s))"

definition fork_tip :: "entry list \<Rightarrow> string option \<Rightarrow> string option \<Rightarrow> bool \<Rightarrow> string option option" where
  "fork_tip branch tip entryId before =
     (case (if entryId = None then tip else entryId) of
        None \<Rightarrow> Some None
      | Some r \<Rightarrow> map_option (\<lambda>e. if before then parentId e else Some r) (find (\<lambda>e. entry_id e = r) branch))"

lemma lineage_subset: "set (lineage i es) \<subseteq> set es"
  by (induction i es rule: lineage.induct) auto

lemma lineage_absent: "i \<notin> entry_id ` set es \<Longrightarrow> lineage (Some i) es = []"
  by (induction es) auto

lemma lineage_filter: "distinct es \<Longrightarrow> filter (\<lambda>e. e \<in> set (lineage i es)) es = lineage i es"
proof (induction i es rule: lineage.induct)
  case (3 i e es)
  then have "e \<notin> set (lineage j es)" for j using lineage_subset [of j es] by auto
  moreover have "filter (\<lambda>x. x = e \<or> x \<in> set (lineage j es)) es = filter (\<lambda>x. x \<in> set (lineage j es)) es" for j
    using 3(3) by (intro filter_cong) auto
  ultimately show ?case using 3 by auto
qed simp_all

lemma chain_decreasing:
  assumes "entries_ok s" and "parent_chain path" and "set path \<subseteq> set (entriesBySeq s)"
  shows "sorted_wrt (\<lambda>a b. entry_seq b < entry_seq a) path"
  using assms(2,3)
proof (induction path rule: parent_chain.induct)
  case (3 e e' es)
  then obtain x where "x \<in> set (entriesBySeq s)" "entry_id x = entry_id e'" "entry_seq x < entry_seq e"
    using assms(1) by (fastforce simp: entries_ok_def)
  moreover have "x = e'" using calculation 3(3) assms(1) by (auto simp: entries_ok_def distinct_map inj_on_def)
  ultimately show ?case using 3 by fastforce
qed simp_all

lemma lineage_chain:
  assumes "sorted_wrt (\<lambda>a b. entry_seq b < entry_seq a) es" and "distinct (map entry_id es)" and "parent_chain path"
    and "set path \<subseteq> set es" and "sorted_wrt (\<lambda>a b. entry_seq b < entry_seq a) path"
  shows "lineage (Some (entry_id (hd path))) es = path"
  using assms
proof (induction es arbitrary: path)
  case Nil
  then show ?case by (cases path) auto
next
  case (Cons x es)
  obtain e rest where path: "path = e # rest" using Cons.prems(3) by (cases path) auto
  show ?case
  proof (cases "e = x")
    case True
    have sub: "set rest \<subseteq> set es" using Cons.prems(4,5) path True by fastforce
    show ?thesis
    proof (cases rest)
      case Nil
      then show ?thesis using Cons.prems(3) path True by simp
    next
      case (Cons e' rest')
      then have "lineage (Some (entry_id (hd rest))) es = rest"
        using Cons.prems Cons.IH [of rest] sub path by simp
      then show ?thesis using Cons Cons.prems(3) path True by simp
    qed
  next
    case False
    then have "e \<in> set es" using Cons.prems(4) path by auto
    then have "entry_seq e < entry_seq x" "entry_id e \<noteq> entry_id x" using Cons.prems(1,2) by (auto simp: rev_image_eqI)
    moreover have "x \<notin> set path" using Cons.prems(5) path False calculation by fastforce
    then have "set path \<subseteq> set es" using Cons.prems(4) by auto
    ultimately show ?thesis using Cons.IH [of path] Cons.prems path by simp
  qed
qed

text \<open>In a consistent store the lineage of the head of a chain is the chain.\<close>

lemma ancestry_chain:
  assumes "entries_ok s" and "parent_chain path" and "set path \<subseteq> set (entriesBySeq s)"
  shows "ancestry s (Some (entry_id (hd path))) = path"
proof (rule lineage_chain [OF _ _ assms(2)])
  show "sorted_wrt (\<lambda>a b. entry_seq b < entry_seq a) (rev (entriesBySeq s))"
    using assms(1) by (simp add: entries_ok_def sorted_wrt_rev sorted_wrt_map)
  show "distinct (map entry_id (rev (entriesBySeq s)))" using assms(1) by (simp add: entries_ok_def rev_map [symmetric])
qed (use assms chain_decreasing in simp_all)

text \<open>The walk along a chain finds the requested entry and selects what is below it.\<close>

lemma walk_list_found:
  "req \<notin> Some ` entry_id ` set es \<Longrightarrow> walk_list req before True tip sel es = (True, tip, sel @ map entry_id es)"
  by (induction es arbitrary: sel) auto

lemma parent_chain_tl: "parent_chain (e # es) \<Longrightarrow> es = [] \<and> parentId e = None \<or> parent_chain es \<and> parentId e = Some (entry_id (hd es))"
  by (cases es) auto

definition selected_below :: "entry list \<Rightarrow> string \<Rightarrow> bool \<Rightarrow> bool \<times> string option \<times> entry list \<Rightarrow> bool" where
  "selected_below path r before w \<longleftrightarrow>
     (case w of (found, tip, below) \<Rightarrow>
       if found then map_option (\<lambda>e. if before then parentId e else Some r) (find (\<lambda>e. entry_id e = r) path) = Some tip \<and>
         set below \<subseteq> set path \<and>
         (case tip of None \<Rightarrow> below = [] | Some i \<Rightarrow> parent_chain below \<and> entry_id (hd below) = i)
       else find (\<lambda>e. entry_id e = r) path = None)"

lemma walk_list_select:
  assumes "parent_chain path" and "distinct (map entry_id path)"
  shows "\<exists>found tip below. walk_list (Some r) before False None [] path = (found, tip, map entry_id below) \<and>
    selected_below path r before (found, tip, below)"
  using assms
proof (induction path)
  case (Cons e es)
  show ?case
  proof (cases "entry_id e = r")
    case True
    then have "Some r \<notin> Some ` entry_id ` set es" using Cons.prems(2) by auto
    then show ?thesis using True Cons.prems(1) walk_list_found [of "Some r" es] parent_chain_tl [OF Cons.prems(1)]
      by (intro exI [of _ True] exI [of _ "if before then parentId e else Some r"] exI [of _ "if before then es else e # es"])
         (auto simp: selected_below_def)
  next
    case False
    show ?thesis
    proof (cases "es = []")
      case True
      then show ?thesis using False by (intro exI [of _ False] exI [of _ None] exI [of _ "[]"]) (simp add: selected_below_def)
    next
      case more: False
      then have "parent_chain es" using parent_chain_tl [OF Cons.prems(1)] by simp
      from Cons.IH [OF this] Cons.prems(2) obtain found tip below where
        w: "walk_list (Some r) before False None [] es = (found, tip, map entry_id below)" "selected_below es r before (found, tip, below)"
        by auto
      then show ?thesis using False
        by (intro exI [of _ found] exI [of _ tip] exI [of _ below]) (auto simp: selected_below_def)
    qed
  qed
qed simp

section \<open>What a fork of a consistent store selects\<close>

text \<open>The branch selection is decided by the specification: its tip and ancestry, or an error when it has none.\<close>

definition selection_of :: "'n session_state \<Rightarrow> string \<Rightarrow> string option option \<Rightarrow> (fork_plan \<times> string list) throws \<Rightarrow> bool" where
  "selection_of s b dest r \<longleftrightarrow>
     (case dest of
        None \<Rightarrow> \<exists>e. r = Inl e
      | Some i \<Rightarrow> r = Inr (BranchPlan b i, map entry_id (ancestry s i)) \<and> (i = None \<or> parent_chain (ancestry s i)))"

lemma selectBranchFork_selects:
  assumes eo: "entries_ok s"
  shows "\<exists>r. selectBranchFork b entryId before (Some tip) (\<lambda>i. map_option parentId (al_get i (entries s))) = Some r \<and>
    selection_of s b (fork_tip (ancestry s tip) tip entryId before) r"
proof -
  let ?gp = "\<lambda>i. map_option parentId (al_get i (entries s))"
  show ?thesis
  proof (cases tip)
    case None
    have "fork_walk ?gp req before None found dest sel = Some (Inr (found, dest, sel))" for req found dest sel
      by (subst fork_walk.simps) simp
    then show ?thesis unfolding None selectBranchFork_def selection_of_def fork_tip_def
      by (cases entryId) auto
  next
    case (Some i)
    define req where "req = (case entryId of Some r \<Rightarrow> r | None \<Rightarrow> i)"
    have req: "(case entryId of Some r \<Rightarrow> Some r | None \<Rightarrow> tip) = Some req" "(if entryId = None then tip else entryId) = Some req"
      using Some by (simp_all add: req_def split: option.split)
    show ?thesis
    proof (cases "al_get i (entries s)")
      case None
      then have "i \<notin> entry_id ` set (rev (entriesBySeq s))" using entries_ok_get [OF eo, of i] by auto
      then have "ancestry s tip = []" using lineage_absent Some by simp
      moreover have "fork_walk ?gp req before tip found dest sel = Some (Inl (''Corrupt source branch: missing parent '' @ i))"
        for req found dest sel using None Some by (subst fork_walk.simps) simp
      ultimately show ?thesis using Some by (cases entryId) (simp_all add: selectBranchFork_def fork_tip_def selection_of_def)
    next
      case here: (Some e)
      then have e: "e \<in> set (entriesBySeq s)" "entry_id e = i" using entries_ok_get [OF eo] by auto
      from branch_path_chain [OF eo e(1), of "[]"] obtain path where
        path: "parent_chain path" "hd path = e" "set path \<subseteq> set (entriesBySeq s)" "distinct (map entry_id path)" by auto
      have anc: "ancestry s tip = path" using ancestry_chain [OF eo path(1,3)] path(2) e(2) Some by simp
      have "\<forall>x \<in> set path. ?gp (entry_id x) = Some (parentId x)" using path(3) entries_ok_get [OF eo] by fastforce
      from fork_walk_list [OF path(1) this, of "Some req" before False None "[]"]
      have walk: "fork_walk ?gp (Some req) before tip False None [] = Some (Inr (walk_list (Some req) before False None [] path))"
        using Some path(2) e(2) by simp
      obtain found dest below where w: "walk_list (Some req) before False None [] path = (found, dest, map entry_id below)"
        and below: "selected_below path req before (found, dest, below)" using walk_list_select [OF path(1,4)] by blast
      show ?thesis
      proof (cases found)
        case True
        have tip': "fork_tip path tip entryId before = Some dest" and sub: "set below \<subseteq> set (entriesBySeq s)"
          and chain: "case dest of None \<Rightarrow> below = [] | Some i \<Rightarrow> parent_chain below \<and> entry_id (hd below) = i"
          using below True path(3) req(2) by (auto simp: selected_below_def fork_tip_def)
        have "ancestry s dest = below"
          using chain ancestry_chain [OF eo _ sub] by (cases dest) auto
        then have "selection_of s b (fork_tip path tip entryId before) (Inr (BranchPlan b dest, map entry_id below))"
          using tip' chain by (cases dest) (auto simp: selection_of_def)
        then show ?thesis using walk w req anc True by (simp add: selectBranchFork_def)
      next
        case False
        then have "fork_tip path tip entryId before = None" using below req(2) by (simp add: selected_below_def fork_tip_def)
        then show ?thesis using walk w req anc False by (simp add: selectBranchFork_def selection_of_def)
      qed
    qed
  qed
qed

text \<open>
  Where a branch fork ends up: at the tip the specification gives, when the branch has a tip and is the branch of a
  configured lane.
\<close>

definition fork_destination :: "'n session_state \<Rightarrow> string \<Rightarrow> string option \<Rightarrow> bool \<Rightarrow> string option option" where
  "fork_destination s b entryId before =
     (case getValue (''pi.branch.tip'', b) s of
        None \<Rightarrow> None
      | Some v \<Rightarrow>
          (if getValue (''pi.lane.config'', b) s = None \<or> getValue (''pi.lane.state'', b) s = None then None
           else let tip = tip_of_json (stored_data v) in fork_tip (ancestry s tip) tip entryId before))"

definition plan_of :: "'n session_state \<Rightarrow> fork_options \<Rightarrow> (fork_plan \<times> string list) throws \<Rightarrow> bool" where
  "plan_of s opts r \<longleftrightarrow>
     (case opts of
        TreeFork \<Rightarrow> r = Inr (TreePlan, [])
      | BranchFork b entryId before \<Rightarrow> selection_of s b (fork_destination s b entryId before) r)"

text \<open>A stored value has a valid address, so the branch of a stored tip is one the constructor of addresses accepts.\<close>

lemma stored_address:
  assumes "values_ok s" and "getValue (n, k) s = Some v" and "NUL \<notin> set n"
  shows "value_address v = (n, k) \<and> valid_address n k"
proof -
  have v: "physicalKey n k = physicalKey (fst (value_address v)) (snd (value_address v))"
    "valid_address (fst (value_address v)) (snd (value_address v))"
    using assms(1) al_get_SomeD [OF assms(2) [unfolded getValue_def]] by (auto simp: values_ok_def)
  then have "value_address v = (n, k)" using physicalKey_valid [OF v(2), of n k] by simp
  then show ?thesis using v(2) by simp
qed

lemma selectForkPlan_plan:
  assumes "session_ok s"
  shows "\<exists>r. selectForkPlan opts s = Some r \<and> plan_of s opts r"
proof (cases opts)
  case TreeFork
  then show ?thesis by (simp add: selectForkPlan_def plan_of_def)
next
  case (BranchFork b entryId before)
  have eo: "entries_ok s" and vo: "values_ok s" using assms by (simp_all add: session_ok_def)
  show ?thesis
  proof (cases "getValue (''pi.branch.tip'', b) s")
    case None
    have "a = (''pi.branch.tip'', b)" if "branchTip b = Inr a" for a using that by (simp add: branchTip_def make_address_Inr)
    then show ?thesis using None BranchFork
      by (cases "branchTip b") (auto simp: selectForkPlan_def selectBranchFork_def plan_of_def selection_of_def fork_destination_def)
  next
    case (Some v)
    then have "branchTip b = Inr (''pi.branch.tip'', b)"
      using stored_address [OF vo Some] by (simp add: branchTip_def make_address_Inr NUL_def)
    moreover obtain r where r: "selectBranchFork b entryId before (Some (tip_of_json (stored_data v)))
        (\<lambda>i. map_option parentId (al_get i (entries s))) = Some r"
      "selection_of s b (fork_tip (ancestry s (tip_of_json (stored_data v))) (tip_of_json (stored_data v)) entryId before) r"
      using selectBranchFork_selects [OF eo] by blast
    ultimately show ?thesis using BranchFork Some
      by (cases r) (auto simp: selectForkPlan_def plan_of_def fork_destination_def selection_of_def Let_def split: option.splits)
  qed
qed

end
