(* ===== verification/Session_Fork_Props.thy ===== *)
theory Session_Fork_Props imports Session_Fork begin

text \<open>
  A fork of a consistent session store is a consistent session store: the copied entries are the ancestry of the fork's
  tip, and each value and list of the source is there or not, and changed or not, as the policy says.
\<close>

section \<open>Entries\<close>

lemma fold_add_entry:
  assumes "distinct (map entry_id es)" and "entries d = map (\<lambda>e. (entry_id e, e)) (entriesBySeq d)"
    and "entry_id ` set es \<inter> entry_id ` set (entriesBySeq d) = {}"
    and "messageCount (stats d) = length (filter (\<lambda>e. entry_type e = MessageType) (entriesBySeq d))"
  shows "\<exists>t. fold (\<lambda>e d. if copied (entry_id e) then add_entry e d else d) es d = t \<and>
    entriesBySeq t = entriesBySeq d @ filter (\<lambda>e. copied (entry_id e)) es \<and>
    entries t = map (\<lambda>e. (entry_id e, e)) (entriesBySeq t) \<and>
    messageCount (stats t) = length (filter (\<lambda>e. entry_type e = MessageType) (entriesBySeq t)) \<and>
    stats_usage (stats t) = stats_usage (stats d) \<and> usage_rows t = usage_rows d \<and>
    scalarValues t = scalarValues d \<and> listValues t = listValues d"
  using assms
proof (induction es arbitrary: d)
  case (Cons e es)
  let ?d = "if copied (entry_id e) then add_entry e d else d"
  have "entry_id e \<notin> fst ` set (entries d)" using Cons.prems(2,3) by (force simp: image_image)
  then have new: "al_set (entry_id e) e (entries d) = entries d @ [(entry_id e, e)]" by (rule al_set_new)
  note new' = new [unfolded Cons.prems(2)]
  have "entries ?d = map (\<lambda>e. (entry_id e, e)) (entriesBySeq ?d)" "entry_id ` set es \<inter> entry_id ` set (entriesBySeq ?d) = {}"
    "messageCount (stats ?d) = length (filter (\<lambda>e. entry_type e = MessageType) (entriesBySeq ?d))"
    using Cons.prems by (auto simp: add_entry_def new')
  from Cons.IH [OF _ this] Cons.prems(1) show ?case by (auto simp: add_entry_def)
qed simp

lemma copy_entries_props:
  assumes "entries_ok s" and "copy_entries copied s = d"
  shows "entriesBySeq d = filter (\<lambda>e. copied (entry_id e)) (entriesBySeq s)" "entries d = map (\<lambda>e. (entry_id e, e)) (entriesBySeq d)"
    "messageCount (stats d) = length (filter (\<lambda>e. entry_type e = MessageType) (entriesBySeq d))"
    "stats_usage (stats d) = emptyUsage" "usage_rows d = []" "scalarValues d = []" "listValues d = []"
  using fold_add_entry [of "entriesBySeq s" newSessionState copied] assms
  by (auto simp: copy_entries_def newSessionState_def entries_ok_def)

text \<open>The selection is closed under parents.\<close>

lemma chain_parent_closed:
  "parent_chain path \<Longrightarrow> e \<in> set path \<Longrightarrow> parentId e = Some p \<Longrightarrow> p \<in> entry_id ` set path"
  by (induction path rule: parent_chain.induct) auto

lemma plan_parent_closed:
  assumes "entries_ok s" and "plan_of s opts (Inr (plan, ids))" and "e \<in> set (entriesBySeq s)"
    and "plan = TreePlan \<or> entry_id e \<in> set ids" and "parentId e = Some p"
  shows "plan = TreePlan \<or> p \<in> set ids"
proof (cases "plan = TreePlan")
  case False
  then obtain dest where sel: "ids = map entry_id (ancestry s dest)" "dest = None \<or> parent_chain (ancestry s dest)"
    using assms(2) by (auto simp: plan_of_def selection_of_def split: fork_options.splits option.splits)
  have sub: "set (ancestry s dest) \<subseteq> set (entriesBySeq s)" using lineage_subset [of dest "rev (entriesBySeq s)"] by simp
  obtain x where x: "x \<in> set (ancestry s dest)" "entry_id x = entry_id e" using assms(4) False sel(1) by auto
  then have "x = e" using sub assms(1,3) by (auto simp: entries_ok_def distinct_map inj_on_def)
  moreover have "parent_chain (ancestry s dest)" using x(1) sel(2) by auto
  ultimately show ?thesis using chain_parent_closed x(1) assms(5) sel(1) by auto
qed simp

text \<open>The entries whose identifiers are selected are the ancestry itself, oldest first.\<close>

lemma filter_ancestry:
  assumes "entries_ok s"
  shows "filter (\<lambda>e. entry_id e \<in> entry_id ` set (ancestry s dest)) (entriesBySeq s) = rev (ancestry s dest)"
proof -
  let ?es = "rev (entriesBySeq s)"
  have ids: "distinct (map entry_id ?es)" using assms by (simp add: entries_ok_def rev_map [symmetric])
  have sub: "set (ancestry s dest) \<subseteq> set ?es" by (rule lineage_subset)
  have inj: "inj_on entry_id (set ?es)" and "distinct ?es" using ids by (simp_all only: distinct_map)
  have "filter (\<lambda>e. entry_id e \<in> entry_id ` set (ancestry s dest)) ?es = filter (\<lambda>e. e \<in> set (ancestry s dest)) ?es"
    by (rule filter_cong [OF refl]) (use inj_on_image_mem_iff [OF inj _ sub] in blast)
  also have "\<dots> = ancestry s dest" by (rule lineage_filter [OF \<open>distinct ?es\<close>])
  finally show ?thesis by (metis rev_filter rev_rev_ident)
qed

lemma copied_entries_ok:
  assumes "session_ok s" and "plan_of s opts (Inr (plan, ids))" and "d = copy_entries (\<lambda>i. plan = TreePlan \<or> i \<in> set ids) s"
    and "same_records d t" and "nextSeq t = nextSeq s"
  shows "entries_ok t \<and> usage_ok t \<and> stats_ok t"
proof -
  let ?copied = "\<lambda>i. plan = TreePlan \<or> i \<in> set ids"
  have eo: "entries_ok s" using assms(1) by (simp add: session_ok_def)
  note c = copy_entries_props [OF eo assms(3) [symmetric]]
  have t: "entriesBySeq t = filter (\<lambda>e. ?copied (entry_id e)) (entriesBySeq s)" "entries t = map (\<lambda>e. (entry_id e, e)) (entriesBySeq t)"
    "usage_rows t = []" using assms(4) c by (simp_all add: same_records_def)
  have "\<exists>e' \<in> set (entriesBySeq t). entry_id e' = p \<and> entry_seq e' < entry_seq e"
    if e: "e \<in> set (entriesBySeq t)" and p: "parentId e = Some p" for e p
  proof -
    from e t(1) have es: "e \<in> set (entriesBySeq s)" "?copied (entry_id e)" by auto
    then obtain e' where "e' \<in> set (entriesBySeq s)" "entry_id e' = p" "entry_seq e' < entry_seq e"
      using eo p by (fastforce simp: entries_ok_def)
    then show ?thesis using plan_parent_closed [OF eo assms(2) es p] t(1) by auto
  qed
  moreover have "distinct (map entry_id (entriesBySeq t))" "sorted_wrt (<) (map entry_seq (entriesBySeq t))"
    using eo t(1) by (auto simp: entries_ok_def distinct_map sorted_wrt_map sorted_wrt_filter intro: inj_on_subset)
  moreover have "\<forall>e \<in> set (entriesBySeq t). entry_seq e < nextSeq t" using eo t(1) assms(5) by (auto simp: entries_ok_def)
  ultimately have "entries_ok t" using t(2) by (simp add: entries_ok_def)
  then show ?thesis using t(3) c assms(4) by (simp add: usage_ok_def stats_ok_def same_records_def)
qed

section \<open>The policy for values\<close>

text \<open>
  The policy as a specification: the namespaces it does not know are refused; the session's name, the labels of copied
  entries, and the tip, configuration and state of the forked lane (of every lane in a fork of the tree) are kept; results,
  operations and pending state are dropped; other values go with the tree only. A kept lane state is idle and the kept tip
  of a branch fork is the destination.
\<close>

definition fork_rejects :: "string \<Rightarrow> bool" where
  "fork_rejects n \<longleftrightarrow> (n = ''pi'' \<or> startsWith n ''pi.'') \<and>
     n \<notin> {''pi.session.name'', ''pi.entry.label'', ''pi.branch.tip'', ''pi.lane.config'', ''pi.lane.state'', ''pi.result''} \<and>
     \<not> startsWith n ''pi.op.'' \<and> \<not> startsWith n ''pi.pending.''"

definition fork_keeps :: "fork_plan \<Rightarrow> (string \<Rightarrow> bool) \<Rightarrow> address \<Rightarrow> bool" where
  "fork_keeps plan copied a \<longleftrightarrow>
     (if fst a = ''pi.session.name'' then True
      else if fst a = ''pi.entry.label'' then copied (snd a)
      else if fst a \<in> {''pi.branch.tip'', ''pi.lane.config'', ''pi.lane.state''}
        then (case plan of TreePlan \<Rightarrow> True | BranchPlan b _ \<Rightarrow> snd a = b)
      else plan = TreePlan \<and> fst a \<noteq> ''pi.result'' \<and> \<not> startsWith (fst a) ''pi.op.'' \<and> \<not> startsWith (fst a) ''pi.pending.'')"

definition fork_data :: "fork_plan \<Rightarrow> string \<Rightarrow> json \<Rightarrow> json" where
  "fork_data plan n v =
     (if n = ''pi.lane.state'' then idle_lane_state
      else case plan of BranchPlan _ tip \<Rightarrow> if n = ''pi.branch.tip'' then json_of_tip tip else v | TreePlan \<Rightarrow> v)"

definition fork_value :: "fork_plan \<Rightarrow> stored_value \<Rightarrow> stored_value" where
  "fork_value plan v = v\<lparr>stored_data := fork_data plan (fst (value_address v)) (stored_data v)\<rparr>"

definition fork_element :: "fork_plan \<Rightarrow> string \<Rightarrow> list_element \<Rightarrow> list_element" where
  "fork_element plan n x = x\<lparr>element_value := fork_data plan n (element_value x)\<rparr>"

lemma project_spec:
  "projectForkCurrentStateWrite w plan copied =
    (if fork_rejects (put_namespace w) then Inl (''Unknown reserved fork namespace: '' @ put_namespace w)
     else Inr (if fork_keeps plan copied (put_namespace w, put_key w)
       then Some (w\<lparr>put_value := fork_data plan (put_namespace w) (put_value w)\<rparr>) else None))"
  by (cases plan)
     (simp_all add: projectForkCurrentStateWrite_def Let_def fork_rejects_def fork_keeps_def fork_data_def startsWith_def)

section \<open>Values\<close>

definition values_below :: "int \<Rightarrow> 'n session_state \<Rightarrow> bool" where
  "values_below N d \<longleftrightarrow> values_ok (d\<lparr>nextSeq := N\<rparr>)"

definition list_at :: "string \<Rightarrow> 'n session_state \<Rightarrow> list_element list" where
  "list_at k d = (case al_get k (listValues d) of Some l \<Rightarrow> elements l | None \<Rightarrow> [])"

lemma put_scalar_state:
  assumes "applyValueSetOrListAppend p d = Inr t" and "put_kind p = ValueKind"
  shows "t = d\<lparr>scalarValues := al_set (physicalKey (put_namespace p) (put_key p))
    \<lparr>value_address = (put_namespace p, put_key p), stored_data = put_value p, value_seq = put_seq p\<rparr> (scalarValues d)\<rparr>"
  using assms by (auto simp: applyValueSetOrListAppend_def make_address_def bind_throws_eq_Inr Let_def)

lemma put_list_state:
  assumes "applyValueSetOrListAppend p d = Inr t" and "put_kind p = ListKind"
  shows "scalarValues t = scalarValues d \<and>
    list_at j t = (if j = physicalKey (put_namespace p) (put_key p)
      then list_at j d @ [\<lparr>element_seq = put_seq p, element_value = put_value p\<rparr>] else list_at j d)"
  using assms by (auto simp: applyValueSetOrListAppend_def make_address_def bind_throws_eq_Inr Let_def list_at_def split: option.splits)

text \<open>Copying one value: refused, or done with its effect.\<close>

lemma copy_scalar:
  assumes "values_below N d" and "valid_address (fst (value_address v)) (snd (value_address v))" and "value_seq v < N"
  shows "if fork_rejects (fst (value_address v)) then \<exists>e. copy_projected plan copied (scalar_put v) d = Inl e
    else \<exists>t. copy_projected plan copied (scalar_put v) d = Inr t \<and> values_below N t \<and> same_records d t \<and>
      listValues t = listValues d \<and>
      scalarValues t = (if fork_keeps plan copied (value_address v)
        then al_set (physicalKey (fst (value_address v)) (snd (value_address v))) (fork_value plan v) (scalarValues d)
        else scalarValues d)"
proof -
  let ?w = "scalar_put v\<lparr>put_value := fork_data plan (fst (value_address v)) (stored_data v)\<rparr>"
  have w: "put_kind ?w = ValueKind" "put_seq ?w = value_seq v" "put_namespace ?w = fst (value_address v)"
    "put_key ?w = snd (value_address v)" "put_value ?w = fork_data plan (fst (value_address v)) (stored_data v)"
    by (simp_all add: scalar_put_def)
  obtain u where u: "applyValueSetOrListAppend ?w d = Inr u" "values_below N u" "same_records d u"
    using put_values_ok [where s = d and N = N and p = ?w] assms w by (auto simp: values_below_def)
  have val: "fork_value plan v = \<lparr>value_address = value_address v,
      stored_data = fork_data plan (fst (value_address v)) (stored_data v), value_seq = value_seq v\<rparr>"
    by (cases v) (simp add: fork_value_def)
  have "u = d\<lparr>scalarValues := al_set (physicalKey (fst (value_address v)) (snd (value_address v))) (fork_value plan v) (scalarValues d)\<rparr>"
    using put_scalar_state [OF u(1) w(1)] unfolding w val by simp
  then have "listValues u = listValues d" "scalarValues u =
      al_set (physicalKey (fst (value_address v)) (snd (value_address v))) (fork_value plan v) (scalarValues d)" by simp_all
  then show ?thesis using u assms(1) by (auto simp: copy_projected_def project_spec same_records_def scalar_put_def)
qed

lemma copy_scalars:
  assumes "values_below N d" and "distinct (al_keys vs)"
    and "\<forall>(k, v) \<in> set vs. k = physicalKey (fst (value_address v)) (snd (value_address v)) \<and>
      valid_address (fst (value_address v)) (snd (value_address v)) \<and> value_seq v < N"
    and "fst ` set vs \<inter> fst ` set (scalarValues d) = {}"
  shows "if \<exists>(k, v) \<in> set vs. fork_rejects (fst (value_address v))
    then \<exists>e. fold_throws (\<lambda>(k, v). copy_projected plan copied (scalar_put v)) vs d = Inl e
    else \<exists>t. fold_throws (\<lambda>(k, v). copy_projected plan copied (scalar_put v)) vs d = Inr t \<and> values_below N t \<and>
      same_records d t \<and> listValues t = listValues d \<and>
      (\<forall>j. al_get j (scalarValues t) = (case al_get j vs of
         Some v \<Rightarrow> if fork_keeps plan copied (value_address v) then Some (fork_value plan v) else None
       | None \<Rightarrow> al_get j (scalarValues d)))"
  using assms
proof (induction vs arbitrary: d)
  case Nil
  then show ?case by (simp add: same_records_def)
next
  case (Cons kv vs)
  obtain k v where kv: "kv = (k, v)" by fastforce
  have v: "k = physicalKey (fst (value_address v)) (snd (value_address v))"
    "valid_address (fst (value_address v)) (snd (value_address v))" "value_seq v < N" using Cons.prems(3) kv by auto
  note step = copy_scalar [OF Cons.prems(1) v(2,3), of plan copied]
  show ?case
  proof (cases "fork_rejects (fst (value_address v))")
    case True
    then show ?thesis using step kv by auto
  next
    case False
    then obtain u where u: "copy_projected plan copied (scalar_put v) d = Inr u" "values_below N u" "same_records d u"
      "listValues u = listValues d" "scalarValues u = (if fork_keeps plan copied (value_address v)
        then al_set k (fork_value plan v) (scalarValues d) else scalarValues d)"
      using step v(1) by auto
    have new: "k \<notin> fst ` set (scalarValues d)" "al_get k (scalarValues d) = None" "al_get k vs = None"
      using Cons.prems(2,4) kv by (auto simp: al_get_None_iff)
    have disjoint: "fst ` set vs \<inter> fst ` set (scalarValues u) = {}"
      using Cons.prems(2,4) kv u(5) al_set_new [OF new(1), of "fork_value plan v"] by auto
    have get: "al_get j (scalarValues u) = (if j = k \<and> fork_keeps plan copied (value_address v)
        then Some (fork_value plan v) else al_get j (scalarValues d))" for j
      using u(5) by simp
    show ?thesis
    proof (cases "\<exists>(k, v) \<in> set vs. fork_rejects (fst (value_address v))")
      case True
      then obtain e where "fold_throws (\<lambda>(k, v). copy_projected plan copied (scalar_put v)) vs u = Inl e"
        using Cons.IH [OF u(2) _ _ disjoint] Cons.prems(2,3) by auto
      then show ?thesis using True u(1) kv by auto
    next
      case none: False
      then obtain t where t: "fold_throws (\<lambda>(k, v). copy_projected plan copied (scalar_put v)) vs u = Inr t"
        "values_below N t" "same_records u t" "listValues t = listValues u"
        "\<forall>j. al_get j (scalarValues t) = (case al_get j vs of
         Some v \<Rightarrow> if fork_keeps plan copied (value_address v) then Some (fork_value plan v) else None
       | None \<Rightarrow> al_get j (scalarValues u))"
        using Cons.IH [OF u(2) _ _ disjoint] Cons.prems(2,3) by auto
      have "\<forall>j. al_get j (scalarValues t) = (case al_get j (kv # vs) of
         Some v \<Rightarrow> if fork_keeps plan copied (value_address v) then Some (fork_value plan v) else None
       | None \<Rightarrow> al_get j (scalarValues d))"
        using t(5) get new kv by (auto split: option.split)
      then show ?thesis using t(1-4) u(1,3,4) none False kv by (auto simp: same_records_def)
    qed
  qed
qed

text \<open>Copying one list, element by element, onto what the fork has under its key.\<close>

lemma copy_rejected:
  "fork_rejects (put_namespace w) \<Longrightarrow> \<exists>e. copy_projected plan copied w d = Inl e"
  by (simp add: copy_projected_def project_spec)

lemma copy_elements:
  assumes "\<not> fork_rejects (fst (list_address l))" and "valid_address (fst (list_address l)) (snd (list_address l))"
    and "values_below N d" and "sorted_wrt (<) (map element_seq xs)" and "\<forall>x \<in> set xs. element_seq x < N"
    and "\<forall>y \<in> set (list_at (physicalKey (fst (list_address l)) (snd (list_address l))) d). \<forall>x \<in> set xs. element_seq y < element_seq x"
  shows "\<exists>t. fold_throws (\<lambda>x. copy_projected plan copied (element_put l x)) xs d = Inr t \<and> values_below N t \<and>
    same_records d t \<and> scalarValues t = scalarValues d \<and>
    (\<forall>j. list_at j t = list_at j d @ (if j = physicalKey (fst (list_address l)) (snd (list_address l)) \<and>
       fork_keeps plan copied (list_address l) then map (fork_element plan (fst (list_address l))) xs else []))"
  using assms(3-6)
proof (induction xs arbitrary: d)
  case Nil
  then show ?case by (simp add: same_records_def)
next
  case (Cons x xs)
  let ?n = "fst (list_address l)" and ?k = "physicalKey (fst (list_address l)) (snd (list_address l))"
  let ?w = "element_put l x\<lparr>put_value := fork_data plan ?n (element_value x)\<rparr>"
  have w: "put_kind ?w = ListKind" "put_seq ?w = element_seq x" "put_namespace ?w = ?n" "put_key ?w = snd (list_address l)"
    "put_value ?w = fork_data plan ?n (element_value x)" by (simp_all add: element_put_def)
  have element: "\<lparr>element_seq = element_seq x, element_value = fork_data plan ?n (element_value x)\<rparr> = fork_element plan ?n x"
    by (cases x) (simp add: fork_element_def)
  show ?case
  proof (cases "fork_keeps plan copied (list_address l)")
    case False
    then have "copy_projected plan copied (element_put l x) d = Inr d"
      using assms(1) by (simp add: copy_projected_def project_spec element_put_def)
    then show ?thesis using Cons.IH [of d] Cons.prems False by simp
  next
    case True
    have "\<forall>l'. al_get ?k (listValues d) = Some l' \<longrightarrow> (\<forall>y \<in> set (elements l'). element_seq y < element_seq x)"
      using Cons.prems(4) by (auto simp: list_at_def)
    then obtain u where u: "applyValueSetOrListAppend ?w d = Inr u" "values_below N u" "same_records d u"
      using put_values_ok [where s = d and N = N and p = ?w] assms(2) Cons.prems(1,3) unfolding w by (auto simp: values_below_def)
    note effect = put_list_state [OF u(1) w(1), unfolded w element]
    have "copy_projected plan copied (element_put l x) d = Inr u"
      using u(1) True assms(1) by (simp add: copy_projected_def project_spec element_put_def)
    moreover have "\<forall>y \<in> set (list_at ?k u). \<forall>z \<in> set xs. element_seq y < element_seq z"
      using effect Cons.prems(2,4) by (auto simp: fork_element_def)
    ultimately show ?thesis
      using Cons.IH [of u] Cons.prems(2,3) u(2,3) effect True by (auto simp: same_records_def)
  qed
qed

lemma copy_lists:
  assumes "values_below N d" and "distinct (al_keys ls)"
    and "\<forall>(k, l) \<in> set ls. k = physicalKey (fst (list_address l)) (snd (list_address l)) \<and>
      valid_address (fst (list_address l)) (snd (list_address l)) \<and> elements l \<noteq> [] \<and>
      sorted_wrt (<) (map element_seq (elements l)) \<and> (\<forall>x \<in> set (elements l). element_seq x < N)"
    and "\<forall>k \<in> fst ` set ls. list_at k d = []"
  shows "if \<exists>(k, l) \<in> set ls. fork_rejects (fst (list_address l))
    then \<exists>e. fold_throws (\<lambda>(k, l). fold_throws (\<lambda>x. copy_projected plan copied (element_put l x)) (elements l)) ls d = Inl e
    else \<exists>t. fold_throws (\<lambda>(k, l). fold_throws (\<lambda>x. copy_projected plan copied (element_put l x)) (elements l)) ls d = Inr t \<and>
      values_below N t \<and> same_records d t \<and> scalarValues t = scalarValues d \<and>
      (\<forall>j. list_at j t = (case al_get j ls of
         Some l \<Rightarrow> if fork_keeps plan copied (list_address l) then map (fork_element plan (fst (list_address l))) (elements l) else []
       | None \<Rightarrow> list_at j d))"
  using assms
proof (induction ls arbitrary: d)
  case Nil
  then show ?case by (simp add: same_records_def)
next
  case (Cons kl ls)
  obtain k l where kl: "kl = (k, l)" by fastforce
  let ?copy = "\<lambda>(k, l). fold_throws (\<lambda>x. copy_projected plan copied (element_put l x)) (elements l)"
  have l: "k = physicalKey (fst (list_address l)) (snd (list_address l))" "valid_address (fst (list_address l)) (snd (list_address l))"
    "elements l \<noteq> []" "sorted_wrt (<) (map element_seq (elements l))" "\<forall>x \<in> set (elements l). element_seq x < N"
    using Cons.prems(3) kl by auto
  have empty: "list_at k d = []" using Cons.prems(4) kl by simp
  show ?case
  proof (cases "fork_rejects (fst (list_address l))")
    case True
    obtain x xs where "elements l = x # xs" using l(3) by (cases "elements l") auto
    moreover obtain e where "copy_projected plan copied (element_put l x) d = Inl e"
      using copy_rejected [of "element_put l x" plan copied d] True by (auto simp: element_put_def)
    ultimately have "?copy kl d = Inl e" using kl by simp
    then show ?thesis using True kl by auto
  next
    case False
    obtain u where u: "?copy kl d = Inr u" "values_below N u" "same_records d u" "scalarValues u = scalarValues d"
      and at: "\<forall>j. list_at j u = list_at j d @ (if j = k \<and> fork_keeps plan copied (list_address l)
        then map (fork_element plan (fst (list_address l))) (elements l) else [])"
      using copy_elements [OF False l(2) Cons.prems(1) l(4,5), of plan copied] empty l(1) kl by auto
    have later: "\<forall>k' \<in> fst ` set ls. list_at k' u = []" using at Cons.prems(2,4) kl by auto
    have new: "al_get k ls = None" using Cons.prems(2) kl by (simp add: al_get_None_iff)
    note IH = Cons.IH [OF u(2) _ _ later]
    show ?thesis
    proof (cases "\<exists>(k, l) \<in> set ls. fork_rejects (fst (list_address l))")
      case True
      then obtain e where "fold_throws ?copy ls u = Inl e" using IH Cons.prems(2,3) by auto
      then show ?thesis using True u(1) by auto
    next
      case none: False
      then obtain t where t: "fold_throws ?copy ls u = Inr t" "values_below N t" "same_records u t" "scalarValues t = scalarValues u"
        "\<forall>j. list_at j t = (case al_get j ls of
         Some l \<Rightarrow> if fork_keeps plan copied (list_address l) then map (fork_element plan (fst (list_address l))) (elements l) else []
       | None \<Rightarrow> list_at j u)" using IH Cons.prems(2,3) by auto
      have "\<forall>j. list_at j t = (case al_get j (kl # ls) of
         Some l \<Rightarrow> if fork_keeps plan copied (list_address l) then map (fork_element plan (fst (list_address l))) (elements l) else []
       | None \<Rightarrow> list_at j d)"
        using t(5) at new empty kl by (auto split: option.split)
      then show ?thesis using t(1-4) u none False kl by (auto simp: same_records_def)
    qed
  qed
qed

section \<open>The fork\<close>

text \<open>A fork succeeds when the policy knows every stored namespace and the branch has the requested entry.\<close>

definition fork_allowed :: "'n session_state \<Rightarrow> fork_options \<Rightarrow> bool" where
  "fork_allowed s opts \<longleftrightarrow>
     (\<forall>(k, v) \<in> set (scalarValues s). \<not> fork_rejects (fst (value_address v))) \<and>
     (\<forall>(k, l) \<in> set (listValues s). \<not> fork_rejects (fst (list_address l))) \<and>
     (case opts of TreeFork \<Rightarrow> True | BranchFork b entryId before \<Rightarrow> fork_destination s b entryId before \<noteq> None)"

definition fork_values :: "fork_plan \<Rightarrow> (string \<Rightarrow> bool) \<Rightarrow> 'n session_state \<Rightarrow> 'n session_state \<Rightarrow> bool" where
  "fork_values plan copied s d \<longleftrightarrow>
     (\<forall>a. valid_address (fst a) (snd a) \<longrightarrow>
       getValue a d = (if fork_keeps plan copied a then map_option (fork_value plan) (getValue a s) else None) \<and>
       abs_list d a = (if fork_keeps plan copied a then map (fork_element plan (fst a)) (abs_list s a) else []))"

lemma fork_valuesI:
  assumes "values_ok s"
    and "\<forall>j. al_get j (scalarValues d) = (case al_get j (scalarValues s) of
         Some v \<Rightarrow> if fork_keeps plan copied (value_address v) then Some (fork_value plan v) else None | None \<Rightarrow> None)"
    and "\<forall>j. list_at j d = (case al_get j (listValues s) of
         Some l \<Rightarrow> if fork_keeps plan copied (list_address l) then map (fork_element plan (fst (list_address l))) (elements l) else []
       | None \<Rightarrow> [])"
  shows "fork_values plan copied s d"
  unfolding fork_values_def
proof (intro allI impI conjI)
  fix a :: address assume a: "valid_address (fst a) (snd a)"
  let ?k = "physicalKey (fst a) (snd a)"
  have "value_address v = a" if "al_get ?k (scalarValues s) = Some v" for v
    using stored_address [OF assms(1), of "fst a" "snd a" v] that valid_no_NUL [OF a] by (simp add: getValue_def)
  then show "getValue a d = (if fork_keeps plan copied a then map_option (fork_value plan) (getValue a s) else None)"
    using assms(2) by (auto simp: getValue_def split: option.split)
  have "list_address l = a" if l: "al_get ?k (listValues s) = Some l" for l
  proof -
    have "?k = physicalKey (fst (list_address l)) (snd (list_address l))"
      using al_get_SomeD [OF l] assms(1) by (auto simp: values_ok_def)
    then show ?thesis using physicalKey_valid [OF a] by simp
  qed
  then show "abs_list d a = (if fork_keeps plan copied a then map (fork_element plan (fst a)) (abs_list s a) else [])"
    using assms(3) by (auto simp: abs_list_def list_at_def [symmetric]) (auto simp: list_at_def split: option.split)
qed

text \<open>A plan, carried out on a consistent session.\<close>

lemma copy_plan:
  assumes "session_ok s" and "plan_of s opts (Inr (plan, ids))" and "selectForkPlan opts s = Some (Inr (plan, ids))"
  shows "if (\<exists>(k, v) \<in> set (scalarValues s). fork_rejects (fst (value_address v))) \<or>
      (\<exists>(k, l) \<in> set (listValues s). fork_rejects (fst (list_address l)))
    then \<exists>e. createFork opts s = Some (Inl e)
    else \<exists>d. createFork opts s = Some (Inr d) \<and> session_ok d \<and> nextSeq d = nextSeq s \<and> usage_rows d = [] \<and>
      entriesBySeq d = filter (\<lambda>e. plan = TreePlan \<or> entry_id e \<in> set ids) (entriesBySeq s) \<and>
      fork_values plan (\<lambda>i. plan = TreePlan \<or> i \<in> set ids) s d"
proof -
  let ?copied = "\<lambda>i. plan = TreePlan \<or> i \<in> set ids"
  let ?base = "copy_entries ?copied s"
  let ?N = "nextSeq s"
  let ?scalars = "fold_throws (\<lambda>(k, v). copy_projected plan ?copied (scalar_put v)) (scalarValues s)"
  let ?lists = "fold_throws (\<lambda>(k, l). fold_throws (\<lambda>x. copy_projected plan ?copied (element_put l x)) (elements l)) (listValues s)"
  have fork: "createFork opts s = Some (bind_throws (?scalars ?base) (\<lambda>d1. bind_throws (?lists d1) (\<lambda>d2. Inr (d2\<lparr>nextSeq := ?N\<rparr>))))"
    using assms(3) by (simp add: createFork_def Let_def)
  have eo: "entries_ok s" and vo: "values_ok s" using assms(1) by (simp_all add: session_ok_def)
  note c = copy_entries_props [OF eo, of ?copied ?base, OF refl]
  have b0: "values_below ?N ?base" using c by (simp add: values_below_def values_ok_def)
  have sv: "distinct (al_keys (scalarValues s))" "\<forall>(k, v) \<in> set (scalarValues s).
      k = physicalKey (fst (value_address v)) (snd (value_address v)) \<and>
      valid_address (fst (value_address v)) (snd (value_address v)) \<and> value_seq v < ?N" using vo by (simp_all add: values_ok_def)
  have lv: "distinct (al_keys (listValues s))" "\<forall>(k, l) \<in> set (listValues s).
      k = physicalKey (fst (list_address l)) (snd (list_address l)) \<and>
      valid_address (fst (list_address l)) (snd (list_address l)) \<and> elements l \<noteq> [] \<and>
      sorted_wrt (<) (map element_seq (elements l)) \<and> (\<forall>x \<in> set (elements l). element_seq x < ?N)" using vo by (auto simp: values_ok_def)
  have "fst ` set (scalarValues s) \<inter> fst ` set (scalarValues ?base) = {}" using c by simp
  note scalars = copy_scalars [OF b0 sv this, of plan ?copied]
  show ?thesis
  proof (cases "\<exists>(k, v) \<in> set (scalarValues s). fork_rejects (fst (value_address v))")
    case True
    then obtain e where "?scalars ?base = Inl e" using scalars by auto
    then show ?thesis using True fork by simp
  next
    case known: False
    then obtain d1 where d1: "?scalars ?base = Inr d1" "values_below ?N d1" "same_records ?base d1" "listValues d1 = listValues ?base"
      and get: "\<forall>j. al_get j (scalarValues d1) = (case al_get j (scalarValues s) of
         Some v \<Rightarrow> if fork_keeps plan ?copied (value_address v) then Some (fork_value plan v) else None
       | None \<Rightarrow> al_get j (scalarValues ?base))" using scalars by auto
    have empty: "list_at k d1 = []" for k using d1(4) c by (simp add: list_at_def)
    then have "\<forall>k \<in> fst ` set (listValues s). list_at k d1 = []" by simp
    note lists = copy_lists [OF d1(2) lv this, of plan ?copied]
    show ?thesis
    proof (cases "\<exists>(k, l) \<in> set (listValues s). fork_rejects (fst (list_address l))")
      case True
      then obtain e where "?lists d1 = Inl e" using lists by auto
      then show ?thesis using True fork d1(1) by simp
    next
      case none: False
      then obtain d2 where d2: "?lists d1 = Inr d2" "values_below ?N d2" "same_records d1 d2" "scalarValues d2 = scalarValues d1"
        and at: "\<forall>j. list_at j d2 = (case al_get j (listValues s) of
         Some l \<Rightarrow> if fork_keeps plan ?copied (list_address l) then map (fork_element plan (fst (list_address l))) (elements l) else []
       | None \<Rightarrow> list_at j d1)" using lists by auto
      let ?d = "d2\<lparr>nextSeq := ?N\<rparr>"
      have sr: "same_records ?base ?d" using d1(3) d2(3) by (simp add: same_records_def)
      have "entries_ok ?d \<and> usage_ok ?d \<and> stats_ok ?d" by (rule copied_entries_ok [OF assms(1,2) refl sr]) simp
      moreover have "values_ok ?d" using d2(2) by (simp add: values_below_def)
      moreover have "fork_values plan ?copied s ?d"
      proof (rule fork_valuesI [OF vo])
        show "\<forall>j. al_get j (scalarValues ?d) = (case al_get j (scalarValues s) of
            Some v \<Rightarrow> if fork_keeps plan ?copied (value_address v) then Some (fork_value plan v) else None | None \<Rightarrow> None)"
          using get d2(4) c(6) by (simp split: option.split)
        have "list_at j ?d = list_at j d2" for j by (simp add: list_at_def)
        then show "\<forall>j. list_at j ?d = (case al_get j (listValues s) of Some l \<Rightarrow>
            if fork_keeps plan ?copied (list_address l) then map (fork_element plan (fst (list_address l))) (elements l) else []
          | None \<Rightarrow> [])"
          using at empty by (simp split: option.split)
      qed
      moreover have "createFork opts s = Some (Inr ?d)" using fork d1(1) d2(1) by simp
      ultimately show ?thesis using known none sr c by (simp add: session_ok_def same_records_def)
    qed
  qed
qed

text \<open>
  C20: Forking a consistent session always returns, and succeeds exactly when it should: when every stored namespace is
  one the policy knows and, for a branch, when the branch has a tip and a configured lane and the requested entry (the
  tip, when none is asked for) lies on it. The fork is a consistent session with the same next sequence number and no
  usage. A fork of the tree has all the entries. A fork of a branch at an entry has exactly that entry and its ancestors,
  a fork before the entry exactly the ancestors of its parent, and the new tip is that entry or its parent. Every value
  and every list of the fork is that of the source, kept or dropped by the policy: no operation, pending or result state,
  idle lanes, labels of copied entries only, and in a branch fork only the lane and the new tip of the branch.
\<close>

theorem fork_is_consistent:
  assumes "session_ok s"
  shows "if fork_allowed s opts
    then \<exists>d plan. createFork opts s = Some (Inr d) \<and> session_ok d \<and> nextSeq d = nextSeq s \<and> usage_rows d = [] \<and>
      (case opts of
         TreeFork \<Rightarrow> plan = TreePlan \<and> entriesBySeq d = entriesBySeq s
       | BranchFork b entryId before \<Rightarrow> \<exists>dest. fork_destination s b entryId before = Some dest \<and> plan = BranchPlan b dest \<and>
           entriesBySeq d = rev (lineage dest (rev (entriesBySeq s)))) \<and>
      (\<forall>a. valid_address (fst a) (snd a) \<longrightarrow>
        (let kept = fork_keeps plan (\<lambda>i. plan = TreePlan \<or> i \<in> entry_id ` set (entriesBySeq d)) a in
         getValue a d = (if kept then map_option (fork_value plan) (getValue a s) else None) \<and>
         abs_list d a = (if kept then map (fork_element plan (fst a)) (abs_list s a) else [])))
    else \<exists>e. createFork opts s = Some (Inl e)"
proof -
  have eo: "entries_ok s" using assms by (simp add: session_ok_def)
  obtain r where r: "selectForkPlan opts s = Some r" "plan_of s opts r" using selectForkPlan_plan [OF assms] by blast
  show ?thesis
  proof (cases r)
    case (Inl e)
    then have "\<not> fork_allowed s opts"
      using r(2) by (auto simp: plan_of_def selection_of_def fork_allowed_def split: fork_options.splits option.splits)
    then show ?thesis using r(1) Inl by (simp add: createFork_def)
  next
    case (Inr pi)
    obtain plan ids where pi: "pi = (plan, ids)" by (cases pi)
    have allowed: "fork_allowed s opts \<longleftrightarrow> \<not> ((\<exists>(k, v) \<in> set (scalarValues s). fork_rejects (fst (value_address v))) \<or>
      (\<exists>(k, l) \<in> set (listValues s). fork_rejects (fst (list_address l))))"
      using r(2) Inr pi by (auto simp: plan_of_def selection_of_def fork_allowed_def split: fork_options.splits option.splits)
    note copy = copy_plan [OF assms r(2) [unfolded Inr pi] r(1) [unfolded Inr pi]]
    show ?thesis
    proof (cases "fork_allowed s opts")
      case False
      then show ?thesis using copy allowed by auto
    next
      case True
      then obtain d where d: "createFork opts s = Some (Inr d)" "session_ok d" "nextSeq d = nextSeq s" "usage_rows d = []"
        "entriesBySeq d = filter (\<lambda>e. plan = TreePlan \<or> entry_id e \<in> set ids) (entriesBySeq s)"
        "fork_values plan (\<lambda>i. plan = TreePlan \<or> i \<in> set ids) s d" using copy allowed by auto
      have entries: "case opts of
         TreeFork \<Rightarrow> plan = TreePlan \<and> entriesBySeq d = entriesBySeq s
       | BranchFork b entryId before \<Rightarrow> \<exists>dest. fork_destination s b entryId before = Some dest \<and> plan = BranchPlan b dest \<and>
           ids = map entry_id (ancestry s dest) \<and> entriesBySeq d = rev (ancestry s dest)"
        using r(2) Inr pi d(5) filter_ancestry [OF eo]
        by (auto simp: plan_of_def selection_of_def split: fork_options.splits option.splits)
      then have "(\<lambda>i. plan = TreePlan \<or> i \<in> set ids) = (\<lambda>i. plan = TreePlan \<or> i \<in> entry_id ` set (entriesBySeq d))"
        by (auto split: fork_options.splits)
      with d(6) show ?thesis using True d(1-4) entries
        by (auto simp: fork_values_def Let_def split: fork_options.splits)
    qed
  qed
qed

definition forkable :: "int session_state" where
  "forkable = two_entries\<lparr>scalarValues :=
     [(physicalKey ''pi.branch.tip'' ''main'', \<lparr>value_address = (''pi.branch.tip'', ''main''), stored_data = JStr ''b'', value_seq = 3\<rparr>),
      (physicalKey ''pi.lane.config'' ''main'', \<lparr>value_address = (''pi.lane.config'', ''main''), stored_data = JNull, value_seq = 4\<rparr>),
      (physicalKey ''pi.lane.state'' ''main'', \<lparr>value_address = (''pi.lane.state'', ''main''), stored_data = JNull, value_seq = 5\<rparr>)],
     nextSeq := 6\<rparr>"

lemma forkable_ok: "session_ok forkable"
  by (simp add: forkable_def two_entries_eq session_ok_def entries_ok_def usage_ok_def stats_ok_def values_ok_def newSessionState_def
      entry_type_def validateAddress_def NUL_def physicalKey_def)

lemma forkable_fork: "fork_destination forkable ''main'' (Some ''b'') True = Some (Some ''a'')"
    "fork_allowed forkable (BranchFork ''main'' (Some ''b'') True)"
proof -
  show dest: "fork_destination forkable ''main'' (Some ''b'') True = Some (Some ''a'')"
    by (simp add: fork_destination_def forkable_def two_entries_eq getValue_def physicalKey_def tip_of_json_def fork_tip_def)
  show "fork_allowed forkable (BranchFork ''main'' (Some ''b'') True)"
    unfolding fork_allowed_def using dest
    by (simp add: forkable_def two_entries_eq newSessionState_def fork_rejects_def)
qed

text \<open>A fork before the tip of a branch of two entries has the first entry only, and the first entry as its tip.\<close>

theorem fork_is_consistent_witness:
  "\<exists>d. createFork (BranchFork ''main'' (Some ''b'') True) forkable = Some (Inr d) \<and> session_ok d \<and>
     map entry_id (entriesBySeq d) = [''a''] \<and>
     map_option stored_data (getValue (''pi.branch.tip'', ''main'') d) = Some (JStr ''a'')"
proof -
  have valid: "valid_address (fst (''pi.branch.tip'', ''main'')) (snd (''pi.branch.tip'', ''main''))"
    by (simp add: validateAddress_def NUL_def)
  have tip: "getValue (''pi.branch.tip'', ''main'') forkable =
      Some \<lparr>value_address = (''pi.branch.tip'', ''main''), stored_data = JStr ''b'', value_seq = 3\<rparr>"
    by (simp add: forkable_def getValue_def)
  have entries: "map entry_id (rev (lineage (Some ''a'') (rev (entriesBySeq forkable)))) = [''a'']"
    by (simp add: forkable_def two_entries_eq)
  obtain d plan where d: "createFork (BranchFork ''main'' (Some ''b'') True) forkable = Some (Inr d)" "session_ok d"
    "plan = BranchPlan ''main'' (Some ''a'')" "entriesBySeq d = rev (lineage (Some ''a'') (rev (entriesBySeq forkable)))"
    "getValue (''pi.branch.tip'', ''main'') d = map_option (fork_value plan) (getValue (''pi.branch.tip'', ''main'') forkable)"
    using fork_is_consistent [OF forkable_ok, of "BranchFork ''main'' (Some ''b'') True"] forkable_fork valid
    by (auto simp: fork_keeps_def Let_def)
  then show ?thesis using entries tip by (auto simp: fork_value_def fork_data_def json_of_tip_def)
qed

end
