(* ===== verification/Lane_Reducer.thy ===== *)
theory Lane_Reducer imports Session_Values begin

text \<open>
  The lane snapshot of the agent runtime and its reducer (\<open>packages/agent/src/harness/runtime/reducer.ts\<close>): how
  each harness event changes the snapshot a watcher of a lane keeps. Values the reducer only stores (handles,
  results, arguments, errors, queued items) are JSON values.
\<close>

section \<open>The snapshot\<close>

datatype operation_kind = RunOperation | CompactionOperation | NavigationOperation
datatype operation_status = OpenStatus | AbortingStatus

text \<open>A tool call that runs, with the partial result if any, or has settled.\<close>

datatype lane_tool =
    RunningTool (toolCallId: string) (toolName: string) (tool_args: json) (partialResult: "json option")
  | SettledTool (toolCallId: string) (toolName: string) (tool_args: json) (tool_result: json) (tool_isError: bool)

record retry_info =
  attempt :: int
  maxAttempts :: int
  nextAttemptAt :: int

record lane_operation =
  operation_id :: string
  operation_kind :: operation_kind
  startedAt :: int
  fromTipId :: "string option"
  operation_status :: operation_status
  retry :: "retry_info option"
  deferred :: "(json \<times> int) option"
  streamingMessage :: "agent_message option"
  runningTools :: "lane_tool list"

datatype terminal_status = Completed | Declined | Aborted | FailedWith json

record operation_result =
  result_operationId :: string
  result_kind :: operation_kind
  result_status :: terminal_status
  result_fromTipId :: "string option"
  result_tipId :: "string option"
  result_startedAt :: int
  result_endedAt :: int

record lane_configuration =
  config_model :: json
  config_thinkingLevel :: string
  config_activeToolNames :: "string list"

record lane_snapshot =
  snapshot_lane :: string
  transcript :: "entry list"
  tipId :: "string option"
  lastResult :: "operation_result option"
  configuration :: lane_configuration
  lane_messageCount :: nat
  lane_usage :: json
  lane_operation :: "lane_operation option"
  queues :: json
  faulted :: bool

section \<open>Events\<close>

datatype config_change = ModelChange json | ThinkingLevelChange string | ActiveToolsChange "string list" | OtherChange

text \<open>The events, with the fields the reducer reads; \<open>run_start\<close> carries the run and the time, and so on.\<close>

datatype harness_event =
    RunStart string int
  | RunResume string
  | RunSuspend string json int
  | OperationAbort string
  | RunEnd string terminal_status "string option" "string option" int
  | Fault
  | RetryScheduled string int int int
  | RetryStart string
  | RetryEnd string
  | MessageStart "string option" agent_message
  | MessageUpdate string agent_message
  | MessageEnd "string option"
  | ToolStart string string string json
  | ToolUpdate string string json
  | ToolEnd string string string json bool
  | EntryAdded entry
  | QueueUpdate json
  | ConfigUpdate config_change
  | CompactionStart string int
  | CompactionEnd string terminal_status int
  | NavigationStart string int
  | NavigationEnd
  | UsageEvent json
  | IgnoredEvent

text \<open>An event, and its lane when it has one.\<close>

type_synonym lane_event = "string option \<times> harness_event"

section \<open>The reducer\<close>

definition new_operation :: "string \<Rightarrow> operation_kind \<Rightarrow> int \<Rightarrow> lane_snapshot \<Rightarrow> lane_operation" where
  "new_operation i kind started s =
     \<lparr>operation_id = i, operation_kind = kind, startedAt = started, fromTipId = tipId s, operation_status = OpenStatus,
      retry = None, deferred = None, streamingMessage = None, runningTools = []\<rparr>"

definition upsertTool :: "lane_tool \<Rightarrow> lane_operation \<Rightarrow> lane_operation" where
  "upsertTool tool op =
     (case find_index (\<lambda>t. toolCallId t = toolCallId tool) (runningTools op) of
        None \<Rightarrow> op\<lparr>runningTools := runningTools op @ [tool]\<rparr>
      | Some i \<Rightarrow> op\<lparr>runningTools := (runningTools op)[i := tool]\<rparr>)"

text \<open>\<open>matchingOperation\<close>, and a change of the operation it gives.\<close>

definition matchingOperation :: "lane_snapshot \<Rightarrow> string \<Rightarrow> lane_operation option" where
  "matchingOperation s i =
     (case lane_operation s of Some op \<Rightarrow> if operation_id op = i then Some op else None | None \<Rightarrow> None)"

definition update_matching :: "string \<Rightarrow> (lane_operation \<Rightarrow> lane_operation) \<Rightarrow> lane_snapshot \<Rightarrow> lane_snapshot" where
  "update_matching i f s =
     (case matchingOperation s i of None \<Rightarrow> s | Some op \<Rightarrow> s\<lparr>lane_operation := Some (f op)\<rparr>)"

definition update_tool :: "string \<Rightarrow> json \<Rightarrow> lane_operation \<Rightarrow> lane_operation" where
  "update_tool call result op =
     (case find_index (\<lambda>t. toolCallId t = call) (runningTools op) of
        None \<Rightarrow> op
      | Some i \<Rightarrow>
          (case runningTools op ! i of
             RunningTool c n a _ \<Rightarrow> op\<lparr>runningTools := (runningTools op)[i := RunningTool c n a (Some result)]\<rparr>
           | SettledTool _ _ _ _ _ \<Rightarrow> op))"

definition settle_tool :: "string \<Rightarrow> string \<Rightarrow> json \<Rightarrow> bool \<Rightarrow> lane_operation \<Rightarrow> lane_operation" where
  "settle_tool call name result isError op =
     (case find_index (\<lambda>t. toolCallId t = call) (runningTools op) of
        None \<Rightarrow> op
      | Some i \<Rightarrow> op\<lparr>runningTools :=
          (runningTools op)[i := SettledTool call name (tool_args (runningTools op ! i)) result isError]\<rparr>)"

definition remove_tool :: "string option \<Rightarrow> lane_operation \<Rightarrow> lane_operation" where
  "remove_tool call op =
     (case find_index (\<lambda>t. Some (toolCallId t) = call) (runningTools op) of
        None \<Rightarrow> op
      | Some i \<Rightarrow> op\<lparr>runningTools := splice i 1 [] (runningTools op)\<rparr>)"

definition add_entry_event :: "entry \<Rightarrow> lane_snapshot \<Rightarrow> lane_snapshot" where
  "add_entry_event e s =
     (let s1 = (case entry_data e of
            MessageData m \<Rightarrow>
              (if role m = ''toolResult''
               then s\<lparr>lane_operation := map_option (remove_tool (toolCallId_of m)) (lane_operation s)\<rparr> else s)
          | _ \<Rightarrow> s);
          s2 = (if entry_type e = CompactionType then s1\<lparr>transcript := [e]\<rparr> else s1\<lparr>transcript := transcript s1 @ [e]\<rparr>);
          s3 = s2\<lparr>tipId := Some (entry_id e)\<rparr> in
      if entry_type e = MessageType then s3\<lparr>lane_messageCount := lane_messageCount s3 + 1\<rparr> else s3)"

definition end_run :: "string \<Rightarrow> terminal_status \<Rightarrow> string option \<Rightarrow> string option \<Rightarrow> int \<Rightarrow> lane_snapshot \<Rightarrow> lane_snapshot" where
  "end_run i status from tip ended s =
     (case matchingOperation s i of
        None \<Rightarrow> s
      | Some op \<Rightarrow>
          (if operation_kind op \<noteq> RunOperation then s
           else s\<lparr>lastResult := Some \<lparr>result_operationId = i, result_kind = RunOperation, result_status = status,
               result_fromTipId = from, result_tipId = tip, result_startedAt = startedAt op, result_endedAt = ended\<rparr>,
             lane_operation := None, tipId := tip\<rparr>))"

definition end_compaction :: "string \<Rightarrow> terminal_status \<Rightarrow> int \<Rightarrow> lane_snapshot \<Rightarrow> lane_snapshot" where
  "end_compaction i status ended s =
     (case matchingOperation s i of
        None \<Rightarrow> s
      | Some op \<Rightarrow>
          (if operation_kind op \<noteq> CompactionOperation then s
           else s\<lparr>lastResult := Some \<lparr>result_operationId = i, result_kind = CompactionOperation, result_status = status,
               result_fromTipId = fromTipId op, result_tipId = tipId s, result_startedAt = startedAt op, result_endedAt = ended\<rparr>,
             lane_operation := None\<rparr>))"

definition configure :: "config_change \<Rightarrow> lane_configuration \<Rightarrow> lane_configuration" where
  "configure change c =
     (case change of
        ModelChange v \<Rightarrow> c\<lparr>config_model := v\<rparr>
      | ThinkingLevelChange v \<Rightarrow> c\<lparr>config_thinkingLevel := v\<rparr>
      | ActiveToolsChange v \<Rightarrow> c\<lparr>config_activeToolNames := v\<rparr>
      | OtherChange \<Rightarrow> c)"

definition streams_pending :: "agent_message \<Rightarrow> bool" where
  "streams_pending m \<longleftrightarrow> role m = ''assistant'' \<and> stopReason m = Some ''pending''"

fun reduce_event :: "string option \<Rightarrow> harness_event \<Rightarrow> lane_snapshot \<Rightarrow> lane_snapshot" where
  "reduce_event lane (RunStart i t) s = s\<lparr>lane_operation := Some (new_operation i RunOperation t s)\<rparr>"
| "reduce_event lane (CompactionStart i t) s =
     (if lane_operation s \<noteq> None then s else s\<lparr>lane_operation := Some (new_operation i CompactionOperation t s)\<rparr>)"
| "reduce_event lane (NavigationStart i t) s = s\<lparr>lane_operation := Some (new_operation i NavigationOperation t s)\<rparr>"
| "reduce_event lane (OperationAbort i) s = update_matching i (\<lambda>op. op\<lparr>operation_status := AbortingStatus\<rparr>) s"
| "reduce_event lane (RunResume i) s = update_matching i (\<lambda>op. op\<lparr>deferred := None\<rparr>) s"
| "reduce_event lane (RunSuspend i handle poll) s =
     update_matching i (\<lambda>op. op\<lparr>streamingMessage := None, deferred := Some (handle, poll)\<rparr>) s"
| "reduce_event lane (RetryScheduled i n m at) s =
     update_matching i (\<lambda>op. op\<lparr>retry := Some \<lparr>attempt = n, maxAttempts = m, nextAttemptAt = at\<rparr>\<rparr>) s"
| "reduce_event lane (RetryStart i) s = update_matching i (\<lambda>op. op\<lparr>retry := None\<rparr>) s"
| "reduce_event lane (RetryEnd i) s = update_matching i (\<lambda>op. op\<lparr>retry := None\<rparr>) s"
| "reduce_event lane (MessageStart i m) s =
     (case i of None \<Rightarrow> s
      | Some r \<Rightarrow> if streams_pending m then update_matching r (\<lambda>op. op\<lparr>streamingMessage := Some m\<rparr>) s else s)"
| "reduce_event lane (MessageUpdate i m) s =
     (if role m \<noteq> ''assistant'' then s else update_matching i (\<lambda>op. op\<lparr>streamingMessage := Some m\<rparr>) s)"
| "reduce_event lane (MessageEnd i) s =
     (case i of None \<Rightarrow> s | Some r \<Rightarrow> update_matching r (\<lambda>op. op\<lparr>streamingMessage := None\<rparr>) s)"
| "reduce_event lane (ToolStart i call name args) s = update_matching i (upsertTool (RunningTool call name args None)) s"
| "reduce_event lane (ToolUpdate i call result) s = update_matching i (update_tool call result) s"
| "reduce_event lane (ToolEnd i call name result isError) s = update_matching i (settle_tool call name result isError) s"
| "reduce_event lane (EntryAdded e) s = add_entry_event e s"
| "reduce_event lane (QueueUpdate q) s = s\<lparr>queues := q\<rparr>"
| "reduce_event lane (UsageEvent totals) s = s\<lparr>lane_usage := totals\<rparr>"
| "reduce_event lane (ConfigUpdate change) s =
     (if lane \<noteq> Some (snapshot_lane s) then s else s\<lparr>configuration := configure change (configuration s)\<rparr>)"
| "reduce_event lane (RunEnd i status from tip ended) s = end_run i status from tip ended s"
| "reduce_event lane (CompactionEnd i status ended) s = end_compaction i status ended s"
| "reduce_event lane NavigationEnd s = s"
| "reduce_event lane Fault s = s\<lparr>faulted := True\<rparr>"
| "reduce_event lane IgnoredEvent s = s"

text \<open>The snapshot after an event, and whether a fresh one is required.\<close>

definition is_usage :: "harness_event \<Rightarrow> bool" where
  "is_usage ev = (case ev of UsageEvent _ \<Rightarrow> True | _ \<Rightarrow> False)"

definition reduceLaneSnapshot :: "lane_snapshot \<Rightarrow> lane_event \<Rightarrow> lane_snapshot \<times> bool" where
  "reduceLaneSnapshot s ev =
     (case ev of (lane, e) \<Rightarrow>
       (if lane \<noteq> None \<and> lane \<noteq> Some (snapshot_lane s) \<and> \<not> is_usage e then (s, False)
        else (reduce_event lane e s, e = NavigationEnd)))"

end
