(* ===== verification/Lane_Props.thy ===== *)
theory Lane_Props imports Lane_Reducer begin

text \<open>
  What the lane reducer keeps: the runs of the reducer as a step relation, the invariant of every reachable
  snapshot, the bracket of a run from its start to its end, and the table of running tools as a map.
\<close>

section \<open>Runs of the reducer\<close>

inductive lane_steps :: "lane_snapshot \<Rightarrow> lane_event list \<Rightarrow> lane_snapshot \<Rightarrow> bool" where
  lane_nil: "lane_steps s [] s"
| lane_cons: "lane_steps (fst (reduceLaneSnapshot s ev)) evs t \<Longrightarrow> lane_steps s (ev # evs) t"

inductive_simps lane_steps_simps: "lane_steps s [] t" "lane_steps s (ev # evs) t"
inductive_cases lane_steps_consE: "lane_steps s (ev # evs) t"

lemma lane_steps_invariant:
  assumes "lane_steps s evs t" and "P s" and "\<And>s ev. P s \<Longrightarrow> ev \<in> set evs \<Longrightarrow> P (fst (reduceLaneSnapshot s ev))"
  shows "P t"
  using assms by (induction rule: lane_steps.induct) auto

lemma reduce_cases:
  assumes "P s" and "P (reduce_event lane e s)"
  shows "P (fst (reduceLaneSnapshot s (lane, e)))"
  using assms by (simp add: reduceLaneSnapshot_def)

lemma lane_of_operation_update [simp]: "snapshot_lane (update_matching i f s) = snapshot_lane s"
  by (simp add: update_matching_def split: option.split)

lemma reduce_keeps_lane: "snapshot_lane (reduce_event lane e s) = snapshot_lane s"
  by (cases e) (auto simp: add_entry_event_def end_run_def end_compaction_def Let_def split: option.split entry_data.split)

section \<open>The table of tools\<close>

definition tool_ids :: "lane_operation \<Rightarrow> string list" where
  "tool_ids op = map toolCallId (runningTools op)"

definition tool_map :: "lane_operation \<Rightarrow> string \<Rightarrow> lane_tool option" where
  "tool_map op = map_of (map (\<lambda>t. (toolCallId t, t)) (runningTools op))"

lemma map_of_tool_middle:
  "toolCallId t \<notin> toolCallId ` set xs \<Longrightarrow>
     map_of (map (\<lambda>t. (toolCallId t, t)) (xs @ t # ys)) = (map_of (map (\<lambda>t. (toolCallId t, t)) (xs @ ys)))(toolCallId t \<mapsto> t)"
  by (induction xs) (auto simp: fun_upd_twist)

text \<open>The first index with an identifier, when identifiers are distinct.\<close>

lemma find_tool:
  assumes "distinct (tool_ids op)" and "find_index (\<lambda>t. toolCallId t = c) (runningTools op) = Some i"
  shows "i < length (runningTools op)" "toolCallId (runningTools op ! i) = c" "tool_map op c = Some (runningTools op ! i)"
proof -
  from find_index_SomeD [OF assms(2)] show i: "i < length (runningTools op)" "toolCallId (runningTools op ! i) = c" by auto
  have "distinct (map fst (map (\<lambda>t. (toolCallId t, t)) (runningTools op)))" using assms(1) by (simp add: tool_ids_def comp_def)
  moreover have "(c, runningTools op ! i) \<in> set (map (\<lambda>t. (toolCallId t, t)) (runningTools op))" using i by force
  ultimately show "tool_map op c = Some (runningTools op ! i)" by (simp add: tool_map_def)
qed

lemma find_no_tool: "find_index (\<lambda>t. toolCallId t = c) (runningTools op) = None \<Longrightarrow> tool_map op c = None \<and> c \<notin> set (tool_ids op)"
  by (auto simp: find_index_None_iff tool_map_def tool_ids_def map_of_eq_None_iff)

text \<open>Replacing a tool by one with the same identifier is an update of the map.\<close>

lemma replace_tool:
  assumes "distinct (tool_ids op)" and "i < length (runningTools op)" and "toolCallId t = toolCallId (runningTools op ! i)"
  shows "tool_ids (op\<lparr>runningTools := (runningTools op)[i := t]\<rparr>) = tool_ids op"
    and "tool_map (op\<lparr>runningTools := (runningTools op)[i := t]\<rparr>) = (tool_map op)(toolCallId t \<mapsto> t)"
proof -
  let ?ts = "runningTools op"
  have split: "?ts = take i ?ts @ ?ts ! i # drop (Suc i) ?ts" using assms(2) by (simp add: id_take_nth_drop)
  have upd: "?ts[i := t] = take i ?ts @ t # drop (Suc i) ?ts" using assms(2) by (rule upd_conv_take_nth_drop)
  show ids: "tool_ids (op\<lparr>runningTools := ?ts[i := t]\<rparr>) = tool_ids op"
    using assms(2,3) by (simp add: tool_ids_def map_update list_update_same_conv)
  have "distinct (map toolCallId (take i ?ts @ ?ts ! i # drop (Suc i) ?ts))"
    using assms(1) split by (simp add: tool_ids_def)
  then have fresh: "toolCallId t \<notin> toolCallId ` set (take i ?ts)" using assms(3) by auto
  have "tool_map op = (map_of (map (\<lambda>t. (toolCallId t, t)) (take i ?ts @ drop (Suc i) ?ts)))(toolCallId t \<mapsto> ?ts ! i)"
    using map_of_tool_middle [of "?ts ! i" "take i ?ts" "drop (Suc i) ?ts"] fresh assms(3) split by (simp add: tool_map_def del: map_append)
  then show "tool_map (op\<lparr>runningTools := ?ts[i := t]\<rparr>) = (tool_map op)(toolCallId t \<mapsto> t)"
    using map_of_tool_middle [OF fresh, of "drop (Suc i) ?ts"] by (simp add: tool_map_def upd del: map_append)
qed

lemma upsertTool_map:
  assumes "distinct (tool_ids op)"
  shows "distinct (tool_ids (upsertTool t op))" "tool_map (upsertTool t op) = (tool_map op)(toolCallId t \<mapsto> t)"
proof -
  have "distinct (tool_ids (upsertTool t op)) \<and> tool_map (upsertTool t op) = (tool_map op)(toolCallId t \<mapsto> t)"
  proof (cases "find_index (\<lambda>u. toolCallId u = toolCallId t) (runningTools op)")
    case None
    from find_no_tool [OF None] have "toolCallId t \<notin> set (tool_ids op)" "tool_map op (toolCallId t) = None" by auto
    then show ?thesis using None assms
      by (auto simp: upsertTool_def tool_ids_def tool_map_def fun_eq_iff map_add_def split: option.split)
  next
    case (Some i)
    show ?thesis using replace_tool [OF assms find_tool(1) [OF assms Some], of t] find_tool(2) [OF assms Some] Some assms
      by (simp add: upsertTool_def)
  qed
  then show "distinct (tool_ids (upsertTool t op))" "tool_map (upsertTool t op) = (tool_map op)(toolCallId t \<mapsto> t)" by auto
qed

text \<open>The specification of the two updates that need a tool to be present.\<close>

definition spec_partial :: "string \<Rightarrow> json \<Rightarrow> (string \<Rightarrow> lane_tool option) \<Rightarrow> string \<Rightarrow> lane_tool option" where
  "spec_partial c r m = (case m c of Some (RunningTool i n a _) \<Rightarrow> m(c \<mapsto> RunningTool i n a (Some r)) | _ \<Rightarrow> m)"

definition spec_settle :: "string \<Rightarrow> string \<Rightarrow> json \<Rightarrow> bool \<Rightarrow> (string \<Rightarrow> lane_tool option) \<Rightarrow> string \<Rightarrow> lane_tool option" where
  "spec_settle c n r e m = (case m c of None \<Rightarrow> m | Some t \<Rightarrow> m(c \<mapsto> SettledTool c n (tool_args t) r e))"

lemma update_tool_map:
  assumes "distinct (tool_ids op)"
  shows "distinct (tool_ids (update_tool c r op)) \<and> tool_map (update_tool c r op) = spec_partial c r (tool_map op)"
proof (cases "find_index (\<lambda>u. toolCallId u = c) (runningTools op)")
  case None
  then show ?thesis using assms find_no_tool [OF None] by (simp add: update_tool_def spec_partial_def)
next
  case (Some i)
  note f = find_tool [OF assms Some]
  show ?thesis
  proof (cases "runningTools op ! i")
    case (RunningTool j n a p)
    then show ?thesis using replace_tool [OF assms f(1), of "RunningTool j n a (Some r)"] f(2,3) Some assms
      by (simp add: update_tool_def spec_partial_def)
  next
    case (SettledTool j n a res e)
    then show ?thesis using f(3) Some assms by (simp add: update_tool_def spec_partial_def)
  qed
qed

lemma settle_tool_map:
  assumes "distinct (tool_ids op)"
  shows "distinct (tool_ids (settle_tool c n r e op)) \<and> tool_map (settle_tool c n r e op) = spec_settle c n r e (tool_map op)"
proof (cases "find_index (\<lambda>u. toolCallId u = c) (runningTools op)")
  case None
  then show ?thesis using assms find_no_tool [OF None] by (simp add: settle_tool_def spec_settle_def)
next
  case (Some i)
  note f = find_tool [OF assms Some]
  show ?thesis using replace_tool [OF assms f(1), of "SettledTool c n (tool_args (runningTools op ! i)) r e"] f(2,3) Some assms
    by (simp add: settle_tool_def spec_settle_def)
qed

lemma remove_tool_map:
  assumes "distinct (tool_ids op)"
  shows "distinct (tool_ids (remove_tool (Some c) op)) \<and> tool_map (remove_tool (Some c) op) = (tool_map op)(c := None)"
proof (cases "find_index (\<lambda>u. toolCallId u = c) (runningTools op)")
  case None
  then show ?thesis using assms find_no_tool [OF None] by (simp add: remove_tool_def fun_upd_idem)
next
  case (Some i)
  let ?ts = "runningTools op"
  note f = find_tool [OF assms Some]
  have split: "?ts = take i ?ts @ ?ts ! i # drop (Suc i) ?ts" using f(1) by (simp add: id_take_nth_drop)
  have "distinct (map toolCallId (take i ?ts @ ?ts ! i # drop (Suc i) ?ts))"
    using assms split by (simp add: tool_ids_def)
  then have d: "distinct (map toolCallId (take i ?ts @ drop (Suc i) ?ts))"
    "c \<notin> toolCallId ` set (take i ?ts)" "c \<notin> toolCallId ` set (drop (Suc i) ?ts)" using f(2) by auto
  have "tool_map op = (map_of (map (\<lambda>t. (toolCallId t, t)) (take i ?ts @ drop (Suc i) ?ts)))(c \<mapsto> ?ts ! i)"
    using map_of_tool_middle [of "?ts ! i" "take i ?ts" "drop (Suc i) ?ts"] d(2) f(2) split by (simp add: tool_map_def del: map_append)
  moreover have "map_of (map (\<lambda>t. (toolCallId t, t)) (take i ?ts @ drop (Suc i) ?ts)) c = None"
    using d(2,3) by (auto simp: map_of_eq_None_iff)
  ultimately have "tool_map (remove_tool (Some c) op) = (tool_map op)(c := None)"
    using Some by (simp add: remove_tool_def tool_map_def splice_def fun_upd_idem del: map_append)
  then show ?thesis using d(1) Some by (simp add: remove_tool_def tool_ids_def splice_def)
qed

lemma remove_no_tool [simp]: "remove_tool None op = op"
  by (simp add: remove_tool_def find_index_None_iff [THEN iffD2] split: option.split)

section \<open>One event and the current operation\<close>

text \<open>Whether an event of the lane ends or replaces an operation.\<close>

definition supersedes :: "string \<Rightarrow> operation_kind \<Rightarrow> harness_event \<Rightarrow> bool" where
  "supersedes i kind e \<longleftrightarrow>
     (case e of
        RunStart _ _ \<Rightarrow> True
      | NavigationStart _ _ \<Rightarrow> True
      | RunEnd j _ _ _ _ \<Rightarrow> j = i \<and> kind = RunOperation
      | CompactionEnd j _ _ \<Rightarrow> j = i \<and> kind = CompactionOperation
      | _ \<Rightarrow> False)"

definition of_lane :: "lane_snapshot \<Rightarrow> string option \<Rightarrow> harness_event \<Rightarrow> bool" where
  "of_lane s lane e \<longleftrightarrow> lane = None \<or> lane = Some (snapshot_lane s) \<or> is_usage e"

text \<open>What an event does to the tools of the operation \<open>i\<close>, as a map from call identifiers.\<close>

definition spec_tool_event :: "string \<Rightarrow> harness_event \<Rightarrow> (string \<Rightarrow> lane_tool option) \<Rightarrow> string \<Rightarrow> lane_tool option" where
  "spec_tool_event i e m =
     (case e of
        ToolStart j c n a \<Rightarrow> if j = i then m(c \<mapsto> RunningTool c n a None) else m
      | ToolUpdate j c r \<Rightarrow> if j = i then spec_partial c r m else m
      | ToolEnd j c n r err \<Rightarrow> if j = i then spec_settle c n r err m else m
      | EntryAdded x \<Rightarrow>
          (case entry_data x of
             MessageData msg \<Rightarrow>
               (case toolCallId_of msg of Some c \<Rightarrow> if role msg = ''toolResult'' then m(c := None) else m | None \<Rightarrow> m)
           | _ \<Rightarrow> m)
      | _ \<Rightarrow> m)"

definition same_operation :: "lane_operation \<Rightarrow> lane_operation \<Rightarrow> bool" where
  "same_operation op op' \<longleftrightarrow> operation_id op' = operation_id op \<and> operation_kind op' = operation_kind op \<and>
     startedAt op' = startedAt op \<and> fromTipId op' = fromTipId op"

definition same_tools :: "lane_operation \<Rightarrow> lane_operation \<Rightarrow> bool" where
  "same_tools op op' \<longleftrightarrow> runningTools op' = runningTools op"

lemma same_operation_refl [simp]: "same_operation op op"
  by (simp add: same_operation_def)

lemma same_operation_tools:
  "same_operation op (upsertTool t op)" "same_operation op (update_tool c r op)"
  "same_operation op (settle_tool c n r e op)" "same_operation op (remove_tool k op)"
  by (auto simp: same_operation_def upsertTool_def update_tool_def settle_tool_def remove_tool_def
      split: option.split lane_tool.split)

lemma update_matching_operation:
  assumes "lane_operation s = Some op"
  shows "lane_operation (update_matching i f s) = Some (if operation_id op = i then f op else op)"
  using assms by (simp add: update_matching_def matchingOperation_def)

definition keeps_operation :: "harness_event \<Rightarrow> lane_operation \<Rightarrow> lane_snapshot \<Rightarrow> bool" where
  "keeps_operation e op t \<longleftrightarrow> (\<exists>op'. lane_operation t = Some op' \<and> same_operation op op' \<and> distinct (tool_ids op') \<and>
     tool_map op' = spec_tool_event (operation_id op) e (tool_map op))"

lemma keeps_same:
  assumes "lane_operation t = Some op'" and "same_operation op op'" and "same_tools op op'" and "distinct (tool_ids op)"
    and "\<And>m. spec_tool_event (operation_id op) e m = m"
  shows "keeps_operation e op t"
  using assms by (simp add: keeps_operation_def same_tools_def tool_ids_def tool_map_def)

lemma reduce_event_keeps:
  assumes "lane_operation s = Some op" and "distinct (tool_ids op)" and "\<not> supersedes (operation_id op) (operation_kind op) e"
  shows "keeps_operation e op (reduce_event lane e s)"
proof (cases e)
  case (ToolStart j c n a)
  then show ?thesis using assms upsertTool_map [OF assms(2), of "RunningTool c n a None"]
    by (simp add: keeps_operation_def update_matching_operation spec_tool_event_def same_operation_tools)
next
  case (ToolUpdate j c r)
  then show ?thesis using assms update_tool_map [OF assms(2), of c r]
    by (simp add: keeps_operation_def update_matching_operation spec_tool_event_def same_operation_tools)
next
  case (ToolEnd j c n r err)
  then show ?thesis using assms settle_tool_map [OF assms(2), of c n r err]
    by (simp add: keeps_operation_def update_matching_operation spec_tool_event_def same_operation_tools)
next
  case (EntryAdded x)
  show ?thesis
  proof (cases "entry_data x")
    case (MessageData m)
    show ?thesis
    proof (cases "toolCallId_of m")
      case None
      then show ?thesis using EntryAdded MessageData assms
        by (simp add: keeps_operation_def add_entry_event_def entry_type_def Let_def spec_tool_event_def)
    next
      case (Some c)
      then show ?thesis using EntryAdded MessageData assms remove_tool_map [OF assms(2), of c]
        by (simp add: keeps_operation_def add_entry_event_def entry_type_def Let_def spec_tool_event_def same_operation_tools)
    qed
  qed (insert EntryAdded assms, simp_all add: keeps_operation_def add_entry_event_def entry_type_def Let_def spec_tool_event_def)
next
  case (RunEnd j st source tip ended)
  then show ?thesis using assms
    by (intro keeps_same [where op' = op])
       (auto simp: end_run_def matchingOperation_def supersedes_def spec_tool_event_def same_tools_def)
next
  case (CompactionEnd j st ended)
  then show ?thesis using assms
    by (intro keeps_same [where op' = op])
       (auto simp: end_compaction_def matchingOperation_def supersedes_def spec_tool_event_def same_tools_def)
qed (insert assms, auto intro!: keeps_same simp: update_matching_operation same_operation_def same_tools_def supersedes_def
    spec_tool_event_def split: option.split)

lemma lane_steps_keep:
  assumes "lane_steps s evs t" and "lane_operation s = Some op" and "distinct (tool_ids op)"
    and "\<forall>(lane, e) \<in> set evs. of_lane s lane e \<longrightarrow> \<not> supersedes (operation_id op) (operation_kind op) e"
  shows "snapshot_lane t = snapshot_lane s \<and> (\<exists>op'. lane_operation t = Some op' \<and> same_operation op op' \<and> distinct (tool_ids op') \<and>
    tool_map op' = fold (\<lambda>(lane, e) m. if of_lane s lane e then spec_tool_event (operation_id op) e m else m) evs (tool_map op))"
  using assms
proof (induction arbitrary: op rule: lane_steps.induct)
  case (lane_nil s)
  then show ?case by simp
next
  case (lane_cons s ev evs t)
  obtain lane e where ev: "ev = (lane, e)" by fastforce
  let ?s1 = "fst (reduceLaneSnapshot s ev)"
  show ?case
  proof (cases "of_lane s lane e")
    case False
    then have "?s1 = s" using ev by (auto simp: of_lane_def reduceLaneSnapshot_def)
    then show ?thesis using lane_cons.IH [of op] lane_cons.prems ev False by simp
  next
    case True
    then have s1: "?s1 = reduce_event lane e s" using ev by (auto simp: of_lane_def reduceLaneSnapshot_def)
    have "\<not> supersedes (operation_id op) (operation_kind op) e" using lane_cons.prems(3) ev True by auto
    from reduce_event_keeps [OF lane_cons.prems(1,2) this, of lane] obtain op1 where
      op1: "lane_operation ?s1 = Some op1" "same_operation op op1" "distinct (tool_ids op1)"
        "tool_map op1 = spec_tool_event (operation_id op) e (tool_map op)"
      by (auto simp: keeps_operation_def s1)
    have lane: "snapshot_lane ?s1 = snapshot_lane s" using s1 reduce_keeps_lane by simp
    then have lanes: "of_lane ?s1 = of_lane s" by (simp add: of_lane_def fun_eq_iff)
    have same: "operation_id op1 = operation_id op" "operation_kind op1 = operation_kind op" "startedAt op1 = startedAt op"
      "fromTipId op1 = fromTipId op" using op1(2) by (simp_all add: same_operation_def)
    have "\<forall>(lane, e) \<in> set evs. of_lane s lane e \<longrightarrow> \<not> supersedes (operation_id op) (operation_kind op) e"
      using lane_cons.prems(3) by simp
    from lane_cons.IH [OF op1(1,3), unfolded lanes same op1(4), OF this] show ?thesis
      using lane ev True same by (simp add: same_operation_def)
  qed
qed

section \<open>Properties\<close>

text \<open>
  C35: While an operation is not ended or replaced, the tools a watcher sees are an exact map: after any events the
  running tools have distinct call identifiers, and each call is as a map would say - running since its start with its
  last partial result, settled with the arguments of its start, gone once its result entry is in the transcript -
  whatever the events of other runs and other lanes.
\<close>

theorem lane_tools_refine_map:
  assumes "lane_steps s evs t" and "lane_operation s = Some op" and "runningTools op = []"
    and "\<forall>(lane, e) \<in> set evs. of_lane s lane e \<longrightarrow> \<not> supersedes (operation_id op) (operation_kind op) e"
  shows "\<exists>op'. lane_operation t = Some op' \<and> distinct (tool_ids op') \<and>
    tool_map op' = fold (\<lambda>(lane, e) m. if of_lane s lane e then spec_tool_event (operation_id op) e m else m) evs (\<lambda>_. None)"
proof -
  have "distinct (tool_ids op)" "tool_map op = (\<lambda>_. None)" using assms(3) by (simp_all add: tool_ids_def tool_map_def fun_eq_iff)
  then show ?thesis using lane_steps_keep [OF assms(1,2) _ assms(4)] by auto
qed

text \<open>
  C34: A run is bracketed by its start and its end, as long as nothing replaces it: from the start of run \<open>r\<close>,
  under any further events that neither start another run or navigation on the lane nor end \<open>r\<close>, the lane shows that
  same run with the time and tip it started from; the end of \<open>r\<close> then closes it, and the recorded result has its
  identifier, its kind and its start time. If a navigation or a run with another identifier does start first, it is the
  operation shown from then on, and the end of \<open>r\<close> is ignored: it records no result and closes nothing.
\<close>

theorem run_start_to_end:
  assumes "lane_steps (fst (reduceLaneSnapshot s (Some (snapshot_lane s), RunStart r started))) evs u"
    and "\<forall>(lane, e) \<in> set evs. of_lane s lane e \<longrightarrow> \<not> supersedes r RunOperation e"
  shows "\<exists>op. lane_operation u = Some op \<and> operation_id op = r \<and> operation_kind op = RunOperation \<and>
    startedAt op = started \<and> fromTipId op = tipId s \<and>
    (let v = fst (reduceLaneSnapshot u (Some (snapshot_lane s), RunEnd r status from tip ended)) in
     lane_operation v = None \<and> tipId v = tip \<and>
     lastResult v = Some \<lparr>result_operationId = r, result_kind = RunOperation, result_status = status, result_fromTipId = from,
       result_tipId = tip, result_startedAt = started, result_endedAt = ended\<rparr>) \<and>
    (let replaces = (\<lambda>e. let w = fst (reduceLaneSnapshot u (Some (snapshot_lane s), e)) in
       map_option operation_id (lane_operation w) = Some i \<and> lastResult w = lastResult u \<and>
       fst (reduceLaneSnapshot w (Some (snapshot_lane s), RunEnd r status from tip ended)) = w) in
     replaces (NavigationStart i later) \<and> (i \<noteq> r \<longrightarrow> replaces (RunStart i later)))"
proof -
  let ?s = "fst (reduceLaneSnapshot s (Some (snapshot_lane s), RunStart r started))"
  let ?op = "new_operation r RunOperation started s"
  have s: "lane_operation ?s = Some ?op" "snapshot_lane ?s = snapshot_lane s" by (simp_all add: reduceLaneSnapshot_def)
  have op: "distinct (tool_ids ?op)" "operation_id ?op = r" "operation_kind ?op = RunOperation" "startedAt ?op = started"
    "fromTipId ?op = tipId s" by (simp_all add: new_operation_def tool_ids_def)
  have "of_lane ?s = of_lane s" using s(2) by (simp add: of_lane_def fun_eq_iff)
  then obtain op' where "snapshot_lane u = snapshot_lane s" "lane_operation u = Some op'" "same_operation ?op op'"
    using lane_steps_keep [OF assms(1) s(1) op(1)] assms(2) op(2,3) s(2) by auto
  then show ?thesis using op
    by (simp add: same_operation_def reduceLaneSnapshot_def end_run_def matchingOperation_def new_operation_def Let_def)
qed

section \<open>Witnesses\<close>

definition idle_snapshot :: lane_snapshot where
  "idle_snapshot = \<lparr>snapshot_lane = ''main'', transcript = [], tipId = None, lastResult = None,
     configuration = \<lparr>config_model = JNull, config_thinkingLevel = ''off'', config_activeToolNames = []\<rparr>,
     lane_messageCount = 0, lane_usage = JNull, lane_operation = None, queues = JArr [], faulted = False\<rparr>"

lemma steps_two: "lane_steps s [a, b] (fst (reduceLaneSnapshot (fst (reduceLaneSnapshot s a)) b))"
  by (simp add: lane_steps_simps)

theorem lane_tools_refine_map_witness:
  "\<exists>t op'. lane_steps (idle_snapshot\<lparr>lane_operation := Some (new_operation ''r'' RunOperation 1 idle_snapshot)\<rparr>)
      [(Some ''main'', ToolStart ''r'' ''c'' ''read'' JNull), (Some ''main'', ToolEnd ''r'' ''c'' ''read'' (JBool True) False)] t \<and>
    lane_operation t = Some op' \<and> tool_map op' ''c'' = Some (SettledTool ''c'' ''read'' JNull (JBool True) False)"
proof -
  let ?s = "idle_snapshot\<lparr>lane_operation := Some (new_operation ''r'' RunOperation 1 idle_snapshot)\<rparr>"
  let ?e1 = "(Some ''main'', ToolStart ''r'' ''c'' ''read'' JNull)"
  let ?e2 = "(Some ''main'', ToolEnd ''r'' ''c'' ''read'' (JBool True) False)"
  have lane: "snapshot_lane ?s = ''main''" by (simp add: idle_snapshot_def)
  have "\<exists>op'. lane_operation (fst (reduceLaneSnapshot (fst (reduceLaneSnapshot ?s ?e1)) ?e2)) = Some op' \<and> distinct (tool_ids op') \<and>
      tool_map op' = fold (\<lambda>(lane, e) m. if of_lane ?s lane e then spec_tool_event (operation_id (new_operation ''r'' RunOperation 1 idle_snapshot)) e m else m)
        [?e1, ?e2] (\<lambda>_. None)"
    by (rule lane_tools_refine_map [OF steps_two]) (simp_all add: new_operation_def supersedes_def)
  then show ?thesis using steps_two [of ?s ?e1 ?e2] lane
    by (auto simp: of_lane_def spec_tool_event_def spec_settle_def new_operation_def)
qed

theorem run_start_to_end_witness:
  "\<exists>op. lane_operation (fst (reduceLaneSnapshot (fst (reduceLaneSnapshot
      (fst (reduceLaneSnapshot idle_snapshot (Some ''main'', RunStart ''r'' 5))) (Some ''main'', OperationAbort ''r''))) (Some ''other'', RunStart ''x'' 9))) =
      Some op \<and> operation_id op = ''r'' \<and> startedAt op = 5"
proof -
  have lane: "snapshot_lane idle_snapshot = ''main''" by (simp add: idle_snapshot_def)
  have "\<forall>(lane, e) \<in> set [(Some ''main'', OperationAbort ''r''), (Some ''other'', RunStart ''x'' 9)].
      of_lane idle_snapshot lane e \<longrightarrow> \<not> supersedes ''r'' RunOperation e"
    by (simp add: lane of_lane_def supersedes_def is_usage_def)
  from run_start_to_end [OF steps_two this, where started = 5, unfolded lane] show ?thesis by blast
qed

end
