(* ===== verification/Durable_Index.thy ===== *)
theory Durable_Index imports Prelude begin

text \<open>
  Sorted identifier arrays of the durable in-memory store (\<open>packages/durable/src/storage/memory.ts\<close>): the binary
  searches, ordered insertion and removal, and the laws the store relies on: each keeps an index equal to the sorted list of
  the identifiers it stands for.
\<close>

section \<open>The code\<close>

text \<open>
  Both searches narrow \<open>low .. high\<close> until it is empty; \<open>below\<close> is the test of the middle element. The middle
  is always inside the array.
\<close>

function bound_search :: "(int \<Rightarrow> bool) \<Rightarrow> int list \<Rightarrow> nat \<Rightarrow> nat \<Rightarrow> nat" where
  "bound_search below ids low high =
     (if low < high
      then (let middle = (low + high) div 2 in
        if below (ids ! middle) then bound_search below ids (middle + 1) high else bound_search below ids low middle)
      else low)"
  by pat_completeness auto
termination by (relation "measure (\<lambda>(below, ids, low, high). high - low)") auto

declare bound_search.simps [simp del]

definition lowerBound :: "int list \<Rightarrow> int \<Rightarrow> nat" where
  "lowerBound ids target = bound_search (\<lambda>x. x < target) ids 0 (length ids)"

definition upperBound :: "int list \<Rightarrow> int \<Rightarrow> nat" where
  "upperBound ids target = bound_search (\<lambda>x. x \<le> target) ids 0 (length ids)"

definition insertSorted :: "int list \<Rightarrow> int \<Rightarrow> int list" where
  "insertSorted ids i =
     (if ids = [] \<or> last ids < i then ids @ [i] else splice (lowerBound ids i) 0 [i] ids)"

definition removeSorted :: "int list \<Rightarrow> int \<Rightarrow> int list" where
  "removeSorted ids i =
     (let index = lowerBound ids i in
      if index < length ids \<and> ids ! index = i then splice index 1 [] ids else ids)"

section \<open>The searches split a sorted array\<close>

lemma bound_search_spec:
  assumes "low \<le> high" and "high \<le> length ids"
    and mono: "\<And>i j. i < j \<Longrightarrow> j < length ids \<Longrightarrow> below (ids ! j) \<Longrightarrow> below (ids ! i)"
    and "\<forall>i < low. below (ids ! i)" and "\<forall>i. high \<le> i \<and> i < length ids \<longrightarrow> \<not> below (ids ! i)"
  shows "bound_search below ids low high \<le> length ids \<and> (\<forall>i < bound_search below ids low high. below (ids ! i)) \<and>
    (\<forall>i. bound_search below ids low high \<le> i \<and> i < length ids \<longrightarrow> \<not> below (ids ! i))"
  using assms(1,2,4,5)
proof (induction "high - low" arbitrary: low high rule: less_induct)
  case less
  show ?case
  proof (cases "low < high")
    case False
    then have "low = high" using less.prems(1) by simp
    then show ?thesis using less.prems False by (subst (1 2 3) bound_search.simps) simp
  next
    case True
    define m where "m = (low + high) div 2"
    have m: "low \<le> m" "m < high" using True by (auto simp: m_def)
    have step: "bound_search below ids low high =
        (if below (ids ! m) then bound_search below ids (m + 1) high else bound_search below ids low m)"
      using True by (subst bound_search.simps) (simp add: Let_def m_def)
    show ?thesis
    proof (cases "below (ids ! m)")
      case below: True
      have front: "\<forall>i < m + 1. below (ids ! i)"
      proof (intro allI impI)
        fix i
        assume "i < m + 1"
        then show "below (ids ! i)" using mono [of i m] below m less.prems(2) by (cases "i = m") auto
      qed
      have eq: "bound_search below ids low high = bound_search below ids (m + 1) high" using step below by simp
      show ?thesis unfolding eq
        by (rule less.hyps) (use m less.prems(2,4) front in auto)
    next
      case above: False
      have rear: "\<forall>i. m \<le> i \<and> i < length ids \<longrightarrow> \<not> below (ids ! i)"
      proof (intro allI impI)
        fix i
        assume "m \<le> i \<and> i < length ids"
        then show "\<not> below (ids ! i)" using mono [of m i] above by (cases "i = m") auto
      qed
      have eq: "bound_search below ids low high = bound_search below ids low m" using step above by simp
      show ?thesis unfolding eq
        by (rule less.hyps) (use m less.prems(2,3) rear in auto)
    qed
  qed
qed

abbreviation strictly_sorted :: "int list \<Rightarrow> bool" where
  "strictly_sorted ids \<equiv> sorted_wrt (<) ids"

lemma sorted_nth: "strictly_sorted ids \<Longrightarrow> i < j \<Longrightarrow> j < length ids \<Longrightarrow> ids ! i < ids ! j"
  by (simp add: sorted_wrt_nth_less)

lemma bound_is_filter:
  assumes "n \<le> length ids" and "\<forall>i < n. p (ids ! i)" and "\<forall>i. n \<le> i \<and> i < length ids \<longrightarrow> \<not> p (ids ! i)"
  shows "take n ids = filter p ids" "drop n ids = filter (\<lambda>x. \<not> p x) ids"
proof -
  have t: "\<forall>x \<in> set (take n ids). p x" using assms(1,2) by (auto simp: in_set_conv_nth)
  have d: "\<forall>x \<in> set (drop n ids). \<not> p x" using assms(1,3) by (auto simp: in_set_conv_nth)
  have "filter p ids = filter p (take n ids) @ filter p (drop n ids)"
    "filter (\<lambda>x. \<not> p x) ids = filter (\<lambda>x. \<not> p x) (take n ids) @ filter (\<lambda>x. \<not> p x) (drop n ids)"
    by (simp_all add: filter_append [symmetric])
  then show "take n ids = filter p ids" "drop n ids = filter (\<lambda>x. \<not> p x) ids"
    using t d by (simp_all add: filter_True filter_False)
qed

lemma lowerBound_split:
  assumes "strictly_sorted ids"
  shows "take (lowerBound ids t) ids = filter (\<lambda>x. x < t) ids" "drop (lowerBound ids t) ids = filter (\<lambda>x. \<not> x < t) ids"
proof -
  have "lowerBound ids t \<le> length ids \<and> (\<forall>i < lowerBound ids t. ids ! i < t) \<and>
      (\<forall>i. lowerBound ids t \<le> i \<and> i < length ids \<longrightarrow> \<not> ids ! i < t)"
    unfolding lowerBound_def using sorted_nth [OF assms] by (intro bound_search_spec) force+
  then show "take (lowerBound ids t) ids = filter (\<lambda>x. x < t) ids" "drop (lowerBound ids t) ids = filter (\<lambda>x. \<not> x < t) ids"
    using bound_is_filter [of "lowerBound ids t" ids "\<lambda>x. x < t"] by blast+
qed

lemma upperBound_split:
  assumes "strictly_sorted ids"
  shows "take (upperBound ids t) ids = filter (\<lambda>x. x \<le> t) ids" "drop (upperBound ids t) ids = filter (\<lambda>x. \<not> x \<le> t) ids"
proof -
  have "upperBound ids t \<le> length ids \<and> (\<forall>i < upperBound ids t. ids ! i \<le> t) \<and>
      (\<forall>i. upperBound ids t \<le> i \<and> i < length ids \<longrightarrow> \<not> ids ! i \<le> t)"
    unfolding upperBound_def using sorted_nth [OF assms] by (intro bound_search_spec) force+
  then show "take (upperBound ids t) ids = filter (\<lambda>x. x \<le> t) ids" "drop (upperBound ids t) ids = filter (\<lambda>x. \<not> x \<le> t) ids"
    using bound_is_filter [of "upperBound ids t" ids "\<lambda>x. x \<le> t"] by blast+
qed

section \<open>Sorted indexes\<close>

definition sorted_index :: "int list \<Rightarrow> int set \<Rightarrow> bool" where
  "sorted_index ids S \<longleftrightarrow> strictly_sorted ids \<and> set ids = S"

lemma sorted_index_Nil [simp]: "sorted_index [] {}"
  by (simp add: sorted_index_def)

lemma insertSorted_index:
  assumes "sorted_index ids S" and "i \<notin> S"
  shows "sorted_index (insertSorted ids i) (insert i S)"
proof -
  have s: "strictly_sorted ids" "set ids = S" using assms(1) by (simp_all add: sorted_index_def)
  show ?thesis
  proof (cases "ids = [] \<or> last ids < i")
    case True
    have "x \<le> last ids" if "x \<in> set ids" for x
      using s(1) that by (cases ids rule: rev_cases) (auto simp: sorted_wrt_append)
    then show ?thesis using True s by (fastforce simp: sorted_index_def insertSorted_def sorted_wrt_append)
  next
    case False
    have "insertSorted ids i = filter (\<lambda>x. x < i) ids @ i # filter (\<lambda>x. \<not> x < i) ids"
      using False lowerBound_split [OF s(1), of i] by (simp add: insertSorted_def splice_def)
    then show ?thesis using s assms(2)
      by (auto simp: sorted_index_def sorted_wrt_append sorted_wrt_filter not_less order.order_iff_strict)
  qed
qed

lemma removeSorted_index:
  assumes "sorted_index ids S"
  shows "sorted_index (removeSorted ids i) (S - {i})"
proof -
  have s: "strictly_sorted ids" "set ids = S" using assms by (simp_all add: sorted_index_def)
  note sp = lowerBound_split [OF s(1), of i]
  show ?thesis
  proof (cases "lowerBound ids i < length ids \<and> ids ! lowerBound ids i = i")
    case True
    then have "drop (lowerBound ids i) ids = i # drop (Suc (lowerBound ids i)) ids" by (metis Cons_nth_drop_Suc)
    moreover have "drop (Suc (lowerBound ids i)) ids = drop 1 (drop (lowerBound ids i) ids)" by simp
    ultimately have d: "filter (\<lambda>x. \<not> x < i) ids = i # drop (lowerBound ids i + 1) ids" using sp(2) by simp
    have "strictly_sorted (i # drop (lowerBound ids i + 1) ids)" using s(1) d sorted_wrt_filter by metis
    then have later: "\<forall>x \<in> set (drop (lowerBound ids i + 1) ids). i < x" "strictly_sorted (drop (lowerBound ids i + 1) ids)" by auto
    have "set (filter (\<lambda>x. \<not> x < i) ids) = insert i (set (drop (lowerBound ids i + 1) ids))" using d by simp
    then have "set (drop (lowerBound ids i + 1) ids) = {x \<in> S. \<not> x < i} - {i}" using s(2) later(1) by auto
    moreover have "removeSorted ids i = filter (\<lambda>x. x < i) ids @ drop (lowerBound ids i + 1) ids"
      using True sp(1) by (simp add: removeSorted_def splice_def Let_def)
    ultimately show ?thesis using s later
      by (auto simp: sorted_index_def sorted_wrt_append sorted_wrt_filter dest: less_trans)
  next
    case False
    have "i \<notin> S"
    proof
      assume "i \<in> S"
      then have "i \<in> set (drop (lowerBound ids i) ids)" using s(2) sp(2) by simp
      then have ne: "drop (lowerBound ids i) ids \<noteq> []" by auto
      then have lt: "lowerBound ids i < length ids" by simp
      have hd: "hd (drop (lowerBound ids i) ids) = ids ! lowerBound ids i" using lt by (simp add: hd_drop_conv_nth)
      have "strictly_sorted (drop (lowerBound ids i) ids)" using s(1) by (simp add: sorted_wrt_drop)
      then have "hd (drop (lowerBound ids i) ids) \<le> i"
        using \<open>i \<in> set (drop (lowerBound ids i) ids)\<close> by (cases "drop (lowerBound ids i) ids") auto
      moreover have "\<not> hd (drop (lowerBound ids i) ids) < i" using ne sp(2) hd_in_set by (metis mem_Collect_eq set_filter)
      ultimately show False using False lt hd by simp
    qed
    then show ?thesis using False assms by (auto simp: removeSorted_def Let_def)
  qed
qed

end
