(* ===== verification/Delta_Apply.thy ===== *)
theory Delta_Apply imports Json begin

text \<open>
  Chord deltas (\<open>packages/chord/src/delta/index.ts\<close>): operations on JSON values, their validation, and the two
  appliers. A JSON value is a tree, so changing the container a path leads to is rebuilding the spine above it; the
  in-place applier and the copying one differ in aliasing and in the checks they make first. A numeric segment, an
  index and a count are integers; the checks refuse other numbers before anything else. A new property is listed last;
  nothing here depends on the order of properties. Errors are named by their class or message.
\<close>

section \<open>Operations\<close>

datatype seg = Key string | Index int

type_synonym path = "seg list"

datatype delta_op =
    Replace json
  | SetAt path json
  | DeleteAt path
  | AppendAt path string
  | TrimAt path int
  | SpliceAt path int int "json list"
  | PermuteAt path "int list"

fun isReplace :: "delta_op \<Rightarrow> bool" where
  "isReplace (Replace _) = True"
| "isReplace _ = False"

definition isBase :: "delta_op list \<Rightarrow> bool" where
  "isBase ops \<longleftrightarrow> ops \<noteq> [] \<and> isReplace (hd ops)"

definition UnsafePathError :: string where
  "UnsafePathError = ''UnsafePathError''"

definition PathError :: string where
  "PathError = ''PathError''"

section \<open>Validation\<close>

definition RESERVED_SEGMENTS :: "string list" where
  "RESERVED_SEGMENTS = [''__proto__'', ''constructor'', ''prototype'']"

fun safe_seg :: "seg \<Rightarrow> bool" where
  "safe_seg (Key k) \<longleftrightarrow> k \<notin> set RESERVED_SEGMENTS"
| "safe_seg (Index i) \<longleftrightarrow> 0 \<le> i"

fun assertSafePath :: "path \<Rightarrow> unit throws" where
  "assertSafePath [] = Inr ()"
| "assertSafePath (s # p) = (if safe_seg s then assertSafePath p else Inl UnsafePathError)"

definition assertPathArg :: "bool \<Rightarrow> path \<Rightarrow> unit throws" where
  "assertPathArg nonEmpty p = (if nonEmpty \<and> p = [] then Inl ''path is empty'' else assertSafePath p)"

text \<open>The loop over a permutation, with the indexes seen so far.\<close>

fun check_permutation :: "nat \<Rightarrow> int list \<Rightarrow> int list \<Rightarrow> unit throws" where
  "check_permutation n seen [] = Inr ()"
| "check_permutation n seen (i # is) =
     (if i < 0 \<or> int n \<le> i \<or> i \<in> set seen then Inl ''m permutation is not a bijection''
      else check_permutation n (i # seen) is)"

definition assertPermutation :: "int list \<Rightarrow> unit throws" where
  "assertPermutation is = check_permutation (length is) [] is"

fun assertValidOp :: "delta_op \<Rightarrow> unit throws" where
  "assertValidOp (Replace _) = Inr ()"
| "assertValidOp (SetAt p _) = assertPathArg True p"
| "assertValidOp (DeleteAt p) = assertPathArg True p"
| "assertValidOp (AppendAt p _) = assertPathArg True p"
| "assertValidOp (TrimAt p n) = (if n < 0 then Inl ''t shape'' else assertPathArg True p)"
| "assertValidOp (SpliceAt p i r _) =
     bind_throws (assertPathArg False p) (\<lambda>_.
       if i < 0 then Inl ''p index'' else if r < 0 then Inl ''p remove'' else Inr ())"
| "assertValidOp (PermuteAt p is) = bind_throws (assertPathArg False p) (\<lambda>_. assertPermutation is)"

section \<open>Walking a path\<close>

text \<open>
  \<open>String(i)\<close> of an index. From \<open>1e21\<close> on the host writes an exponent, which this does not; the length of an
  array is far below that.
\<close>

definition show_int :: "int \<Rightarrow> string" where
  "show_int i = (if i < 0 then CHR 0x2D # show_nat (nat (- i)) else show_nat (nat i))"

text \<open>The property a segment names on an object.\<close>

fun seg_name :: "seg \<Rightarrow> string" where
  "seg_name (Key k) = k"
| "seg_name (Index i) = show_int i"

fun is_container :: "json \<Rightarrow> bool" where
  "is_container (JArr _) = True"
| "is_container (JObj _) = True"
| "is_container _ = False"

text \<open>\<open>Object.hasOwn\<close> of a container; an array also has its length.\<close>

fun has_own :: "json \<Rightarrow> seg \<Rightarrow> bool" where
  "has_own (JArr xs) (Index i) \<longleftrightarrow> 0 \<le> i \<and> i < int (length xs)"
| "has_own (JArr xs) (Key k) \<longleftrightarrow> k = ''length'' \<or> (\<exists>i \<in> set [0..<length xs]. k = show_nat i)"
| "has_own (JObj m) s \<longleftrightarrow> al_has (seg_name s) m"
| "has_own _ _ \<longleftrightarrow> False"

definition child :: "json \<Rightarrow> seg \<Rightarrow> json" where
  "child c s = (case c of
     JArr xs \<Rightarrow> (case s of Index i \<Rightarrow> xs ! nat i | Key _ \<Rightarrow> JNull)
   | JObj m \<Rightarrow> the (al_get (seg_name s) m)
   | _ \<Rightarrow> JNull)"

text \<open>The container with one of its children replaced.\<close>

definition set_child :: "json \<Rightarrow> seg \<Rightarrow> json \<Rightarrow> json" where
  "set_child c s v = (case c of
     JArr xs \<Rightarrow> (case s of Index i \<Rightarrow> JArr (xs[nat i := v]) | Key _ \<Rightarrow> c)
   | JObj m \<Rightarrow> JObj (al_set (seg_name s) v m)
   | _ \<Rightarrow> c)"

text \<open>One step of \<open>resolveValue\<close>.\<close>

definition step_to :: "json \<Rightarrow> seg \<Rightarrow> json throws" where
  "step_to node s =
     (if \<not> is_container node then Inl PathError
      else case (node, s) of
        (JArr _, Key _) \<Rightarrow> Inl UnsafePathError
      | _ \<Rightarrow> if has_own node s then Inr (child node s) else Inl PathError)"

fun resolveValue :: "json \<Rightarrow> path \<Rightarrow> json throws" where
  "resolveValue node [] = Inr node"
| "resolveValue node (s # p) = bind_throws (step_to node s) (\<lambda>v. resolveValue v p)"

definition resolve :: "json \<Rightarrow> path \<Rightarrow> json throws" where
  "resolve root p = bind_throws (resolveValue root p) (\<lambda>node. if is_container node then Inr node else Inl PathError)"

text \<open>The root after the container at a path was changed.\<close>

fun put_at :: "path \<Rightarrow> json \<Rightarrow> json \<Rightarrow> json" where
  "put_at [] v root = v"
| "put_at (s # p) v root = set_child root s (put_at p v (child root s))"

definition change_at :: "json \<Rightarrow> path \<Rightarrow> (json \<Rightarrow> json throws) \<Rightarrow> json throws" where
  "change_at root p f = bind_throws (resolve root p) (\<lambda>c. bind_throws (f c) (\<lambda>c'. Inr (put_at p c' root)))"

section \<open>Applying operations\<close>

text \<open>\<open>spliceItems\<close>: removal, then insertion in chunks of 10000.\<close>

function insert_chunks :: "'a list \<Rightarrow> nat \<Rightarrow> 'a list \<Rightarrow> 'a list" where
  "insert_chunks xs at items =
     (if items = [] then xs else insert_chunks (splice at 0 (take 10000 items) xs) (at + 10000) (drop 10000 items))"
  by pat_completeness auto
termination by (relation "measure (\<lambda>(xs, at, items). length items)") auto

declare insert_chunks.simps [simp del]

definition spliceItems :: "nat \<Rightarrow> nat \<Rightarrow> 'a list \<Rightarrow> 'a list \<Rightarrow> 'a list" where
  "spliceItems i r items xs = insert_chunks (splice i r [] xs) i items"

definition splice_op :: "int \<Rightarrow> int \<Rightarrow> json list \<Rightarrow> json \<Rightarrow> json throws" where
  "splice_op i r items c = (case c of JArr xs \<Rightarrow> Inr (JArr (spliceItems (nat i) (nat r) items xs)) | _ \<Rightarrow> Inl PathError)"

definition permute_op :: "int list \<Rightarrow> json \<Rightarrow> json throws" where
  "permute_op is c = (case c of
     JArr xs \<Rightarrow> if length xs = length is then Inr (JArr (map (\<lambda>i. xs ! nat i) is)) else Inl PathError
   | _ \<Rightarrow> Inl PathError)"

text \<open>The checks of the last segment, and the operations on the parent.\<close>

definition check_key :: "seg \<Rightarrow> json \<Rightarrow> unit throws" where
  "check_key key parent = (case parent of
     JArr xs \<Rightarrow> (case key of Key _ \<Rightarrow> Inl UnsafePathError
       | Index i \<Rightarrow> if int (length xs) < i then Inl UnsafePathError else Inr ())
   | _ \<Rightarrow> Inr ())"

definition write_key :: "seg \<Rightarrow> json \<Rightarrow> json \<Rightarrow> json" where
  "write_key key v parent = (case parent of
     JArr xs \<Rightarrow> (case key of Index i \<Rightarrow> if i = int (length xs) then JArr (xs @ [v]) else JArr (xs[nat i := v]) | Key _ \<Rightarrow> parent)
   | JObj m \<Rightarrow> JObj (al_set (seg_name key) v m)
   | _ \<Rightarrow> parent)"

definition delete_key :: "seg \<Rightarrow> json \<Rightarrow> json throws" where
  "delete_key key parent = (case parent of
     JArr xs \<Rightarrow> (case key of
         Index i \<Rightarrow> if int (length xs) \<le> i then Inl PathError else Inr (JArr (splice (nat i) 1 [] xs))
       | Key _ \<Rightarrow> Inl PathError)
   | JObj m \<Rightarrow> Inr (JObj (al_delete (seg_name key) m))
   | _ \<Rightarrow> Inr parent)"

definition edit_string :: "seg \<Rightarrow> (string \<Rightarrow> string) \<Rightarrow> json \<Rightarrow> json throws" where
  "edit_string key f parent =
     (if has_own parent key
      then (case child parent key of JStr t \<Rightarrow> Inr (write_key key (JStr (f t)) parent) | _ \<Rightarrow> Inl PathError)
      else Inl PathError)"

definition change_key :: "json \<Rightarrow> path \<Rightarrow> (seg \<Rightarrow> json \<Rightarrow> json throws) \<Rightarrow> json throws" where
  "change_key root p f =
     change_at root (butlast p) (\<lambda>parent. bind_throws (check_key (last p) parent) (\<lambda>_. f (last p) parent))"

definition apply_op :: "delta_op \<Rightarrow> json \<Rightarrow> json throws" where
  "apply_op op root =
     bind_throws (assertValidOp op) (\<lambda>_.
       case op of
         Replace v \<Rightarrow> Inr v
       | SpliceAt p i r items \<Rightarrow> change_at root p (splice_op i r items)
       | PermuteAt p is \<Rightarrow> change_at root p (permute_op is)
       | SetAt p v \<Rightarrow> change_key root p (\<lambda>key parent. Inr (write_key key v parent))
       | DeleteAt p \<Rightarrow> change_key root p delete_key
       | AppendAt p t \<Rightarrow> change_key root p (\<lambda>key. edit_string key (\<lambda>u. u @ t))
       | TrimAt p n \<Rightarrow> change_key root p (\<lambda>key. edit_string key (drop (nat n))))"

definition applyOps :: "delta_op list \<Rightarrow> json \<Rightarrow> json throws" where
  "applyOps = fold_throws apply_op"

text \<open>
  The copying applier copies the containers above the change before it validates the operation, so a bad path may be
  reported by another error.
\<close>

fun copyContainers :: "path \<Rightarrow> json \<Rightarrow> json throws" where
  "copyContainers [] node = (if is_container node then Inr node else Inl PathError)"
| "copyContainers (s # p) node =
     (if \<not> is_container node \<or> \<not> has_own node s then Inl PathError
      else case (node, s) of
        (JArr _, Key _) \<Rightarrow> Inl UnsafePathError
      | _ \<Rightarrow> bind_throws (copyContainers p (child node s)) (\<lambda>copied. Inr (set_child node s copied)))"

fun op_container :: "delta_op \<Rightarrow> path" where
  "op_container (SpliceAt p _ _ _) = p"
| "op_container (PermuteAt p _) = p"
| "op_container (SetAt p _) = butlast p"
| "op_container (DeleteAt p) = butlast p"
| "op_container (AppendAt p _) = butlast p"
| "op_container (TrimAt p _) = butlast p"
| "op_container (Replace _) = []"

definition apply_immutable_op :: "delta_op \<Rightarrow> json \<Rightarrow> json throws" where
  "apply_immutable_op op root =
     (case op of
        Replace v \<Rightarrow> bind_throws (assertValidOp op) (\<lambda>_. Inr v)
      | _ \<Rightarrow> bind_throws (copyContainers (op_container op) root) (applyOps [op]))"

definition applyImmutable :: "delta_op list \<Rightarrow> json \<Rightarrow> json throws" where
  "applyImmutable = fold_throws apply_immutable_op"

section \<open>Well-formed values\<close>

text \<open>JSON values have finite numbers, and objects with distinct names.\<close>

fun json_ok :: "json \<Rightarrow> bool" where
  "json_ok (JNum n) \<longleftrightarrow> num_is_finite n"
| "json_ok (JArr xs) \<longleftrightarrow> (\<forall>x \<in> set xs. json_ok x)"
| "json_ok (JObj m) \<longleftrightarrow> distinct (al_keys m) \<and> (\<forall>v \<in> snd ` set m. json_ok v)"
| "json_ok _ \<longleftrightarrow> True"

text \<open>No object, however deep, has an own property that names the prototype chain.\<close>

fun unpolluted :: "json \<Rightarrow> bool" where
  "unpolluted (JArr xs) \<longleftrightarrow> (\<forall>x \<in> set xs. unpolluted x)"
| "unpolluted (JObj m) \<longleftrightarrow> fst ` set m \<inter> set RESERVED_SEGMENTS = {} \<and> (\<forall>v \<in> snd ` set m. unpolluted v)"
| "unpolluted _ \<longleftrightarrow> True"

end
