(* ===== verification/Durable_Store.thy ===== *)
theory Durable_Store imports Durable_Index Delta_Apply begin

text \<open>
  The in-memory reference storage of durable sessions (\<open>packages/durable/src/storage/memory.ts\<close>, with the
  records of \<open>types.ts\<close>). A commit checks the identifiers and the document commands of the whole batch before
  it changes anything. Values are immutable here, so the defensive clones have no counterpart; a key built with
  \<open>JSON.stringify\<close> is the tuple it is built from.
\<close>

section \<open>Records\<close>

type_synonym id = int
type_synonym seq = int

record conversation_record =
  conversation_id :: id
  parent :: "(id \<times> id) option" \<comment> \<open>conversation and last inherited entry\<close>
  conversation_owner :: "(id \<times> id) option"

record entry_record =
  entry_id :: id
  entry_conversation :: id
  entry_kind :: string
  entry_model :: "json list option" \<comment> \<open>model-facing messages\<close>
  entry_data :: "json option"
  entry_head :: "id option"
  entry_edits :: "json list option"
  byTaskId :: "id option"

datatype task_status = Pending | Running | Terminal

record task_record =
  task_id :: id
  task_conversation :: id
  task_kind :: string
  task_version :: int
  task_input :: json
  task_after :: "id list"
  task_background :: bool
  abortRequested :: bool
  task_status :: task_status
  task_state :: json \<comment> \<open>the checkpoint of a live task, the outcome of a terminal one\<close>
  task_memos :: "(string \<times> json) list option"

record submission_record =
  submission_id :: id
  submission_conversation :: id
  requestId :: "string option"
  submission_content :: json \<comment> \<open>the type, status and result fields\<close>

datatype scope = SessionScope | ConversationScope id | TaskScope id
datatype history = Latest | Rewindable
datatype fork = ForkAsOf | ForkCurrent | ForkInitial

record document_create =
  document_id :: id
  document_kind :: string
  document_key :: "string option"
  document_scope :: scope
  document_history :: "history option"
  document_fork :: "fork option"

record document_record = document_create +
  createdAt :: seq
  retiredAt :: "seq option"

datatype document_content = Base int json | Delta int "delta_op list"

fun content_version :: "document_content \<Rightarrow> int" where
  "content_version (Base v _) = v"
| "content_version (Delta v _) = v"

fun is_base :: "document_content \<Rightarrow> bool" where
  "is_base (Base _ _) = True"
| "is_base (Delta _ _) = False"

record stored_document =
  document_record :: document_record
  revisions :: "(document_content \<times> seq) list"

datatype storage_write =
    WriteConversation conversation_record
  | WriteEntry entry_record
  | WriteTask task_record
  | WriteSubmission submission_record
  | CreateDocument document_create document_content
  | ChangeDocument id document_content
  | RetireDocument id

datatype table_name = ConversationTable | EntryTable | TaskTable | SubmissionTable | DocumentTable

text \<open>Where a document lives: its kind, its scope, and its key in a family.\<close>

type_synonym document_address = "string \<times> scope \<times> string option"

record address_index =
  address_ids :: "id list"
  currentId :: "id option"

record durable_state =
  conversations :: "(id \<times> conversation_record) list"
  conversationIds :: "id list"
  entries :: "(id \<times> entry_record) list"
  entryIds :: "(id \<times> id list) list"
  headEntryIds :: "(id \<times> id list) list"
  entryCommitSeqs :: "(id \<times> seq) list"
  tasks :: "(id \<times> task_record) list"
  taskIds :: "id list"
  taskIdsByStatus :: "task_status \<Rightarrow> id list"
  submissions :: "(id \<times> submission_record) list"
  submissionIdsByRequest :: "(id \<times> (string \<times> id) list) list"
  documents :: "(id \<times> stored_document) list"
  documentAddresses :: "(document_address \<times> address_index) list"
  documentIdsByScope :: "(scope \<times> id list) list"
  nextId :: id
  nextSeq :: seq
  closed :: bool

definition newMemoryStorage :: durable_state where
  "newMemoryStorage = \<lparr>conversations = [], conversationIds = [], entries = [], entryIds = [], headEntryIds = [],
     entryCommitSeqs = [], tasks = [], taskIds = [], taskIdsByStatus = (\<lambda>_. []), submissions = [],
     submissionIdsByRequest = [], documents = [], documentAddresses = [], documentIdsByScope = [], nextId = 2,
     nextSeq = 1, closed = False\<rparr>"

definition scope_ids :: "'k \<Rightarrow> ('k \<times> 'i list) list \<Rightarrow> 'i list" where
  "scope_ids k m = (case al_get k m of Some ids \<Rightarrow> ids | None \<Rightarrow> [])"

definition recordAddressKey :: "('a document_create_scheme) \<Rightarrow> document_address" where
  "recordAddressKey r = (document_kind r, document_scope r, document_key r)"

definition isCurrentOnly :: "('a document_create_scheme) \<Rightarrow> bool" where
  "isCurrentOnly r = (case document_scope r of ConversationScope _ \<Rightarrow> document_history r = Some Latest | _ \<Rightarrow> True)"

text \<open>A point in the history of documents: the current state, or the state after a commit.\<close>

datatype document_point = Current | AsOf seq

definition isAliveAt :: "document_record \<Rightarrow> document_point \<Rightarrow> bool" where
  "isAliveAt r at =
     (case at of
        Current \<Rightarrow> retiredAt r = None
      | AsOf n \<Rightarrow> createdAt r \<le> n \<and> (case retiredAt r of None \<Rightarrow> True | Some t \<Rightarrow> n < t))"

section \<open>Checks of a commit\<close>

definition assertOpen :: "durable_state \<Rightarrow> unit throws" where
  "assertOpen s = (if closed s then Inl ''MemoryStorage is closed'' else Inr ())"

definition tableContaining :: "durable_state \<Rightarrow> id \<Rightarrow> table_name option" where
  "tableContaining s i =
     (if al_has i (conversations s) then Some ConversationTable
      else if al_has i (entries s) then Some EntryTable
      else if al_has i (tasks s) then Some TaskTable
      else if al_has i (submissions s) then Some SubmissionTable
      else if al_has i (documents s) then Some DocumentTable
      else None)"

fun show_table :: "table_name \<Rightarrow> string" where
  "show_table ConversationTable = ''conversation''"
| "show_table EntryTable = ''entry''"
| "show_table TaskTable = ''task''"
| "show_table SubmissionTable = ''submission''"
| "show_table DocumentTable = ''document''"

text \<open>The identifier a write claims and its table; changes and retirements claim none.\<close>

fun write_claim :: "storage_write \<Rightarrow> (id \<times> table_name) option" where
  "write_claim (WriteConversation r) = Some (conversation_id r, ConversationTable)"
| "write_claim (WriteEntry r) = Some (entry_id r, EntryTable)"
| "write_claim (WriteTask r) = Some (task_id r, TaskTable)"
| "write_claim (WriteSubmission r) = Some (submission_id r, SubmissionTable)"
| "write_claim (CreateDocument r _) = Some (document_id r, DocumentTable)"
| "write_claim _ = None"

definition immutable_table :: "table_name \<Rightarrow> bool" where
  "immutable_table t \<longleftrightarrow> t = ConversationTable \<or> t = EntryTable \<or> t = DocumentTable"

fun checkGlobalIds :: "durable_state \<Rightarrow> (id \<times> table_name) list \<Rightarrow> storage_write list \<Rightarrow> unit throws" where
  "checkGlobalIds s claimed [] = Inr ()"
| "checkGlobalIds s claimed (w # ws) =
     (case write_claim w of
        None \<Rightarrow> checkGlobalIds s claimed ws
      | Some (i, table) \<Rightarrow>
          (let existing = tableContaining s i; earlier = al_get i claimed in
           if immutable_table table
           then
             (case existing of Some t \<Rightarrow> Inl (''ID '' @ show_int i @ '' already belongs to '' @ show_table t)
              | None \<Rightarrow>
                  if earlier \<noteq> None then Inl (''ID '' @ show_int i @ '' is written more than once'')
                  else checkGlobalIds s (al_set i table claimed) ws)
           else
             (case existing of
                Some t \<Rightarrow>
                  (if t \<noteq> table then Inl (''ID '' @ show_int i @ '' already belongs to '' @ show_table t)
                   else if earlier \<noteq> None \<and> earlier \<noteq> Some table then Inl (''ID '' @ show_int i @ '' is written as two record types'')
                   else checkGlobalIds s (al_set i table claimed) ws)
              | None \<Rightarrow>
                  (if earlier \<noteq> None \<and> earlier \<noteq> Some table then Inl (''ID '' @ show_int i @ '' is written as two record types'')
                   else checkGlobalIds s (al_set i table claimed) ws))))"

text \<open>The commands for each document of the batch, in order of first mention.\<close>

record document_action =
  action_create :: "document_create option"
  action_content :: "document_content option"
  action_retire :: bool

definition action_of :: "id \<Rightarrow> (id \<times> document_action) list \<Rightarrow> document_action" where
  "action_of i actions = (case al_get i actions of Some a \<Rightarrow> a
     | None \<Rightarrow> \<lparr>action_create = None, action_content = None, action_retire = False\<rparr>)"

definition prepare_action :: "storage_write \<Rightarrow> (id \<times> document_action) list \<Rightarrow> (id \<times> document_action) list throws" where
  "prepare_action w actions =
     (case w of
        CreateDocument r content \<Rightarrow>
          (let i = document_id r; a = action_of i actions in
           if action_create a \<noteq> None \<or> action_content a \<noteq> None
           then Inl (''Document '' @ show_int i @ '' has more than one content command'')
           else Inr (al_set i (a\<lparr>action_create := Some r, action_content := Some content\<rparr>) actions))
      | ChangeDocument i content \<Rightarrow>
          (let a = action_of i actions in
           if action_content a \<noteq> None then Inl (''Document '' @ show_int i @ '' has more than one content command'')
           else Inr (al_set i (a\<lparr>action_content := Some content\<rparr>) actions))
      | RetireDocument i \<Rightarrow>
          (let a = action_of i actions in
           if action_retire a then Inl (''Document '' @ show_int i @ '' is retired more than once'')
           else Inr (al_set i (a\<lparr>action_retire := True\<rparr>) actions))
      | _ \<Rightarrow> Inr actions)"

definition prepareDocumentActions :: "storage_write list \<Rightarrow> (id \<times> document_action) list throws" where
  "prepareDocumentActions ws = fold_throws prepare_action ws []"

text \<open>The address a checked action is about.\<close>

definition action_address :: "durable_state \<Rightarrow> id \<Rightarrow> document_action \<Rightarrow> document_address" where
  "action_address s i a =
     (case action_create a of
        Some c \<Rightarrow> recordAddressKey c
      | None \<Rightarrow> (case al_get i (documents s) of Some d \<Rightarrow> recordAddressKey (document_record d) | None \<Rightarrow> ([], SessionScope, None)))"

definition current_of :: "durable_state \<Rightarrow> document_address \<Rightarrow> id option" where
  "current_of s k = (case al_get k (documentAddresses s) of Some x \<Rightarrow> currentId x | None \<Rightarrow> None)"

definition check_action ::
  "durable_state \<Rightarrow> id \<times> document_action \<Rightarrow> (document_address \<times> int) list \<Rightarrow> (document_address \<times> int) list throws" where
  "check_action s ia liveCounts =
     (case ia of (i, a) \<Rightarrow>
       (let existing = al_get i (documents s) in
        if action_create a = None \<and> existing = None then Inl (''Unknown document: '' @ show_int i)
        else if action_create a \<noteq> None \<and> existing \<noteq> None then Inl (''Document '' @ show_int i @ '' already exists'')
        else if (case existing of Some d \<Rightarrow> retiredAt (document_record d) \<noteq> None | None \<Rightarrow> False)
        then Inl (''Document '' @ show_int i @ '' is retired'')
        else if action_create a \<noteq> None \<and> \<not> (case action_content a of Some c \<Rightarrow> is_base c | None \<Rightarrow> False)
        then Inl (''Document '' @ show_int i @ '' creation requires a base'')
        else
          (let previous = (case existing of Some d \<Rightarrow> if revisions d = [] then None else Some (fst (last (revisions d))) | None \<Rightarrow> None) in
           bind_throws
             (case action_content a of
                Some (Delta v ops) \<Rightarrow>
                  (case previous of
                     None \<Rightarrow> Inl (''Document '' @ show_int i @ '' delta has no base'')
                   | Some p \<Rightarrow> if content_version p \<noteq> v then Inl (''Document '' @ show_int i @ '' version transition requires a base'') else Inr ())
              | _ \<Rightarrow> Inr ())
             (\<lambda>_. let key = action_address s i a; current = current_of s key;
                   live = (case al_get key liveCounts of Some n \<Rightarrow> n | None \<Rightarrow> if current = None then 0 else 1);
                   live1 = (if action_retire a \<and> current = Some i then live - 1 else live);
                   live2 = (if action_create a \<noteq> None \<and> \<not> action_retire a then live1 + 1 else live1) in
               Inr (al_set key live2 liveCounts)))))"

definition checkDocumentActions :: "durable_state \<Rightarrow> (id \<times> document_action) list \<Rightarrow> unit throws" where
  "checkDocumentActions s actions =
     bind_throws (fold_throws (check_action s) actions []) (\<lambda>liveCounts.
       if \<exists>live \<in> set (map snd liveCounts). live > 1
       then Inl ''Document address already has a current incarnation'' else Inr ())"

section \<open>Applying a commit\<close>

definition put_conversation :: "conversation_record \<Rightarrow> durable_state \<Rightarrow> durable_state" where
  "put_conversation r s = s\<lparr>conversations := al_set (conversation_id r) r (conversations s),
     conversationIds := insertSorted (conversationIds s) (conversation_id r),
     nextId := max (nextId s) (conversation_id r + 1)\<rparr>"

definition put_entry :: "seq \<Rightarrow> entry_record \<Rightarrow> durable_state \<Rightarrow> durable_state" where
  "put_entry n r s =
     (let c = entry_conversation r; i = entry_id r in
      s\<lparr>entries := al_set i r (entries s), entryCommitSeqs := al_set i n (entryCommitSeqs s),
        entryIds := al_set c (insertSorted (scope_ids c (entryIds s)) i) (entryIds s),
        headEntryIds := (if entry_head r \<noteq> None then al_set c (insertSorted (scope_ids c (headEntryIds s)) i) (headEntryIds s)
          else headEntryIds s),
        nextId := max (nextId s) (i + 1)\<rparr>)"

definition put_task :: "task_record \<Rightarrow> durable_state \<Rightarrow> durable_state" where
  "put_task r s =
     (let i = task_id r;
          s1 = (case al_get i (tasks s) of
              None \<Rightarrow> s\<lparr>taskIds := insertSorted (taskIds s) i,
                taskIdsByStatus := (taskIdsByStatus s)(task_status r := insertSorted (taskIdsByStatus s (task_status r)) i)\<rparr>
            | Some previous \<Rightarrow>
                if task_status previous \<noteq> task_status r
                then (let m = (taskIdsByStatus s)(task_status previous := removeSorted (taskIdsByStatus s (task_status previous)) i) in
                      s\<lparr>taskIdsByStatus := m(task_status r := insertSorted (m (task_status r)) i)\<rparr>)
                else s) in
      s1\<lparr>tasks := al_set i r (tasks s1), nextId := max (nextId s1) (i + 1)\<rparr>)"

definition forget_request :: "id \<Rightarrow> submission_record \<Rightarrow> (id \<times> (string \<times> id) list) list \<Rightarrow> (id \<times> (string \<times> id) list) list" where
  "forget_request i previous index =
     (case requestId previous of
        None \<Rightarrow> index
      | Some q \<Rightarrow>
          (case al_get (submission_conversation previous) index of
             None \<Rightarrow> index
           | Some requests \<Rightarrow>
               (if al_get q requests = Some i
                then (let requests' = al_delete q requests in
                      if requests' = [] then al_delete (submission_conversation previous) index
                      else al_set (submission_conversation previous) requests' index)
                else index)))"

definition put_submission :: "submission_record \<Rightarrow> durable_state \<Rightarrow> durable_state" where
  "put_submission r s =
     (let i = submission_id r;
          index = (case al_get i (submissions s) of Some previous \<Rightarrow> forget_request i previous (submissionIdsByRequest s)
            | None \<Rightarrow> submissionIdsByRequest s);
          c = submission_conversation r;
          index' = (case requestId r of
              None \<Rightarrow> index
            | Some q \<Rightarrow> al_set c (al_set q i (scope_ids c index)) index) in
      s\<lparr>submissions := al_set i r (submissions s), submissionIdsByRequest := index', nextId := max (nextId s) (i + 1)\<rparr>)"

definition apply_record :: "seq \<Rightarrow> storage_write \<Rightarrow> durable_state \<Rightarrow> durable_state" where
  "apply_record n w s =
     (case w of
        WriteConversation r \<Rightarrow> put_conversation r s
      | WriteEntry r \<Rightarrow> put_entry n r s
      | WriteTask r \<Rightarrow> put_task r s
      | WriteSubmission r \<Rightarrow> put_submission r s
      | _ \<Rightarrow> s)"

definition create_stored :: "seq \<Rightarrow> document_create \<Rightarrow> document_content \<Rightarrow> bool \<Rightarrow> stored_document" where
  "create_stored n c content retire =
     \<lparr>document_record = document_create.extend c (document_record.fields n (if retire then Some n else None)),
      revisions = [(content, n)]\<rparr>"

text \<open>The three steps of an action: creation or new content, retirement, and the current incarnation of the address.\<close>

definition add_document :: "id \<Rightarrow> stored_document \<Rightarrow> durable_state \<Rightarrow> durable_state" where
  "add_document i d s =
     (let r = document_record d; key = recordAddressKey r;
          address = (case al_get key (documentAddresses s) of Some x \<Rightarrow> x | None \<Rightarrow> \<lparr>address_ids = [], currentId = None\<rparr>) in
      s\<lparr>documents := al_set i d (documents s),
        documentAddresses := al_set key (address\<lparr>address_ids := insertSorted (address_ids address) i\<rparr>) (documentAddresses s),
        documentIdsByScope := al_set (document_scope r)
          (insertSorted (scope_ids (document_scope r) (documentIdsByScope s)) i) (documentIdsByScope s),
        nextId := max (nextId s) (i + 1)\<rparr>)"

definition add_revision :: "seq \<Rightarrow> document_content \<Rightarrow> stored_document \<Rightarrow> stored_document" where
  "add_revision n content d =
     (if is_base content \<and> isCurrentOnly (document_record d) then d\<lparr>revisions := [(content, n)]\<rparr>
      else d\<lparr>revisions := revisions d @ [(content, n)]\<rparr>)"

definition retire_stored :: "seq \<Rightarrow> bool \<Rightarrow> stored_document \<Rightarrow> stored_document" where
  "retire_stored n created d =
     (let d1 = (if created then d else d\<lparr>document_record := (document_record d)\<lparr>retiredAt := Some n\<rparr>\<rparr>) in
      if isCurrentOnly (document_record d1) then d1\<lparr>revisions := []\<rparr> else d1)"

definition set_current :: "document_address \<Rightarrow> id \<Rightarrow> bool \<Rightarrow> bool \<Rightarrow> durable_state \<Rightarrow> durable_state" where
  "set_current key i created retire s =
     (case al_get key (documentAddresses s) of
        None \<Rightarrow> s
      | Some x \<Rightarrow>
          (let x1 = (if retire \<and> currentId x = Some i then x\<lparr>currentId := None\<rparr> else x);
               x2 = (if created \<and> \<not> retire then x1\<lparr>currentId := Some i\<rparr> else x1) in
           s\<lparr>documentAddresses := al_set key x2 (documentAddresses s)\<rparr>))"

definition start_action :: "seq \<Rightarrow> id \<Rightarrow> document_action \<Rightarrow> durable_state \<Rightarrow> durable_state" where
  "start_action n i a s =
     (case action_create a of
        Some c \<Rightarrow>
          (case action_content a of
             Some content \<Rightarrow> add_document i (create_stored n c content (action_retire a)) s
           | None \<Rightarrow> s)
      | None \<Rightarrow>
          (case (action_content a, al_get i (documents s)) of
             (Some content, Some d) \<Rightarrow> s\<lparr>documents := al_set i (add_revision n content d) (documents s)\<rparr>
           | _ \<Rightarrow> s))"

definition finish_action :: "seq \<Rightarrow> id \<Rightarrow> document_action \<Rightarrow> durable_state \<Rightarrow> durable_state" where
  "finish_action n i a s =
     (case al_get i (documents s) of
        None \<Rightarrow> s
      | Some d \<Rightarrow>
          (let d1 = (if action_retire a then retire_stored n (action_create a \<noteq> None) d else d);
               s1 = (if action_retire a then s\<lparr>documents := al_set i d1 (documents s)\<rparr> else s) in
           if action_create a \<noteq> None \<or> action_retire a
           then set_current (recordAddressKey (document_record d1)) i (action_create a \<noteq> None) (action_retire a) s1
           else s1))"

definition apply_action :: "seq \<Rightarrow> id \<times> document_action \<Rightarrow> durable_state \<Rightarrow> durable_state" where
  "apply_action n ia s = (case ia of (i, a) \<Rightarrow> finish_action n i a (start_action n i a s))"

definition applyDocumentActions :: "(id \<times> document_action) list \<Rightarrow> seq \<Rightarrow> durable_state \<Rightarrow> durable_state" where
  "applyDocumentActions actions n s = fold (apply_action n) actions s"

definition commit :: "storage_write list \<Rightarrow> durable_state \<Rightarrow> seq throws \<times> durable_state" where
  "commit ws s =
     (case bind_throws (assertOpen s) (\<lambda>_.
           bind_throws (checkGlobalIds s [] ws) (\<lambda>_.
           bind_throws (prepareDocumentActions ws) (\<lambda>actions.
           bind_throws (checkDocumentActions s actions) (\<lambda>_. Inr actions)))) of
        Inl e \<Rightarrow> (Inl e, s)
      | Inr actions \<Rightarrow>
          (let n = nextSeq s; s1 = fold (apply_record n) ws s; s2 = applyDocumentActions actions n s1 in
           (Inr n, s2\<lparr>nextSeq := nextSeq s2 + 1\<rparr>)))"

definition mintId :: "durable_state \<Rightarrow> id throws \<times> durable_state" where
  "mintId s =
     (case assertOpen s of
        Inl e \<Rightarrow> (Inl e, s)
      | Inr _ \<Rightarrow>
          (if nextId s > 9007199254740991 then (Inl ''ID space is exhausted'', s)
           else (Inr (nextId s), s\<lparr>nextId := nextId s + 1\<rparr>)))"

definition close_store :: "durable_state \<Rightarrow> durable_state" where
  "close_store s = s\<lparr>closed := True\<rparr>"

end
