(* ===== verification/Durable_Inv.thy ===== *)
theory Durable_Inv imports Durable_Store begin

text \<open>
  The invariant of the durable store: every index agrees with the table it indexes, an identifier belongs to one
  table and is below the next one to mint, and an address has exactly its live incarnation as current. First the
  tables other than documents, one write at a time.
\<close>

section \<open>Identifiers\<close>

fun table_ids :: "durable_state \<Rightarrow> table_name \<Rightarrow> id set" where
  "table_ids s ConversationTable = fst ` set (conversations s)"
| "table_ids s EntryTable = fst ` set (entries s)"
| "table_ids s TaskTable = fst ` set (tasks s)"
| "table_ids s SubmissionTable = fst ` set (submissions s)"
| "table_ids s DocumentTable = fst ` set (documents s)"

definition ids_ok :: "durable_state \<Rightarrow> bool" where
  "ids_ok s \<longleftrightarrow> 2 \<le> nextId s \<and> (\<forall>t. \<forall>i \<in> table_ids s t. i < nextId s) \<and>
     (\<forall>t u. t \<noteq> u \<longrightarrow> table_ids s t \<inter> table_ids s u = {})"

text \<open>
  The owner of every identifier while a commit runs. The documents of the batch are claimed before they are created.
\<close>

definition owners :: "durable_state \<Rightarrow> (id \<Rightarrow> table_name option) \<Rightarrow> bool" where
  "owners s T \<longleftrightarrow> (\<forall>t i. t \<noteq> DocumentTable \<longrightarrow> (i \<in> table_ids s t \<longleftrightarrow> T i = Some t)) \<and>
     (\<forall>i \<in> table_ids s DocumentTable. T i = Some DocumentTable)"

fun claims_ok :: "(id \<Rightarrow> table_name option) \<Rightarrow> storage_write list \<Rightarrow> bool" where
  "claims_ok T [] = True"
| "claims_ok T (w # ws) =
     (case write_claim w of
        None \<Rightarrow> claims_ok T ws
      | Some (i, t) \<Rightarrow> (T i = None \<or> T i = Some t \<and> \<not> immutable_table t) \<and> claims_ok (T(i \<mapsto> t)) ws)"

fun claimed_after :: "(id \<Rightarrow> table_name option) \<Rightarrow> storage_write list \<Rightarrow> id \<Rightarrow> table_name option" where
  "claimed_after T [] = T"
| "claimed_after T (w # ws) = claimed_after (case write_claim w of None \<Rightarrow> T | Some (i, t) \<Rightarrow> T(i \<mapsto> t)) ws"

lemma checkGlobalIds_claims:
  assumes "checkGlobalIds s claimed ws = Inr ()"
    and "T = (\<lambda>i. case al_get i claimed of Some t \<Rightarrow> Some t | None \<Rightarrow> tableContaining s i)"
  shows "claims_ok T ws"
  using assms
proof (induction ws arbitrary: claimed T)
  case (Cons w ws)
  show ?case
  proof (cases "write_claim w")
    case None
    then show ?thesis using Cons by simp
  next
    case (Some it)
    obtain i t where it: "it = (i, t)" by fastforce
    have upd: "T(i \<mapsto> t) = (\<lambda>j. case al_get j (al_set i t claimed) of Some t \<Rightarrow> Some t | None \<Rightarrow> tableContaining s j)"
      using Cons.prems(2) by (auto simp: fun_eq_iff)
    have "checkGlobalIds s (al_set i t claimed) ws = Inr () \<and> (T i = None \<or> T i = Some t \<and> \<not> immutable_table t)"
      using Cons.prems Some it by (auto simp: Let_def split: if_splits option.splits)
    moreover have "claims_ok (T(i \<mapsto> t)) ws" by (rule Cons.IH [OF _ upd]) (use calculation in blast)
    ultimately show ?thesis using Some it by simp
  qed
qed simp

lemma owners_tableContaining:
  assumes "ids_ok s"
  shows "owners s (tableContaining s)"
proof -
  have one: "t = u" if "i \<in> table_ids s t" "i \<in> table_ids s u" for i t u
    using assms that unfolding ids_ok_def by blast
  have found: "tableContaining s i = Some t \<Longrightarrow> i \<in> table_ids s t" for i t
    by (cases t) (simp_all add: tableContaining_def al_has_iff split: if_splits)
  have some: "i \<in> table_ids s t \<Longrightarrow> \<exists>u. tableContaining s i = Some u" for i t
    by (cases t) (simp_all add: tableContaining_def al_has_iff)
  have "tableContaining s i = Some t \<longleftrightarrow> i \<in> table_ids s t" for i t
    using one found some by metis
  then show ?thesis by (auto simp: owners_def)
qed

section \<open>Tables\<close>

definition conversations_ok :: "durable_state \<Rightarrow> bool" where
  "conversations_ok s \<longleftrightarrow> distinct (al_keys (conversations s)) \<and> (\<forall>(k, r) \<in> set (conversations s). k = conversation_id r) \<and>
     sorted_index (conversationIds s) (fst ` set (conversations s))"

text \<open>The rows of a table with a property, by their keys.\<close>

definition rows_with :: "('v \<Rightarrow> bool) \<Rightarrow> (id \<times> 'v) list \<Rightarrow> id set" where
  "rows_with p m = {i. \<exists>r. al_get i m = Some r \<and> p r}"

lemma rows_with_set [simp]:
  "rows_with p (al_set i r m) = (if p r then insert i (rows_with p m) else rows_with p m - {i})"
  by (auto simp: rows_with_def)

lemma rows_with_new: "al_get i m = None \<Longrightarrow> i \<notin> rows_with p m"
  by (simp add: rows_with_def)

lemma rows_with_all: "rows_with (\<lambda>_. True) m = fst ` set m"
proof -
  have "(\<exists>r. al_get i m = Some r) \<longleftrightarrow> i \<in> fst ` set m" for i
    using al_get_None_iff [of i m] by (cases "al_get i m") auto
  then show ?thesis by (auto simp: rows_with_def)
qed

definition entries_ok :: "seq \<Rightarrow> durable_state \<Rightarrow> bool" where
  "entries_ok n s \<longleftrightarrow> distinct (al_keys (entries s)) \<and> (\<forall>(k, r) \<in> set (entries s). k = entry_id r) \<and>
     (\<forall>c. sorted_index (scope_ids c (entryIds s)) (rows_with (\<lambda>r. entry_conversation r = c) (entries s))) \<and>
     (\<forall>c. sorted_index (scope_ids c (headEntryIds s)) (rows_with (\<lambda>r. entry_conversation r = c \<and> entry_head r \<noteq> None) (entries s))) \<and>
     fst ` set (entryCommitSeqs s) = fst ` set (entries s) \<and> (\<forall>i m. al_get i (entryCommitSeqs s) = Some m \<longrightarrow> m \<le> n)"

definition tasks_ok :: "durable_state \<Rightarrow> bool" where
  "tasks_ok s \<longleftrightarrow> distinct (al_keys (tasks s)) \<and> (\<forall>(k, r) \<in> set (tasks s). k = task_id r) \<and>
     sorted_index (taskIds s) (fst ` set (tasks s)) \<and>
     (\<forall>st. sorted_index (taskIdsByStatus s st) (rows_with (\<lambda>r. task_status r = st) (tasks s)))"

text \<open>A request key leads to a submission of that conversation with that request.\<close>

definition submissions_ok :: "durable_state \<Rightarrow> bool" where
  "submissions_ok s \<longleftrightarrow> distinct (al_keys (submissions s)) \<and> (\<forall>(k, r) \<in> set (submissions s). k = submission_id r) \<and>
     distinct (al_keys (submissionIdsByRequest s)) \<and> (\<forall>c. distinct (al_keys (scope_ids c (submissionIdsByRequest s)))) \<and>
     (\<forall>c q i. al_get q (scope_ids c (submissionIdsByRequest s)) = Some i \<longrightarrow>
        (\<exists>r. al_get i (submissions s) = Some r \<and> submission_conversation r = c \<and> requestId r = Some q))"

lemma scope_ids_set [simp]: "scope_ids k (al_set k' v m) = (if k = k' then v else scope_ids k m)"
  by (simp add: scope_ids_def)

lemma set_al_set_new: "k \<notin> fst ` set m \<Longrightarrow> set (al_set k v m) = insert (k, v) (set m)"
  by (induction k v m rule: al_set.induct) auto

lemma keys_match_al_set:
  "(\<forall>(k, r) \<in> set m. k = f r) \<Longrightarrow> distinct (al_keys m) \<Longrightarrow> \<forall>(k, r) \<in> set (al_set (f r') r' m). k = f r"
  by (induction "f r'" r' m rule: al_set.induct) auto

lemma put_conversation_ok:
  assumes "conversations_ok s" and "conversation_id r \<notin> fst ` set (conversations s)"
  shows "conversations_ok (put_conversation r s)"
  using assms insertSorted_index keys_match_al_set [of "conversations s" conversation_id r]
  by (simp add: conversations_ok_def put_conversation_def)

lemma put_entry_ok:
  assumes "entries_ok n s" and "entry_id r \<notin> fst ` set (entries s)"
  shows "entries_ok n (put_entry n r s)"
proof -
  have new: "al_get (entry_id r) (entries s) = None" using assms(2) by (simp add: al_get_None_iff)
  have ids: "sorted_index (insertSorted (scope_ids c (entryIds s)) (entry_id r))
      (insert (entry_id r) (rows_with (\<lambda>r. entry_conversation r = c) (entries s)))"
    "sorted_index (insertSorted (scope_ids c (headEntryIds s)) (entry_id r))
      (insert (entry_id r) (rows_with (\<lambda>r. entry_conversation r = c \<and> entry_head r \<noteq> None) (entries s)))" for c
    using assms(1) rows_with_new [OF new] by (auto simp: entries_ok_def intro!: insertSorted_index)
  have keep: "rows_with p (entries s) - {entry_id r} = rows_with p (entries s)" for p using rows_with_new [OF new] by auto
  show ?thesis
    using assms ids keep keys_match_al_set [of "entries s" entry_id r]
    by (auto simp: entries_ok_def put_entry_def Let_def)
qed

lemma put_task_ok:
  assumes "tasks_ok s"
  shows "tasks_ok (put_task r s)"
proof -
  let ?i = "task_id r"
  have t: "distinct (al_keys (tasks s))" "\<forall>(k, r) \<in> set (tasks s). k = task_id r" "sorted_index (taskIds s) (fst ` set (tasks s))"
    "\<And>st. sorted_index (taskIdsByStatus s st) (rows_with (\<lambda>r. task_status r = st) (tasks s))"
    using assms by (simp_all add: tasks_ok_def)
  have keys: "\<forall>(k, r) \<in> set (al_set ?i r (tasks s)). k = task_id r" by (rule keys_match_al_set [OF t(2,1)])
  show ?thesis
  proof (cases "al_get ?i (tasks s)")
    case None
    then have "?i \<notin> fst ` set (tasks s)" by (simp add: al_get_None_iff)
    then have ids: "sorted_index (insertSorted (taskIds s) ?i) (insert ?i (fst ` set (tasks s)))" by (rule insertSorted_index [OF t(3)])
    have keep: "rows_with p (tasks s) - {?i} = rows_with p (tasks s)" for p using rows_with_new [OF None] by auto
    have "sorted_index (insertSorted (taskIdsByStatus s (task_status r)) ?i)
        (insert ?i (rows_with (\<lambda>x. task_status x = task_status r) (tasks s)))"
      using rows_with_new [OF None] t(4) by (intro insertSorted_index)
    then show ?thesis using None t ids keys keep by (auto simp: tasks_ok_def put_task_def Let_def)
  next
    case (Some p)
    then have mem: "?i \<in> fst ` set (tasks s)" using al_get_None_iff [of ?i "tasks s"] by auto
    show ?thesis
    proof (cases "task_status p = task_status r")
      case True
      have "insert ?i (rows_with (\<lambda>x. task_status x = task_status r) (tasks s)) = rows_with (\<lambda>x. task_status x = task_status r) (tasks s)"
        using Some True by (auto simp: rows_with_def)
      moreover have "rows_with (\<lambda>x. task_status x = st) (tasks s) - {?i} = rows_with (\<lambda>x. task_status x = st) (tasks s)"
        if "st \<noteq> task_status r" for st using Some True that by (auto simp: rows_with_def)
      ultimately show ?thesis using Some True t keys mem by (auto simp: tasks_ok_def put_task_def Let_def insert_absorb)
    next
      case False
      have rem: "sorted_index (removeSorted (taskIdsByStatus s (task_status p)) ?i)
          (rows_with (\<lambda>x. task_status x = task_status p) (tasks s) - {?i})" by (rule removeSorted_index [OF t(4)])
      have "?i \<notin> rows_with (\<lambda>x. task_status x = task_status r) (tasks s)" using Some False by (auto simp: rows_with_def)
      then have ins: "sorted_index (insertSorted (taskIdsByStatus s (task_status r)) ?i)
          (insert ?i (rows_with (\<lambda>x. task_status x = task_status r) (tasks s)))" by (intro insertSorted_index t(4))
      have "rows_with (\<lambda>x. task_status x = st) (tasks s) - {?i} = rows_with (\<lambda>x. task_status x = st) (tasks s)"
        if "st \<noteq> task_status p" for st using Some that by (auto simp: rows_with_def)
      then show ?thesis using Some False t keys mem rem ins by (auto simp: tasks_ok_def put_task_def Let_def insert_absorb)
    qed
  qed
qed

lemma forget_request_index:
  assumes "distinct (al_keys index)" and "\<And>c. distinct (al_keys (scope_ids c index))"
  shows "distinct (al_keys (forget_request i p index))" and "distinct (al_keys (scope_ids c (forget_request i p index)))"
    and "al_get q (scope_ids c (forget_request i p index)) =
      (if c = submission_conversation p \<and> requestId p = Some q \<and> al_get q (scope_ids c index) = Some i then None
       else al_get q (scope_ids c index))"
proof -
  have inner: "distinct (al_keys rs)" if "al_get c index = Some rs" for c rs
    using assms(2) [of c] that by (simp add: scope_ids_def)
  show "distinct (al_keys (forget_request i p index))"
    using assms(1) by (auto simp: forget_request_def Let_def split: option.split)
  show "distinct (al_keys (scope_ids c (forget_request i p index)))"
    using assms(1) inner by (auto simp: forget_request_def Let_def scope_ids_def split: option.split)
  have empty: "al_delete q' rs = [] \<Longrightarrow> al_get q' rs = Some i' \<Longrightarrow> rs = [(q', i')]" for q' rs and i' :: id
    by (cases rs) (auto split: if_splits)
  show "al_get q (scope_ids c (forget_request i p index)) =
      (if c = submission_conversation p \<and> requestId p = Some q \<and> al_get q (scope_ids c index) = Some i then None
       else al_get q (scope_ids c index))"
    using assms(1) inner by (auto simp: forget_request_def Let_def scope_ids_def dest: empty split: option.split if_splits)
qed

lemma put_submission_ok:
  assumes "submissions_ok s"
  shows "submissions_ok (put_submission r s)"
proof -
  let ?i = "submission_id r"
  have t: "distinct (al_keys (submissions s))" "\<forall>(k, r) \<in> set (submissions s). k = submission_id r"
    "distinct (al_keys (submissionIdsByRequest s))" "\<And>c. distinct (al_keys (scope_ids c (submissionIdsByRequest s)))"
    "\<And>c q i. al_get q (scope_ids c (submissionIdsByRequest s)) = Some i \<Longrightarrow>
        \<exists>r. al_get i (submissions s) = Some r \<and> submission_conversation r = c \<and> requestId r = Some q"
    using assms by (simp_all add: submissions_ok_def)
  define index where "index = (case al_get ?i (submissions s) of Some p \<Rightarrow> forget_request ?i p (submissionIdsByRequest s)
    | None \<Rightarrow> submissionIdsByRequest s)"
  have idx: "distinct (al_keys index)" "\<And>c. distinct (al_keys (scope_ids c index))"
    using t(3,4) forget_request_index(1,2) [OF t(3,4)] by (simp_all add: index_def split: option.split)
  text \<open>No key of the remaining index leads to the rewritten submission.\<close>
  have sound: "j \<noteq> ?i \<and> (\<exists>r. al_get j (submissions s) = Some r \<and> submission_conversation r = c \<and> requestId r = Some q)"
    if "al_get q (scope_ids c index) = Some j" for c q j
  proof (cases "al_get ?i (submissions s)")
    case None
    then show ?thesis using that t(5) [of q c j] by (auto simp: index_def)
  next
    case (Some p)
    then have g: "al_get q (scope_ids c index) =
        (if c = submission_conversation p \<and> requestId p = Some q \<and> al_get q (scope_ids c (submissionIdsByRequest s)) = Some ?i then None
         else al_get q (scope_ids c (submissionIdsByRequest s)))"
      using forget_request_index(3) [OF t(3,4)] by (simp add: index_def)
    then have old: "al_get q (scope_ids c (submissionIdsByRequest s)) = Some j" using that by (auto split: if_splits)
    from t(5) [OF this] obtain r' where r': "al_get j (submissions s) = Some r'" "submission_conversation r' = c" "requestId r' = Some q"
      by blast
    have "j \<noteq> ?i" using r' Some g old that by auto
    then show ?thesis using r' by blast
  qed
  have keys: "\<forall>(k, r) \<in> set (al_set ?i r (submissions s)). k = submission_id r" by (rule keys_match_al_set [OF t(2,1)])
  show ?thesis
    using t(1) keys idx
    by (auto simp: submissions_ok_def put_submission_def Let_def index_def [symmetric] dest: sound split: option.split if_splits)
qed

end
