(* ===== verification/Durable_Records.thy ===== *)
theory Durable_Records imports Durable_Inv begin

text \<open>
  The record writes of a commit keep the tables, their indexes and the ownership of identifiers, and leave the
  documents alone.
\<close>

definition records_ok :: "seq \<Rightarrow> durable_state \<Rightarrow> bool" where
  "records_ok n s \<longleftrightarrow> conversations_ok s \<and> entries_ok n s \<and> tasks_ok s \<and> submissions_ok s"

definition bounded :: "durable_state \<Rightarrow> bool" where
  "bounded s \<longleftrightarrow> 2 \<le> nextId s \<and> (\<forall>t. \<forall>i \<in> table_ids s t. i < nextId s)"

definition same_documents :: "durable_state \<Rightarrow> durable_state \<Rightarrow> bool" where
  "same_documents s t \<longleftrightarrow> documents t = documents s \<and> documentAddresses t = documentAddresses s \<and>
     documentIdsByScope t = documentIdsByScope s \<and> nextSeq t = nextSeq s \<and> closed t = closed s \<and> nextId s \<le> nextId t"

lemma same_documents_trans: "same_documents s t \<Longrightarrow> same_documents t u \<Longrightarrow> same_documents s u"
  by (auto simp: same_documents_def)

text \<open>What a write changes besides its own table: nothing that the other invariants mention.\<close>

lemma put_conversation_frame:
  "entries_ok n (put_conversation r s) = entries_ok n s" "tasks_ok (put_conversation r s) = tasks_ok s"
  "submissions_ok (put_conversation r s) = submissions_ok s" "same_documents s (put_conversation r s)"
  "table_ids (put_conversation r s) t = (if t = ConversationTable then insert (conversation_id r) (table_ids s t) else table_ids s t)"
  "nextId (put_conversation r s) = max (nextId s) (conversation_id r + 1)"
  by (simp_all add: put_conversation_def entries_ok_def tasks_ok_def submissions_ok_def same_documents_def) (cases t; simp)

lemma put_entry_frame:
  "conversations_ok (put_entry n r s) = conversations_ok s" "tasks_ok (put_entry n r s) = tasks_ok s"
  "submissions_ok (put_entry n r s) = submissions_ok s" "same_documents s (put_entry n r s)"
  "table_ids (put_entry n r s) t = (if t = EntryTable then insert (entry_id r) (table_ids s t) else table_ids s t)"
  "nextId (put_entry n r s) = max (nextId s) (entry_id r + 1)"
  by (simp_all add: put_entry_def Let_def conversations_ok_def tasks_ok_def submissions_ok_def same_documents_def) (cases t; simp)

lemma put_task_frame:
  "conversations_ok (put_task r s) = conversations_ok s" "entries_ok n (put_task r s) = entries_ok n s"
  "submissions_ok (put_task r s) = submissions_ok s" "same_documents s (put_task r s)"
  "table_ids (put_task r s) t = (if t = TaskTable then insert (task_id r) (table_ids s t) else table_ids s t)"
  "nextId (put_task r s) = max (nextId s) (task_id r + 1)"
  by (simp_all add: put_task_def Let_def conversations_ok_def entries_ok_def submissions_ok_def same_documents_def split: option.split)
     (cases t; simp split: option.split)

lemma put_submission_frame:
  "conversations_ok (put_submission r s) = conversations_ok s" "entries_ok n (put_submission r s) = entries_ok n s"
  "tasks_ok (put_submission r s) = tasks_ok s" "same_documents s (put_submission r s)"
  "table_ids (put_submission r s) t = (if t = SubmissionTable then insert (submission_id r) (table_ids s t) else table_ids s t)"
  "nextId (put_submission r s) = max (nextId s) (submission_id r + 1)"
  by (simp_all add: put_submission_def Let_def conversations_ok_def entries_ok_def tasks_ok_def same_documents_def) (cases t; simp)

definition claim_fits :: "(id \<Rightarrow> table_name option) \<Rightarrow> storage_write \<Rightarrow> bool" where
  "claim_fits T w \<longleftrightarrow> (\<forall>i t. write_claim w = Some (i, t) \<longrightarrow> T i = None \<or> T i = Some t \<and> \<not> immutable_table t)"

definition claim_table :: "(id \<Rightarrow> table_name option) \<Rightarrow> storage_write \<Rightarrow> id \<Rightarrow> table_name option" where
  "claim_table T w = (case write_claim w of None \<Rightarrow> T | Some (i, t) \<Rightarrow> T(i \<mapsto> t))"

lemma claims_ok_Cons: "claims_ok T (w # ws) \<longleftrightarrow> claim_fits T w \<and> claims_ok (claim_table T w) ws"
  by (auto simp: claim_fits_def claim_table_def split: option.split)

lemma owners_insert:
  assumes "owners s T" and "\<And>u. table_ids s' u = (if u = t then insert i (table_ids s u) else table_ids s u)"
    and "T i = None \<or> T i = Some t" and "t \<noteq> DocumentTable"
  shows "owners s' (T(i \<mapsto> t))"
  unfolding owners_def
proof (intro conjI allI impI ballI)
  fix u j
  assume "u \<noteq> DocumentTable"
  then show "(j \<in> table_ids s' u) = ((T(i \<mapsto> t)) j = Some u)"
    using assms(1,3) unfolding owners_def assms(2) by auto
next
  fix j
  assume "j \<in> table_ids s' DocumentTable"
  then show "(T(i \<mapsto> t)) j = Some DocumentTable"
    using assms(1,3,4) unfolding owners_def assms(2) by auto
qed

lemma bounded_insert:
  assumes "bounded s" and "\<And>u. table_ids s' u = (if u = t then insert i (table_ids s u) else table_ids s u)"
    and "nextId s' = max (nextId s) (i + 1)"
  shows "bounded s'"
  using assms unfolding bounded_def by (auto simp: less_max_iff_disj le_max_iff_disj)

lemma apply_record_step:
  assumes ok: "records_ok n s" "owners s T" "bounded s" and fits: "claim_fits T w"
  shows "records_ok n (apply_record n w s) \<and> owners (apply_record n w s) (claim_table T w) \<and>
    bounded (apply_record n w s) \<and> same_documents s (apply_record n w s)"
proof -
  have fresh: "T i = None \<Longrightarrow> t \<noteq> DocumentTable \<Longrightarrow> i \<notin> table_ids s t" for i t
    using ok(2) by (auto simp: owners_def)
  show ?thesis
  proof (cases w)
    case (WriteConversation r)
    then have "T (conversation_id r) = None" using fits by (simp add: claim_fits_def immutable_table_def)
    with fresh [OF this, of ConversationTable] owners_insert [OF ok(2), of "put_conversation r s" ConversationTable "conversation_id r"]
      bounded_insert [OF ok(3), of "put_conversation r s" ConversationTable "conversation_id r"]
    show ?thesis using WriteConversation ok(1) put_conversation_ok
      by (auto simp: apply_record_def records_ok_def claim_table_def put_conversation_frame)
  next
    case (WriteEntry r)
    then have "T (entry_id r) = None" using fits by (simp add: claim_fits_def immutable_table_def)
    with fresh [OF this, of EntryTable] owners_insert [OF ok(2), of "put_entry n r s" EntryTable "entry_id r"]
      bounded_insert [OF ok(3), of "put_entry n r s" EntryTable "entry_id r"]
    show ?thesis using WriteEntry ok(1) put_entry_ok
      by (auto simp: apply_record_def records_ok_def claim_table_def put_entry_frame)
  next
    case (WriteTask r)
    then have "T (task_id r) = None \<or> T (task_id r) = Some TaskTable" using fits by (auto simp: claim_fits_def)
    with owners_insert [OF ok(2), of "put_task r s" TaskTable "task_id r"]
      bounded_insert [OF ok(3), of "put_task r s" TaskTable "task_id r"]
    show ?thesis using WriteTask ok(1) put_task_ok
      by (auto simp: apply_record_def records_ok_def claim_table_def put_task_frame)
  next
    case (WriteSubmission r)
    then have "T (submission_id r) = None \<or> T (submission_id r) = Some SubmissionTable" using fits by (auto simp: claim_fits_def)
    with owners_insert [OF ok(2), of "put_submission r s" SubmissionTable "submission_id r"]
      bounded_insert [OF ok(3), of "put_submission r s" SubmissionTable "submission_id r"]
    show ?thesis using WriteSubmission ok(1) put_submission_ok
      by (auto simp: apply_record_def records_ok_def claim_table_def put_submission_frame)
  next
    case (CreateDocument r content)
    then have "T (document_id r) = None" using fits by (simp add: claim_fits_def immutable_table_def)
    then have "owners s (T(document_id r \<mapsto> DocumentTable))" using ok(2) by (auto simp: owners_def)
    then show ?thesis using CreateDocument ok by (simp add: apply_record_def claim_table_def same_documents_def)
  qed (use ok in \<open>simp_all add: apply_record_def claim_table_def same_documents_def\<close>)
qed

lemma apply_records:
  assumes "records_ok n s" "owners s T" "bounded s" "claims_ok T ws"
  shows "records_ok n (fold (apply_record n) ws s) \<and> owners (fold (apply_record n) ws s) (fold (\<lambda>w T. claim_table T w) ws T) \<and>
    bounded (fold (apply_record n) ws s) \<and> same_documents s (fold (apply_record n) ws s)"
  using assms
proof (induction ws arbitrary: s T)
  case Nil
  then show ?case by (simp add: same_documents_def)
next
  case (Cons w ws)
  have c: "claim_fits T w" "claims_ok (claim_table T w) ws" using Cons.prems(4) claims_ok_Cons by blast+
  note step = apply_record_step [OF Cons.prems(1-3) c(1)]
  from Cons.IH [of "apply_record n w s" "claim_table T w"] step c(2) show ?case
    using same_documents_trans by (auto simp del: claims_ok.simps)
qed

text \<open>A document the batch creates is claimed once, and was free before.\<close>

lemma claims_keep_document:
  "claims_ok T ws \<Longrightarrow> T i = Some DocumentTable \<Longrightarrow> fold (\<lambda>w T. claim_table T w) ws T i = Some DocumentTable"
proof (induction ws arbitrary: T)
  case (Cons w ws)
  have c: "claim_fits T w" "claims_ok (claim_table T w) ws" using Cons.prems(1) claims_ok_Cons by blast+
  have "claim_table T w i = Some DocumentTable"
    using c(1) Cons.prems(2) by (auto simp: claim_table_def claim_fits_def immutable_table_def split: option.split)
  then show ?case using Cons.IH [OF c(2)] by simp
qed simp

lemma created_claimed:
  "claims_ok T ws \<Longrightarrow> CreateDocument r c \<in> set ws \<Longrightarrow> fold (\<lambda>w T. claim_table T w) ws T (document_id r) = Some DocumentTable"
proof (induction ws arbitrary: T)
  case (Cons w ws)
  have c: "claim_fits T w" "claims_ok (claim_table T w) ws" using Cons.prems(1) claims_ok_Cons by blast+
  show ?case
  proof (cases "w = CreateDocument r c")
    case True
    then have "claim_table T w (document_id r) = Some DocumentTable" by (simp add: claim_table_def)
    then show ?thesis using claims_keep_document [OF c(2)] by simp
  next
    case False
    then show ?thesis using Cons.IH [OF c(2)] Cons.prems(2) by simp
  qed
qed simp

end
