(* ===== verification/Durable_Documents.thy ===== *)
theory Durable_Documents imports Durable_Records begin

text \<open>
  The documents of the durable store: the invariant of their indexes, current incarnations and retained content, and
  the document that one command of a commit leaves.
\<close>

section \<open>The invariant\<close>

abbreviation key_of :: "stored_document \<Rightarrow> document_address" where
  "key_of d \<equiv> recordAddressKey (document_record d)"

abbreviation scope_of :: "stored_document \<Rightarrow> scope" where
  "scope_of d \<equiv> document_scope (document_record d)"

abbreviation live_document :: "stored_document \<Rightarrow> bool" where
  "live_document d \<equiv> retiredAt (document_record d) = None"

definition address_list :: "document_address \<Rightarrow> durable_state \<Rightarrow> id list" where
  "address_list k s = (case al_get k (documentAddresses s) of Some x \<Rightarrow> address_ids x | None \<Rightarrow> [])"

definition documents_ok :: "durable_state \<Rightarrow> bool" where
  "documents_ok s \<longleftrightarrow> distinct (al_keys (documents s)) \<and>
     (\<forall>(k, d) \<in> set (documents s). k = document_id (document_record d)) \<and>
     (\<forall>k. sorted_index (address_list k s) (rows_with (\<lambda>d. key_of d = k) (documents s))) \<and>
     (\<forall>sc. sorted_index (scope_ids sc (documentIdsByScope s)) (rows_with (\<lambda>d. scope_of d = sc) (documents s)))"

text \<open>The current incarnation of an address is its live document, and there is at most one.\<close>

definition current_ok :: "durable_state \<Rightarrow> bool" where
  "current_ok s \<longleftrightarrow> (\<forall>k i. current_of s k = Some i \<longleftrightarrow> i \<in> rows_with (\<lambda>d. key_of d = k \<and> live_document d) (documents s))"

text \<open>
  What a document retains: a base first, and a delta only after content of its version. A retired document that keeps
  no history keeps no content; one that keeps its history has it from its creation on.
\<close>

definition chain_ok :: "(document_content \<times> seq) list \<Rightarrow> bool" where
  "chain_ok rs \<longleftrightarrow> rs \<noteq> [] \<and> is_base (fst (hd rs)) \<and>
     successively (\<lambda>p q. is_base (fst q) \<or> content_version (fst q) = content_version (fst p)) rs"

definition stored_ok :: "seq \<Rightarrow> stored_document \<Rightarrow> bool" where
  "stored_ok n d \<longleftrightarrow>
     (if \<not> live_document d \<and> isCurrentOnly (document_record d) then revisions d = [] else chain_ok (revisions d)) \<and>
     (\<not> isCurrentOnly (document_record d) \<longrightarrow> snd (hd (revisions d)) = createdAt (document_record d)) \<and>
     sorted (map snd (revisions d)) \<and> (\<forall>r \<in> set (revisions d). snd r \<le> n)"

definition histories_ok :: "seq \<Rightarrow> durable_state \<Rightarrow> bool" where
  "histories_ok n s \<longleftrightarrow> (\<forall>i d. al_get i (documents s) = Some d \<longrightarrow> stored_ok n d)"

lemma chain_ok_base: "chain_ok [(Base v x, m)]"
  by (simp add: chain_ok_def)

lemma chain_ok_append:
  "chain_ok rs \<Longrightarrow> is_base c \<or> content_version c = content_version (fst (last rs)) \<Longrightarrow> chain_ok (rs @ [(c, m)])"
  by (auto simp: chain_ok_def successively_append_iff)

lemma stored_ok_later: "stored_ok m d \<Longrightarrow> m \<le> n \<Longrightarrow> stored_ok n d"
  by (auto simp: stored_ok_def)

section \<open>One action\<close>

definition action_valid :: "durable_state \<Rightarrow> id \<Rightarrow> document_action \<Rightarrow> bool" where
  "action_valid s i a \<longleftrightarrow>
     (case action_create a of
        Some c \<Rightarrow> document_id c = i \<and> al_get i (documents s) = None \<and> (\<exists>v x. action_content a = Some (Base v x))
      | None \<Rightarrow> (\<exists>d. al_get i (documents s) = Some d \<and> live_document d \<and>
          (\<forall>v ops. action_content a = Some (Delta v ops) \<longrightarrow> content_version (fst (last (revisions d))) = v)))"

text \<open>The document an action leaves.\<close>

definition new_document :: "seq \<Rightarrow> document_action \<Rightarrow> stored_document option \<Rightarrow> stored_document" where
  "new_document n a old =
     (let d = (case action_create a of
            Some c \<Rightarrow> create_stored n c (the (action_content a)) (action_retire a)
          | None \<Rightarrow> (case action_content a of Some content \<Rightarrow> add_revision n content (the old) | None \<Rightarrow> the old)) in
      if action_retire a then retire_stored n (action_create a \<noteq> None) d else d)"

lemma create_stored_record [simp]:
  "document_id (document_record (create_stored n c content r)) = document_id c" "key_of (create_stored n c content r) = recordAddressKey c"
  "scope_of (create_stored n c content r) = document_scope c" "live_document (create_stored n c content r) \<longleftrightarrow> \<not> r"
  "revisions (create_stored n c content r) = [(content, n)]"
  by (simp_all add: create_stored_def document_create.extend_def document_record.fields_def recordAddressKey_def)

lemma add_revision_record [simp]: "document_record (add_revision n content d) = document_record d"
  by (simp add: add_revision_def)

lemma retire_stored_record [simp]:
  "document_id (document_record (retire_stored n c d)) = document_id (document_record d)" "key_of (retire_stored n c d) = key_of d"
  "scope_of (retire_stored n c d) = scope_of d" "live_document (retire_stored n c d) \<longleftrightarrow> c \<and> live_document d"
  by (simp_all add: retire_stored_def Let_def recordAddressKey_def)

lemma new_document_created:
  assumes "action_create a = Some c"
  shows "document_id (document_record (new_document n a old)) = document_id c" "key_of (new_document n a old) = recordAddressKey c"
    "scope_of (new_document n a old) = document_scope c" "live_document (new_document n a old) \<longleftrightarrow> \<not> action_retire a"
  using assms by (simp_all add: new_document_def Let_def)

lemma new_document_changed:
  assumes "action_create a = None"
  shows "document_id (document_record (new_document n a (Some d))) = document_id (document_record d)"
    "key_of (new_document n a (Some d)) = key_of d" "scope_of (new_document n a (Some d)) = scope_of d"
    "live_document (new_document n a (Some d)) \<longleftrightarrow> \<not> action_retire a \<and> live_document d"
  using assms by (cases "action_content a"; simp add: new_document_def Let_def)+

lemma document_key_matches:
  assumes "documents_ok s" and "al_get i (documents s) = Some x"
  shows "document_id (document_record x) = i"
  using bspec [of "set (documents s)" "\<lambda>(k, d). k = document_id (document_record d)" "(i, x)"] assms al_get_SomeD
  unfolding documents_ok_def by fastforce

lemma action_old:
  assumes "action_valid s i a" and "action_create a = None"
  obtains old where "al_get i (documents s) = Some old" "live_document old"
    "\<forall>v ops. action_content a = Some (Delta v ops) \<longrightarrow> content_version (fst (last (revisions old))) = v"
  using assms unfolding action_valid_def by auto

lemma new_document_facts:
  assumes "action_valid s i a" and "documents_ok s" and "d = new_document n a (al_get i (documents s))"
  shows "document_id (document_record d) = i" and "key_of d = action_address s i a"
    and "live_document d \<longleftrightarrow> \<not> action_retire a"
proof -
  have "document_id (document_record d) = i \<and> key_of d = action_address s i a \<and> (live_document d \<longleftrightarrow> \<not> action_retire a)"
  proof (cases "action_create a")
    case (Some c)
    then have "document_id c = i" using assms(1) by (simp add: action_valid_def)
    then show ?thesis using Some assms(3) new_document_created [OF Some] by (simp add: action_address_def)
  next
    case None
    then obtain old where old: "al_get i (documents s) = Some old" "live_document old" using assms(1) action_old by blast
    then show ?thesis
      using None assms(3) new_document_changed [OF None] document_key_matches [OF assms(2) old(1)] by (simp add: action_address_def)
  qed
  then show "document_id (document_record d) = i" and "key_of d = action_address s i a"
    and "live_document d \<longleftrightarrow> \<not> action_retire a" by auto
qed

lemma isCurrentOnly_more [simp]: "isCurrentOnly (r\<lparr>retiredAt := t\<rparr>) = isCurrentOnly r"
  by (simp add: isCurrentOnly_def split: scope.split)

lemma retire_stored_ok:
  assumes "stored_ok n d" and "live_document d"
  shows "stored_ok n (retire_stored n False d)"
  using assms by (cases "isCurrentOnly (document_record d)") (simp_all add: stored_ok_def retire_stored_def)

lemma create_stored_ok: "stored_ok n (create_stored n c (Base v x) False)"
  by (simp add: stored_ok_def create_stored_def chain_ok_base document_create.extend_def document_record.fields_def)

text \<open>A document created and retired by one commit is created retired.\<close>

lemma create_retired_ok: "stored_ok n (retire_stored n True (create_stored n c (Base v x) True))"
  by (cases "isCurrentOnly (document_record (create_stored n c (Base v x) True))")
     (simp_all add: stored_ok_def create_stored_def retire_stored_def chain_ok_base document_create.extend_def document_record.fields_def Let_def)

lemma add_revision_ok:
  assumes "stored_ok n d" and "live_document d" and "is_base c \<or> content_version c = content_version (fst (last (revisions d)))"
  shows "stored_ok n (add_revision n c d)"
proof (cases "is_base c \<and> isCurrentOnly (document_record d)")
  case True
  then show ?thesis using assms(2) by (cases c) (simp_all add: stored_ok_def add_revision_def chain_ok_base)
next
  case False
  have "chain_ok (revisions d)" "revisions d \<noteq> []" using assms(1,2) by (simp_all add: stored_ok_def chain_ok_def)
  then show ?thesis using False assms chain_ok_append by (auto simp: stored_ok_def add_revision_def sorted_append)
qed

lemma new_document_stored:
  assumes "action_valid s i a" and "histories_ok n s"
  shows "stored_ok n (new_document n a (al_get i (documents s)))"
proof (cases "action_create a")
  case (Some c)
  then obtain v x where "action_content a = Some (Base v x)" using assms(1) by (auto simp: action_valid_def)
  then show ?thesis using Some create_stored_ok create_retired_ok by (simp add: new_document_def Let_def)
next
  case None
  then obtain old where old: "al_get i (documents s) = Some old" "live_document old"
    "\<forall>v ops. action_content a = Some (Delta v ops) \<longrightarrow> content_version (fst (last (revisions old))) = v"
    using assms(1) action_old by blast
  define d where "d = (case action_content a of Some content \<Rightarrow> add_revision n content old | None \<Rightarrow> old)"
  have "stored_ok n old" using assms(2) old(1) unfolding histories_ok_def by blast
  then have "stored_ok n d"
  proof (cases "action_content a")
    case (Some content)
    then have "is_base content \<or> content_version content = content_version (fst (last (revisions old)))"
      using old(3) by (cases content) simp_all
    then show ?thesis using add_revision_ok [OF \<open>stored_ok n old\<close> old(2)] Some by (simp add: d_def)
  qed (simp add: d_def)
  moreover have "live_document d" using old(2) by (simp add: d_def split: option.split)
  moreover have "new_document n a (Some old) = (if action_retire a then retire_stored n False d else d)"
    using None by (cases "action_content a") (simp_all add: new_document_def d_def)
  ultimately show ?thesis using old(1) retire_stored_ok by simp
qed

end
