(* ===== verification/Durable_Actions.thy ===== *)
theory Durable_Actions imports Durable_Documents begin

text \<open>
  The effect of one document command, and of a whole batch of them: the document tables and indexes stay consistent,
  and the check of live counts makes the current incarnation of an address its only live document.
\<close>

section \<open>The state after an action\<close>

lemma al_set_twice [simp]: "al_set k v (al_set k w m) = al_set k v m"
  by (induction k w m rule: al_set.induct) auto

lemma set_current_facts:
  assumes "al_get k (documentAddresses s) = Some x"
  shows "documents (set_current k i c r s) = documents s" "documentIdsByScope (set_current k i c r s) = documentIdsByScope s"
    "address_list j (set_current k i c r s) = address_list j s"
    "current_of (set_current k i c r s) j =
      (if j = k then if c \<and> \<not> r then Some i else if r \<and> current_of s k = Some i then None else current_of s k else current_of s j)"
  using assms by (auto simp: set_current_def Let_def address_list_def current_of_def)

definition records_same :: "durable_state \<Rightarrow> durable_state \<Rightarrow> bool" where
  "records_same s t \<longleftrightarrow> conversations t = conversations s \<and> conversationIds t = conversationIds s \<and> entries t = entries s \<and>
     entryIds t = entryIds s \<and> headEntryIds t = headEntryIds s \<and> entryCommitSeqs t = entryCommitSeqs s \<and> tasks t = tasks s \<and>
     taskIds t = taskIds s \<and> taskIdsByStatus t = taskIdsByStatus s \<and> submissions t = submissions s \<and>
     submissionIdsByRequest t = submissionIdsByRequest s \<and> nextSeq t = nextSeq s \<and> closed t = closed s \<and> nextId s \<le> nextId t"

lemma records_same_refl [simp]: "records_same s s"
  by (simp add: records_same_def)

lemma records_same_trans: "records_same s t \<Longrightarrow> records_same t u \<Longrightarrow> records_same s u"
  by (auto simp: records_same_def)

lemma set_current_same: "records_same s (set_current k i c r s)" "nextId (set_current k i c r s) = nextId s"
  by (simp_all add: records_same_def set_current_def Let_def split: option.split)

lemma update_document_ok:
  assumes "documents_ok s" and "al_get i (documents s) = Some old" and "document_id (document_record d) = i"
    and "key_of d = key_of old" and "scope_of d = scope_of old"
  shows "documents_ok (s\<lparr>documents := al_set i d (documents s)\<rparr>)"
proof -
  have "rows_with (\<lambda>d. key_of d = k) (al_set i d (documents s)) = rows_with (\<lambda>d. key_of d = k) (documents s)"
    "rows_with (\<lambda>d. scope_of d = sc) (al_set i d (documents s)) = rows_with (\<lambda>d. scope_of d = sc) (documents s)" for k sc
    using assms(2,4,5) by (auto simp: rows_with_def)
  moreover have "\<forall>(k, d) \<in> set (al_set i d (documents s)). k = document_id (document_record d)"
    using keys_match_al_set [of "documents s" "\<lambda>d. document_id (document_record d)" d] assms(1,3) by (simp add: documents_ok_def)
  ultimately show ?thesis using assms(1) by (simp add: documents_ok_def address_list_def)
qed

lemma add_document_facts:
  assumes "documents_ok s" and "al_get i (documents s) = None" and "document_id (document_record d) = i"
  shows "documents_ok (add_document i d s)" "documents (add_document i d s) = al_set i d (documents s)"
    "current_of (add_document i d s) k = current_of s k" "records_same s (add_document i d s)"
    "\<exists>x. al_get (key_of d) (documentAddresses (add_document i d s)) = Some x" "i < nextId (add_document i d s)"
proof -
  have none: "i \<notin> rows_with p (documents s)" for p by (rule rows_with_new [OF assms(2)])
  then have keep: "rows_with p (documents s) - {i} = rows_with p (documents s)" for p by auto
  have lists: "address_list k (add_document i d s) =
      (if k = key_of d then insertSorted (address_list k s) i else address_list k s)" for k
    by (auto simp: address_list_def add_document_def Let_def split: option.split)
  have "sorted_index (insertSorted (address_list (key_of d) s) i) (insert i (rows_with (\<lambda>x. key_of x = key_of d) (documents s)))"
    "sorted_index (insertSorted (scope_ids (scope_of d) (documentIdsByScope s)) i)
      (insert i (rows_with (\<lambda>x. scope_of x = scope_of d) (documents s)))"
    using assms(1) insertSorted_index [OF _ none] unfolding documents_ok_def by blast+
  moreover have "\<forall>(k, d) \<in> set (al_set i d (documents s)). k = document_id (document_record d)"
    using keys_match_al_set [of "documents s" "\<lambda>d. document_id (document_record d)" d] assms(1,3) by (simp add: documents_ok_def)
  moreover have "documents (add_document i d s) = al_set i d (documents s)"
    "documentIdsByScope (add_document i d s) = al_set (scope_of d) (insertSorted (scope_ids (scope_of d) (documentIdsByScope s)) i) (documentIdsByScope s)"
    by (simp_all add: add_document_def Let_def)
  ultimately show "documents_ok (add_document i d s)"
    using assms(1) keep unfolding documents_ok_def lists by auto
  show "documents (add_document i d s) = al_set i d (documents s)" "records_same s (add_document i d s)"
    "\<exists>x. al_get (key_of d) (documentAddresses (add_document i d s)) = Some x" "i < nextId (add_document i d s)"
    by (simp_all add: add_document_def Let_def records_same_def)
  show "current_of (add_document i d s) k = current_of s k"
    by (auto simp: current_of_def add_document_def Let_def split: option.split)
qed

lemma address_exists:
  assumes "documents_ok s" and "al_get i (documents s) = Some d"
  shows "\<exists>x. al_get (key_of d) (documentAddresses s) = Some x"
proof -
  have "i \<in> rows_with (\<lambda>x. key_of x = key_of d) (documents s)" using assms(2) by (simp add: rows_with_def)
  moreover have "sorted_index (address_list (key_of d) s) (rows_with (\<lambda>x. key_of x = key_of d) (documents s))"
    using assms(1) unfolding documents_ok_def by blast
  ultimately have "address_list (key_of d) s \<noteq> []" by (auto simp: sorted_index_def)
  then show ?thesis by (auto simp: address_list_def split: option.splits)
qed

lemma set_current_ok: "documents_ok s \<Longrightarrow> documents_ok (set_current k i c r s)"
proof (cases "al_get k (documentAddresses s)")
  case (Some x)
  assume "documents_ok s"
  then show ?thesis using set_current_facts(1-3) [OF Some] by (simp add: documents_ok_def)
qed (simp add: set_current_def)

definition started :: "durable_state \<Rightarrow> seq \<Rightarrow> id \<Rightarrow> document_action \<Rightarrow> durable_state \<Rightarrow> stored_document \<Rightarrow> bool" where
  "started s n i a t d \<longleftrightarrow> documents_ok t \<and> records_same s t \<and> (\<forall>j. al_get j (documents t) = (if j = i then Some d else al_get j (documents s))) \<and>
     (\<forall>k. current_of t k = current_of s k) \<and> (al_get i (documents s) = None \<longrightarrow> i < nextId t) \<and> document_id (document_record d) = i \<and>
     new_document n a (al_get i (documents s)) = (if action_retire a then retire_stored n (action_create a \<noteq> None) d else d)"

lemma start_action_facts:
  assumes "action_valid s i a" and "documents_ok s"
  shows "\<exists>d. started s n i a (start_action n i a s) d"
proof (cases "action_create a")
  case (Some c)
  then obtain v x where a: "action_content a = Some (Base v x)" "document_id c = i" "al_get i (documents s) = None"
    using assms(1) by (auto simp: action_valid_def)
  let ?d = "create_stored n c (Base v x) (action_retire a)"
  have t: "start_action n i a s = add_document i ?d s" using Some a(1) by (simp add: start_action_def)
  have id: "document_id (document_record ?d) = i" using a(2) by simp
  note f = add_document_facts [OF assms(2) a(3) id]
  have "started s n i a (add_document i ?d s) ?d"
    using f(1,3,4,6) id Some a(1) by (simp add: started_def f(2) new_document_def)
  then show ?thesis unfolding t by blast
next
  case None
  then obtain old where old: "al_get i (documents s) = Some old" "live_document old" using assms(1) action_old by blast
  have id: "document_id (document_record old) = i" by (rule document_key_matches [OF assms(2) old(1)])
  show ?thesis
  proof (cases "action_content a")
    case no: None
    then have "started s n i a (start_action n i a s) old"
      using None old(1) id assms(2) by (simp add: started_def start_action_def new_document_def)
    then show ?thesis by blast
  next
    case (Some content)
    let ?d = "add_revision n content old"
    have "documents_ok (s\<lparr>documents := al_set i ?d (documents s)\<rparr>)"
      by (rule update_document_ok [OF assms(2) old(1)]) (simp_all add: id)
    then have "started s n i a (start_action n i a s) ?d"
      using None Some old(1) id by (simp add: started_def start_action_def new_document_def records_same_def current_of_def)
    then show ?thesis by blast
  qed
qed

definition action_effect :: "durable_state \<Rightarrow> seq \<Rightarrow> id \<Rightarrow> document_action \<Rightarrow> durable_state \<Rightarrow> bool" where
  "action_effect s n i a t \<longleftrightarrow> documents_ok t \<and> records_same s t \<and>
     (\<forall>j. al_get j (documents t) = (if j = i then Some (new_document n a (al_get i (documents s))) else al_get j (documents s))) \<and>
     (al_get i (documents s) = None \<longrightarrow> i < nextId t) \<and>
     (\<forall>k. current_of t k =
        (if k = action_address s i a
         then if action_create a \<noteq> None \<and> \<not> action_retire a then Some i
           else if action_retire a \<and> current_of s k = Some i then None else current_of s k
         else current_of s k))"

lemma action_effectD:
  assumes "action_effect s n i a t"
  shows "documents_ok t" "records_same s t" "al_get i (documents s) = None \<Longrightarrow> i < nextId t"
    "al_get j (documents t) = (if j = i then Some (new_document n a (al_get i (documents s))) else al_get j (documents s))"
    "current_of t k = (if k = action_address s i a
      then if action_create a \<noteq> None \<and> \<not> action_retire a then Some i
        else if action_retire a \<and> current_of s k = Some i then None else current_of s k
      else current_of s k)"
  using assms unfolding action_effect_def by blast+

lemma finish_action_facts:
  assumes "started s n i a t d" and "action_valid s i a" and "documents_ok s"
  shows "action_effect s n i a (finish_action n i a t)"
proof -
  have t: "documents_ok t" "records_same s t" "\<And>j. al_get j (documents t) = (if j = i then Some d else al_get j (documents s))"
    "\<And>k. current_of t k = current_of s k" "al_get i (documents s) = None \<Longrightarrow> i < nextId t" "document_id (document_record d) = i"
    using assms(1) unfolding started_def by blast+
  define d1 where "d1 = (if action_retire a then retire_stored n (action_create a \<noteq> None) d else d)"
  have new: "new_document n a (al_get i (documents s)) = d1" using assms(1) unfolding started_def d1_def by blast
  have key: "key_of d1 = action_address s i a" using new_document_facts(2) [OF assms(2,3)] new by metis
  define t1 where "t1 = (if action_retire a then t\<lparr>documents := al_set i d1 (documents t)\<rparr> else t)"
  have keep: "document_id (document_record d1) = i" "key_of d1 = key_of d" "scope_of d1 = scope_of d"
    using t(6) by (simp_all add: d1_def)
  have "al_get i (documents t) = Some d" by (simp add: t(3))
  then have "documents_ok (t\<lparr>documents := al_set i d1 (documents t)\<rparr>)" by (rule update_document_ok [OF t(1) _ keep])
  then have t1: "documents_ok t1" "records_same s t1" "\<And>j. al_get j (documents t1) = (if j = i then Some d1 else al_get j (documents s))"
    "\<And>k. current_of t1 k = current_of s k" "nextId t1 = nextId t"
    using t(1-4) by (auto simp: t1_def d1_def records_same_def current_of_def)
  have eq: "finish_action n i a t =
      (if action_create a \<noteq> None \<or> action_retire a
       then set_current (key_of d1) i (action_create a \<noteq> None) (action_retire a) t1 else t1)"
    by (cases "action_retire a") (simp_all add: finish_action_def t(3) d1_def t1_def)
  show ?thesis
  proof (cases "action_create a \<noteq> None \<or> action_retire a")
    case False
    then show ?thesis using t1 t(5) new by (simp add: action_effect_def eq)
  next
    case True
    have "al_get i (documents t1) = Some d1" by (simp add: t1(3))
    then obtain x where x: "al_get (key_of d1) (documentAddresses t1) = Some x" using address_exists [OF t1(1)] by blast
    note sc = set_current_facts [OF x, where i = i and c = "action_create a \<noteq> None" and r = "action_retire a"]
    note same = set_current_same [where s = t1 and k = "key_of d1" and i = i and c = "action_create a \<noteq> None" and r = "action_retire a"]
    have fin: "finish_action n i a t = set_current (key_of d1) i (action_create a \<noteq> None) (action_retire a) t1" using True eq by simp
    show ?thesis unfolding action_effect_def fin sc(1) same(2) key [symmetric] new t1(5)
    proof (intro conjI allI)
      fix k
      show "current_of (set_current (key_of d1) i (action_create a \<noteq> None) (action_retire a) t1) k =
          (if k = key_of d1
           then if action_create a \<noteq> None \<and> \<not> action_retire a then Some i
             else if action_retire a \<and> current_of s k = Some i then None else current_of s k
           else current_of s k)"
        unfolding sc(4) t1(4) by (cases "k = key_of d1") simp_all
    qed (use set_current_ok [OF t1(1)] records_same_trans [OF t1(2) same(1)] t1(3) t(5) in blast)+
  qed
qed

lemma apply_action_effect:
  assumes "action_valid s i a" and "documents_ok s"
  shows "action_effect s n i a (apply_action n (i, a) s)"
  using start_action_facts [OF assms, of n] finish_action_facts [OF _ assms] by (auto simp: apply_action_def)

end
