(* ===== verification/Durable_Batch.thy ===== *)
theory Durable_Batch imports Durable_Actions begin

text \<open>
  A checked batch of document commands. Every command that passes the check is valid when its turn comes, the
  current incarnation of an address stays one of its live documents, and the counts of the check bound the live ones.
\<close>

section \<open>The checks\<close>

lemma prepare_actions:
  assumes "prepareDocumentActions ws = Inr actions"
  shows "distinct (al_keys actions)"
    and "al_get i actions = Some a \<Longrightarrow> action_create a = Some c \<Longrightarrow> document_id c = i \<and> (\<exists>x. CreateDocument c x \<in> set ws)"
proof -
  let ?P = "\<lambda>m. distinct (al_keys m) \<and> (\<forall>i a c. al_get i m = Some a \<longrightarrow> action_create a = Some c \<longrightarrow>
      document_id c = i \<and> (\<exists>x. CreateDocument c x \<in> set ws))"
  have keep: "?P m'" if w: "w \<in> set ws" and m: "?P m" and step: "prepare_action w m = Inr m'" for w m m'
  proof (cases w)
    case (CreateDocument r x)
    then have "m' = al_set (document_id r) ((action_of (document_id r) m)\<lparr>action_create := Some r, action_content := Some x\<rparr>) m"
      using step by (simp add: prepare_action_def Let_def split: if_splits)
    then show ?thesis using m w CreateDocument by auto
  next
    case (ChangeDocument j x)
    then have "m' = al_set j ((action_of j m)\<lparr>action_content := Some x\<rparr>) m"
      using step by (simp add: prepare_action_def Let_def split: if_splits)
    then show ?thesis using m by (auto simp: action_of_def split: option.splits)
  next
    case (RetireDocument j)
    then have "m' = al_set j ((action_of j m)\<lparr>action_retire := True\<rparr>) m"
      using step by (simp add: prepare_action_def Let_def split: if_splits)
    then show ?thesis using m by (auto simp: action_of_def split: option.splits)
  qed (use m step in \<open>simp_all add: prepare_action_def\<close>)
  have "?P actions"
  proof (rule fold_throws_invariant [where P = ?P, OF assms [unfolded prepareDocumentActions_def]])
    show "?P []" by simp
  qed (rule keep)
  then show "distinct (al_keys actions)"
    and "al_get i actions = Some a \<Longrightarrow> action_create a = Some c \<Longrightarrow> document_id c = i \<and> (\<exists>x. CreateDocument c x \<in> set ws)"
    by blast+
qed

definition live_count :: "durable_state \<Rightarrow> document_address \<Rightarrow> (document_address \<times> int) list \<Rightarrow> int" where
  "live_count s k counts = (case al_get k counts of Some n \<Rightarrow> n | None \<Rightarrow> if current_of s k = None then 0 else 1)"

lemma check_action_valid:
  assumes "check_action s (i, a) counts = Inr counts'" and "\<And>c. action_create a = Some c \<Longrightarrow> document_id c = i"
  shows "action_valid s i a"
    and "counts' = al_set (action_address s i a)
      (live_count s (action_address s i a) counts - (if action_retire a \<and> current_of s (action_address s i a) = Some i then 1 else 0)
        + (if action_create a \<noteq> None \<and> \<not> action_retire a then 1 else 0)) counts"
proof -
  have ok: "action_create a \<noteq> None \<or> al_get i (documents s) \<noteq> None" "action_create a = None \<or> al_get i (documents s) = None"
    "\<And>d. al_get i (documents s) = Some d \<Longrightarrow> live_document d"
    "action_create a = None \<or> (\<exists>c. action_content a = Some c \<and> is_base c)"
    "\<And>v ops d. action_content a = Some (Delta v ops) \<Longrightarrow> al_get i (documents s) = Some d \<Longrightarrow> content_version (fst (last (revisions d))) = v"
    using assms(1) by (auto simp: check_action_def Let_def bind_throws_eq_Inr split: if_splits option.splits document_content.splits)
  show "counts' = al_set (action_address s i a)
      (live_count s (action_address s i a) counts - (if action_retire a \<and> current_of s (action_address s i a) = Some i then 1 else 0)
        + (if action_create a \<noteq> None \<and> \<not> action_retire a then 1 else 0)) counts"
    using assms(1) by (auto simp: check_action_def Let_def bind_throws_eq_Inr live_count_def split: if_splits)
  show "action_valid s i a"
  proof (cases "action_create a")
    case None
    then obtain d where "al_get i (documents s) = Some d" using ok(1) by auto
    then show ?thesis using None ok(3) [of d] ok(5) [of _ _ d] by (auto simp: action_valid_def)
  next
    case (Some c)
    then obtain x where "action_content a = Some x" "is_base x" using ok(4) by auto
    then show ?thesis using Some ok(2) assms(2) by (cases x) (simp_all add: action_valid_def)
  qed
qed

lemma check_action_cong:
  assumes "documents t = documents s" and "documentAddresses t = documentAddresses s"
  shows "check_action t = check_action s"
proof -
  have same: "action_address t = action_address s" "current_of t = current_of s"
    unfolding fun_eq_iff action_address_def current_of_def assms by simp_all
  show ?thesis unfolding fun_eq_iff check_action_def same assms(1) by blast
qed

section \<open>Live documents\<close>

abbreviation live_at :: "document_address \<Rightarrow> durable_state \<Rightarrow> id set" where
  "live_at k s \<equiv> rows_with (\<lambda>d. key_of d = k \<and> live_document d) (documents s)"

lemma current_ok_live: "current_ok s \<longleftrightarrow> (\<forall>k. live_at k s = set_option (current_of s k))"
  unfolding current_ok_def by (auto simp: set_eq_iff)

lemma finite_rows [simp]: "finite (rows_with p m)"
proof -
  have "rows_with p m \<subseteq> rows_with (\<lambda>_. True) m" by (auto simp: rows_with_def)
  then have "rows_with p m \<subseteq> fst ` set m" by (simp add: rows_with_all)
  then show ?thesis by (rule finite_subset) simp
qed

text \<open>Only the address of the command changes, by the document of the command.\<close>

lemma live_after:
  assumes "action_effect s n i a t" and "action_valid s i a" and "documents_ok s"
  shows "live_at k t = (if k \<noteq> action_address s i a then live_at k s
    else if action_retire a then live_at k s - {i} else insert i (live_at k s))"
proof -
  define d where "d = new_document n a (al_get i (documents s))"
  note new = new_document_facts [OF assms(2,3) d_def]
  have docs: "al_get j (documents t) = (if j = i then Some d else al_get j (documents s))" for j
    using assms(1) unfolding action_effect_def d_def by blast
  have other: "i \<notin> live_at k s" if "k \<noteq> action_address s i a" for k
  proof (cases "action_create a")
    case None
    then obtain old where old: "al_get i (documents s) = Some old" using assms(2) action_old by blast
    then have "key_of old = action_address s i a" using None by (simp add: action_address_def)
    then show ?thesis using old that by (simp add: rows_with_def)
  qed (use assms(2) in \<open>simp add: action_valid_def rows_with_def\<close>)
  have mem: "j \<in> live_at k t \<longleftrightarrow> (if j = i then k = action_address s i a \<and> \<not> action_retire a else j \<in> live_at k s)" for j
    using docs [of j] new(2,3) by (auto simp: rows_with_def)
  show ?thesis using mem other by (auto simp: set_eq_iff)
qed

lemma live_before:
  assumes "action_valid s i a"
  shows "i \<in> live_at (action_address s i a) s \<longleftrightarrow> action_create a = None"
proof (cases "action_create a")
  case None
  then obtain old where "al_get i (documents s) = Some old" "live_document old" using assms action_old by blast
  then show ?thesis using None by (simp add: rows_with_def action_address_def)
qed (use assms in \<open>simp add: action_valid_def rows_with_def\<close>)

section \<open>The current incarnations while the batch runs\<close>

text \<open>
  Until the batch is done an address may have several live documents: then its current one was created by the batch.
\<close>

definition currents :: "durable_state \<Rightarrow> durable_state \<Rightarrow> document_address \<Rightarrow> bool" where
  "currents s0 s k \<longleftrightarrow> (\<forall>i. current_of s k = Some i \<longrightarrow> i \<in> live_at k s) \<and>
     (live_at k s = set_option (current_of s k) \<or> (\<exists>i. current_of s k = Some i \<and> al_get i (documents s0) = None))"

lemma currents_step:
  assumes "currents s0 s k" and eff: "action_effect s n i a t" and valid: "action_valid s i a" and "documents_ok s"
    and old: "action_create a = None \<longleftrightarrow> al_get i (documents s0) \<noteq> None"
  shows "currents s0 t k"
proof (cases "k = action_address s i a")
  case False
  have "current_of t k = current_of s k" using action_effectD(5) [OF eff, of k] False by simp
  then show ?thesis using assms(1) live_after [OF eff valid assms(4), of k] False by (simp add: currents_def)
next
  case True
  have cur: "current_of t k = (if action_create a \<noteq> None \<and> \<not> action_retire a then Some i
      else if action_retire a \<and> current_of s k = Some i then None else current_of s k)"
    using action_effectD(5) [OF eff, of k] unfolding True by simp
  have live: "live_at k t = (if action_retire a then live_at k s - {i} else insert i (live_at k s))"
    using live_after [OF eff valid assms(4), of k] True by simp
  have mem: "i \<in> live_at k s \<longleftrightarrow> action_create a = None" using live_before [OF valid] True by simp
  have inv: "\<And>i. current_of s k = Some i \<Longrightarrow> i \<in> live_at k s"
    "live_at k s = set_option (current_of s k) \<or> (\<exists>i. current_of s k = Some i \<and> al_get i (documents s0) = None)"
    using assms(1) unfolding currents_def by blast+
  show ?thesis
  proof (cases "action_retire a")
    case retire: True
    show ?thesis
    proof (cases "current_of s k = Some i")
      case True
      then have "action_create a = None" using inv(1) mem by blast
      then have "live_at k s = {i}" using inv(2) True old by auto
      then show ?thesis using True cur live retire by (simp add: currents_def)
    next
      case False
      then have c: "current_of t k = current_of s k" using cur retire by simp
      have "live_at k t = live_at k s - {i}" using live retire by simp
      moreover have "j \<noteq> i" if "current_of s k = Some j" for j using False that by auto
      moreover have "live_at k s - {i} = set_option (current_of s k)" if "live_at k s = set_option (current_of s k)"
        using that False by auto
      ultimately show ?thesis using inv unfolding currents_def c by auto
    qed
  next
    case keep: False
    show ?thesis
    proof (cases "action_create a")
      case None
      then have "live_at k t = live_at k s" "current_of t k = current_of s k" using live cur mem keep by auto
      then show ?thesis using assms(1) by (simp add: currents_def)
    next
      case (Some c)
      then have "current_of t k = Some i" "i \<in> live_at k t" "al_get i (documents s0) = None" using live cur keep old by auto
      then show ?thesis by (simp add: currents_def)
    qed
  qed
qed

end
