(* ===== verification/Durable_Commit.thy ===== *)
theory Durable_Commit imports Durable_Batch begin

text \<open>
  A whole batch of document commands, run one after the other: what holds of the state after each of them, and why the
  counts that the check computed leave every address with its only live document as current.
\<close>

section \<open>The batch\<close>

definition batch_ok :: "durable_state \<Rightarrow> (id \<Rightarrow> table_name option) \<Rightarrow> seq \<Rightarrow> (document_address \<times> int) list \<Rightarrow> durable_state \<Rightarrow> bool" where
  "batch_ok s0 T n counts s \<longleftrightarrow> documents_ok s \<and> records_same s0 s \<and> histories_ok n s \<and> bounded s \<and> owners s T \<and>
     (\<forall>k. currents s0 s k) \<and> (\<forall>k. int (card (live_at k s)) \<le> live_count s0 k counts)"

lemma batch_okD:
  assumes "batch_ok s0 T n counts s"
  shows "documents_ok s" "records_same s0 s" "histories_ok n s" "bounded s" "owners s T" "currents s0 s k"
    "int (card (live_at k s)) \<le> live_count s0 k counts"
  using assms unfolding batch_ok_def by blast+

lemma records_same_ids:
  assumes "records_same s t" and "u \<noteq> DocumentTable"
  shows "table_ids t u = table_ids s u"
  using assms by (cases u) (simp_all add: records_same_def)

lemma rows_all_ids: "i \<in> table_ids s DocumentTable \<longleftrightarrow> al_get i (documents s) \<noteq> None"
  using al_get_None_iff [of i "documents s"] by simp

lemma action_effect_ids:
  assumes eff: "action_effect s n i a t" and "bounded s" and "owners s T" and "T i = Some DocumentTable"
  shows "bounded t" and "owners t T"
proof -
  have docs: "j \<in> table_ids t DocumentTable \<longleftrightarrow> j = i \<or> j \<in> table_ids s DocumentTable" for j
    unfolding rows_all_ids using action_effectD(4) [OF eff, of j] by simp
  have le: "nextId s \<le> nextId t" using action_effectD(2) [OF eff] by (simp add: records_same_def)
  have others: "u \<noteq> DocumentTable \<Longrightarrow> table_ids t u = table_ids s u" for u
    by (rule records_same_ids [OF action_effectD(2) [OF eff]])
  have low: "i < nextId t"
  proof (cases "al_get i (documents s)")
    case (Some d)
    then have "i \<in> table_ids s DocumentTable" unfolding rows_all_ids by simp
    then show ?thesis using assms(2) le unfolding bounded_def by fastforce
  qed (rule action_effectD(3) [OF eff])
  show "bounded t"
    unfolding bounded_def
  proof (intro conjI allI ballI)
    show "2 \<le> nextId t" using assms(2) le by (simp add: bounded_def)
    fix u j
    assume j: "j \<in> table_ids t u"
    show "j < nextId t"
    proof (cases "j \<in> table_ids s u")
      case True
      then have "j < nextId s" using assms(2) unfolding bounded_def by blast
      then show ?thesis using le by simp
    next
      case False
      then have "j = i" using j docs others by (cases "u = DocumentTable") auto
      then show ?thesis using low by simp
    qed
  qed
  show "owners t T"
    using assms(3,4) others docs unfolding owners_def by (auto simp del: table_ids.simps)
qed

lemma action_same_document:
  assumes "al_get i (documents s) = al_get i (documents t)"
  shows "action_valid s i a = action_valid t i a" "action_address s i a = action_address t i a"
  unfolding action_valid_def action_address_def assms by (rule refl)+

lemma live_count_set: "live_count s k (al_set k' n counts) = (if k = k' then n else live_count s k counts)"
  by (simp add: live_count_def)

lemma batch_step:
  assumes inv: "batch_ok s0 T n counts s" and cur0: "current_ok s0"
    and check: "check_action s0 (i, a) counts = Inr counts'" and id: "\<And>c. action_create a = Some c \<Longrightarrow> document_id c = i"
    and same: "al_get i (documents s) = al_get i (documents s0)" and claimed: "action_create a \<noteq> None \<Longrightarrow> T i = Some DocumentTable"
  shows "batch_ok s0 T n counts' (apply_action n (i, a) s)"
    and "j \<noteq> i \<Longrightarrow> al_get j (documents (apply_action n (i, a) s)) = al_get j (documents s)"
proof -
  let ?t = "apply_action n (i, a) s"
  have valid0: "action_valid s0 i a" by (rule check_action_valid(1) [OF check id])
  then have valid: "action_valid s i a" using action_same_document(1) [OF same] by simp
  have address: "action_address s i a = action_address s0 i a" by (rule action_same_document(2) [OF same])
  note ok = batch_okD [OF inv]
  have eff: "action_effect s n i a ?t" by (rule apply_action_effect [OF valid ok(1)])
  note e = action_effectD [OF eff]
  show "j \<noteq> i \<Longrightarrow> al_get j (documents ?t) = al_get j (documents s)" using e(4) [of j] by simp
  have new: "action_create a = None \<longleftrightarrow> al_get i (documents s0) \<noteq> None"
    using valid0 by (auto simp: action_valid_def split: option.splits)
  have "T i = Some DocumentTable"
  proof (cases "action_create a")
    case None
    then have "i \<in> table_ids s DocumentTable" using new same unfolding rows_all_ids by simp
    then show ?thesis using ok(5) unfolding owners_def by blast
  qed (use claimed in simp)
  then have ids: "bounded ?t" "owners ?t T" using action_effect_ids [OF eff ok(4,5)] by blast+
  have hist: "histories_ok n ?t"
    using ok(3) new_document_stored [OF valid ok(3)] unfolding histories_ok_def e(4) by simp
  have currents: "currents s0 ?t k" for k by (rule currents_step [OF ok(6) eff valid ok(1) new])
  have count: "int (card (live_at k ?t)) \<le> live_count s0 k counts'" for k
  proof -
    have c': "live_count s0 k counts' = (if k = action_address s0 i a
        then live_count s0 k counts - (if action_retire a \<and> current_of s0 k = Some i then 1 else 0)
          + (if action_create a \<noteq> None \<and> \<not> action_retire a then 1 else 0) else live_count s0 k counts)"
      using check_action_valid(2) [OF check id] by (cases "k = action_address s0 i a") (simp_all add: live_count_set)
    show ?thesis
    proof (cases "k = action_address s0 i a")
      case False
      then show ?thesis using c' ok(7) [of k] live_after [OF eff valid ok(1), of k] address by simp
    next
      case True
      have mem: "i \<in> live_at k s \<longleftrightarrow> action_create a = None" using live_before [OF valid] address True by simp
      have "i \<in> live_at k s0 \<longleftrightarrow> action_create a = None" using live_before [OF valid0] True by simp
      then have cur: "current_of s0 k = Some i \<longleftrightarrow> action_create a = None"
        using cur0 unfolding current_ok_live by (auto simp: set_eq_iff)
      have live: "live_at k ?t = (if action_retire a then live_at k s - {i} else insert i (live_at k s))"
        using live_after [OF eff valid ok(1), of k] address True by simp
      show ?thesis
      proof (cases "action_create a = None")
        case change: True
        have "card (live_at k s) \<ge> 1" using mem change card_gt_0_iff [of "live_at k s"] by auto
        then show ?thesis using ok(7) [of k] c' True mem cur live change by (auto simp: card_Diff_singleton insert_absorb of_nat_diff)
      next
        case create: False
        then show ?thesis using ok(7) [of k] c' True mem cur live by auto
      qed
    qed
  qed
  show "batch_ok s0 T n counts' ?t"
    unfolding batch_ok_def using e(1) records_same_trans [OF ok(2) e(2)] hist ids currents count by blast
qed

lemma batch_fold:
  assumes "batch_ok s0 T n counts s" and "current_ok s0" and "fold_throws (check_action s0) actions counts = Inr counts'"
    and "distinct (al_keys actions)"
    and "\<And>i a c. (i, a) \<in> set actions \<Longrightarrow> action_create a = Some c \<Longrightarrow> document_id c = i \<and> T i = Some DocumentTable"
    and "\<And>i. i \<in> fst ` set actions \<Longrightarrow> al_get i (documents s) = al_get i (documents s0)"
  shows "batch_ok s0 T n counts' (fold (apply_action n) actions s)"
  using assms
proof (induction actions arbitrary: counts s)
  case Nil
  then show ?case by simp
next
  case (Cons ia actions)
  obtain i a where ia: "ia = (i, a)" by fastforce
  obtain mid where mid: "check_action s0 (i, a) counts = Inr mid" "fold_throws (check_action s0) actions mid = Inr counts'"
    using Cons.prems(3) ia by (auto simp: bind_throws_eq_Inr)
  have id: "document_id c = i \<and> T i = Some DocumentTable" if "action_create a = Some c" for c
    using Cons.prems(5) [of i a c] that ia by simp
  have same: "al_get i (documents s) = al_get i (documents s0)" using Cons.prems(6) ia by simp
  note step = batch_step [OF Cons.prems(1,2) mid(1) _ same]
  have one: "batch_ok s0 T n mid (apply_action n (i, a) s)" by (rule step(1)) (use id in auto)
  have keep: "al_get j (documents (apply_action n (i, a) s)) = al_get j (documents s)" if "j \<noteq> i" for j
    by (rule step(2) [OF _ _ that]) (use id in auto)
  have "batch_ok s0 T n counts' (fold (apply_action n) actions (apply_action n (i, a) s))"
  proof (rule Cons.IH [OF one Cons.prems(2) mid(2)])
    show "distinct (al_keys actions)" using Cons.prems(4) by simp
    show "al_get j (documents (apply_action n (i, a) s)) = al_get j (documents s0)" if "j \<in> fst ` set actions" for j
      using keep [of j] Cons.prems(4,6) that ia by auto
  qed (use Cons.prems(5) in auto)
  then show ?case using ia by simp
qed

text \<open>Before the batch every address has its live document as current; the final counts make it so again.\<close>

lemma batch_start:
  assumes "documents_ok s" "histories_ok n s" "bounded s" "owners s T" "current_ok s"
  shows "batch_ok s T n [] s"
  unfolding batch_ok_def
proof (intro conjI allI)
  fix k
  have live: "live_at k s = set_option (current_of s k)" using assms(5) unfolding current_ok_live by blast
  then show "currents s s k" by (simp add: currents_def)
  show "int (card (live_at k s)) \<le> live_count s k []" unfolding live by (cases "current_of s k") (simp_all add: live_count_def)
qed (simp_all add: assms)

lemma batch_end:
  assumes "batch_ok s0 T n counts s" and "\<not> (\<exists>live \<in> set (map snd counts). live > 1)"
  shows "current_ok s"
  unfolding current_ok_live
proof
  fix k
  have "live_count s0 k counts \<le> 1"
    using assms(2) al_get_SomeD [of k counts] by (force simp: live_count_def split: option.split)
  then have one: "card (live_at k s) \<le> 1" using batch_okD(7) [OF assms(1), of k] by linarith
  have c: "\<And>i. current_of s k = Some i \<Longrightarrow> i \<in> live_at k s"
    "live_at k s = set_option (current_of s k) \<or> (\<exists>i. current_of s k = Some i)"
    using batch_okD(6) [OF assms(1), of k] unfolding currents_def by blast+
  show "live_at k s = set_option (current_of s k)"
  proof (cases "current_of s k")
    case (Some i)
    then have "i \<in> live_at k s" by (rule c(1))
    moreover have "j = i" if "j \<in> live_at k s" for j
      using one that \<open>i \<in> live_at k s\<close> by (simp add: card_le_Suc0_iff_eq)
    ultimately have "live_at k s = {i}" by blast
    then show ?thesis using Some by simp
  qed (use c(2) in simp)
qed

end
