(* ===== verification/Durable_Reads.thy ===== *)
theory Durable_Reads imports Durable_Store begin

text \<open>
  The reads of the durable store: point reads, the paged scans with their cursors, the walks along the chain of parent
  conversations, and the content of a document at a point of its history. The walks follow parents that the store does
  not check, so they are partial functions: \<open>None\<close> is a walk that never ends. An identifier taken from an index is
  looked up with \<open>the\<close>, as the source asserts it with \<open>!\<close>; the invariant makes it present.
\<close>

section \<open>Pages\<close>

record 'a page =
  page_items :: "'a list"
  page_next :: "id option"

text \<open>With a limit of 0 and something to return, the last item of the page does not exist.\<close>

definition page_of :: "('a \<Rightarrow> id) \<Rightarrow> 'a list \<Rightarrow> nat \<Rightarrow> 'a page throws" where
  "page_of key vs limit =
     (let items = take limit vs in
      if length vs \<le> limit then Inr \<lparr>page_items = items, page_next = None\<rparr>
      else if items = [] then Inl ''Cannot read properties of undefined''
      else Inr \<lparr>page_items = items, page_next = Some (key (last items))\<rparr>)"

definition scan_start :: "id list \<Rightarrow> id option \<Rightarrow> nat" where
  "scan_start ids after = (case after of None \<Rightarrow> 0 | Some a \<Rightarrow> upperBound ids a)"

text \<open>The loop of the filtered scans: it stops after one value more than the page holds.\<close>

fun collect_values :: "nat \<Rightarrow> ('a \<Rightarrow> bool) \<Rightarrow> (id \<Rightarrow> 'a) \<Rightarrow> id list \<Rightarrow> 'a list \<Rightarrow> 'a list" where
  "collect_values limit p get [] vs = vs"
| "collect_values limit p get (i # ids) vs =
     (if length vs \<le> limit then collect_values limit p get ids (if p (get i) then vs @ [get i] else vs) else vs)"

section \<open>Conversations and entries\<close>

definition conversation :: "durable_state \<Rightarrow> id \<Rightarrow> conversation_record option throws" where
  "conversation s i = bind_throws (assertOpen s) (\<lambda>_. Inr (al_get i (conversations s)))"

definition scanConversations :: "durable_state \<Rightarrow> id option \<Rightarrow> nat \<Rightarrow> conversation_record page throws" where
  "scanConversations s after limit =
     bind_throws (assertOpen s) (\<lambda>_.
       let start = scan_start (conversationIds s) after;
           vs = map (\<lambda>i. the (al_get i (conversations s))) (slice_list start (start + limit + 1) (conversationIds s)) in
       page_of conversation_id vs limit)"

definition entry :: "durable_state \<Rightarrow> id \<Rightarrow> (entry_record \<times> seq) option throws" where
  "entry s i =
     bind_throws (assertOpen s) (\<lambda>_.
       case al_get i (entries s) of
         None \<Rightarrow> Inr None
       | Some r \<Rightarrow> Inr (Some (r, the (al_get i (entryCommitSeqs s)))))"

text \<open>An upper bound on entry identifiers; \<open>None\<close> is infinity.\<close>

definition upper_index :: "id list \<Rightarrow> id option \<Rightarrow> nat" where
  "upper_index ids upper = (case upper of None \<Rightarrow> length ids | Some u \<Rightarrow> upperBound ids u)"

definition min_upper :: "id option \<Rightarrow> id \<Rightarrow> id" where
  "min_upper upper at = (case upper of None \<Rightarrow> at | Some u \<Rightarrow> min u at)"

partial_function (option) find_head :: "durable_state \<Rightarrow> id \<Rightarrow> id option \<Rightarrow> entry_record option throws option" where
  "find_head s current upper =
     (let ids = scope_ids current (headEntryIds s); index = upper_index ids upper in
      if 0 < index then Some (Inr (al_get (ids ! (index - 1)) (entries s)))
      else
        (case al_get current (conversations s) of
           None \<Rightarrow> Some (Inl ''Cannot read properties of undefined'')
         | Some c \<Rightarrow>
             (case parent c of
                None \<Rightarrow> Some (Inr None)
              | Some (up, at) \<Rightarrow> find_head s up (Some (min_upper upper at)))))"

definition findLatestHeadMarker :: "durable_state \<Rightarrow> id \<Rightarrow> id option \<Rightarrow> entry_record option throws option" where
  "findLatestHeadMarker s i atOrBefore =
     (case assertOpen s of
        Inl e \<Rightarrow> Some (Inl e)
      | Inr _ \<Rightarrow>
          (if \<not> al_has i (conversations s) then Some (Inl (''Unknown conversation: '' @ show_int i))
           else find_head s i atOrBefore))"

text \<open>
  The generator \<open>visibleEntries\<close> as \<open>scanEntries\<close> consumes it: newest first in each conversation, then its
  parent up to the inherited entry, until one entry more than the page holds was seen.
\<close>

definition own_entries :: "durable_state \<Rightarrow> id \<Rightarrow> id option \<Rightarrow> id option \<Rightarrow> entry_record list" where
  "own_entries s current lower upper =
     (let ids = scope_ids current (entryIds s) in
      map (\<lambda>i. the (al_get i (entries s)))
        (takeWhile (\<lambda>i. \<not> (case lower of None \<Rightarrow> False | Some l \<Rightarrow> i < l)) (rev (take (upper_index ids upper) ids))))"

partial_function (option) visible_entries ::
  "durable_state \<Rightarrow> nat \<Rightarrow> id \<Rightarrow> id option \<Rightarrow> id option \<Rightarrow> entry_record list \<Rightarrow> entry_record list throws option" where
  "visible_entries s limit current lower upper visible =
     (let seen = take (limit + 1) (visible @ own_entries s current lower upper) in
      if limit < length seen then Some (Inr seen)
      else
        (case al_get current (conversations s) of
           None \<Rightarrow> Some (Inl ''Cannot read properties of undefined'')
         | Some c \<Rightarrow>
             (case parent c of
                None \<Rightarrow> Some (Inr seen)
              | Some (up, at) \<Rightarrow>
                  (let upper' = min_upper upper at in
                   if (case lower of None \<Rightarrow> False | Some l \<Rightarrow> upper' < l) then Some (Inr seen)
                   else visible_entries s limit up lower (Some upper') seen))))"

definition scanEntries ::
  "durable_state \<Rightarrow> id \<Rightarrow> id option \<Rightarrow> id option \<Rightarrow> id option \<Rightarrow> nat \<Rightarrow> entry_record page throws option" where
  "scanEntries s i lower upper after limit =
     (case assertOpen s of
        Inl e \<Rightarrow> Some (Inl e)
      | Inr _ \<Rightarrow>
          (if \<not> al_has i (conversations s) then Some (Inl (''Unknown conversation: '' @ show_int i))
           else
             (let maxEntryId = (case after of None \<Rightarrow> upper | Some a \<Rightarrow> Some (min_upper upper (a - 1))) in
              case visible_entries s limit i lower maxEntryId [] of
                None \<Rightarrow> None
              | Some r \<Rightarrow> Some (bind_throws r (\<lambda>visible. page_of entry_id visible limit)))))"

section \<open>Tasks and submissions\<close>

definition task :: "durable_state \<Rightarrow> id \<Rightarrow> task_record option throws" where
  "task s i = bind_throws (assertOpen s) (\<lambda>_. Inr (al_get i (tasks s)))"

record task_query =
  query_status :: "task_status option"
  query_conversation :: "id option"
  query_task_kind :: "string option"
  query_abort :: "bool option"
  query_background :: "bool option"

definition matches_query :: "'a option \<Rightarrow> 'a \<Rightarrow> bool" where
  "matches_query q x \<longleftrightarrow> (case q of None \<Rightarrow> True | Some y \<Rightarrow> x = y)"

definition task_matches :: "task_query \<Rightarrow> task_record \<Rightarrow> bool" where
  "task_matches q r \<longleftrightarrow> matches_query (query_conversation q) (task_conversation r) \<and> matches_query (query_task_kind q) (task_kind r) \<and>
     matches_query (query_abort q) (abortRequested r) \<and> matches_query (query_background q) (task_background r)"

definition task_index :: "durable_state \<Rightarrow> task_query \<Rightarrow> id list" where
  "task_index s q = (case query_status q of None \<Rightarrow> taskIds s | Some st \<Rightarrow> taskIdsByStatus s st)"

definition scanTasks :: "durable_state \<Rightarrow> task_query \<Rightarrow> id option \<Rightarrow> nat \<Rightarrow> task_record page throws" where
  "scanTasks s q after limit =
     bind_throws (assertOpen s) (\<lambda>_.
       let ids = task_index s q in
       page_of task_id (collect_values limit (task_matches q) (\<lambda>i. the (al_get i (tasks s))) (drop (scan_start ids after) ids) []) limit)"

definition submission :: "durable_state \<Rightarrow> id \<Rightarrow> submission_record option throws" where
  "submission s i = bind_throws (assertOpen s) (\<lambda>_. Inr (al_get i (submissions s)))"

definition submissionByRequest :: "durable_state \<Rightarrow> id \<Rightarrow> string \<Rightarrow> submission_record option throws" where
  "submissionByRequest s c request =
     bind_throws (assertOpen s) (\<lambda>_.
       case al_get request (scope_ids c (submissionIdsByRequest s)) of
         None \<Rightarrow> Inr None
       | Some i \<Rightarrow> Inr (al_get i (submissions s)))"

section \<open>Documents\<close>

fun first_alive :: "(id \<times> stored_document) list \<Rightarrow> document_point \<Rightarrow> id list \<Rightarrow> document_record option" where
  "first_alive docs at [] = None"
| "first_alive docs at (i # ids) =
     (let r = document_record (the (al_get i docs)) in if isAliveAt r at then Some r else first_alive docs at ids)"

definition findDocument :: "durable_state \<Rightarrow> document_address \<Rightarrow> document_point \<Rightarrow> document_record option throws" where
  "findDocument s address at =
     bind_throws (assertOpen s) (\<lambda>_.
       case at of
         Current \<Rightarrow>
           (case current_of s address of
              None \<Rightarrow> Inr None
            | Some i \<Rightarrow> Inr (map_option document_record (al_get i (documents s))))
       | AsOf n \<Rightarrow>
           (case al_get address (documentAddresses s) of
              None \<Rightarrow> Inr None
            | Some x \<Rightarrow> Inr (first_alive (documents s) at (address_ids x))))"

text \<open>The last base of the first \<open>n\<close> revisions, searched backwards.\<close>

fun base_index :: "(document_content \<times> seq) list \<Rightarrow> nat \<Rightarrow> nat option" where
  "base_index rs 0 = None"
| "base_index rs (Suc n) = (if is_base (fst (rs ! n)) then Some n else base_index rs n)"

fun replay_revisions :: "id \<Rightarrow> int \<Rightarrow> (document_content \<times> seq) list \<Rightarrow> json \<Rightarrow> json throws" where
  "replay_revisions i version [] x = Inr x"
| "replay_revisions i version ((c, _) # rs) x =
     (case c of
        Delta v ops \<Rightarrow>
          (if v \<noteq> version then Inl (''Document '' @ show_int i @ '' crosses a stored version boundary without a base'')
           else bind_throws (applyImmutable ops x) (replay_revisions i version rs))
      | Base _ _ \<Rightarrow> Inl (''Document '' @ show_int i @ '' crosses a stored version boundary without a base''))"

definition visible_revisions :: "stored_document \<Rightarrow> document_point \<Rightarrow> (document_content \<times> seq) list" where
  "visible_revisions d at = (case at of Current \<Rightarrow> revisions d | AsOf n \<Rightarrow> filter (\<lambda>r. snd r \<le> n) (revisions d))"

definition document :: "durable_state \<Rightarrow> id \<Rightarrow> document_point \<Rightarrow> (document_record \<times> int \<times> json) option throws" where
  "document s i at =
     bind_throws (assertOpen s) (\<lambda>_.
       case al_get i (documents s) of
         None \<Rightarrow> Inr None
       | Some d \<Rightarrow>
           (if at \<noteq> Current \<and> isCurrentOnly (document_record d)
            then Inl (''Document '' @ show_int i @ '' does not retain historical content'')
            else if \<not> isAliveAt (document_record d) at then Inr None
            else
              (let rs = visible_revisions d at in
               case base_index rs (length rs) of
                 None \<Rightarrow> Inl (''Document '' @ show_int i @ '' is missing a required base'')
               | Some k \<Rightarrow>
                   (case fst (rs ! k) of
                      Base v x \<Rightarrow>
                        bind_throws (replay_revisions i v (drop (k + 1) rs) x) (\<lambda>y. Inr (Some (document_record d, v, y)))
                    | Delta _ _ \<Rightarrow> Inl (''Document '' @ show_int i @ '' is missing a required base'')))))"

record document_query =
  query_scope :: scope
  query_document_kind :: "string option"
  query_at :: document_point

definition scanDocuments :: "durable_state \<Rightarrow> document_query \<Rightarrow> id option \<Rightarrow> nat \<Rightarrow> document_record page throws" where
  "scanDocuments s q after limit =
     bind_throws (assertOpen s) (\<lambda>_.
       let ids = scope_ids (query_scope q) (documentIdsByScope s) in
       page_of document_id
         (collect_values limit (\<lambda>r. matches_query (query_document_kind q) (document_kind r) \<and> isAliveAt r (query_at q))
           (\<lambda>i. document_record (the (al_get i (documents s)))) (drop (scan_start ids after) ids) [])
         limit)"

end
