(* ===== verification/Durable_Props.thy ===== *)
theory Durable_Props imports Durable_Commit Durable_Reads begin

text \<open>
  The durable store over its whole life: its invariant holds after any sequence of commits, minted identifiers and
  closing, and an identifier is minted once.
\<close>

section \<open>The invariant\<close>

definition durable_ok :: "durable_state \<Rightarrow> bool" where
  "durable_ok s \<longleftrightarrow> ids_ok s \<and> records_ok (nextSeq s - 1) s \<and> documents_ok s \<and> current_ok s \<and> histories_ok (nextSeq s - 1) s"

text \<open>The operations that change a store, and the states they lead to.\<close>

inductive durable_steps :: "durable_state \<Rightarrow> durable_state \<Rightarrow> bool" where
  start: "durable_steps s s"
| commit: "durable_steps s t \<Longrightarrow> durable_steps s (snd (commit ws t))"
| mint: "durable_steps s t \<Longrightarrow> durable_steps s (snd (mintId t))"
| close: "durable_steps s t \<Longrightarrow> durable_steps s (close_store t)"

lemma ids_ok_iff_owners: "ids_ok s \<longleftrightarrow> bounded s \<and> (\<exists>T. owners s T)"
proof
  assume "ids_ok s"
  then show "bounded s \<and> (\<exists>T. owners s T)" using owners_tableContaining by (auto simp: ids_ok_def bounded_def)
next
  assume a: "bounded s \<and> (\<exists>T. owners s T)"
  then obtain T where "owners s T" by blast
  then have T: "i \<in> table_ids s t \<Longrightarrow> T i = Some t" for i t by (cases "t = DocumentTable") (auto simp: owners_def)
  have "table_ids s t \<inter> table_ids s u = {}" if "t \<noteq> u" for t u
  proof (rule equals0I)
    fix i
    assume "i \<in> table_ids s t \<inter> table_ids s u"
    then show False using T [of i t] T [of i u] that by simp
  qed
  then show "ids_ok s" using a unfolding ids_ok_def bounded_def by blast
qed

lemma records_ok_later: "records_ok m s \<Longrightarrow> m \<le> n \<Longrightarrow> records_ok n s"
  unfolding records_ok_def entries_ok_def by (meson order_trans)

lemma histories_ok_later: "histories_ok m s \<Longrightarrow> m \<le> n \<Longrightarrow> histories_ok n s"
  using stored_ok_later unfolding histories_ok_def by blast

lemma records_ok_same:
  assumes "records_same s t"
  shows "records_ok n t = records_ok n s"
  using assms by (simp add: records_same_def records_ok_def conversations_ok_def entries_ok_def tasks_ok_def submissions_ok_def)

text \<open>The fields a commit does not move past its last step.\<close>

lemma durable_ok_parts:
  assumes "documents t = documents s" "documentAddresses t = documentAddresses s" "documentIdsByScope t = documentIdsByScope s"
  shows "documents_ok t = documents_ok s" "current_ok t = current_ok s" "histories_ok n t = histories_ok n s"
  using assms by (simp_all add: documents_ok_def address_list_def current_ok_def current_of_def histories_ok_def)

text \<open>A commit that fails changes nothing; one that succeeds applies its records and then its document commands.\<close>

definition applied :: "durable_state \<Rightarrow> storage_write list \<Rightarrow> (id \<times> document_action) list \<Rightarrow> durable_state" where
  "applied s ws actions = applyDocumentActions actions (nextSeq s) (fold (apply_record (nextSeq s)) ws s)"

lemma commit_cases:
  obtains (failed) e where "commit ws s = (Inl e, s)"
  | (ok) actions counts where "checkGlobalIds s [] ws = Inr ()" "prepareDocumentActions ws = Inr actions"
      "fold_throws (check_action s) actions [] = Inr counts" "\<not> (\<exists>live \<in> set (map snd counts). live > 1)"
      "commit ws s = (Inr (nextSeq s), (applied s ws actions)\<lparr>nextSeq := nextSeq (applied s ws actions) + 1\<rparr>)"
proof -
  have "(\<exists>e. commit ws s = (Inl e, s)) \<or> (\<exists>actions counts. checkGlobalIds s [] ws = Inr () \<and> prepareDocumentActions ws = Inr actions \<and>
      fold_throws (check_action s) actions [] = Inr counts \<and> \<not> (\<exists>live \<in> set (map snd counts). live > 1) \<and>
      commit ws s = (Inr (nextSeq s), (applied s ws actions)\<lparr>nextSeq := nextSeq (applied s ws actions) + 1\<rparr>))"
    by (simp add: commit_def assertOpen_def checkDocumentActions_def bind_throws_def applied_def Let_def split: sum.split)
  then show ?thesis using that by blast
qed

lemma applied_ok:
  assumes ok: "durable_ok s" and "checkGlobalIds s [] ws = Inr ()" "prepareDocumentActions ws = Inr actions"
    "fold_throws (check_action s) actions [] = Inr counts" "\<not> (\<exists>live \<in> set (map snd counts). live > 1)"
  defines "n \<equiv> nextSeq s" and "t \<equiv> applied s ws actions"
  shows "ids_ok t \<and> records_ok n t \<and> documents_ok t \<and> current_ok t \<and> histories_ok n t \<and> nextSeq t = n \<and> nextId s \<le> nextId t"
proof -
  let ?T = "tableContaining s" and ?T' = "fold (\<lambda>w T. claim_table T w) ws (tableContaining s)" and ?s = "fold (apply_record n) ws s"
  have inv: "ids_ok s" "records_ok n s" "documents_ok s" "current_ok s" "histories_ok n s"
    using ok records_ok_later [of "nextSeq s - 1" s n] histories_ok_later [of "nextSeq s - 1" s n]
    by (simp_all add: durable_ok_def n_def)
  have claims: "claims_ok ?T ws" by (rule checkGlobalIds_claims [OF assms(2)]) simp
  have "bounded s" using inv(1) by (simp add: ids_ok_iff_owners)
  then have s1: "records_ok n ?s" "owners ?s ?T'" "bounded ?s" "same_documents s ?s"
    using apply_records [OF inv(2) owners_tableContaining [OF inv(1)] _ claims] by blast+
  have docs: "documents ?s = documents s" "documentAddresses ?s = documentAddresses s" "documentIdsByScope ?s = documentIdsByScope s"
    "nextSeq ?s = nextSeq s" "nextId s \<le> nextId ?s" using s1(4) by (simp_all add: same_documents_def)
  have d1: "documents_ok ?s" "current_ok ?s" "histories_ok n ?s" using inv(3-5) durable_ok_parts [OF docs(1-3)] by simp_all
  have "batch_ok ?s ?T' n [] ?s" by (rule batch_start [OF d1(1,3) s1(3,2) d1(2)])
  then have "batch_ok ?s ?T' n counts t"
    unfolding t_def n_def applied_def applyDocumentActions_def
  proof (rule batch_fold [OF _ d1(2) [unfolded n_def]])
    show "fold_throws (check_action (fold (apply_record (nextSeq s)) ws s)) actions [] = Inr counts"
      using assms(4) check_action_cong [OF docs(1,2)] by (simp add: n_def)
    show "distinct (al_keys actions)" by (rule prepare_actions(1) [OF assms(3)])
    fix i a c
    assume "(i, a) \<in> set actions" "action_create a = Some c"
    then have "document_id c = i \<and> (\<exists>x. CreateDocument c x \<in> set ws)"
      using prepare_actions [OF assms(3)] al_get_Some_iff by metis
    then show "document_id c = i \<and> ?T' i = Some DocumentTable" using created_claimed [OF claims] by blast
  qed simp
  note b = this
  have same: "records_same ?s t" by (rule batch_okD(2) [OF b])
  have "ids_ok t" "records_ok n t" using records_ok_same [OF same] s1(1) batch_okD(4,5) [OF b] ids_ok_iff_owners by blast+
  moreover have "nextSeq t = n" "nextId s \<le> nextId t" using same docs(4,5) by (simp_all add: records_same_def n_def)
  ultimately show ?thesis using batch_end [OF b assms(5)] batch_okD(1,3) [OF b] by blast
qed

lemma durable_ok_seq:
  assumes "ids_ok t \<and> records_ok n t \<and> documents_ok t \<and> current_ok t \<and> histories_ok n t"
  shows "durable_ok (t\<lparr>nextSeq := n + 1\<rparr>)"
proof -
  have "table_ids (t\<lparr>nextSeq := m\<rparr>) u = table_ids t u" for m u by (cases u) simp_all
  then show ?thesis
    using assms durable_ok_parts [of "t\<lparr>nextSeq := n + 1\<rparr>" t]
    by (simp add: durable_ok_def ids_ok_def records_ok_def conversations_ok_def entries_ok_def tasks_ok_def submissions_ok_def)
qed

lemma tableContaining_None:
  assumes "\<And>u. i \<notin> table_ids s u"
  shows "tableContaining s i = None"
  using assms [of ConversationTable] assms [of EntryTable] assms [of TaskTable] assms [of SubmissionTable] assms [of DocumentTable]
  by (simp add: tableContaining_def al_has_iff)

lemma commit_ok:
  assumes "durable_ok s"
  shows "durable_ok (snd (commit ws s)) \<and> nextId s \<le> nextId (snd (commit ws s))"
proof (cases rule: commit_cases [of ws s])
  case (failed e)
  then show ?thesis using assms by simp
next
  case (ok actions counts)
  note a = applied_ok [OF assms ok(1-4)]
  have "durable_ok ((applied s ws actions)\<lparr>nextSeq := nextSeq s + 1\<rparr>)" by (rule durable_ok_seq) (use a in blast)
  then show ?thesis using a ok(5) by simp
qed

lemma mint_ok:
  assumes "durable_ok s"
  shows "durable_ok (snd (mintId s))" "nextId s \<le> nextId (snd (mintId s))"
proof -
  have "durable_ok (s\<lparr>nextId := nextId s + 1\<rparr>)"
  proof -
    have "table_ids (s\<lparr>nextId := m\<rparr>) u = table_ids s u" for m u by (cases u) simp_all
    moreover have "\<forall>t. \<forall>i \<in> table_ids s t. i < nextId s + 1" using assms unfolding durable_ok_def ids_ok_def by fastforce
    ultimately show ?thesis
      using assms durable_ok_parts [of "s\<lparr>nextId := nextId s + 1\<rparr>" s]
      by (simp add: durable_ok_def ids_ok_def records_ok_def conversations_ok_def entries_ok_def tasks_ok_def submissions_ok_def)
  qed
  then show "durable_ok (snd (mintId s))" "nextId s \<le> nextId (snd (mintId s))"
    using assms by (simp_all add: mintId_def assertOpen_def)
qed

lemma close_ok: "durable_ok s \<Longrightarrow> durable_ok (close_store s)"
proof -
  assume a: "durable_ok s"
  have "table_ids (close_store s) u = table_ids s u" for u by (cases u) (simp_all add: close_store_def)
  then show ?thesis
    using a durable_ok_parts [of "close_store s" s]
    by (simp add: close_store_def durable_ok_def ids_ok_def records_ok_def conversations_ok_def entries_ok_def tasks_ok_def submissions_ok_def)
qed

lemma steps_ok: "durable_steps s t \<Longrightarrow> durable_ok s \<Longrightarrow> durable_ok t \<and> nextId s \<le> nextId t"
proof (induction rule: durable_steps.induct)
  case (commit s t ws)
  then show ?case using commit_ok [of t ws] by auto
next
  case (mint s t)
  then show ?case using mint_ok [of t] by auto
next
  case (close s t)
  then show ?case using close_ok by (simp add: close_store_def)
qed simp

lemma empty_ok: "durable_ok newMemoryStorage"
proof -
  have "table_ids newMemoryStorage u = {}" for u by (cases u) (simp_all add: newMemoryStorage_def)
  then show ?thesis
    by (simp add: newMemoryStorage_def durable_ok_def ids_ok_def records_ok_def conversations_ok_def entries_ok_def tasks_ok_def
        submissions_ok_def documents_ok_def address_list_def current_ok_def current_of_def histories_ok_def scope_ids_def rows_with_def)
qed

text \<open>
  C3: Every state that commits, minted identifiers and closing lead to satisfies the invariant: an identifier is a key of
  at most one table and below the next one to mint; every index of conversations, entries, head markers, tasks, tasks by
  status, documents by address and by scope lists exactly the rows it indexes in increasing order; a request key leads
  to the submission that made the request; an address has its live document, and no other, as current; and the
  retained content of a document can be replayed.
\<close>
theorem durable_store_invariant:
  assumes "durable_steps newMemoryStorage s"
  shows "durable_ok s"
  using steps_ok [OF assms empty_ok] by blast

abbreviation example_conversation :: conversation_record where
  "example_conversation \<equiv> \<lparr>conversation_id = 1, parent = None, conversation_owner = None\<rparr>"

abbreviation example_document :: "id \<Rightarrow> document_create" where
  "example_document i \<equiv> \<lparr>document_id = i, document_kind = ''plan'', document_key = None, document_scope = SessionScope, document_history = None, document_fork = None\<rparr>"

abbreviation example_commit :: "storage_write list" where
  "example_commit \<equiv> [WriteConversation example_conversation, CreateDocument (example_document 2) (Base 1 (JObj []))]"

theorem durable_store_invariant_witness:
  "fst (commit example_commit newMemoryStorage) = Inr 1 \<and> durable_ok (snd (commit example_commit newMemoryStorage))"
proof
  show "fst (commit example_commit newMemoryStorage) = Inr 1" by code_simp
  show "durable_ok (snd (commit example_commit newMemoryStorage))"
    by (rule durable_store_invariant [OF durable_steps.commit [OF durable_steps.start]])
qed

text \<open>
  An identifier is minted once. It belongs to no table when it is minted, and whatever is committed or minted
  later, every later identifier is larger.
\<close>
theorem durable_mint_fresh:
  assumes "durable_steps newMemoryStorage s" and "mintId s = (Inr i, s')" and "durable_steps s' t" and "mintId t = (Inr j, t')"
  shows "tableContaining s i = None \<and> 2 \<le> i \<and> i < j"
proof -
  have ok: "durable_ok s" using steps_ok [OF assms(1) empty_ok] by blast
  have i: "i = nextId s" "s' = s\<lparr>nextId := nextId s + 1\<rparr>" using assms(2) by (auto simp: mintId_def assertOpen_def split: if_splits)
  have j: "j = nextId t" using assms(4) by (auto simp: mintId_def assertOpen_def split: if_splits)
  have "durable_ok s'" using mint_ok(1) [OF ok] assms(2) by simp
  then have "nextId s' \<le> j" using steps_ok [OF assms(3)] j by simp
  moreover have "i \<notin> table_ids s u" for u using ok i(1) unfolding durable_ok_def ids_ok_def by blast
  then have "tableContaining s i = None"
    by (rule tableContaining_None)
  ultimately show ?thesis using i ok by (simp add: durable_ok_def ids_ok_def)
qed

theorem durable_mint_fresh_witness:
  "tableContaining newMemoryStorage 2 = None \<and> (2 :: id) \<le> 2 \<and> (2 :: id) < 3"
  by (rule durable_mint_fresh [OF durable_steps.start, of 2 "newMemoryStorage\<lparr>nextId := 3\<rparr>" "newMemoryStorage\<lparr>nextId := 3\<rparr>"
        3 "newMemoryStorage\<lparr>nextId := 4\<rparr>"])
     (simp_all add: mintId_def assertOpen_def newMemoryStorage_def durable_steps.start)

end
