(* ===== verification/Durable_Scan.thy ===== *)
theory Durable_Scan imports Durable_Props begin

text \<open>
  What the reads of the durable store promise in a state that satisfies its invariant: a document that is alive can be
  read back without a corruption error, and a client that follows the cursors sees every row of its query once.
\<close>

section \<open>Replaying a document\<close>

lemma base_index_Some:
  assumes "n \<le> length rs" and "0 < n" and "is_base (fst (hd rs))"
  shows "\<exists>k. base_index rs n = Some k \<and> k < n \<and> is_base (fst (rs ! k)) \<and> (\<forall>j. k < j \<and> j < n \<longrightarrow> \<not> is_base (fst (rs ! j)))"
  using assms
proof (induction n)
  case (Suc n)
  show ?case
  proof (cases "is_base (fst (rs ! n))")
    case True
    then show ?thesis by auto
  next
    case False
    then have "n \<noteq> 0" using Suc.prems by (metis hd_conv_nth length_greater_0_conv less_le_trans)
    then obtain k where "base_index rs n = Some k" "k < n" "is_base (fst (rs ! k))" "\<forall>j. k < j \<and> j < n \<longrightarrow> \<not> is_base (fst (rs ! j))"
      using Suc.IH Suc.prems False by auto
    then show ?thesis using False less_Suc_eq by auto
  qed
qed simp

lemma chain_versions:
  assumes "successively (\<lambda>p q. is_base (fst q) \<or> content_version (fst q) = content_version (fst p)) (r # rs)"
    and "\<forall>q \<in> set rs. \<not> is_base (fst q)"
  shows "\<forall>q \<in> set rs. content_version (fst q) = content_version (fst r)"
  using assms
proof (induction rs arbitrary: r)
  case (Cons q rs)
  have "content_version (fst q) = content_version (fst r)" using Cons.prems by simp
  moreover have "\<forall>x \<in> set rs. content_version (fst x) = content_version (fst q)" by (rule Cons.IH) (use Cons.prems in simp_all)
  ultimately show ?case by simp
qed simp

lemma replay_versions:
  assumes "\<forall>q \<in> set rs. \<not> is_base (fst q) \<and> content_version (fst q) = v"
  shows "replay_revisions i v rs x =
    fold_throws (\<lambda>r. case fst r of Base _ _ \<Rightarrow> Inr | Delta _ ops \<Rightarrow> applyImmutable ops) rs x"
  using assms
proof (induction rs arbitrary: x)
  case (Cons r rs)
  then show ?case by (cases r; cases "fst r") (auto simp: bind_throws_def split: sum.split)
qed simp

text \<open>The visible part of a history is a prefix of it that still starts with its base.\<close>

lemma sorted_filter_prefix:
  "sorted (map snd rs) \<Longrightarrow> \<exists>k \<le> length rs. filter (\<lambda>r. snd r \<le> (n :: int)) rs = take k rs"
proof (induction rs)
  case (Cons r rs)
  then obtain k where k: "k \<le> length rs" "filter (\<lambda>r. snd r \<le> n) rs = take k rs" by auto
  show ?case
  proof (cases "snd r \<le> n")
    case True
    then show ?thesis using k by (intro exI [of _ "Suc k"]) simp
  next
    case False
    then have "filter (\<lambda>r. snd r \<le> n) rs = []" using Cons.prems by (auto simp: filter_empty_conv)
    then show ?thesis using False by (intro exI [of _ 0]) simp
  qed
qed simp

lemma visible_chain:
  assumes "stored_ok n d" and "isAliveAt (document_record d) at" and "at = Current \<or> \<not> isCurrentOnly (document_record d)"
  shows "chain_ok (visible_revisions d at)"
proof (cases at)
  case Current
  then show ?thesis using assms by (simp add: stored_ok_def isAliveAt_def visible_revisions_def)
next
  case (AsOf m)
  then have h: "chain_ok (revisions d)" "snd (hd (revisions d)) \<le> m" "sorted (map snd (revisions d))"
    using assms by (simp_all add: stored_ok_def isAliveAt_def)
  obtain k where k: "filter (\<lambda>r. snd r \<le> m) (revisions d) = take k (revisions d)" using sorted_filter_prefix [OF h(3)] by blast
  have "revisions d \<noteq> []" using h(1) by (simp add: chain_ok_def)
  then have ne: "filter (\<lambda>r. snd r \<le> m) (revisions d) \<noteq> []" using h(2) by (auto simp: filter_empty_conv intro: bexI [of _ "hd (revisions d)"])
  have "successively P (take k xs)" if "successively P xs" for P and xs :: "(document_content \<times> seq) list"
    using that append_take_drop_id [of k xs] successively_append_iff [of P "take k xs" "drop k xs"] by metis
  then show ?thesis using ne h(1) k AsOf by (auto simp: chain_ok_def visible_revisions_def)
qed

lemma chain_split:
  assumes "chain_ok rs"
  obtains k v x where "base_index rs (length rs) = Some k" "k < length rs" "fst (rs ! k) = Base v x"
    "\<forall>q \<in> set (drop (k + 1) rs). \<not> is_base (fst q) \<and> content_version (fst q) = v"
proof -
  have c: "rs \<noteq> []" "is_base (fst (hd rs))"
    "successively (\<lambda>p q. is_base (fst q) \<or> content_version (fst q) = content_version (fst p)) rs"
    using assms by (simp_all add: chain_ok_def)
  obtain k where k: "base_index rs (length rs) = Some k" "k < length rs" "is_base (fst (rs ! k))"
    "\<forall>j. k < j \<and> j < length rs \<longrightarrow> \<not> is_base (fst (rs ! j))"
    using base_index_Some [OF le_refl _ c(2)] c(1) by auto
  obtain v x where base: "fst (rs ! k) = Base v x" using k(3) by (cases "fst (rs ! k)") simp_all
  have later: "\<forall>q \<in> set (drop (k + 1) rs). \<not> is_base (fst q)"
  proof
    fix q
    assume "q \<in> set (drop (k + 1) rs)"
    then obtain j where j: "j < length rs - (k + 1)" "q = rs ! (k + 1 + j)" by (auto simp: in_set_conv_nth)
    have "k < k + 1 + j \<and> k + 1 + j < length rs" using j(1) by linarith
    then show "\<not> is_base (fst q)" using k(4) j(2) by blast
  qed
  have "drop k rs = rs ! k # drop (k + 1) rs" using k(2) by (simp add: Cons_nth_drop_Suc)
  then have "successively (\<lambda>p q. is_base (fst q) \<or> content_version (fst q) = content_version (fst p)) (rs ! k # drop (k + 1) rs)"
    using c(3) append_take_drop_id [of k rs] successively_append_iff by metis
  then have "\<forall>q \<in> set (drop (k + 1) rs). content_version (fst q) = v" using chain_versions later base by fastforce
  then show thesis using that [OF k(1,2) base] later by blast
qed

text \<open>
  C36: A document that is alive at a point of its retained history can be read there. The read never reports a missing base
  or a version boundary: it returns the last base visible at that point with every later delta applied in order, and
  fails only as the application of a delta does.
\<close>
theorem document_read_replays:
  assumes "durable_steps newMemoryStorage s" and "\<not> closed s" and "al_get i (documents s) = Some d"
    and "isAliveAt (document_record d) at" and "at = Current \<or> \<not> isCurrentOnly (document_record d)"
  shows "\<exists>before v x m deltas. visible_revisions d at = before @ (Base v x, m) # deltas \<and>
    (\<forall>r \<in> set deltas. \<exists>ops. fst r = Delta v ops) \<and>
    document s i at =
      bind_throws (fold_throws (\<lambda>r. case fst r of Base _ _ \<Rightarrow> Inr | Delta _ ops \<Rightarrow> applyImmutable ops) deltas x)
        (\<lambda>y. Inr (Some (document_record d, v, y)))"
proof -
  let ?rs = "visible_revisions d at"
  have "durable_ok s" using steps_ok [OF assms(1) empty_ok] by blast
  then have "stored_ok (nextSeq s - 1) d" using assms(3) unfolding durable_ok_def histories_ok_def by blast
  then have "chain_ok ?rs" by (rule visible_chain [OF _ assms(4,5)])
  then obtain k v x where k: "base_index ?rs (length ?rs) = Some k" "k < length ?rs" "fst (?rs ! k) = Base v x"
    "\<forall>q \<in> set (drop (k + 1) ?rs). \<not> is_base (fst q) \<and> content_version (fst q) = v"
    by (rule chain_split)
  have "?rs = take k ?rs @ ?rs ! k # drop (k + 1) ?rs" using k(2) by (simp add: id_take_nth_drop)
  then have split: "?rs = take k ?rs @ (Base v x, snd (?rs ! k)) # drop (k + 1) ?rs" using k(3) by (metis prod.collapse)
  have deltas: "\<forall>r \<in> set (drop (k + 1) ?rs). \<exists>ops. fst r = Delta v ops"
    using k(4) by (metis content_version.simps(2) document_content.exhaust is_base.simps(1))
  have "document s i at =
      bind_throws (replay_revisions i v (drop (k + 1) ?rs) x) (\<lambda>y. Inr (Some (document_record d, v, y)))"
    using assms(2-5) k(1,3) by (auto simp: document_def assertOpen_def Let_def)
  then show ?thesis using split deltas replay_versions [OF k(4)] by metis
qed

abbreviation example_state :: durable_state where
  "example_state \<equiv> snd (commit [ChangeDocument 2 (Delta 1 [SetAt [Key ''done''] (JBool True)])] (snd (commit example_commit newMemoryStorage)))"

theorem document_read_replays_witness:
  "\<exists>before v x m deltas. visible_revisions (the (al_get 2 (documents example_state))) (AsOf 2) = before @ (Base v x, m) # deltas \<and>
    (\<forall>r \<in> set deltas. \<exists>ops. fst r = Delta v ops) \<and>
    document example_state 2 Current =
      bind_throws (fold_throws (\<lambda>r. case fst r of Base _ _ \<Rightarrow> Inr | Delta _ ops \<Rightarrow> applyImmutable ops) deltas x)
        (\<lambda>y. Inr (Some (document_record (the (al_get 2 (documents example_state))), v, y)))"
proof -
  have steps: "durable_steps newMemoryStorage example_state"
    by (rule durable_steps.commit [OF durable_steps.commit [OF durable_steps.start]])
  have eq: "visible_revisions (the (al_get 2 (documents example_state))) (AsOf 2) = visible_revisions (the (al_get 2 (documents example_state))) Current"
    by code_simp
  show ?thesis unfolding eq
    by (rule document_read_replays [OF steps]) code_simp+
qed

section \<open>Following the cursors\<close>

lemma collect_values_take:
  "length vs \<le> Suc limit \<Longrightarrow> collect_values limit p get ids vs = take (Suc limit) (vs @ filter p (map get ids))"
proof (induction limit p get ids vs rule: collect_values.induct)
  case (2 limit p get i ids vs)
  then show ?case by (cases "length vs \<le> limit") (auto simp: Suc_diff_le)
qed simp

text \<open>What is left of a sorted index after a cursor.\<close>

definition after_cursor :: "id list \<Rightarrow> id option \<Rightarrow> id list" where
  "after_cursor ids after = (case after of None \<Rightarrow> ids | Some a \<Rightarrow> filter (\<lambda>x. \<not> x \<le> a) ids)"

lemma drop_scan_start: "strictly_sorted ids \<Longrightarrow> drop (scan_start ids after) ids = after_cursor ids after"
  by (simp add: scan_start_def after_cursor_def upperBound_split split: option.split)

lemma sorted_above:
  "strictly_sorted xs \<Longrightarrow> k < length xs \<Longrightarrow> filter (\<lambda>x. \<not> x \<le> xs ! k) xs = drop (Suc k) xs"
proof (induction xs arbitrary: k)
  case (Cons x xs)
  show ?case
  proof (cases k)
    case 0
    have "\<forall>y \<in> set xs. \<not> y \<le> x" using Cons.prems(1) by auto
    then show ?thesis using 0 by (simp add: filter_id_conv)
  next
    case (Suc j)
    then have "j < length xs" using Cons.prems(2) by simp
    then have "x \<le> xs ! j" using Cons.prems(1) by (simp add: order_less_imp_le)
    then show ?thesis using Suc Cons.IH [of j] Cons.prems by simp
  qed
qed simp

lemma after_cursor_next:
  assumes "strictly_sorted ids" and "w = filter q (after_cursor ids after)" and "k < length w"
  shows "filter q (after_cursor ids (Some (w ! k))) = drop (Suc k) w"
proof -
  have sorted: "strictly_sorted w" using assms(1,2) by (auto simp: after_cursor_def sorted_wrt_filter split: option.split)
  have "filter q (filter (\<lambda>x. \<not> x \<le> w ! k) ids) = filter (\<lambda>x. \<not> x \<le> w ! k) w"
  proof (cases after)
    case None
    have "filter (\<lambda>x. \<not> x \<le> w ! k) w = filter (\<lambda>x. q x \<and> \<not> x \<le> w ! k) ids" using assms(2) None by (simp add: after_cursor_def)
    then show ?thesis by (simp add: conj_commute)
  next
    case (Some a)
    then have w: "w = filter (\<lambda>x. \<not> x \<le> a \<and> q x) ids" using assms(2) by (simp add: after_cursor_def)
    have "w ! k \<in> set w" using assms(3) by simp
    then have "\<not> w ! k \<le> a" unfolding w by simp
    then have "filter (\<lambda>x. (\<not> x \<le> a \<and> q x) \<and> \<not> x \<le> w ! k) ids = filter (\<lambda>x. \<not> x \<le> w ! k \<and> q x) ids"
      by (intro filter_cong) auto
    moreover have "filter (\<lambda>x. \<not> x \<le> w ! k) w = filter (\<lambda>x. (\<not> x \<le> a \<and> q x) \<and> \<not> x \<le> w ! k) ids"
      using arg_cong [OF w, of "filter (\<lambda>x. \<not> x \<le> w ! k)"] by simp
    ultimately show ?thesis by simp
  qed
  then show ?thesis using sorted_above [OF sorted assms(3)] by (simp add: after_cursor_def)
qed

lemma page_of_take:
  assumes "0 < limit"
  shows "page_of key (take (Suc limit) vs) limit =
    Inr \<lparr>page_items = take limit vs, page_next = (if length vs \<le> limit then None else Some (key (vs ! (limit - 1))))\<rparr>"
proof -
  have "take limit vs \<noteq> [] \<and> last (take limit vs) = vs ! (limit - 1)" if "limit < length vs"
    using assms that by (cases "take limit vs = []") (auto simp: last_conv_nth)
  then show ?thesis by (auto simp: page_of_def Let_def min_def)
qed

text \<open>A client that reads page after page until no cursor is returned; \<open>None\<close> when the fuel runs out or a read fails.\<close>

fun scan_all :: "(id option \<Rightarrow> 'r page throws) \<Rightarrow> nat \<Rightarrow> id option \<Rightarrow> 'r list option" where
  "scan_all scan 0 after = None"
| "scan_all scan (Suc fuel) after =
     (case scan after of
        Inl e \<Rightarrow> None
      | Inr p \<Rightarrow>
          (case page_next p of
             None \<Rightarrow> Some (page_items p)
           | Some a \<Rightarrow> map_option ((@) (page_items p)) (scan_all scan fuel (Some a))))"

text \<open>
  The contract of a paged scan: its index is sorted, a row carries the identifier it is indexed under, and a page is cut
  from the matching rows after the cursor.
\<close>

locale paged_scan =
  fixes ok :: "durable_state \<Rightarrow> bool" and index :: "durable_state \<Rightarrow> 'q \<Rightarrow> id list" and row :: "durable_state \<Rightarrow> id \<Rightarrow> 'r"
    and key :: "'r \<Rightarrow> id" and matches :: "'q \<Rightarrow> 'r \<Rightarrow> bool"
    and scan :: "durable_state \<Rightarrow> 'q \<Rightarrow> id option \<Rightarrow> nat \<Rightarrow> 'r page throws"
  assumes index_sorted: "ok s \<Longrightarrow> strictly_sorted (index s q)"
    and row_key: "ok s \<Longrightarrow> i \<in> set (index s q) \<Longrightarrow> key (row s i) = i"
    and scan_page: "ok s \<Longrightarrow> \<not> closed s \<Longrightarrow> scan s q after limit =
      page_of key (take (Suc limit) (filter (matches q) (map (row s) (after_cursor (index s q) after)))) limit"
begin

definition row_ids :: "durable_state \<Rightarrow> 'q \<Rightarrow> id option \<Rightarrow> id list" where
  "row_ids s q after = filter (\<lambda>i. matches q (row s i)) (after_cursor (index s q) after)"

lemma row_ids_index: "i \<in> set (row_ids s q after) \<Longrightarrow> i \<in> set (index s q)"
  by (auto simp: row_ids_def after_cursor_def split: option.splits)

lemma row_ids_key: "ok s \<Longrightarrow> i \<in> set (row_ids s q after) \<Longrightarrow> key (row s i) = i"
  by (rule row_key [OF _ row_ids_index])

lemma page:
  assumes "ok s" and "\<not> closed s" and "0 < limit"
  shows "scan s q after limit = Inr \<lparr>page_items = map (row s) (take limit (row_ids s q after)),
    page_next = (if length (row_ids s q after) \<le> limit then None else Some (row_ids s q after ! (limit - 1)))\<rparr>"
proof -
  let ?w = "row_ids s q after"
  have "filter (matches q) (map (row s) (after_cursor (index s q) after)) = map (row s) ?w"
    by (simp add: filter_map o_def row_ids_def)
  then have "scan s q after limit = page_of key (take (Suc limit) (map (row s) ?w)) limit" using scan_page [OF assms(1,2)] by simp
  moreover have "key (row s (?w ! (limit - 1))) = ?w ! (limit - 1)" if "limit < length ?w"
    by (rule row_ids_key [OF assms(1), where q = q and after = after]) (use that in simp)
  ultimately show ?thesis unfolding page_of_take [OF assms(3)] using assms(3) by (auto simp: take_map)
qed

lemma all_pages:
  assumes "ok s" and "\<not> closed s" and "0 < limit" and "length (row_ids s q after) < fuel"
  shows "scan_all (\<lambda>c. scan s q c limit) fuel after = Some (map (row s) (row_ids s q after))"
  using assms(4)
proof (induction fuel arbitrary: after)
  case (Suc fuel)
  let ?w = "row_ids s q after"
  note page = page [OF assms(1-3), of q after]
  show ?case
  proof (cases "length ?w \<le> limit")
    case False
    have "row_ids s q (Some (?w ! (limit - 1))) = drop (Suc (limit - 1)) ?w"
      unfolding row_ids_def [of s q "Some _"]
      by (rule after_cursor_next [OF index_sorted [OF assms(1)] row_ids_def]) (use False assms(3) in simp)
    then have rest: "row_ids s q (Some (?w ! (limit - 1))) = drop limit ?w" using assms(3) by simp
    have "length (drop limit ?w) < fuel" using Suc.prems False assms(3) by simp
    then show ?thesis using Suc.IH [of "Some (?w ! (limit - 1))"] rest page False by (simp flip: map_append)
  qed (simp add: page)
qed simp

text \<open>From the start every matching row of the index comes once, in order.\<close>

lemma enumerates:
  assumes "ok s" and "\<not> closed s" and "0 < limit" and "length (index s q) < fuel"
  shows "\<exists>rs. scan_all (\<lambda>c. scan s q c limit) fuel None = Some rs \<and> strictly_sorted (map key rs) \<and>
    set rs = {r. \<exists>i \<in> set (index s q). r = row s i \<and> matches q r}"
proof -
  let ?w = "row_ids s q None"
  have "length ?w \<le> length (index s q)" by (simp add: row_ids_def after_cursor_def)
  then have all: "scan_all (\<lambda>c. scan s q c limit) fuel None = Some (map (row s) ?w)"
    using all_pages [OF assms(1-3)] assms(4) by simp
  have "map key (map (row s) ?w) = ?w" unfolding map_map by (rule map_idI) (simp add: row_ids_key [OF assms(1)])
  moreover have "strictly_sorted ?w" using index_sorted [OF assms(1)] by (simp add: row_ids_def after_cursor_def sorted_wrt_filter)
  ultimately show ?thesis using all by (auto simp: row_ids_def after_cursor_def)
qed

end

text \<open>The three scans of the store satisfy it.\<close>

lemma conversations_index:
  assumes "conversations_ok s" and "i \<in> set (conversationIds s)"
  shows "\<exists>r. al_get i (conversations s) = Some r \<and> conversation_id r = i"
proof -
  have "i \<in> rows_with (\<lambda>_. True) (conversations s)" using assms by (simp add: conversations_ok_def sorted_index_def rows_with_all)
  then obtain r where r: "al_get i (conversations s) = Some r" by (auto simp: rows_with_def)
  then have "(i, r) \<in> set (conversations s)" by (rule al_get_SomeD)
  then show ?thesis using r assms(1) by (auto simp: conversations_ok_def)
qed

lemma tasks_index:
  assumes "tasks_ok s"
  shows "sorted_index (task_index s q) (rows_with (\<lambda>r. matches_query (query_status q) (task_status r)) (tasks s))"
  using assms rows_with_all [of "tasks s"]
  by (cases "query_status q") (simp_all add: tasks_ok_def task_index_def matches_query_def)

lemma task_index_row:
  assumes "tasks_ok s" and "i \<in> set (task_index s q)"
  shows "\<exists>r. al_get i (tasks s) = Some r \<and> task_id r = i"
proof -
  obtain r where r: "al_get i (tasks s) = Some r" using assms tasks_index [OF assms(1), of q] by (auto simp: sorted_index_def rows_with_def)
  then have "(i, r) \<in> set (tasks s)" by (rule al_get_SomeD)
  then show ?thesis using r assms(1) by (auto simp: tasks_ok_def)
qed

lemma task_index_length:
  assumes "tasks_ok s"
  shows "length (task_index s q) \<le> length (taskIds s)"
proof -
  have len: "length ids = card (set ids)" if "strictly_sorted ids" for ids :: "id list"
    using that by (simp add: strict_sorted_iff distinct_card)
  have "set (task_index s q) \<subseteq> set (taskIds s)"
    using tasks_index [OF assms, of q] assms rows_with_all [of "tasks s"]
    by (auto simp: sorted_index_def tasks_ok_def rows_with_def)
  then show ?thesis
    using len tasks_index [OF assms, of q] assms card_mono [of "set (taskIds s)" "set (task_index s q)"]
    by (simp add: sorted_index_def tasks_ok_def)
qed

lemma documents_index:
  assumes "documents_ok s"
  shows "sorted_index (scope_ids sc (documentIdsByScope s)) (rows_with (\<lambda>d. scope_of d = sc) (documents s))"
  using assms unfolding documents_ok_def by blast

lemma document_index_row:
  assumes "documents_ok s" and "i \<in> set (scope_ids sc (documentIdsByScope s))"
  shows "\<exists>d. al_get i (documents s) = Some d \<and> document_id (document_record d) = i"
  using documents_index [OF assms(1), of sc] assms(2) document_key_matches [OF assms(1)] by (auto simp: sorted_index_def rows_with_def)

lemma scanTasks_take:
  assumes "strictly_sorted (task_index s q)" and "\<not> closed s"
  shows "scanTasks s q after limit = page_of task_id
    (take (Suc limit) (filter (task_matches q) (map (\<lambda>i. the (al_get i (tasks s))) (after_cursor (task_index s q) after)))) limit"
  using assms by (simp add: scanTasks_def assertOpen_def drop_scan_start collect_values_take)

interpretation task_scan: paged_scan tasks_ok task_index "\<lambda>s i. the (al_get i (tasks s))" task_id task_matches scanTasks
proof
  fix s q
  assume ok: "tasks_ok s"
  show sorted: "strictly_sorted (task_index s q)" using tasks_index [OF ok] by (simp add: sorted_index_def)
  show "task_id (the (al_get i (tasks s))) = i" if "i \<in> set (task_index s q)" for i
    using task_index_row [OF ok that] by auto
  show "scanTasks s q after limit = page_of task_id
      (take (Suc limit) (filter (task_matches q) (map (\<lambda>i. the (al_get i (tasks s))) (after_cursor (task_index s q) after)))) limit"
    if "\<not> closed s" for after limit by (rule scanTasks_take [OF sorted that])
qed

lemma slice_is_drop_take: "slice_list i (i + limit + 1) xs = take (Suc limit) (drop i xs)"
  by (simp add: slice_list_def)

interpretation conversation_scan: paged_scan conversations_ok "\<lambda>s (u :: unit). conversationIds s"
    "\<lambda>s i. the (al_get i (conversations s))" conversation_id "\<lambda>u r. True" "\<lambda>s u. scanConversations s"
proof
  fix s and q :: unit
  assume ok: "conversations_ok s"
  then show sorted: "strictly_sorted (conversationIds s)" by (simp add: conversations_ok_def sorted_index_def)
  show "conversation_id (the (al_get i (conversations s))) = i" if "i \<in> set (conversationIds s)" for i
    using conversations_index [OF ok that] by auto
  show "scanConversations s after limit = page_of conversation_id
      (take (Suc limit) (filter (\<lambda>r. True) (map (\<lambda>i. the (al_get i (conversations s))) (after_cursor (conversationIds s) after)))) limit"
    if "\<not> closed s" for after limit
    unfolding scanConversations_def slice_is_drop_take Let_def drop_scan_start [OF sorted] using that by (simp add: assertOpen_def take_map)
qed

interpretation document_scan: paged_scan documents_ok "\<lambda>s q. scope_ids (query_scope q) (documentIdsByScope s)"
    "\<lambda>s i. document_record (the (al_get i (documents s)))" document_id
    "\<lambda>q r. matches_query (query_document_kind q) (document_kind r) \<and> isAliveAt r (query_at q)" scanDocuments
proof
  fix s and q :: document_query
  assume ok: "documents_ok s"
  show sorted: "strictly_sorted (scope_ids (query_scope q) (documentIdsByScope s))"
    using documents_index [OF ok] by (simp add: sorted_index_def)
  show "document_id (document_record (the (al_get i (documents s)))) = i" if "i \<in> set (scope_ids (query_scope q) (documentIdsByScope s))" for i
    using document_index_row [OF ok that] by auto
  show "scanDocuments s q after limit = page_of document_id (take (Suc limit)
      (filter (\<lambda>r. matches_query (query_document_kind q) (document_kind r) \<and> isAliveAt r (query_at q))
        (map (\<lambda>i. document_record (the (al_get i (documents s)))) (after_cursor (scope_ids (query_scope q) (documentIdsByScope s)) after)))) limit"
    if "\<not> closed s" for after limit
    using that by (simp add: scanDocuments_def assertOpen_def drop_scan_start [OF sorted] collect_values_take)
qed

text \<open>The rows an index leads to, without the index.\<close>

lemma indexed_rows:
  assumes "sorted_index ids (rows_with p m)"
  shows "{r. \<exists>i \<in> set ids. r = f (the (al_get i m)) \<and> P r} = {r. \<exists>i d. al_get i m = Some d \<and> p d \<and> r = f d \<and> P r}"
proof -
  have "i \<in> set ids \<longleftrightarrow> (\<exists>d. al_get i m = Some d \<and> p d)" for i using assms by (simp add: sorted_index_def rows_with_def)
  note mem = this
  show ?thesis
  proof (intro Collect_cong iffI)
    fix r
    assume "\<exists>i \<in> set ids. r = f (the (al_get i m)) \<and> P r"
    then obtain i where i: "i \<in> set ids" "r = f (the (al_get i m))" "P r" by blast
    then obtain d where "al_get i m = Some d" "p d" using mem by blast
    then show "\<exists>i d. al_get i m = Some d \<and> p d \<and> r = f d \<and> P r" using i(2,3) by auto
  next
    fix r
    assume "\<exists>i d. al_get i m = Some d \<and> p d \<and> r = f d \<and> P r"
    then obtain i d where i: "al_get i m = Some d" "p d" "r = f d" "P r" by blast
    then have "i \<in> set ids" "the (al_get i m) = d" using mem by simp_all
    then show "\<exists>i \<in> set ids. r = f (the (al_get i m)) \<and> P r" using i(3,4) by blast
  qed
qed

text \<open>
  Reading page by page, from the start until no cursor is returned, ends and gives every task of a query, and every
  document record of a query by scope and point in time, exactly once and in increasing order of its identifier,
  whatever the page size.
\<close>
theorem pages_enumerate:
  assumes "durable_steps newMemoryStorage s" and "\<not> closed s" and "0 < limit"
  shows "(\<exists>rs. scan_all (\<lambda>c. scanTasks s q c limit) (Suc (length (taskIds s))) None = Some rs \<and> strictly_sorted (map task_id rs) \<and>
      set rs = {r. \<exists>i d. al_get i (tasks s) = Some d \<and> matches_query (query_status q) (task_status d) \<and> r = d \<and> task_matches q r}) \<and>
    (\<exists>rs fuel. scan_all (\<lambda>c. scanDocuments s dq c limit) fuel None = Some rs \<and> strictly_sorted (map document_id rs) \<and>
      set rs = {r. \<exists>i d. al_get i (documents s) = Some d \<and> scope_of d = query_scope dq \<and> r = document_record d \<and>
        matches_query (query_document_kind dq) (document_kind r) \<and> isAliveAt r (query_at dq)})"
proof
  have "durable_ok s" using steps_ok [OF assms(1) empty_ok] by blast
  then have ok: "tasks_ok s" "documents_ok s" by (simp_all add: durable_ok_def records_ok_def)
  have "length (task_index s q) < Suc (length (taskIds s))" using task_index_length [OF ok(1), of q] by simp
  from task_scan.enumerates [OF ok(1) assms(2,3) this]
  show "\<exists>rs. scan_all (\<lambda>c. scanTasks s q c limit) (Suc (length (taskIds s))) None = Some rs \<and> strictly_sorted (map task_id rs) \<and>
      set rs = {r. \<exists>i d. al_get i (tasks s) = Some d \<and> matches_query (query_status q) (task_status d) \<and> r = d \<and> task_matches q r}"
    unfolding indexed_rows [OF tasks_index [OF ok(1)], where f = "\<lambda>r. r"] .
  from document_scan.enumerates [OF ok(2) assms(2,3) lessI, of dq]
  show "\<exists>rs fuel. scan_all (\<lambda>c. scanDocuments s dq c limit) fuel None = Some rs \<and> strictly_sorted (map document_id rs) \<and>
      set rs = {r. \<exists>i d. al_get i (documents s) = Some d \<and> scope_of d = query_scope dq \<and> r = document_record d \<and>
        matches_query (query_document_kind dq) (document_kind r) \<and> isAliveAt r (query_at dq)}"
    unfolding indexed_rows [OF documents_index [OF ok(2)], where f = document_record] by blast
qed

abbreviation example_task :: "id \<Rightarrow> bool \<Rightarrow> task_record" where
  "example_task i bg \<equiv> \<lparr>task_id = i, task_conversation = 1, task_kind = ''turn'', task_version = 1, task_input = JNull, task_after = [],
     task_background = bg, abortRequested = False, task_status = Pending, task_state = JNull, task_memos = None\<rparr>"

abbreviation example_tasks :: durable_state where
  "example_tasks \<equiv> snd (commit [WriteTask (example_task 4 True), WriteTask (example_task 3 False), WriteTask (example_task 2 True)] newMemoryStorage)"

abbreviation background_query :: task_query where
  "background_query \<equiv> \<lparr>query_status = Some Pending, query_conversation = None, query_task_kind = None, query_abort = None,
     query_background = Some True\<rparr>"

abbreviation session_query :: document_query where
  "session_query \<equiv> \<lparr>query_scope = SessionScope, query_document_kind = None, query_at = Current\<rparr>"

theorem pages_enumerate_witness:
  "scan_all (\<lambda>c. scanTasks example_tasks background_query c 1) 4 None = Some [example_task 2 True, example_task 4 True] \<and>
    (\<exists>rs. scan_all (\<lambda>c. scanTasks example_tasks background_query c 1) (Suc (length (taskIds example_tasks))) None = Some rs \<and>
      strictly_sorted (map task_id rs) \<and>
      set rs = {r. \<exists>i d. al_get i (tasks example_tasks) = Some d \<and> matches_query (query_status background_query) (task_status d) \<and>
        r = d \<and> task_matches background_query r}) \<and>
    (\<exists>rs fuel. scan_all (\<lambda>c. scanDocuments example_tasks session_query c 1) fuel None = Some rs \<and> strictly_sorted (map document_id rs) \<and>
      set rs = {r. \<exists>i d. al_get i (documents example_tasks) = Some d \<and> scope_of d = query_scope session_query \<and> r = document_record d \<and>
        matches_query (query_document_kind session_query) (document_kind r) \<and> isAliveAt r (query_at session_query)})"
proof
  show "scan_all (\<lambda>c. scanTasks example_tasks background_query c 1) 4 None = Some [example_task 2 True, example_task 4 True]"
    by code_simp
  have open_store: "\<not> closed example_tasks" by code_simp
  show "(\<exists>rs. scan_all (\<lambda>c. scanTasks example_tasks background_query c 1) (Suc (length (taskIds example_tasks))) None = Some rs \<and>
      strictly_sorted (map task_id rs) \<and>
      set rs = {r. \<exists>i d. al_get i (tasks example_tasks) = Some d \<and> matches_query (query_status background_query) (task_status d) \<and>
        r = d \<and> task_matches background_query r}) \<and>
    (\<exists>rs fuel. scan_all (\<lambda>c. scanDocuments example_tasks session_query c 1) fuel None = Some rs \<and> strictly_sorted (map document_id rs) \<and>
      set rs = {r. \<exists>i d. al_get i (documents example_tasks) = Some d \<and> scope_of d = query_scope session_query \<and> r = document_record d \<and>
        matches_query (query_document_kind session_query) (document_kind r) \<and> isAliveAt r (query_at session_query)})"
    by (rule pages_enumerate [OF durable_steps.commit [OF durable_steps.start] open_store zero_less_one])
qed

end
