(* ===== verification/Delta_Paths.thy ===== *)
theory Delta_Paths imports Delta_Apply begin

text \<open>
  Reading and writing at a path, and what follows for the appliers: the copying applier computes what the in-place one
  does, and neither writes a property that names the prototype chain.
\<close>

section \<open>One step\<close>

lemma al_set_same: "al_get k m = Some v \<Longrightarrow> al_set k v m = m"
  by (induction k v m rule: al_set.induct) (auto split: if_splits)

lemma al_set_set [simp]: "al_set k v (al_set k w m) = al_set k v m"
  by (induction k w m rule: al_set.induct) auto

lemma step_toE:
  assumes "step_to c s = Inr v"
  obtains (array) xs i where "c = JArr xs" "s = Index i" "0 \<le> i" "nat i < length xs" "v = xs ! nat i"
  | (object) m where "c = JObj m" "al_get (seg_name s) m = Some v"
  using assms by (cases c; cases s) (auto simp: step_to_def child_def al_has_def split: if_splits)

lemma step_to_facts:
  assumes "step_to c s = Inr v"
  shows "is_container c" "child c s = v" "step_to (set_child c s w) s = Inr w" "child (set_child c s w) s = w"
    "set_child (set_child c s w) s x = set_child c s x" "set_child c s v = c" "has_own c s"
proof -
  have "is_container c \<and> child c s = v \<and> step_to (set_child c s w) s = Inr w \<and> child (set_child c s w) s = w \<and>
      set_child (set_child c s w) s x = set_child c s x \<and> set_child c s v = c \<and> has_own c s"
    using assms
  proof (cases rule: step_toE)
    case (array xs i)
    then show ?thesis by (auto simp: child_def set_child_def step_to_def)
  next
    case (object m)
    then show ?thesis by (cases s) (auto simp: child_def set_child_def step_to_def al_has_def al_set_same)
  qed
  then show "is_container c" "child c s = v" "step_to (set_child c s w) s = Inr w" "child (set_child c s w) s = w"
    "set_child (set_child c s w) s x = set_child c s x" "set_child c s v = c" "has_own c s" by blast+
qed

section \<open>Paths\<close>

lemma resolve_put_at: "resolveValue root p = Inr v \<Longrightarrow> resolveValue (put_at p w root) p = Inr w"
proof (induction p arbitrary: root)
  case (Cons s p)
  then obtain c where c: "step_to root s = Inr c" "resolveValue c p = Inr v" by (auto simp: bind_throws_eq_Inr)
  then show ?case using Cons.IH [OF c(2)] step_to_facts(2,3) [OF c(1)] by simp
qed simp

lemma put_at_twice: "resolveValue root p = Inr v \<Longrightarrow> put_at p x (put_at p w root) = put_at p x root"
proof (induction p arbitrary: root)
  case (Cons s p)
  then obtain c where c: "step_to root s = Inr c" "resolveValue c p = Inr v" by (auto simp: bind_throws_eq_Inr)
  then show ?case using Cons.IH [OF c(2)] step_to_facts(2,4,5) [OF c(1)] by simp
qed simp

lemma put_at_same: "resolveValue root p = Inr v \<Longrightarrow> put_at p v root = root"
proof (induction p arbitrary: root)
  case (Cons s p)
  then obtain c where c: "step_to root s = Inr c" "resolveValue c p = Inr v" by (auto simp: bind_throws_eq_Inr)
  then show ?case using Cons.IH [OF c(2)] step_to_facts(2,6) [OF c(1)] by simp
qed simp

lemma resolve_append: "resolveValue root (p @ q) = bind_throws (resolveValue root p) (\<lambda>v. resolveValue v q)"
  by (induction p arbitrary: root) (simp_all add: bind_throws_assoc)

lemma put_at_append: "resolveValue root p = Inr v \<Longrightarrow> put_at (p @ q) w root = put_at p (put_at q w v) root"
proof (induction p arbitrary: root)
  case (Cons s p)
  then obtain c where c: "step_to root s = Inr c" "resolveValue c p = Inr v" by (auto simp: bind_throws_eq_Inr)
  then show ?case using Cons.IH [OF c(2)] step_to_facts(2) [OF c(1)] by simp
qed simp

lemma assertSafePath_iff: "assertSafePath p = Inr () \<longleftrightarrow> (\<forall>s \<in> set p. safe_seg s)"
  by (induction p) auto

lemma change_at_value:
  assumes "resolveValue root p = Inr c" and "is_container c"
  shows "change_at root p f = bind_throws (f c) (\<lambda>c'. Inr (put_at p c' root))"
  using assms by (simp add: change_at_def resolve_def)

section \<open>The copying applier\<close>

lemma copyContainers_resolve: "copyContainers p root = Inr v \<longleftrightarrow> v = root \<and> (\<exists>c. resolve root p = Inr c)"
proof (induction p arbitrary: root v)
  case Nil
  then show ?case by (auto simp: resolve_def)
next
  case (Cons s p)
  show ?case
  proof (cases "step_to root s")
    case (Inl e)
    then have "\<not> is_container root \<or> \<not> has_own root s \<or> (\<exists>xs k. root = JArr xs \<and> s = Key k)"
      by (auto simp: step_to_def split: json.splits seg.splits)
    then show ?thesis using Inl by (auto simp: resolve_def split: json.split seg.split)
  next
    case (Inr c)
    note f = step_to_facts [OF Inr]
    have "copyContainers (s # p) root = bind_throws (copyContainers p c) (\<lambda>copied. Inr (set_child root s copied))"
      using Inr f(1,2,7) by (cases rule: step_toE) (auto split: seg.split)
    then show ?thesis using Cons.IH [of c] f(6) Inr by (auto simp: resolve_def bind_throws_eq_Inr)
  qed
qed

lemma apply_op_resolves:
  assumes "apply_op op root = Inr v" and "\<not> isReplace op"
  shows "\<exists>c. resolve root (op_container op) = Inr c"
  using assms by (cases op) (auto simp: apply_op_def change_key_def change_at_def bind_throws_eq_Inr)

lemma apply_immutable_op_iff: "apply_immutable_op op root = Inr v \<longleftrightarrow> apply_op op root = Inr v"
proof (cases "isReplace op")
  case True
  then show ?thesis by (cases op) (simp_all add: apply_immutable_op_def apply_op_def)
next
  case False
  then have "apply_immutable_op op root = bind_throws (copyContainers (op_container op) root) (applyOps [op])"
    by (cases op) (simp_all add: apply_immutable_op_def)
  moreover have "applyOps [op] t = apply_op op t" for t by (simp add: applyOps_def bind_throws_def split: sum.split)
  ultimately show ?thesis using apply_op_resolves [OF _ False] copyContainers_resolve
    by (auto simp: bind_throws_eq_Inr)
qed

lemma fold_throws_same_result:
  assumes "\<And>x s t. f x s = Inr t \<longleftrightarrow> g x s = Inr t"
  shows "fold_throws f xs s = Inr t \<longleftrightarrow> fold_throws g xs s = Inr t"
  by (induction xs arbitrary: s) (simp_all add: bind_throws_eq_Inr assms)

text \<open>
  Applying operations to an immutable value gives a result exactly when applying them in place does, and the same
  one.
\<close>
theorem applyImmutable_agrees: "applyImmutable ops root = Inr v \<longleftrightarrow> applyOps ops root = Inr v"
  unfolding applyImmutable_def applyOps_def by (rule fold_throws_same_result) (rule apply_immutable_op_iff)

section \<open>Chunked insertion\<close>

lemma insert_chunks_splice: "insert_chunks xs at items = splice at 0 items xs"
proof (induction xs at items rule: insert_chunks.induct)
  case (1 xs at items)
  show ?case
  proof (cases "items = []")
    case True
    then show ?thesis by (subst insert_chunks.simps) (simp add: splice_def)
  next
    case False
    let ?ys = "splice at 0 (take 10000 items) xs"
    have "insert_chunks xs at items = splice (at + 10000) 0 (drop 10000 items) ?ys"
      using 1 False by (subst insert_chunks.simps) simp
    also have "\<dots> = splice at 0 items xs"
    proof (cases "length items \<le> 10000")
      case True
      then show ?thesis by simp
    next
      case long: False
      then have len: "length (take 10000 items) = 10000" by simp
      show ?thesis
      proof (cases "at \<le> length xs")
        case True
        then have t: "take (at + 10000) ?ys = take at xs @ take 10000 items" and d: "drop (at + 10000 + 0) ?ys = drop at xs"
          using len by (simp_all add: splice_def)
        have "take 10000 items @ drop 10000 items @ drop at xs = items @ drop at xs" by (metis append.assoc append_take_drop_id)
        then show ?thesis unfolding splice_def [of "at + 10000"] t d by (simp add: splice_def)
      next
        case False
        then have "?ys = xs @ take 10000 items" by (simp add: splice_def)
        then show ?thesis using False len by (simp add: splice_def)
      qed
    qed
    finally show ?thesis .
  qed
qed

lemma spliceItems_splice: "spliceItems i r items xs = splice i r items xs"
proof (cases "i \<le> length xs")
  case True
  then show ?thesis by (simp add: spliceItems_def insert_chunks_splice) (simp add: splice_def)
next
  case False
  then show ?thesis by (simp add: spliceItems_def insert_chunks_splice) (simp add: splice_def)
qed

end
