(* ===== verification/Delta_Diff.thy ===== *)
theory Delta_Diff imports Delta_Paths begin

text \<open>
  The structural diff of Chord (\<open>packages/chord/src/delta/index.ts\<close>): equality of JSON values, the overlap search
  on strings, and the operations \<open>diffValue\<close> emits. The emitted operations are returned instead of pushed. The two
  values are different trees, so \<open>===\<close> holds between primitives only. \<open>None\<close> stands for \<open>MISSING\<close>.
\<close>

section \<open>Equality\<close>

text \<open>\<open>===\<close> on two values that share no object.\<close>

fun strict_equal :: "json \<Rightarrow> json \<Rightarrow> bool" where
  "strict_equal JNull JNull = True"
| "strict_equal (JBool a) (JBool b) = (a = b)"
| "strict_equal (JNum a) (JNum b) = num_eq a b"
| "strict_equal (JStr a) (JStr b) = (a = b)"
| "strict_equal _ _ = False"

fun jsonEqual :: "json \<Rightarrow> json \<Rightarrow> bool"
  and items_equal :: "json list \<Rightarrow> json list \<Rightarrow> bool"
  and entries_equal :: "(string \<times> json) list \<Rightarrow> (string \<times> json) list \<Rightarrow> bool" where
  "jsonEqual (JArr xs) (JArr ys) \<longleftrightarrow> length xs = length ys \<and> items_equal xs ys"
| "jsonEqual (JObj m) (JObj n) \<longleftrightarrow> length m = length n \<and> entries_equal m n"
| "jsonEqual a b \<longleftrightarrow> strict_equal a b"
| "items_equal (x # xs) (y # ys) \<longleftrightarrow> jsonEqual x y \<and> items_equal xs ys"
| "items_equal _ _ \<longleftrightarrow> True"
| "entries_equal ((k, v) # m) n \<longleftrightarrow> (case al_get k n of Some w \<Rightarrow> jsonEqual v w | None \<Rightarrow> False) \<and> entries_equal m n"
| "entries_equal [] n \<longleftrightarrow> True"

section \<open>Strings\<close>

text \<open>
  The candidates of one probe length: the occurrences of \<open>head\<close> in \<open>tail\<close> from the left, at most
  \<open>budget\<close> of them. The suffix at an occurrence is the rest of \<open>tail\<close>.
\<close>

fun probe_overlap :: "string \<Rightarrow> string \<Rightarrow> string \<Rightarrow> nat \<Rightarrow> nat option" where
  "probe_overlap [] head b budget = None"
| "probe_overlap (c # t) head b budget =
     (if startsWith (c # t) head
      then if budget = 0 then None
        else if length (c # t) \<le> length b \<and> c # t = take (length (c # t)) b then Some (length (c # t))
        else probe_overlap t head b (budget - 1)
      else probe_overlap t head b budget)"

fun probe_all :: "string \<Rightarrow> string \<Rightarrow> nat \<Rightarrow> nat list \<Rightarrow> nat" where
  "probe_all tail b maxCandidates [] = 0"
| "probe_all tail b maxCandidates (h # hs) =
     (case probe_overlap tail (take h b) b maxCandidates of
        Some n \<Rightarrow> n
      | None \<Rightarrow> if h = 1 then 0 else probe_all tail b maxCandidates hs)"

definition overlap :: "string \<Rightarrow> string \<Rightarrow> nat \<Rightarrow> nat" where
  "overlap a b scan =
     (if a = [] \<or> b = [] \<or> scan = 0 then 0
      else
        (let tail = (if scan < length a then drop (length a - scan) a else a) in
         probe_all tail b 8 [min 64 (length b), 1]))"

section \<open>Differences\<close>

definition emitSet :: "path \<Rightarrow> json \<Rightarrow> delta_op" where
  "emitSet p v = (if p = [] then Replace v else SetAt p v)"

definition emitDelete :: "path \<Rightarrow> delta_op list throws" where
  "emitDelete p = (if p = [] then Inl ''the tracked root cannot be deleted'' else Inr [DeleteAt p])"

definition diffString :: "string \<Rightarrow> string \<Rightarrow> path \<Rightarrow> nat \<Rightarrow> delta_op list" where
  "diffString before after p scan =
     (if before = after then []
      else if p = [] then [emitSet p (JStr after)]
      else if length before < length after \<and> take (length before) after = before
      then [AppendAt p (drop (length before) after)]
      else
        (let shared = overlap before after scan in
         if shared = 0 then [SetAt p (JStr after)]
         else TrimAt p (int (length before - shared)) #
           (if shared < length after then [AppendAt p (drop shared after)] else [])))"

definition has_reserved :: "(string \<times> json) list \<Rightarrow> bool" where
  "has_reserved m \<longleftrightarrow> (\<exists>k \<in> set (al_keys m). k \<in> set RESERVED_SEGMENTS)"

text \<open>The lengths of the common prefix, and of the common suffix of what is left.\<close>

fun common_prefix :: "json list \<Rightarrow> json list \<Rightarrow> nat" where
  "common_prefix (x # xs) (y # ys) = (if jsonEqual x y then Suc (common_prefix xs ys) else 0)"
| "common_prefix _ _ = 0"

definition common_suffix :: "nat \<Rightarrow> json list \<Rightarrow> json list \<Rightarrow> nat" where
  "common_suffix prefix xs ys = common_prefix (rev (drop prefix xs)) (rev (drop prefix ys))"

text \<open>The properties of the old object that the new one does not have.\<close>

fun delete_keys :: "(string \<times> json) list \<Rightarrow> (string \<times> json) list \<Rightarrow> path \<Rightarrow> delta_op list throws" where
  "delete_keys [] after p = Inr []"
| "delete_keys ((k, v) # before) after p =
     (if al_has k after then delete_keys before after p
      else bind_throws (emitDelete (p @ [Key k])) (\<lambda>ops. bind_throws (delete_keys before after p) (\<lambda>rest. Inr (ops @ rest))))"

function (sequential) diffValue :: "nat \<Rightarrow> json option \<Rightarrow> json option \<Rightarrow> path \<Rightarrow> delta_op list throws"
  and diff_keys :: "nat \<Rightarrow> (string \<times> json) list \<Rightarrow> (string \<times> json) list \<Rightarrow> path \<Rightarrow> delta_op list throws"
  and diff_items :: "nat \<Rightarrow> nat \<Rightarrow> json list \<Rightarrow> json list \<Rightarrow> path \<Rightarrow> delta_op list throws" where
  "diffValue scan None None p = Inr []"
| "diffValue scan None (Some after) p = Inr [emitSet p after]"
| "diffValue scan (Some before) None p = emitDelete p"
| "diffValue scan (Some before) (Some after) p =
     (if strict_equal before after then Inr []
      else case after of
        JStr t \<Rightarrow> (case before of JStr s \<Rightarrow> Inr (diffString s t p scan) | _ \<Rightarrow> Inr [emitSet p after])
      | JArr ys \<Rightarrow>
          (case before of
             JArr xs \<Rightarrow>
               (let prefix = common_prefix xs ys; suffix = common_suffix prefix xs ys; shorter = min (length xs) (length ys) in
                if length xs = length ys then diff_items scan 0 xs ys p
                else if prefix + suffix = shorter
                then
                  (let remove = length xs - prefix - suffix in
                   if prefix = 0 \<and> remove = length xs then Inr [emitSet p after]
                   else Inr [SpliceAt p (int prefix) (int remove) (slice_list prefix (length ys - suffix) ys)])
                else
                  bind_throws (diff_items scan 0 xs ys p) (\<lambda>ops.
                    if length xs < length ys then Inr (ops @ [SpliceAt p (int (length xs)) 0 (drop (length xs) ys)])
                    else if ys = [] then Inr (ops @ [emitSet p after])
                    else Inr (ops @ [SpliceAt p (int (length ys)) (int (length xs - length ys)) []])))
           | _ \<Rightarrow> Inr [emitSet p after])
      | JObj n \<Rightarrow>
          (case before of
             JObj m \<Rightarrow>
               (if has_reserved m \<or> has_reserved n then Inr [emitSet p after]
                else bind_throws (diff_keys scan m n p) (\<lambda>ops.
                  bind_throws (delete_keys m n p) (\<lambda>deletions. Inr (ops @ deletions))))
           | _ \<Rightarrow> Inr [emitSet p after])
      | _ \<Rightarrow> Inr [emitSet p after])"
| "diff_keys scan m [] p = Inr []"
| "diff_keys scan m ((k, v) # n) p =
     bind_throws (diffValue scan (al_get k m) (Some v) (p @ [Key k])) (\<lambda>ops.
       bind_throws (diff_keys scan m n p) (\<lambda>rest. Inr (ops @ rest)))"
| "diff_items scan i (x # xs) (y # ys) p =
     bind_throws (diffValue scan (Some x) (Some y) (p @ [Index (int i)])) (\<lambda>ops.
       bind_throws (diff_items scan (Suc i) xs ys p) (\<lambda>rest. Inr (ops @ rest)))"
| "diff_items scan i _ _ p = Inr []"
  by pat_completeness auto
termination
  by (relation "measure (\<lambda>x. case x of
      Inl (scan, before, after, p) \<Rightarrow> (case after of None \<Rightarrow> 0 | Some v \<Rightarrow> size v)
    | Inr (Inl (scan, m, n, p)) \<Rightarrow> size_list (size_prod (\<lambda>_. 0) size) n
    | Inr (Inr (scan, i, xs, ys, p)) \<Rightarrow> size_list size ys)") auto

end
