(* ===== verification/Delta_Diff_Props.thy ===== *)
theory Delta_Diff_Props imports Delta_Diff begin

text \<open>
  Applying a difference gives the new value, up to the order of properties and the sign of zero: the equality is the
  one of the code. Each operation is described by the value it leaves at its path.
\<close>

section \<open>Equality\<close>

lemma items_equal_all2: "length xs = length ys \<Longrightarrow> items_equal xs ys \<longleftrightarrow> list_all2 jsonEqual xs ys"
  by (induction xs ys rule: list_induct2) simp_all

lemma jsonEqual_arr: "jsonEqual (JArr xs) (JArr ys) \<longleftrightarrow> list_all2 jsonEqual xs ys"
  using items_equal_all2 [of xs ys] list_all2_lengthD [of jsonEqual xs ys] by auto

lemma entries_equal_iff: "entries_equal m n \<longleftrightarrow> (\<forall>(k, v) \<in> set m. \<exists>w. al_get k n = Some w \<and> jsonEqual v w)"
  by (induction m) (auto split: option.splits)

lemma jsonEqual_obj:
  assumes "distinct (al_keys m)" and "distinct (al_keys n)"
    and "\<And>k. rel_option jsonEqual (al_get k m) (al_get k n)"
  shows "jsonEqual (JObj m) (JObj n)"
proof -
  have "k \<in> fst ` set m \<longleftrightarrow> k \<in> fst ` set n" for k
    using assms(3) [of k] unfolding al_has_iff [symmetric] al_has_def by (cases "al_get k m"; cases "al_get k n") auto
  then have "set (al_keys m) = set (al_keys n)" by auto
  then have "length m = length n" using assms(1,2) by (metis distinct_card length_map)
  moreover have "\<exists>w. al_get k n = Some w \<and> jsonEqual v w" if "(k, v) \<in> set m" for k v
  proof -
    have "al_get k m = Some v" using that al_get_Some_iff [OF assms(1)] by simp
    then show ?thesis using assms(3) [of k] by (cases "al_get k n") auto
  qed
  ultimately show ?thesis by (auto simp: entries_equal_iff)
qed

lemma jsonEqual_refl: "json_ok v \<Longrightarrow> jsonEqual v v"
proof (induction v)
  case (JNum n)
  then show ?case by (simp add: num_eq_refl_iff num_finite_not_nan)
next
  case (JArr xs)
  then show ?case by (simp add: jsonEqual_arr list_all2_same del: jsonEqual.simps)
next
  case (JObj m)
  have "rel_option jsonEqual (al_get k m) (al_get k m)" for k
  proof (cases "al_get k m")
    case (Some v)
    then have "(k, v) \<in> set m" by (rule al_get_SomeD)
    then show ?thesis using JObj Some by force
  qed simp
  then show ?case using JObj.prems by (intro jsonEqual_obj) auto
qed simp_all

lemma strict_equal_json: "strict_equal a b \<Longrightarrow> jsonEqual a b"
  by (cases a; cases b) simp_all

section \<open>Overlap\<close>

lemma probe_overlap_spec:
  "probe_overlap t head b budget = Some n \<Longrightarrow> n \<le> length b \<and> (\<exists>pre. t = pre @ take n b)"
proof (induction t head b budget rule: probe_overlap.induct)
  case (2 c t head b budget)
  show ?case
  proof (cases "startsWith (c # t) head \<and> budget \<noteq> 0 \<and> length (c # t) \<le> length b \<and> c # t = take (length (c # t)) b")
    case True
    then have "probe_overlap (c # t) head b budget = Some (length (c # t))" by (simp only: probe_overlap.simps) simp
    then have "n = length (c # t)" using 2(3) by simp
    then show ?thesis using True by (metis append_Nil)
  next
    case False
    then have "\<exists>k. probe_overlap t head b k = Some n" using 2(3) by (auto split: if_splits)
    then have "n \<le> length b \<and> (\<exists>pre. t = pre @ take n b)" using 2 False by (auto split: if_splits)
    then show ?thesis by (metis append_Cons)
  qed
qed simp

lemma probe_all_spec: "probe_all t b k hs \<le> length b \<and> (\<exists>pre. t = pre @ take (probe_all t b k hs) b)"
proof (induction t b k hs rule: probe_all.induct)
  case (2 t b k h hs)
  then show ?case using probe_overlap_spec [of t "take h b" b k] by (auto split: option.split)
qed simp

text \<open>The overlap is a suffix of the old string and a prefix of the new one.\<close>

lemma overlap_spec: "overlap a b scan \<le> length b \<and> (\<exists>pre. a = pre @ take (overlap a b scan) b)"
proof (cases "a = [] \<or> b = [] \<or> scan = 0")
  case True
  then show ?thesis by (auto simp: overlap_def)
next
  case False
  define tail where "tail = (if scan < length a then drop (length a - scan) a else a)"
  have "\<exists>pre. a = pre @ tail" unfolding tail_def by (metis append_Nil append_take_drop_id)
  moreover have "overlap a b scan = probe_all tail b 8 [min 64 (length b), 1]"
    using False by (simp add: overlap_def tail_def Let_def del: probe_all.simps)
  ultimately show ?thesis using probe_all_spec [of tail b 8 "[min 64 (length b), 1]"] by (metis append.assoc)
qed

lemma overlap_drop:
  fixes a b :: string and scan :: nat
  defines "n \<equiv> overlap a b scan"
  shows "n \<le> length a" "drop (length a - n) a = take n b" "n \<le> length b"
proof -
  obtain pre where pre: "a = pre @ take n b" and le: "n \<le> length b" using overlap_spec [of a b scan] n_def by auto
  then have "length a = length pre + n" by (metis length_append length_take min.absorb2)
  then show "n \<le> length a" "drop (length a - n) a = take n b" "n \<le> length b" using pre le by auto
qed

section \<open>Common prefixes and suffixes\<close>

lemma common_prefix_spec:
  defines "k xs ys \<equiv> common_prefix xs ys"
  shows "k xs ys \<le> length xs \<and> k xs ys \<le> length ys \<and> list_all2 jsonEqual (take (k xs ys) xs) (take (k xs ys) ys)"
  unfolding k_def by (induction xs ys rule: common_prefix.induct) simp_all

lemma common_suffix_spec:
  assumes "n = common_suffix prefix xs ys"
  shows "n \<le> length xs - prefix" "n \<le> length ys - prefix"
    "list_all2 jsonEqual (drop (length xs - n) xs) (drop (length ys - n) ys)"
proof -
  let ?a = "rev (drop prefix xs)" and ?b = "rev (drop prefix ys)"
  have c: "n \<le> length ?a" "n \<le> length ?b" "list_all2 jsonEqual (take n ?a) (take n ?b)"
    using common_prefix_spec [of ?a ?b] assms by (simp_all add: common_suffix_def)
  then show le: "n \<le> length xs - prefix" "n \<le> length ys - prefix" by simp_all
  have "take n (rev (drop prefix zs)) = rev (drop (length zs - n) zs)" if "n \<le> length zs - prefix" for zs :: "json list"
  proof (cases "prefix \<le> length zs")
    case True
    then have "length zs - prefix - n + prefix = length zs - n" using that by simp
    then show ?thesis by (simp add: take_rev)
  next
    case False
    then show ?thesis using that by simp
  qed
  then show "list_all2 jsonEqual (drop (length xs - n) xs) (drop (length ys - n) ys)" using c(3) le by simp
qed

section \<open>What each operation leaves\<close>

lemma resolve_snoc:
  assumes "resolveValue root (q @ [s]) = Inr b"
  obtains c where "resolveValue root q = Inr c" "step_to c s = Inr b"
  using assms by (auto simp: resolve_append bind_throws_eq_Inr)

lemma change_key_value:
  assumes "resolveValue root q = Inr c" and "is_container c" and "check_key s c = Inr ()"
  shows "change_key root (q @ [s]) f = bind_throws (f s c) (\<lambda>c'. Inr (put_at q c' root))"
  using assms by (simp add: change_key_def change_at_value)

lemma existing_key:
  assumes "step_to c s = Inr b"
  shows "check_key s c = Inr ()" "write_key s v c = set_child c s v" "has_own c s" "child c s = b" "is_container c"
  using assms step_to_facts [OF assms] by (cases rule: step_toE; auto simp: check_key_def write_key_def set_child_def)+

lemma safe_path_arg: "(e \<longrightarrow> p \<noteq> []) \<Longrightarrow> \<forall>s \<in> set p. safe_seg s \<Longrightarrow> assertPathArg e p = Inr ()"
  by (simp add: assertPathArg_def assertSafePath_iff)

lemma emitSet_value:
  assumes "resolveValue root p = Inr b" and "\<forall>s \<in> set p. safe_seg s"
  shows "apply_op (emitSet p v) root = Inr (put_at p v root)"
proof (cases p rule: rev_cases)
  case (snoc q s)
  then obtain c where c: "resolveValue root q = Inr c" "step_to c s = Inr b" using assms(1) resolve_snoc by blast
  note k = existing_key [OF c(2)]
  show ?thesis
    using snoc assms(2) change_key_value [OF c(1) k(5,1)] safe_path_arg [of True p] k(2) put_at_append [OF c(1), of "[s]" v]
    by (simp add: emitSet_def apply_op_def)
qed (simp add: emitSet_def apply_op_def)

lemma edit_value:
  assumes "resolveValue root p = Inr (JStr t)" and "p \<noteq> []" and "\<forall>s \<in> set p. safe_seg s"
  shows "apply_op (AppendAt p u) root = Inr (put_at p (JStr (t @ u)) root)"
    and "0 \<le> n \<Longrightarrow> apply_op (TrimAt p n) root = Inr (put_at p (JStr (drop (nat n) t)) root)"
proof -
  obtain q s where p: "p = q @ [s]" using assms(2) by (cases p rule: rev_cases) auto
  then obtain c where c: "resolveValue root q = Inr c" "step_to c s = Inr (JStr t)" using assms(1) resolve_snoc by blast
  note k = existing_key [OF c(2)]
  have e: "change_key root p (\<lambda>key. edit_string key f) = Inr (put_at p (JStr (f t)) root)" for f
    using change_key_value [OF c(1) k(5,1)] k(2-4) put_at_append [OF c(1), of "[s]" "JStr (f t)"] p by (simp add: edit_string_def)
  show "apply_op (AppendAt p u) root = Inr (put_at p (JStr (t @ u)) root)"
    using e safe_path_arg [of True p] assms(2,3) by (simp add: apply_op_def)
  show "0 \<le> n \<Longrightarrow> apply_op (TrimAt p n) root = Inr (put_at p (JStr (drop (nat n) t)) root)"
    using e safe_path_arg [of True p] assms(2,3) by (simp add: apply_op_def)
qed

lemma object_key_value:
  assumes "resolveValue root p = Inr (JObj m)" and "\<forall>s \<in> set (p @ [Key k]). safe_seg s"
  shows "apply_op (SetAt (p @ [Key k]) v) root = Inr (put_at p (JObj (al_set k v m)) root)"
    and "apply_op (DeleteAt (p @ [Key k])) root = Inr (put_at p (JObj (al_delete k m)) root)"
  using change_key_value [OF assms(1), of "Key k"] safe_path_arg [of True "p @ [Key k]"] assms(2)
  by (simp_all add: apply_op_def check_key_def write_key_def delete_key_def)

lemma splice_value:
  assumes "resolveValue root p = Inr (JArr xs)" and "\<forall>s \<in> set p. safe_seg s"
  shows "apply_op (SpliceAt p (int i) (int r) items) root = Inr (put_at p (JArr (splice i r items xs)) root)"
  using change_at_value [OF assms(1), of "splice_op (int i) (int r) items"] safe_path_arg [of False p] assms(2)
  by (simp add: apply_op_def splice_op_def spliceItems_splice)

end
