(* ===== verification/Delta_Sync.thy ===== *)
theory Delta_Sync imports Delta_Diff_Props begin

text \<open>
  A replica that applies the difference of two values reaches the new one: the induction over the diff, and the
  property.
\<close>

section \<open>Operations in sequence\<close>

definition leaves :: "json \<Rightarrow> path \<Rightarrow> delta_op list throws \<Rightarrow> json \<Rightarrow> bool" where
  "leaves root p r w \<longleftrightarrow> (\<exists>ops. r = Inr ops \<and> applyOps ops root = Inr (put_at p w root))"

lemma applyOps_Nil [simp]: "applyOps [] root = Inr root"
  by (simp add: applyOps_def)

lemma applyOps_Cons: "applyOps (op # ops) root = bind_throws (apply_op op root) (applyOps ops)"
  by (simp add: applyOps_def)

lemma applyOps_append: "applyOps (ops @ ops') root = bind_throws (applyOps ops root) (applyOps ops')"
  by (simp add: applyOps_def fold_throws_append)

lemma leaves_nothing: "resolveValue root p = Inr v \<Longrightarrow> leaves root p (Inr []) v"
  by (simp add: leaves_def put_at_same)

lemma leaves_one: "apply_op op root = Inr (put_at p w root) \<Longrightarrow> leaves root p (Inr [op]) w"
  by (simp add: leaves_def applyOps_Cons)

lemma leaves_append:
  assumes "resolveValue root p = Inr v" and "leaves root p r w" and "leaves (put_at p w root) p r' x"
  shows "leaves root p (bind_throws r (\<lambda>ops. bind_throws r' (\<lambda>ops'. Inr (ops @ ops')))) x"
  using assms(2,3) put_at_twice [OF assms(1)] by (auto simp: leaves_def applyOps_append)

lemma leaves_set:
  assumes "resolveValue root p = Inr b" and "\<forall>s \<in> set p. safe_seg s"
  shows "leaves root p (Inr [emitSet p v]) v"
  by (rule leaves_one [OF emitSet_value [OF assms]])

lemma leaves_child:
  assumes "leaves root (p @ [s]) r w" and "resolveValue root p = Inr c"
  shows "leaves root p r (set_child c s w)"
  using assms put_at_append [OF assms(2), of "[s]" w] by (auto simp: leaves_def)

section \<open>Strings\<close>

lemma leaves_string:
  assumes "resolveValue root p = Inr (JStr s)" and "\<forall>s \<in> set p. safe_seg s"
  shows "leaves root p (Inr (diffString s t p scan)) (JStr t)"
proof (cases "s = t \<or> p = []")
  case True
  then show ?thesis using leaves_nothing [OF assms(1)] leaves_set [OF assms] by (auto simp: diffString_def)
next
  case False
  then have set: "apply_op (SetAt p (JStr t)) root = Inr (put_at p (JStr t) root)"
    using emitSet_value [OF assms, of "JStr t"] by (simp add: emitSet_def)
  have edit: "apply_op (AppendAt p v) (put_at p (JStr u) root) = Inr (put_at p (JStr (u @ v)) root)"
    "apply_op (TrimAt p (int n)) root = Inr (put_at p (JStr (drop n s)) root)" for u v n
    using False edit_value [OF resolve_put_at [OF assms(1)] _ assms(2)] edit_value(2) [OF assms(1) _ assms(2), of "int n"]
      put_at_twice [OF assms(1)] by simp_all
  show ?thesis
  proof (cases "length s < length t \<and> take (length s) t = s")
    case True
    then have "t = s @ drop (length s) t" by (metis append_take_drop_id)
    then have "apply_op (AppendAt p (drop (length s) t)) root = Inr (put_at p (JStr t) root)"
      using edit_value(1) [OF assms(1) _ assms(2), of "drop (length s) t"] False by simp
    then show ?thesis using True False leaves_one by (simp add: diffString_def)
  next
    case other: False
    let ?n = "overlap s t scan"
    show ?thesis
    proof (cases "?n = 0")
      case True
      then have "diffString s t p scan = [SetAt p (JStr t)]" using False other by (auto simp: diffString_def)
      then show ?thesis using leaves_one [OF set] by simp
    next
      case shared: False
      note o = overlap_drop [of s t scan]
      have trim: "apply_op (TrimAt p (int (length s - ?n))) root = Inr (put_at p (JStr (take ?n t)) root)"
        using edit(2) [of "length s - ?n"] o(2) by simp
      have "applyOps (diffString s t p scan) root = Inr (put_at p (JStr t) root)"
        using False other shared trim edit(1) [of "drop ?n t" "take ?n t"]
        by (auto simp: diffString_def Let_def applyOps_Cons simp del: of_nat_diff)
      then show ?thesis by (simp add: leaves_def)
    qed
  qed
qed

section \<open>Objects\<close>

text \<open>What the loop over the new properties leaves, and what the deletions leave.\<close>

definition keys_left :: "(string \<times> json) list \<Rightarrow> (string \<times> json) list \<Rightarrow> (string \<times> json) list \<Rightarrow> bool" where
  "keys_left m' n m'' \<longleftrightarrow> json_ok (JObj m'') \<and>
     (\<forall>k. case al_get k n of Some v \<Rightarrow> \<exists>w. al_get k m'' = Some w \<and> jsonEqual w v | None \<Rightarrow> al_get k m'' = al_get k m')"

lemma json_ok_value: "json_ok (JObj m) \<Longrightarrow> al_get k m = Some v \<Longrightarrow> json_ok v"
  using al_get_SomeD [of k m v] by force

lemma json_ok_al_set: "json_ok (JObj m) \<Longrightarrow> json_ok v \<Longrightarrow> json_ok (JObj (al_set k v m))"
  by (induction k v m rule: al_set.induct) auto

lemma json_ok_al_delete: "json_ok (JObj m) \<Longrightarrow> json_ok (JObj (al_delete k m))"
  by (induction k m rule: al_delete.induct) (auto split: if_splits)

lemma keys_left_step:
  assumes "keys_left (al_set k w m') n m''" and "jsonEqual w v" and "al_get k n = None"
  shows "keys_left m' ((k, v) # n) m''"
  unfolding keys_left_def
proof (intro conjI allI)
  show "json_ok (JObj m'')" using assms(1) by (simp add: keys_left_def)
  fix j
  have "case al_get j n of Some v \<Rightarrow> \<exists>w. al_get j m'' = Some w \<and> jsonEqual w v | None \<Rightarrow> al_get j m'' = al_get j (al_set k w m')"
    using assms(1) unfolding keys_left_def by blast
  then show "case al_get j ((k, v) # n) of Some v \<Rightarrow> \<exists>w. al_get j m'' = Some w \<and> jsonEqual w v | None \<Rightarrow> al_get j m'' = al_get j m'"
    using assms(2,3) by (cases "j = k"; cases "al_get j n") auto
qed

lemma leaves_deletions:
  assumes "resolveValue root p = Inr (JObj m')" and "json_ok (JObj m')" and "\<forall>s \<in> set p. safe_seg s"
    and "\<forall>k \<in> set (al_keys m). k \<notin> set RESERVED_SEGMENTS"
  shows "\<exists>m''. leaves root p (delete_keys m n p) (JObj m'') \<and> json_ok (JObj m'') \<and>
    (\<forall>k. al_get k m'' = (if k \<in> set (al_keys m) \<and> \<not> al_has k n then None else al_get k m'))"
  using assms(1,2,4)
proof (induction m arbitrary: root m')
  case Nil
  then show ?case using leaves_nothing by (intro exI [of _ m']) simp
next
  case (Cons kv m)
  obtain k v where kv: "kv = (k, v)" by fastforce
  show ?case
  proof (cases "al_has k n")
    case True
    obtain m'' where m'': "leaves root p (delete_keys m n p) (JObj m'')" "json_ok (JObj m'')"
      "\<forall>j. al_get j m'' = (if j \<in> set (al_keys m) \<and> \<not> al_has j n then None else al_get j m')"
      using Cons.IH [OF Cons.prems(1,2)] Cons.prems(3) by auto
    have "al_get j m'' = (if j \<in> set (al_keys (kv # m)) \<and> \<not> al_has j n then None else al_get j m')" for j
      using m''(3) True kv by auto
    moreover have "leaves root p (delete_keys (kv # m) n p) (JObj m'')" using m''(1) True kv by simp
    ultimately show ?thesis using m''(2) by blast
  next
    case False
    let ?m = "al_delete k m'" and ?root = "put_at p (JObj (al_delete k m')) root"
    have safe: "\<forall>s \<in> set (p @ [Key k]). safe_seg s" using assms(3) Cons.prems(3) kv by auto
    have del: "leaves root p (emitDelete (p @ [Key k])) (JObj ?m)"
      using leaves_one [OF object_key_value(2) [OF Cons.prems(1) safe]] by (simp add: emitDelete_def)
    have ok: "json_ok (JObj ?m)" by (rule json_ok_al_delete [OF Cons.prems(2)])
    obtain m'' where m'': "leaves ?root p (delete_keys m n p) (JObj m'')" "json_ok (JObj m'')"
      "\<forall>j. al_get j m'' = (if j \<in> set (al_keys m) \<and> \<not> al_has j n then None else al_get j ?m)"
      using Cons.IH [OF resolve_put_at [OF Cons.prems(1)] ok] Cons.prems(3) by auto
    have "leaves root p (delete_keys (kv # m) n p) (JObj m'')"
      using leaves_append [OF Cons.prems(1) del m''(1)] False kv by simp
    moreover have "al_get j m'' = (if j \<in> set (al_keys (kv # m)) \<and> \<not> al_has j n then None else al_get j m')" for j
      using m''(3) False kv Cons.prems(2) by simp
    ultimately show ?thesis using m''(2) by blast
  qed
qed

section \<open>The diff\<close>

lemma common_ends:
  assumes "k + l = min (length xs) (length ys)" and "list_all2 jsonEqual (take k xs) (take k ys)"
    and "list_all2 jsonEqual (drop (length xs - l) xs) (drop (length ys - l) ys)" and "json_ok (JArr xs)" and "json_ok (JArr ys)"
  defines "ws \<equiv> splice k (length xs - k - l) (slice_list k (length ys - l) ys) xs"
  shows "jsonEqual (JArr ws) (JArr ys)" and "json_ok (JArr ws)"
proof -
  have le: "k + l \<le> length xs" "k + l \<le> length ys" using assms(1) by simp_all
  have ws: "ws = take k xs @ take (length ys - l - k) (drop k ys) @ drop (length xs - l) xs"
    using le by (simp add: ws_def splice_def slice_list_def)
  have ys: "ys = take k ys @ take (length ys - l - k) (drop k ys) @ drop (length ys - l) ys"
  proof -
    have "drop (length ys - l) ys = drop (length ys - l - k) (drop k ys)" using le by simp
    then show ?thesis by (metis append_take_drop_id)
  qed
  have "\<forall>y \<in> set (take (length ys - l - k) (drop k ys)). json_ok y" using assms(5) by (meson in_set_dropD in_set_takeD json_ok.simps(2))
  then have middle: "list_all2 jsonEqual (take (length ys - l - k) (drop k ys)) (take (length ys - l - k) (drop k ys))"
    using jsonEqual_refl by (simp add: list_all2_same)
  have "list_all2 jsonEqual ws (take k ys @ take (length ys - l - k) (drop k ys) @ drop (length ys - l) ys)"
    unfolding ws by (intro list_all2_appendI assms(2,3) middle)
  then show "jsonEqual (JArr ws) (JArr ys)" using ys by (simp add: jsonEqual_arr del: jsonEqual.simps)
  show "json_ok (JArr ws)" using assms(4,5) unfolding ws by (auto dest: in_set_takeD in_set_dropD)
qed

lemma array_leaves:
  assumes at: "resolveValue root p = Inr (JArr xs)" "\<forall>s \<in> set p. safe_seg s" and ok: "json_ok (JArr xs)" "json_ok (JArr ys)"
    and items: "length xs = length ys \<or>
      common_prefix xs ys + common_suffix (common_prefix xs ys) xs ys \<noteq> min (length xs) (length ys) \<Longrightarrow>
      \<exists>ws. leaves root p (diff_items scan 0 xs ys p) (JArr (ws @ drop (length ws) xs)) \<and>
        length ws = min (length xs) (length ys) \<and> list_all2 jsonEqual ws (take (length ws) ys) \<and> json_ok (JArr ws)"
  shows "\<exists>w. leaves root p (diffValue scan (Some (JArr xs)) (Some (JArr ys)) p) w \<and> jsonEqual w (JArr ys) \<and> json_ok w"
proof -
  define k where "k = common_prefix xs ys"
  define l where "l = common_suffix k xs ys"
  have set: "leaves root p (Inr [emitSet p (JArr ys)]) (JArr ys) \<and> jsonEqual (JArr ys) (JArr ys) \<and> json_ok (JArr ys)"
    using leaves_set [OF at] jsonEqual_refl [OF ok(2)] ok(2) by blast
  have k: "k \<le> length xs" "k \<le> length ys" "list_all2 jsonEqual (take k xs) (take k ys)"
    using common_prefix_spec [of xs ys] by (simp_all add: k_def)
  note l = common_suffix_spec [OF l_def]
  have eq: "diffValue scan (Some (JArr xs)) (Some (JArr ys)) p =
      (if length xs = length ys then diff_items scan 0 xs ys p
       else if k + l = min (length xs) (length ys)
       then if k = 0 \<and> length xs - k - l = length xs then Inr [emitSet p (JArr ys)]
         else Inr [SpliceAt p (int k) (int (length xs - k - l)) (slice_list k (length ys - l) ys)]
       else bind_throws (diff_items scan 0 xs ys p) (\<lambda>ops.
         if length xs < length ys then Inr (ops @ [SpliceAt p (int (length xs)) 0 (drop (length xs) ys)])
         else if ys = [] then Inr (ops @ [emitSet p (JArr ys)])
         else Inr (ops @ [SpliceAt p (int (length ys)) (int (length xs - length ys)) []])))"
    by (simp only: diffValue.simps strict_equal.simps if_False json.case Let_def k_def l_def)
  show ?thesis
  proof (cases "length xs \<noteq> length ys \<and> k + l = min (length xs) (length ys)")
    case True
    then have diff: "diffValue scan (Some (JArr xs)) (Some (JArr ys)) p =
        (if k = 0 \<and> length xs - k - l = length xs then Inr [emitSet p (JArr ys)]
         else Inr [SpliceAt p (int k) (int (length xs - k - l)) (slice_list k (length ys - l) ys)])"
      unfolding eq by (simp only: if_True if_False simp_thms)
    have "leaves root p (Inr [SpliceAt p (int k) (int (length xs - k - l)) (slice_list k (length ys - l) ys)])
        (JArr (splice k (length xs - k - l) (slice_list k (length ys - l) ys) xs))"
      by (rule leaves_one [OF splice_value [OF at]])
    note splice = this common_ends [OF conjunct2 [OF True] k(3) l(3) ok]
    show ?thesis
    proof (cases "k = 0 \<and> length xs - k - l = length xs")
      case True
      show ?thesis unfolding diff if_P [OF True] using set by blast
    next
      case False
      show ?thesis unfolding diff if_not_P [OF False] using splice by blast
    qed
  next
    case False
    then obtain ws where ws: "leaves root p (diff_items scan 0 xs ys p) (JArr (ws @ drop (length ws) xs))"
      "length ws = min (length xs) (length ys)" "list_all2 jsonEqual ws (take (length ws) ys)" "json_ok (JArr ws)"
      using items by (auto simp: k_def l_def)
    have at1: "resolveValue (put_at p (JArr (ws @ drop (length ws) xs)) root) p = Inr (JArr (ws @ drop (length ws) xs))"
      by (rule resolve_put_at [OF at(1)])
    define op where "op = (if length xs < length ys then SpliceAt p (int (length xs)) (int 0) (drop (length xs) ys)
      else if ys = [] then emitSet p (JArr ys) else SpliceAt p (int (length ys)) (int (length xs - length ys)) [])"
    have diff: "diffValue scan (Some (JArr xs)) (Some (JArr ys)) p =
        bind_throws (diff_items scan 0 xs ys p) (\<lambda>ops. bind_throws (Inr [op]) (\<lambda>ops'. Inr (ops @ ops')))" if "length xs \<noteq> length ys"
    proof -
      have ends: "k + l \<noteq> min (length xs) (length ys)" using False that by blast
      show ?thesis unfolding eq if_not_P [OF that] if_not_P [OF ends] bind_throws_Inr op_def
        by (cases "length xs < length ys"; cases "ys = []") simp_all
    qed
    have seq: "leaves root p (diffValue scan (Some (JArr xs)) (Some (JArr ys)) p) x"
      if "length xs \<noteq> length ys" "leaves (put_at p (JArr (ws @ drop (length ws) xs)) root) p (Inr [op]) x" for x
      unfolding diff [OF that(1)] by (rule leaves_append [OF at(1) ws(1) that(2)])
    show ?thesis
    proof (cases "length xs = length ys")
      case True
      then have "jsonEqual (JArr ws) (JArr ys)" using ws(2,3) by (simp add: jsonEqual_arr del: jsonEqual.simps)
      then show ?thesis unfolding eq if_P [OF True] using ws True by auto
    next
      case other: False
      show ?thesis
      proof (cases "length xs < length ys")
        case True
        have "leaves (put_at p (JArr (ws @ drop (length ws) xs)) root) p (Inr [SpliceAt p (int (length xs)) (int 0) (drop (length xs) ys)])
            (JArr (ws @ drop (length xs) ys))"
          using leaves_one [OF splice_value [OF at1 at(2), of "length xs" 0 "drop (length xs) ys"]] True ws(2) by (simp add: splice_def)
        moreover have "list_all2 jsonEqual (drop (length xs) ys) (drop (length xs) ys)"
          using ok(2) jsonEqual_refl by (auto simp: list_all2_same dest: in_set_dropD)
        then have "list_all2 jsonEqual (ws @ drop (length xs) ys) (take (length xs) ys @ drop (length xs) ys)"
          using ws(2,3) True by (intro list_all2_appendI) simp_all
        then have "jsonEqual (JArr (ws @ drop (length xs) ys)) (JArr ys)" by (simp add: jsonEqual_arr del: jsonEqual.simps)
        moreover have "json_ok (JArr (ws @ drop (length xs) ys))" using ws(4) ok(2) by (auto dest: in_set_dropD)
        moreover have "op = SpliceAt p (int (length xs)) (int 0) (drop (length xs) ys)" using True by (simp add: op_def)
        ultimately show ?thesis using seq [OF other] by metis
      next
        case shrink: False
        then have same: "jsonEqual (JArr ws) (JArr ys)" "length ws = length ys"
          using ws(2,3) by (simp_all add: jsonEqual_arr del: jsonEqual.simps)
        have "leaves (put_at p (JArr (ws @ drop (length ws) xs)) root) p (Inr [SpliceAt p (int (length ys)) (int (length xs - length ys)) []])
            (JArr ws)"
          using leaves_one [OF splice_value [OF at1 at(2), of "length ys" "length xs - length ys" "[]"]] same(2) by (simp add: splice_def)
        moreover have "leaves (put_at p (JArr (ws @ drop (length ws) xs)) root) p (Inr [emitSet p (JArr ys)]) (JArr ys)"
          by (rule leaves_set [OF at1 at(2)])
        moreover have "op = (if ys = [] then emitSet p (JArr ys) else SpliceAt p (int (length ys)) (int (length xs - length ys)) [])"
          using shrink by (simp add: op_def)
        ultimately show ?thesis using seq [OF other] set same(1) ws(4) by (cases "ys = []") metis+
      qed
    qed
  qed
qed

lemma object_leaves:
  assumes at: "resolveValue root p = Inr (JObj m)" "\<forall>s \<in> set p. safe_seg s" and ok: "json_ok (JObj m)" "json_ok (JObj n)"
    and keys: "\<not> has_reserved m \<Longrightarrow> \<not> has_reserved n \<Longrightarrow> \<exists>m'. leaves root p (diff_keys scan m n p) (JObj m') \<and> keys_left m n m'"
  shows "\<exists>w. leaves root p (diffValue scan (Some (JObj m)) (Some (JObj n)) p) w \<and> jsonEqual w (JObj n) \<and> json_ok w"
proof (cases "has_reserved m \<or> has_reserved n")
  case True
  then show ?thesis using leaves_set [OF at, of "JObj n"] jsonEqual_refl [OF ok(2)] ok(2) by auto
next
  case False
  then obtain m' where m': "leaves root p (diff_keys scan m n p) (JObj m')" "keys_left m n m'" using keys by blast
  have ok': "json_ok (JObj m')" using m'(2) by (simp add: keys_left_def)
  obtain m'' where m'': "leaves (put_at p (JObj m') root) p (delete_keys m n p) (JObj m'')" "json_ok (JObj m'')"
    "\<forall>k. al_get k m'' = (if k \<in> set (al_keys m) \<and> \<not> al_has k n then None else al_get k m')"
    using leaves_deletions [OF resolve_put_at [OF at(1)] ok' at(2), of m n] False by (auto simp: has_reserved_def)
  have "rel_option jsonEqual (al_get k m'') (al_get k n)" for k
  proof -
    have left: "case al_get k n of Some v \<Rightarrow> \<exists>w. al_get k m' = Some w \<and> jsonEqual w v | None \<Rightarrow> al_get k m' = al_get k m"
      using m'(2) unfolding keys_left_def by blast
    have "k \<in> set (al_keys m) \<longleftrightarrow> al_get k m \<noteq> None" using al_get_None_iff [of k m] by simp
    then show ?thesis using left m''(3) by (cases "al_get k n") (auto simp: al_has_def)
  qed
  then have "jsonEqual (JObj m'') (JObj n)" using m''(2) ok(2) by (intro jsonEqual_obj) auto
  moreover have "leaves root p (diffValue scan (Some (JObj m)) (Some (JObj n)) p) (JObj m'')"
    using leaves_append [OF at(1) m'(1) m''(1)] False by simp
  ultimately show ?thesis using m''(2) by blast
qed

lemma scalar_leaves:
  assumes "resolveValue root p = Inr b" and "\<forall>s \<in> set p. safe_seg s" and "json_ok a"
    and "\<not> (\<exists>xs ys. b = JArr xs \<and> a = JArr ys)" and "\<not> (\<exists>m n. b = JObj m \<and> a = JObj n)"
  shows "\<exists>w. leaves root p (diffValue scan (Some b) (Some a) p) w \<and> jsonEqual w a \<and> (w = a \<or> w = b)"
proof (cases "strict_equal b a")
  case True
  then show ?thesis using leaves_nothing [OF assms(1)] strict_equal_json by auto
next
  case False
  have set: "leaves root p (Inr [emitSet p a]) a" "jsonEqual a a" using leaves_set [OF assms(1,2)] jsonEqual_refl [OF assms(3)] by auto
  show ?thesis
  proof (cases "\<exists>s t. b = JStr s \<and> a = JStr t")
    case True
    then obtain s t where st: "b = JStr s" "a = JStr t" by blast
    then show ?thesis using False leaves_string [OF assms(1) [unfolded st(1)] assms(2), of t scan] by auto
  next
    case other: False
    then have "diffValue scan (Some b) (Some a) p = Inr [emitSet p a]" using False assms(4,5) by (cases a; cases b) auto
    then show ?thesis using set by auto
  qed
qed

text \<open>What the three functions leave at their path, for values, for properties and for items.\<close>

lemma diff_leaves:
  "resolveValue root p = Inr b \<Longrightarrow> \<forall>s \<in> set p. safe_seg s \<Longrightarrow> json_ok b \<Longrightarrow> json_ok a \<Longrightarrow> before = Some b \<Longrightarrow> after = Some a \<Longrightarrow>
    \<exists>w. leaves root p (diffValue scan before after p) w \<and> jsonEqual w a \<and> json_ok w"
  "resolveValue root' p' = Inr (JObj m') \<Longrightarrow> \<forall>s \<in> set p'. safe_seg s \<Longrightarrow> json_ok (JObj m) \<Longrightarrow> json_ok (JObj m') \<Longrightarrow>
    json_ok (JObj n) \<Longrightarrow> \<forall>k \<in> set (al_keys n). k \<notin> set RESERVED_SEGMENTS \<and> al_get k m' = al_get k m \<Longrightarrow>
    \<exists>m''. leaves root' p' (diff_keys scan m n p') (JObj m'') \<and> keys_left m' n m''"
  "resolveValue root'' p'' = Inr (JArr (pre @ xs @ post)) \<Longrightarrow> \<forall>s \<in> set p''. safe_seg s \<Longrightarrow> length pre = i \<Longrightarrow>
    json_ok (JArr xs) \<Longrightarrow> json_ok (JArr ys) \<Longrightarrow>
    \<exists>ws. leaves root'' p'' (diff_items scan i xs ys p'') (JArr (pre @ ws @ drop (length ws) xs @ post)) \<and>
      length ws = min (length xs) (length ys) \<and> list_all2 jsonEqual ws (take (length ws) ys) \<and> json_ok (JArr ws)"
proof (induction scan before after p and scan m n p' and scan i xs ys p''
    arbitrary: root b a and root' m' and root'' pre post
    rule: diffValue_diff_keys_diff_items.induct)
  case (4 scan before after p)
  have b: "before = b" "after = a" using "4.prems"(5,6) by simp_all
  show ?case
  proof (cases "(\<exists>xs ys. b = JArr xs \<and> a = JArr ys) \<or> (\<exists>m n. b = JObj m \<and> a = JObj n)")
    case False
    then have "\<exists>w. leaves root p (diffValue scan (Some b) (Some a) p) w \<and> jsonEqual w a \<and> (w = a \<or> w = b)"
      using scalar_leaves [OF "4.prems"(1,2,4)] by blast
    then show ?thesis using "4.prems"(3,4) b by blast
  next
    case True
    then consider (arrays) xs ys where "b = JArr xs" "a = JArr ys" | (objects) m n where "b = JObj m" "a = JObj n" by blast
    then show ?thesis
    proof cases
      case arrays
      note ok = "4.prems"(3,4) [unfolded arrays] and at = "4.prems"(1) [unfolded arrays(1)]
      have items: "\<exists>ws. leaves root p (diff_items scan 0 xs ys p) (JArr ([] @ ws @ drop (length ws) xs @ [])) \<and>
          length ws = min (length xs) (length ys) \<and> list_all2 jsonEqual ws (take (length ws) ys) \<and> json_ok (JArr ws)"
        if "length xs = length ys \<or> common_prefix xs ys + common_suffix (common_prefix xs ys) xs ys \<noteq> min (length xs) (length ys)"
      proof (cases "length xs = length ys")
        case True
        show ?thesis
          by (rule "4.IH"(1) [OF _ _ _ refl refl refl True])
             (use b arrays at ok "4.prems"(2) in \<open>simp_all del: json_ok.simps\<close>)
      next
        case False
        show ?thesis
          by (rule "4.IH"(2) [OF _ _ _ refl refl refl False])
             (use b arrays at ok that False "4.prems"(2) in \<open>simp_all del: json_ok.simps\<close>)
      qed
      show ?thesis unfolding b arrays by (rule array_leaves [OF at "4.prems"(2) ok]) (use items in simp)
    next
      case objects
      note ok = "4.prems"(3,4) [unfolded objects] and at = "4.prems"(1) [unfolded objects(1)]
      have keys: "\<exists>m'. leaves root p (diff_keys scan m n p) (JObj m') \<and> keys_left m n m'" if "\<not> has_reserved m" "\<not> has_reserved n"
        by (rule "4.IH"(3) [OF _ _ _ _ at])
           (use b objects ok that "4.prems"(2) in \<open>simp_all add: has_reserved_def del: json_ok.simps\<close>)
      show ?thesis unfolding b objects by (rule object_leaves [OF at "4.prems"(2) ok keys])
    qed
  qed
next
  case (5 scan m p)
  have "leaves root' p (diff_keys scan m [] p) (JObj m')" using leaves_nothing [OF "5.prems"(1)] by simp
  moreover have "keys_left m' [] m'" using "5.prems"(4) by (simp add: keys_left_def)
  ultimately show ?case by blast
next
  case (6 scan m k v n p)
  have new: "k \<notin> set RESERVED_SEGMENTS" "al_get k m' = al_get k m" "json_ok v" "al_get k n = None" "json_ok (JObj n)"
    using "6.prems"(5,6) by (auto simp: al_get_None_iff)
  have safe: "\<forall>s \<in> set (p @ [Key k]). safe_seg s" using "6.prems"(2) new(1) by simp
  have "\<exists>w. leaves root' p (diffValue scan (al_get k m) (Some v) (p @ [Key k])) (JObj (al_set k w m')) \<and> jsonEqual w v \<and> json_ok w"
  proof (cases "al_get k m")
    case None
    have "leaves root' p (Inr [SetAt (p @ [Key k]) v]) (JObj (al_set k v m'))"
      by (rule leaves_one [OF object_key_value(1) [OF "6.prems"(1) safe]])
    then show ?thesis using None new(3) jsonEqual_refl by (auto simp: emitSet_def)
  next
    case (Some b)
    have step: "step_to (JObj m') (Key k) = Inr b" using Some new(2) by (simp add: step_to_def child_def al_has_def)
    then have at: "resolveValue root' (p @ [Key k]) = Inr b" using "6.prems"(1) by (simp add: resolve_append)
    have "json_ok b" by (rule json_ok_value [OF "6.prems"(3) Some])
    then obtain w where w: "leaves root' (p @ [Key k]) (diffValue scan (al_get k m) (Some v) (p @ [Key k])) w" "jsonEqual w v" "json_ok w"
      using "6.IH"(1) [OF at safe _ new(3) Some refl] by blast
    show ?thesis using leaves_child [OF w(1) "6.prems"(1)] w(2,3) by (auto simp: set_child_def)
  qed
  then obtain w where w: "leaves root' p (diffValue scan (al_get k m) (Some v) (p @ [Key k])) (JObj (al_set k w m'))" "jsonEqual w v" "json_ok w"
    by blast
  have "\<exists>m''. leaves (put_at p (JObj (al_set k w m')) root') p (diff_keys scan m n p) (JObj m'') \<and> keys_left (al_set k w m') n m''"
    by (rule "6.IH"(2) [OF resolve_put_at [OF "6.prems"(1)] "6.prems"(2,3) json_ok_al_set [OF "6.prems"(4) w(3)] new(5)])
       (use "6.prems"(6) new(4) in \<open>auto simp: al_get_None_iff\<close>)
  then obtain m'' where m'': "leaves (put_at p (JObj (al_set k w m')) root') p (diff_keys scan m n p) (JObj m'')" "keys_left (al_set k w m') n m''"
    by blast
  have "leaves root' p (diff_keys scan m ((k, v) # n) p) (JObj m'')"
    using leaves_append [OF "6.prems"(1) w(1) m''(1)] by simp
  then show ?case using keys_left_step [OF m''(2) w(2) new(4)] by blast
next
  case (7 scan i x xs y ys p)
  have safe: "\<forall>s \<in> set (p @ [Index (int i)]). safe_seg s" using "7.prems"(2) by simp
  have step: "step_to (JArr (pre @ (x # xs) @ post)) (Index (int i)) = Inr x"
    using "7.prems"(3) by (auto simp: step_to_def child_def)
  then have at: "resolveValue root'' (p @ [Index (int i)]) = Inr x" using "7.prems"(1) by (simp add: resolve_append)
  obtain w where w: "leaves root'' (p @ [Index (int i)]) (diffValue scan (Some x) (Some y) (p @ [Index (int i)])) w" "jsonEqual w y" "json_ok w"
    using "7.IH"(1) [OF at safe _ _ refl refl] "7.prems"(4,5) by auto
  let ?root = "put_at p (JArr ((pre @ [w]) @ xs @ post)) root''"
  have one: "leaves root'' p (diffValue scan (Some x) (Some y) (p @ [Index (int i)])) (JArr ((pre @ [w]) @ xs @ post))"
    using leaves_child [OF w(1) "7.prems"(1)] "7.prems"(3) by (auto simp: set_child_def)
  obtain ws where ws: "leaves ?root p (diff_items scan (Suc i) xs ys p) (JArr ((pre @ [w]) @ ws @ drop (length ws) xs @ post))"
    "length ws = min (length xs) (length ys)" "list_all2 jsonEqual ws (take (length ws) ys)" "json_ok (JArr ws)"
    using "7.IH"(2) [OF resolve_put_at [OF "7.prems"(1)] "7.prems"(2), of "pre @ [w]" post] "7.prems"(3-5) by auto
  have "leaves root'' p (diff_items scan i (x # xs) (y # ys) p) (JArr (pre @ (w # ws) @ drop (length (w # ws)) (x # xs) @ post))"
    using leaves_append [OF "7.prems"(1) one ws(1)] by simp
  then show ?case using ws(2-4) w(2,3) by (intro exI [of _ "w # ws"]) simp
qed (simp_all add: leaves_nothing)

text \<open>
  C10: The difference of two JSON values, taken at any path of a larger value, can be applied there without an error, in
  place or to an immutable value, and leaves at that path a value the code considers equal to the new one. Nothing else
  changes.
\<close>
theorem diff_applies:
  assumes "resolveValue root p = Inr before" and "\<forall>s \<in> set p. safe_seg s" and "json_ok before" and "json_ok after"
  shows "\<exists>ops v. diffValue scan (Some before) (Some after) p = Inr ops \<and> applyOps ops root = Inr (put_at p v root) \<and>
    applyImmutable ops root = Inr (put_at p v root) \<and> jsonEqual v after"
proof -
  obtain w where "leaves root p (diffValue scan (Some before) (Some after) p) w" "jsonEqual w after"
    using diff_leaves(1) [OF assms refl refl] by blast
  moreover have "applyImmutable ops root = Inr v \<longleftrightarrow> applyOps ops root = Inr v" for ops v
    unfolding applyImmutable_def applyOps_def by (rule fold_throws_same_result) (rule apply_immutable_op_iff)
  ultimately show ?thesis by (auto simp: leaves_def)
qed

abbreviation example_before :: json where
  "example_before \<equiv> JObj [(''log'', JStr ''abc''), (''xs'', JArr [JNum (JInt 1), JNum (JInt 2), JNum (JInt 3)]), (''old'', JNull)]"

abbreviation example_after :: json where
  "example_after \<equiv> JObj [(''xs'', JArr [JNum (JInt 1), JNum (JInt 3)]), (''log'', JStr ''bcd''), (''new'', JBool True)]"

theorem diff_applies_witness:
  "diffValue 65536 (Some example_before) (Some example_after) [Key ''state''] =
      Inr [SpliceAt [Key ''state'', Key ''xs''] 1 1 [], TrimAt [Key ''state'', Key ''log''] 1, AppendAt [Key ''state'', Key ''log''] ''d'',
        SetAt [Key ''state'', Key ''new''] (JBool True), DeleteAt [Key ''state'', Key ''old'']] \<and>
    (\<exists>ops v. diffValue 65536 (Some example_before) (Some example_after) [Key ''state''] = Inr ops \<and>
      applyOps ops (JObj [(''state'', example_before)]) = Inr (put_at [Key ''state''] v (JObj [(''state'', example_before)])) \<and>
      applyImmutable ops (JObj [(''state'', example_before)]) = Inr (put_at [Key ''state''] v (JObj [(''state'', example_before)])) \<and>
      jsonEqual v example_after)"
proof
  show "diffValue 65536 (Some example_before) (Some example_after) [Key ''state''] =
      Inr [SpliceAt [Key ''state'', Key ''xs''] 1 1 [], TrimAt [Key ''state'', Key ''log''] 1, AppendAt [Key ''state'', Key ''log''] ''d'',
        SetAt [Key ''state'', Key ''new''] (JBool True), DeleteAt [Key ''state'', Key ''old'']]"
    by (simp add: common_suffix_def num_eq_def num_zero_def has_reserved_def RESERVED_SEGMENTS_def diffString_def overlap_def
        startsWith_def slice_list_def emitSet_def emitDelete_def al_has_def Let_def)
  show "\<exists>ops v. diffValue 65536 (Some example_before) (Some example_after) [Key ''state''] = Inr ops \<and>
      applyOps ops (JObj [(''state'', example_before)]) = Inr (put_at [Key ''state''] v (JObj [(''state'', example_before)])) \<and>
      applyImmutable ops (JObj [(''state'', example_before)]) = Inr (put_at [Key ''state''] v (JObj [(''state'', example_before)])) \<and>
      jsonEqual v example_after"
    by (rule diff_applies) (simp_all add: step_to_def child_def al_has_def RESERVED_SEGMENTS_def)
qed

end
