(* ===== verification/Durable_Delta.thy ===== *)
theory Durable_Delta imports Durable_Scan Delta_Sync begin

text \<open>
  The durable store and Chord together: a client that reads a document, and commits the difference to the value it wants,
  then reads that value.
\<close>

section \<open>A commit of one delta\<close>

lemma document_current:
  assumes "document s i Current = Inr (Some (r, v, x))"
  obtains d k y where "\<not> closed s" "al_get i (documents s) = Some d" "document_record d = r" "live_document d"
    "base_index (revisions d) (length (revisions d)) = Some k" "fst (revisions d ! k) = Base v y"
    "replay_revisions i v (drop (k + 1) (revisions d)) y = Inr x"
  using assms
  by (auto simp: document_def assertOpen_def Let_def isAliveAt_def visible_revisions_def bind_throws_eq_Inr
      split: if_splits option.splits document_content.splits)

lemma base_index_less: "base_index rs n = Some k \<Longrightarrow> k < n"
  by (induction n) (auto split: if_splits)

lemma base_index_prefix: "n \<le> length rs \<Longrightarrow> base_index (rs @ ss) n = base_index rs n"
  by (induction n) (simp_all add: nth_append)

lemma replay_append:
  "replay_revisions i v (rs @ [(Delta v ops, n)]) x = bind_throws (replay_revisions i v rs x) (applyImmutable ops)"
proof (induction rs arbitrary: x)
  case Nil
  then show ?case by (simp add: bind_throws_def split: sum.split)
next
  case (Cons q rs)
  then show ?case by (cases q; cases "fst q") (auto simp: bind_throws_def split: sum.split)
qed

lemma chain_last_version:
  assumes "chain_ok rs" and "base_index rs (length rs) = Some k" and "fst (rs ! k) = Base v x"
  shows "rs \<noteq> []" "content_version (fst (last rs)) = v"
proof -
  obtain j w y where j: "base_index rs (length rs) = Some j" "j < length rs" "fst (rs ! j) = Base w y"
    "\<forall>q \<in> set (drop (j + 1) rs). \<not> is_base (fst q) \<and> content_version (fst q) = w"
    using chain_split [OF assms(1)] by blast
  show "rs \<noteq> []" using j(2) by auto
  have kv: "j = k" "w = v" using j(1,3) assms(2,3) by auto
  show "content_version (fst (last rs)) = v"
  proof (cases "drop (k + 1) rs = []")
    case True
    then have "length rs = Suc k" using j(2) kv(1) by simp
    then have "last rs = rs ! k" using \<open>rs \<noteq> []\<close> by (simp add: last_conv_nth)
    then show ?thesis using assms(3) by simp
  next
    case False
    then have "last rs \<in> set (drop (k + 1) rs)" by (metis last_drop last_in_set drop_eq_Nil not_le)
    then show ?thesis using j(4) kv by blast
  qed
qed

text \<open>Such a commit passes every check, and adds the delta as the last revision.\<close>

lemma commit_delta:
  assumes "durable_ok s" and "\<not> closed s" and "al_get i (documents s) = Some d" and "live_document d"
    and "revisions d \<noteq> []" and "content_version (fst (last (revisions d))) = v"
  shows "commit [ChangeDocument i (Delta v ops)] s =
    (Inr (nextSeq s), s\<lparr>documents := al_set i (d\<lparr>revisions := revisions d @ [(Delta v ops, nextSeq s)]\<rparr>) (documents s),
      nextSeq := nextSeq s + 1\<rparr>)"
proof -
  let ?a = "\<lparr>action_create = None, action_content = Some (Delta v ops), action_retire = False\<rparr>"
  have prepare: "prepareDocumentActions [ChangeDocument i (Delta v ops)] = Inr [(i, ?a)]"
    by (simp add: prepareDocumentActions_def prepare_action_def action_of_def Let_def)
  have "checkDocumentActions s [(i, ?a)] = Inr ()"
    using assms(3-6) by (simp add: checkDocumentActions_def check_action_def Let_def)
  moreover have "applyDocumentActions [(i, ?a)] (nextSeq s) s =
      s\<lparr>documents := al_set i (d\<lparr>revisions := revisions d @ [(Delta v ops, nextSeq s)]\<rparr>) (documents s)\<rparr>"
    using assms(3) by (simp add: applyDocumentActions_def apply_action_def start_action_def finish_action_def add_revision_def)
  ultimately show ?thesis
    using assms(2) prepare by (simp add: commit_def assertOpen_def apply_record_def Let_def)
qed

text \<open>
  C18: In a store reached by any operations, let a document be read as \<open>x\<close>. The difference of \<open>x\<close> and a new value
  can be committed as a delta of the version read: the commit succeeds, and reading the document again gives, in the
  same record and version, a value the code considers equal to the new one.
\<close>
theorem committed_difference_reads_back:
  assumes "durable_steps newMemoryStorage s" and "document s i Current = Inr (Some (r, v, x))" and "json_ok x" and "json_ok y"
  shows "\<exists>ops n s' z. diffValue scan (Some x) (Some y) [] = Inr ops \<and> commit [ChangeDocument i (Delta v ops)] s = (Inr n, s') \<and>
    document s' i Current = Inr (Some (r, v, z)) \<and> jsonEqual z y"
proof -
  have ok: "durable_ok s" using steps_ok [OF assms(1) empty_ok] by blast
  obtain d k b where d: "\<not> closed s" "al_get i (documents s) = Some d" "document_record d = r" "live_document d"
    "base_index (revisions d) (length (revisions d)) = Some k" "fst (revisions d ! k) = Base v b"
    "replay_revisions i v (drop (k + 1) (revisions d)) b = Inr x"
    by (rule document_current [OF assms(2)])
  have "chain_ok (revisions d)"
    using ok d(2,4) by (auto simp: durable_ok_def histories_ok_def stored_ok_def)
  note last = chain_last_version [OF this d(5,6)]
  obtain ops z where diff: "leaves x [] (diffValue scan (Some x) (Some y) []) z" "jsonEqual z y"
    "diffValue scan (Some x) (Some y) [] = Inr ops"
    using diff_leaves(1) [of x "[]" x y "Some x" "Some y" scan] assms(3,4) by (auto simp: leaves_def)
  have "applyOps ops x = Inr z" using diff(1,3) by (simp add: leaves_def)
  then have run: "applyImmutable ops x = Inr z"
    unfolding applyImmutable_def applyOps_def
    by (rule fold_throws_same_result [THEN iffD2, rotated]) (rule apply_immutable_op_iff)
  let ?rs = "revisions d @ [(Delta v ops, nextSeq s)]"
  let ?s = "s\<lparr>documents := al_set i (d\<lparr>revisions := ?rs\<rparr>) (documents s), nextSeq := nextSeq s + 1\<rparr>"
  have k: "k < length (revisions d)" by (rule base_index_less [OF d(5)])
  have "base_index ?rs (length ?rs) = Some k" using d(5) base_index_prefix [of "length (revisions d)" "revisions d"] by simp
  moreover have "fst (?rs ! k) = Base v b" using d(6) k by (simp add: nth_append)
  moreover have "replay_revisions i v (drop (k + 1) ?rs) b = Inr z"
    using replay_append [of i v "drop (k + 1) (revisions d)" ops "nextSeq s" b] d(7) run k by simp
  ultimately have "document ?s i Current = Inr (Some (r, v, z))"
    using d(1,3,4) by (simp add: document_def assertOpen_def isAliveAt_def visible_revisions_def Let_def)
  then show ?thesis using commit_delta [OF ok d(1,2,4) last] diff(2,3) by blast
qed

theorem committed_difference_reads_back_witness:
  "\<exists>ops n s' z. diffValue 65536 (Some (JObj [(''done'', JBool True)])) (Some (JObj [(''done'', JBool False), (''note'', JStr ''x'')])) [] = Inr ops \<and>
    commit [ChangeDocument 2 (Delta 1 ops)] example_state = (Inr n, s') \<and>
    document s' 2 Current = Inr (Some (document_record (the (al_get 2 (documents example_state))), 1, z)) \<and>
    jsonEqual z (JObj [(''done'', JBool False), (''note'', JStr ''x'')])"
proof (rule committed_difference_reads_back)
  show "durable_steps newMemoryStorage example_state"
    by (rule durable_steps.commit [OF durable_steps.commit [OF durable_steps.start]])
  show "document example_state 2 Current =
      Inr (Some (document_record (the (al_get 2 (documents example_state))), 1, JObj [(''done'', JBool True)]))"
    by code_simp
qed simp_all

end
