(* ===== verification/Delta_Codec.thy ===== *)
theory Delta_Codec imports Delta_Apply begin

text \<open>
  The codec between operations and what crosses a boundary (\<open>packages/chord/src/delta/index.ts\<close>): paths are
  given an identifier on their second use, and left out when they repeat the path of the operation before. A path is its
  own key, since \<open>JSON.stringify\<close> keeps paths apart. The length of a tuple tells whether its reference is left out:
  here the reference is optional.
\<close>

section \<open>The wire\<close>

datatype path_ref = Inline path | PathId int

datatype wire_op =
    WReplace json
  | WSet "path_ref option" json
  | WDelete "path_ref option"
  | WAppend "path_ref option" string
  | WTrim "path_ref option" int
  | WSplice "path_ref option" int int "json list"
  | WPermute "path_ref option" "int list"
  | WDefine int path

section \<open>Encoding\<close>

record encoder_state =
  enc_seen :: "path list"
  enc_ids :: "(path \<times> int) list"
  enc_next :: int

definition new_encoder :: encoder_state where
  "new_encoder = \<lparr>enc_seen = [], enc_ids = [], enc_next = 0\<rparr>"

text \<open>The path of an operation that has one, and the operation with a reference in its place.\<close>

fun op_path :: "delta_op \<Rightarrow> path" where
  "op_path (Replace _) = []"
| "op_path (SetAt p _) = p"
| "op_path (DeleteAt p) = p"
| "op_path (AppendAt p _) = p"
| "op_path (TrimAt p _) = p"
| "op_path (SpliceAt p _ _ _) = p"
| "op_path (PermuteAt p _) = p"

fun with_ref :: "path_ref option \<Rightarrow> delta_op \<Rightarrow> wire_op" where
  "with_ref ref (Replace v) = WReplace v"
| "with_ref ref (SetAt _ v) = WSet ref v"
| "with_ref ref (DeleteAt _) = WDelete ref"
| "with_ref ref (AppendAt _ t) = WAppend ref t"
| "with_ref ref (TrimAt _ n) = WTrim ref n"
| "with_ref ref (SpliceAt _ i r items) = WSplice ref i r items"
| "with_ref ref (PermuteAt _ perm) = WPermute ref perm"

text \<open>The reference of a path that differs from the previous one, with what it emits first.\<close>

definition intern :: "path \<Rightarrow> encoder_state \<Rightarrow> wire_op list \<times> path_ref \<times> encoder_state" where
  "intern p e =
     (case al_get p (enc_ids e) of
        Some i \<Rightarrow> ([], PathId i, e)
      | None \<Rightarrow>
          if p \<in> set (enc_seen e)
          then ([WDefine (enc_next e) p], PathId (enc_next e),
            e\<lparr>enc_ids := al_set p (enc_next e) (enc_ids e), enc_next := enc_next e + 1\<rparr>)
          else ([], Inline p, e\<lparr>enc_seen := p # enc_seen e\<rparr>))"

fun encode_ops :: "delta_op list \<Rightarrow> path option \<Rightarrow> encoder_state \<Rightarrow> wire_op list \<times> encoder_state" where
  "encode_ops [] previous e = ([], e)"
| "encode_ops (op # ops) previous e =
     (if isReplace op
      then (case encode_ops ops None new_encoder of (out, e') \<Rightarrow> (with_ref None op # out, e'))
      else if previous = Some (op_path op)
      then (case encode_ops ops previous e of (out, e') \<Rightarrow> (with_ref None op # out, e'))
      else
        (case intern (op_path op) e of (defs, ref, e1) \<Rightarrow>
           case encode_ops ops (Some (op_path op)) e1 of (out, e') \<Rightarrow> (defs @ with_ref (Some ref) op # out, e')))"

definition encode :: "delta_op list \<Rightarrow> encoder_state \<Rightarrow> wire_op list \<times> encoder_state" where
  "encode ops e = encode_ops ops None e"

section \<open>Decoding\<close>

definition ok_ref :: "path_ref option \<Rightarrow> unit throws" where
  "ok_ref r = (case r of
     None \<Rightarrow> Inr ()
   | Some (PathId i) \<Rightarrow> if i < 0 then Inl ''bad path id'' else Inr ()
   | Some (Inline p) \<Rightarrow> assertSafePath p)"

fun assertValidWireOp :: "wire_op \<Rightarrow> unit throws" where
  "assertValidWireOp (WReplace _) = Inr ()"
| "assertValidWireOp (WSet r _) = ok_ref r"
| "assertValidWireOp (WDelete r) = ok_ref r"
| "assertValidWireOp (WAppend r _) = ok_ref r"
| "assertValidWireOp (WTrim r n) = bind_throws (ok_ref r) (\<lambda>_. if n < 0 then Inl ''t count'' else Inr ())"
| "assertValidWireOp (WSplice r i n _) =
     bind_throws (ok_ref r) (\<lambda>_. if i < 0 then Inl ''p index'' else if n < 0 then Inl ''p remove'' else Inr ())"
| "assertValidWireOp (WPermute r perm) = bind_throws (ok_ref r) (\<lambda>_. assertPermutation perm)"
| "assertValidWireOp (WDefine i p) = (if i < 0 then Inl ''# shape'' else assertSafePath p)"

type_synonym path_table = "(int \<times> path) list"

text \<open>The path a reference stands for: the previous one when it is left out.\<close>

definition deref :: "path_table \<Rightarrow> path option \<Rightarrow> path_ref option \<Rightarrow> path throws" where
  "deref paths previous r =
     (case r of
        None \<Rightarrow> (case previous of None \<Rightarrow> Inl PathError | Some p \<Rightarrow> Inr p)
      | Some (PathId i) \<Rightarrow> (case al_get i paths of None \<Rightarrow> Inl PathError | Some p \<Rightarrow> Inr p)
      | Some (Inline p) \<Rightarrow> Inr p)"

fun wire_ref :: "wire_op \<Rightarrow> path_ref option" where
  "wire_ref (WSet r _) = r"
| "wire_ref (WDelete r) = r"
| "wire_ref (WAppend r _) = r"
| "wire_ref (WTrim r _) = r"
| "wire_ref (WSplice r _ _ _) = r"
| "wire_ref (WPermute r _) = r"
| "wire_ref _ = None"

text \<open>The operation at its path; only splices and permutations may be at the root.\<close>

fun at_path :: "path \<Rightarrow> wire_op \<Rightarrow> delta_op throws" where
  "at_path p (WSplice _ i r items) = Inr (SpliceAt p i r items)"
| "at_path p (WPermute _ perm) = Inr (PermuteAt p perm)"
| "at_path p (WSet _ v) = (if p = [] then Inl PathError else Inr (SetAt p v))"
| "at_path p (WDelete _) = (if p = [] then Inl PathError else Inr (DeleteAt p))"
| "at_path p (WAppend _ t) = (if p = [] then Inl PathError else Inr (AppendAt p t))"
| "at_path p (WTrim _ n) = (if p = [] then Inl PathError else Inr (TrimAt p n))"
| "at_path p _ = Inl PathError"

fun decode_ops :: "wire_op list \<Rightarrow> path option \<Rightarrow> path_table \<Rightarrow> (delta_op list throws) \<times> path_table" where
  "decode_ops [] previous paths = (Inr [], paths)"
| "decode_ops (w # ws) previous paths =
     (case assertValidWireOp w of
        Inl err \<Rightarrow> (Inl err, paths)
      | Inr _ \<Rightarrow>
          (case w of
             WDefine i p \<Rightarrow> decode_ops ws previous (al_set i p paths)
           | WReplace v \<Rightarrow>
               (case decode_ops ws None [] of (r, paths') \<Rightarrow> (bind_throws r (\<lambda>ops. Inr (Replace v # ops)), paths'))
           | _ \<Rightarrow>
               (case deref paths previous (wire_ref w) of
                  Inl err \<Rightarrow> (Inl err, paths)
                | Inr p \<Rightarrow>
                    (case at_path p w of
                       Inl err \<Rightarrow> (Inl err, paths)
                     | Inr op \<Rightarrow>
                         (case decode_ops ws (Some p) paths of
                            (r, paths') \<Rightarrow> (bind_throws r (\<lambda>ops. Inr (op # ops)), paths'))))))"

definition decode :: "wire_op list \<Rightarrow> path_table \<Rightarrow> (delta_op list throws) \<times> path_table" where
  "decode ws paths = decode_ops ws None paths"

text \<open>A stream of batches between one encoder and one decoder.\<close>

fun encode_all :: "delta_op list list \<Rightarrow> encoder_state \<Rightarrow> wire_op list list" where
  "encode_all [] e = []"
| "encode_all (ops # batches) e = (case encode ops e of (ws, e') \<Rightarrow> ws # encode_all batches e')"

fun decode_all :: "wire_op list list \<Rightarrow> path_table \<Rightarrow> delta_op list list throws" where
  "decode_all [] paths = Inr []"
| "decode_all (ws # batches) paths =
     (case decode ws paths of (r, paths') \<Rightarrow>
       bind_throws r (\<lambda>ops. bind_throws (decode_all batches paths') (\<lambda>rest. Inr (ops # rest))))"

section \<open>Both ends agree\<close>

definition tables_agree :: "encoder_state \<Rightarrow> path_table \<Rightarrow> bool" where
  "tables_agree e paths \<longleftrightarrow> 0 \<le> enc_next e \<and>
     (\<forall>p i. al_get p (enc_ids e) = Some i \<longrightarrow> 0 \<le> i \<and> i < enc_next e \<and> al_get i paths = Some p)"

lemma tables_agree_new [simp]: "tables_agree new_encoder paths"
  by (simp add: tables_agree_def new_encoder_def)

lemma op_path_valid:
  assumes "assertValidOp op = Inr ()"
  shows "assertSafePath (op_path op) = Inr ()"
  using assms by (cases op) (auto simp: assertPathArg_def bind_throws_eq_Inr split: if_splits)

lemma with_ref_facts:
  assumes "assertValidOp op = Inr ()" and "\<not> isReplace op" and "ok_ref r = Inr ()"
  shows "assertValidWireOp (with_ref r op) = Inr ()" "wire_ref (with_ref r op) = r" "at_path (op_path op) (with_ref r op) = Inr op"
    "\<nexists>i p. with_ref r op = WDefine i p" "\<nexists>v. with_ref r op = WReplace v"
  using assms by (cases op; auto simp: assertPathArg_def bind_throws_eq_Inr split: if_splits)+

lemma decode_path_op:
  assumes "assertValidWireOp w = Inr ()" and "\<nexists>i p. w = WDefine i p" and "\<nexists>v. w = WReplace v"
  shows "decode_ops (w # ws) previous paths =
    (case deref paths previous (wire_ref w) of
       Inl err \<Rightarrow> (Inl err, paths)
     | Inr p \<Rightarrow>
         (case at_path p w of
            Inl err \<Rightarrow> (Inl err, paths)
          | Inr op \<Rightarrow> (case decode_ops ws (Some p) paths of (r, paths') \<Rightarrow> (bind_throws r (\<lambda>ops. Inr (op # ops)), paths'))))"
  using assms by (cases w; simp split: sum.split)

lemma decode_with_ref:
  assumes "assertValidOp op = Inr ()" and "\<not> isReplace op" and "ok_ref r = Inr ()" and "deref paths previous r = Inr (op_path op)"
  shows "decode_ops (with_ref r op # ws) previous paths =
    (case decode_ops ws (Some (op_path op)) paths of (res, paths') \<Rightarrow> (bind_throws res (\<lambda>ops. Inr (op # ops)), paths'))"
proof -
  note f = with_ref_facts [OF assms(1-3)]
  show ?thesis unfolding decode_path_op [OF f(1,4,5)] f(2,3) assms(4) sum.case ..
qed

lemma intern_agrees:
  assumes "tables_agree e paths" and "intern p e = (defs, ref, e1)" and "assertSafePath p = Inr ()"
  shows "\<exists>paths1. (\<forall>ws previous. decode_ops (defs @ ws) previous paths = decode_ops ws previous paths1) \<and> tables_agree e1 paths1 \<and>
    ok_ref (Some ref) = Inr () \<and> (\<forall>previous. deref paths1 previous (Some ref) = Inr p)"
proof (cases "al_get p (enc_ids e)")
  case (Some i)
  then have "0 \<le> i" "al_get i paths = Some p" using assms(1) by (simp_all add: tables_agree_def)
  then show ?thesis using Some assms by (intro exI [of _ paths]) (auto simp: intern_def ok_ref_def deref_def)
next
  case None
  show ?thesis
  proof (cases "p \<in> set (enc_seen e)")
    case True
    then have eq: "defs = [WDefine (enc_next e) p]" "ref = PathId (enc_next e)"
      "e1 = e\<lparr>enc_ids := al_set p (enc_next e) (enc_ids e), enc_next := enc_next e + 1\<rparr>"
      using None assms(2) by (auto simp: intern_def)
    have "0 \<le> enc_next e" using assms(1) by (simp add: tables_agree_def)
    moreover have "tables_agree e1 (al_set (enc_next e) p paths)"
      using assms(1) by (fastforce simp: tables_agree_def eq(3))
    ultimately show ?thesis using assms(3) eq
      by (intro exI [of _ "al_set (enc_next e) p paths"]) (auto simp: ok_ref_def deref_def)
  next
    case False
    then show ?thesis using None assms
      by (intro exI [of _ paths]) (auto simp: intern_def tables_agree_def ok_ref_def deref_def)
  qed
qed

lemma decode_encode_ops:
  assumes "\<forall>op \<in> set ops. assertValidOp op = Inr ()" and "tables_agree e paths \<or> isBase ops" and "encode_ops ops previous e = (ws, e')"
  shows "\<exists>paths'. decode_ops ws previous paths = (Inr ops, paths') \<and> tables_agree e' paths'"
  using assms
proof (induction ops previous e arbitrary: paths ws e' rule: encode_ops.induct)
  case (1 previous e)
  then show ?case by (auto simp: isBase_def)
next
  case (2 op ops previous e)
  have valid: "assertValidOp op = Inr ()" "\<forall>op \<in> set ops. assertValidOp op = Inr ()" using "2.prems"(1) by simp_all
  show ?case
  proof (cases "isReplace op")
    case True
    then obtain v where op: "op = Replace v" by (cases op) auto
    obtain out e1 where out: "encode_ops ops None new_encoder = (out, e1)" by fastforce
    obtain paths' where "decode_ops out None [] = (Inr ops, paths')" "tables_agree e1 paths'"
      using "2.IH"(1) [OF True valid(2) _ out, of "[]"] by auto
    then show ?thesis using "2.prems"(3) op out by auto
  next
    case False
    then have agree: "tables_agree e paths" using "2.prems"(2) by (auto simp: isBase_def)
    show ?thesis
    proof (cases "previous = Some (op_path op)")
      case same: True
      obtain out e1 where out: "encode_ops ops previous e = (out, e1)" by fastforce
      then have ws: "ws = with_ref None op # out" "e' = e1" using "2.prems"(3) False same by auto
      obtain paths' where p: "decode_ops out previous paths = (Inr ops, paths')" "tables_agree e1 paths'"
        using "2.IH"(2) [OF False same valid(2) _ out] agree by blast
      have "decode_ops ws previous paths = (Inr (op # ops), paths')"
        using decode_with_ref [OF valid(1) False, of None paths previous out] p(1) same ws(1) by (simp add: ok_ref_def deref_def)
      then show ?thesis using p(2) ws(2) by blast
    next
      case other: False
      obtain defs ref e1 where i: "intern (op_path op) e = (defs, ref, e1)" by (metis prod_cases3)
      obtain out e2 where out: "encode_ops ops (Some (op_path op)) e1 = (out, e2)" by fastforce
      have ws: "ws = defs @ with_ref (Some ref) op # out" "e' = e2" using "2.prems"(3) False other i out by auto
      obtain paths1 where p1: "\<forall>ws previous. decode_ops (defs @ ws) previous paths = decode_ops ws previous paths1" "tables_agree e1 paths1"
        "ok_ref (Some ref) = Inr ()" "\<forall>previous. deref paths1 previous (Some ref) = Inr (op_path op)"
        using intern_agrees [OF agree i op_path_valid [OF valid(1)]] by blast
      obtain paths' where p: "decode_ops out (Some (op_path op)) paths1 = (Inr ops, paths')" "tables_agree e2 paths'"
        using "2.IH"(3) [OF False other i [symmetric] refl valid(2) _ out] p1(2) by blast
      have "decode_ops (with_ref (Some ref) op # out) previous paths1 = (Inr (op # ops), paths')"
        using decode_with_ref [OF valid(1) False p1(3), of paths1 previous out] p1(4) p(1) by simp
      then show ?thesis using p1(1) p(2) ws by simp
    qed
  qed
qed

lemma decode_encode_all:
  assumes "\<forall>ops \<in> set batches. \<forall>op \<in> set ops. assertValidOp op = Inr ()"
    and "tables_agree e paths \<or> batches \<noteq> [] \<and> isBase (hd batches)"
  shows "decode_all (encode_all batches e) paths = Inr batches"
  using assms
proof (induction batches arbitrary: e paths)
  case (Cons ops batches)
  obtain ws e' where w: "encode_ops ops None e = (ws, e')" by fastforce
  obtain paths' where p: "decode_ops ws None paths = (Inr ops, paths')" "tables_agree e' paths'"
  proof -
    have "\<exists>paths'. decode_ops ws None paths = (Inr ops, paths') \<and> tables_agree e' paths'"
      by (rule decode_encode_ops [OF _ _ w]) (use Cons.prems in auto)
    then show thesis using that by blast
  qed
  have "decode_all (encode_all batches e') paths' = Inr batches" using Cons.IH Cons.prems(1) p(2) by simp
  then show ?case using w p(1) by (simp add: encode_def decode_def)
qed simp

text \<open>
  C16: A decoder gives back exactly the batches its encoder was given, whatever paths repeat within and across batches, when
  both start fresh; and a decoder in any state does from the first batch that starts with a replacement on, whatever
  the encoder sent before: a base batch is a point of recovery.
\<close>
theorem codec_round_trip:
  assumes "\<forall>ops \<in> set batches. \<forall>op \<in> set ops. assertValidOp op = Inr ()"
    and "e = new_encoder \<and> paths = [] \<or> batches \<noteq> [] \<and> isBase (hd batches)"
  shows "decode_all (encode_all batches e) paths = Inr batches"
  by (rule decode_encode_all [OF assms(1)]) (use assms(2) in auto)

abbreviation example_batches :: "delta_op list list" where
  "example_batches \<equiv>
     [[Replace (JObj []), SetAt [Key ''a''] (JStr ''x''), AppendAt [Key ''a''] ''y'', SetAt [Key ''b''] JNull, DeleteAt [Key ''a'']],
      [AppendAt [Key ''a''] ''z'', SetAt [Key ''b''] JNull]]"

theorem codec_round_trip_witness:
  "encode_all example_batches new_encoder =
     [[WReplace (JObj []), WSet (Some (Inline [Key ''a''])) (JStr ''x''), WAppend None ''y'', WSet (Some (Inline [Key ''b''])) JNull,
       WDefine 0 [Key ''a''], WDelete (Some (PathId 0))],
      [WAppend (Some (PathId 0)) ''z'', WDefine 1 [Key ''b''], WSet (Some (PathId 1)) JNull]] \<and>
   decode_all (encode_all example_batches new_encoder) [(0, [Key ''stale''])] = Inr example_batches"
proof
  show "encode_all example_batches new_encoder =
     [[WReplace (JObj []), WSet (Some (Inline [Key ''a''])) (JStr ''x''), WAppend None ''y'', WSet (Some (Inline [Key ''b''])) JNull,
       WDefine 0 [Key ''a''], WDelete (Some (PathId 0))],
      [WAppend (Some (PathId 0)) ''z'', WDefine 1 [Key ''b''], WSet (Some (PathId 1)) JNull]]"
    by (simp add: encode_def intern_def new_encoder_def)
  show "decode_all (encode_all example_batches new_encoder) [(0, [Key ''stale''])] = Inr example_batches"
    by (rule codec_round_trip) (simp_all add: assertPathArg_def RESERVED_SEGMENTS_def isBase_def)
qed

end
