(* ===== verification/Delta_Safety.thy ===== *)
theory Delta_Safety imports Delta_Paths begin

text \<open>
  Operations arrive from parties that are not trusted. Whatever they are, applying them keeps JSON values well formed,
  and never writes a property that names the prototype chain.
\<close>

section \<open>Names\<close>

lemma set_show_nat: "set (show_nat n) \<subseteq> digit_char ` {..<10}"
proof (induction n rule: show_nat.induct)
  case (1 n)
  show ?case
  proof (cases "n < 10")
    case False
    then show ?thesis using 1 by (subst show_nat.simps) auto
  qed (subst show_nat.simps, simp)
qed

lemma show_nat_not_reserved: "show_nat n \<notin> set RESERVED_SEGMENTS"
proof
  assume "show_nat n \<in> set RESERVED_SEGMENTS"
  then have "CHR ''_'' \<in> set (show_nat n) \<or> CHR ''o'' \<in> set (show_nat n)" by (auto simp: RESERVED_SEGMENTS_def)
  then obtain d where "d < 10" "digit_char d = CHR ''_'' \<or> digit_char d = CHR ''o''" using set_show_nat by fastforce
  then have "(of_char (digit_char d) :: nat) < 58" "(of_char (digit_char d) :: nat) = 95 \<or> (of_char (digit_char d) :: nat) = 111"
    using of_char_digit_char [of d] by auto
  then show False by linarith
qed

lemma safe_name: "safe_seg s \<Longrightarrow> seg_name s \<notin> set RESERVED_SEGMENTS"
  by (cases s) (simp_all add: show_int_def show_nat_not_reserved)

section \<open>Properties of trees\<close>

lemma permutation_range: "check_permutation n seen js = Inr () \<Longrightarrow> \<forall>i \<in> set js. 0 \<le> i \<and> i < int n"
  by (induction n seen js rule: check_permutation.induct) (auto split: if_splits)

text \<open>
  A property of values that holds of a container exactly when it holds of its children and of the names it has: both
  properties below are of this kind.
\<close>

locale tree_property =
  fixes ok :: "json \<Rightarrow> bool" and names_ok :: "string list \<Rightarrow> bool"
  assumes ok_arr: "ok (JArr xs) \<longleftrightarrow> (\<forall>x \<in> set xs. ok x)"
    and ok_obj: "ok (JObj m) \<longleftrightarrow> names_ok (al_keys m) \<and> (\<forall>v \<in> snd ` set m. ok v)"
    and ok_str: "ok (JStr t)"
    and names_set: "names_ok (al_keys m) \<Longrightarrow> k \<notin> set RESERVED_SEGMENTS \<or> k \<in> fst ` set m \<Longrightarrow> names_ok (al_keys (al_set k v m))"
    and names_delete: "names_ok (al_keys m) \<Longrightarrow> names_ok (al_keys (al_delete k m))"
begin

lemma ok_child: "ok c \<Longrightarrow> step_to c s = Inr v \<Longrightarrow> ok v"
  by (erule step_toE) (auto simp: ok_arr ok_obj dest!: al_get_SomeD intro: rev_image_eqI)

lemma ok_al_set:
  assumes "ok (JObj m)" and "ok v" and "k \<notin> set RESERVED_SEGMENTS \<or> k \<in> fst ` set m"
  shows "ok (JObj (al_set k v m))"
proof -
  have "snd ` set (al_set k v m) \<subseteq> insert v (snd ` set m)" by (induction k v m rule: al_set.induct) auto
  then have "\<forall>x \<in> snd ` set (al_set k v m). ok x" using assms(1,2) unfolding ok_obj by blast
  then show ?thesis using assms(1,3) names_set unfolding ok_obj by blast
qed

lemma ok_al_delete: "ok (JObj m) \<Longrightarrow> ok (JObj (al_delete k m))"
proof -
  assume a: "ok (JObj m)"
  have "snd ` set (al_delete k m) \<subseteq> snd ` set m" by (induction k m rule: al_delete.induct) auto
  then have "\<forall>x \<in> snd ` set (al_delete k m). ok x" using a unfolding ok_obj by blast
  then show ?thesis using a names_delete unfolding ok_obj by blast
qed

lemma ok_set_child:
  assumes "ok c" and "step_to c s = Inr b" and "ok v"
  shows "ok (set_child c s v)"
  using assms(2)
proof (cases rule: step_toE)
  case (array xs i)
  then show ?thesis using assms(1,3) by (auto simp: set_child_def ok_arr dest!: set_update_subset_insert [THEN subsetD])
next
  case (object m)
  then have "seg_name s \<in> fst ` set m" using al_get_None_iff [of "seg_name s" m] by auto
  then show ?thesis using ok_al_set assms(1,3) object by (simp add: set_child_def)
qed

lemma ok_resolve: "ok root \<Longrightarrow> resolveValue root p = Inr v \<Longrightarrow> ok v"
proof (induction p arbitrary: root)
  case (Cons s p)
  then obtain c where "step_to root s = Inr c" "resolveValue c p = Inr v" by (auto simp: bind_throws_eq_Inr)
  then show ?case using Cons.IH ok_child Cons.prems(1) by blast
qed simp

lemma ok_put_at: "ok root \<Longrightarrow> resolveValue root p = Inr c \<Longrightarrow> ok v \<Longrightarrow> ok (put_at p v root)"
proof (induction p arbitrary: root)
  case (Cons s p)
  then obtain b where b: "step_to root s = Inr b" "resolveValue b p = Inr c" by (auto simp: bind_throws_eq_Inr)
  have "ok (put_at p v b)" by (rule Cons.IH [OF ok_child [OF Cons.prems(1) b(1)] b(2) Cons.prems(3)])
  then show ?case using ok_set_child [OF Cons.prems(1) b(1)] step_to_facts(2) [OF b(1)] by simp
qed simp

lemma ok_change_at:
  assumes "ok root" and "change_at root p f = Inr v" and "\<And>c c'. ok c \<Longrightarrow> f c = Inr c' \<Longrightarrow> ok c'"
  shows "ok v"
proof -
  obtain c c' where c: "resolveValue root p = Inr c" "f c = Inr c'" "v = put_at p c' root"
    using assms(2) by (auto simp: change_at_def resolve_def bind_throws_eq_Inr split: if_splits)
  have "ok c'" by (rule assms(3) [OF ok_resolve [OF assms(1) c(1)] c(2)])
  then show ?thesis using ok_put_at [OF assms(1) c(1)] c(3) by simp
qed

lemma ok_write_key:
  assumes "ok c" and "ok v" and "safe_seg s"
  shows "ok (write_key s v c)"
proof (cases c)
  case (JArr xs)
  then show ?thesis using assms(1,2)
    by (cases s) (auto simp: write_key_def ok_arr dest!: set_update_subset_insert [THEN subsetD])
next
  case (JObj m)
  then show ?thesis using assms ok_al_set safe_name by (simp add: write_key_def)
qed (use assms(1) in \<open>simp_all add: write_key_def\<close>)

lemma ok_splice: "ok (JArr xs) \<Longrightarrow> \<forall>x \<in> set items. ok x \<Longrightarrow> ok (JArr (splice i r items xs))"
proof -
  assume a: "ok (JArr xs)" "\<forall>x \<in> set items. ok x"
  have "set (splice i r items xs) \<subseteq> set xs \<union> set items" by (auto simp: splice_def dest: in_set_takeD in_set_dropD)
  then show ?thesis using a unfolding ok_arr by blast
qed

lemma ok_delete_key: "ok c \<Longrightarrow> delete_key s c = Inr c' \<Longrightarrow> ok c'"
  using ok_splice [of _ "[]"] ok_al_delete by (cases c; cases s) (auto simp: delete_key_def split: if_splits)

lemma ok_edit_string: "ok c \<Longrightarrow> safe_seg s \<Longrightarrow> edit_string s f c = Inr c' \<Longrightarrow> ok c'"
  by (auto simp: edit_string_def ok_write_key ok_str split: if_splits json.splits)

lemma ok_permute:
  assumes "ok c" and "\<forall>i \<in> set perm. 0 \<le> i \<and> i < int (length perm)" and "permute_op perm c = Inr c'"
  shows "ok c'"
proof -
  obtain xs where c: "c = JArr xs" "length xs = length perm" "c' = JArr (map (\<lambda>i. xs ! nat i) perm)"
    using assms(3) by (cases c) (auto simp: permute_op_def split: if_splits)
  have "xs ! nat i \<in> set xs" if "i \<in> set perm" for i
  proof (rule nth_mem)
    have "0 \<le> i \<and> i < int (length perm)" using assms(2) that by blast
    then show "nat i < length xs" using c(2) by linarith
  qed
  then show ?thesis using assms(1) c by (simp add: ok_arr)
qed

fun payload_ok :: "delta_op \<Rightarrow> bool" where
  "payload_ok (Replace v) = ok v"
| "payload_ok (SetAt _ v) = ok v"
| "payload_ok (SpliceAt _ _ _ items) = (\<forall>x \<in> set items. ok x)"
| "payload_ok _ = True"

lemma ok_change_key:
  assumes "ok root" and "change_key root p f = Inr v" and "\<And>c c'. ok c \<Longrightarrow> f (last p) c = Inr c' \<Longrightarrow> ok c'"
  shows "ok v"
  using assms(2) unfolding change_key_def
  by (rule ok_change_at [OF assms(1)]) (use assms(3) in \<open>auto simp: bind_throws_eq_Inr\<close>)

lemma ok_apply_op:
  assumes "ok root" and "payload_ok op" and "apply_op op root = Inr v"
  shows "ok v"
proof -
  have valid: "assertValidOp op = Inr ()" using assms(3) by (simp add: apply_op_def bind_throws_eq_Inr)
  have safe_last: "safe_seg (last p)" if "assertPathArg True p = Inr ()" for p
    using that by (auto simp: assertPathArg_def assertSafePath_iff split: if_splits)
  show ?thesis
  proof (cases op)
    case (SetAt p x)
    then have "change_key root p (\<lambda>key parent. Inr (write_key key x parent)) = Inr v" using assms(3) valid by (simp add: apply_op_def)
    then show ?thesis by (rule ok_change_key [OF assms(1)]) (use ok_write_key safe_last valid assms(2) SetAt in auto)
  next
    case (DeleteAt p)
    then have "change_key root p delete_key = Inr v" using assms(3) valid by (simp add: apply_op_def)
    then show ?thesis by (rule ok_change_key [OF assms(1)]) (rule ok_delete_key)
  next
    case (AppendAt p t)
    then have "change_key root p (\<lambda>key. edit_string key (\<lambda>u. u @ t)) = Inr v" "assertPathArg True p = Inr ()"
      using assms(3) valid by (simp_all add: apply_op_def)
    then show ?thesis using ok_change_key [OF assms(1)] ok_edit_string safe_last by blast
  next
    case (TrimAt p n)
    then have "change_key root p (\<lambda>key. edit_string key (drop (nat n))) = Inr v" "assertPathArg True p = Inr ()"
      using assms(3) valid by (simp_all add: apply_op_def split: if_splits)
    then show ?thesis using ok_change_key [OF assms(1)] ok_edit_string safe_last by blast
  next
    case (SpliceAt p i r items)
    then have "change_at root p (splice_op i r items) = Inr v" using assms(3) valid by (simp add: apply_op_def)
    then show ?thesis
      by (rule ok_change_at [OF assms(1)])
         (use assms(2) SpliceAt ok_splice in \<open>auto simp: splice_op_def spliceItems_splice split: json.splits\<close>)
  next
    case (PermuteAt p perm)
    then have "change_at root p (permute_op perm) = Inr v" "check_permutation (length perm) [] perm = Inr ()"
      using assms(3) valid by (simp_all add: apply_op_def assertPermutation_def bind_throws_eq_Inr)
    then show ?thesis using ok_change_at [OF assms(1)] ok_permute permutation_range by blast
  qed (use assms valid in \<open>simp_all add: apply_op_def\<close>)
qed

lemma ok_applyOps:
  assumes "ok root" and "\<forall>op \<in> set ops. payload_ok op" and "applyOps ops root = Inr v"
  shows "ok v"
  by (rule fold_throws_invariant [where P = ok, OF assms(3) [unfolded applyOps_def] assms(1)])
     (use assms(2) ok_apply_op in blast)

end

text \<open>Both properties of values are such properties.\<close>

interpretation formed: tree_property json_ok distinct
  by unfold_locales simp_all

lemma al_keys_delete_subset: "set (al_keys (al_delete k m)) \<subseteq> set (al_keys m)"
  by (induction k m rule: al_delete.induct) auto

interpretation pure: tree_property unpolluted "\<lambda>ks. set ks \<inter> set RESERVED_SEGMENTS = {}"
proof
  show "set (al_keys (al_delete k m)) \<inter> set RESERVED_SEGMENTS = {}" if "set (al_keys m) \<inter> set RESERVED_SEGMENTS = {}"
    for k and m :: "(string \<times> json) list" using that al_keys_delete_subset [of k m] by blast
qed auto

text \<open>What an operation carries.\<close>

fun op_values :: "delta_op \<Rightarrow> json list" where
  "op_values (Replace v) = [v]"
| "op_values (SetAt _ v) = [v]"
| "op_values (SpliceAt _ _ _ items) = items"
| "op_values _ = []"

lemma formed_payload: "formed.payload_ok op \<longleftrightarrow> (\<forall>v \<in> set (op_values op). json_ok v)"
  by (cases op) simp_all

lemma pure_payload: "pure.payload_ok op \<longleftrightarrow> (\<forall>v \<in> set (op_values op). unpolluted v)"
  by (cases op) simp_all

text \<open>
  C37: Whatever operations arrive, with whatever paths, if applying them gives a value then that value is well-formed JSON
  when the operations carry well-formed values, and no object in it, at any depth, has a property named
  \<open>__proto__\<close>, \<open>constructor\<close> or \<open>prototype\<close> unless a value they carry, or the old value, had one.
\<close>
theorem apply_keeps_values_safe:
  assumes "applyImmutable ops root = Inr v" and "json_ok root" and "\<forall>op \<in> set ops. \<forall>x \<in> set (op_values op). json_ok x"
  shows "json_ok v \<and> ((\<forall>x \<in> set (root # concat (map op_values ops)). unpolluted x) \<longrightarrow> unpolluted v)"
proof -
  have v: "applyOps ops root = Inr v"
    using assms(1) unfolding applyImmutable_def applyOps_def by (rule fold_throws_same_result [THEN iffD1, rotated]) (rule apply_immutable_op_iff)
  have "json_ok v" using formed.ok_applyOps [OF assms(2) _ v] assms(3) formed_payload by blast
  moreover have "unpolluted v" if "\<forall>x \<in> set (root # concat (map op_values ops)). unpolluted x"
  proof -
    have "\<forall>op \<in> set ops. pure.payload_ok op" using that by (auto simp: pure_payload)
    then show ?thesis using pure.ok_applyOps [OF _ _ v] that by simp
  qed
  ultimately show ?thesis by blast
qed

theorem apply_keeps_values_safe_witness:
  "applyImmutable [SetAt [Key ''a''] (JArr []), SetAt [Key ''a'', Index 0] (JBool True)] (JObj []) = Inr (JObj [(''a'', JArr [JBool True])]) \<and>
    applyImmutable [SetAt [Key ''__proto__'', Key ''isAdmin''] (JBool True)] (JObj []) = Inl PathError \<and>
    json_ok (JObj [(''a'', JArr [JBool True])]) \<and>
    unpolluted (JObj [(''a'', JArr [JBool True])])"
proof -
  have run: "applyImmutable [SetAt [Key ''a''] (JArr []), SetAt [Key ''a'', Index 0] (JBool True)] (JObj []) = Inr (JObj [(''a'', JArr [JBool True])])"
    by (simp add: applyImmutable_def apply_immutable_op_def applyOps_def apply_op_def assertPathArg_def RESERVED_SEGMENTS_def
        change_key_def change_at_def resolve_def check_key_def write_key_def step_to_def child_def set_child_def al_has_def)
  have refused: "applyImmutable [SetAt [Key ''__proto__'', Key ''isAdmin''] (JBool True)] (JObj []) = Inl PathError"
    by (simp add: applyImmutable_def apply_immutable_op_def al_has_def)
  show ?thesis
    using run refused apply_keeps_values_safe [OF run] by simp
qed

end
