(* ===== verification/Transcript.thy ===== *)
theory Transcript imports Json begin

text \<open>
  Messages of a conversation (\<open>packages/ai/src/types.ts\<close>, \<open>utils/text.ts\<close>) and the tool state that its
  system messages declare (\<open>utils/transcript.ts\<close>). An optional list that is absent and one that is empty are read
  alike by the code and are both the empty list. The fields of a message that no modelled code reads are one JSON value.
  A tool is its declaration: name, description, the JSON form of its parameters, and its sampling configuration. The
  sections of a prompt keep the order in which they were first named.
\<close>

section \<open>Messages\<close>

record tool_call =
  call_id :: string
  call_name :: string
  call_arguments :: json
  thoughtSignature :: "string option"
  call_namespace :: "string option"

datatype block =
    TextBlock string "string option"
  | ThinkingBlock string "string option" bool
  | ImageBlock string string
  | CallBlock tool_call

datatype content = Plain string | Blocks "block list"

record tool_declaration =
  tool_name :: string
  description :: string
  parameters :: json
  constrainedSampling :: "json option"

record system_message =
  system_content :: content
  sections :: "(string \<times> string option) list"
  toolsAdded :: "tool_declaration list"
  toolsRemoved :: "string list"
  system_timestamp :: int

record user_message =
  user_content :: content
  user_timestamp :: int

datatype stop_reason = PendingStop | NaturalStop | LengthStop | ToolUseStop | ErrorStop | AbortedStop | DeferredStop

record assistant_message =
  assistant_content :: "block list"
  assistant_api :: string
  assistant_provider :: string
  assistant_model :: string
  stopReason :: stop_reason
  errorMessage :: "string option"
  assistant_timestamp :: int
  assistant_rest :: json

record tool_result_message =
  toolCallId :: string
  toolName :: string
  result_content :: "block list"
  result_details :: "json option"
  isError :: bool
  result_timestamp :: int
  result_rest :: json

datatype message =
    System system_message
  | User user_message
  | Assistant assistant_message
  | ToolResult tool_result_message
  | Custom string json

fun is_system :: "message \<Rightarrow> bool" where
  "is_system (System _) = True"
| "is_system _ = False"

fun is_assistant :: "message \<Rightarrow> bool" where
  "is_assistant (Assistant _) = True"
| "is_assistant _ = False"

fun block_calls :: "block list \<Rightarrow> tool_call list" where
  "block_calls [] = []"
| "block_calls (CallBlock c # bs) = c # block_calls bs"
| "block_calls (_ # bs) = block_calls bs"

fun block_texts :: "block list \<Rightarrow> string list" where
  "block_texts [] = []"
| "block_texts (TextBlock t _ # bs) = t # block_texts bs"
| "block_texts (_ # bs) = block_texts bs"

abbreviation blank_line :: string where
  "blank_line \<equiv> [CHR 0x0A, CHR 0x0A]"

fun contentText :: "content \<Rightarrow> string" where
  "contentText (Plain t) = t"
| "contentText (Blocks bs) = join [CHR 0x0A] (block_texts bs)"

text \<open>The section values that are not \<open>null\<close>, in order.\<close>

definition section_values :: "(string \<times> string option) list \<Rightarrow> string list" where
  "section_values ss = concat (map (\<lambda>(_, v). case v of None \<Rightarrow> [] | Some t \<Rightarrow> [t]) ss)"

definition getSystemMessageText :: "system_message \<Rightarrow> string" where
  "getSystemMessageText m =
     join blank_line (filter (\<lambda>p. p \<noteq> []) (contentText (system_content m) # section_values (sections m)))"

section \<open>Replaying system messages\<close>

definition createInitialSystemMessage :: "string option \<Rightarrow> tool_declaration list \<Rightarrow> system_message option" where
  "createInitialSystemMessage systemPrompt tools =
     (if (systemPrompt = None \<or> systemPrompt = Some []) \<and> tools = [] then None
      else Some \<lparr>system_content = Plain (case systemPrompt of None \<Rightarrow> [] | Some t \<Rightarrow> t), sections = [], toolsAdded = tools,
        toolsRemoved = [], system_timestamp = 0\<rparr>)"

definition normalizeContext :: "string option \<Rightarrow> tool_declaration list \<Rightarrow> message list \<Rightarrow> message list" where
  "normalizeContext systemPrompt tools messages =
     (case createInitialSystemMessage systemPrompt tools of None \<Rightarrow> messages | Some m \<Rightarrow> System m # messages)"

fun getInitialSystemMessage :: "message list \<Rightarrow> system_message option" where
  "getInitialSystemMessage (System m # _) = Some m"
| "getInitialSystemMessage _ = None"

definition withoutInitialSystemMessage :: "message list \<Rightarrow> message list" where
  "withoutInitialSystemMessage messages = (if getInitialSystemMessage messages \<noteq> None then drop 1 messages else messages)"

text \<open>A \<open>Map\<close> from tool names to tools, changed by one system message.\<close>

type_synonym tool_table = "(string \<times> tool_declaration) list"

definition replay_tools :: "system_message \<Rightarrow> tool_table \<Rightarrow> tool_table" where
  "replay_tools m tools =
     fold (\<lambda>t. al_set (tool_name t) t) (toolsAdded m) (fold al_delete (toolsRemoved m) tools)"

fun current_table :: "message list \<Rightarrow> tool_table \<Rightarrow> tool_table" where
  "current_table [] tools = tools"
| "current_table (System m # messages) tools = current_table messages (replay_tools m tools)"
| "current_table (_ # messages) tools = current_table messages tools"

definition getCurrentTools :: "message list \<Rightarrow> tool_declaration list" where
  "getCurrentTools messages = map snd (current_table messages [])"

fun replay_section :: "string \<times> string option \<Rightarrow> (string \<times> string) list \<Rightarrow> (string \<times> string) list" where
  "replay_section (name, None) ss = al_delete name ss"
| "replay_section (name, Some t) ss = al_set name t ss"

text \<open>The loop of \<open>getCurrentSystemMessage\<close>: texts, sections and the first timestamp.\<close>

fun replay_prompt :: "message list \<Rightarrow> string list \<times> (string \<times> string) list \<times> int option \<Rightarrow>
    string list \<times> (string \<times> string) list \<times> int option" where
  "replay_prompt [] acc = acc"
| "replay_prompt (System m # messages) (texts, ss, time) =
     (let t = contentText (system_content m) in
      replay_prompt messages
        (if t = [] then texts else texts @ [t], fold replay_section (sections m) ss,
         case time of None \<Rightarrow> Some (system_timestamp m) | Some n \<Rightarrow> Some n))"
| "replay_prompt (_ # messages) acc = replay_prompt messages acc"

definition getCurrentSystemMessage :: "message list \<Rightarrow> system_message option" where
  "getCurrentSystemMessage messages =
     (case replay_prompt messages ([], [], None) of (texts, ss, time) \<Rightarrow>
        let tools = getCurrentTools messages in
        if time = None \<and> tools = [] then None
        else Some \<lparr>system_content = Plain (join blank_line texts), sections = map (\<lambda>(n, t). (n, Some t)) ss,
          toolsAdded = tools, toolsRemoved = [], system_timestamp = (case time of None \<Rightarrow> 0 | Some n \<Rightarrow> n)\<rparr>)"

definition getCurrentSystemPrompt :: "message list \<Rightarrow> string" where
  "getCurrentSystemPrompt messages =
     (case getCurrentSystemMessage messages of None \<Rightarrow> [] | Some m \<Rightarrow> getSystemMessageText m)"

definition collapseSystemMessages :: "message list \<Rightarrow> message list" where
  "collapseSystemMessages messages =
     (let rest = filter (\<lambda>m. \<not> is_system m) messages in
      case getCurrentSystemMessage messages of None \<Rightarrow> rest | Some m \<Rightarrow> System m # rest)"

definition resolveTranscript :: "message list \<Rightarrow> bool \<Rightarrow> message list" where
  "resolveTranscript messages supportsMidConvoSystemMessages =
     (if supportsMidConvoSystemMessages then messages else collapseSystemMessages messages)"

section \<open>Changes of the tool state\<close>

text \<open>Declarations are compared by their JSON text, which tells apart any two of the declarations of the model.\<close>

definition declarationsEqual :: "tool_declaration \<Rightarrow> tool_declaration \<Rightarrow> bool" where
  "declarationsEqual l r \<longleftrightarrow> l = r"

definition tool_map :: "tool_declaration list \<Rightarrow> tool_table" where
  "tool_map ts = fold (\<lambda>t. al_set (tool_name t) t) ts []"

definition differs_in :: "tool_table \<Rightarrow> tool_declaration \<Rightarrow> bool" where
  "differs_in table t \<longleftrightarrow> (case al_get (tool_name t) table of None \<Rightarrow> True | Some t' \<Rightarrow> \<not> declarationsEqual t' t)"

definition getToolStateChanges :: "tool_declaration list \<Rightarrow> tool_declaration list \<Rightarrow> tool_declaration list \<times> string list" where
  "getToolStateChanges previous current =
     (filter (differs_in (tool_map previous)) current,
      map tool_name (filter (differs_in (tool_map current)) previous))"

definition getDeclaredTools :: "message list \<Rightarrow> tool_declaration list" where
  "getDeclaredTools messages =
     map snd (tool_map (concat (map (\<lambda>m. case m of System s \<Rightarrow> toolsAdded s | _ \<Rightarrow> []) messages)))"

fun redefined :: "tool_declaration list \<Rightarrow> tool_table \<Rightarrow> bool" where
  "redefined [] declared = False"
| "redefined (t # ts) declared =
     ((case al_get (tool_name t) declared of None \<Rightarrow> False | Some t' \<Rightarrow> \<not> declarationsEqual t' t) \<or>
      redefined ts (al_set (tool_name t) t declared))"

definition hasToolRedefinitions :: "message list \<Rightarrow> bool" where
  "hasToolRedefinitions messages =
     redefined (concat (map (\<lambda>m. case m of System s \<Rightarrow> toolsAdded s | _ \<Rightarrow> []) messages)) []"

fun added_again :: "tool_declaration list \<Rightarrow> string list \<Rightarrow> bool \<times> string list" where
  "added_again [] declared = (False, declared)"
| "added_again (t # ts) declared =
     (if tool_name t \<in> set declared then (True, declared) else added_again ts (tool_name t # declared))"

fun non_additive :: "message list \<Rightarrow> string list \<Rightarrow> bool" where
  "non_additive [] declared = False"
| "non_additive (System m # messages) declared =
     (if toolsRemoved m \<noteq> [] then True
      else case added_again (toolsAdded m) declared of (again, declared') \<Rightarrow>
        if again then True else non_additive messages declared')"
| "non_additive (_ # messages) declared = non_additive messages declared"

definition hasNonAdditiveToolChanges :: "message list \<Rightarrow> bool" where
  "hasNonAdditiveToolChanges messages = non_additive messages []"

definition resolveTranscriptTools :: "message list \<Rightarrow> bool \<Rightarrow> tool_declaration list \<times> bool" where
  "resolveTranscriptTools messages supportsToolAdditions =
     (let anchorsAdditions = supportsToolAdditions \<and> \<not> hasNonAdditiveToolChanges messages in
      (if anchorsAdditions then (case getInitialSystemMessage messages of None \<Rightarrow> [] | Some m \<Rightarrow> toolsAdded m)
       else getCurrentTools messages, anchorsAdditions))"

end
