(* ===== verification/Transform_Messages.thy ===== *)
theory Transform_Messages imports Transcript "HOL-Library.Multiset" "HOL-Library.Sublist" begin

text \<open>
  The rewriting of a transcript for a model (\<open>packages/ai/src/api/transform-messages.ts\<close>): images that the model cannot
  take become text, thinking and call identifiers of other models are adapted, failed answers are left out, and calls
  without a result get one. The normaliser of identifiers is an argument. The clock reads \<open>now\<close> whenever a result is
  made up. Contents are never \<open>null\<close>: the code replaces that by no blocks first.
\<close>

record target_model =
  model_id :: string
  model_api :: string
  model_provider :: string
  model_input :: "string list"

definition NON_VISION_USER_IMAGE_PLACEHOLDER :: string where
  "NON_VISION_USER_IMAGE_PLACEHOLDER = ''(image omitted: model does not support images)''"

definition NON_VISION_TOOL_IMAGE_PLACEHOLDER :: string where
  "NON_VISION_TOOL_IMAGE_PLACEHOLDER = ''(tool image omitted: model does not support images)''"

section \<open>Images\<close>

text \<open>The flag says that the previous block was a placeholder.\<close>

fun replace_images :: "string \<Rightarrow> bool \<Rightarrow> block list \<Rightarrow> block list" where
  "replace_images placeholder previous [] = []"
| "replace_images placeholder previous (ImageBlock _ _ # bs) =
     (if previous then [] else [TextBlock placeholder None]) @ replace_images placeholder True bs"
| "replace_images placeholder previous (TextBlock t sig # bs) = TextBlock t sig # replace_images placeholder (t = placeholder) bs"
| "replace_images placeholder previous (b # bs) = b # replace_images placeholder False bs"

definition replaceImagesWithPlaceholder :: "block list \<Rightarrow> string \<Rightarrow> block list" where
  "replaceImagesWithPlaceholder content placeholder = replace_images placeholder False content"

fun downgrade_message :: "message \<Rightarrow> message" where
  "downgrade_message (User u) = (case user_content u of
     Blocks bs \<Rightarrow> User (u\<lparr>user_content := Blocks (replaceImagesWithPlaceholder bs NON_VISION_USER_IMAGE_PLACEHOLDER)\<rparr>)
   | Plain _ \<Rightarrow> User u)"
| "downgrade_message (ToolResult r) =
     ToolResult (r\<lparr>result_content := replaceImagesWithPlaceholder (result_content r) NON_VISION_TOOL_IMAGE_PLACEHOLDER\<rparr>)"
| "downgrade_message m = m"

definition downgradeUnsupportedImages :: "message list \<Rightarrow> target_model \<Rightarrow> message list" where
  "downgradeUnsupportedImages messages model =
     (if ''image'' \<in> set (model_input model) then messages else map downgrade_message messages)"

section \<open>Thinking and identifiers\<close>

definition is_same_model :: "assistant_message \<Rightarrow> target_model \<Rightarrow> bool" where
  "is_same_model a model \<longleftrightarrow>
     assistant_provider a = model_provider model \<and> assistant_api a = model_api model \<and> assistant_model a = model_id model"

text \<open>One block, with the map from original to normalised call identifiers.\<close>

type_synonym normalizer = "string \<Rightarrow> target_model \<Rightarrow> assistant_message \<Rightarrow> string"

fun transform_block :: "normalizer option \<Rightarrow> target_model \<Rightarrow> assistant_message \<Rightarrow> block \<Rightarrow> (string \<times> string) list \<Rightarrow>
    block list \<times> (string \<times> string) list" where
  "transform_block rename model a (ThinkingBlock thinking signature redacted) ids =
     (if redacted then (if is_same_model a model then [ThinkingBlock thinking signature redacted] else [], ids)
      else if is_same_model a model \<and> signature \<noteq> None \<and> signature \<noteq> Some []
      then ([ThinkingBlock thinking signature redacted], ids)
      else if trim thinking = [] then ([], ids)
      else if is_same_model a model then ([ThinkingBlock thinking signature redacted], ids)
      else ([TextBlock thinking None], ids))"
| "transform_block rename model a (TextBlock t signature) ids =
     ([if is_same_model a model then TextBlock t signature else TextBlock t None], ids)"
| "transform_block rename model a (CallBlock c) ids =
     (if is_same_model a model then ([CallBlock c], ids)
      else
        (let c1 = c\<lparr>thoughtSignature := (if thoughtSignature c = Some [] then Some [] else None)\<rparr> in
         case rename of
           None \<Rightarrow> ([CallBlock c1], ids)
         | Some f \<Rightarrow>
             (let normalizedId = f (call_id c) model a in
              if normalizedId \<noteq> call_id c
              then ([CallBlock (c1\<lparr>call_id := normalizedId\<rparr>)], al_set (call_id c) normalizedId ids)
              else ([CallBlock c1], ids))))"
| "transform_block rename model a b ids = ([b], ids)"

fun transform_blocks :: "normalizer option \<Rightarrow> target_model \<Rightarrow> assistant_message \<Rightarrow> block list \<Rightarrow> (string \<times> string) list \<Rightarrow>
    block list \<times> (string \<times> string) list" where
  "transform_blocks rename model a [] ids = ([], ids)"
| "transform_blocks rename model a (b # bs) ids =
     (case transform_block rename model a b ids of (new, ids1) \<Rightarrow>
        case transform_blocks rename model a bs ids1 of (rest, ids2) \<Rightarrow> (new @ rest, ids2))"

definition renamed_result :: "(string \<times> string) list \<Rightarrow> tool_result_message \<Rightarrow> tool_result_message" where
  "renamed_result ids r =
     (case al_get (toolCallId r) ids of
        Some n \<Rightarrow> if n \<noteq> [] \<and> n \<noteq> toolCallId r then r\<lparr>toolCallId := n\<rparr> else r
      | None \<Rightarrow> r)"

fun first_pass :: "normalizer option \<Rightarrow> target_model \<Rightarrow> message list \<Rightarrow> (string \<times> string) list \<Rightarrow> message list" where
  "first_pass rename model [] ids = []"
| "first_pass rename model (Assistant a # ms) ids =
     (case transform_blocks rename model a (assistant_content a) ids of (bs, ids') \<Rightarrow>
        Assistant (a\<lparr>assistant_content := bs\<rparr>) # first_pass rename model ms ids')"
| "first_pass rename model (ToolResult r # ms) ids = ToolResult (renamed_result ids r) # first_pass rename model ms ids"
| "first_pass rename model (m # ms) ids = m # first_pass rename model ms ids"

section \<open>Calls without a result\<close>

record second_pass =
  pass_result :: "message list"
  pendingToolCalls :: "tool_call list"
  existingToolResultIds :: "string list"
  heldSystemMessages :: "message list"

definition synthetic_result :: "int \<Rightarrow> tool_call \<Rightarrow> message" where
  "synthetic_result now c = ToolResult \<lparr>toolCallId = call_id c, toolName = call_name c,
     result_content = [TextBlock ''No result provided'' None], result_details = None, isError = True, result_timestamp = now,
     result_rest = JNull\<rparr>"

definition missing_calls :: "second_pass \<Rightarrow> tool_call list" where
  "missing_calls s = filter (\<lambda>c. call_id c \<notin> set (existingToolResultIds s)) (pendingToolCalls s)"

definition closePendingToolCalls :: "int \<Rightarrow> second_pass \<Rightarrow> second_pass" where
  "closePendingToolCalls now s =
     (if pendingToolCalls s \<noteq> []
      then \<lparr>pass_result = pass_result s @ map (synthetic_result now) (missing_calls s) @ heldSystemMessages s,
        pendingToolCalls = [], existingToolResultIds = [], heldSystemMessages = []\<rparr>
      else s\<lparr>pass_result := pass_result s @ heldSystemMessages s, heldSystemMessages := []\<rparr>)"

definition is_failed :: "assistant_message \<Rightarrow> bool" where
  "is_failed a \<longleftrightarrow> stopReason a = ErrorStop \<or> stopReason a = AbortedStop"

fun push_result :: "message \<Rightarrow> second_pass \<Rightarrow> second_pass" where
  "push_result m s = s\<lparr>pass_result := pass_result s @ [m]\<rparr>"

fun second_step :: "int \<Rightarrow> message \<Rightarrow> second_pass \<Rightarrow> second_pass" where
  "second_step now (Assistant a) s =
     (let s1 = closePendingToolCalls now s; toolCalls = block_calls (assistant_content a) in
      if is_failed a then s1
      else push_result (Assistant a)
        (if toolCalls \<noteq> [] then s1\<lparr>pendingToolCalls := toolCalls, existingToolResultIds := []\<rparr> else s1))"
| "second_step now (ToolResult r) s =
     push_result (ToolResult r) (s\<lparr>existingToolResultIds := toolCallId r # existingToolResultIds s\<rparr>)"
| "second_step now (System m) s =
     (if pendingToolCalls s \<noteq> [] then s\<lparr>heldSystemMessages := heldSystemMessages s @ [System m]\<rparr> else push_result (System m) s)"
| "second_step now (User u) s = push_result (User u) (closePendingToolCalls now s)"
| "second_step now (Custom t b) s = push_result (Custom t b) s"

definition start_pass :: second_pass where
  "start_pass = \<lparr>pass_result = [], pendingToolCalls = [], existingToolResultIds = [], heldSystemMessages = []\<rparr>"

definition close_calls :: "int \<Rightarrow> message list \<Rightarrow> message list" where
  "close_calls now messages = pass_result (closePendingToolCalls now (fold (second_step now) messages start_pass))"

definition transformMessages :: "int \<Rightarrow> message list \<Rightarrow> target_model \<Rightarrow> normalizer option \<Rightarrow> message list" where
  "transformMessages now messages model normalizeToolCallId =
     close_calls now (first_pass normalizeToolCallId model (downgradeUnsupportedImages messages model) [])"

end
