(* ===== verification/Transform_Props.thy ===== *)
theory Transform_Props imports Transform_Messages begin

text \<open>
  What a provider receives. The automaton \<open>settle\<close> reads a message list and keeps the calls that wait for results; it
  refuses a failed answer, and a turn or a system message that comes before every call of the last answer has its result.
  The second pass gives lists it accepts and loses no other message.
\<close>

section \<open>Settled transcripts\<close>

record waiting =
  calls :: "tool_call list"
  results :: "string list"

definition all_have_results :: "waiting \<Rightarrow> bool" where
  "all_have_results w \<longleftrightarrow> (\<forall>c \<in> set (calls w). call_id c \<in> set (results w))"

definition after_calls :: "tool_call list \<Rightarrow> waiting" where
  "after_calls cs = \<lparr>calls = cs, results = []\<rparr>"

fun settle1 :: "message \<Rightarrow> waiting \<Rightarrow> waiting option" where
  "settle1 (Assistant a) w =
     (if is_failed a \<or> \<not> all_have_results w then None else Some (after_calls (block_calls (assistant_content a))))"
| "settle1 (User u) w = (if all_have_results w then Some (after_calls []) else None)"
| "settle1 (System m) w = (if all_have_results w then Some w else None)"
| "settle1 (ToolResult r) w = Some (w\<lparr>results := toolCallId r # results w\<rparr>)"
| "settle1 (Custom t b) w = Some w"

fun settle :: "message list \<Rightarrow> waiting \<Rightarrow> waiting option" where
  "settle [] w = Some w"
| "settle (m # ms) w = (case settle1 m w of None \<Rightarrow> None | Some w' \<Rightarrow> settle ms w')"

definition settled :: "message list \<Rightarrow> bool" where
  "settled ms \<longleftrightarrow> (case settle ms (after_calls []) of None \<Rightarrow> False | Some w \<Rightarrow> all_have_results w)"

lemma settle_append: "settle (xs @ ys) w = (case settle xs w of None \<Rightarrow> None | Some w' \<Rightarrow> settle ys w')"
  by (induction xs arbitrary: w) (auto split: option.splits)

lemma settle_synthetic:
  "settle (map (synthetic_result now) cs) w = Some (w\<lparr>results := rev (map call_id cs) @ results w\<rparr>)"
  by (induction cs arbitrary: w) (simp_all add: synthetic_result_def)

lemma settle_systems:
  assumes "all_have_results w"
  shows "\<forall>m \<in> set ms. is_system m \<Longrightarrow> settle ms w = Some w"
proof (induction ms)
  case (Cons m ms)
  then obtain s where "m = System s" by (cases m) auto
  then show ?case using Cons assms by simp
qed simp

section \<open>The second pass\<close>

text \<open>What was pushed so far is accepted, and the state knows the calls and results of the last turn.\<close>

definition pass_ok :: "second_pass \<Rightarrow> bool" where
  "pass_ok s \<longleftrightarrow> (\<forall>m \<in> set (heldSystemMessages s). is_system m) \<and>
     (\<exists>w. settle (pass_result s) (after_calls []) = Some w \<and>
       (if pendingToolCalls s = [] then all_have_results w \<and> heldSystemMessages s = []
        else calls w = pendingToolCalls s \<and> set (results w) = set (existingToolResultIds s)))"

lemma all_have_results_more: "all_have_results w \<Longrightarrow> all_have_results (w\<lparr>results := i # results w\<rparr>)"
  by (simp add: all_have_results_def)

lemma pass_ok_start: "pass_ok start_pass"
  by (simp add: pass_ok_def start_pass_def after_calls_def all_have_results_def)

lemma closed_pass:
  assumes "pass_ok s"
  shows "\<exists>w. settle (pass_result (closePendingToolCalls now s)) (after_calls []) = Some w \<and> all_have_results w"
    and "pendingToolCalls (closePendingToolCalls now s) = []" and "heldSystemMessages (closePendingToolCalls now s) = []"
proof -
  obtain w where held: "\<forall>m \<in> set (heldSystemMessages s). is_system m" and w: "settle (pass_result s) (after_calls []) = Some w"
    "if pendingToolCalls s = [] then all_have_results w \<and> heldSystemMessages s = []
     else calls w = pendingToolCalls s \<and> set (results w) = set (existingToolResultIds s)"
    using assms by (auto simp: pass_ok_def)
  show "\<exists>w. settle (pass_result (closePendingToolCalls now s)) (after_calls []) = Some w \<and> all_have_results w"
  proof (cases "pendingToolCalls s = []")
    case True
    then show ?thesis using w by (simp add: closePendingToolCalls_def)
  next
    case False
    let ?v = "w\<lparr>results := rev (map call_id (missing_calls s)) @ results w\<rparr>"
    have "all_have_results ?v" using w(2) False by (auto simp: all_have_results_def missing_calls_def)
    then show ?thesis
      using False w(1) settle_synthetic settle_systems [OF _ held] by (simp add: closePendingToolCalls_def settle_append)
  qed
qed (simp_all add: closePendingToolCalls_def)

lemma pass_ok_closed: "pass_ok s \<Longrightarrow> pass_ok (closePendingToolCalls now s)"
  using closed_pass [of s now] by (simp add: pass_ok_def)

lemma pass_ok_step: "pass_ok s \<Longrightarrow> pass_ok (second_step now m s)"
proof (cases m)
  case (User u)
  assume s: "pass_ok s"
  then show ?thesis
    using closed_pass [OF s, of now] by (auto simp: User pass_ok_def settle_append after_calls_def all_have_results_def)
next
  case (Assistant a)
  assume s: "pass_ok s"
  then show ?thesis
    using closed_pass [OF s, of now] pass_ok_closed [OF s]
    by (auto simp: Assistant Let_def pass_ok_def settle_append after_calls_def all_have_results_def)
qed (auto simp: pass_ok_def settle_append all_have_results_more)

lemma pass_ok_run: "pass_ok s \<Longrightarrow> pass_ok (fold (second_step now) ms s)"
  by (induction ms arbitrary: s) (simp_all add: pass_ok_step)

lemma close_calls_settled: "settled (close_calls now ms)"
  using closed_pass(1) [OF pass_ok_run [OF pass_ok_start], of now now ms] by (auto simp: settled_def close_calls_def)

section \<open>Nothing else changes\<close>

definition kept :: "message \<Rightarrow> bool" where
  "kept m \<longleftrightarrow> (case m of Assistant a \<Rightarrow> \<not> is_failed a | _ \<Rightarrow> True)"

definition made_up :: "int \<Rightarrow> message \<Rightarrow> bool" where
  "made_up now m \<longleftrightarrow> (\<exists>c. m = synthetic_result now c)"

text \<open>What was pushed and is held, against the messages read so far.\<close>

definition pass_has :: "int \<Rightarrow> message list \<Rightarrow> second_pass \<Rightarrow> bool" where
  "pass_has now ms s \<longleftrightarrow>
     filter is_system ms = filter is_system (pass_result s) @ heldSystemMessages s \<and> (\<forall>m \<in> set (heldSystemMessages s). is_system m) \<and>
     subseq (filter (\<lambda>m. \<not> is_system m) ms) (filter (\<lambda>m. \<not> is_system m) (pass_result s)) \<and>
     (\<exists>extra. (\<forall>m \<in> set extra. made_up now m) \<and>
       mset (pass_result s) + mset (heldSystemMessages s) = mset ms + mset extra)"

lemma made_up_filter: "\<forall>m \<in> set xs. made_up now m \<Longrightarrow> filter is_system xs = [] \<and> filter (\<lambda>m. \<not> is_system m) xs = xs"
  by (induction xs) (auto simp: made_up_def synthetic_result_def)

lemma filter_systems: "\<forall>m \<in> set xs. is_system m \<Longrightarrow> filter is_system xs = xs \<and> filter (\<lambda>m. \<not> is_system m) xs = []"
  by (induction xs) auto

lemma pass_has_extra:
  assumes "pass_has now ms s" and "\<forall>m \<in> set xs. made_up now m"
  shows "pass_has now ms (s\<lparr>pass_result := pass_result s @ xs @ heldSystemMessages s, heldSystemMessages := [],
    pendingToolCalls := p, existingToolResultIds := e\<rparr>)"
proof -
  obtain extra where extra: "\<forall>m \<in> set extra. made_up now m" "mset (pass_result s) + mset (heldSystemMessages s) = mset ms + mset extra"
    using assms(1) by (auto simp: pass_has_def)
  have "\<forall>m \<in> set (extra @ xs). made_up now m" using extra(1) assms(2) by auto
  moreover have "mset (pass_result s @ xs @ heldSystemMessages s) = mset ms + mset (extra @ xs)" using extra(2) by simp
  moreover have "subseq (filter (\<lambda>m. \<not> is_system m) ms) (filter (\<lambda>m. \<not> is_system m) (pass_result s) @ xs)"
    using assms(1) by (auto simp: pass_has_def intro: subseq_order.order_trans)
  moreover have "filter is_system ms = filter is_system (pass_result s @ xs @ heldSystemMessages s)"
      "filter (\<lambda>m. \<not> is_system m) (pass_result s) @ xs = filter (\<lambda>m. \<not> is_system m) (pass_result s @ xs @ heldSystemMessages s)"
    using assms(1) made_up_filter [OF assms(2)] filter_systems [of "heldSystemMessages s"] by (simp_all add: pass_has_def)
  ultimately show ?thesis unfolding pass_has_def
    by (intro conjI exI [of _ "extra @ xs"]) simp_all
qed

lemma pass_has_close:
  assumes "pass_has now ms s"
  shows "pass_has now ms (closePendingToolCalls now s)"
proof -
  have "\<forall>m \<in> set (map (synthetic_result now) (missing_calls s)). made_up now m" by (auto simp: made_up_def)
  then show ?thesis
    using pass_has_extra [OF assms, where xs = "map (synthetic_result now) (missing_calls s)" and p = "[]" and e = "[]"]
      pass_has_extra [OF assms, where xs = "[]" and p = "pendingToolCalls s" and e = "existingToolResultIds s"]
    by (cases s) (auto simp: closePendingToolCalls_def)
qed

lemma pass_has_push:
  assumes "pass_has now ms s" and "heldSystemMessages s = [] \<or> \<not> is_system m"
  shows "pass_has now (ms @ [m]) (push_result m s)"
proof -
  have "subseq (filter (\<lambda>m. \<not> is_system m) (ms @ [m])) (filter (\<lambda>m. \<not> is_system m) (pass_result s @ [m]))"
    using assms(1) by (simp add: pass_has_def)
  then show ?thesis using assms by (auto simp: pass_has_def)
qed

lemma pass_has_fields: "pass_has now ms (s\<lparr>pendingToolCalls := p, existingToolResultIds := e\<rparr>) = pass_has now ms s"
  by (simp add: pass_has_def)

lemma pass_has_step:
  assumes "pass_has now (filter kept ms) s" and "pass_ok s"
  shows "pass_has now (filter kept (ms @ [m])) (second_step now m s)"
proof (cases m)
  case (Assistant a)
  have "pass_has now (filter kept ms) ((closePendingToolCalls now s)\<lparr>pendingToolCalls := p, existingToolResultIds := e\<rparr>)" for p e
    unfolding pass_has_fields by (rule pass_has_close [OF assms(1)])
  note push = pass_has_push [OF this, where m = "Assistant a"] pass_has_push [OF pass_has_close [OF assms(1)], where m = "Assistant a"]
  show ?thesis
    using push pass_has_close [OF assms(1)] by (simp add: Assistant kept_def Let_def)
next
  case (User u)
  then show ?thesis using pass_has_push [OF pass_has_close [OF assms(1)], where m = m] by (simp add: kept_def)
next
  case (ToolResult r)
  have "pass_has now (filter kept ms) (s\<lparr>existingToolResultIds := e\<rparr>)" for e using assms(1) by (simp add: pass_has_def)
  note pass_has_push [OF this, where m = m and e1 = "toolCallId r # existingToolResultIds s"]
  then show ?thesis by (simp add: ToolResult kept_def)
next
  case (Custom t b)
  then show ?thesis using pass_has_push [OF assms(1), where m = m] by (simp add: kept_def)
next
  case (System x)
  have "heldSystemMessages s = []" if "pendingToolCalls s = []" using assms(2) that by (auto simp: pass_ok_def)
  then show ?thesis using pass_has_push [OF assms(1), where m = m] assms(1) by (auto simp: System kept_def pass_has_def)
qed

lemma pass_has_run: "pass_has now (filter kept ms) (fold (second_step now) ms start_pass)"
proof (induction ms rule: rev_induct)
  case Nil
  then show ?case by (simp add: pass_has_def start_pass_def)
next
  case (snoc m ms)
  then show ?case using pass_has_step [OF snoc pass_ok_run [OF pass_ok_start]] by simp
qed

lemma close_calls_has:
  "filter is_system (close_calls now ms) = filter is_system ms \<and>
   subseq (filter (\<lambda>m. kept m \<and> \<not> is_system m) ms) (filter (\<lambda>m. \<not> is_system m) (close_calls now ms)) \<and>
   (\<exists>extra. (\<forall>m \<in> set extra. made_up now m) \<and> mset (close_calls now ms) = mset (filter kept ms) + mset extra)"
proof -
  let ?s = "fold (second_step now) ms start_pass"
  have "pass_has now (filter kept ms) (closePendingToolCalls now ?s)" by (rule pass_has_close [OF pass_has_run])
  moreover have "heldSystemMessages (closePendingToolCalls now ?s) = []" by (simp add: closePendingToolCalls_def)
  moreover have "filter is_system (filter kept ms) = filter is_system ms"
    by (induction ms) (auto simp: kept_def split: message.splits)
  moreover have "filter (\<lambda>m. \<not> is_system m) (filter kept ms) = filter (\<lambda>m. kept m \<and> \<not> is_system m) ms" by (simp add: conj_commute)
  ultimately show ?thesis by (simp add: pass_has_def close_calls_def)
qed

section \<open>Histories of other models\<close>

text \<open>A transcript whose calls all have results gets none made up.\<close>

lemma settled_no_extra:
  assumes "settle ms (after_calls []) = Some w"
  shows "(let s = fold (second_step now) ms start_pass in mset (pass_result s) + mset (heldSystemMessages s) = mset ms \<and>
    (pendingToolCalls s = [] \<or> pendingToolCalls s = calls w \<and> existingToolResultIds s = results w))"
  using assms
proof (induction ms arbitrary: w rule: rev_induct)
  case Nil
  then show ?case by (simp add: start_pass_def)
next
  case (snoc m ms)
  let ?s = "fold (second_step now) ms start_pass"
  obtain v where v: "settle ms (after_calls []) = Some v" "settle1 m v = Some w"
    using snoc.prems by (auto simp: settle_append split: option.splits)
  have IH: "mset (pass_result ?s) + mset (heldSystemMessages ?s) = mset ms"
    "pendingToolCalls ?s = [] \<or> pendingToolCalls ?s = calls v \<and> existingToolResultIds ?s = results v"
    using snoc.IH [OF v(1)] by (simp_all add: Let_def)
  have close: "mset (pass_result (closePendingToolCalls now ?s)) = mset ms" if "all_have_results v"
  proof -
    have "missing_calls ?s = []" using IH(2) that by (auto simp: missing_calls_def all_have_results_def filter_empty_conv)
    then show ?thesis using IH(1) by (simp add: closePendingToolCalls_def)
  qed
  have closed: "heldSystemMessages (closePendingToolCalls now ?s) = []" "pendingToolCalls (closePendingToolCalls now ?s) = []"
    by (simp_all add: closePendingToolCalls_def)
  show ?case
  proof (cases m)
    case (Assistant a)
    then have "all_have_results v" "\<not> is_failed a" "w = after_calls (block_calls (assistant_content a))"
      using v(2) by (auto split: if_splits)
    then show ?thesis using close closed by (simp add: Assistant Let_def after_calls_def)
  next
    case (User u)
    then show ?thesis using v(2) close closed by (auto split: if_splits)
  qed (use v(2) IH in \<open>auto simp: Let_def split: if_splits\<close>)
qed

lemma close_calls_settled_same: "settled ms \<Longrightarrow> mset (close_calls now ms) = mset ms"
proof -
  assume "settled ms"
  then obtain w where w: "settle ms (after_calls []) = Some w" "all_have_results w" by (auto simp: settled_def split: option.splits)
  let ?s = "fold (second_step now) ms start_pass"
  have s: "mset (pass_result ?s) + mset (heldSystemMessages ?s) = mset ms"
    "pendingToolCalls ?s = [] \<or> pendingToolCalls ?s = calls w \<and> existingToolResultIds ?s = results w"
    using settled_no_extra [OF w(1), of now] by (simp_all add: Let_def)
  have "missing_calls ?s = []" using s(2) w(2) by (auto simp: missing_calls_def all_have_results_def filter_empty_conv)
  then show ?thesis using s(1) by (simp add: close_calls_def closePendingToolCalls_def)
qed

text \<open>Identifiers are renamed by \<open>g\<close>, and the table knows every call that got another identifier.\<close>

definition ids_ok :: "(string \<Rightarrow> string) \<Rightarrow> string set \<Rightarrow> (string \<times> string) list \<Rightarrow> bool" where
  "ids_ok g known ids \<longleftrightarrow> (\<forall>i n. al_get i ids = Some n \<longrightarrow> n = g i) \<and> (\<forall>i \<in> known. g i \<noteq> i \<longrightarrow> al_get i ids = Some (g i))"

lemma ids_ok_same: "ids_ok g known ids \<Longrightarrow> g i = i \<Longrightarrow> ids_ok g (insert i known) ids"
  unfolding ids_ok_def by (metis insertE)

lemma ids_ok_set: "ids_ok g known ids \<Longrightarrow> ids_ok g (insert i known) (al_set i (g i) ids)"
  unfolding ids_ok_def by (metis al_get_set insertE option.inject)

lemma ids_ok_renamed:
  assumes "ids_ok g known ids" and "toolCallId r \<in> known" and "\<And>i. g i \<noteq> []"
  shows "toolCallId (renamed_result ids r) = g (toolCallId r)"
proof (cases "al_get (toolCallId r) ids")
  case None
  then have "g (toolCallId r) = toolCallId r" using assms(1,2) unfolding ids_ok_def by (metis option.distinct(1))
  then show ?thesis using None by (simp add: renamed_result_def)
next
  case (Some n)
  then have "n = g (toolCallId r)" using assms(1) unfolding ids_ok_def by blast
  then show ?thesis using Some assms(3) by (simp add: renamed_result_def)
qed

lemma transform_block_ids:
  assumes "\<not> is_same_model a model" and "\<And>i. f i model a = g i" and "ids_ok g known ids"
    and "transform_block (Some f) model a b ids = (new, ids')"
  shows "map call_id (block_calls new) = map (\<lambda>c. g (call_id c)) (block_calls [b])"
    and "ids_ok g (known \<union> set (map call_id (block_calls [b]))) ids'"
proof -
  have "map call_id (block_calls new) = map (\<lambda>c. g (call_id c)) (block_calls [b]) \<and>
      ids_ok g (known \<union> set (map call_id (block_calls [b]))) ids'"
  proof (cases b)
    case (CallBlock c)
    have f: "f (call_id c) model a = g (call_id c)" by (rule assms(2))
    show ?thesis
    proof (cases "g (call_id c) = call_id c")
      case True
      then have "ids' = ids" "new = [CallBlock (c\<lparr>thoughtSignature := (if thoughtSignature c = Some [] then Some [] else None)\<rparr>)]"
        using assms(1,4) f unfolding CallBlock by (simp_all add: Let_def)
      then show ?thesis using ids_ok_same [OF assms(3) True] True by (simp add: CallBlock)
    next
      case False
      then have "ids' = al_set (call_id c) (g (call_id c)) ids"
          "new = [CallBlock (c\<lparr>thoughtSignature := (if thoughtSignature c = Some [] then Some [] else None), call_id := g (call_id c)\<rparr>)]"
        using assms(1,4) f unfolding CallBlock by (simp_all add: Let_def)
      then show ?thesis using ids_ok_set [OF assms(3)] by (simp add: CallBlock)
    qed
  next
    case (TextBlock t sig)
    then show ?thesis using assms(1,3,4) by auto
  next
    case (ThinkingBlock t sig red)
    then show ?thesis using assms(1,3,4) by (auto split: if_splits)
  next
    case (ImageBlock d mime)
    then show ?thesis using assms(3,4) by auto
  qed
  then show "map call_id (block_calls new) = map (\<lambda>c. g (call_id c)) (block_calls [b])"
    and "ids_ok g (known \<union> set (map call_id (block_calls [b]))) ids'" by blast+
qed

lemma block_calls_append: "block_calls (xs @ ys) = block_calls xs @ block_calls ys"
  by (induction xs rule: block_calls.induct) simp_all

lemma transform_blocks_ids:
  assumes "\<not> is_same_model a model" and "\<And>i. f i model a = g i"
  shows "ids_ok g known ids \<Longrightarrow> transform_blocks (Some f) model a bs ids = (new, ids') \<Longrightarrow>
    map call_id (block_calls new) = map (\<lambda>c. g (call_id c)) (block_calls bs) \<and> ids_ok g (known \<union> set (map call_id (block_calls bs))) ids'"
proof (induction bs arbitrary: known ids new)
  case (Cons b bs)
  obtain new1 ids1 new2 where s: "transform_block (Some f) model a b ids = (new1, ids1)"
    "transform_blocks (Some f) model a bs ids1 = (new2, ids')" "new = new1 @ new2"
    using Cons.prems(2) by (auto split: prod.splits)
  note b = transform_block_ids [OF assms Cons.prems(1) s(1)]
  have "block_calls (b # bs) = block_calls [b] @ block_calls bs" by (cases b) simp_all
  then show ?case using Cons.IH [OF b(2) s(2)] b(1) s(3) by (simp add: block_calls_append Un_assoc)
qed simp

text \<open>The first pass keeps a transcript settled.\<close>

definition renamed_waiting :: "(string \<Rightarrow> string) \<Rightarrow> string set \<Rightarrow> waiting \<Rightarrow> waiting \<Rightarrow> bool" where
  "renamed_waiting g known w v \<longleftrightarrow> map call_id (calls v) = map (\<lambda>c. g (call_id c)) (calls w) \<and>
     set (map call_id (calls w)) \<subseteq> known \<and> (\<forall>i \<in> set (results w) \<inter> known. g i \<in> set (results v))"

lemma renamed_all_have_results:
  assumes "renamed_waiting g known w v" and "all_have_results w"
  shows "all_have_results v"
proof -
  have "\<forall>c \<in> set (calls w). g (call_id c) \<in> set (results v)"
    using assms by (auto simp: renamed_waiting_def all_have_results_def)
  then have "\<forall>i \<in> set (map call_id (calls v)). i \<in> set (results v)"
    using assms(1) by (auto simp: renamed_waiting_def)
  then show ?thesis by (auto simp: all_have_results_def)
qed

lemma first_pass_settles:
  assumes "\<And>i. g i \<noteq> []"
  shows "\<forall>a. Assistant a \<in> set ms \<longrightarrow> \<not> is_same_model a model \<and> (\<forall>i. f i model a = g i) \<Longrightarrow> ids_ok g known ids \<Longrightarrow>
    renamed_waiting g known w v \<Longrightarrow> settle ms w = Some w' \<Longrightarrow> all_have_results w' \<Longrightarrow>
    \<exists>v'. settle (first_pass (Some f) model ms ids) v = Some v' \<and> all_have_results v'"
proof (induction ms arbitrary: known ids w v)
  case Nil
  then show ?case using renamed_all_have_results by auto
next
  case (Cons m ms)
  obtain u where u: "settle1 m w = Some u" "settle ms u = Some w'" using Cons.prems(4) by (auto split: option.splits)
  have rest: "\<forall>a. Assistant a \<in> set ms \<longrightarrow> \<not> is_same_model a model \<and> (\<forall>i. f i model a = g i)" using Cons.prems(1) by simp
  note have_results = renamed_all_have_results [OF Cons.prems(3)]
  show ?case
  proof (cases m)
    case (Assistant a)
    have a: "\<not> is_failed a" "all_have_results w" "u = after_calls (block_calls (assistant_content a))"
      using u(1) by (auto simp: Assistant split: if_splits)
    obtain bs ids' where t: "transform_blocks (Some f) model a (assistant_content a) ids = (bs, ids')" by force
    have foreign: "\<not> is_same_model a model" "\<And>i. f i model a = g i" using Cons.prems(1) by (simp_all add: Assistant)
    note blocks = transform_blocks_ids [OF foreign Cons.prems(2) t]
    let ?known = "known \<union> set (map call_id (block_calls (assistant_content a)))"
    have "renamed_waiting g ?known u (after_calls (block_calls bs))"
      using blocks by (simp add: renamed_waiting_def a(3) after_calls_def)
    then show ?thesis
      using Cons.IH [OF rest conjunct2 [OF blocks] _ u(2) Cons.prems(5)] a(1,2) have_results
      by (simp add: Assistant t is_failed_def)
  next
    case (ToolResult r)
    let ?r = "renamed_result ids r"
    have "renamed_waiting g known u (v\<lparr>results := toolCallId ?r # results v\<rparr>)"
      using Cons.prems(3) u(1) ids_ok_renamed [OF Cons.prems(2) _ assms] by (auto simp: ToolResult renamed_waiting_def)
    then show ?thesis using Cons.IH [OF rest Cons.prems(2) _ u(2) Cons.prems(5)] by (simp add: ToolResult)
  next
    case (User x)
    have "all_have_results w" "u = after_calls []" using u(1) by (auto simp: User split: if_splits)
    moreover have "renamed_waiting g known (after_calls []) (after_calls [])" by (simp add: renamed_waiting_def after_calls_def)
    ultimately show ?thesis
      using Cons.IH [OF rest Cons.prems(2) _ u(2) Cons.prems(5)] have_results by (simp add: User)
  next
    case (System x)
    have "all_have_results w" "u = w" using u(1) by (auto simp: System split: if_splits)
    then show ?thesis using Cons.IH [OF rest Cons.prems(2,3) _ Cons.prems(5)] u(2) have_results by (simp add: System)
  next
    case (Custom t b)
    have "u = w" using u(1) by (simp add: Custom)
    then show ?thesis using Cons.IH [OF rest Cons.prems(2,3) _ Cons.prems(5)] u(2) by (simp add: Custom)
  qed
qed

lemma first_pass_systems: "filter is_system (first_pass rename model ms ids) = filter is_system ms"
  by (induction rename model ms ids rule: first_pass.induct) (auto split: prod.splits)

lemma downgrade_systems: "filter is_system (downgradeUnsupportedImages ms model) = filter is_system ms"
proof -
  have "filter is_system (map downgrade_message ms) = filter is_system ms"
  proof (induction ms)
    case (Cons m ms)
    then show ?case by (cases m) (auto split: content.splits)
  qed simp
  then show ?thesis by (simp add: downgradeUnsupportedImages_def)
qed

lemma settle_downgrade: "settle (downgradeUnsupportedImages ms model) w = settle ms w"
proof -
  have "settle1 (downgrade_message m) w = settle1 m w" for m w by (cases m) (auto split: content.splits)
  then have "settle (map downgrade_message ms) w = settle ms w" by (induction ms arbitrary: w) (auto split: option.splits)
  then show ?thesis by (simp add: downgradeUnsupportedImages_def)
qed

lemma downgrade_assistant: "Assistant a \<in> set (downgradeUnsupportedImages ms model) \<longleftrightarrow> Assistant a \<in> set ms"
proof -
  have "downgrade_message m = Assistant a \<longleftrightarrow> m = Assistant a" for m by (cases m) (auto split: content.splits)
  then have "Assistant a \<in> set (map downgrade_message ms) \<longleftrightarrow> Assistant a \<in> set ms"
    by (induction ms) (simp_all only: list.map list.set insert_iff simp_thms eq_commute [of "Assistant a"])
  then show ?thesis by (simp add: downgradeUnsupportedImages_def)
qed


text \<open>
  A settled history of other models stays settled when its call identifiers are renamed: with a normaliser that depends
  on the identifier only and never gives an empty one, results follow their calls and none is made up.
\<close>
theorem renamed_history_stays_settled:
  assumes "settled messages" and "\<forall>a. Assistant a \<in> set messages \<longrightarrow> \<not> is_same_model a model"
    and "\<forall>i a. f i model a = g i \<and> g i \<noteq> []"
  shows "settled (first_pass (Some f) model (downgradeUnsupportedImages messages model) []) \<and>
    mset (transformMessages now messages model (Some f)) =
      mset (first_pass (Some f) model (downgradeUnsupportedImages messages model) [])"
proof -
  let ?ms = "downgradeUnsupportedImages messages model"
  obtain w where w: "settle ?ms (after_calls []) = Some w" "all_have_results w"
    using assms(1) by (auto simp: settled_def settle_downgrade split: option.splits)
  have "\<exists>v. settle (first_pass (Some f) model ?ms []) (after_calls []) = Some v \<and> all_have_results v"
  proof (rule first_pass_settles [where g = g and known = "{}", OF _ _ _ _ w])
    show "\<forall>a. Assistant a \<in> set ?ms \<longrightarrow> \<not> is_same_model a model \<and> (\<forall>i. f i model a = g i)"
      using assms(2,3) by (simp add: downgrade_assistant)
  qed (use assms(3) in \<open>simp_all add: ids_ok_def renamed_waiting_def after_calls_def\<close>)
  then have "settled (first_pass (Some f) model ?ms [])" by (auto simp: settled_def)
  then show ?thesis using close_calls_settled_same by (simp add: transformMessages_def)
qed

abbreviation example_target :: target_model where
  "example_target \<equiv> \<lparr>model_id = ''m'', model_api = ''api'', model_provider = ''p'', model_input = [''text'']\<rparr>"

abbreviation example_call :: tool_call where
  "example_call \<equiv> \<lparr>call_id = ''a|b'', call_name = ''read'', call_arguments = JObj [], thoughtSignature = Some ''s'', call_namespace = None\<rparr>"

abbreviation example_history :: "message list" where
  "example_history \<equiv>
     [User \<lparr>user_content = Plain ''go'', user_timestamp = 1\<rparr>,
      Assistant \<lparr>assistant_content = [ThinkingBlock ''plan'' None False, CallBlock example_call], assistant_api = ''api'',
        assistant_provider = ''q'', assistant_model = ''other'', stopReason = ToolUseStop, errorMessage = None,
        assistant_timestamp = 2, assistant_rest = JNull\<rparr>,
      ToolResult \<lparr>toolCallId = ''a|b'', toolName = ''read'', result_content = [ImageBlock ''x'' ''image/png''], result_details = None,
        isError = False, result_timestamp = 3, result_rest = JNull\<rparr>]"

theorem renamed_history_stays_settled_witness:
  "settled (first_pass (Some (\<lambda>i _ _. ''t'' @ i)) example_target (downgradeUnsupportedImages example_history example_target) []) \<and>
    mset (transformMessages 9 example_history example_target (Some (\<lambda>i _ _. ''t'' @ i))) =
      mset (first_pass (Some (\<lambda>i _ _. ''t'' @ i)) example_target (downgradeUnsupportedImages example_history example_target) [])"
  by (rule renamed_history_stays_settled [where g = "\<lambda>i. ''t'' @ i"])
    (simp_all add: settled_def after_calls_def all_have_results_def is_failed_def is_same_model_def)

end
