(* ===== verification/Run_Budget.thy ===== *)
theory Run_Budget imports Prelude begin

text \<open>
  Budgets of a run (\<open>packages/agent/src/run-budget.ts\<close>): the controller of one run, and the composition of a run's own
  controller with one that a family of runs shares. A controller is its policy with its counters, a budget is the tree that
  \<open>createCompositeBudgetController\<close> builds. The clock \<open>now\<close> is an action of the world, so that it may move between
  two of the readings inside one operation.
\<close>

datatype budget_limit = ProviderRequests | ToolCalls | WallTime

record budget_policy =
  maxProviderRequests :: "int option"
  maxToolCalls :: "int option"
  maxWallTimeMs :: "int option"

record budget_usage =
  providerRequests :: int
  toolCalls :: int
  maintenanceRequests :: int
  startedAt :: int

record controller =
  policy :: budget_policy
  usage :: budget_usage

datatype budget = Stock controller | Composite budget budget

type_synonym 'w clock = "'w \<Rightarrow> int \<times> 'w"

section \<open>The controller of a run\<close>

definition createRunBudgetController :: "budget_policy \<Rightarrow> 'w clock \<Rightarrow> 'w \<Rightarrow> controller \<times> 'w" where
  "createRunBudgetController p now w =
     (case now w of (t, w') \<Rightarrow>
        (\<lparr>policy = p, usage = \<lparr>providerRequests = 0, toolCalls = 0, maintenanceRequests = 0, startedAt = t\<rparr>\<rparr>, w'))"

definition reached :: "int option \<Rightarrow> int \<Rightarrow> bool" where
  "reached limit n \<longleftrightarrow> (case limit of None \<Rightarrow> False | Some m \<Rightarrow> m \<le> n)"

definition out_of_time :: "'w clock \<Rightarrow> controller \<Rightarrow> 'w \<Rightarrow> bool \<times> 'w" where
  "out_of_time now c w =
     (case maxWallTimeMs (policy c) of
        None \<Rightarrow> (False, w)
      | Some m \<Rightarrow> (case now w of (t, w') \<Rightarrow> (m \<le> t - startedAt (usage c), w')))"

definition stock_exhausted :: "'w clock \<Rightarrow> controller \<Rightarrow> 'w \<Rightarrow> budget_limit option \<times> 'w" where
  "stock_exhausted now c w =
     (if reached (maxProviderRequests (policy c)) (providerRequests (usage c)) then (Some ProviderRequests, w)
      else if reached (maxToolCalls (policy c)) (toolCalls (usage c)) then (Some ToolCalls, w)
      else (case out_of_time now c w of (late, w') \<Rightarrow> (if late then Some WallTime else None, w')))"

definition toolCallAcceptable :: "'w clock \<Rightarrow> controller \<Rightarrow> 'w \<Rightarrow> bool \<times> 'w" where
  "toolCallAcceptable now c w =
     (if reached (maxToolCalls (policy c)) (toolCalls (usage c)) then (False, w)
      else (case out_of_time now c w of (late, w') \<Rightarrow> (\<not> late, w')))"

definition count_request :: "controller \<Rightarrow> controller" where
  "count_request c = c\<lparr>usage := (usage c)\<lparr>providerRequests := providerRequests (usage c) + 1\<rparr>\<rparr>"

definition count_call :: "controller \<Rightarrow> controller" where
  "count_call c = c\<lparr>usage := (usage c)\<lparr>toolCalls := toolCalls (usage c) + 1\<rparr>\<rparr>"

definition count_maintenance :: "controller \<Rightarrow> controller" where
  "count_maintenance c = c\<lparr>usage := (usage c)\<lparr>maintenanceRequests := maintenanceRequests (usage c) + 1\<rparr>\<rparr>"

section \<open>Budgets\<close>

fun exhaustedLimit :: "'w clock \<Rightarrow> budget \<Rightarrow> 'w \<Rightarrow> budget_limit option \<times> 'w" where
  "exhaustedLimit now (Stock c) w = stock_exhausted now c w"
| "exhaustedLimit now (Composite primary shared) w =
     (case exhaustedLimit now primary w of
        (Some l, w') \<Rightarrow> (Some l, w')
      | (None, w') \<Rightarrow> exhaustedLimit now shared w')"

text \<open>\<open>p(primary) || p(shared)\<close>, where \<open>p\<close> looks at the exhausted limit.\<close>

definition either_blocks :: "(budget_limit option \<Rightarrow> bool) \<Rightarrow> 'w clock \<Rightarrow> budget \<Rightarrow> budget \<Rightarrow> 'w \<Rightarrow> bool \<times> 'w" where
  "either_blocks blocks now primary shared w =
     (case exhaustedLimit now primary w of (l, w1) \<Rightarrow>
        if blocks l then (True, w1)
        else (case exhaustedLimit now shared w1 of (l', w2) \<Rightarrow> (blocks l', w2)))"

definition blocksProviderRequest :: "budget_limit option \<Rightarrow> bool" where
  "blocksProviderRequest l \<longleftrightarrow> l \<noteq> None"

definition blocksToolCall :: "budget_limit option \<Rightarrow> bool" where
  "blocksToolCall l \<longleftrightarrow> l = Some ToolCalls \<or> l = Some WallTime"

fun tryBeginProviderRequest :: "'w clock \<Rightarrow> budget \<Rightarrow> 'w \<Rightarrow> (bool \<times> budget) \<times> 'w" where
  "tryBeginProviderRequest now (Stock c) w =
     (case stock_exhausted now c w of (l, w') \<Rightarrow>
        if l \<noteq> None then ((False, Stock c), w') else ((True, Stock (count_request c)), w'))"
| "tryBeginProviderRequest now (Composite primary shared) w =
     (case either_blocks blocksProviderRequest now primary shared w of (blocked, w1) \<Rightarrow>
        if blocked then ((False, Composite primary shared), w1)
        else (case tryBeginProviderRequest now primary w1 of ((ok, primary'), w2) \<Rightarrow>
          if \<not> ok then ((False, Composite primary' shared), w2)
          else (case tryBeginProviderRequest now shared w2 of ((ok', shared'), w3) \<Rightarrow>
            ((ok', Composite primary' shared'), w3))))"

fun tryAcceptToolCall :: "'w clock \<Rightarrow> budget \<Rightarrow> 'w \<Rightarrow> (bool \<times> budget) \<times> 'w" where
  "tryAcceptToolCall now (Stock c) w =
     (case toolCallAcceptable now c w of (ok, w') \<Rightarrow>
        if \<not> ok then ((False, Stock c), w') else ((True, Stock (count_call c)), w'))"
| "tryAcceptToolCall now (Composite primary shared) w =
     (case either_blocks blocksToolCall now primary shared w of (blocked, w1) \<Rightarrow>
        if blocked then ((False, Composite primary shared), w1)
        else (case tryAcceptToolCall now primary w1 of ((ok, primary'), w2) \<Rightarrow>
          if \<not> ok then ((False, Composite primary' shared), w2)
          else (case tryAcceptToolCall now shared w2 of ((ok', shared'), w3) \<Rightarrow>
            ((ok', Composite primary' shared'), w3))))"

fun recordMaintenanceRequest :: "budget \<Rightarrow> budget" where
  "recordMaintenanceRequest (Stock c) = Stock (count_maintenance c)"
| "recordMaintenanceRequest (Composite primary shared) =
     Composite (recordMaintenanceRequest primary) (recordMaintenanceRequest shared)"

fun budget_usage_of :: "budget \<Rightarrow> budget_usage" where
  "budget_usage_of (Stock c) = usage c"
| "budget_usage_of (Composite primary shared) =
     (let a = budget_usage_of primary; b = budget_usage_of shared in
      \<lparr>providerRequests = providerRequests a + providerRequests b, toolCalls = toolCalls a + toolCalls b,
       maintenanceRequests = maintenanceRequests a + maintenanceRequests b, startedAt = min (startedAt a) (startedAt b)\<rparr>)"

fun leaves :: "budget \<Rightarrow> controller list" where
  "leaves (Stock c) = [c]"
| "leaves (Composite primary shared) = leaves primary @ leaves shared"

end
