(* ===== verification/Tool_Errors.thy ===== *)
theory Tool_Errors imports Transcript "HOL-Library.List_Lexorder" "HOL-Library.Char_ord" begin

text \<open>
  Repeated failures of tools (\<open>packages/agent/src/repeated-tool-errors.ts\<close>). The signature of a failed call is its
  name, its arguments with the properties of every object sorted, and the content of its result; the source compares the
  JSON text of the three. The counts are a \<open>Map\<close>, the oldest signature is dropped when there are too many.
  The properties are sorted by character codes where the source uses \<open>localeCompare\<close>: the order of a signature's
  properties may differ, while two objects with the same properties have the same signature in both, as long as the locale
  tells different names apart.
\<close>

definition MAX_IDENTICAL_FAILURES :: nat where
  "MAX_IDENTICAL_FAILURES = 3"

definition MAX_TRACKED_FAILURES :: nat where
  "MAX_TRACKED_FAILURES = 64"

primrec sorted_json :: "json \<Rightarrow> json" where
  "sorted_json JNull = JNull"
| "sorted_json (JBool b) = JBool b"
| "sorted_json (JNum n) = JNum n"
| "sorted_json (JStr s) = JStr s"
| "sorted_json (JArr vs) = JArr (map sorted_json vs)"
| "sorted_json (JObj m) = JObj (sort_key fst (map (map_prod id sorted_json) m))"

type_synonym failure_signature = "string \<times> json \<times> block list"

definition signature :: "tool_call \<Rightarrow> tool_result_message \<Rightarrow> failure_signature" where
  "signature c r = (call_name c, sorted_json (call_arguments c), result_content r)"

type_synonym failure_counts = "(failure_signature \<times> nat) list"

definition drop_oldest :: "failure_counts \<Rightarrow> failure_counts" where
  "drop_oldest counts = (if MAX_TRACKED_FAILURES < length counts then drop 1 counts else counts)"

fun count_failures :: "tool_call list \<Rightarrow> tool_result_message list \<Rightarrow> bool \<Rightarrow> failure_counts \<Rightarrow> bool \<times> failure_counts" where
  "count_failures cs [] repeated counts = (repeated, counts)"
| "count_failures cs (r # rs) repeated counts =
     (case find (\<lambda>c. call_id c = toolCallId r) cs of
        None \<Rightarrow> count_failures cs rs repeated counts
      | Some c \<Rightarrow>
          (let key = signature c r; count = (case al_get key counts of None \<Rightarrow> 0 | Some n \<Rightarrow> n) + 1 in
           count_failures cs rs (repeated \<or> MAX_IDENTICAL_FAILURES \<le> count) (drop_oldest (al_set key count counts))))"

definition record_errors :: "tool_call list \<Rightarrow> tool_result_message list \<Rightarrow> failure_counts \<Rightarrow> bool \<times> failure_counts" where
  "record_errors cs rs counts =
     (if \<exists>r \<in> set rs. \<not> isError r then (False, []) else count_failures cs rs False counts)"

end
