(* ===== verification/Agent_Loop.thy ===== *)
theory Agent_Loop imports Transform_Messages Run_Budget Tool_Errors begin

text \<open>
  The agent loop (\<open>packages/agent/src/agent-loop.ts\<close>, with the types of \<open>types.ts\<close>): a prompt, answers of the
  model, tool calls and their results, until nothing is left to do. The callbacks of the configuration, the stream of the
  model, the tools and the clock are functions of a world \<open>'w\<close>, collected in \<open>env\<close>; any of them may throw where the
  code allows it. An absent callback is one that returns nothing. The state of a run holds the local variables of the loop,
  the events emitted so far, and, for the statements about it, a log of what was asked of the model and the tools.

  The validated arguments of a call are an object of their own that \<open>beforeToolCall\<close> may change: it returns what they
  are afterwards, and the tool is executed with these.

  An \<open>await\<close> runs the awaited action to its end. A response is the list of its stream events and its final message.
  Calls that run in parallel settle one after another in an order that the world chooses. Callbacks do not change the
  messages and tools they are handed otherwise; a context they return replaces the current one.

  Three simplifications follow from this. A stream either throws before its first event or delivers all its events: one
  that throws half-way, which its own contract excludes, is not modelled. When a listener throws while the calls of a
  parallel batch settle, the calls that come later in the order are not settled, where the source leaves their promises
  running unobserved. And the clock is read on every delivery of messages, where the source reads it only when it inserts a
  system message of its own to declare a change of tools; the value is used in that case alone.
\<close>

section \<open>Types\<close>

datatype execution_mode = SequentialMode | ParallelMode

record agent_tool =
  declared_tool :: tool_declaration
  executionMode :: "execution_mode option"

record agent_context =
  context_messages :: "message list"
  context_tools :: "agent_tool list"

record tool_outcome =
  outcome_content :: "block list option"
  outcome_details :: "json option"
  outcome_usage :: "json option"
  outcome_terminate :: "bool option"

record turn =
  turn_message :: assistant_message
  turn_toolResults :: "tool_result_message list"
  turn_context :: agent_context
  turn_newMessages :: "message list"
  turn_hasMoreToolCalls :: bool

datatype turn_decision = ContinueTurn | EndTurn

datatype run_stop = Completed | RunAborted | RunError | BudgetExhausted budget_limit

datatype agent_event =
    AgentStart
  | AgentEnd "message list" "run_stop option"
  | TurnStart
  | TurnEnd assistant_message "tool_result_message list"
  | MessageStart message
  | MessageUpdate message json
  | MessageEnd message
  | ToolExecutionStart string string json
  | ToolExecutionUpdate string string json tool_outcome
  | ToolExecutionEnd string string tool_outcome bool

datatype stream_event = StreamStart assistant_message | StreamUpdate assistant_message json | StreamDone

record turn_update =
  update_context :: "agent_context option"
  update_messages :: "message list"
  update_model :: "target_model option"
  update_thinkingLevel :: "string option"

record before_result =
  before_block :: bool
  before_reason :: "string option"
  before_terminate :: bool

record after_result =
  after_content :: "block list option"
  after_details :: "json option"
  after_usage :: "json option"
  after_isError :: "bool option"
  after_terminate :: "bool option"

text \<open>A tool that throws: the message, and the details of a \<open>ToolExecutionError\<close>.\<close>

type_synonym tool_failure = "string \<times> json option"

record 'w env =
  listener :: "agent_event \<Rightarrow> 'w \<Rightarrow> unit throws \<times> 'w"
  now :: "'w clock"
  aborted :: "'w \<Rightarrow> bool"
  getSteeringMessages :: "'w \<Rightarrow> message list throws \<times> 'w"
  getFollowUpMessages :: "'w \<Rightarrow> message list throws \<times> 'w"
  prepareNextTurn :: "turn \<Rightarrow> 'w \<Rightarrow> turn_update option throws \<times> 'w"
  prepareRequest :: "agent_context \<Rightarrow> target_model \<Rightarrow> string \<Rightarrow> 'w \<Rightarrow> turn_update option throws \<times> 'w"
  finishTurn :: "turn \<Rightarrow> 'w \<Rightarrow> turn_decision option throws \<times> 'w"
  shouldStopAfterTurn :: "turn \<Rightarrow> 'w \<Rightarrow> bool throws \<times> 'w"
  beforeToolCall :: "assistant_message \<Rightarrow> tool_call \<Rightarrow> json \<Rightarrow> agent_context \<Rightarrow> 'w \<Rightarrow> (before_result option \<times> json) throws \<times> 'w"
  afterToolCall :: "assistant_message \<Rightarrow> tool_call \<Rightarrow> json \<Rightarrow> tool_outcome \<Rightarrow> bool \<Rightarrow> agent_context \<Rightarrow> 'w \<Rightarrow> after_result option throws \<times> 'w"
  transformContext :: "message list \<Rightarrow> 'w \<Rightarrow> message list throws \<times> 'w"
  convertToLlm :: "message list \<Rightarrow> 'w \<Rightarrow> message list throws \<times> 'w"
  getApiKey :: "string \<Rightarrow> 'w \<Rightarrow> string option throws \<times> 'w"
  apiKey :: "string option"
  stream :: "target_model \<Rightarrow> message list \<Rightarrow> string option \<Rightarrow> string option \<Rightarrow> 'w \<Rightarrow> (stream_event list \<times> assistant_message) throws \<times> 'w"
  prepareArguments :: "agent_tool \<Rightarrow> json \<Rightarrow> 'w \<Rightarrow> json throws \<times> 'w"
  validateToolArguments :: "agent_tool \<Rightarrow> tool_call \<Rightarrow> json throws"
  execute_tool :: "agent_tool \<Rightarrow> string \<Rightarrow> json \<Rightarrow> 'w \<Rightarrow> (tool_outcome list \<times> (tool_failure + tool_outcome)) \<times> 'w"
  completion :: "nat \<Rightarrow> 'w \<Rightarrow> nat list"
  toolExecution :: execution_mode

text \<open>What was asked of the outside: a request with its messages, a call of a tool with its identifier and arguments.\<close>

datatype asked = Requested "message list" | Executed string string json

record 'w run =
  world :: 'w
  emitted :: "agent_event list"
  log :: "asked list"
  currentContext :: agent_context
  newMessages :: "message list"
  runBudget :: "budget option"
  model :: target_model
  reasoning :: "string option"
  lastCompletedTurn :: "turn option"
  repeatedToolErrors :: failure_counts
  explicitContinuation :: bool
  pendingMessages :: "message list"
  hasMoreToolCalls :: bool

section \<open>Actions\<close>

type_synonym ('w, 'a) io = "'w run \<Rightarrow> 'a throws \<times> 'w run"

definition return_io :: "'a \<Rightarrow> ('w, 'a) io" where
  "return_io a s = (Inr a, s)"

definition bind_io :: "('w, 'a) io \<Rightarrow> ('a \<Rightarrow> ('w, 'b) io) \<Rightarrow> ('w, 'b) io" where
  "bind_io m f s = (case m s of (Inl e, s') \<Rightarrow> (Inl e, s') | (Inr a, s') \<Rightarrow> f a s')"

definition catch_io :: "('w, 'a) io \<Rightarrow> (string \<Rightarrow> ('w, 'a) io) \<Rightarrow> ('w, 'a) io" where
  "catch_io m handler s = (case m s of (Inl e, s') \<Rightarrow> handler e s' | (Inr a, s') \<Rightarrow> (Inr a, s'))"

definition throw_io :: "string \<Rightarrow> ('w, 'a) io" where
  "throw_io e s = (Inl e, s)"

definition read_io :: "('w run \<Rightarrow> 'a) \<Rightarrow> ('w, 'a) io" where
  "read_io f s = (Inr (f s), s)"

definition update_io :: "('w run \<Rightarrow> 'w run) \<Rightarrow> ('w, unit) io" where
  "update_io f s = (Inr (), f s)"

definition call_io :: "('w \<Rightarrow> 'a throws \<times> 'w) \<Rightarrow> ('w, 'a) io" where
  "call_io f s = (case f (world s) of (r, w) \<Rightarrow> (r, s\<lparr>world := w\<rparr>))"

definition safe_io :: "('w \<Rightarrow> 'a \<times> 'w) \<Rightarrow> ('w, 'a) io" where
  "safe_io f s = (case f (world s) of (r, w) \<Rightarrow> (Inr r, s\<lparr>world := w\<rparr>))"

fun each_io :: "('a \<Rightarrow> ('w, unit) io) \<Rightarrow> 'a list \<Rightarrow> ('w, unit) io" where
  "each_io f [] = return_io ()"
| "each_io f (x # xs) = bind_io (f x) (\<lambda>_. each_io f xs)"

definition emit :: "'w env \<Rightarrow> agent_event \<Rightarrow> ('w, unit) io" where
  "emit env ev = bind_io (update_io (\<lambda>s. s\<lparr>emitted := emitted s @ [ev]\<rparr>)) (\<lambda>_. call_io (listener env ev))"

definition is_aborted :: "'w env \<Rightarrow> ('w, bool) io" where
  "is_aborted env = read_io (\<lambda>s. aborted env (world s))"

definition push_context :: "message \<Rightarrow> 'w run \<Rightarrow> 'w run" where
  "push_context m s = s\<lparr>currentContext := (currentContext s)\<lparr>context_messages := context_messages (currentContext s) @ [m]\<rparr>\<rparr>"

definition push_new :: "message \<Rightarrow> 'w run \<Rightarrow> 'w run" where
  "push_new m s = s\<lparr>newMessages := newMessages s @ [m]\<rparr>"

definition emit_message :: "'w env \<Rightarrow> message \<Rightarrow> ('w, unit) io" where
  "emit_message env m = bind_io (emit env (MessageStart m)) (\<lambda>_. emit env (MessageEnd m))"

section \<open>Declaring tools\<close>

fun last_system_index :: "message list \<Rightarrow> nat option" where
  "last_system_index [] = None"
| "last_system_index (m # ms) =
     (case last_system_index ms of
        Some i \<Rightarrow> Some (Suc i)
      | None \<Rightarrow> if is_system m then Some 0 else None)"

definition withToolChanges :: "system_message \<Rightarrow> tool_declaration list \<times> string list \<Rightarrow> system_message" where
  "withToolChanges m changes = m\<lparr>toolsAdded := fst changes, toolsRemoved := snd changes\<rparr>"

definition declared_system :: "message list \<Rightarrow> (nat \<times> system_message) option" where
  "declared_system ms =
     (case last_system_index ms of
        None \<Rightarrow> None
      | Some i \<Rightarrow> (case ms ! i of System m \<Rightarrow> Some (i, m) | _ \<Rightarrow> None))"

definition declareToolChanges :: "int \<Rightarrow> agent_context \<Rightarrow> message list \<Rightarrow> message list" where
  "declareToolChanges time c pending =
     (let found = declared_system pending;
          baseline = (case found of None \<Rightarrow> pending | Some (i, m) \<Rightarrow> pending[i := System (withToolChanges m ([], []))]);
          changes = getToolStateChanges (getCurrentTools (context_messages c @ baseline)) (map declared_tool (context_tools c)) in
      case found of
        Some (i, m) \<Rightarrow>
          if changes = ([], []) \<and> toolsAdded m = [] \<and> toolsRemoved m = [] then pending
          else baseline[i := System (withToolChanges m changes)]
      | None \<Rightarrow>
          if changes = ([], []) then pending
          else
            (let update = withToolChanges \<lparr>system_content = Plain [], sections = [], toolsAdded = [], toolsRemoved = [], system_timestamp = time\<rparr> changes;
                 index = (case find_index (\<lambda>m. \<not> is_system m) pending of None \<Rightarrow> length pending | Some i \<Rightarrow> i) in
             take index pending @ [System update] @ drop index pending))"

section \<open>A response\<close>

definition replace_last_message :: "message \<Rightarrow> 'w run \<Rightarrow> 'w run" where
  "replace_last_message m s =
     s\<lparr>currentContext := (currentContext s)\<lparr>context_messages := butlast (context_messages (currentContext s)) @ [m]\<rparr>\<rparr>"

definition finish_response :: "'w env \<Rightarrow> assistant_message \<Rightarrow> bool \<Rightarrow> ('w, assistant_message) io" where
  "finish_response env final addedPartial =
     bind_io
       (if addedPartial then update_io (replace_last_message (Assistant final))
        else bind_io (update_io (push_context (Assistant final))) (\<lambda>_. emit env (MessageStart (Assistant final))))
       (\<lambda>_. bind_io (emit env (MessageEnd (Assistant final))) (\<lambda>_. return_io final))"

fun stream_loop :: "'w env \<Rightarrow> assistant_message \<Rightarrow> stream_event list \<Rightarrow> bool \<Rightarrow> ('w, assistant_message) io" where
  "stream_loop env final [] addedPartial = finish_response env final addedPartial"
| "stream_loop env final (StreamDone # evs) addedPartial = finish_response env final addedPartial"
| "stream_loop env final (StreamStart m # evs) addedPartial =
     bind_io (update_io (push_context (Assistant m))) (\<lambda>_.
       bind_io (emit env (MessageStart (Assistant m))) (\<lambda>_. stream_loop env final evs True))"
| "stream_loop env final (StreamUpdate m e # evs) addedPartial =
     (if addedPartial
      then bind_io (update_io (replace_last_message (Assistant m))) (\<lambda>_.
        bind_io (emit env (MessageUpdate (Assistant m) e)) (\<lambda>_. stream_loop env final evs True))
      else stream_loop env final evs False)"

definition resolved_key :: "string option \<Rightarrow> string option \<Rightarrow> string option" where
  "resolved_key k fallback = (if k = None \<or> k = Some [] then fallback else k)"

definition streamAssistantResponse :: "'w env \<Rightarrow> ('w, assistant_message) io" where
  "streamAssistantResponse env =
     bind_io (read_io (\<lambda>s. context_messages (currentContext s))) (\<lambda>ms.
     bind_io (call_io (transformContext env ms)) (\<lambda>messages.
     bind_io (call_io (convertToLlm env messages)) (\<lambda>llmMessages.
     bind_io (read_io (\<lambda>s. normalizeContext None [] llmMessages)) (\<lambda>llmContext.
     bind_io (read_io model) (\<lambda>md.
     bind_io (call_io (getApiKey env (model_provider md))) (\<lambda>k.
     bind_io (read_io reasoning) (\<lambda>level.
     bind_io (update_io (\<lambda>s. s\<lparr>log := log s @ [Requested llmContext]\<rparr>)) (\<lambda>_.
     bind_io (call_io (stream env md llmContext level (resolved_key k (apiKey env)))) (\<lambda>(evs, final).
     stream_loop env final evs False)))))))))"

section \<open>Tool calls\<close>

record finalized =
  final_call :: tool_call
  final_result :: tool_outcome
  final_isError :: bool

record prepared =
  prepared_call :: tool_call
  prepared_tool :: agent_tool
  prepared_args :: json

datatype preparation = Prepared prepared | Immediate tool_outcome

definition createErrorToolResult :: "string \<Rightarrow> tool_outcome" where
  "createErrorToolResult message =
     \<lparr>outcome_content = Some [TextBlock message None], outcome_details = Some (JObj []), outcome_usage = None, outcome_terminate = None\<rparr>"

definition emitToolExecutionEnd :: "'w env \<Rightarrow> finalized \<Rightarrow> ('w, unit) io" where
  "emitToolExecutionEnd env f =
     emit env (ToolExecutionEnd (call_id (final_call f)) (call_name (final_call f)) (final_result f) (final_isError f))"

definition createToolResultMessage :: "int \<Rightarrow> finalized \<Rightarrow> tool_result_message" where
  "createToolResultMessage time f =
     \<lparr>toolCallId = call_id (final_call f), toolName = call_name (final_call f),
      result_content = (case outcome_content (final_result f) of None \<Rightarrow> [] | Some bs \<Rightarrow> bs),
      result_details = outcome_details (final_result f), isError = final_isError f, result_timestamp = time,
      result_rest = (case outcome_usage (final_result f) of None \<Rightarrow> JNull | Some u \<Rightarrow> u)\<rparr>"

definition emit_result :: "'w env \<Rightarrow> finalized \<Rightarrow> ('w, tool_result_message) io" where
  "emit_result env f =
     bind_io (safe_io (now env)) (\<lambda>time.
       let r = createToolResultMessage time f in bind_io (emit_message env (ToolResult r)) (\<lambda>_. return_io r))"

definition shouldTerminateToolBatch :: "finalized list \<Rightarrow> bool" where
  "shouldTerminateToolBatch fs \<longleftrightarrow> fs \<noteq> [] \<and> (\<forall>f \<in> set fs. outcome_terminate (final_result f) = Some True)"

definition emit_call_start :: "'w env \<Rightarrow> tool_call \<Rightarrow> ('w, unit) io" where
  "emit_call_start env c = emit env (ToolExecutionStart (call_id c) (call_name c) (call_arguments c))"

abbreviation quote :: string where
  "quote \<equiv> [CHR 0x22]"

definition not_executed :: "tool_call \<Rightarrow> string \<Rightarrow> finalized" where
  "not_executed c why = \<lparr>final_call = c,
     final_result = createErrorToolResult (''Tool call '' @ quote @ call_name c @ quote @ '' was not executed: '' @ why),
     final_isError = True\<rparr>"

text \<open>Calls of an answer that was cut off.\<close>

fun failToolCallsFromTruncatedMessage :: "'w env \<Rightarrow> tool_call list \<Rightarrow> ('w, tool_result_message list) io" where
  "failToolCallsFromTruncatedMessage env [] = return_io []"
| "failToolCallsFromTruncatedMessage env (c # cs) =
     (let f = not_executed c ''the response hit the output token limit, so its arguments may be truncated. Re-issue the tool call with complete arguments.'' in
      bind_io (emit_call_start env c) (\<lambda>_.
      bind_io (emitToolExecutionEnd env f) (\<lambda>_.
      bind_io (emit_result env f) (\<lambda>r.
      bind_io (failToolCallsFromTruncatedMessage env cs) (\<lambda>rs. return_io (r # rs))))))"

definition blocked_result :: "before_result \<Rightarrow> tool_outcome" where
  "blocked_result b =
     (let r = createErrorToolResult (case before_reason b of None \<Rightarrow> ''Tool execution was blocked''
          | Some t \<Rightarrow> if t = [] then ''Tool execution was blocked'' else t) in
      if before_terminate b then r\<lparr>outcome_terminate := Some True\<rparr> else r)"

definition find_tool :: "agent_context \<Rightarrow> string \<Rightarrow> agent_tool option" where
  "find_tool c n = find (\<lambda>t. tool_name (declared_tool t) = n) (context_tools c)"

definition check_call :: "'w env \<Rightarrow> assistant_message \<Rightarrow> tool_call \<Rightarrow> agent_tool \<Rightarrow> ('w, preparation) io" where
  "check_call env a c t =
     bind_io (call_io (prepareArguments env t (call_arguments c))) (\<lambda>raw.
     case validateToolArguments env t (c\<lparr>call_arguments := raw\<rparr>) of
       Inl e \<Rightarrow> throw_io e
     | Inr valid \<Rightarrow>
         bind_io (read_io currentContext) (\<lambda>context.
         bind_io (call_io (beforeToolCall env a c valid context)) (\<lambda>(before, args).
         bind_io (is_aborted env) (\<lambda>stop.
           if stop then return_io (Immediate (createErrorToolResult ''Operation aborted''))
           else (case before of
             Some b \<Rightarrow> if before_block b then return_io (Immediate (blocked_result b))
               else return_io (Prepared \<lparr>prepared_call = c, prepared_tool = t, prepared_args = args\<rparr>)
           | None \<Rightarrow> return_io (Prepared \<lparr>prepared_call = c, prepared_tool = t, prepared_args = args\<rparr>))))))"

definition prepareToolCall :: "'w env \<Rightarrow> assistant_message \<Rightarrow> tool_call \<Rightarrow> ('w, preparation) io" where
  "prepareToolCall env a c =
     bind_io (read_io (\<lambda>s. find_tool (currentContext s) (call_name c))) (\<lambda>found.
       case found of
         None \<Rightarrow> return_io (Immediate (createErrorToolResult (''Tool '' @ call_name c @ '' not found'')))
       | Some t \<Rightarrow> catch_io (check_call env a c t) (\<lambda>e. return_io (Immediate (createErrorToolResult e))))"

text \<open>Progress is reported while the tool runs; every report is made, and the first listener that fails ends the run.\<close>

fun emit_updates :: "'w env \<Rightarrow> tool_call \<Rightarrow> tool_outcome list \<Rightarrow> ('w, unit) io" where
  "emit_updates env c [] = return_io ()"
| "emit_updates env c (u # us) =
     (\<lambda>s. case emit env (ToolExecutionUpdate (call_id c) (call_name c) (call_arguments c) u) s of
        (Inl e, s1) \<Rightarrow> (Inl e, snd (emit_updates env c us s1))
      | (Inr _, s1) \<Rightarrow> emit_updates env c us s1)"

definition executePreparedToolCall :: "'w env \<Rightarrow> prepared \<Rightarrow> ('w, tool_outcome \<times> bool) io" where
  "executePreparedToolCall env p =
     bind_io (update_io (\<lambda>s. s\<lparr>log := log s @
       [Executed (tool_name (declared_tool (prepared_tool p))) (call_id (prepared_call p)) (prepared_args p)]\<rparr>)) (\<lambda>_.
     bind_io (safe_io (execute_tool env (prepared_tool p) (call_id (prepared_call p)) (prepared_args p))) (\<lambda>(updates, outcome).
     bind_io (emit_updates env (prepared_call p) updates) (\<lambda>_.
       return_io (case outcome of
         Inr r \<Rightarrow> (r, False)
       | Inl (message, details) \<Rightarrow>
           (case details of
              None \<Rightarrow> (createErrorToolResult message, True)
            | Some d \<Rightarrow> ((createErrorToolResult message)\<lparr>outcome_details := Some d\<rparr>, True))))))"

definition or_else :: "'a option \<Rightarrow> 'a option \<Rightarrow> 'a option" where
  "or_else a b = (case a of None \<Rightarrow> b | Some _ \<Rightarrow> a)"

definition merge_after :: "after_result \<Rightarrow> tool_outcome \<Rightarrow> tool_outcome" where
  "merge_after a r =
     \<lparr>outcome_content = or_else (after_content a) (outcome_content r), outcome_details = or_else (after_details a) (outcome_details r),
      outcome_usage = or_else (after_usage a) (outcome_usage r), outcome_terminate = or_else (after_terminate a) (outcome_terminate r)\<rparr>"

definition finalizeExecutedToolCall :: "'w env \<Rightarrow> assistant_message \<Rightarrow> prepared \<Rightarrow> tool_outcome \<times> bool \<Rightarrow> ('w, finalized) io" where
  "finalizeExecutedToolCall env a p executed =
     (let final = (\<lambda>(r, e). \<lparr>final_call = prepared_call p, final_result = r, final_isError = e\<rparr>) in
      catch_io
        (bind_io (read_io currentContext) (\<lambda>context.
         bind_io (call_io (afterToolCall env a (prepared_call p) (prepared_args p) (fst executed) (snd executed) context)) (\<lambda>after.
           return_io (case after of
             None \<Rightarrow> final executed
           | Some r \<Rightarrow> final (merge_after r (fst executed), case after_isError r of None \<Rightarrow> snd executed | Some e \<Rightarrow> e)))))
        (\<lambda>e. return_io (final (createErrorToolResult e, True))))"

definition run_prepared :: "'w env \<Rightarrow> assistant_message \<Rightarrow> prepared \<Rightarrow> ('w, finalized) io" where
  "run_prepared env a p = bind_io (executePreparedToolCall env p) (finalizeExecutedToolCall env a p)"

text \<open>The gate of the budget for a call, and for a request; an absent budget lets everything pass.\<close>

definition gate_io :: "('w clock \<Rightarrow> budget \<Rightarrow> 'w \<Rightarrow> (bool \<times> budget) \<times> 'w) \<Rightarrow> 'w env \<Rightarrow> ('w, bool) io" where
  "gate_io gate env s =
     (case runBudget s of
        None \<Rightarrow> (Inr True, s)
      | Some b \<Rightarrow> (case gate (now env) b (world s) of ((ok, b'), w) \<Rightarrow> (Inr ok, s\<lparr>runBudget := Some b', world := w\<rparr>)))"

definition exhausted_io :: "'w env \<Rightarrow> ('w, budget_limit option) io" where
  "exhausted_io env s =
     (case runBudget s of
        None \<Rightarrow> (Inr None, s)
      | Some b \<Rightarrow> (case exhaustedLimit (now env) b (world s) of (l, w) \<Rightarrow> (Inr l, s\<lparr>world := w\<rparr>)))"

fun show_limit :: "budget_limit \<Rightarrow> string" where
  "show_limit ProviderRequests = ''provider-requests''"
| "show_limit ToolCalls = ''tool-calls''"
| "show_limit WallTime = ''wall-time''"

definition out_of_budget :: "tool_call \<Rightarrow> budget_limit option \<Rightarrow> finalized" where
  "out_of_budget c l = not_executed c (''the run'' @ [CHR 0x27] @ ''s '' @ (case l of None \<Rightarrow> ''tool-call'' | Some l \<Rightarrow> show_limit l) @
     '' budget was exhausted before this call started.'')"

text \<open>One call of a batch that runs in sequence.\<close>

definition settle_sequential :: "'w env \<Rightarrow> assistant_message \<Rightarrow> tool_call \<Rightarrow> ('w, finalized) io" where
  "settle_sequential env a c =
     bind_io (prepareToolCall env a c) (\<lambda>p.
       case p of
         Immediate r \<Rightarrow> return_io \<lparr>final_call = c, final_result = r, final_isError = True\<rparr>
       | Prepared p \<Rightarrow>
           bind_io (gate_io tryAcceptToolCall env) (\<lambda>accepted.
             if accepted then run_prepared env a p
             else bind_io (exhausted_io env) (\<lambda>l. return_io (out_of_budget c l))))"

fun executeToolCallsSequential :: "'w env \<Rightarrow> assistant_message \<Rightarrow> tool_call list \<Rightarrow> ('w, (finalized \<times> tool_result_message) list) io" where
  "executeToolCallsSequential env a [] = return_io []"
| "executeToolCallsSequential env a (c # cs) =
     bind_io (emit_call_start env c) (\<lambda>_.
     bind_io (settle_sequential env a c) (\<lambda>f.
     bind_io (emitToolExecutionEnd env f) (\<lambda>_.
     bind_io (emit_result env f) (\<lambda>r.
     bind_io (is_aborted env) (\<lambda>stop.
       if stop then return_io [(f, r)]
       else bind_io (executeToolCallsSequential env a cs) (\<lambda>rest. return_io ((f, r) # rest)))))))"

text \<open>A batch that runs in parallel: the calls are prepared in order, then the accepted ones run.\<close>

datatype entry = Settled finalized | Deferred prepared

definition prepare_entry :: "'w env \<Rightarrow> assistant_message \<Rightarrow> tool_call \<Rightarrow> ('w, entry) io" where
  "prepare_entry env a c =
     bind_io (prepareToolCall env a c) (\<lambda>p.
       case p of
         Immediate r \<Rightarrow>
           (let f = \<lparr>final_call = c, final_result = r, final_isError = True\<rparr> in
            bind_io (emitToolExecutionEnd env f) (\<lambda>_. return_io (Settled f)))
       | Prepared p \<Rightarrow>
           bind_io (gate_io tryAcceptToolCall env) (\<lambda>accepted.
             if accepted then return_io (Deferred p)
             else bind_io (exhausted_io env) (\<lambda>l.
               bind_io (emitToolExecutionEnd env (out_of_budget c l)) (\<lambda>_. return_io (Settled (out_of_budget c l))))))"

fun prepare_entries :: "'w env \<Rightarrow> assistant_message \<Rightarrow> tool_call list \<Rightarrow> ('w, entry list) io" where
  "prepare_entries env a [] = return_io []"
| "prepare_entries env a (c # cs) =
     bind_io (emit_call_start env c) (\<lambda>_.
     bind_io (prepare_entry env a c) (\<lambda>e.
     bind_io (is_aborted env) (\<lambda>stop.
       if stop then return_io [e] else bind_io (prepare_entries env a cs) (\<lambda>es. return_io (e # es)))))"

definition settle_deferred :: "'w env \<Rightarrow> assistant_message \<Rightarrow> prepared \<Rightarrow> ('w, finalized) io" where
  "settle_deferred env a p =
     bind_io (is_aborted env) (\<lambda>stop.
     bind_io (if stop then return_io \<lparr>final_call = prepared_call p, final_result = createErrorToolResult ''Operation aborted'',
         final_isError = True\<rparr> else run_prepared env a p) (\<lambda>f.
     bind_io (emitToolExecutionEnd env f) (\<lambda>_. return_io f)))"

definition settle_entry :: "'w env \<Rightarrow> assistant_message \<Rightarrow> entry \<Rightarrow> ('w, finalized) io" where
  "settle_entry env a e = (case e of Settled f \<Rightarrow> return_io f | Deferred p \<Rightarrow> settle_deferred env a p)"

text \<open>Every index below \<open>n\<close> once: those that the world names, in its order, then the others.\<close>

definition completion_order :: "nat \<Rightarrow> nat list \<Rightarrow> nat list" where
  "completion_order n xs = (let first = remdups (filter (\<lambda>i. i < n) xs) in first @ filter (\<lambda>i. i \<notin> set first) [0..<n])"

fun settle_entries :: "'w env \<Rightarrow> assistant_message \<Rightarrow> entry list \<Rightarrow> nat list \<Rightarrow> (nat \<times> finalized) list \<Rightarrow>
    ('w, (nat \<times> finalized) list) io" where
  "settle_entries env a es [] settled = return_io settled"
| "settle_entries env a es (i # order) settled =
     bind_io (settle_entry env a (es ! i)) (\<lambda>f. settle_entries env a es order ((i, f) # settled))"

definition in_source_order :: "nat \<Rightarrow> (nat \<times> finalized) list \<Rightarrow> finalized list" where
  "in_source_order n settled = concat (map (\<lambda>i. case al_get i settled of None \<Rightarrow> [] | Some f \<Rightarrow> [f]) [0..<n])"

fun emit_results :: "'w env \<Rightarrow> finalized list \<Rightarrow> ('w, (finalized \<times> tool_result_message) list) io" where
  "emit_results env [] = return_io []"
| "emit_results env (f # fs) = bind_io (emit_result env f) (\<lambda>r. bind_io (emit_results env fs) (\<lambda>rest. return_io ((f, r) # rest)))"

definition executeToolCallsParallel :: "'w env \<Rightarrow> assistant_message \<Rightarrow> tool_call list \<Rightarrow> ('w, (finalized \<times> tool_result_message) list) io" where
  "executeToolCallsParallel env a cs =
     bind_io (prepare_entries env a cs) (\<lambda>es.
     bind_io (read_io (\<lambda>s. completion_order (length es) (completion env (length es) (world s)))) (\<lambda>order.
     bind_io (settle_entries env a es order []) (\<lambda>settled.
       emit_results env (in_source_order (length es) settled))))"

definition runs_sequentially :: "'w env \<Rightarrow> agent_context \<Rightarrow> tool_call list \<Rightarrow> bool" where
  "runs_sequentially env c cs \<longleftrightarrow> toolExecution env = SequentialMode \<or>
     (\<exists>tc \<in> set cs. case find_tool c (call_name tc) of None \<Rightarrow> False | Some t \<Rightarrow> executionMode t = Some SequentialMode)"

text \<open>The messages of the batch, and whether every call asks to end the run.\<close>

definition executeToolCalls :: "'w env \<Rightarrow> assistant_message \<Rightarrow> ('w, tool_result_message list \<times> bool) io" where
  "executeToolCalls env a =
     (let cs = block_calls (assistant_content a) in
      bind_io (read_io (\<lambda>s. runs_sequentially env (currentContext s) cs)) (\<lambda>sequential.
      bind_io (if sequential then executeToolCallsSequential env a cs else executeToolCallsParallel env a cs) (\<lambda>batch.
        return_io (map snd batch, shouldTerminateToolBatch (map fst batch)))))"

section \<open>One turn\<close>

definition new_level :: "string option \<Rightarrow> string option \<Rightarrow> string option" where
  "new_level update old = (case update of None \<Rightarrow> old | Some l \<Rightarrow> if l = ''off'' then None else Some l)"

definition apply_update :: "turn_update option \<Rightarrow> 'w run \<Rightarrow> 'w run" where
  "apply_update u s =
     (case u of
        None \<Rightarrow> s
      | Some u \<Rightarrow> s\<lparr>currentContext := (case update_context u of None \<Rightarrow> currentContext s | Some c \<Rightarrow> c),
          model := (case update_model u of None \<Rightarrow> model s | Some m \<Rightarrow> m),
          reasoning := new_level (update_thinkingLevel u) (reasoning s)\<rparr>)"

definition poll_steering :: "'w env \<Rightarrow> ('w, unit) io" where
  "poll_steering env = bind_io (call_io (getSteeringMessages env)) (\<lambda>ms. update_io (\<lambda>s. s\<lparr>pendingMessages := ms\<rparr>))"

text \<open>Before every turn but the first: the messages that the preparation adds.\<close>

definition prepare_turn :: "'w env \<Rightarrow> ('w, message list) io" where
  "prepare_turn env =
     bind_io (read_io lastCompletedTurn) (\<lambda>last.
       case last of
         None \<Rightarrow> return_io []
       | Some t \<Rightarrow>
           bind_io (call_io (prepareNextTurn env t)) (\<lambda>u.
           bind_io (update_io (apply_update u)) (\<lambda>_.
           bind_io (read_io (\<lambda>s. pendingMessages s = [])) (\<lambda>none.
           bind_io (if none then poll_steering env else return_io ()) (\<lambda>_.
           bind_io (emit env TurnStart) (\<lambda>_.
             return_io (case u of None \<Rightarrow> [] | Some u \<Rightarrow> update_messages u)))))))"

definition deliver :: "'w env \<Rightarrow> message \<Rightarrow> ('w, unit) io" where
  "deliver env m = bind_io (emit_message env m) (\<lambda>_. update_io (\<lambda>s. push_new m (push_context m s)))"

definition deliver_messages :: "'w env \<Rightarrow> message list \<Rightarrow> ('w, unit) io" where
  "deliver_messages env prepared_messages =
     bind_io (update_io (\<lambda>s. if pendingMessages s \<noteq> [] then s\<lparr>repeatedToolErrors := []\<rparr> else s)) (\<lambda>_.
     bind_io (safe_io (now env)) (\<lambda>time.
     bind_io (read_io (\<lambda>s. declareToolChanges time (currentContext s) (prepared_messages @ pendingMessages s))) (\<lambda>ms.
     bind_io (each_io (deliver env) ms) (\<lambda>_. update_io (\<lambda>s. s\<lparr>pendingMessages := []\<rparr>)))))"

definition finish_run :: "'w env \<Rightarrow> run_stop \<Rightarrow> ('w, unit) io" where
  "finish_run env stop = bind_io (read_io newMessages) (\<lambda>ms. emit env (AgentEnd ms (Some stop)))"

definition over_budget :: "'w env \<Rightarrow> ('w, unit) io" where
  "over_budget env =
     bind_io (is_aborted env) (\<lambda>stop.
       if stop then finish_run env RunAborted
       else bind_io (exhausted_io env) (\<lambda>l. finish_run env (BudgetExhausted (case l of None \<Rightarrow> ProviderRequests | Some l \<Rightarrow> l))))"

definition prepare_request :: "'w env \<Rightarrow> ('w, unit) io" where
  "prepare_request env =
     bind_io (read_io (\<lambda>s. (currentContext s, model s, case reasoning s of None \<Rightarrow> ''off'' | Some l \<Rightarrow> l))) (\<lambda>(c, md, level).
     bind_io (call_io (prepareRequest env c md level)) (\<lambda>u. update_io (apply_update u)))"

definition complete_turn :: "assistant_message \<Rightarrow> tool_result_message list \<Rightarrow> bool \<Rightarrow> 'w run \<Rightarrow> turn" where
  "complete_turn a rs again s = \<lparr>turn_message = a, turn_toolResults = rs, turn_context = currentContext s,
     turn_newMessages = newMessages s, turn_hasMoreToolCalls = again\<rparr>"

text \<open>The turn is recorded and shown to \<open>finishTurn\<close>, then it ends.\<close>

definition finish_turn :: "'w env \<Rightarrow> assistant_message \<Rightarrow> tool_result_message list \<Rightarrow> bool \<Rightarrow> ('w, turn_decision option) io" where
  "finish_turn env a rs again =
     bind_io (read_io (complete_turn a rs again)) (\<lambda>t.
     bind_io (update_io (\<lambda>s. s\<lparr>lastCompletedTurn := Some t\<rparr>)) (\<lambda>_.
     bind_io (call_io (finishTurn env t)) (\<lambda>decision.
     bind_io (emit env (TurnEnd a rs)) (\<lambda>_. return_io decision))))"

definition failed_turn :: "'w env \<Rightarrow> assistant_message \<Rightarrow> ('w, unit) io" where
  "failed_turn env a =
     bind_io (is_aborted env) (\<lambda>stop.
     bind_io (finish_turn env a [] False) (\<lambda>_.
       finish_run env (if stop \<or> stopReason a = AbortedStop then RunAborted else RunError)))"

definition no_results :: "tool_result_message list \<times> bool" where
  "no_results = ([], True)"

definition run_tools :: "'w env \<Rightarrow> assistant_message \<Rightarrow> ('w, tool_result_message list) io" where
  "run_tools env a =
     (let cs = block_calls (assistant_content a) in
      bind_io
        (if cs = [] then return_io no_results
         else if stopReason a = LengthStop
         then bind_io (failToolCallsFromTruncatedMessage env cs) (\<lambda>rs. return_io (rs, False))
         else executeToolCalls env a)
        (\<lambda>(rs, end_batch).
      bind_io (update_io (\<lambda>s. s\<lparr>hasMoreToolCalls := \<not> end_batch\<rparr>)) (\<lambda>_.
      bind_io (update_io (\<lambda>s. fold (\<lambda>r s. push_new (ToolResult r) (push_context (ToolResult r) s)) rs s)) (\<lambda>_.
        return_io rs))))"

definition failure_message :: "target_model \<Rightarrow> int \<Rightarrow> assistant_message" where
  "failure_message md time = \<lparr>assistant_content = [], assistant_api = model_api md, assistant_provider = model_provider md,
     assistant_model = model_id md, stopReason = ErrorStop,
     errorMessage = Some ''Stopped after 3 identical failed tool calls without successful work. Check the tool arguments and schema before continuing.'',
     assistant_timestamp = time, assistant_rest = JNull\<rparr>"

definition stop_repeating :: "'w env \<Rightarrow> ('w, unit) io" where
  "stop_repeating env =
     bind_io (safe_io (now env)) (\<lambda>time.
     bind_io (read_io (\<lambda>s. failure_message (model s) time)) (\<lambda>a.
     bind_io (update_io (\<lambda>s. push_new (Assistant a) (push_context (Assistant a) s))) (\<lambda>_.
     bind_io (emit env TurnStart) (\<lambda>_.
     bind_io (emit_message env (Assistant a)) (\<lambda>_.
     bind_io (emit env (TurnEnd a [])) (\<lambda>_. finish_run env RunError))))))"

text \<open>After the tools: \<open>True\<close> when the run is over.\<close>

definition conclude_turn :: "'w env \<Rightarrow> assistant_message \<Rightarrow> tool_result_message list \<Rightarrow> ('w, bool) io" where
  "conclude_turn env a rs =
     bind_io (read_io hasMoreToolCalls) (\<lambda>again.
     bind_io (finish_turn env a rs again) (\<lambda>decision.
     bind_io (read_io lastCompletedTurn) (\<lambda>last.
     bind_io (if decision = Some EndTurn then return_io True
       else (case last of None \<Rightarrow> return_io False | Some t \<Rightarrow> call_io (shouldStopAfterTurn env t))) (\<lambda>stop.
       if stop then bind_io (finish_run env Completed) (\<lambda>_. return_io True)
       else
         bind_io (update_io (\<lambda>s. s\<lparr>explicitContinuation := (decision = Some ContinueTurn)\<rparr>)) (\<lambda>_.
         bind_io (poll_steering env) (\<lambda>_.
         bind_io (read_io (\<lambda>s. record_errors (block_calls (assistant_content a)) rs (repeatedToolErrors s))) (\<lambda>(repeated, counts).
         bind_io (update_io (\<lambda>s. s\<lparr>repeatedToolErrors := counts\<rparr>)) (\<lambda>_.
         bind_io (read_io (\<lambda>s. repeated \<and> pendingMessages s = [] \<and> \<not> aborted env (world s))) (\<lambda>give_up.
           if give_up then bind_io (stop_repeating env) (\<lambda>_. return_io True)
           else bind_io (update_io (\<lambda>s. if hasMoreToolCalls s \<or> pendingMessages s \<noteq> [] then s\<lparr>explicitContinuation := False\<rparr> else s))
             (\<lambda>_. return_io False)))))))))) "

text \<open>The body of the inner loop: \<open>True\<close> when the run is over.\<close>

definition answer_turn :: "'w env \<Rightarrow> ('w, bool) io" where
  "answer_turn env =
     bind_io (prepare_request env) (\<lambda>_.
     bind_io (streamAssistantResponse env) (\<lambda>a.
     bind_io (update_io (push_new (Assistant a))) (\<lambda>_.
       if stopReason a = ErrorStop \<or> stopReason a = AbortedStop
       then bind_io (failed_turn env a) (\<lambda>_. return_io True)
       else bind_io (run_tools env a) (conclude_turn env a))))"

definition run_turn :: "'w env \<Rightarrow> ('w, bool) io" where
  "run_turn env =
     bind_io (prepare_turn env) (\<lambda>prepared_messages.
     bind_io (deliver_messages env prepared_messages) (\<lambda>_.
     bind_io (gate_io tryBeginProviderRequest env) (\<lambda>allowed.
       if allowed then answer_turn env else bind_io (over_budget env) (\<lambda>_. return_io True))))"

section \<open>The loop\<close>

text \<open>Between two rounds of the inner loop: \<open>True\<close> when the outer loop goes on.\<close>

definition next_round :: "'w env \<Rightarrow> ('w, bool) io" where
  "next_round env =
     bind_io (call_io (getFollowUpMessages env)) (\<lambda>ms.
       if ms \<noteq> []
       then bind_io (update_io (\<lambda>s. s\<lparr>explicitContinuation := False, pendingMessages := ms, hasMoreToolCalls := True\<rparr>)) (\<lambda>_. return_io True)
       else bind_io (read_io explicitContinuation) (\<lambda>continue.
         if continue
         then bind_io (update_io (\<lambda>s. s\<lparr>explicitContinuation := False, hasMoreToolCalls := True\<rparr>)) (\<lambda>_. return_io True)
         else bind_io (finish_run env Completed) (\<lambda>_. return_io False)))"

text \<open>One iteration of the two nested loops: \<open>True\<close> when another one follows.\<close>

definition iteration :: "'w env \<Rightarrow> ('w, bool) io" where
  "iteration env s =
     (if hasMoreToolCalls s \<or> pendingMessages s \<noteq> []
      then bind_io (run_turn env) (\<lambda>over. return_io (\<not> over)) s
      else next_round env s)"

partial_function (option) iterate :: "'w env \<Rightarrow> 'w run \<Rightarrow> (unit throws \<times> 'w run) option" where
  "iterate env s =
     (case iteration env s of
        (Inl e, s') \<Rightarrow> Some (Inl e, s')
      | (Inr again, s') \<Rightarrow> if again then iterate env s' else Some (Inr (), s'))"

definition runLoop :: "'w env \<Rightarrow> 'w run \<Rightarrow> (unit throws \<times> 'w run) option" where
  "runLoop env s =
     (case poll_steering env s of
        (Inl e, s') \<Rightarrow> Some (Inl e, s')
      | (Inr _, s') \<Rightarrow> iterate env (s'\<lparr>hasMoreToolCalls := True\<rparr>))"

definition initial_run :: "'w \<Rightarrow> agent_context \<Rightarrow> budget option \<Rightarrow> target_model \<Rightarrow> string option \<Rightarrow> 'w run" where
  "initial_run w c b md level = \<lparr>world = w, emitted = [], log = [], currentContext = c, newMessages = [], runBudget = b,
     model = md, reasoning = level, lastCompletedTurn = None, repeatedToolErrors = [], explicitContinuation = False,
     pendingMessages = [], hasMoreToolCalls = True\<rparr>"

definition start_prompts :: "'w env \<Rightarrow> message list \<Rightarrow> ('w, unit) io" where
  "start_prompts env prompts =
     bind_io (safe_io (now env)) (\<lambda>time.
     bind_io (read_io (\<lambda>s. declareToolChanges time (currentContext s) prompts)) (\<lambda>initial.
     bind_io (update_io (\<lambda>s. fold (\<lambda>m s. push_new m (push_context m s)) initial s)) (\<lambda>_.
     bind_io (emit env AgentStart) (\<lambda>_.
     bind_io (emit env TurnStart) (\<lambda>_. each_io (emit_message env) initial)))))"

definition then_loop :: "'w env \<Rightarrow> ('w, unit) io \<Rightarrow> 'w run \<Rightarrow> (message list throws \<times> 'w run) option" where
  "then_loop env start s =
     (case start s of
        (Inl e, s') \<Rightarrow> Some (Inl e, s')
      | (Inr _, s') \<Rightarrow>
          (case runLoop env s' of
             None \<Rightarrow> None
           | Some (Inl e, s'') \<Rightarrow> Some (Inl e, s'')
           | Some (Inr _, s'') \<Rightarrow> Some (Inr (newMessages s''), s'')))"

definition runAgentLoop :: "'w env \<Rightarrow> message list \<Rightarrow> 'w run \<Rightarrow> (message list throws \<times> 'w run) option" where
  "runAgentLoop env prompts = then_loop env (start_prompts env prompts)"

definition start_continue :: "'w env \<Rightarrow> ('w, unit) io" where
  "start_continue env =
     bind_io (read_io (\<lambda>s. context_messages (currentContext s))) (\<lambda>ms.
       if ms = [] then throw_io ''Cannot continue: no messages in context''
       else if is_assistant (last ms) then throw_io ''Cannot continue from message role: assistant''
       else bind_io (emit env AgentStart) (\<lambda>_. emit env TurnStart))"

definition runAgentLoopContinue :: "'w env \<Rightarrow> 'w run \<Rightarrow> (message list throws \<times> 'w run) option" where
  "runAgentLoopContinue env = then_loop env (start_continue env)"

end
