(* ===== verification/Agent_Loop_Rules.thy ===== *)
theory Agent_Loop_Rules imports Agent_Loop begin

text \<open>
  Rules for the actions of the loop. \<open>ensures P m Q E\<close> says that from a state with \<open>P\<close> the action \<open>m\<close>
  returns a value and a state with \<open>Q\<close>, or throws in a state with \<open>E\<close>. The rules follow the combinators; those in
  \<open>io_rules\<close> need no further choice. A property that ignores the fields an action changes is kept by it.
\<close>

named_theorems io_rules \<open>rules of the combinators of the loop\<close>

definition ensures :: "('w run \<Rightarrow> bool) \<Rightarrow> ('w, 'a) io \<Rightarrow> ('a \<Rightarrow> 'w run \<Rightarrow> bool) \<Rightarrow> ('w run \<Rightarrow> bool) \<Rightarrow> bool" where
  "ensures P m Q E \<longleftrightarrow> (\<forall>s. P s \<longrightarrow> (case m s of (Inr a, s') \<Rightarrow> Q a s' | (Inl _, s') \<Rightarrow> E s'))"

lemma ensuresI: "(\<And>s. P s \<Longrightarrow> case m s of (Inr a, s') \<Rightarrow> Q a s' | (Inl _, s') \<Rightarrow> E s') \<Longrightarrow> ensures P m Q E"
  by (simp add: ensures_def)

lemma ensures_return: "ensures P m Q E \<Longrightarrow> P s \<Longrightarrow> m s = (Inr a, s') \<Longrightarrow> Q a s'"
  by (auto simp: ensures_def)

lemma ensures_throw: "ensures P m Q E \<Longrightarrow> P s \<Longrightarrow> m s = (Inl e, s') \<Longrightarrow> E s'"
  by (force simp: ensures_def)

lemma ensures_weaken:
  assumes "ensures P m Q E" and "\<And>s. P' s \<Longrightarrow> P s" and "\<And>a s. Q a s \<Longrightarrow> Q' a s" and "\<And>s. E s \<Longrightarrow> E' s"
  shows "ensures P' m Q' E'"
  using assms unfolding ensures_def by (fastforce split: prod.splits sum.splits)

lemma ensures_pre: "ensures P m Q E \<Longrightarrow> (\<And>s. P' s \<Longrightarrow> P s) \<Longrightarrow> ensures P' m Q E"
  by (erule ensures_weaken) simp_all

lemma ensures_post: "ensures P m Q E \<Longrightarrow> (\<And>a s. Q a s \<Longrightarrow> Q' a s) \<Longrightarrow> ensures P m Q' E"
  by (erule ensures_weaken) simp_all

lemma ensures_conj:
  assumes "ensures P m Q E" and "ensures P' m Q' E'"
  shows "ensures (\<lambda>s. P s \<and> P' s) m (\<lambda>a s. Q a s \<and> Q' a s) (\<lambda>s. E s \<and> E' s)"
  using assms unfolding ensures_def by (fastforce split: prod.splits sum.splits)

lemma ensures_return_io [io_rules]: "ensures (Q a) (return_io a) Q E"
  by (simp add: ensures_def return_io_def)

lemma ensures_throw_io: "(\<And>s. P s \<Longrightarrow> E s) \<Longrightarrow> ensures P (throw_io e) Q E"
  by (simp add: ensures_def throw_io_def)

lemma ensures_bind:
  assumes "ensures P m R E" and "\<And>a. ensures (R a) (f a) Q E"
  shows "ensures P (bind_io m f) Q E"
  using assms unfolding ensures_def bind_io_def by (fastforce split: prod.splits sum.splits)

lemma ensures_catch:
  assumes "ensures P m Q R" and "\<And>e. ensures R (h e) Q E"
  shows "ensures P (catch_io m h) Q E"
  using assms unfolding ensures_def catch_io_def by (fastforce split: prod.splits sum.splits)

lemma ensures_read: "ensures (\<lambda>s. Q (f s) s) (read_io f) Q E"
  by (simp add: ensures_def read_io_def)

lemma ensures_update: "ensures (\<lambda>s. Q () (f s)) (update_io f) Q E"
  by (simp add: ensures_def update_io_def)

lemma ensures_each:
  assumes "\<And>x. x \<in> set xs \<Longrightarrow> ensures I (f x) (\<lambda>_. I) E"
  shows "ensures I (each_io f xs) (\<lambda>_. I) E"
  using assms
proof (induction xs)
  case (Cons x xs)
  show ?case unfolding each_io.simps by (rule ensures_bind [OF Cons.prems Cons.IH]) (use Cons.prems in auto)
qed (unfold each_io.simps, rule ensures_return_io)

lemma ensures_if: "(b \<Longrightarrow> ensures P m Q E) \<Longrightarrow> (\<not> b \<Longrightarrow> ensures P n Q E) \<Longrightarrow> ensures P (if b then m else n) Q E"
  by simp

section \<open>Properties that every step of an action keeps\<close>

text \<open>\<open>keeps I m\<close>: the action keeps \<open>I\<close>, whether it returns or throws.\<close>

definition keeps :: "('w run \<Rightarrow> bool) \<Rightarrow> ('w, 'a) io \<Rightarrow> bool" where
  "keeps I m \<longleftrightarrow> (\<forall>s. I s \<longrightarrow> I (snd (m s)))"

lemma keepsD: "keeps I m \<Longrightarrow> I s \<Longrightarrow> m s = (r, s') \<Longrightarrow> I s'"
  by (force simp: keeps_def)

lemma keeps_ensures: "keeps I m \<Longrightarrow> ensures I m (\<lambda>_. I) I"
  unfolding keeps_def ensures_def by (auto split: prod.splits sum.splits)

lemma keeps_return [io_rules]: "keeps I (return_io a)"
  by (simp add: keeps_def return_io_def)

lemma keeps_throw [io_rules]: "keeps I (throw_io a)"
  by (simp add: keeps_def throw_io_def)

lemma keeps_read [io_rules]: "keeps I (read_io f)"
  by (simp add: keeps_def read_io_def)

lemma keeps_bind [io_rules]: "keeps I m \<Longrightarrow> (\<And>a. keeps I (f a)) \<Longrightarrow> keeps I (bind_io m f)"
  unfolding keeps_def bind_io_def by (auto split: prod.splits sum.splits)

lemma keeps_catch [io_rules]: "keeps I m \<Longrightarrow> (\<And>a. keeps I (h a)) \<Longrightarrow> keeps I (catch_io m h)"
  unfolding keeps_def catch_io_def by (auto split: prod.splits sum.splits)

lemma keeps_update: "(\<And>s. I s \<Longrightarrow> I (f s)) \<Longrightarrow> keeps I (update_io f)"
  by (simp add: keeps_def update_io_def)

lemma keeps_call: "(\<And>s w. I s \<Longrightarrow> I (s\<lparr>world := w\<rparr>)) \<Longrightarrow> keeps I (call_io f)"
  by (simp add: keeps_def call_io_def split: prod.splits)

lemma keeps_safe: "(\<And>s w. I s \<Longrightarrow> I (s\<lparr>world := w\<rparr>)) \<Longrightarrow> keeps I (safe_io f)"
  by (simp add: keeps_def safe_io_def split: prod.splits)

lemma keeps_each [io_rules]: "(\<And>x. keeps I (f x)) \<Longrightarrow> keeps I (each_io f xs)"
  by (induction xs) (simp_all add: keeps_return keeps_bind)

lemma keeps_if [io_rules]: "keeps I m \<Longrightarrow> keeps I n \<Longrightarrow> keeps I (if b then m else n)"
  by simp

section \<open>The loop\<close>

lemma iterate_rule:
  assumes "ensures I (iteration env) (\<lambda>again s. if again then I s else Q s) E" and "I s" and "iterate env s = Some (r, s')"
  shows "case r of Inl _ \<Rightarrow> E s' | Inr _ \<Rightarrow> Q s'"
proof -
  have "I s \<longrightarrow> (case fst x of Inl _ \<Rightarrow> E (snd x) | Inr _ \<Rightarrow> Q (snd x))" if "iterate env s = Some x" for s x
  proof (rule iterate.raw_induct [where P = "\<lambda>env' s x. env' = env \<longrightarrow> I s \<longrightarrow>
      (case fst x of Inl _ \<Rightarrow> E (snd x) | Inr _ \<Rightarrow> Q (snd x))", OF _ that, THEN mp, OF _ refl])
    fix loop env' s x
    assume IH: "\<And>env' s x. loop env' s = Some x \<Longrightarrow> env' = env \<longrightarrow> I s \<longrightarrow>
        (case fst x of Inl _ \<Rightarrow> E (snd x) | Inr _ \<Rightarrow> Q (snd x))"
      and x: "(case iteration env' s of (Inl e, s') \<Rightarrow> Some (Inl e, s')
        | (Inr again, s') \<Rightarrow> if again then loop env' s' else Some (Inr (), s')) = Some x"
    show "env' = env \<longrightarrow> I s \<longrightarrow> (case fst x of Inl _ \<Rightarrow> E (snd x) | Inr _ \<Rightarrow> Q (snd x))"
    proof (intro impI)
      assume env: "env' = env" and I: "I s"
      obtain o' s1 where i: "iteration env s = (o', s1)" by force
      show "case fst x of Inl _ \<Rightarrow> E (snd x) | Inr _ \<Rightarrow> Q (snd x)"
      proof (cases o')
        case (Inl e)
        have "E s1" by (rule ensures_throw [OF assms(1) I i [unfolded Inl]])
        then show ?thesis using x env i Inl by auto
      next
        case (Inr again)
        then have after: "if again then I s1 else Q s1" using i ensures_return [OF assms(1) I] by simp
        show ?thesis
        proof (cases again)
          case True
          then show ?thesis using IH [of env s1 x] x env i Inr after by simp
        next
          case False
          then show ?thesis using x env i Inr after by auto
        qed
      qed
    qed
  qed
  from this [OF assms(3)] show ?thesis using assms(2) by (cases r) simp_all
qed

lemma iteration_rule:
  assumes "ensures I (bind_io (run_turn env) (\<lambda>over. return_io (\<not> over))) R E" and "ensures I (next_round env) R E"
  shows "ensures I (iteration env) R E"
proof (rule ensuresI)
  fix s
  assume "I s"
  then show "case iteration env s of (Inr a, s') \<Rightarrow> R a s' | (Inl _, s') \<Rightarrow> E s'"
    using assms unfolding iteration_def ensures_def by (cases "hasMoreToolCalls s \<or> pendingMessages s \<noteq> []") simp_all
qed

text \<open>What every part of a run keeps holds at the end of the run, whether it returns or throws.\<close>

lemma run_keeps:
  fixes start :: "('w, unit) io"
  assumes "keeps I start" and "keeps I (poll_steering env)" and "\<And>s. I s \<Longrightarrow> I (s\<lparr>hasMoreToolCalls := True\<rparr>)"
    and "ensures I (iteration env) (\<lambda>_. I) I" and "I s" and "then_loop env start s = Some (r, s')"
  shows "I s'"
proof -
  obtain r1 s1 where s1: "start s = (r1, s1)" by force
  have I1: "I s1" by (rule keepsD [OF assms(1,5) s1])
  obtain r2 s2 where s2: "poll_steering env s1 = (r2, s2)" by force
  have I2: "I s2" by (rule keepsD [OF assms(2) I1 s2])
  have both: "ensures I (iteration env) (\<lambda>again s. if again then I s else I s) I" by (rule ensures_post [OF assms(4)]) simp
  have iter: "I s3" if it: "iterate env (s2\<lparr>hasMoreToolCalls := True\<rparr>) = Some (r3, s3)" for r3 s3
    using iterate_rule [OF both assms(3) [OF I2] it] by (simp split: sum.splits)
  show ?thesis
  proof (cases r1)
    case (Inl e)
    then show ?thesis using assms(6) s1 I1 by (auto simp: then_loop_def)
  next
    case (Inr u)
    show ?thesis
    proof (cases r2)
      case (Inl e)
      then show ?thesis using assms(6) s1 Inr s2 I2 by (auto simp: then_loop_def runLoop_def)
    next
      case (Inr v)
      then show ?thesis using assms(6) s1 \<open>r1 = Inr u\<close> s2 iter
        by (auto simp: then_loop_def runLoop_def split: option.splits prod.splits sum.splits)
    qed
  qed
qed

end
