(* ===== verification/Agent_Loop_Events.thy ===== *)
theory Agent_Loop_Events imports Agent_Loop_Rules begin

text \<open>
  The events of a run follow a life cycle, and the messages whose end was announced are the messages the run returns. The
  automaton \<open>stage_step\<close> is the life cycle; every action of the loop is followed through it.
\<close>

section \<open>The life cycle\<close>

datatype stage = Before | Between | InTurn | InMessage | After

fun stage_step :: "agent_event \<Rightarrow> stage \<Rightarrow> stage option" where
  "stage_step AgentStart Before = Some Between"
| "stage_step TurnStart Between = Some InTurn"
| "stage_step (MessageStart _) InTurn = Some InMessage"
| "stage_step (MessageUpdate _ _) InMessage = Some InMessage"
| "stage_step (MessageEnd _) InMessage = Some InTurn"
| "stage_step (ToolExecutionStart _ _ _) InTurn = Some InTurn"
| "stage_step (ToolExecutionUpdate _ _ _ _) InTurn = Some InTurn"
| "stage_step (ToolExecutionEnd _ _ _ _) InTurn = Some InTurn"
| "stage_step (TurnEnd _ _) InTurn = Some Between"
| "stage_step (AgentEnd _ _) Between = Some After"
| "stage_step (AgentEnd _ _) InTurn = Some After"
| "stage_step _ _ = None"

fun run_stage :: "agent_event list \<Rightarrow> stage \<Rightarrow> stage option" where
  "run_stage [] st = Some st"
| "run_stage (ev # evs) st = (case stage_step ev st of None \<Rightarrow> None | Some st' \<Rightarrow> run_stage evs st')"

fun ended_message :: "agent_event \<Rightarrow> message list" where
  "ended_message (MessageEnd m) = [m]"
| "ended_message _ = []"

definition ended_messages :: "agent_event list \<Rightarrow> message list" where
  "ended_messages evs = concat (map ended_message evs)"

lemma run_stage_append: "run_stage (xs @ ys) st = (case run_stage xs st of None \<Rightarrow> None | Some st' \<Rightarrow> run_stage ys st')"
  by (induction xs arbitrary: st) (auto split: option.splits)

lemma ended_messages_append [simp]: "ended_messages (xs @ ys) = ended_messages xs @ ended_messages ys"
  by (simp add: ended_messages_def)

lemma ended_messages_one [simp]: "ended_messages [ev] = ended_message ev"
  by (simp add: ended_messages_def)

section \<open>Where a run is\<close>

text \<open>The stage, whether no turn is complete, the messages ended and those collected.\<close>

definition at :: "stage \<Rightarrow> bool \<Rightarrow> message list \<Rightarrow> message list \<Rightarrow> 'w run \<Rightarrow> bool" where
  "at st first ms ns s \<longleftrightarrow> run_stage (emitted s) Before = Some st \<and> (lastCompletedTurn s = None) = first \<and>
     ended_messages (emitted s) = ms \<and> newMessages s = ns"

definition legal :: "'w run \<Rightarrow> bool" where
  "legal s \<longleftrightarrow> run_stage (emitted s) Before \<noteq> None"

definition aligned :: "stage \<Rightarrow> bool \<Rightarrow> 'w run \<Rightarrow> bool" where
  "aligned st first s \<longleftrightarrow> (\<exists>ms. at st first ms ms s)"

definition finished :: "'w run \<Rightarrow> bool" where
  "finished s \<longleftrightarrow> (\<exists>first. aligned After first s) \<and> (\<exists>evs stop. emitted s = evs @ [AgentEnd (newMessages s) stop])"

lemma at_legal: "at st first ms ns s \<Longrightarrow> legal s"
  by (simp add: at_def legal_def)

lemma aligned_legal: "aligned st first s \<Longrightarrow> legal s"
  by (auto simp: aligned_def at_legal)

lemma alignedI: "at st first ms ms s \<Longrightarrow> aligned st first s"
  by (auto simp: aligned_def)

lemma aligned_pre:
  fixes m :: "('w, 'a) io"
  assumes "\<And>ms. ensures (at st first ms ms) m Q E"
  shows "ensures (aligned st first) m Q E"
proof (rule ensuresI)
  fix s :: "'w run"
  assume "aligned st first s"
  then obtain ms where "at st first ms ms s" by (auto simp: aligned_def)
  then show "case m s of (Inr a, s') \<Rightarrow> Q a s' | (Inl _, s') \<Rightarrow> E s'" using assms [of ms] by (simp add: ensures_def)
qed

lemma silent: "keeps (at st first ms ns) m \<Longrightarrow> ensures (at st first ms ns) m (\<lambda>_. at st first ms ns) legal"
  using keeps_ensures [of "at st first ms ns" m] at_legal unfolding ensures_def
  by (fastforce split: prod.splits sum.splits)

lemma bind_silent:
  "keeps (at st first ms ns) m \<Longrightarrow> (\<And>a. ensures (at st first ms ns) (f a) Q legal) \<Longrightarrow>
    ensures (at st first ms ns) (bind_io m f) Q legal"
  by (rule ensures_bind [OF silent])

lemma keeps_at_call [io_rules]: "keeps (at st first ms ns) (call_io f)"
  by (rule keeps_call) (simp add: at_def)

lemma keeps_at_safe [io_rules]: "keeps (at st first ms ns) (safe_io f)"
  by (rule keeps_safe) (simp add: at_def)

lemma keeps_at_gate [io_rules]: "keeps (at st first ms ns) (gate_io g env)"
  by (simp add: keeps_def gate_io_def at_def split: option.splits prod.splits)

lemma keeps_at_exhausted [io_rules]: "keeps (at st first ms ns) (exhausted_io env)"
  by (simp add: keeps_def exhausted_io_def at_def split: option.splits prod.splits)

lemma keeps_at_aborted [io_rules]: "keeps (at st first ms ns) (is_aborted env)"
  by (simp add: is_aborted_def keeps_read)

lemma keeps_at_push [io_rules]: "keeps (at st first ms ns) (update_io (push_context m))"
  by (rule keeps_update) (simp add: at_def push_context_def)

lemma keeps_at_replace [io_rules]: "keeps (at st first ms ns) (update_io (replace_last_message m))"
  by (rule keeps_update) (simp add: at_def replace_last_message_def)

lemma keeps_at_fields [io_rules]:
  "keeps (at st first ms ns) (update_io (\<lambda>s. s\<lparr>log := f s\<rparr>))"
  "keeps (at st first ms ns) (update_io (\<lambda>s. s\<lparr>pendingMessages := g s\<rparr>))"
  "keeps (at st first ms ns) (update_io (\<lambda>s. s\<lparr>hasMoreToolCalls := h s\<rparr>))"
  "keeps (at st first ms ns) (update_io (\<lambda>s. s\<lparr>explicitContinuation := h s\<rparr>))"
  "keeps (at st first ms ns) (update_io (\<lambda>s. s\<lparr>repeatedToolErrors := k s\<rparr>))"
  "keeps (at st first ms ns) (update_io (\<lambda>s. if h s then s\<lparr>repeatedToolErrors := k s\<rparr> else s))"
  "keeps (at st first ms ns) (update_io (\<lambda>s. if h s then s\<lparr>explicitContinuation := h' s\<rparr> else s))"
  "keeps (at st first ms ns) (update_io (apply_update u))"
  by (rule keeps_update; simp add: at_def apply_update_def split: option.split)+

lemma ensures_emit:
  assumes "stage_step ev st = Some st'" and "ms' = ms @ ended_message ev"
  shows "ensures (at st first ms ns) (emit env ev) (\<lambda>_. at st' first ms' ns) legal"
  using assms by (auto simp: ensures_def emit_def bind_io_def update_io_def call_io_def at_def legal_def run_stage_append
      split: prod.splits sum.splits)

lemma ensures_emit_message:
  "ensures (at InTurn first ms ns) (emit_message env m) (\<lambda>_. at InTurn first (ms @ [m]) ns) legal"
  unfolding emit_message_def by (rule ensures_bind, rule ensures_emit, simp, simp, rule ensures_emit) simp_all

lemma ensures_deliver: "ensures (aligned InTurn first) (deliver env m) (\<lambda>_. aligned InTurn first) legal"
  unfolding deliver_def
  by (rule aligned_pre, rule ensures_bind, rule ensures_emit_message, rule ensures_pre, rule ensures_update)
    (auto simp: aligned_def at_def push_new_def push_context_def)

section \<open>Tools\<close>

lemma keeps_prepare [io_rules]: "keeps (at st first ms ns) (prepareToolCall env a c)"
proof -
  have "keeps (at st first ms ns) (check_call env a c t)" for t
    unfolding check_call_def by (auto split: sum.splits option.splits intro!: io_rules)
  then show ?thesis unfolding prepareToolCall_def by (auto split: option.splits intro!: io_rules)
qed

lemma keeps_finalize [io_rules]: "keeps (at st first ms ns) (finalizeExecutedToolCall env a p x)"
  unfolding finalizeExecutedToolCall_def Let_def by (intro io_rules)

lemma ensures_tool_event:
  assumes "stage_step ev InTurn = Some InTurn" and "ended_message ev = []"
  shows "ensures (at InTurn first ms ns) (emit env ev) (\<lambda>_. at InTurn first ms ns) legal"
  by (rule ensures_emit) (use assms in simp_all)

lemma emit_updates_at: "at InTurn first ms ns s \<Longrightarrow> emit_updates env c us s = (r, s') \<Longrightarrow> at InTurn first ms ns s'"
proof (induction us arbitrary: s r)
  case Nil
  then show ?case by (simp add: return_io_def)
next
  case (Cons u us)
  let ?ev = "ToolExecutionUpdate (call_id c) (call_name c) (call_arguments c) u"
  obtain r1 s1 where e: "emit env ?ev s = (r1, s1)" by force
  have s1: "at InTurn first ms ns s1"
    using Cons.prems(1) e by (auto simp: emit_def bind_io_def update_io_def call_io_def at_def run_stage_append split: prod.splits)
  show ?case
  proof (cases r1)
    case (Inl x)
    then have "s' = snd (emit_updates env c us s1)" using Cons.prems(2) e by simp
    then show ?thesis using Cons.IH [OF s1] by (metis prod.collapse)
  next
    case (Inr x)
    then show ?thesis using Cons.IH [OF s1] Cons.prems(2) e by simp
  qed
qed

lemma keeps_emit_updates [io_rules]: "keeps (at InTurn first ms ns) (emit_updates env c us)"
  unfolding keeps_def using emit_updates_at by (metis prod.collapse)

lemma keeps_run_prepared [io_rules]: "keeps (at InTurn first ms ns) (run_prepared env a p)"
  unfolding run_prepared_def executePreparedToolCall_def by (auto split: prod.splits intro!: io_rules)

lemma keeps_settle_sequential [io_rules]: "keeps (at InTurn first ms ns) (settle_sequential env a c)"
  unfolding settle_sequential_def by (auto split: preparation.splits intro!: io_rules)

text \<open>Every result is announced.\<close>

lemma ensures_emit_result:
  "ensures (at InTurn first ms ns) (emit_result env f) (\<lambda>r. at InTurn first (ms @ [ToolResult r]) ns) legal"
  unfolding emit_result_def Let_def
  by (rule bind_silent, intro io_rules, rule ensures_bind, rule ensures_emit_message, rule ensures_return_io)

lemma ensures_fail_truncated:
  "ensures (at InTurn first ms ns) (failToolCallsFromTruncatedMessage env cs) (\<lambda>rs. at InTurn first (ms @ map ToolResult rs) ns) legal"
proof (induction cs arbitrary: ms)
  case Nil
  then show ?case by (simp add: ensures_def return_io_def)
next
  case (Cons c cs)
  show ?case
    unfolding failToolCallsFromTruncatedMessage.simps Let_def emit_call_start_def emitToolExecutionEnd_def
    by (rule ensures_bind, rule ensures_tool_event, simp, simp, rule ensures_bind, rule ensures_tool_event, simp, simp,
        rule ensures_bind, rule ensures_emit_result, rule ensures_bind, rule Cons.IH)
      (rule ensures_pre, rule ensures_return_io, simp)
qed

lemma ensures_sequential:
  "ensures (at InTurn first ms ns) (executeToolCallsSequential env a cs)
    (\<lambda>batch. at InTurn first (ms @ map (ToolResult \<circ> snd) batch) ns) legal"
proof (induction cs arbitrary: ms)
  case Nil
  then show ?case by (simp add: ensures_def return_io_def)
next
  case (Cons c cs)
  show ?case
    unfolding executeToolCallsSequential.simps emit_call_start_def emitToolExecutionEnd_def
    apply (rule ensures_bind, rule ensures_tool_event, simp, simp)
    apply (rule bind_silent, intro io_rules)
    apply (rule ensures_bind, rule ensures_tool_event, simp, simp)
    apply (rule ensures_bind, rule ensures_emit_result)
    apply (rule bind_silent, intro io_rules)
    apply (rule ensures_if)
     apply (rule ensures_pre, rule ensures_return_io, simp)
    apply (rule ensures_bind, rule Cons.IH, rule ensures_pre, rule ensures_return_io, simp)
    done
qed

lemma ensures_emit_end:
  "ensures (at InTurn first ms ns) (emitToolExecutionEnd env f) (\<lambda>_. at InTurn first ms ns) legal"
  unfolding emitToolExecutionEnd_def by (rule ensures_tool_event) simp_all

lemma ensures_prepare_entry:
  "ensures (at InTurn first ms ns) (prepare_entry env a c) (\<lambda>_. at InTurn first ms ns) legal"
proof -
  have settled: "ensures (at InTurn first ms ns) (bind_io (emitToolExecutionEnd env f) (\<lambda>_. return_io (Settled f))) (\<lambda>_. at InTurn first ms ns) legal" for f
    by (rule ensures_bind, rule ensures_emit_end, rule ensures_return_io)
  show ?thesis
    unfolding prepare_entry_def Let_def
    apply (rule bind_silent, intro io_rules)
    subgoal for p
      apply (cases p; simp only: preparation.case)
       apply (rule bind_silent, intro io_rules, rule ensures_if, rule ensures_return_io)
       apply (rule bind_silent, intro io_rules, rule settled)
      apply (rule settled)
      done
    done
qed

lemma ensures_prepare_entries:
  "ensures (at InTurn first ms ns) (prepare_entries env a cs) (\<lambda>_. at InTurn first ms ns) legal"
proof (induction cs)
  case Nil
  then show ?case by (simp add: ensures_def return_io_def at_legal)
next
  case (Cons c cs)
  show ?case
    unfolding prepare_entries.simps emit_call_start_def
    apply (rule ensures_bind, rule ensures_tool_event, simp, simp)
    apply (rule ensures_bind, rule ensures_prepare_entry)
    apply (rule bind_silent, intro io_rules)
    apply (rule ensures_if, rule ensures_return_io)
    apply (rule ensures_bind, rule Cons.IH, rule ensures_return_io)
    done
qed

lemma ensures_settle_entry:
  "ensures (at InTurn first ms ns) (settle_entry env a e) (\<lambda>_. at InTurn first ms ns) legal"
proof (cases e)
  case (Settled f)
  show ?thesis unfolding settle_entry_def Settled entry.case by (rule ensures_return_io)
next
  case (Deferred p)
  show ?thesis
    unfolding settle_entry_def Deferred entry.case settle_deferred_def
    by (rule bind_silent, intro io_rules, rule bind_silent, intro io_rules,
        rule ensures_bind, rule ensures_emit_end, rule ensures_return_io)
qed

lemma ensures_settle_entries:
  "ensures (at InTurn first ms ns) (settle_entries env a es order settled) (\<lambda>_. at InTurn first ms ns) legal"
proof (induction order arbitrary: settled)
  case Nil
  show ?case unfolding settle_entries.simps by (rule ensures_return_io)
next
  case (Cons i order)
  show ?case unfolding settle_entries.simps by (rule ensures_bind, rule ensures_settle_entry, rule Cons.IH)
qed

lemma ensures_emit_results:
  "ensures (at InTurn first ms ns) (emit_results env fs) (\<lambda>batch. at InTurn first (ms @ map (ToolResult \<circ> snd) batch) ns) legal"
proof (induction fs arbitrary: ms)
  case Nil
  then show ?case by (simp add: ensures_def return_io_def)
next
  case (Cons f fs)
  show ?case
    unfolding emit_results.simps
    by (rule ensures_bind, rule ensures_emit_result, rule ensures_bind, rule Cons.IH, rule ensures_pre, rule ensures_return_io, simp)
qed

lemma ensures_parallel:
  "ensures (at InTurn first ms ns) (executeToolCallsParallel env a cs)
    (\<lambda>batch. at InTurn first (ms @ map (ToolResult \<circ> snd) batch) ns) legal"
  unfolding executeToolCallsParallel_def
  by (rule ensures_bind, rule ensures_prepare_entries, rule bind_silent, intro io_rules,
      rule ensures_bind, rule ensures_settle_entries, rule ensures_emit_results)

lemma push_all_at:
  "at st first ms ns s \<Longrightarrow> at st first ms (ns @ map g xs) (fold (\<lambda>r s. push_new (g r) (push_context (g r) s)) xs s)"
  by (induction xs arbitrary: s ns) (auto simp: at_def push_new_def push_context_def)

lemma ensures_execute:
  "ensures (at InTurn first ms ns) (executeToolCalls env a) (\<lambda>x. at InTurn first (ms @ map ToolResult (fst x)) ns) legal"
  unfolding executeToolCalls_def Let_def
  apply (rule bind_silent, intro io_rules)
  apply (rule ensures_bind)
   apply (rule ensures_if, rule ensures_sequential, rule ensures_parallel)
  apply (rule ensures_pre, rule ensures_return_io, simp)
  done

lemma ensures_run_tools:
  "ensures (aligned InTurn first) (run_tools env a) (\<lambda>_. aligned InTurn first) legal"
proof (rule aligned_pre)
  fix ms
  let ?Q = "\<lambda>x. at InTurn first (ms @ map ToolResult (fst x)) ms"
  have "ensures (at InTurn first ms ms)
      (if block_calls (assistant_content a) = [] then return_io no_results
       else if stopReason a = LengthStop
       then bind_io (failToolCallsFromTruncatedMessage env (block_calls (assistant_content a))) (\<lambda>rs. return_io (rs, False))
       else executeToolCalls env a) ?Q legal"
    apply (rule ensures_if)
     apply (rule ensures_pre, rule ensures_return_io, simp add: no_results_def)
    apply (rule ensures_if)
     apply (rule ensures_bind, rule ensures_fail_truncated, rule ensures_pre, rule ensures_return_io, simp)
    apply (rule ensures_execute)
    done
  then show "ensures (at InTurn first ms ms) (run_tools env a) (\<lambda>_. aligned InTurn first) legal"
    unfolding run_tools_def Let_def
    apply (rule ensures_bind)
    subgoal for x
      apply (cases x; simp only: prod.case fst_conv)
      apply (rule bind_silent, intro io_rules)
      apply (rule ensures_bind, rule ensures_pre, rule ensures_update [where Q = "\<lambda>_. aligned InTurn first"])
       apply (rule alignedI, rule push_all_at, assumption)
      apply (rule ensures_return_io)
      done
    done
qed

section \<open>A response\<close>

text \<open>A response announces its start once.\<close>

fun is_start :: "stream_event \<Rightarrow> bool" where
  "is_start (StreamStart _) = True"
| "is_start _ = False"

definition starts_once :: "'w env \<Rightarrow> bool" where
  "starts_once env \<longleftrightarrow> (\<forall>md ms level k w evs final w'.
     stream env md ms level k w = (Inr (evs, final), w') \<longrightarrow> length (filter is_start evs) \<le> 1)"

lemma ensures_finish_response:
  "ensures (at (if added then InMessage else InTurn) first ms ns) (finish_response env final added)
    (\<lambda>a. at InTurn first (ms @ [Assistant a]) ns) legal"
proof (cases added)
  case True
  have replace: "ensures (at InMessage first ms ns) (update_io (replace_last_message (Assistant final))) (\<lambda>_. at InMessage first ms ns) legal"
    by (rule silent, intro io_rules)
  from True show ?thesis
    unfolding finish_response_def
    by simp (rule ensures_bind, rule replace, rule ensures_bind, rule ensures_emit, simp, simp, rule ensures_return_io)
next
  case False
  have "ensures (at InTurn first ms ns) (bind_io (update_io (push_context (Assistant final))) (\<lambda>_. emit env (MessageStart (Assistant final))))
      (\<lambda>_. at InMessage first ms ns) legal"
    by (rule bind_silent, intro io_rules, rule ensures_emit) simp_all
  with False show ?thesis
    unfolding finish_response_def
    by simp (rule ensures_bind, assumption, rule ensures_bind, rule ensures_emit, simp, simp, rule ensures_return_io)
qed

lemma ensures_stream_loop:
  assumes "length (filter is_start evs) \<le> (if added then 0 else 1)"
  shows "ensures (at (if added then InMessage else InTurn) first ms ns) (stream_loop env final evs added)
    (\<lambda>a. at InTurn first (ms @ [Assistant a]) ns) legal"
  using assms
proof (induction env final evs added rule: stream_loop.induct)
  case (1 env final added)
  show ?case unfolding stream_loop.simps by (rule ensures_finish_response)
next
  case (2 env final evs added)
  show ?case unfolding stream_loop.simps by (rule ensures_finish_response)
next
  case (3 env final m evs added)
  then have "\<not> added" "filter is_start evs = []" by (auto split: if_splits)
  with 3(1) have "ensures (at InMessage first ms ns) (stream_loop env final evs True) (\<lambda>a. at InTurn first (ms @ [Assistant a]) ns) legal"
    by simp
  moreover have "ensures (at InTurn first ms ns) (emit env (MessageStart (Assistant m))) (\<lambda>_. at InMessage first ms ns) legal"
    by (rule ensures_emit) simp_all
  ultimately show ?case
    using \<open>\<not> added\<close> unfolding stream_loop.simps
    by simp (rule bind_silent, intro io_rules, rule ensures_bind)
next
  case (4 env final m e evs added)
  show ?case
  proof (cases added)
    case True
    have "ensures (at InMessage first ms ns) (stream_loop env final evs True) (\<lambda>a. at InTurn first (ms @ [Assistant a]) ns) legal"
      using 4(1) [OF True] 4(3) True by simp
    moreover have "ensures (at InMessage first ms ns) (emit env (MessageUpdate (Assistant m) e)) (\<lambda>_. at InMessage first ms ns) legal"
      by (rule ensures_emit) simp_all
    ultimately show ?thesis
      using True unfolding stream_loop.simps
      by simp (rule bind_silent, intro io_rules, rule ensures_bind)
  next
    case False
    then show ?thesis using 4(2) [OF False] 4(3) by simp
  qed
qed

lemma ensures_stream:
  assumes "starts_once env"
  shows "ensures (at InTurn first ms ns) (streamAssistantResponse env) (\<lambda>a. at InTurn first (ms @ [Assistant a]) ns) legal"
proof -
  have response: "ensures (at InTurn first ms ns) (call_io (stream env md llm level k))
      (\<lambda>x s. case x of (evs, final) \<Rightarrow> at InTurn first ms ns s \<and> length (filter is_start evs) \<le> 1) legal" for md llm level k
  proof (rule ensuresI)
    fix s :: "'a run"
    assume s: "at InTurn first ms ns s"
    obtain r w where w: "stream env md llm level k (world s) = (r, w)" by force
    have w': "at InTurn first ms ns (s\<lparr>world := w\<rparr>)" using s by (simp add: at_def)
    show "case call_io (stream env md llm level k) s of
        (Inr a, s') \<Rightarrow> (case a of (evs, final) \<Rightarrow> at InTurn first ms ns s' \<and> length (filter is_start evs) \<le> 1)
      | (Inl _, s') \<Rightarrow> legal s'"
    proof (cases r)
      case (Inl e)
      then show ?thesis using w at_legal [OF w'] by (simp add: call_io_def)
    next
      case (Inr x)
      obtain evs final where x: "x = (evs, final)" by force
      have "length (filter is_start evs) \<le> 1" using assms w Inr x unfolding starts_once_def by blast
      then show ?thesis using w Inr x w' by (simp add: call_io_def)
    qed
  qed
  have loop: "ensures (\<lambda>s. case x of (evs, final) \<Rightarrow> at InTurn first ms ns s \<and> length (filter is_start evs) \<le> 1)
      (case x of (evs, final) \<Rightarrow> stream_loop env final evs False) (\<lambda>a. at InTurn first (ms @ [Assistant a]) ns) legal" for x
  proof (cases x)
    case (Pair evs final)
    show ?thesis
    proof (cases "length (filter is_start evs) \<le> 1")
      case True
      then show ?thesis using ensures_stream_loop [of evs False first ms ns env final] Pair by (simp add: True)
    next
      case False
      then show ?thesis by (simp add: Pair ensures_def)
    qed
  qed
  show ?thesis
    unfolding streamAssistantResponse_def
    by (rule bind_silent, intro io_rules, rule bind_silent, intro io_rules, rule bind_silent, intro io_rules,
        rule bind_silent, intro io_rules, rule bind_silent, intro io_rules, rule bind_silent, intro io_rules,
        rule bind_silent, intro io_rules, rule bind_silent, intro io_rules, rule ensures_bind, rule response, rule loop)
qed

section \<open>A turn\<close>

lemma ensures_deliver_messages: "ensures (aligned InTurn first) (deliver_messages env ms) (\<lambda>_. aligned InTurn first) legal"
  unfolding deliver_messages_def
  apply (rule aligned_pre)
  apply (rule bind_silent, intro io_rules)
  apply (rule bind_silent, intro io_rules)
  apply (rule bind_silent, intro io_rules)
  apply (rule ensures_bind, rule ensures_pre, rule ensures_each, rule ensures_deliver, erule alignedI)
  apply (rule aligned_pre, rule ensures_post, rule silent, intro io_rules, erule alignedI)
  done

lemma ensures_end:
  assumes "st = Between \<or> st = InTurn"
  shows "ensures (at st first ms ms) (emit env (AgentEnd ms stop)) (\<lambda>_. finished) legal"
proof (rule ensuresI)
  fix s :: "'a run"
  assume s: "at st first ms ms s"
  let ?s1 = "s\<lparr>emitted := emitted s @ [AgentEnd ms stop]\<rparr>"
  obtain r w where w: "listener env (AgentEnd ms stop) (world s) = (r, w)" by force
  have step: "stage_step (AgentEnd ms stop) st = Some After" using assms by auto
  have after: "at After first ms ms (?s1\<lparr>world := w\<rparr>)" using s step by (simp add: at_def run_stage_append)
  then have "finished (?s1\<lparr>world := w\<rparr>)" using s by (auto simp: finished_def aligned_def at_def)
  then show "case emit env (AgentEnd ms stop) s of (Inr _, s') \<Rightarrow> finished s' | (Inl _, s') \<Rightarrow> legal s'"
    using w at_legal [OF after] by (simp add: emit_def bind_io_def update_io_def call_io_def split: sum.split)
qed

lemma ensures_finish_run:
  fixes env :: "'w env"
  assumes "st = Between \<or> st = InTurn"
  shows "ensures (aligned st first) (finish_run env stop) (\<lambda>_. finished) legal"
proof (rule aligned_pre)
  fix ms
  have same: "ensures (\<lambda>s. a = ms \<and> at st first ms ms s) (emit env (AgentEnd a (Some stop))) (\<lambda>_. finished) legal" for a
    by (cases "a = ms") (use ensures_end [OF assms, of first ms env "Some stop"] in \<open>auto simp: ensures_def\<close>)
  show "ensures (at st first ms ms) (finish_run env stop) (\<lambda>_. finished) legal"
    unfolding finish_run_def
    by (rule ensures_bind [OF _ same], rule ensures_pre, rule ensures_read) (simp add: at_def)
qed

definition loop_ready :: "'w run \<Rightarrow> bool" where
  "loop_ready s \<longleftrightarrow> (if lastCompletedTurn s = None then aligned InTurn True s else aligned Between False s)"

lemma ensures_turn_start: "ensures (at Between first ms ns) (emit env TurnStart) (\<lambda>_. at InTurn first ms ns) legal"
  by (rule ensures_emit) simp_all

lemma keeps_poll [io_rules]: "keeps (at st first ms ns) (poll_steering env)"
  unfolding poll_steering_def by (intro io_rules)

lemma ensures_later_turn:
  "ensures (at Between first ms ms)
     (bind_io (call_io (prepareNextTurn env t)) (\<lambda>u.
      bind_io (update_io (apply_update u)) (\<lambda>_.
      bind_io (read_io (\<lambda>s. pendingMessages s = [])) (\<lambda>none.
      bind_io (if none then poll_steering env else return_io ()) (\<lambda>_.
      bind_io (emit env TurnStart) (\<lambda>_.
        return_io (case u of None \<Rightarrow> [] | Some u \<Rightarrow> update_messages u)))))))
     (\<lambda>_ s. \<exists>first. aligned InTurn first s) legal"
  apply (rule bind_silent, intro io_rules)
  apply (rule bind_silent, intro io_rules)
  apply (rule bind_silent, intro io_rules)
  apply (rule bind_silent, intro io_rules)
  apply (rule ensures_bind, rule ensures_turn_start)
  apply (rule ensures_pre, rule ensures_return_io)
  apply (auto simp: aligned_def)
  done

lemma ensures_prepare_turn: "ensures loop_ready (prepare_turn env) (\<lambda>_ s. \<exists>first. aligned InTurn first s) legal"
proof (rule ensuresI)
  fix s :: "'a run"
  assume s: "loop_ready s"
  show "case prepare_turn env s of (Inr a, s') \<Rightarrow> \<exists>first. aligned InTurn first s' | (Inl _, s') \<Rightarrow> legal s'"
  proof (cases "lastCompletedTurn s")
    case None
    then show ?thesis using s by (auto simp: prepare_turn_def loop_ready_def bind_io_def read_io_def return_io_def)
  next
    case (Some t)
    then obtain ms where ms: "at Between False ms ms s" using s by (auto simp: loop_ready_def aligned_def)
    from Some have "prepare_turn env s = bind_io (call_io (prepareNextTurn env t)) (\<lambda>u.
      bind_io (update_io (apply_update u)) (\<lambda>_.
      bind_io (read_io (\<lambda>s. pendingMessages s = [])) (\<lambda>none.
      bind_io (if none then poll_steering env else return_io ()) (\<lambda>_.
      bind_io (emit env TurnStart) (\<lambda>_.
        return_io (case u of None \<Rightarrow> [] | Some u \<Rightarrow> update_messages u)))))) s"
      by (simp add: prepare_turn_def bind_io_def [of "read_io _"] read_io_def)
    with ensures_later_turn [of False ms env t] ms show ?thesis by (simp add: ensures_def)
  qed
qed

end
