(* ===== verification/Agent_Loop_Example.thy ===== *)
theory Agent_Loop_Example imports Agent_Loop begin

text \<open>
  A small environment to run the loop in: the world counts the answers of the model. The first answer calls a tool, the
  second one ends the conversation. The listener records nothing and no hook interferes.
\<close>

definition example_answer :: "block list \<Rightarrow> stop_reason \<Rightarrow> assistant_message" where
  "example_answer bs stop = \<lparr>assistant_content = bs, assistant_api = ''api'', assistant_provider = ''provider'',
     assistant_model = ''model'', stopReason = stop, errorMessage = None, assistant_timestamp = 0, assistant_rest = JNull\<rparr>"

definition example_call :: tool_call where
  "example_call = \<lparr>call_id = ''1'', call_name = ''echo'', call_arguments = JObj [], thoughtSignature = None, call_namespace = None\<rparr>"

definition example_tool :: agent_tool where
  "example_tool = \<lparr>declared_tool = \<lparr>tool_name = ''echo'', description = [], parameters = JObj [], constrainedSampling = None\<rparr>,
     executionMode = None\<rparr>"

definition example_outcome :: tool_outcome where
  "example_outcome = \<lparr>outcome_content = Some [TextBlock ''ok'' None], outcome_details = None, outcome_usage = None,
     outcome_terminate = None\<rparr>"

definition example_stream :: "nat \<Rightarrow> (stream_event list \<times> assistant_message) throws \<times> nat" where
  "example_stream n =
     (Inr (if n = 0 then ([StreamStart (example_answer [] PendingStop), StreamUpdate (example_answer [] PendingStop) JNull, StreamDone],
         example_answer [CallBlock example_call] ToolUseStop)
       else ([], example_answer [TextBlock ''bye'' None] NaturalStop)), n + 1)"

definition example_env :: "nat env" where
  "example_env =
     \<lparr>listener = (\<lambda>_ n. (Inr (), n)), now = (\<lambda>n. (0, n)), aborted = (\<lambda>_. False),
      getSteeringMessages = (\<lambda>n. (Inr [], n)), getFollowUpMessages = (\<lambda>n. (Inr [], n)),
      prepareNextTurn = (\<lambda>_ n. (Inr None, n)), prepareRequest = (\<lambda>_ _ _ n. (Inr None, n)),
      finishTurn = (\<lambda>_ n. (Inr None, n)), shouldStopAfterTurn = (\<lambda>_ n. (Inr False, n)),
      beforeToolCall = (\<lambda>_ _ args _ n. (Inr (None, args), n)), afterToolCall = (\<lambda>_ _ _ _ _ _ n. (Inr None, n)),
      transformContext = (\<lambda>ms n. (Inr ms, n)), convertToLlm = (\<lambda>ms n. (Inr ms, n)), getApiKey = (\<lambda>_ n. (Inr None, n)),
      apiKey = None, stream = (\<lambda>_ _ _ _. example_stream), prepareArguments = (\<lambda>_ args n. (Inr args, n)),
      validateToolArguments = (\<lambda>_ c. Inr (call_arguments c)), execute_tool = (\<lambda>_ _ _ n. (([], Inr example_outcome), n)),
      completion = (\<lambda>_ _. []), toolExecution = ParallelMode\<rparr>"

definition example_policy :: budget_policy where
  "example_policy = \<lparr>maxProviderRequests = Some 5, maxToolCalls = Some 3, maxWallTimeMs = None\<rparr>"

definition example_budget :: budget where
  "example_budget = Stock \<lparr>policy = example_policy,
     usage = \<lparr>providerRequests = 0, toolCalls = 0, maintenanceRequests = 0, startedAt = 0\<rparr>\<rparr>"

definition example_run :: "nat run" where
  "example_run = initial_run 0 \<lparr>context_messages = [], context_tools = [example_tool]\<rparr> (Some example_budget)
     \<lparr>model_id = ''model'', model_api = ''api'', model_provider = ''provider'', model_input = []\<rparr> None"

definition example_prompt :: message where
  "example_prompt = User \<lparr>user_content = Plain ''hi'', user_timestamp = 0\<rparr>"

definition example_result :: "(message list throws \<times> nat run) option" where
  "example_result = runAgentLoop example_env [example_prompt] example_run"

declare iterate.simps [code]

definition example_messages :: "message list" where
  "example_messages = (case example_result of Some (Inr ms, _) \<Rightarrow> ms | _ \<Rightarrow> [])"

definition example_end :: "nat run" where
  "example_end = (case example_result of Some (_, s) \<Rightarrow> s | None \<Rightarrow> example_run)"

lemma example_evaluates:
  "case example_result of
     Some (Inr ms, s) \<Rightarrow> length ms = 5 \<and> length (emitted s) = 19 \<and> length (log s) = 3 \<and> Executed ''echo'' ''1'' (JObj []) \<in> set (log s)
   | _ \<Rightarrow> False"
  by code_simp

lemma example_returns:
  obtains ms s where "example_result = Some (Inr ms, s)" and "length (emitted s) = 19"
    and "Executed ''echo'' ''1'' (JObj []) \<in> set (log s)"
  using example_evaluates by (simp split: option.splits prod.splits sum.splits)

lemma example_values:
  "example_result = Some (Inr ms, s) \<Longrightarrow> example_messages = ms"
  "example_result = Some (Inr ms, s) \<Longrightarrow> example_end = s"
  unfolding example_messages_def example_end_def by (erule ssubst, simp)+

lemma example_runs: "runAgentLoop example_env [example_prompt] example_run = Some (Inr example_messages, example_end)"
  by (rule example_returns) (metis example_values example_result_def)

lemma example_executes: "Executed ''echo'' ''1'' (JObj []) \<in> set (log example_end)"
  by (rule example_returns) (metis example_values)

lemma example_emits: "length (emitted example_end) = 19"
  by (rule example_returns) (metis example_values)

end
