(* ===== verification/Agent_Loop_Run.thy ===== *)
theory Agent_Loop_Run imports Agent_Loop_Events Agent_Loop_Example begin

text \<open>
  The life cycle over whole turns and the whole run: the events a run emits are accepted by the automaton, the last one
  is the end of the run with the messages the run returns, and these are the messages whose end was announced, in order.
\<close>

section \<open>The parts of a turn\<close>

lemma ensures_ex:
  assumes "\<And>x. ensures (P x) m Q E"
  shows "ensures (\<lambda>s. \<exists>x. P x s) m Q E"
proof (rule ensuresI)
  fix s
  assume "\<exists>x. P x s"
  then obtain x where "P x s" by blast
  then show "case m s of (Inr a, s') \<Rightarrow> Q a s' | (Inl _, s') \<Rightarrow> E s'" using assms [of x] by (simp add: ensures_def)
qed

lemma aligned_silent: "(\<And>ms. keeps (at st first ms ms) m) \<Longrightarrow> ensures (aligned st first) m (\<lambda>_. aligned st first) legal"
  by (rule aligned_pre, rule ensures_post, rule silent) (auto simp: aligned_def)

lemma bind_aligned:
  "(\<And>ms. keeps (at st first ms ms) m) \<Longrightarrow> (\<And>a. ensures (aligned st first) (f a) Q legal) \<Longrightarrow>
    ensures (aligned st first) (bind_io m f) Q legal"
  by (rule ensures_bind [OF aligned_silent])

lemma ensures_turn_end: "ensures (at InTurn first ms ns) (emit env (TurnEnd a rs)) (\<lambda>_. at Between first ms ns) legal"
  by (rule ensures_emit) simp_all

lemma ensures_complete: "ensures (at st first ms ns) (update_io (\<lambda>s. s\<lparr>lastCompletedTurn := Some t\<rparr>)) (\<lambda>_. at st False ms ns) E"
  by (simp add: ensures_def update_io_def at_def)

lemma ensures_finish_turn: "ensures (aligned InTurn first) (finish_turn env a rs again) (\<lambda>_. aligned Between False) legal"
  unfolding finish_turn_def
  by (rule aligned_pre, rule bind_silent, intro io_rules, rule ensures_bind, rule ensures_complete,
      rule bind_silent, intro io_rules, rule ensures_bind, rule ensures_turn_end, rule ensures_pre, rule ensures_return_io,
      erule alignedI)

lemma ensures_failed_turn: "ensures (aligned InTurn first) (failed_turn env a) (\<lambda>_. finished) legal"
  unfolding failed_turn_def
  by (rule bind_aligned, intro io_rules, rule ensures_bind, rule ensures_finish_turn, rule ensures_finish_run, simp)

lemma ensures_over_budget: "ensures (aligned InTurn first) (over_budget env) (\<lambda>_. finished) legal"
  unfolding over_budget_def
  by (rule bind_aligned, intro io_rules, rule ensures_if, rule ensures_finish_run, simp,
      rule bind_aligned, intro io_rules, rule ensures_finish_run, simp)

lemma keeps_prepare_request [io_rules]: "keeps (at st first ms ns) (prepare_request env)"
  unfolding prepare_request_def by (auto split: prod.splits intro!: io_rules)

lemma ensures_push_message:
  "ensures (at st first ms ns) (update_io (\<lambda>s. push_new m (push_context m s))) (\<lambda>_. at st first ms (ns @ [m])) E"
  by (simp add: ensures_def update_io_def at_def push_new_def push_context_def)

lemma ensures_stop_repeating: "ensures (aligned Between first) (stop_repeating env) (\<lambda>_. finished) legal"
  unfolding stop_repeating_def
  apply (rule aligned_pre)
  apply (rule bind_silent, intro io_rules)
  apply (rule bind_silent, intro io_rules)
  apply (rule ensures_bind, rule ensures_push_message)
  apply (rule ensures_bind, rule ensures_turn_start)
  apply (rule ensures_bind, rule ensures_emit_message)
  apply (rule ensures_bind, rule ensures_turn_end)
  apply (rule ensures_pre, rule ensures_finish_run [where st = Between and first = first], simp)
  apply (erule alignedI)
  done

section \<open>A turn\<close>

text \<open>What an action that may end the run leaves: the end, or a state in which the loop goes on.\<close>

definition outcome :: "bool \<Rightarrow> 'w run \<Rightarrow> bool" where
  "outcome over s \<longleftrightarrow> (if over then finished s else loop_ready s)"

lemma ensures_over: "ensures finished (return_io True) outcome legal"
  by (rule ensures_pre, rule ensures_return_io) (simp add: outcome_def)

lemma aligned_ready: "aligned Between False s \<Longrightarrow> loop_ready s"
  by (auto simp: loop_ready_def aligned_def at_def)

lemma ensures_on: "ensures (aligned Between False) (return_io False) outcome legal"
  by (rule ensures_pre, rule ensures_return_io) (simp add: outcome_def aligned_ready)

lemma ensures_conclude: "ensures (aligned InTurn first) (conclude_turn env a rs) outcome legal"
proof -
  have stop: "keeps (at Between False ms ms) (if decision = Some EndTurn then return_io True
      else (case last of None \<Rightarrow> return_io False | Some t \<Rightarrow> call_io (shouldStopAfterTurn env t)))" for ms decision last
    by (cases last) (auto intro!: io_rules)
  have give_up: "ensures (aligned Between False)
      (if give_up then bind_io (stop_repeating env) (\<lambda>_. return_io True)
       else bind_io (update_io (\<lambda>s. if hasMoreToolCalls s \<or> pendingMessages s \<noteq> [] then s\<lparr>explicitContinuation := False\<rparr> else s))
         (\<lambda>_. return_io False)) outcome legal" for give_up
    by (rule ensures_if, rule ensures_bind, rule ensures_stop_repeating, rule ensures_over,
        rule bind_aligned, intro io_rules, rule ensures_on)
  have counted: "ensures (aligned Between False) (case x of (repeated, counts) \<Rightarrow>
      bind_io (update_io (\<lambda>s. s\<lparr>repeatedToolErrors := counts\<rparr>)) (\<lambda>_.
      bind_io (read_io (\<lambda>s. repeated \<and> pendingMessages s = [] \<and> \<not> aborted env (world s))) (\<lambda>give_up.
        if give_up then bind_io (stop_repeating env) (\<lambda>_. return_io True)
        else bind_io (update_io (\<lambda>s. if hasMoreToolCalls s \<or> pendingMessages s \<noteq> [] then s\<lparr>explicitContinuation := False\<rparr> else s))
          (\<lambda>_. return_io False)))) outcome legal" for x
    by (cases x; simp only: prod.case) (rule bind_aligned, intro io_rules, rule bind_aligned, intro io_rules, rule give_up)
  show ?thesis
    unfolding conclude_turn_def
    apply (rule bind_aligned, intro io_rules)
    apply (rule ensures_bind, rule ensures_finish_turn)
    apply (rule bind_aligned, intro io_rules)
    apply (rule bind_aligned, rule stop)
    apply (rule ensures_if, rule ensures_bind, rule ensures_finish_run, simp, rule ensures_over)
    apply (rule bind_aligned, intro io_rules)
    apply (rule bind_aligned, intro io_rules)
    apply (rule bind_aligned, intro io_rules)
    apply (rule counted)
    done
qed

lemma ensures_push_answer:
  "ensures (at InTurn first (ms @ [m]) ms) (update_io (push_new m)) (\<lambda>_. aligned InTurn first) E"
  by (auto simp: ensures_def update_io_def aligned_def at_def push_new_def)

lemma ensures_answer_turn:
  assumes "starts_once env"
  shows "ensures (aligned InTurn first) (answer_turn env) outcome legal"
  unfolding answer_turn_def
  apply (rule aligned_pre)
  apply (rule bind_silent, intro io_rules)
  apply (rule ensures_bind, rule ensures_stream [OF assms])
  apply (rule ensures_bind, rule ensures_push_answer)
  apply (rule ensures_if, rule ensures_bind, rule ensures_failed_turn, rule ensures_over)
  apply (rule ensures_bind, rule ensures_run_tools, rule ensures_conclude)
  done

lemma ensures_run_turn:
  assumes "starts_once env"
  shows "ensures loop_ready (run_turn env) outcome legal"
  unfolding run_turn_def
  apply (rule ensures_bind, rule ensures_prepare_turn)
  apply (rule ensures_ex)
  apply (rule ensures_bind, rule ensures_deliver_messages)
  apply (rule bind_aligned, intro io_rules)
  apply (rule ensures_if, rule ensures_answer_turn [OF assms])
  apply (rule ensures_bind, rule ensures_over_budget, rule ensures_over)
  done

section \<open>The loop\<close>

lemma ready_cases:
  fixes m :: "('w, 'a) io"
  assumes "ensures (aligned InTurn True) m Q E" and "ensures (aligned Between False) m Q E"
  shows "ensures loop_ready m Q E"
  using assms unfolding ensures_def loop_ready_def by auto

lemma ensures_round_going:
  assumes "(st, first) = (InTurn, True) \<or> (st, first) = (Between, False)"
  shows "ensures (aligned st first) (return_io True) (\<lambda>again s. if again then loop_ready s else finished s) legal"
  by (rule ensures_pre, rule ensures_return_io) (use assms in \<open>auto simp: loop_ready_def aligned_def at_def\<close>)

lemma ensures_round_over: "ensures finished (return_io False) (\<lambda>again s. if again then loop_ready s else finished s) legal"
  by (rule ensures_pre, rule ensures_return_io) simp

lemma keeps_at_round [io_rules]:
  "keeps (at st first ms ns) (update_io (\<lambda>s. s\<lparr>explicitContinuation := False, pendingMessages := ps, hasMoreToolCalls := True\<rparr>))"
  "keeps (at st first ms ns) (update_io (\<lambda>s. s\<lparr>explicitContinuation := False, hasMoreToolCalls := True\<rparr>))"
  by (rule keeps_update; simp add: at_def)+

lemma ensures_next_round_at:
  assumes "(st, first) = (InTurn, True) \<or> (st, first) = (Between, False)"
  shows "ensures (aligned st first) (next_round env) (\<lambda>again s. if again then loop_ready s else finished s) legal"
  unfolding next_round_def
  apply (rule bind_aligned, intro io_rules)
  apply (rule ensures_if, rule bind_aligned, intro io_rules, rule ensures_round_going [OF assms])
  apply (rule bind_aligned, intro io_rules)
  apply (rule ensures_if, rule bind_aligned, intro io_rules, rule ensures_round_going [OF assms])
  apply (rule ensures_bind, rule ensures_finish_run)
  using assms apply auto [1]
  apply (rule ensures_round_over)
  done

lemma ensures_next_round: "ensures loop_ready (next_round env) (\<lambda>again s. if again then loop_ready s else finished s) legal"
  by (rule ready_cases; rule ensures_next_round_at) simp_all

lemma ensures_iteration:
  assumes "starts_once env"
  shows "ensures loop_ready (iteration env) (\<lambda>again s. if again then loop_ready s else finished s) legal"
proof -
  have flip: "ensures (outcome over) (return_io (\<not> over)) (\<lambda>again s. if again then loop_ready s else finished s) legal" for over
    by (rule ensures_pre, rule ensures_return_io) (simp add: outcome_def)
  show ?thesis
    by (rule iteration_rule, rule ensures_bind, rule ensures_run_turn [OF assms], rule flip, rule ensures_next_round)
qed

text \<open>The first turn: its prompts are collected before they are announced.\<close>

lemma ensures_announce:
  "ensures (at InTurn first ms ns) (each_io (emit_message env) xs) (\<lambda>_. at InTurn first (ms @ xs) ns) legal"
proof (induction xs arbitrary: ms)
  case Nil
  then show ?case by (simp add: ensures_def return_io_def)
next
  case (Cons x xs)
  show ?case unfolding each_io.simps
    by (rule ensures_bind, rule ensures_emit_message, rule ensures_post, rule Cons.IH, simp)
qed

lemma ensures_agent_start: "ensures (at Before first ms ns) (emit env AgentStart) (\<lambda>_. at Between first ms ns) legal"
  by (rule ensures_emit) simp_all

lemma collect_at:
  "at st first ms ns s \<Longrightarrow> at st first ms (ns @ xs) (fold (\<lambda>m s. push_new m (push_context m s)) xs s)"
  using push_all_at [where g = "\<lambda>x. x"] by simp

lemma ensures_start_prompts:
  "ensures (at Before True [] []) (start_prompts env prompts) (\<lambda>_. aligned InTurn True) legal"
  unfolding start_prompts_def
  apply (rule bind_silent, intro io_rules)
  apply (rule bind_silent, intro io_rules)
  apply (rule ensures_bind, rule ensures_pre, rule ensures_update)
   apply (erule collect_at)
  apply (rule ensures_bind, rule ensures_agent_start)
  apply (rule ensures_bind, rule ensures_turn_start)
  apply (rule ensures_post, rule ensures_announce)
  apply (auto simp: aligned_def)
  done

lemma ensures_start_continue:
  "ensures (at Before True [] []) (start_continue env) (\<lambda>_. aligned InTurn True) legal"
  unfolding start_continue_def
  apply (rule bind_silent, intro io_rules)
  apply (rule ensures_if, rule ensures_throw_io, erule at_legal)
  apply (rule ensures_if, rule ensures_throw_io, erule at_legal)
  apply (rule ensures_bind, rule ensures_agent_start)
  apply (rule ensures_post, rule ensures_turn_start)
  apply (erule alignedI)
  done

lemma then_loop_finishes:
  assumes "starts_once env" and "ensures (at Before True [] []) start (\<lambda>_. aligned InTurn True) legal"
    and "then_loop env start (initial_run w c b md level) = Some (r, s')"
  shows "case r of Inl _ \<Rightarrow> legal s' | Inr ms \<Rightarrow> finished s' \<and> ms = newMessages s'"
proof -
  let ?s = "initial_run w c b md level"
  have init: "at Before True [] [] ?s" by (simp add: at_def initial_run_def ended_messages_def)
  obtain r1 s1 where s1: "start ?s = (r1, s1)" by force
  show ?thesis
  proof (cases r1)
    case (Inl e)
    then show ?thesis using assms(3) s1 ensures_throw [OF assms(2) init] by (auto simp: then_loop_def)
  next
    case (Inr u)
    then have ready: "aligned InTurn True s1" using s1 ensures_return [OF assms(2) init] by simp
    then obtain ms where ms: "at InTurn True ms ms s1" by (auto simp: aligned_def)
    obtain r2 s2 where s2: "poll_steering env s1 = (r2, s2)" by force
    have s2_at: "at InTurn True ms ms s2" by (rule keepsD [OF keeps_poll ms s2])
    show ?thesis
    proof (cases r2)
      case (Inl e)
      then show ?thesis using assms(3) s1 Inr s2 at_legal [OF s2_at] by (auto simp: then_loop_def runLoop_def)
    next
      case (Inr v)
      let ?s2 = "s2\<lparr>hasMoreToolCalls := True\<rparr>"
      have I: "loop_ready ?s2" using s2_at by (auto simp: loop_ready_def aligned_def at_def)
      obtain r3 s3 where it: "iterate env ?s2 = Some (r3, s3)"
        using assms(3) s1 \<open>r1 = Inr u\<close> s2 Inr by (auto simp: then_loop_def runLoop_def split: option.splits prod.splits)
      have "case r3 of Inl _ \<Rightarrow> legal s3 | Inr _ \<Rightarrow> finished s3" by (rule iterate_rule [OF ensures_iteration [OF assms(1)] I it])
      then show ?thesis using assms(3) s1 \<open>r1 = Inr u\<close> s2 Inr it by (auto simp: then_loop_def runLoop_def split: sum.splits)
    qed
  qed
qed

section \<open>The run\<close>

lemma finished_run:
  assumes "finished s"
  shows "run_stage (emitted s) Before = Some After" and "ended_messages (emitted s) = newMessages s"
    and "\<exists>evs stop. emitted s = evs @ [AgentEnd (newMessages s) stop]"
proof -
  from assms obtain first ms where at: "at After first ms ms s" by (auto simp: finished_def aligned_def)
  show "run_stage (emitted s) Before = Some After" "ended_messages (emitted s) = newMessages s" using at by (simp_all add: at_def)
  show "\<exists>evs stop. emitted s = evs @ [AgentEnd (newMessages s) stop]" using assms by (simp add: finished_def)
qed

lemma run_life:
  assumes "starts_once env" and "s0 = initial_run w c b md level"
    and "runAgentLoop env prompts s0 = Some (r, s) \<or> runAgentLoopContinue env s0 = Some (r, s)"
  shows "run_stage (emitted s) Before \<noteq> None \<and>
    (\<forall>ms. r = Inr ms \<longrightarrow> run_stage (emitted s) Before = Some After \<and> ended_messages (emitted s) = ms \<and>
       (\<exists>evs stop. emitted s = evs @ [AgentEnd ms stop]))"
proof -
  have "case r of Inl _ \<Rightarrow> legal s | Inr ms \<Rightarrow> finished s \<and> ms = newMessages s"
    using assms(3) then_loop_finishes [OF assms(1) ensures_start_prompts [of env prompts], of w c b md level r s]
      then_loop_finishes [OF assms(1) ensures_start_continue [of env], of w c b md level r s]
    unfolding assms(2) runAgentLoop_def runAgentLoopContinue_def by blast
  then show ?thesis
    using finished_run [of s] by (cases r) (auto simp: legal_def)
qed



end
