(* ===== verification/Agent_Loop_Books.thy ===== *)
theory Agent_Loop_Books imports Agent_Loop_Rules begin

text \<open>
  The actions of the loop that ask nothing of the model or the tools and pass no gate: they leave the budget and the log
  as they are, and only add to the events.
\<close>

section \<open>Actions that leave budget and log alone\<close>

text \<open>The budget, the log, and some of the events emitted so far: an action that does not touch the first two keeps all.\<close>

definition books :: "budget option \<Rightarrow> asked list \<Rightarrow> agent_event set \<Rightarrow> 'w run \<Rightarrow> bool" where
  "books b l E s \<longleftrightarrow> runBudget s = b \<and> log s = l \<and> E \<subseteq> set (emitted s)"

lemma keeps_books_call [io_rules]: "keeps (books b l E) (call_io f)"
  by (rule keeps_call) (simp add: books_def)

lemma keeps_books_safe [io_rules]: "keeps (books b l E) (safe_io f)"
  by (rule keeps_safe) (simp add: books_def)

lemma keeps_books_exhausted [io_rules]: "keeps (books b l E) (exhausted_io env)"
  by (simp add: keeps_def exhausted_io_def books_def split: option.splits prod.splits)

lemma keeps_books_aborted [io_rules]: "keeps (books b l E) (is_aborted env)"
  by (simp add: is_aborted_def keeps_read)

lemma push_all_books [simp]:
  "runBudget (fold (\<lambda>r s. push_new (g r) (push_context (g r) s)) xs s) = runBudget s"
  "log (fold (\<lambda>r s. push_new (g r) (push_context (g r) s)) xs s) = log s"
  "emitted (fold (\<lambda>r s. push_new (g r) (push_context (g r) s)) xs s) = emitted s"
  by (induction xs arbitrary: s) (simp_all add: push_new_def push_context_def)

lemma keeps_books_fields [io_rules]:
  "keeps (books b l E) (update_io (push_context m))"
  "keeps (books b l E) (update_io (push_new m))"
  "keeps (books b l E) (update_io (\<lambda>s. push_new m (push_context m s)))"
  "keeps (books b l E) (update_io (replace_last_message m))"
  "keeps (books b l E) (update_io (\<lambda>s. s\<lparr>emitted := emitted s @ [ev]\<rparr>))"
  "keeps (books b l E) (update_io (\<lambda>s. s\<lparr>pendingMessages := pm s\<rparr>))"
  "keeps (books b l E) (update_io (\<lambda>s. s\<lparr>hasMoreToolCalls := h s\<rparr>))"
  "keeps (books b l E) (update_io (\<lambda>s. s\<lparr>explicitContinuation := h s\<rparr>))"
  "keeps (books b l E) (update_io (\<lambda>s. s\<lparr>repeatedToolErrors := k s\<rparr>))"
  "keeps (books b l E) (update_io (\<lambda>s. s\<lparr>lastCompletedTurn := lt s\<rparr>))"
  "keeps (books b l E) (update_io (\<lambda>s. if h s then s\<lparr>repeatedToolErrors := k s\<rparr> else s))"
  "keeps (books b l E) (update_io (\<lambda>s. if h s then s\<lparr>explicitContinuation := h' s\<rparr> else s))"
  "keeps (books b l E) (update_io (\<lambda>s. s\<lparr>explicitContinuation := False, pendingMessages := ps, hasMoreToolCalls := True\<rparr>))"
  "keeps (books b l E) (update_io (\<lambda>s. s\<lparr>explicitContinuation := False, hasMoreToolCalls := True\<rparr>))"
  "keeps (books b l E) (update_io (apply_update u))"
  by (rule keeps_update; simp add: books_def push_context_def push_new_def replace_last_message_def apply_update_def subset_insertI2 split: option.split)+

lemma keeps_books_push_all [io_rules]:
  "keeps (books b l E) (update_io (\<lambda>s. fold (\<lambda>r s. push_new (g r) (push_context (g r) s)) xs s))"
  by (rule keeps_update) (simp add: books_def)

lemma keeps_books_emit [io_rules]: "keeps (books b l E) (emit env ev)"
  unfolding emit_def by (intro io_rules)

lemma keeps_books_parts [io_rules]:
  "keeps (books b l E) (emit_message env m)"
  "keeps (books b l E) (deliver env m)"
  "keeps (books b l E) (emit_result env f)"
  "keeps (books b l E) (emit_call_start env c)"
  "keeps (books b l E) (emitToolExecutionEnd env f)"
  "keeps (books b l E) (poll_steering env)"
  "keeps (books b l E) (finish_run env stop)"
  "keeps (books b l E) (finalizeExecutedToolCall env a p x)"
  by (simp_all only: emit_message_def deliver_def emit_result_def emit_call_start_def emitToolExecutionEnd_def
      poll_steering_def finish_run_def finalizeExecutedToolCall_def Let_def; intro io_rules)+

lemma keeps_books_turns [io_rules]:
  "keeps (books b l E) (finish_turn env a rs again)"
  "keeps (books b l E) (deliver_messages env ms)"
  "keeps (books b l E) (over_budget env)"
  "keeps (books b l E) (stop_repeating env)"
  by (simp_all only: finish_turn_def deliver_messages_def over_budget_def stop_repeating_def; intro io_rules)+

lemma keeps_books_failed [io_rules]: "keeps (books b l E) (failed_turn env a)"
  unfolding failed_turn_def by (intro io_rules)

lemma keeps_books_prepare_request [io_rules]: "keeps (books b l E) (prepare_request env)"
  unfolding prepare_request_def by (auto split: prod.splits intro!: io_rules)

lemma keeps_books_prepare_turn [io_rules]: "keeps (books b l E) (prepare_turn env)"
  unfolding prepare_turn_def by (auto split: option.splits intro!: io_rules)

lemma keeps_books_conclude [io_rules]: "keeps (books b l E) (conclude_turn env a rs)"
  unfolding conclude_turn_def by (auto split: option.splits prod.splits intro!: io_rules)

lemma keeps_books_truncated [io_rules]: "keeps (books b l E) (failToolCallsFromTruncatedMessage env cs)"
  by (induction cs) (simp_all only: failToolCallsFromTruncatedMessage.simps Let_def; intro io_rules; assumption?)+

lemma keeps_books_prepare [io_rules]: "keeps (books b l E) (prepareToolCall env a c)"
proof -
  have "keeps (books b l E) (check_call env a c t)" for t
    unfolding check_call_def by (auto split: sum.splits option.splits intro!: io_rules)
  then show ?thesis unfolding prepareToolCall_def by (auto split: option.splits intro!: io_rules)
qed

lemma keeps_books_finish [io_rules]: "keeps (books b l E) (finish_response env final added)"
  unfolding finish_response_def by (intro io_rules)

lemma keeps_books_stream [io_rules]: "keeps (books b l E) (stream_loop env final evs added)"
  by (induction env final evs added rule: stream_loop.induct) (auto intro!: io_rules)

lemma keeps_books_updates [io_rules]: "keeps (books b l E) (emit_updates env c us)"
proof (induction us)
  case Nil
  show ?case by (simp add: keeps_return)
next
  case (Cons u us)
  let ?m = "emit env (ToolExecutionUpdate (call_id c) (call_name c) (call_arguments c) u)"
  show ?case
    unfolding keeps_def
  proof (intro allI impI)
    fix s :: "'a run"
    assume s: "books b l E s"
    obtain r s1 where m: "?m s = (r, s1)" by force
    have "books b l E s1" by (rule keepsD [OF keeps_books_emit s m])
    then have "books b l E (snd (emit_updates env c us s1))" using Cons.IH by (simp add: keeps_def)
    then show "books b l E (snd (emit_updates env c (u # us) s))" using m by (cases r) simp_all
  qed
qed

lemma keeps_books_results [io_rules]: "keeps (books b l E) (emit_results env fs)"
  by (induction fs) (simp_all only: emit_results.simps; intro io_rules; assumption?)+

lemma keeps_books_next_round [io_rules]: "keeps (books b l E) (next_round env)"
  unfolding next_round_def by (intro io_rules)

lemma keeps_books_start_prompts: "keeps (books b l E) (start_prompts env prompts)"
proof -
  have "keeps (books b l E) (update_io (\<lambda>s. fold (\<lambda>m s. push_new m (push_context m s)) xs s))" for xs
    by (rule keeps_books_push_all [where g = "\<lambda>m. m"])
  then show ?thesis unfolding start_prompts_def by (auto intro!: io_rules)
qed

lemma keeps_books_start_continue: "keeps (books b l E) (start_continue env)"
  unfolding start_continue_def by (intro io_rules)

end
