(* ===== verification/Budget_Props.thy ===== *)
theory Budget_Props imports Run_Budget begin

text \<open>
  No counter of a budget passes its limit, whatever the order of attempts and however the clock moves. The locale
  \<open>bounded_gate\<close> is what a client of a gate relies on: an attempt that succeeds uses up a unit of a finite remaining. It
  is interpreted on the two gates of a budget. The last section compares what the composition promises about refused
  attempts with what it does.
\<close>

section \<open>What an attempt changes\<close>

text \<open>The controllers before and after: the policies stay, the counters grow, at least by the counts of the attempt, and a
  counter that grows was below its limit.\<close>

definition leaf_step :: "int \<Rightarrow> int \<Rightarrow> controller \<Rightarrow> controller \<Rightarrow> bool" where
  "leaf_step r t c c' \<longleftrightarrow> policy c' = policy c \<and> startedAt (usage c') = startedAt (usage c) \<and>
     providerRequests (usage c) + r \<le> providerRequests (usage c') \<and> toolCalls (usage c) + t \<le> toolCalls (usage c') \<and>
     (providerRequests (usage c') = providerRequests (usage c) \<or>
       (\<forall>m. maxProviderRequests (policy c) = Some m \<longrightarrow> providerRequests (usage c') \<le> m)) \<and>
     (toolCalls (usage c') = toolCalls (usage c) \<or> (\<forall>m. maxToolCalls (policy c) = Some m \<longrightarrow> toolCalls (usage c') \<le> m))"

lemma leaf_step_refl: "leaf_step 0 0 c c"
  by (simp add: leaf_step_def)

lemma leaf_step_weaken: "leaf_step r t c c' \<Longrightarrow> 0 \<le> r \<Longrightarrow> 0 \<le> t \<Longrightarrow> leaf_step 0 0 c c'"
  by (auto simp: leaf_step_def)

lemma leaf_step_trans: "leaf_step r t c c' \<Longrightarrow> leaf_step r' t' c' c'' \<Longrightarrow> leaf_step (r + r') (t + t') c c''"
  by (auto simp: leaf_step_def)

lemma leaf_step_request:
  "stock_exhausted now c w = (None, w') \<Longrightarrow> leaf_step 1 0 c (count_request c)"
  by (auto simp: stock_exhausted_def leaf_step_def count_request_def reached_def split: if_splits option.splits prod.splits)

lemma leaf_step_call:
  "toolCallAcceptable now c w = (True, w') \<Longrightarrow> leaf_step 0 1 c (count_call c)"
  by (auto simp: toolCallAcceptable_def leaf_step_def count_call_def reached_def split: if_splits option.splits prod.splits)

definition tree_step :: "int \<Rightarrow> int \<Rightarrow> budget \<Rightarrow> budget \<Rightarrow> bool" where
  "tree_step r t b b' \<longleftrightarrow> list_all2 (leaf_step r t) (leaves b) (leaves b')"

lemma tree_step_refl: "tree_step 0 0 b b"
  by (simp add: tree_step_def list_all2_refl leaf_step_refl)

lemma tree_step_weaken: "tree_step r t b b' \<Longrightarrow> 0 \<le> r \<Longrightarrow> 0 \<le> t \<Longrightarrow> tree_step 0 0 b b'"
  unfolding tree_step_def by (erule list_all2_mono) (rule leaf_step_weaken)

lemma tree_step_trans: "tree_step r t b b' \<Longrightarrow> tree_step r' t' b' b'' \<Longrightarrow> tree_step (r + r') (t + t') b b''"
  unfolding tree_step_def list_all2_conv_all_nth by (metis leaf_step_trans)

lemma tree_step_Composite: "tree_step r t b b' \<Longrightarrow> tree_step r t c c' \<Longrightarrow> tree_step r t (Composite b c) (Composite b' c')"
  by (simp add: tree_step_def list_all2_appendI)

lemma begin_step:
  "tryBeginProviderRequest now b w = ((ok, b'), w') \<Longrightarrow> tree_step (if ok then 1 else 0) 0 b b'"
proof (induction b arbitrary: ok b' w w')
  case (Stock c)
  then show ?case
    by (auto simp: tree_step_def leaf_step_refl intro!: leaf_step_request split: prod.splits if_splits)
next
  case (Composite p s)
  show ?case
  proof (cases "either_blocks blocksProviderRequest now p s w")
    case (Pair blocked w1)
    obtain okp p' w2 where p: "tryBeginProviderRequest now p w1 = ((okp, p'), w2)" by (metis prod.collapse)
    obtain oks s' w3 where s: "tryBeginProviderRequest now s w2 = ((oks, s'), w3)" by (metis prod.collapse)
    note steps = Composite.IH(1) [OF p] Composite.IH(2) [OF s]
    note weak = tree_step_weaken [OF steps(1)] tree_step_weaken [OF steps(2)]
    show ?thesis
    proof (cases "blocked \<or> \<not> okp")
      case True
      then show ?thesis using Composite.prems Pair p weak(1)
        by (cases blocked) (auto simp: tree_step_refl intro!: tree_step_Composite)
    next
      case False
      then show ?thesis using Composite.prems Pair p s steps weak by (cases oks) (auto intro!: tree_step_Composite)
    qed
  qed
qed

lemma accept_step:
  "tryAcceptToolCall now b w = ((ok, b'), w') \<Longrightarrow> tree_step 0 (if ok then 1 else 0) b b'"
proof (induction b arbitrary: ok b' w w')
  case (Stock c)
  then show ?case
    by (auto simp: tree_step_def leaf_step_refl intro!: leaf_step_call split: prod.splits if_splits)
next
  case (Composite p s)
  show ?case
  proof (cases "either_blocks blocksToolCall now p s w")
    case (Pair blocked w1)
    obtain okp p' w2 where p: "tryAcceptToolCall now p w1 = ((okp, p'), w2)" by (metis prod.collapse)
    obtain oks s' w3 where s: "tryAcceptToolCall now s w2 = ((oks, s'), w3)" by (metis prod.collapse)
    note steps = Composite.IH(1) [OF p] Composite.IH(2) [OF s]
    note weak = tree_step_weaken [OF steps(1)] tree_step_weaken [OF steps(2)]
    show ?thesis
    proof (cases "blocked \<or> \<not> okp")
      case True
      then show ?thesis using Composite.prems Pair p weak(1)
        by (cases blocked) (auto simp: tree_step_refl intro!: tree_step_Composite)
    next
      case False
      then show ?thesis using Composite.prems Pair p s steps weak by (cases oks) (auto intro!: tree_step_Composite)
    qed
  qed
qed

lemma maintenance_step: "tree_step 0 0 b (recordMaintenanceRequest b)"
  by (induction b) (auto simp: tree_step_def leaf_step_def count_maintenance_def intro: list_all2_appendI)

section \<open>A family of runs\<close>

text \<open>
  Runs with controllers of their own share one: any of them may attempt something next. The result lists what was
  attempted, by whom, and whether it was allowed.
\<close>

datatype budget_op = BeginRequest | AcceptCall | Maintain

fun attempt :: "'w clock \<Rightarrow> budget_op \<Rightarrow> budget \<Rightarrow> 'w \<Rightarrow> (bool \<times> budget) \<times> 'w" where
  "attempt now BeginRequest b w = tryBeginProviderRequest now b w"
| "attempt now AcceptCall b w = tryAcceptToolCall now b w"
| "attempt now Maintain b w = ((True, recordMaintenanceRequest b), w)"

fun parts :: "budget \<Rightarrow> budget \<times> budget" where
  "parts (Composite p s) = (p, s)"
| "parts (Stock c) = (Stock c, Stock c)"

fun run_family :: "'w clock \<Rightarrow> (nat \<times> budget_op) list \<Rightarrow> budget list \<Rightarrow> budget \<Rightarrow> 'w \<Rightarrow>
    (nat \<times> budget_op \<times> bool) list \<times> budget list \<times> budget \<times> 'w" where
  "run_family now [] owns shared w = ([], owns, shared, w)"
| "run_family now ((i, op) # ops) owns shared w =
     (case attempt now op (Composite (owns ! i) shared) w of ((ok, b), w1) \<Rightarrow>
        case parts b of (own, shared1) \<Rightarrow>
          case run_family now ops (owns[i := own]) shared1 w1 of (log, owns2, shared2, w2) \<Rightarrow>
            ((i, op, ok) # log, owns2, shared2, w2))"

definition allowed :: "budget_op \<Rightarrow> nat set \<Rightarrow> (nat \<times> budget_op \<times> bool) list \<Rightarrow> int" where
  "allowed op is log = int (length (filter (\<lambda>(i, op', ok). i \<in> is \<and> op' = op \<and> ok) log))"

lemma attempt_step:
  assumes "attempt now op b w = ((ok, b'), w')"
  shows "tree_step (if op = BeginRequest \<and> ok then 1 else 0) (if op = AcceptCall \<and> ok then 1 else 0) b b'"
proof (cases op)
  case BeginRequest
  then show ?thesis using begin_step [of now b w] assms by simp
next
  case AcceptCall
  then show ?thesis using accept_step [of now b w] assms by simp
next
  case Maintain
  then show ?thesis using maintenance_step [of b] assms by auto
qed

lemma attempt_Composite: "attempt now op (Composite p s) w = ((ok, b'), w') \<Longrightarrow> \<exists>p' s'. b' = Composite p' s' \<and>
    length (leaves p') = length (leaves p) \<and> length (leaves s') = length (leaves s)"
proof -
  have begin_length: "tryBeginProviderRequest now b w = ((ok, b'), w') \<Longrightarrow> length (leaves b') = length (leaves b)" for b w ok b' w'
    using begin_step [of now b w] by (auto simp: tree_step_def dest: list_all2_lengthD)
  have accept_length: "tryAcceptToolCall now b w = ((ok, b'), w') \<Longrightarrow> length (leaves b') = length (leaves b)" for b w ok b' w'
    using accept_step [of now b w] by (auto simp: tree_step_def dest: list_all2_lengthD)
  have maintain_length: "length (leaves (recordMaintenanceRequest b)) = length (leaves b)" for b
    using maintenance_step [of b] by (auto simp: tree_step_def dest: list_all2_lengthD)
  assume "attempt now op (Composite p s) w = ((ok, b'), w')"
  then show ?thesis
    by (cases op)
      (auto simp: maintain_length split: prod.splits if_splits dest!: begin_length accept_length)
qed

lemma attempt_parts:
  assumes "attempt now op (Composite p s) w = ((ok, b), w')" and "parts b = (p', s')"
  shows "tree_step (if op = BeginRequest \<and> ok then 1 else 0) (if op = AcceptCall \<and> ok then 1 else 0) p p'"
    and "tree_step (if op = BeginRequest \<and> ok then 1 else 0) (if op = AcceptCall \<and> ok then 1 else 0) s s'"
proof -
  obtain p1 s1 where b: "b = Composite p1 s1" "length (leaves p1) = length (leaves p)"
    using attempt_Composite [OF assms(1)] by blast
  then have "p1 = p'" "s1 = s'" using assms(2) by simp_all
  then show "tree_step (if op = BeginRequest \<and> ok then 1 else 0) (if op = AcceptCall \<and> ok then 1 else 0) p p'"
    and "tree_step (if op = BeginRequest \<and> ok then 1 else 0) (if op = AcceptCall \<and> ok then 1 else 0) s s'"
    using attempt_step [OF assms(1)] b by (simp_all add: tree_step_def list_all2_append)
qed

lemma allowed_Cons:
  "allowed op is ((i, op', ok) # log) = (if op' = op \<and> ok \<and> i \<in> is then 1 else 0) + allowed op is log"
  by (auto simp: allowed_def)

lemma allowed_nonneg: "0 \<le> allowed op is log"
  by (simp add: allowed_def)

lemma run_family_step:
  assumes "run_family now ops owns shared w = (log, owns', shared', w')" and "\<forall>(i, op) \<in> set ops. i < length owns"
  shows "length owns' = length owns \<and> tree_step (allowed BeginRequest UNIV log) (allowed AcceptCall UNIV log) shared shared' \<and>
    (\<forall>i < length owns. tree_step (allowed BeginRequest {i} log) (allowed AcceptCall {i} log) (owns ! i) (owns' ! i))"
  using assms
proof (induction ops arbitrary: owns shared w log)
  case Nil
  then show ?case by (auto simp: allowed_def tree_step_refl)
next
  case (Cons x ops)
  obtain i op where x: "x = (i, op)" by force
  obtain ok b w1 where a: "attempt now op (Composite (owns ! i) shared) w = ((ok, b), w1)" by (metis prod.collapse)
  obtain own shared1 where b: "parts b = (own, shared1)" by force
  obtain log1 where r: "run_family now ops (owns[i := own]) shared1 w1 = (log1, owns', shared', w')" "log = (i, op, ok) # log1"
    using Cons.prems(1) by (auto simp: x a b split: prod.splits)
  have i: "i < length owns" using Cons.prems(2) by (simp add: x)
  let ?r = "if op = BeginRequest \<and> ok then 1 else 0" and ?t = "if op = AcceptCall \<and> ok then 1 else 0"
  note step = attempt_parts [OF a b]
  have "\<forall>(j, op) \<in> set ops. j < length (owns[i := own])" using Cons.prems(2) by auto
  note IH = Cons.IH [OF r(1) this]
  have "tree_step (?r + allowed BeginRequest UNIV log1) (?t + allowed AcceptCall UNIV log1) shared shared'"
    using tree_step_trans [OF step(2)] IH by blast
  then have shared: "tree_step (allowed BeginRequest UNIV log) (allowed AcceptCall UNIV log) shared shared'"
    by (simp add: r(2) allowed_Cons)
  have "tree_step (allowed BeginRequest {j} log) (allowed AcceptCall {j} log) (owns ! j) (owns' ! j)" if j: "j < length owns" for j
  proof (cases "j = i")
    case True
    have "tree_step (?r + allowed BeginRequest {i} log1) (?t + allowed AcceptCall {i} log1) (owns ! i) (owns' ! i)"
      using tree_step_trans [OF step(1)] IH i by (metis length_list_update nth_list_update_eq)
    then show ?thesis using True by (simp add: r(2) allowed_Cons)
  next
    case False
    then have "tree_step (allowed BeginRequest {j} log1) (allowed AcceptCall {j} log1) (owns ! j) (owns' ! j)"
      using IH j by (metis length_list_update nth_list_update_neq)
    then show ?thesis using False by (simp add: r(2) allowed_Cons)
  qed
  then show ?case using IH shared by simp
qed

definition fresh :: "budget \<Rightarrow> bool" where
  "fresh b \<longleftrightarrow> (\<forall>c \<in> set (leaves b). providerRequests (usage c) = 0 \<and> toolCalls (usage c) = 0)"

text \<open>Every limit of the budget is kept by its counter, and so by the number of attempts that were allowed.\<close>

definition keeps_limits :: "int \<Rightarrow> int \<Rightarrow> budget \<Rightarrow> bool" where
  "keeps_limits requests calls b \<longleftrightarrow> (\<forall>c \<in> set (leaves b).
     (\<forall>m. maxProviderRequests (policy c) = Some m \<longrightarrow> requests \<le> providerRequests (usage c) \<and> providerRequests (usage c) \<le> max 0 m) \<and>
     (\<forall>m. maxToolCalls (policy c) = Some m \<longrightarrow> calls \<le> toolCalls (usage c) \<and> toolCalls (usage c) \<le> max 0 m))"

lemma fresh_keeps_limits:
  assumes "fresh b" and "tree_step r t b b'" and "0 \<le> r" and "0 \<le> t"
  shows "keeps_limits r t b'"
proof -
  have "\<forall>c' \<in> set (leaves b'). \<exists>c \<in> set (leaves b). leaf_step r t c c'"
    using assms(2) unfolding tree_step_def list_all2_conv_all_nth by (metis in_set_conv_nth)
  then show ?thesis using assms(1,3,4) by (fastforce simp: keeps_limits_def fresh_def leaf_step_def)
qed

text \<open>
  Whatever the runs of a family attempt, in whatever order and however the clock moves, the attempts of all of them
  that were allowed stay within every limit of the shared budget, and those of each run within its own.
\<close>
theorem family_within_limits:
  assumes "run_family now ops owns shared w = (log, owns', shared', w')" and "\<forall>(i, op) \<in> set ops. i < length owns"
    and "fresh shared" and "\<forall>own \<in> set owns. fresh own"
  shows "keeps_limits (allowed BeginRequest UNIV log) (allowed AcceptCall UNIV log) shared' \<and>
    (\<forall>i < length owns. keeps_limits (allowed BeginRequest {i} log) (allowed AcceptCall {i} log) (owns' ! i))"
  using run_family_step [OF assms(1,2)] assms(3,4) fresh_keeps_limits allowed_nonneg by (metis nth_mem)

abbreviation example_own :: "int \<Rightarrow> int \<Rightarrow> budget" where
  "example_own requests calls \<equiv> Stock \<lparr>policy = \<lparr>maxProviderRequests = Some 1, maxToolCalls = None, maxWallTimeMs = Some 100\<rparr>,
     usage = \<lparr>providerRequests = requests, toolCalls = calls, maintenanceRequests = 0, startedAt = 0\<rparr>\<rparr>"

abbreviation example_shared :: "int \<Rightarrow> int \<Rightarrow> budget" where
  "example_shared requests calls \<equiv> Stock \<lparr>policy = \<lparr>maxProviderRequests = Some 5, maxToolCalls = Some 1, maxWallTimeMs = None\<rparr>,
     usage = \<lparr>providerRequests = requests, toolCalls = calls, maintenanceRequests = 0, startedAt = 0\<rparr>\<rparr>"

abbreviation example_log :: "(nat \<times> budget_op \<times> bool) list" where
  "example_log \<equiv> [(0, BeginRequest, True), (0, BeginRequest, False), (1, BeginRequest, True), (1, AcceptCall, True), (0, AcceptCall, False)]"

theorem family_within_limits_witness:
  "keeps_limits (allowed BeginRequest UNIV example_log) (allowed AcceptCall UNIV example_log) (example_shared 2 1) \<and>
    keeps_limits (allowed BeginRequest {1} example_log) (allowed AcceptCall {1} example_log) (example_own 1 1)"
proof -
  have run: "run_family (\<lambda>w. (w, w + 10)) [(0, BeginRequest), (0, BeginRequest), (1, BeginRequest), (1, AcceptCall), (0, AcceptCall)]
      [example_own 0 0, example_own 0 0] (example_shared 0 0) 0 =
    (example_log, [example_own 1 0, example_own 1 1], example_shared 2 1, 50)"
    by (simp add: either_blocks_def blocksProviderRequest_def blocksToolCall_def stock_exhausted_def toolCallAcceptable_def
        reached_def out_of_time_def count_request_def count_call_def)
  have limits: "keeps_limits (allowed BeginRequest UNIV example_log) (allowed AcceptCall UNIV example_log) (example_shared 2 1) \<and>
    (\<forall>i < length [example_own 0 0, example_own 0 0].
      keeps_limits (allowed BeginRequest {i} example_log) (allowed AcceptCall {i} example_log) ([example_own 1 0, example_own 1 1] ! i))"
    by (rule family_within_limits [OF run]) (auto simp: fresh_def)
  show ?thesis using conjunct1 [OF limits] spec [OF conjunct2 [OF limits], of 1] by simp
qed

section \<open>Supplies\<close>

text \<open>What a client relies on: every success uses up something that nothing restores.\<close>

locale bounded_gate =
  fixes gate :: "'b \<Rightarrow> 'w \<Rightarrow> (bool \<times> 'b) \<times> 'w" and other :: "'b \<Rightarrow> 'w \<Rightarrow> (bool \<times> 'b) \<times> 'w"
    and remaining :: "'b \<Rightarrow> nat option"
  assumes used: "gate b w = ((True, b'), w') \<Longrightarrow> remaining b = Some n \<Longrightarrow> \<exists>n'. remaining b' = Some n' \<and> n' < n"
    and kept: "gate b w = ((ok, b'), w') \<Longrightarrow> remaining b = Some n \<Longrightarrow> \<exists>n'. remaining b' = Some n' \<and> n' \<le> n"
    and other_kept: "other b w = ((ok, b'), w') \<Longrightarrow> remaining b = Some n \<Longrightarrow> \<exists>n'. remaining b' = Some n' \<and> n' \<le> n"
begin

text \<open>Attempts at the gate (\<open>True\<close>) and at the other one (\<open>False\<close>); the number of successes at the gate.\<close>

fun successes :: "bool list \<Rightarrow> 'b \<Rightarrow> 'w \<Rightarrow> nat" where
  "successes [] b w = 0"
| "successes (x # xs) b w =
     (case (if x then gate b w else other b w) of ((ok, b'), w') \<Rightarrow>
        (if x \<and> ok then 1 else 0) + successes xs b' w')"

lemma successes_bounded: "remaining b = Some n \<Longrightarrow> successes xs b w \<le> n"
proof (induction xs arbitrary: b w n)
  case (Cons x xs)
  obtain ok b' w' where g: "(if x then gate b w else other b w) = ((ok, b'), w')" by (metis prod.collapse)
  show ?case
  proof (cases "x \<and> ok")
    case True
    then obtain n' where "remaining b' = Some n'" "n' < n" using used g Cons.prems by (metis (full_types))
    then show ?thesis using Cons.IH [of b' n' w'] g True by simp
  next
    case False
    then obtain n' where "remaining b' = Some n'" "n' \<le> n" using kept other_kept g Cons.prems by (metis (full_types))
    then show ?thesis using Cons.IH [of b' n' w'] g False by auto
  qed
qed simp

end

definition left_of :: "int option \<Rightarrow> int \<Rightarrow> nat" where
  "left_of limit n = (case limit of None \<Rightarrow> 0 | Some m \<Rightarrow> nat (m - n))"

definition requests_left :: "budget \<Rightarrow> nat option" where
  "requests_left b =
     (if \<forall>c \<in> set (leaves b). maxProviderRequests (policy c) = None then None
      else Some (sum_list (map (\<lambda>c. left_of (maxProviderRequests (policy c)) (providerRequests (usage c))) (leaves b))))"

definition calls_left :: "budget \<Rightarrow> nat option" where
  "calls_left b =
     (if \<forall>c \<in> set (leaves b). maxToolCalls (policy c) = None then None
      else Some (sum_list (map (\<lambda>c. left_of (maxToolCalls (policy c)) (toolCalls (usage c))) (leaves b))))"

lemma leaf_step_left:
  assumes "leaf_step r t c c'" and "0 \<le> r" and "0 \<le> t"
  shows "left_of (maxProviderRequests (policy c')) (providerRequests (usage c')) \<le> left_of (maxProviderRequests (policy c)) (providerRequests (usage c))"
    and "left_of (maxToolCalls (policy c')) (toolCalls (usage c')) \<le> left_of (maxToolCalls (policy c)) (toolCalls (usage c))"
    and "0 < r \<Longrightarrow> maxProviderRequests (policy c) \<noteq> None \<Longrightarrow>
      left_of (maxProviderRequests (policy c')) (providerRequests (usage c')) < left_of (maxProviderRequests (policy c)) (providerRequests (usage c))"
    and "0 < t \<Longrightarrow> maxToolCalls (policy c) \<noteq> None \<Longrightarrow>
      left_of (maxToolCalls (policy c')) (toolCalls (usage c')) < left_of (maxToolCalls (policy c)) (toolCalls (usage c))"
  using assms by (auto simp: leaf_step_def left_of_def split: option.splits)

lemma sum_le_all2: "list_all2 (\<lambda>x y. f y \<le> (f x :: nat)) xs ys \<Longrightarrow> sum_list (map f ys) \<le> sum_list (map f xs)"
  by (induction rule: list_all2_induct) auto

lemma sum_less_all2:
  "list_all2 (\<lambda>x y. f y \<le> (f x :: nat)) xs ys \<Longrightarrow> list_all2 (\<lambda>x y. P x \<longrightarrow> f y < f x) xs ys \<Longrightarrow> \<exists>x \<in> set xs. P x \<Longrightarrow>
    sum_list (map f ys) < sum_list (map f xs)"
proof (induction rule: list_all2_induct)
  case (Cons x xs y ys)
  have le: "sum_list (map f ys) \<le> sum_list (map f xs)" using Cons.hyps(2) by (rule sum_le_all2)
  show ?case
  proof (cases "P x")
    case True
    then show ?thesis using Cons.prems le by simp
  next
    case False
    then show ?thesis using Cons by simp
  qed
qed simp

lemma tree_step_policies:
  assumes "tree_step r t b b'"
  shows "map policy (leaves b') = map policy (leaves b)"
  using assms unfolding tree_step_def by (induction rule: list_all2_induct) (auto simp: leaf_step_def)

lemma tree_step_limits:
  assumes "tree_step r t b b'"
  shows "(\<exists>c \<in> set (leaves b'). P (policy c)) = (\<exists>c \<in> set (leaves b). P (policy c))"
proof -
  have "(\<exists>p \<in> set (map policy (leaves b')). P p) = (\<exists>p \<in> set (map policy (leaves b)). P p)"
    unfolding tree_step_policies [OF assms] ..
  then show ?thesis by simp
qed

lemma tree_step_requests:
  assumes "tree_step r t b b'" and "0 \<le> r" and "0 \<le> t" and "requests_left b = Some n"
  shows "\<exists>n'. requests_left b' = Some n' \<and> n' \<le> n \<and> (0 < r \<longrightarrow> n' < n)"
proof -
  let ?f = "\<lambda>c. left_of (maxProviderRequests (policy c)) (providerRequests (usage c))"
  have some: "\<exists>c \<in> set (leaves b). maxProviderRequests (policy c) \<noteq> None" and n: "n = sum_list (map ?f (leaves b))"
    using assms(4) by (auto simp: requests_left_def split: if_splits)
  have "\<exists>c \<in> set (leaves b'). maxProviderRequests (policy c) \<noteq> None" using some by (simp only: tree_step_limits [OF assms(1), of "\<lambda>p. maxProviderRequests p \<noteq> None"])
  then have "requests_left b' = Some (sum_list (map ?f (leaves b')))" by (auto simp: requests_left_def)
  moreover have le: "list_all2 (\<lambda>c c'. ?f c' \<le> ?f c) (leaves b) (leaves b')"
    using assms(1) unfolding tree_step_def by (rule list_all2_mono) (use leaf_step_left(1) assms(2,3) in blast)
  moreover have "list_all2 (\<lambda>c c'. maxProviderRequests (policy c) \<noteq> None \<longrightarrow> ?f c' < ?f c) (leaves b) (leaves b')" if "0 < r"
    using assms(1) unfolding tree_step_def by (rule list_all2_mono) (use leaf_step_left(3) assms(2,3) that in blast)
  ultimately show ?thesis using sum_le_all2 [OF le] sum_less_all2 [OF le _ some] by (auto simp: n)
qed

lemma tree_step_calls:
  assumes "tree_step r t b b'" and "0 \<le> r" and "0 \<le> t" and "calls_left b = Some n"
  shows "\<exists>n'. calls_left b' = Some n' \<and> n' \<le> n \<and> (0 < t \<longrightarrow> n' < n)"
proof -
  let ?f = "\<lambda>c. left_of (maxToolCalls (policy c)) (toolCalls (usage c))"
  have some: "\<exists>c \<in> set (leaves b). maxToolCalls (policy c) \<noteq> None" and n: "n = sum_list (map ?f (leaves b))"
    using assms(4) by (auto simp: calls_left_def split: if_splits)
  have "\<exists>c \<in> set (leaves b'). maxToolCalls (policy c) \<noteq> None" using some by (simp only: tree_step_limits [OF assms(1), of "\<lambda>p. maxToolCalls p \<noteq> None"])
  then have "calls_left b' = Some (sum_list (map ?f (leaves b')))" by (auto simp: calls_left_def)
  moreover have le: "list_all2 (\<lambda>c c'. ?f c' \<le> ?f c) (leaves b) (leaves b')"
    using assms(1) unfolding tree_step_def by (rule list_all2_mono) (use leaf_step_left(2) assms(2,3) in blast)
  moreover have "list_all2 (\<lambda>c c'. maxToolCalls (policy c) \<noteq> None \<longrightarrow> ?f c' < ?f c) (leaves b) (leaves b')" if "0 < t"
    using assms(1) unfolding tree_step_def by (rule list_all2_mono) (use leaf_step_left(4) assms(2,3) that in blast)
  ultimately show ?thesis using sum_le_all2 [OF le] sum_less_all2 [OF le _ some] by (auto simp: n)
qed

interpretation request_gate: bounded_gate "tryBeginProviderRequest now" "tryAcceptToolCall now" requests_left for now
proof
  fix b w b' w' n
  assume b: "tryBeginProviderRequest now b w = ((True, b'), w')" "requests_left b = Some n"
  show "\<exists>n'. requests_left b' = Some n' \<and> n' < n" using tree_step_requests [OF begin_step [OF b(1)] _ _ b(2)] by auto
next
  fix b w ok b' w' n
  assume b: "tryBeginProviderRequest now b w = ((ok, b'), w')" "requests_left b = Some n"
  show "\<exists>n'. requests_left b' = Some n' \<and> n' \<le> n" using tree_step_requests [OF begin_step [OF b(1)] _ _ b(2)] by (cases ok) auto
next
  fix b w ok b' w' n
  assume b: "tryAcceptToolCall now b w = ((ok, b'), w')" "requests_left b = Some n"
  show "\<exists>n'. requests_left b' = Some n' \<and> n' \<le> n" using tree_step_requests [OF accept_step [OF b(1)] _ _ b(2)] by (cases ok) auto
qed

interpretation call_gate: bounded_gate "tryAcceptToolCall now" "tryBeginProviderRequest now" calls_left for now
proof
  fix b w b' w' n
  assume b: "tryAcceptToolCall now b w = ((True, b'), w')" "calls_left b = Some n"
  show "\<exists>n'. calls_left b' = Some n' \<and> n' < n" using tree_step_calls [OF accept_step [OF b(1)] _ _ b(2)] by auto
next
  fix b w ok b' w' n
  assume b: "tryAcceptToolCall now b w = ((ok, b'), w')" "calls_left b = Some n"
  show "\<exists>n'. calls_left b' = Some n' \<and> n' \<le> n" using tree_step_calls [OF accept_step [OF b(1)] _ _ b(2)] by (cases ok) auto
next
  fix b w ok b' w' n
  assume b: "tryBeginProviderRequest now b w = ((ok, b'), w')" "calls_left b = Some n"
  show "\<exists>n'. calls_left b' = Some n' \<and> n' \<le> n" using tree_step_calls [OF begin_step [OF b(1)] _ _ b(2)] by (cases ok) auto
qed

section \<open>Refused attempts\<close>

lemma exhausted_steady:
  assumes "\<And>w. now w = (t, w)"
  shows "snd (exhaustedLimit now b w) = w"
proof (induction b)
  case (Stock c)
  then show ?case by (simp add: stock_exhausted_def out_of_time_def assms split: option.splits)
next
  case (Composite p s)
  obtain l where p: "exhaustedLimit now p w = (l, w)" using Composite.IH(1) by (metis prod.collapse)
  then show ?case using Composite.IH(2) by (cases l) simp_all
qed

fun all_counted :: "budget \<Rightarrow> budget" where
  "all_counted (Stock c) = Stock (count_request c)"
| "all_counted (Composite p s) = Composite (all_counted p) (all_counted s)"

lemma begin_steady:
  assumes "\<And>w. now w = (t, w)"
  shows "tryBeginProviderRequest now b w =
    (if fst (exhaustedLimit now b w) = None then ((True, all_counted b), w) else ((False, b), w))"
proof (induction b)
  case (Stock c)
  obtain l where "stock_exhausted now c w = (l, w)"
    using exhausted_steady [where now = now and b = "Stock c", OF assms, of w] by (metis exhaustedLimit.simps(1) prod.collapse)
  then show ?case by simp
next
  case (Composite p s)
  obtain l where p: "exhaustedLimit now p w = (l, w)"
    using exhausted_steady [where now = now and b = p, OF assms, of w] by (metis prod.collapse)
  obtain k where s: "exhaustedLimit now s w = (k, w)"
    using exhausted_steady [where now = now and b = s, OF assms, of w] by (metis prod.collapse)
  show ?case using Composite.IH p s by (cases l; cases k) (simp_all add: either_blocks_def blocksProviderRequest_def)
qed

text \<open>A shared budget that is out of requests and of tool calls, and an own budget that has both.\<close>

abbreviation spent_shared :: budget where
  "spent_shared \<equiv> Stock \<lparr>policy = \<lparr>maxProviderRequests = Some 1, maxToolCalls = Some 1, maxWallTimeMs = None\<rparr>,
     usage = \<lparr>providerRequests = 1, toolCalls = 1, maintenanceRequests = 0, startedAt = 0\<rparr>\<rparr>"

abbreviation own_with_calls :: "int \<Rightarrow> budget" where
  "own_with_calls n \<equiv> Stock \<lparr>policy = \<lparr>maxProviderRequests = None, maxToolCalls = Some 9, maxWallTimeMs = None\<rparr>,
     usage = \<lparr>providerRequests = 1, toolCalls = n, maintenanceRequests = 0, startedAt = 0\<rparr>\<rparr>"

text \<open>
  C39: The gate for requests is exact when the clock stands still: a request is refused without a trace when some limit is
  reached, and counted by every controller otherwise. The gate for tool calls is not, although the source says that stock
  controllers never record an attempt which another refuses: a shared controller that is out of requests and of tool
  calls names the first limit only, so the composition goes on, and the own controller counts a call that is refused.
\<close>
theorem request_gate_exact_call_gate_not:
  "tryBeginProviderRequest (\<lambda>w. (t, w)) b w =
      (if fst (exhaustedLimit (\<lambda>w. (t, w)) b w) = None then ((True, all_counted b), w) else ((False, b), w)) \<and>
    tryAcceptToolCall (\<lambda>w. (t, w)) (Composite (own_with_calls 0) spent_shared) w =
      ((False, Composite (own_with_calls 1) spent_shared), w)"
  using begin_steady [where now = "\<lambda>w. (t, w)" and t = t and b = b and w = w]
  by (simp add: either_blocks_def blocksToolCall_def stock_exhausted_def toolCallAcceptable_def reached_def out_of_time_def count_call_def)

end
