(* ===== verification/Agent_Loop_Budget.thy ===== *)
theory Agent_Loop_Budget imports Agent_Loop_Books Agent_Loop_Example Budget_Props begin

text \<open>
  What a budget does for a run. The gates of \<open>Run_Budget\<close> are passed before a request and before a call; the log of
  the run lists what was asked. The locale \<open>metered\<close> states what the loop needs of a gate, and its lemmas follow the
  budget through the loop: what is left, and what was taken and not yet used, bound what is still asked.
\<close>

section \<open>Spending\<close>

fun kind :: "bool \<Rightarrow> bool \<Rightarrow> asked \<Rightarrow> bool" where
  "kind asks calls (Requested _) = asks"
| "kind asks calls (Executed _ _ _) = calls"

definition count_asked :: "(asked \<Rightarrow> bool) \<Rightarrow> asked list \<Rightarrow> nat" where
  "count_asked P l = length (filter P l)"

text \<open>What was asked, what is left, and \<open>d\<close> taken but not used yet, together at most \<open>N\<close>.\<close>

definition spent :: "(budget \<Rightarrow> nat option) \<Rightarrow> (asked \<Rightarrow> bool) \<Rightarrow> nat \<Rightarrow> nat \<Rightarrow> 'w run \<Rightarrow> bool" where
  "spent left P d N s \<longleftrightarrow>
     (\<exists>b n. runBudget s = Some b \<and> left b = Some n \<and> count_asked P (log s) + n + d \<le> N)"

lemma spent_less: "spent left P d N s \<Longrightarrow> d' \<le> d \<Longrightarrow> spent left P d' N s"
  by (auto simp: spent_def)

lemma spent_keep:
  fixes m :: "('w, 'a) io"
  assumes "\<And>b l E. keeps (books b l E) m"
  shows "keeps (spent left P d N) m"
  unfolding keeps_def
proof (intro allI impI)
  fix s :: "'w run"
  assume s: "spent left P d N s"
  have "books (runBudget s) (log s) {} (snd (m s))" using assms [of "runBudget s" "log s" "{}"] by (simp add: keeps_def books_def)
  then show "spent left P d N (snd (m s))" using s by (simp add: spent_def books_def)
qed

lemma spent_quiet:
  assumes "\<And>b l E. keeps (books b l E) m"
  shows "ensures (spent left P d N) m (\<lambda>_. spent left P d N) (spent left P 0 N)"
  by (rule ensures_weaken [OF keeps_ensures [OF spent_keep [OF assms, where d = d]]]) (auto elim: spent_less)

lemma bind_quiet:
  "(\<And>b l E. keeps (books b l E) m) \<Longrightarrow> (\<And>a. ensures (spent left P d N) (f a) Q (spent left P 0 N)) \<Longrightarrow>
    ensures (spent left P d N) (bind_io m f) Q (spent left P 0 N)"
  by (rule ensures_bind [OF spent_quiet])

section \<open>Completion orders\<close>

lemma completion_order_permutes: "distinct (completion_order n xs) \<and> set (completion_order n xs) = {0..<n}"
  by (auto simp: completion_order_def Let_def)

lemma completion_order_mset: "mset (completion_order n xs) = mset [0..<n]"
  using completion_order_permutes [of n xs] by (metis atLeastLessThan_upt distinct_upt set_eq_iff_mset_eq_distinct)

fun is_deferred :: "entry \<Rightarrow> bool" where
  "is_deferred (Settled _) = False"
| "is_deferred (Deferred _) = True"

lemma completion_order_count:
  "length (filter (\<lambda>i. P (es ! i)) (completion_order (length es) xs)) = length (filter P es)"
proof -
  have "mset (map ((!) es) (completion_order (length es) xs)) = mset (map ((!) es) [0..<length es])"
    unfolding mset_map completion_order_mset ..
  then have "mset (map ((!) es) (completion_order (length es) xs)) = mset es" by (simp add: map_nth)
  then have "length (filter P (map ((!) es) (completion_order (length es) xs))) = length (filter P es)"
    by (metis mset_filter size_mset)
  then show ?thesis by (simp add: filter_map comp_def)
qed

section \<open>A meter\<close>

text \<open>
  What the loop needs of the gates: \<open>left\<close> goes down by \<open>request\<close> when a request is let pass and by \<open>call\<close>
  when a call is, and each covers what is then counted.
\<close>

locale metered =
  fixes left :: "budget \<Rightarrow> nat option" and asks calls :: bool and request call :: nat and clock :: "'w clock"
  assumes begins: "tryBeginProviderRequest clock b w = ((ok, b'), w') \<Longrightarrow> left b = Some n \<Longrightarrow>
      \<exists>n'. left b' = Some n' \<and> n' + (if ok then request else 0) \<le> n"
    and accepts: "tryAcceptToolCall clock b w = ((ok, b'), w') \<Longrightarrow> left b = Some n \<Longrightarrow>
      \<exists>n'. left b' = Some n' \<and> n' + (if ok then call else 0) \<le> n"
    and request_covers: "of_bool asks \<le> request"
    and call_covers: "of_bool calls \<le> call"
begin

abbreviation meter :: "nat \<Rightarrow> nat \<Rightarrow> 'w run \<Rightarrow> bool" where
  "meter \<equiv> spent left (kind asks calls)"

lemma gate_request:
  assumes "now env = clock"
  shows "ensures (meter d N) (gate_io tryBeginProviderRequest env) (\<lambda>ok. meter (if ok then d + request else d) N) (meter 0 N)"
proof (rule ensuresI)
  fix s :: "'w run"
  assume "meter d N s"
  then obtain b n where b: "runBudget s = Some b" "left b = Some n" "count_asked (kind asks calls) (log s) + n + d \<le> N"
    by (auto simp: spent_def)
  obtain ok b' w where g: "tryBeginProviderRequest clock b (world s) = ((ok, b'), w)" by (metis prod.collapse)
  obtain n' where n': "left b' = Some n'" "n' + (if ok then request else 0) \<le> n" using begins [OF g b(2)] by blast
  show "case gate_io tryBeginProviderRequest env s of
      (Inr ok, s') \<Rightarrow> meter (if ok then d + request else d) N s' | (Inl _, s') \<Rightarrow> meter 0 N s'"
    using b n' by (auto simp: gate_io_def assms g spent_def)
qed

lemma gate_call:
  assumes "now env = clock"
  shows "ensures (meter d N) (gate_io tryAcceptToolCall env) (\<lambda>ok. meter (if ok then d + call else d) N) (meter 0 N)"
proof (rule ensuresI)
  fix s :: "'w run"
  assume "meter d N s"
  then obtain b n where b: "runBudget s = Some b" "left b = Some n" "count_asked (kind asks calls) (log s) + n + d \<le> N"
    by (auto simp: spent_def)
  obtain ok b' w where g: "tryAcceptToolCall clock b (world s) = ((ok, b'), w)" by (metis prod.collapse)
  obtain n' where n': "left b' = Some n'" "n' + (if ok then call else 0) \<le> n" using accepts [OF g b(2)] by blast
  show "case gate_io tryAcceptToolCall env s of
      (Inr ok, s') \<Rightarrow> meter (if ok then d + call else d) N s' | (Inl _, s') \<Rightarrow> meter 0 N s'"
    using b n' by (auto simp: gate_io_def assms g spent_def)
qed

lemma log_request:
  "ensures (meter (d + of_bool asks) N) (update_io (\<lambda>s. s\<lparr>log := log s @ [Requested ms]\<rparr>)) (\<lambda>_. meter d N) E"
  by (auto simp: ensures_def update_io_def spent_def count_asked_def)

lemma log_call:
  "ensures (meter (d + call) N) (update_io (\<lambda>s. s\<lparr>log := log s @ [Executed t i a]\<rparr>)) (\<lambda>_. meter d N) E"
  using call_covers by (auto simp: ensures_def update_io_def spent_def count_asked_def of_bool_def split: if_splits)

lemma weaken_rule: "ensures P m (\<lambda>_. meter d N) E \<Longrightarrow> d' \<le> d \<Longrightarrow> ensures P m (\<lambda>_. meter d' N) E"
  by (erule ensures_post) (rule spent_less)

lemma run_prepared: "ensures (meter (d + call) N) (run_prepared env a p) (\<lambda>_. meter d N) (meter 0 N)"
proof -
  have out: "ensures (meter d N) (case x of (updates, outcome) \<Rightarrow>
      bind_io (emit_updates env (prepared_call p) updates) (\<lambda>_. return_io (f outcome))) (\<lambda>_. meter d N) (meter 0 N)" for x f
    by (cases x; simp only: prod.case) (rule bind_quiet, intro io_rules, rule spent_quiet, intro io_rules)
  show ?thesis
    unfolding run_prepared_def executePreparedToolCall_def
    apply (rule ensures_bind [where R = "\<lambda>_. meter d N"])
     apply (rule ensures_bind, rule log_call, rule bind_quiet, intro io_rules, rule out)
    apply (rule spent_quiet, intro io_rules)
    done
qed

lemma settle_sequential:
  assumes "now env = clock"
  shows "ensures (meter d N) (settle_sequential env a c) (\<lambda>_. meter d N) (meter 0 N)"
proof -
  have go: "ensures (meter (if ok then d + call else d) N)
      (if ok then run_prepared env a p else bind_io (exhausted_io env) (\<lambda>l. return_io (out_of_budget c l))) (\<lambda>_. meter d N) (meter 0 N)" for ok p
  proof (cases ok)
    case True
    then show ?thesis using run_prepared [of d N env a p] by simp
  next
    case False
    then show ?thesis by simp (rule bind_quiet, intro io_rules, rule spent_quiet, intro io_rules)
  qed
  have "ensures (meter d N) (case p of Immediate r \<Rightarrow> return_io \<lparr>final_call = c, final_result = r, final_isError = True\<rparr>
      | Prepared p \<Rightarrow> bind_io (gate_io tryAcceptToolCall env) (\<lambda>accepted.
          if accepted then run_prepared env a p
          else bind_io (exhausted_io env) (\<lambda>l. return_io (out_of_budget c l)))) (\<lambda>_. meter d N) (meter 0 N)" for p
    by (cases p; simp only: preparation.case) (rule ensures_bind, rule gate_call [OF assms], rule go, rule ensures_return_io)
  then show ?thesis unfolding settle_sequential_def by (rule bind_quiet [rotated]) (intro io_rules)
qed

lemma sequential:
  assumes "now env = clock"
  shows "ensures (meter d N) (executeToolCallsSequential env a cs) (\<lambda>_. meter d N) (meter 0 N)"
proof (induction cs)
  case Nil
  show ?case unfolding executeToolCallsSequential.simps by (rule ensures_return_io)
next
  case (Cons c cs)
  show ?case unfolding executeToolCallsSequential.simps
    apply (rule bind_quiet, intro io_rules)
    apply (rule ensures_bind, rule settle_sequential [OF assms])
    apply (rule bind_quiet, intro io_rules)
    apply (rule bind_quiet, intro io_rules)
    apply (rule bind_quiet, intro io_rules)
    apply (rule ensures_if, rule ensures_return_io)
    apply (rule ensures_bind, rule Cons.IH, rule ensures_return_io)
    done
qed

text \<open>A batch in parallel: what the deferred calls took is held until they run.\<close>

lemma prepare_one:
  assumes "now env = clock"
  shows "ensures (meter d N) (prepare_entry env a c) (\<lambda>e. meter (if is_deferred e then d + call else d) N) (meter 0 N)"
proof -
  have settled: "ensures (meter d N) (bind_io (emitToolExecutionEnd env f) (\<lambda>_. return_io (Settled f)))
      (\<lambda>e. meter (if is_deferred e then d + call else d) N) (meter 0 N)" for f
    by (rule bind_quiet, intro io_rules, rule ensures_pre, rule ensures_return_io) simp
  have go: "ensures (meter (if ok then d + call else d) N)
      (if ok then return_io (Deferred p) else bind_io (exhausted_io env) (\<lambda>l.
         bind_io (emitToolExecutionEnd env (out_of_budget c l)) (\<lambda>_. return_io (Settled (out_of_budget c l)))))
      (\<lambda>e. meter (if is_deferred e then d + call else d) N) (meter 0 N)" for ok p
  proof (cases ok)
    case True
    then show ?thesis by simp (rule ensures_pre, rule ensures_return_io, simp)
  next
    case False
    then show ?thesis by simp (rule bind_quiet, intro io_rules, rule settled)
  qed
  show ?thesis
    unfolding prepare_entry_def Let_def
    apply (rule bind_quiet, intro io_rules)
    subgoal for p
      apply (cases p; simp only: preparation.case)
       apply (rule ensures_bind, rule gate_call [OF assms], rule go)
      apply (rule settled)
      done
    done
qed

definition taken :: "entry list \<Rightarrow> nat" where
  "taken es = call * length (filter is_deferred es)"

lemma prepare_all:
  assumes "now env = clock"
  shows "ensures (meter d N) (prepare_entries env a cs) (\<lambda>es. meter (d + taken es) N) (meter 0 N)"
proof (induction cs arbitrary: d)
  case Nil
  show ?case unfolding prepare_entries.simps by (rule ensures_pre, rule ensures_return_io) (simp add: taken_def)
next
  case (Cons c cs)
  have one: "meter (if is_deferred e then d + call else d) N s \<Longrightarrow> meter (d + taken [e]) N s" for e s
    by (simp add: taken_def split: if_splits)
  have rest: "ensures (meter (if is_deferred e then d + call else d) N)
      (bind_io (prepare_entries env a cs) (\<lambda>es. return_io (e # es))) (\<lambda>es. meter (d + taken es) N) (meter 0 N)" for e
    by (rule ensures_bind, rule Cons.IH, rule ensures_pre, rule ensures_return_io) (simp add: taken_def algebra_simps split: if_splits)
  show ?case unfolding prepare_entries.simps
    apply (rule bind_quiet, intro io_rules)
    apply (rule ensures_bind, rule prepare_one [OF assms])
    apply (rule bind_quiet, intro io_rules)
    apply (rule ensures_if, rule ensures_pre, rule ensures_return_io, erule one)
    apply (rule rest)
    done
qed

lemma settle_one:
  "ensures (meter (if is_deferred e then d + call else d) N) (settle_entry env a e) (\<lambda>_. meter d N) (meter 0 N)"
proof (cases e)
  case (Settled f)
  show ?thesis unfolding settle_entry_def Settled entry.case by (rule ensures_pre, rule ensures_return_io) simp
next
  case (Deferred p)
  have "ensures (meter (d + call) N) (if stop then return_io \<lparr>final_call = prepared_call p,
      final_result = createErrorToolResult ''Operation aborted'', final_isError = True\<rparr> else run_prepared env a p)
      (\<lambda>_. meter d N) (meter 0 N)" for stop
    by (rule ensures_if, rule ensures_pre, rule ensures_return_io, erule spent_less, simp, rule run_prepared)
  then have "ensures (meter (d + call) N) (settle_deferred env a p) (\<lambda>_. meter d N) (meter 0 N)"
    unfolding settle_deferred_def
    by - (rule bind_quiet, intro io_rules, rule ensures_bind, assumption, rule spent_quiet, intro io_rules)
  then show ?thesis by (simp add: settle_entry_def Deferred)
qed

lemma settle_all:
  "ensures (meter (d + call * length (filter (\<lambda>i. is_deferred (es ! i)) order)) N) (settle_entries env a es order settled)
    (\<lambda>_. meter d N) (meter 0 N)"
proof (induction order arbitrary: settled)
  case Nil
  show ?case unfolding settle_entries.simps by (rule ensures_pre, rule ensures_return_io) simp
next
  case (Cons i order)
  let ?d = "d + call * length (filter (\<lambda>i. is_deferred (es ! i)) order)"
  have "ensures (meter (if is_deferred (es ! i) then ?d + call else ?d) N)
      (settle_entries env a es (i # order) settled) (\<lambda>_. meter d N) (meter 0 N)"
    unfolding settle_entries.simps by (rule ensures_bind, rule settle_one, rule Cons.IH)
  then show ?case by (rule ensures_pre) (simp add: algebra_simps split: if_splits)
qed

lemma parallel:
  assumes "now env = clock"
  shows "ensures (meter d N) (executeToolCallsParallel env a cs) (\<lambda>_. meter d N) (meter 0 N)"
proof -
  have order: "ensures (meter (d + taken es) N)
      (read_io (\<lambda>s. completion_order (length es) (completion env (length es) (world s))))
      (\<lambda>order. meter (d + call * length (filter (\<lambda>i. is_deferred (es ! i)) order)) N) (meter 0 N)" for es
    by (rule ensures_pre, rule ensures_read) (simp add: taken_def completion_order_count)
  show ?thesis
    unfolding executeToolCallsParallel_def
    apply (rule ensures_bind, rule prepare_all [OF assms])
    apply (rule ensures_bind, rule order)
    apply (rule ensures_bind, rule settle_all)
    apply (rule spent_quiet, intro io_rules)
    done
qed

lemma tools:
  assumes "now env = clock"
  shows "ensures (meter d N) (run_tools env a) (\<lambda>_. meter d N) (meter 0 N)"
proof -
  have batch: "ensures (meter d N)
      (if block_calls (assistant_content a) = [] then return_io no_results
       else if stopReason a = LengthStop
       then bind_io (failToolCallsFromTruncatedMessage env (block_calls (assistant_content a))) (\<lambda>rs. return_io (rs, False))
       else executeToolCalls env a) (\<lambda>_. meter d N) (meter 0 N)"
    unfolding executeToolCalls_def Let_def
    apply (rule ensures_if, rule ensures_return_io)
    apply (rule ensures_if, rule bind_quiet, intro io_rules, rule ensures_return_io)
    apply (rule bind_quiet, intro io_rules)
    apply (rule ensures_bind, rule ensures_if, rule sequential [OF assms], rule parallel [OF assms])
    apply (rule ensures_return_io)
    done
  show ?thesis
    unfolding run_tools_def Let_def
    apply (rule ensures_bind, rule batch)
    subgoal for x
      apply (cases x; simp only: prod.case)
      apply (rule spent_quiet, intro io_rules)
      done
    done
qed

lemma stream_request:
  "ensures (meter (d + of_bool asks) N) (streamAssistantResponse env) (\<lambda>_. meter d N) (meter 0 N)"
proof -
  have loop: "ensures (meter d N) (case x of (evs, final) \<Rightarrow> stream_loop env final evs False) (\<lambda>_. meter d N) (meter 0 N)" for x
    by (cases x; simp only: prod.case) (rule spent_quiet, intro io_rules)
  show ?thesis
    unfolding streamAssistantResponse_def
    by (rule bind_quiet, intro io_rules, rule bind_quiet, intro io_rules, rule bind_quiet, intro io_rules,
        rule bind_quiet, intro io_rules, rule bind_quiet, intro io_rules, rule bind_quiet, intro io_rules,
        rule bind_quiet, intro io_rules, rule ensures_bind, rule log_request, rule bind_quiet, intro io_rules, rule loop)
qed

lemma answer:
  assumes "now env = clock"
  shows "ensures (meter (d + of_bool asks) N) (answer_turn env) (\<lambda>_. meter d N) (meter 0 N)"
  unfolding answer_turn_def
  apply (rule bind_quiet, intro io_rules)
  apply (rule ensures_bind, rule stream_request)
  apply (rule bind_quiet, intro io_rules)
  apply (rule ensures_if, rule spent_quiet, intro io_rules)
  apply (rule ensures_bind, rule tools [OF assms], rule spent_quiet, intro io_rules)
  done

text \<open>A turn that lets the run go on has passed the gate for a request.\<close>

lemma turn:
  assumes "now env = clock"
  shows "ensures (meter 0 N) (run_turn env) (\<lambda>over. meter (if over then 0 else request - of_bool asks) N) (meter 0 N)"
proof -
  have held: "request = (request - of_bool asks) + of_bool asks" using request_covers by simp
  have go: "ensures (meter (if ok then 0 + request else 0) N)
      (if ok then answer_turn env else bind_io (over_budget env) (\<lambda>_. return_io True))
      (\<lambda>over. meter (if over then 0 else request - of_bool asks) N) (meter 0 N)" for ok
  proof (cases ok)
    case True
    have "ensures (meter request N) (answer_turn env) (\<lambda>_. meter (request - of_bool asks) N) (meter 0 N)"
      by (subst (1) held) (rule answer [OF assms])
    then have "ensures (meter request N) (answer_turn env) (\<lambda>over. meter (if over then 0 else request - of_bool asks) N) (meter 0 N)"
      by (rule ensures_post) (auto elim: spent_less)
    with True show ?thesis by simp
  next
    case False
    have "ensures (meter 0 N) (bind_io (over_budget env) (\<lambda>_. return_io True))
        (\<lambda>over. meter (if over then 0 else request - of_bool asks) N) (meter 0 N)"
      by (rule bind_quiet, intro io_rules, rule ensures_pre, rule ensures_return_io, simp)
    then show ?thesis unfolding if_not_P [OF False] .
  qed
  show ?thesis
    unfolding run_turn_def
    apply (rule bind_quiet, intro io_rules)
    apply (rule bind_quiet, intro io_rules)
    apply (rule ensures_bind, rule gate_request [OF assms], rule go)
    done
qed

lemma round:
  assumes "now env = clock"
  shows "ensures (meter 0 N) (iteration env) (\<lambda>_. meter 0 N) (meter 0 N)"
proof (rule iteration_rule)
  show "ensures (meter 0 N) (bind_io (run_turn env) (\<lambda>over. return_io (\<not> over))) (\<lambda>_. meter 0 N) (meter 0 N)"
    by (rule ensures_bind, rule turn [OF assms], rule ensures_pre, rule ensures_return_io) (auto elim: spent_less)
  show "ensures (meter 0 N) (next_round env) (\<lambda>_. meter 0 N) (meter 0 N)"
    by (rule spent_quiet, intro io_rules)
qed

lemma run_metered:
  assumes "now env = clock" and "\<And>b l E. keeps (books b l E) start" and "runBudget s = Some b" and "left b = Some N" and "log s = []"
    and "then_loop env start s = Some (r, s')"
  shows "meter 0 N s'"
proof (rule run_keeps [OF spent_keep [OF assms(2)] _ _ round [OF assms(1)] _ assms(6)])
  show "keeps (meter 0 N) (poll_steering env)" by (rule spent_keep, intro io_rules)
  show "meter 0 N s \<Longrightarrow> meter 0 N (s\<lparr>hasMoreToolCalls := True\<rparr>)" for s :: "'w run" by (simp add: spent_def)
  show "meter 0 N s" using assms(3-5) by (simp add: spent_def count_asked_def)
qed

end

section \<open>The gates of the code\<close>

text \<open>What the \<open>i\<close>-th controller of a budget leaves, when it sets a limit.\<close>

definition requests_left_at :: "nat \<Rightarrow> budget \<Rightarrow> nat option" where
  "requests_left_at i b =
     (if i < length (leaves b)
      then map_option (\<lambda>m. nat (m - providerRequests (usage (leaves b ! i)))) (maxProviderRequests (policy (leaves b ! i)))
      else None)"

definition calls_left_at :: "nat \<Rightarrow> budget \<Rightarrow> nat option" where
  "calls_left_at i b =
     (if i < length (leaves b)
      then map_option (\<lambda>m. nat (m - toolCalls (usage (leaves b ! i)))) (maxToolCalls (policy (leaves b ! i)))
      else None)"

lemma leaf_step_at:
  assumes "tree_step (int r) (int t) b b'" and "i < length (leaves b)"
  shows "i < length (leaves b')" and "leaf_step (int r) (int t) (leaves b ! i) (leaves b' ! i)"
  using assms by (auto simp: tree_step_def list_all2_conv_all_nth)

lemma tree_step_requests_at:
  assumes "tree_step (int r) (int t) b b'" and "requests_left_at i b = Some n"
  shows "\<exists>n'. requests_left_at i b' = Some n' \<and> n' + r \<le> n"
proof -
  have i: "i < length (leaves b)" using assms(2) by (auto simp: requests_left_at_def split: if_splits)
  from leaf_step_at [OF assms(1) i] assms(2) i show ?thesis
    by (auto simp: requests_left_at_def leaf_step_def)
qed

lemma tree_step_calls_at:
  assumes "tree_step (int r) (int t) b b'" and "calls_left_at i b = Some n"
  shows "\<exists>n'. calls_left_at i b' = Some n' \<and> n' + t \<le> n"
proof -
  have i: "i < length (leaves b)" using assms(2) by (auto simp: calls_left_at_def split: if_splits)
  from leaf_step_at [OF assms(1) i] assms(2) i show ?thesis
    by (auto simp: calls_left_at_def leaf_step_def)
qed

lemma gate_requests_at:
  "tryBeginProviderRequest c b w = ((ok, b'), w') \<Longrightarrow> requests_left_at i b = Some n \<Longrightarrow>
    \<exists>n'. requests_left_at i b' = Some n' \<and> n' + (if ok then 1 else 0) \<le> n"
  "tryAcceptToolCall c b w = ((ok, b'), w') \<Longrightarrow> requests_left_at i b = Some n \<Longrightarrow>
    \<exists>n'. requests_left_at i b' = Some n' \<and> n' + (if ok then 0 else 0) \<le> n"
  using tree_step_requests_at [of "if ok then 1 else 0" 0 b b' i n] tree_step_requests_at [of 0 "if ok then 1 else 0" b b' i n]
    begin_step [of c b w ok b' w'] accept_step [of c b w ok b' w'] by (cases ok; simp)+

lemma gate_calls_at:
  "tryBeginProviderRequest c b w = ((ok, b'), w') \<Longrightarrow> calls_left_at i b = Some n \<Longrightarrow>
    \<exists>n'. calls_left_at i b' = Some n' \<and> n' + (if ok then 0 else 0) \<le> n"
  "tryAcceptToolCall c b w = ((ok, b'), w') \<Longrightarrow> calls_left_at i b = Some n \<Longrightarrow>
    \<exists>n'. calls_left_at i b' = Some n' \<and> n' + (if ok then 1 else 0) \<le> n"
  using tree_step_calls_at [of "if ok then 1 else 0" 0 b b' i n] tree_step_calls_at [of 0 "if ok then 1 else 0" b b' i n]
    begin_step [of c b w ok b' w'] accept_step [of c b w ok b' w'] by (cases ok; simp)+

interpretation requests: metered "requests_left_at i" True False 1 0 clock for i clock
  by unfold_locales (erule (1) gate_requests_at, erule (1) gate_requests_at, simp_all)

interpretation calls: metered "calls_left_at i" False True 0 1 clock for i clock
  by unfold_locales (erule (1) gate_calls_at, erule (1) gate_calls_at, simp_all)

lemma begin_requests:
  assumes "tryBeginProviderRequest c b w = ((ok, b'), w')" and "requests_left b = Some n"
  shows "\<exists>n'. requests_left b' = Some n' \<and> n' + (if ok then 1 else 0) \<le> n"
  using tree_step_requests [OF begin_step [OF assms(1)] _ _ assms(2)] by (cases ok) auto

lemma accept_requests:
  assumes "tryAcceptToolCall c b w = ((ok, b'), w')" and "requests_left b = Some n"
  shows "\<exists>n'. requests_left b' = Some n' \<and> n' + (if ok then 0 else 0) \<le> n"
  using tree_step_requests [OF accept_step [OF assms(1)] _ _ assms(2)] by (cases ok) auto

interpretation turns: metered requests_left False False 1 0 clock for clock
  by unfold_locales (erule (1) begin_requests, erule (1) accept_requests, simp_all)

definition count_requests :: "asked list \<Rightarrow> nat" where
  "count_requests l = count_asked (kind True False) l"

definition count_executions :: "asked list \<Rightarrow> nat" where
  "count_executions l = count_asked (kind False True) l"

lemma started_run: "runBudget (initial_run w c b md level) = b" "log (initial_run w c b md level) = []"
  by (simp_all add: initial_run_def)

lemma run_meter:
  assumes "runAgentLoop env prompts (initial_run w c (Some b) md level) = Some (r, s) \<or>
    runAgentLoopContinue env (initial_run w c (Some b) md level) = Some (r, s)"
  shows "requests_left_at i b = Some n \<Longrightarrow>
      \<exists>b' n'. runBudget s = Some b' \<and> requests_left_at i b' = Some n' \<and> count_requests (log s) + n' \<le> n"
    and "calls_left_at i b = Some n \<Longrightarrow>
      \<exists>b' n'. runBudget s = Some b' \<and> calls_left_at i b' = Some n' \<and> count_executions (log s) + n' \<le> n"
proof -
  note run = assms [unfolded runAgentLoop_def runAgentLoopContinue_def]
  {
    assume n: "requests_left_at i b = Some n"
    from run have "spent (requests_left_at i) (kind True False) 0 n s"
      by (elim disjE) (erule requests.run_metered [OF refl keeps_books_start_prompts started_run(1) n started_run(2)]
        requests.run_metered [OF refl keeps_books_start_continue started_run(1) n started_run(2)])+
    then show "\<exists>b' n'. runBudget s = Some b' \<and> requests_left_at i b' = Some n' \<and> count_requests (log s) + n' \<le> n"
      by (auto simp: spent_def count_requests_def)
  next
    assume n: "calls_left_at i b = Some n"
    from run have "spent (calls_left_at i) (kind False True) 0 n s"
      by (elim disjE) (erule calls.run_metered [OF refl keeps_books_start_prompts started_run(1) n started_run(2)]
        calls.run_metered [OF refl keeps_books_start_continue started_run(1) n started_run(2)])+
    then show "\<exists>b' n'. runBudget s = Some b' \<and> calls_left_at i b' = Some n' \<and> count_executions (log s) + n' \<le> n"
      by (auto simp: spent_def count_executions_def)
  }
qed

text \<open>
  C6: A run with a budget, started with prompts or continued, alone or shared with other runs, whatever the model, the tools,
  the hooks and the clock do: for every controller of the budget that limits requests, the requests made of the model are at
  most what it had left when the run began, and together with what is left at the end they are no more, even when the run
  fails; and the same for the calls of tools that are executed.
\<close>
theorem run_within_budget:
  assumes "runAgentLoop env prompts (initial_run w c (Some b) md level) = Some (r, s) \<or>
    runAgentLoopContinue env (initial_run w c (Some b) md level) = Some (r, s)"
  shows "(\<forall>i n. requests_left_at i b = Some n \<longrightarrow>
      (\<exists>b' n'. runBudget s = Some b' \<and> requests_left_at i b' = Some n' \<and> count_requests (log s) + n' \<le> n)) \<and>
    (\<forall>i n. calls_left_at i b = Some n \<longrightarrow>
      (\<exists>b' n'. runBudget s = Some b' \<and> calls_left_at i b' = Some n' \<and> count_executions (log s) + n' \<le> n))"
  using run_meter [OF assms] by blast

theorem run_within_budget_witness:
  "\<exists>b' n'. runBudget example_end = Some b' \<and> requests_left_at 0 b' = Some n' \<and> count_requests (log example_end) + n' \<le> 5"
proof -
  have "requests_left_at 0 example_budget = Some 5" by (simp add: example_budget_def example_policy_def requests_left_at_def)
  then show ?thesis using run_within_budget [OF disjI1, OF example_runs [unfolded example_run_def]] by blast
qed

section \<open>A budget ends a run\<close>

lemma kind_none: "\<not> kind False False a"
  by (cases a) simp_all

text \<open>What is left of the budget, and whether the next iteration is a turn.\<close>

definition fuel :: "'w run \<Rightarrow> nat" where
  "fuel s = (case runBudget s of None \<Rightarrow> 0 | Some b \<Rightarrow> (case requests_left b of None \<Rightarrow> 0 | Some n \<Rightarrow> 2 * n)) +
     (if hasMoreToolCalls s \<or> pendingMessages s \<noteq> [] then 0 else 1)"

definition limited :: "'w run \<Rightarrow> bool" where
  "limited s \<longleftrightarrow> (\<exists>b n. runBudget s = Some b \<and> requests_left b = Some n)"

lemma spent_limited: "spent requests_left (kind False False) d N s \<Longrightarrow> limited s"
  by (auto simp: spent_def limited_def)

lemma next_round_going:
  assumes "next_round env s = (Inr True, s')"
  shows "hasMoreToolCalls s' \<and> runBudget s' = runBudget s"
proof -
  have going: "ensures (\<lambda>s. True) (next_round env) (\<lambda>again s. again \<longrightarrow> hasMoreToolCalls s) (\<lambda>s. True)"
    unfolding next_round_def
    apply (rule ensures_bind [where R = "\<lambda>_ _. True"], simp add: ensures_def split: prod.split sum.split)
    apply (rule ensures_if)
     apply (rule ensures_bind [where R = "\<lambda>_. hasMoreToolCalls"], simp add: ensures_def update_io_def)
     apply (rule ensures_pre, rule ensures_return_io, simp)
    apply (rule ensures_bind [where R = "\<lambda>_ _. True"], simp add: ensures_def read_io_def)
    apply (rule ensures_if)
     apply (rule ensures_bind [where R = "\<lambda>_. hasMoreToolCalls"], simp add: ensures_def update_io_def)
     apply (rule ensures_pre, rule ensures_return_io, simp)
    apply (rule ensures_bind [where R = "\<lambda>_ _. True"], simp add: ensures_def split: prod.split sum.split)
    apply (rule ensures_pre, rule ensures_return_io, simp)
    done
  have "books (runBudget s) (log s) {} s'"
    using keepsD [OF keeps_books_next_round [where E = "{}"] _ assms] by (simp add: books_def)
  then show ?thesis using ensures_return [OF going TrueI assms] by (simp add: books_def)
qed

lemma iteration_uses_fuel:
  assumes "limited s" and "iteration env s = (Inr True, s')"
  shows "limited s' \<and> fuel s' < fuel s"
proof -
  obtain b n where b: "runBudget s = Some b" "requests_left b = Some n" using assms(1) by (auto simp: limited_def)
  show ?thesis
  proof (cases "hasMoreToolCalls s \<or> pendingMessages s \<noteq> []")
    case True
    have start: "spent requests_left (kind False False) 0 n s" using b by (simp add: spent_def count_asked_def kind_none)
    from True assms(2) have turn: "run_turn env s = (Inr False, s')"
      by (auto simp: iteration_def bind_io_def return_io_def split: prod.splits sum.splits)
    have "spent requests_left (kind False False) 1 n s'"
      using ensures_return [OF turns.turn [OF refl] start turn] by simp
    then obtain b' n' where "runBudget s' = Some b'" "requests_left b' = Some n'" "n' + 1 \<le> n" by (auto simp: spent_def)
    then show ?thesis using b True by (auto simp: limited_def fuel_def)
  next
    case False
    then have "next_round env s = (Inr True, s')" using assms(2) by (simp add: iteration_def)
    from next_round_going [OF this] show ?thesis using b False by (auto simp: limited_def fuel_def)
  qed
qed

lemma iterate_ends: "limited s \<Longrightarrow> iterate env s \<noteq> None"
proof (induction "fuel s" arbitrary: s rule: less_induct)
  case less
  obtain r s' where i: "iteration env s = (r, s')" by force
  show ?case
  proof (cases r)
    case (Inl e)
    then show ?thesis using i by (subst iterate.simps) simp
  next
    case (Inr again)
    then show ?thesis using i less.hyps [of s'] less.prems iteration_uses_fuel [of s env s'] by (subst iterate.simps) auto
  qed
qed

lemma then_loop_ends:
  assumes "requests_left b = Some n" and "\<And>b l E. keeps (books b l E) start"
  shows "\<exists>r s. then_loop env start (initial_run w c (Some b) md level) = Some (r, s)"
proof -
  let ?s = "initial_run w c (Some b) md level"
  obtain r1 s1 where s1: "start ?s = (r1, s1)" by force
  have "books (Some b) [] {} s1"
    by (rule keepsD [OF assms(2) _ s1]) (simp add: books_def started_run)
  moreover obtain r2 s2 where s2: "poll_steering env s1 = (r2, s2)" by force
  ultimately have "books (Some b) [] {} s2" using keepsD [OF keeps_books_parts(6) _ s2] by simp
  then have "limited (s2\<lparr>hasMoreToolCalls := True\<rparr>)" using assms(1) by (simp add: limited_def books_def)
  then obtain r3 s3 where "iterate env (s2\<lparr>hasMoreToolCalls := True\<rparr>) = Some (r3, s3)" using iterate_ends by fastforce
  then show ?thesis using s1 s2
    by (cases r1; cases r2; cases r3) (simp_all add: then_loop_def runLoop_def)
qed

text \<open>
  C14: A run whose budget limits the requests of at least one of its controllers comes to an end, whether it was started with
  prompts or continued, and whatever the model, the tools and the hooks do: the loops of the agent cannot go on without
  asking the model.
\<close>
theorem limited_run_ends:
  assumes "requests_left b = Some n"
  shows "(\<exists>r s. runAgentLoop env prompts (initial_run w c (Some b) md level) = Some (r, s)) \<and>
    (\<exists>r s. runAgentLoopContinue env (initial_run w c (Some b) md level) = Some (r, s))"
  unfolding runAgentLoop_def runAgentLoopContinue_def
  by (rule conjI; rule then_loop_ends [OF assms]; rule keeps_books_start_prompts keeps_books_start_continue)

theorem limited_run_ends_witness:
  "\<exists>r s. runAgentLoop example_env [example_prompt] example_run = Some (r, s)"
proof -
  have "requests_left example_budget = Some 5" by (simp add: example_budget_def example_policy_def requests_left_def left_of_def)
  from limited_run_ends [OF this] show ?thesis unfolding example_run_def by (rule conjunct1)
qed

end
