(* ===== verification/Agent_Loop_Worlds.thy ===== *)
theory Agent_Loop_Worlds imports Agent_Loop_Books begin

text \<open>
  Invariants of the world a run works in. The loop changes the world only through its callbacks, its tools, the model and
  the clock: what each of them keeps, and the listener keeps with one more event, holds throughout the run. The locale
  states this contract between a run and its environment once for all environments.
\<close>

locale loop_invariant =
  fixes env :: "'w env" and J :: "agent_event list \<Rightarrow> 'w \<Rightarrow> bool"
  assumes listener: "J evs w \<Longrightarrow> J (evs @ [ev]) (snd (listener env ev w))"
    and now: "J evs w \<Longrightarrow> J evs (snd (now env w))"
    and getSteeringMessages: "J evs w \<Longrightarrow> J evs (snd (getSteeringMessages env w))"
    and getFollowUpMessages: "J evs w \<Longrightarrow> J evs (snd (getFollowUpMessages env w))"
    and prepareNextTurn: "J evs w \<Longrightarrow> J evs (snd (prepareNextTurn env t w))"
    and prepareRequest: "J evs w \<Longrightarrow> J evs (snd (prepareRequest env c md level w))"
    and finishTurn: "J evs w \<Longrightarrow> J evs (snd (finishTurn env t w))"
    and shouldStopAfterTurn: "J evs w \<Longrightarrow> J evs (snd (shouldStopAfterTurn env t w))"
    and beforeToolCall: "J evs w \<Longrightarrow> J evs (snd (beforeToolCall env a tc args c w))"
    and afterToolCall: "J evs w \<Longrightarrow> J evs (snd (afterToolCall env a tc args out err c w))"
    and transformContext: "J evs w \<Longrightarrow> J evs (snd (transformContext env ms w))"
    and convertToLlm: "J evs w \<Longrightarrow> J evs (snd (convertToLlm env ms w))"
    and getApiKey: "J evs w \<Longrightarrow> J evs (snd (getApiKey env provider w))"
    and stream: "J evs w \<Longrightarrow> J evs (snd (stream env md ms thinking key w))"
    and prepareArguments: "J evs w \<Longrightarrow> J evs (snd (prepareArguments env tool raw w))"
    and execute_tool: "J evs w \<Longrightarrow> J evs (snd (execute_tool env tool i args w))"
begin

definition inv :: "'w run \<Rightarrow> bool" where
  "inv s \<longleftrightarrow> J (emitted s) (world s)"

lemma keeps_inv_call: "(\<And>evs w. J evs w \<Longrightarrow> J evs (snd (f w))) \<Longrightarrow> keeps inv (call_io f)"
  by (simp add: keeps_def inv_def call_io_def split_beta)

lemma keeps_inv_safe: "(\<And>evs w. J evs w \<Longrightarrow> J evs (snd (f w))) \<Longrightarrow> keeps inv (safe_io f)"
  by (simp add: keeps_def inv_def safe_io_def split_beta)

lemma keeps_inv_calls [io_rules]:
  "keeps inv (safe_io (Agent_Loop.now env))"
  "keeps inv (call_io (Agent_Loop.getSteeringMessages env))"
  "keeps inv (call_io (Agent_Loop.getFollowUpMessages env))"
  "keeps inv (call_io (Agent_Loop.prepareNextTurn env t))"
  "keeps inv (call_io (Agent_Loop.prepareRequest env c md level))"
  "keeps inv (call_io (Agent_Loop.finishTurn env t))"
  "keeps inv (call_io (Agent_Loop.shouldStopAfterTurn env t))"
  "keeps inv (call_io (Agent_Loop.beforeToolCall env a tc args c))"
  "keeps inv (call_io (Agent_Loop.afterToolCall env a tc args out err c))"
  "keeps inv (call_io (Agent_Loop.transformContext env ms))"
  "keeps inv (call_io (Agent_Loop.convertToLlm env ms))"
  "keeps inv (call_io (Agent_Loop.getApiKey env provider))"
  "keeps inv (call_io (Agent_Loop.stream env md ms thinking key))"
  "keeps inv (call_io (Agent_Loop.prepareArguments env tool raw))"
  "keeps inv (safe_io (Agent_Loop.execute_tool env tool i args))"
  by (rule keeps_inv_call keeps_inv_safe, erule now getSteeringMessages getFollowUpMessages prepareNextTurn prepareRequest
      finishTurn shouldStopAfterTurn beforeToolCall afterToolCall transformContext convertToLlm getApiKey stream
      prepareArguments execute_tool)+

lemma keeps_inv_emit [io_rules]: "keeps inv (emit env ev)"
  using listener by (simp add: keeps_def emit_def bind_io_def update_io_def call_io_def inv_def split_beta)

lemma out_of_time_world: "J evs w \<Longrightarrow> J evs (snd (out_of_time (Agent_Loop.now env) ct w))"
  using now by (simp add: out_of_time_def split_beta split: option.split)

lemma stock_exhausted_world: "J evs w \<Longrightarrow> J evs (snd (stock_exhausted (Agent_Loop.now env) ct w))"
  using out_of_time_world by (simp add: stock_exhausted_def split_beta)

lemma exhaustedLimit_world: "J evs w \<Longrightarrow> J evs (snd (exhaustedLimit (Agent_Loop.now env) b w))"
proof (induction b arbitrary: w)
  case (Stock ct)
  then show ?case by (simp add: stock_exhausted_world)
next
  case (Composite p q)
  obtain l w1 where p: "exhaustedLimit (Agent_Loop.now env) p w = (l, w1)" by force
  then have "J evs w1" using Composite.IH(1) [OF Composite.prems] by simp
  then show ?case using p Composite.IH(2) by (cases l) simp_all
qed

lemma either_blocks_world: "J evs w \<Longrightarrow> J evs (snd (either_blocks blocks (Agent_Loop.now env) p q w))"
  using exhaustedLimit_world by (simp add: either_blocks_def split_beta)

lemma begin_world: "J evs w \<Longrightarrow> J evs (snd (tryBeginProviderRequest (Agent_Loop.now env) b w))"
proof (induction b arbitrary: w)
  case (Stock ct)
  then show ?case by (simp add: stock_exhausted_world split_beta)
next
  case (Composite p q)
  then show ?case using either_blocks_world by (simp add: split_beta)
qed

lemma accept_world: "J evs w \<Longrightarrow> J evs (snd (tryAcceptToolCall (Agent_Loop.now env) b w))"
proof (induction b arbitrary: w)
  case (Stock ct)
  then show ?case using out_of_time_world by (simp add: toolCallAcceptable_def split_beta)
next
  case (Composite p q)
  then show ?case using either_blocks_world by (simp add: split_beta)
qed

lemma keeps_inv_gates [io_rules]:
  "keeps inv (gate_io tryBeginProviderRequest env)"
  "keeps inv (gate_io tryAcceptToolCall env)"
  using begin_world accept_world by (simp_all add: keeps_def gate_io_def inv_def split_beta split: option.split)

lemma keeps_inv_exhausted [io_rules]: "keeps inv (exhausted_io env)"
  using exhaustedLimit_world by (simp add: keeps_def exhausted_io_def inv_def split_beta split: option.split)

lemma keeps_inv_aborted [io_rules]: "keeps inv (is_aborted env)"
  by (simp add: is_aborted_def keeps_read)

lemma push_all_world [simp]:
  "world (fold (\<lambda>r s. push_new (g r) (push_context (g r) s)) xs s) = world s"
  by (induction xs arbitrary: s) (simp_all add: push_new_def push_context_def)

lemma keeps_inv_fields [io_rules]:
  "keeps inv (update_io (push_context m))"
  "keeps inv (update_io (push_new m))"
  "keeps inv (update_io (\<lambda>s. push_new m (push_context m s)))"
  "keeps inv (update_io (replace_last_message m))"
  "keeps inv (update_io (\<lambda>s. s\<lparr>log := lo s\<rparr>))"
  "keeps inv (update_io (\<lambda>s. s\<lparr>pendingMessages := pm s\<rparr>))"
  "keeps inv (update_io (\<lambda>s. s\<lparr>hasMoreToolCalls := h s\<rparr>))"
  "keeps inv (update_io (\<lambda>s. s\<lparr>explicitContinuation := h s\<rparr>))"
  "keeps inv (update_io (\<lambda>s. s\<lparr>repeatedToolErrors := k s\<rparr>))"
  "keeps inv (update_io (\<lambda>s. s\<lparr>lastCompletedTurn := lt s\<rparr>))"
  "keeps inv (update_io (\<lambda>s. if h s then s\<lparr>repeatedToolErrors := k s\<rparr> else s))"
  "keeps inv (update_io (\<lambda>s. if h s then s\<lparr>explicitContinuation := h' s\<rparr> else s))"
  "keeps inv (update_io (\<lambda>s. s\<lparr>explicitContinuation := False, pendingMessages := ps, hasMoreToolCalls := True\<rparr>))"
  "keeps inv (update_io (\<lambda>s. s\<lparr>explicitContinuation := False, hasMoreToolCalls := True\<rparr>))"
  "keeps inv (update_io (apply_update u))"
  by (rule keeps_update; simp add: inv_def push_context_def push_new_def replace_last_message_def apply_update_def split: option.split)+

lemma keeps_inv_push_all [io_rules]:
  "keeps inv (update_io (\<lambda>s. fold (\<lambda>r s. push_new (g r) (push_context (g r) s)) xs s))"
  by (rule keeps_update) (simp add: inv_def)

lemma keeps_inv_parts [io_rules]:
  "keeps inv (emit_message env m)"
  "keeps inv (deliver env m)"
  "keeps inv (emit_result env f)"
  "keeps inv (emit_call_start env tc)"
  "keeps inv (emitToolExecutionEnd env f)"
  "keeps inv (poll_steering env)"
  "keeps inv (finish_run env stop)"
  "keeps inv (finalizeExecutedToolCall env a p x)"
  by (simp_all only: emit_message_def deliver_def emit_result_def emit_call_start_def emitToolExecutionEnd_def
      poll_steering_def finish_run_def finalizeExecutedToolCall_def Let_def; intro io_rules)+

lemma keeps_inv_turns [io_rules]:
  "keeps inv (finish_turn env a rs again)"
  "keeps inv (deliver_messages env ms)"
  "keeps inv (over_budget env)"
  "keeps inv (stop_repeating env)"
  by (simp_all only: finish_turn_def deliver_messages_def over_budget_def stop_repeating_def; intro io_rules)+

lemma keeps_inv_failed [io_rules]: "keeps inv (failed_turn env a)"
  unfolding failed_turn_def by (intro io_rules)

lemma keeps_inv_prepare_request [io_rules]: "keeps inv (prepare_request env)"
  unfolding prepare_request_def by (auto split: prod.splits intro!: io_rules)

lemma keeps_inv_prepare_turn [io_rules]: "keeps inv (prepare_turn env)"
  unfolding prepare_turn_def by (auto split: option.splits intro!: io_rules)

lemma keeps_inv_conclude [io_rules]: "keeps inv (conclude_turn env a rs)"
  unfolding conclude_turn_def by (auto split: option.splits prod.splits intro!: io_rules)

lemma keeps_inv_truncated [io_rules]: "keeps inv (failToolCallsFromTruncatedMessage env cs)"
  by (induction cs) (simp_all only: failToolCallsFromTruncatedMessage.simps Let_def; intro io_rules; assumption?)+

lemma keeps_inv_prepare [io_rules]: "keeps inv (prepareToolCall env a tc)"
proof -
  have "keeps inv (check_call env a tc t)" for t
    unfolding check_call_def by (auto split: sum.splits option.splits prod.splits intro!: io_rules)
  then show ?thesis unfolding prepareToolCall_def by (auto split: option.splits intro!: io_rules)
qed

lemma keeps_inv_finish [io_rules]: "keeps inv (finish_response env final added)"
  unfolding finish_response_def by (intro io_rules)

lemma keeps_inv_stream_loop [io_rules]: "keeps inv (stream_loop env final evs added)"
proof (induction evs arbitrary: added)
  case Nil
  show ?case unfolding stream_loop.simps by (intro io_rules)
next
  case (Cons ev evs)
  then show ?case by (cases ev) (auto simp only: stream_loop.simps intro!: io_rules)
qed

lemma keeps_inv_updates [io_rules]: "keeps inv (emit_updates env tc us)"
proof (induction us)
  case Nil
  show ?case by (simp add: keeps_return)
next
  case (Cons u us)
  let ?m = "emit env (ToolExecutionUpdate (call_id tc) (call_name tc) (call_arguments tc) u)"
  show ?case
    unfolding keeps_def
  proof (intro allI impI)
    fix s :: "'w run"
    assume s: "inv s"
    obtain r s1 where m: "?m s = (r, s1)" by force
    have "inv s1" by (rule keepsD [OF keeps_inv_emit s m])
    then have "inv (snd (emit_updates env tc us s1))" using Cons.IH by (simp add: keeps_def)
    then show "inv (snd (emit_updates env tc (u # us) s))" using m by (cases r) simp_all
  qed
qed

lemma keeps_inv_run_prepared [io_rules]: "keeps inv (run_prepared env a p)"
  unfolding run_prepared_def executePreparedToolCall_def by (auto split: prod.splits intro!: io_rules)

lemma keeps_inv_settle [io_rules]: "keeps inv (settle_sequential env a tc)"
  unfolding settle_sequential_def by (auto split: preparation.splits intro!: io_rules)

lemma keeps_inv_sequential [io_rules]: "keeps inv (executeToolCallsSequential env a cs)"
  by (induction cs) (simp_all only: executeToolCallsSequential.simps; intro io_rules; assumption?)+

lemma keeps_inv_entry [io_rules]: "keeps inv (prepare_entry env a tc)"
  unfolding prepare_entry_def Let_def by (auto split: preparation.splits intro!: io_rules)

lemma keeps_inv_entries [io_rules]: "keeps inv (prepare_entries env a cs)"
  by (induction cs) (simp_all only: prepare_entries.simps; intro io_rules; assumption?)+

lemma keeps_inv_settle_entry [io_rules]: "keeps inv (settle_entry env a e)"
  unfolding settle_entry_def settle_deferred_def by (auto split: entry.splits intro!: io_rules)

lemma keeps_inv_settle_entries [io_rules]: "keeps inv (settle_entries env a es order settled)"
  by (induction order arbitrary: settled) (simp_all only: settle_entries.simps; intro io_rules; (rule meta_spec, assumption)?)+

lemma keeps_inv_results [io_rules]: "keeps inv (emit_results env fs)"
  by (induction fs) (simp_all only: emit_results.simps; intro io_rules; assumption?)+

lemma keeps_inv_run_tools [io_rules]: "keeps inv (run_tools env a)"
  unfolding run_tools_def executeToolCalls_def executeToolCallsParallel_def Let_def by (auto split: prod.splits intro!: io_rules)

lemma keeps_inv_answer [io_rules]: "keeps inv (answer_turn env)"
  unfolding answer_turn_def streamAssistantResponse_def by (auto split: prod.splits intro!: io_rules)

lemma keeps_inv_turn [io_rules]: "keeps inv (run_turn env)"
  unfolding run_turn_def by (intro io_rules)

lemma keeps_inv_next_round [io_rules]: "keeps inv (next_round env)"
  unfolding next_round_def by (intro io_rules)

lemma keeps_inv_start [io_rules]: "keeps inv (start_prompts env prompts)" "keeps inv (start_continue env)"
proof -
  have "keeps inv (update_io (\<lambda>s. fold (\<lambda>m s. push_new m (push_context m s)) xs s))" for xs
    by (rule keeps_inv_push_all [where g = "\<lambda>m. m"])
  then show "keeps inv (start_prompts env prompts)" unfolding start_prompts_def by (auto intro!: io_rules)
  show "keeps inv (start_continue env)" unfolding start_continue_def by (intro io_rules)
qed

lemma iteration_inv: "ensures inv (iteration env) (\<lambda>_. inv) inv"
  by (rule iteration_rule; rule keeps_ensures; intro io_rules)

lemma run_inv:
  assumes "J [] w" and "runAgentLoop env prompts (initial_run w c b md level) = Some (r, s) \<or>
    runAgentLoopContinue env (initial_run w c b md level) = Some (r, s)"
  shows "J (emitted s) (world s)"
proof -
  have init: "inv (initial_run w c b md level)" using assms(1) by (simp add: inv_def initial_run_def)
  have more: "inv s \<Longrightarrow> inv (s\<lparr>hasMoreToolCalls := True\<rparr>)" for s by (simp add: inv_def)
  have "inv s"
    using assms(2) run_keeps [OF keeps_inv_start(1) keeps_inv_parts(6) more iteration_inv init]
      run_keeps [OF keeps_inv_start(2) keeps_inv_parts(6) more iteration_inv init]
    unfolding runAgentLoop_def runAgentLoopContinue_def by blast
  then show ?thesis by (simp add: inv_def)
qed

end

end
