(* ===== verification/Agent_Loop_Calls.thy ===== *)
theory Agent_Loop_Calls imports Agent_Loop_Worlds Agent_Loop_Example begin

text \<open>
  Which tools a run executes: the calls of its answers, after their arguments were validated and the hook that may block
  them let them pass, and never those of an answer that failed, was stopped, or was cut off.
\<close>

definition blocks_call :: "before_result option \<Rightarrow> bool" where
  "blocks_call before \<longleftrightarrow> (case before of None \<Rightarrow> False | Some b \<Rightarrow> before_block b)"

text \<open>
  The call passed, in some world that the invariant of the run admits: the tool of the context, valid arguments, a hook
  that does not block and leaves the arguments \<open>args\<close>, a run that is not aborted.
\<close>

definition passed :: "'w env \<Rightarrow> (agent_event list \<Rightarrow> 'w \<Rightarrow> bool) \<Rightarrow> assistant_message \<Rightarrow> tool_call \<Rightarrow> agent_tool \<Rightarrow> json \<Rightarrow> bool" where
  "passed env J a c t args \<longleftrightarrow>
     (\<exists>context raw valid evs w before w'. find_tool context (call_name c) = Some t \<and>
        validateToolArguments env t (c\<lparr>call_arguments := raw\<rparr>) = Inr valid \<and> J evs w \<and>
        beforeToolCall env a c valid context w = (Inr (before, args), w') \<and> \<not> blocks_call before \<and> \<not> aborted env w')"

text \<open>The call with this name, identifier and arguments is a call of the answer that passed.\<close>

definition checked :: "'w env \<Rightarrow> (agent_event list \<Rightarrow> 'w \<Rightarrow> bool) \<Rightarrow> string \<Rightarrow> string \<Rightarrow> json \<Rightarrow> assistant_message \<Rightarrow> bool" where
  "checked env J n i args a \<longleftrightarrow> stopReason a \<notin> {ErrorStop, AbortedStop, LengthStop} \<and>
     (\<exists>c \<in> set (block_calls (assistant_content a)). \<exists>t. call_id c = i \<and> call_name c = n \<and> passed env J a c t args)"

lemma ensures_fact: "(F \<Longrightarrow> ensures P m Q E) \<Longrightarrow> ensures (\<lambda>s. P s \<and> F) m Q E"
  by (cases F) (auto simp: ensures_def)

lemma completion_order_range: "i \<in> set (completion_order n xs) \<Longrightarrow> i < n"
  by (auto simp: completion_order_def Let_def)

definition entry_ready :: "(prepared \<Rightarrow> bool) \<Rightarrow> entry \<Rightarrow> bool" where
  "entry_ready ready e \<longleftrightarrow> (\<forall>p. e = Deferred p \<longrightarrow> ready p)"

context loop_invariant begin

text \<open>Every execution so far is accounted for by an answer, and the events \<open>E\<close> were emitted.\<close>

definition accounted :: "agent_event set \<Rightarrow> 'w run \<Rightarrow> bool" where
  "accounted E s \<longleftrightarrow> inv s \<and> E \<subseteq> set (emitted s) \<and>
     (\<forall>n i args. Executed n i args \<in> set (log s) \<longrightarrow> (\<exists>a. MessageEnd (Assistant a) \<in> set (emitted s) \<and> checked env J n i args a))"

lemma accounted_less: "accounted E s \<Longrightarrow> accounted {} s"
  by (simp add: accounted_def)

definition quiet :: "('w, 'a) io \<Rightarrow> bool" where
  "quiet m \<longleftrightarrow> (\<forall>b l E. keeps (books b l E) m) \<and> keeps inv m"

lemma quietI: "(\<And>b l E. keeps (books b l E) m) \<Longrightarrow> keeps inv m \<Longrightarrow> quiet m"
  by (simp add: quiet_def)

lemma accounted_keep: "quiet m \<Longrightarrow> keeps (accounted E) m"
  unfolding keeps_def
proof (intro allI impI)
  fix s :: "'w run"
  assume m: "quiet m" and s: "accounted E s"
  have "keeps (books (runBudget s) (log s) (set (emitted s))) m" using m by (simp add: quiet_def)
  then have "books (runBudget s) (log s) (set (emitted s)) (snd (m s))" by (simp add: keeps_def books_def)
  then have same: "log (snd (m s)) = log s" "set (emitted s) \<subseteq> set (emitted (snd (m s)))" by (simp_all add: books_def)
  have "inv (snd (m s))" using m s by (simp add: quiet_def keeps_def accounted_def)
  then show "accounted E (snd (m s))" using s same unfolding accounted_def by (metis subset_iff)
qed

lemma accounted_quiet: "quiet m \<Longrightarrow> ensures (accounted E) m (\<lambda>_. accounted E) (accounted {})"
  by (rule ensures_weaken [OF keeps_ensures [OF accounted_keep [where E = E]]]) (auto elim: accounted_less)

lemma bind_accounted:
  "quiet m \<Longrightarrow> (\<And>a. ensures (accounted E) (f a) Q (accounted {})) \<Longrightarrow> ensures (accounted E) (bind_io m f) Q (accounted {})"
  by (rule ensures_bind [OF accounted_quiet])

lemma accounted_gate:
  assumes "keeps inv (gate_io g env)"
  shows "ensures (accounted E) (gate_io g env) (\<lambda>_. accounted E) (accounted {})"
proof (rule ensuresI)
  fix s
  assume s: "accounted E s"
  then have "inv (snd (gate_io g env s))" using assms by (simp add: keeps_def accounted_def)
  then show "case gate_io g env s of (Inr _, s') \<Rightarrow> accounted E s' | (Inl _, s') \<Rightarrow> accounted {} s'"
    using s by (auto simp: gate_io_def accounted_def split: option.splits prod.splits)
qed

lemma accounted_emit: "ensures (accounted E) (emit env ev) (\<lambda>_. accounted (insert ev E)) (accounted {})"
proof (rule ensuresI)
  fix s :: "'w run"
  assume s: "accounted E s"
  obtain r s1 where e: "emit env ev s = (r, s1)" by force
  have "inv s1" by (rule keepsD [OF keeps_inv_emit _ e]) (use s in \<open>simp add: accounted_def\<close>)
  moreover have "log s1 = log s" "emitted s1 = emitted s @ [ev]"
    using e by (auto simp: emit_def bind_io_def update_io_def call_io_def split: prod.splits)
  ultimately show "case emit env ev s of (Inr _, s') \<Rightarrow> accounted (insert ev E) s' | (Inl _, s') \<Rightarrow> accounted {} s'"
    using s e unfolding accounted_def by (cases r; simp; blast)
qed

text \<open>One call.\<close>

lemma check_call_passes:
  "ensures (\<lambda>s. find_tool (currentContext s) (call_name c) = Some t \<and> inv s) (check_call env a c t)
     (\<lambda>r _. \<forall>p. r = Prepared p \<longrightarrow> prepared_call p = c \<and> prepared_tool p = t \<and> passed env J a c t (prepared_args p)) (\<lambda>_. True)"
proof (rule ensuresI)
  fix s :: "'w run"
  assume s: "find_tool (currentContext s) (call_name c) = Some t \<and> inv s"
  obtain r w where raw: "Agent_Loop.prepareArguments env t (call_arguments c) (world s) = (r, w)" by force
  have J: "J (emitted s) w" using prepareArguments [of "emitted s" "world s" t "call_arguments c"] s raw by (simp add: inv_def)
  show "case check_call env a c t s of (Inr r, _) \<Rightarrow> \<forall>p. r = Prepared p \<longrightarrow>
      prepared_call p = c \<and> prepared_tool p = t \<and> passed env J a c t (prepared_args p) | (Inl _, _) \<Rightarrow> True"
  proof (cases r)
    case (Inl e)
    then show ?thesis by (simp add: check_call_def bind_io_def call_io_def raw)
  next
    case (Inr x)
    note raw = raw [unfolded Inr]
    show ?thesis
    proof (cases "validateToolArguments env t (c\<lparr>call_arguments := x\<rparr>)")
      case (Inl e)
      then show ?thesis by (simp add: check_call_def bind_io_def call_io_def raw throw_io_def)
    next
      case (Inr valid)
      obtain b w' where before: "Agent_Loop.beforeToolCall env a c valid (currentContext s) w = (b, w')" by force
      have passed: "passed env J a c t args" if "b = Inr (v, args)" "\<not> aborted env w'" "\<not> blocks_call v" for v args
        using s J Inr before that unfolding passed_def by blast
      show ?thesis
      proof (cases b)
        case (Inl e)
        then show ?thesis using \<open>_ = Inr valid\<close> before by (simp add: check_call_def bind_io_def call_io_def raw read_io_def)
      next
        case b: (Inr y)
        obtain v args where y: "y = (v, args)" by force
        show ?thesis
          using Inr before b y passed
          by (auto simp: check_call_def bind_io_def call_io_def raw read_io_def is_aborted_def return_io_def blocks_call_def split: option.splits)
      qed
    qed
  qed
qed

lemma prepareToolCall_passes:
  assumes "prepareToolCall env a c s = (Inr (Prepared p), s')" and "inv s"
  shows "prepared_call p = c \<and> tool_name (declared_tool (prepared_tool p)) = call_name c \<and> passed env J a c (prepared_tool p) (prepared_args p)"
proof (cases "find_tool (currentContext s) (call_name c)")
  case None
  then show ?thesis using assms by (simp add: prepareToolCall_def bind_io_def read_io_def return_io_def)
next
  case (Some t)
  then have "catch_io (check_call env a c t) (\<lambda>e. return_io (Immediate (createErrorToolResult e))) s = (Inr (Prepared p), s')"
    using assms by (simp add: prepareToolCall_def bind_io_def read_io_def)
  then have check: "check_call env a c t s = (Inr (Prepared p), s')"
    by (auto simp: catch_io_def return_io_def split: prod.splits sum.splits)
  have pre: "find_tool (currentContext s) (call_name c) = Some t \<and> inv s" using Some assms(2) by simp
  from ensures_return [OF check_call_passes pre check]
  have p: "prepared_call p = c" "prepared_tool p = t" "passed env J a c t (prepared_args p)" by simp_all
  moreover have "tool_name (declared_tool t) = call_name c"
    using Some unfolding find_tool_def by (simp add: find_Some_iff) blast
  ultimately show ?thesis by simp
qed

text \<open>What is known of a prepared call of the answer \<open>a\<close>.\<close>

definition ready :: "assistant_message \<Rightarrow> prepared \<Rightarrow> bool" where
  "ready a p \<longleftrightarrow> checked env J (tool_name (declared_tool (prepared_tool p))) (call_id (prepared_call p)) (prepared_args p) a"

lemma prepare_ready:
  assumes "c \<in> set (block_calls (assistant_content a))" and "stopReason a \<notin> {ErrorStop, AbortedStop, LengthStop}"
  shows "ensures (accounted E) (prepareToolCall env a c)
    (\<lambda>r s. accounted E s \<and> (\<forall>p. r = Prepared p \<longrightarrow> ready a p)) (accounted {})"
proof -
  have quiet: "ensures (accounted E) (prepareToolCall env a c) (\<lambda>_. accounted E) (accounted {})"
    by (rule accounted_quiet, (rule quietI; intro io_rules))
  have ready: "ready a p" if "prepareToolCall env a c s = (Inr (Prepared p), s')" "inv s" for s s' p
    using prepareToolCall_passes [OF that] assms unfolding ready_def checked_def by (metis)
  show ?thesis
  proof (rule ensuresI)
    fix s :: "'w run"
    assume s: "accounted E s"
    obtain r s' where m: "prepareToolCall env a c s = (r, s')" by force
    show "case prepareToolCall env a c s of (Inr r, s') \<Rightarrow> accounted E s' \<and> (\<forall>p. r = Prepared p \<longrightarrow> ready a p) | (Inl _, s') \<Rightarrow> accounted {} s'"
      using ensures_return [OF quiet s] ensures_throw [OF quiet s] m ready s by (cases r) (auto simp: accounted_def)
  qed
qed

lemma run_prepared_accounted:
  assumes "ready a p" and "MessageEnd (Assistant a) \<in> E"
  shows "ensures (accounted E) (run_prepared env a p) (\<lambda>_. accounted E) (accounted {})"
proof -
  have logged: "ensures (accounted E) (update_io (\<lambda>s. s\<lparr>log := log s @
      [Executed (tool_name (declared_tool (prepared_tool p))) (call_id (prepared_call p)) (prepared_args p)]\<rparr>))
      (\<lambda>_. accounted E) (accounted {})"
    using assms unfolding ensures_def update_io_def accounted_def ready_def inv_def by auto
  have out: "ensures (accounted E) (case x of (updates, outcome) \<Rightarrow>
      bind_io (emit_updates env (prepared_call p) updates) (\<lambda>_. return_io (f outcome))) (\<lambda>_. accounted E) (accounted {})" for x f
    by (cases x; simp only: prod.case) (rule accounted_quiet, (rule quietI; intro io_rules))
  show ?thesis
    unfolding run_prepared_def executePreparedToolCall_def
    apply (rule ensures_bind [where R = "\<lambda>_. accounted E"])
     apply (rule ensures_bind, rule logged, rule bind_accounted, (rule quietI; intro io_rules), rule out)
    apply (rule accounted_quiet, (rule quietI; intro io_rules))
    done
qed

text \<open>A batch.\<close>

lemma settle_sequential_accounted:
  assumes "c \<in> set (block_calls (assistant_content a))" and "stopReason a \<notin> {ErrorStop, AbortedStop, LengthStop}"
    and "MessageEnd (Assistant a) \<in> E"
  shows "ensures (accounted E) (settle_sequential env a c) (\<lambda>_. accounted E) (accounted {})"
proof -
  have go: "ensures (\<lambda>s. accounted E s \<and> (\<forall>p. r = Prepared p \<longrightarrow> ready a p))
      (case r of Immediate r \<Rightarrow> return_io \<lparr>final_call = c, final_result = r, final_isError = True\<rparr>
       | Prepared p \<Rightarrow> bind_io (gate_io tryAcceptToolCall env) (\<lambda>accepted.
           if accepted then run_prepared env a p
           else bind_io (exhausted_io env) (\<lambda>l. return_io (out_of_budget c l)))) (\<lambda>_. accounted E) (accounted {})" for r
  proof (rule ensures_fact, cases r)
    case (Immediate x)
    show "ensures (accounted E) (case r of Immediate r \<Rightarrow> return_io \<lparr>final_call = c, final_result = r, final_isError = True\<rparr>
       | Prepared p \<Rightarrow> bind_io (gate_io tryAcceptToolCall env) (\<lambda>accepted.
           if accepted then run_prepared env a p
           else bind_io (exhausted_io env) (\<lambda>l. return_io (out_of_budget c l)))) (\<lambda>_. accounted E) (accounted {})"
      unfolding Immediate preparation.case by (rule ensures_return_io)
  next
    case (Prepared p)
    assume "\<forall>p. r = Prepared p \<longrightarrow> ready a p"
    then have ready: "ready a p" using Prepared by simp
    show "ensures (accounted E) (case r of Immediate r \<Rightarrow> return_io \<lparr>final_call = c, final_result = r, final_isError = True\<rparr>
       | Prepared p \<Rightarrow> bind_io (gate_io tryAcceptToolCall env) (\<lambda>accepted.
           if accepted then run_prepared env a p
           else bind_io (exhausted_io env) (\<lambda>l. return_io (out_of_budget c l)))) (\<lambda>_. accounted E) (accounted {})"
      unfolding Prepared preparation.case
      by (rule ensures_bind, rule accounted_gate, intro io_rules, rule ensures_if, rule run_prepared_accounted [OF ready assms(3)],
          rule accounted_quiet, (rule quietI; intro io_rules))
  qed
  show ?thesis
    unfolding settle_sequential_def by (rule ensures_bind, rule prepare_ready [OF assms(1,2)], rule go)
qed

lemma sequential_accounted:
  assumes "set cs \<subseteq> set (block_calls (assistant_content a))" and "stopReason a \<notin> {ErrorStop, AbortedStop, LengthStop}"
    and "MessageEnd (Assistant a) \<in> E"
  shows "ensures (accounted E) (executeToolCallsSequential env a cs) (\<lambda>_. accounted E) (accounted {})"
  using assms(1)
proof (induction cs)
  case Nil
  show ?case unfolding executeToolCallsSequential.simps by (rule ensures_return_io)
next
  case (Cons c cs)
  then have c: "c \<in> set (block_calls (assistant_content a))" and cs: "set cs \<subseteq> set (block_calls (assistant_content a))" by auto
  show ?case unfolding executeToolCallsSequential.simps
    apply (rule bind_accounted, (rule quietI; intro io_rules))
    apply (rule ensures_bind, rule settle_sequential_accounted [OF c assms(2,3)])
    apply (rule bind_accounted, (rule quietI; intro io_rules))
    apply (rule bind_accounted, (rule quietI; intro io_rules))
    apply (rule bind_accounted, (rule quietI; intro io_rules))
    apply (rule ensures_if, rule ensures_return_io)
    apply (rule ensures_bind, rule Cons.IH [OF cs], rule ensures_return_io)
    done
qed

lemma prepare_entry_accounted:
  assumes "c \<in> set (block_calls (assistant_content a))" and "stopReason a \<notin> {ErrorStop, AbortedStop, LengthStop}"
  shows "ensures (accounted E) (prepare_entry env a c) (\<lambda>e s. accounted E s \<and> entry_ready (ready a) e) (accounted {})"
proof -
  have settled: "ensures (accounted E) (bind_io (emitToolExecutionEnd env f) (\<lambda>_. return_io (Settled f)))
      (\<lambda>e s. accounted E s \<and> entry_ready (ready a) e) (accounted {})" for f
    by (rule bind_accounted, (rule quietI; intro io_rules), rule ensures_pre, rule ensures_return_io) (simp add: entry_ready_def)
  have go: "ensures (\<lambda>s. accounted E s \<and> (\<forall>p. r = Prepared p \<longrightarrow> ready a p))
      (case r of
         Immediate x \<Rightarrow>
           bind_io (emitToolExecutionEnd env \<lparr>final_call = c, final_result = x, final_isError = True\<rparr>)
             (\<lambda>_. return_io (Settled \<lparr>final_call = c, final_result = x, final_isError = True\<rparr>))
       | Prepared p \<Rightarrow>
           bind_io (gate_io tryAcceptToolCall env) (\<lambda>accepted.
             if accepted then return_io (Deferred p)
             else bind_io (exhausted_io env) (\<lambda>l.
               bind_io (emitToolExecutionEnd env (out_of_budget c l)) (\<lambda>_. return_io (Settled (out_of_budget c l))))))
      (\<lambda>e s. accounted E s \<and> entry_ready (ready a) e) (accounted {})" for r
  proof (cases r)
    case (Immediate x)
    show ?thesis unfolding Immediate preparation.case by (rule ensures_fact, rule settled)
  next
    case (Prepared p)
    have deferred: "ensures (accounted E) (return_io (Deferred p)) (\<lambda>e s. accounted E s \<and> entry_ready (ready a) e) (accounted {})"
      if "ready a p"
      by (rule ensures_pre, rule ensures_return_io) (simp add: entry_ready_def that)
    show ?thesis
      unfolding Prepared preparation.case
      apply (rule ensures_fact)
      apply (rule ensures_bind, rule accounted_gate, intro io_rules, rule ensures_if, rule deferred, simp)
      apply (rule bind_accounted, (rule quietI; intro io_rules), rule settled)
      done
  qed
  show ?thesis
    unfolding prepare_entry_def Let_def by (rule ensures_bind, rule prepare_ready [OF assms], rule go)
qed

lemma prepare_entries_accounted:
  assumes "set cs \<subseteq> set (block_calls (assistant_content a))" and "stopReason a \<notin> {ErrorStop, AbortedStop, LengthStop}"
  shows "ensures (accounted E) (prepare_entries env a cs)
    (\<lambda>es s. accounted E s \<and> (\<forall>e \<in> set es. entry_ready (ready a) e)) (accounted {})"
  using assms(1)
proof (induction cs)
  case Nil
  show ?case unfolding prepare_entries.simps by (rule ensures_pre, rule ensures_return_io) simp
next
  case (Cons c cs)
  then have c: "c \<in> set (block_calls (assistant_content a))" and cs: "set cs \<subseteq> set (block_calls (assistant_content a))" by auto
  have rest: "ensures (\<lambda>s. accounted E s \<and> (\<forall>e \<in> set es. entry_ready (ready a) e)) (return_io (e # es))
      (\<lambda>es s. accounted E s \<and> (\<forall>e \<in> set es. entry_ready (ready a) e)) (accounted {})" if "entry_ready (ready a) e" for e es
    by (rule ensures_pre, rule ensures_return_io) (simp add: that)
  have one: "ensures (accounted E) (return_io [e])
      (\<lambda>es s. accounted E s \<and> (\<forall>e \<in> set es. entry_ready (ready a) e)) (accounted {})" if "entry_ready (ready a) e" for e
    by (rule ensures_pre, rule ensures_return_io) (simp add: that)
  show ?case unfolding prepare_entries.simps
    apply (rule bind_accounted, (rule quietI; intro io_rules))
    apply (rule ensures_bind, rule prepare_entry_accounted [OF c assms(2)])
    apply (rule ensures_fact)
    apply (rule bind_accounted, (rule quietI; intro io_rules))
    apply (rule ensures_if, rule one, assumption)
    apply (rule ensures_bind, rule Cons.IH [OF cs], rule rest, assumption)
    done
qed

lemma settle_entry_accounted:
  assumes "entry_ready (ready a) e" and "MessageEnd (Assistant a) \<in> E"
  shows "ensures (accounted E) (settle_entry env a e) (\<lambda>_. accounted E) (accounted {})"
proof (cases e)
  case (Settled f)
  show ?thesis unfolding settle_entry_def Settled entry.case by (rule ensures_return_io)
next
  case (Deferred p)
  have ready: "ready a p" using assms(1) Deferred by (simp add: entry_ready_def)
  show ?thesis
    unfolding settle_entry_def Deferred entry.case settle_deferred_def
    by (rule bind_accounted, (rule quietI; intro io_rules), rule ensures_bind, rule ensures_if, rule ensures_return_io,
        rule run_prepared_accounted [OF ready assms(2)], rule accounted_quiet, (rule quietI; intro io_rules))
qed

lemma settle_entries_accounted:
  assumes "\<forall>e \<in> set es. entry_ready (ready a) e" and "MessageEnd (Assistant a) \<in> E" and "\<forall>i \<in> set order. i < length es"
  shows "ensures (accounted E) (settle_entries env a es order settled) (\<lambda>_. accounted E) (accounted {})"
  using assms(3)
proof (induction order arbitrary: settled)
  case Nil
  show ?case unfolding settle_entries.simps by (rule ensures_return_io)
next
  case (Cons i order)
  then have e: "entry_ready (ready a) (es ! i)" and order: "\<forall>i \<in> set order. i < length es" using assms(1) by simp_all
  show ?case unfolding settle_entries.simps
    by (rule ensures_bind, rule settle_entry_accounted [OF e assms(2)], rule Cons.IH [OF order])
qed

lemma parallel_accounted:
  assumes "set cs \<subseteq> set (block_calls (assistant_content a))" and "stopReason a \<notin> {ErrorStop, AbortedStop, LengthStop}"
    and "MessageEnd (Assistant a) \<in> E"
  shows "ensures (accounted E) (executeToolCallsParallel env a cs) (\<lambda>_. accounted E) (accounted {})"
proof -
  have order: "ensures (accounted E) (read_io (\<lambda>s. completion_order n (completion env n (world s))))
      (\<lambda>order s. accounted E s \<and> (\<forall>i \<in> set order. i < n)) (accounted {})" for n
    by (rule ensures_pre, rule ensures_read) (auto dest: completion_order_range)
  show ?thesis
    unfolding executeToolCallsParallel_def
    apply (rule ensures_bind, rule prepare_entries_accounted [OF assms(1,2)])
    apply (rule ensures_fact)
    apply (rule ensures_bind, rule order, rule ensures_fact)
    apply (rule ensures_bind, rule settle_entries_accounted [OF _ assms(3)], assumption, assumption)
    apply (rule accounted_quiet, (rule quietI; intro io_rules))
    done
qed

text \<open>The run.\<close>

lemma run_tools_accounted:
  assumes "stopReason a \<noteq> ErrorStop" and "stopReason a \<noteq> AbortedStop" and "MessageEnd (Assistant a) \<in> E"
  shows "ensures (accounted E) (run_tools env a) (\<lambda>_. accounted E) (accounted {})"
proof -
  have batch: "ensures (accounted E) (executeToolCalls env a) (\<lambda>_. accounted E) (accounted {})" if "stopReason a \<noteq> LengthStop"
  proof -
    have stop: "stopReason a \<notin> {ErrorStop, AbortedStop, LengthStop}" using assms that by simp
    show ?thesis
      unfolding executeToolCalls_def Let_def
      by (rule bind_accounted, (rule quietI; intro io_rules), rule ensures_bind, rule ensures_if,
          rule sequential_accounted [OF subset_refl stop assms(3)], rule parallel_accounted [OF subset_refl stop assms(3)],
          rule ensures_return_io)
  qed
  have all: "ensures (accounted E)
      (if block_calls (assistant_content a) = [] then return_io no_results
       else if stopReason a = LengthStop
       then bind_io (failToolCallsFromTruncatedMessage env (block_calls (assistant_content a))) (\<lambda>rs. return_io (rs, False))
       else executeToolCalls env a) (\<lambda>_. accounted E) (accounted {})"
    apply (rule ensures_if, rule ensures_return_io)
    apply (rule ensures_if, rule bind_accounted, (rule quietI; intro io_rules), rule ensures_return_io)
    apply (rule batch, assumption)
    done
  show ?thesis
    unfolding run_tools_def Let_def
    apply (rule ensures_bind, rule all)
    subgoal for x
      apply (cases x; simp only: prod.case)
      apply (rule accounted_quiet, (rule quietI; intro io_rules))
      done
    done
qed

lemma finish_response_accounted:
  "ensures (accounted E) (finish_response env final added) (\<lambda>a. accounted {MessageEnd (Assistant a)}) (accounted {})"
proof -
  have "ensures (accounted E) (bind_io (emit env (MessageEnd (Assistant final))) (\<lambda>_. return_io final))
      (\<lambda>a. accounted {MessageEnd (Assistant a)}) (accounted {})"
    by (rule ensures_bind, rule accounted_emit, rule ensures_pre, rule ensures_return_io) (simp add: accounted_def)
  then show ?thesis
    unfolding finish_response_def by - (rule bind_accounted, (rule quietI; intro io_rules))
qed

lemma stream_loop_accounted:
  "ensures (accounted E) (stream_loop env final evs added) (\<lambda>a. accounted {MessageEnd (Assistant a)}) (accounted {})"
proof (induction evs arbitrary: added E)
  case Nil
  show ?case unfolding stream_loop.simps by (rule finish_response_accounted)
next
  case (Cons ev evs)
  show ?case
  proof (cases ev)
    case (StreamStart m)
    show ?thesis unfolding StreamStart stream_loop.simps
      by (rule bind_accounted, (rule quietI; intro io_rules), rule bind_accounted, (rule quietI; intro io_rules), rule Cons.IH)
  next
    case (StreamUpdate m e)
    show ?thesis unfolding StreamUpdate stream_loop.simps
      by (rule ensures_if, rule bind_accounted, (rule quietI; intro io_rules), rule bind_accounted, (rule quietI; intro io_rules),
          rule Cons.IH, rule Cons.IH)
  next
    case StreamDone
    show ?thesis unfolding StreamDone stream_loop.simps by (rule finish_response_accounted)
  qed
qed

lemma stream_accounted:
  "ensures (accounted {}) (streamAssistantResponse env) (\<lambda>a. accounted {MessageEnd (Assistant a)}) (accounted {})"
proof -
  have logged: "ensures (accounted {}) (update_io (\<lambda>s. s\<lparr>log := log s @ [Requested ms]\<rparr>)) (\<lambda>_. accounted {}) (accounted {})" for ms
    by (simp add: ensures_def update_io_def accounted_def inv_def)
  have loop: "ensures (accounted {}) (case x of (evs, final) \<Rightarrow> stream_loop env final evs False)
      (\<lambda>a. accounted {MessageEnd (Assistant a)}) (accounted {})" for x
    by (cases x; simp only: prod.case) (rule stream_loop_accounted)
  show ?thesis
    unfolding streamAssistantResponse_def
    by (rule bind_accounted, (rule quietI; intro io_rules), rule bind_accounted, (rule quietI; intro io_rules), rule bind_accounted, (rule quietI; intro io_rules),
        rule bind_accounted, (rule quietI; intro io_rules), rule bind_accounted, (rule quietI; intro io_rules), rule bind_accounted, (rule quietI; intro io_rules),
        rule bind_accounted, (rule quietI; intro io_rules), rule ensures_bind, rule logged, rule bind_accounted, (rule quietI; intro io_rules), rule loop)
qed

lemma answer_turn_accounted: "ensures (accounted {}) (answer_turn env) (\<lambda>_. accounted {}) (accounted {})"
proof -
  have tools: "ensures (accounted {MessageEnd (Assistant a)}) (bind_io (run_tools env a) (conclude_turn env a)) (\<lambda>_. accounted {}) (accounted {})"
    if "\<not> (stopReason a = ErrorStop \<or> stopReason a = AbortedStop)" for a
    apply (rule ensures_bind, rule run_tools_accounted)
    using that apply (simp, simp, simp)
    apply (rule ensures_post, rule accounted_quiet, (rule quietI; intro io_rules), erule accounted_less)
    done
  show ?thesis
    unfolding answer_turn_def
    apply (rule bind_accounted, (rule quietI; intro io_rules))
    apply (rule ensures_bind, rule stream_accounted)
    apply (rule bind_accounted, (rule quietI; intro io_rules))
    apply (rule ensures_if, rule ensures_post, rule accounted_quiet, (rule quietI; intro io_rules), erule accounted_less)
    apply (rule tools, assumption)
    done
qed

lemma iteration_accounted: "ensures (accounted {}) (iteration env) (\<lambda>_. accounted {}) (accounted {})"
proof -
  have turn: "ensures (accounted {}) (run_turn env) (\<lambda>_. accounted {}) (accounted {})"
    unfolding run_turn_def
    by (rule bind_accounted, (rule quietI; intro io_rules), rule bind_accounted, (rule quietI; intro io_rules), rule ensures_bind, rule accounted_gate, intro io_rules,
        rule ensures_if, rule answer_turn_accounted, rule accounted_quiet, (rule quietI; intro io_rules))
  show ?thesis
    by (rule iteration_rule, rule ensures_bind, rule turn, rule ensures_return_io, rule accounted_quiet, (rule quietI; intro io_rules))
qed

lemma run_accounted:
  assumes "J [] w" and "runAgentLoop env prompts (initial_run w c b md level) = Some (r, s)"
  shows "accounted {} s"
proof -
  have init: "accounted {} (initial_run w c b md level)" using assms(1) by (simp add: accounted_def inv_def initial_run_def)
  have start: "keeps (accounted {}) (start_prompts env prompts)"
    by (rule accounted_keep [OF quietI [OF keeps_books_start_prompts keeps_inv_start(1)]])
  have poll: "keeps (accounted {}) (poll_steering env)" by (rule accounted_keep, (rule quietI; intro io_rules))
  show ?thesis
    by (rule run_keeps [OF start poll _ iteration_accounted init assms(2) [unfolded runAgentLoop_def]])
      (simp add: accounted_def inv_def)
qed

end

section \<open>The run\<close>

lemma any_world: "loop_invariant env (\<lambda>_ _. True)"
  by unfold_locales simp_all

lemma prepareToolCall_call: "prepareToolCall env a c s = (Inr (Prepared p), s') \<Longrightarrow> prepared_call p = c"
  using loop_invariant.prepareToolCall_passes [OF any_world] loop_invariant.inv_def [OF any_world] by blast

text \<open>
  C2: Every tool that a run executes, under its name, the identifier of the call and the arguments it is given, belongs to a
  call of an answer of that run: the answer was announced before, it did not fail, was not aborted and not cut off by the
  token limit; the arguments are what the hook made of those that the validation of a tool of that name returned, in
  a world that any invariant of the environment admits, and it did not block the call, nor was the run aborted after it.
  This holds for batches in sequence and in parallel, and also when the run itself fails.
\<close>
theorem executions_are_checked:
  assumes "loop_invariant env J" and "J [] w"
    and "runAgentLoop env prompts (initial_run w c b md level) = Some (r, s)" and "Executed n i args \<in> set (log s)"
  shows "\<exists>a. MessageEnd (Assistant a) \<in> set (emitted s) \<and> checked env J n i args a"
  using loop_invariant.run_accounted [OF assms(1-3)] assms(4) by (simp add: loop_invariant.accounted_def [OF assms(1)])

theorem executions_are_checked_witness:
  "\<exists>a. MessageEnd (Assistant a) \<in> set (emitted example_end) \<and> checked example_env (\<lambda>_ _. True) ''echo'' ''1'' (JObj []) a"
  by (rule executions_are_checked [OF any_world TrueI example_runs [unfolded example_run_def] example_executes])

end
