(* ===== verification/Agent_Loop_Results.thy ===== *)
theory Agent_Loop_Results imports Agent_Loop_Calls begin

text \<open>
  The results of a batch of tool calls: one for each call, in the order of the calls, also when the calls run in parallel
  and settle in another order; an abort cuts the batch short. The results are appended to the context and to the new messages.
\<close>

section \<open>The context of a batch\<close>

definition holds_messages :: "agent_context \<Rightarrow> message list \<Rightarrow> 'w run \<Rightarrow> bool" where
  "holds_messages c ns s \<longleftrightarrow> currentContext s = c \<and> newMessages s = ns"

lemma keeps_held_call [io_rules]: "keeps (holds_messages c ns) (call_io f)"
  by (rule keeps_call) (simp add: holds_messages_def)

lemma keeps_held_safe [io_rules]: "keeps (holds_messages c ns) (safe_io f)"
  by (rule keeps_safe) (simp add: holds_messages_def)

lemma keeps_held_gate [io_rules]: "keeps (holds_messages c ns) (gate_io g env)"
  by (simp add: keeps_def gate_io_def holds_messages_def split: option.splits prod.splits)

lemma keeps_held_exhausted [io_rules]: "keeps (holds_messages c ns) (exhausted_io env)"
  by (simp add: keeps_def exhausted_io_def holds_messages_def split: option.splits prod.splits)

lemma keeps_held_aborted [io_rules]: "keeps (holds_messages c ns) (is_aborted env)"
  by (simp add: is_aborted_def keeps_read)

lemma keeps_held_fields [io_rules]:
  "keeps (holds_messages c ns) (update_io (\<lambda>s. s\<lparr>emitted := em s\<rparr>))"
  "keeps (holds_messages c ns) (update_io (\<lambda>s. s\<lparr>log := lo s\<rparr>))"
  "keeps (holds_messages c ns) (update_io (\<lambda>s. s\<lparr>hasMoreToolCalls := h s\<rparr>))"
  by (rule keeps_update; simp add: holds_messages_def)+

lemma keeps_held_emit [io_rules]: "keeps (holds_messages c ns) (emit env ev)"
  unfolding emit_def by (intro io_rules)

lemma keeps_held_parts [io_rules]:
  "keeps (holds_messages c ns) (emit_message env m)"
  "keeps (holds_messages c ns) (emit_result env f)"
  "keeps (holds_messages c ns) (emit_call_start env tc)"
  "keeps (holds_messages c ns) (emitToolExecutionEnd env f)"
  "keeps (holds_messages c ns) (finalizeExecutedToolCall env a p x)"
  by (simp_all only: emit_message_def emit_result_def emit_call_start_def emitToolExecutionEnd_def
      finalizeExecutedToolCall_def Let_def; intro io_rules)+

lemma keeps_held_truncated [io_rules]: "keeps (holds_messages c ns) (failToolCallsFromTruncatedMessage env cs)"
  by (induction cs) (simp_all only: failToolCallsFromTruncatedMessage.simps Let_def; intro io_rules; assumption?)+

lemma keeps_held_prepare [io_rules]: "keeps (holds_messages c ns) (prepareToolCall env a tc)"
proof -
  have "keeps (holds_messages c ns) (check_call env a tc t)" for t
    unfolding check_call_def by (auto split: sum.splits option.splits intro!: io_rules)
  then show ?thesis unfolding prepareToolCall_def by (auto split: option.splits intro!: io_rules)
qed

lemma keeps_held_updates [io_rules]: "keeps (holds_messages c ns) (emit_updates env tc us)"
proof (induction us)
  case Nil
  show ?case by (simp add: keeps_return)
next
  case (Cons u us)
  let ?m = "emit env (ToolExecutionUpdate (call_id tc) (call_name tc) (call_arguments tc) u)"
  show ?case
    unfolding keeps_def
  proof (intro allI impI)
    fix s :: "'a run"
    assume s: "holds_messages c ns s"
    obtain r s1 where m: "?m s = (r, s1)" by force
    have "holds_messages c ns s1" by (rule keepsD [OF keeps_held_emit s m])
    then have "holds_messages c ns (snd (emit_updates env tc us s1))" using Cons.IH by (simp add: keeps_def)
    then show "holds_messages c ns (snd (emit_updates env tc (u # us) s))" using m by (cases r) simp_all
  qed
qed

lemma keeps_held_run [io_rules]: "keeps (holds_messages c ns) (run_prepared env a p)"
  unfolding run_prepared_def executePreparedToolCall_def by (auto split: prod.splits intro!: io_rules)

lemma keeps_held_settle [io_rules]: "keeps (holds_messages c ns) (settle_sequential env a tc)"
  unfolding settle_sequential_def by (auto split: preparation.splits intro!: io_rules)

lemma keeps_held_sequential [io_rules]: "keeps (holds_messages c ns) (executeToolCallsSequential env a cs)"
  by (induction cs) (simp_all only: executeToolCallsSequential.simps; intro io_rules; assumption?)+

lemma keeps_held_entry [io_rules]: "keeps (holds_messages c ns) (prepare_entry env a tc)"
  unfolding prepare_entry_def Let_def by (auto split: preparation.splits intro!: io_rules)

lemma keeps_held_entries [io_rules]: "keeps (holds_messages c ns) (prepare_entries env a cs)"
  by (induction cs) (simp_all only: prepare_entries.simps; intro io_rules; assumption?)+

lemma keeps_held_settle_entry [io_rules]: "keeps (holds_messages c ns) (settle_entry env a e)"
  unfolding settle_entry_def settle_deferred_def by (auto split: entry.splits intro!: io_rules)

lemma keeps_held_settle_entries [io_rules]: "keeps (holds_messages c ns) (settle_entries env a es order settled)"
  by (induction order arbitrary: settled) (simp_all only: settle_entries.simps; intro io_rules; (rule meta_spec, assumption)?)+

lemma keeps_held_results [io_rules]: "keeps (holds_messages c ns) (emit_results env fs)"
  by (induction fs) (simp_all only: emit_results.simps; intro io_rules; assumption?)+

lemma keeps_held_execute [io_rules]: "keeps (holds_messages c ns) (executeToolCalls env a)"
  unfolding executeToolCalls_def executeToolCallsParallel_def Let_def by (auto intro!: io_rules)

section \<open>Which call a result belongs to\<close>

definition call_key :: "tool_call \<Rightarrow> string \<times> string" where
  "call_key c = (call_id c, call_name c)"

definition result_key :: "tool_result_message \<Rightarrow> string \<times> string" where
  "result_key r = (toolCallId r, toolName r)"

lemma result_key_of: "result_key (createToolResultMessage time f) = call_key (final_call f)"
  by (simp add: result_key_def call_key_def createToolResultMessage_def)

text \<open>The keys of the first calls, and of all calls when the run is never aborted.\<close>

definition answers :: "'w env \<Rightarrow> tool_call list \<Rightarrow> (string \<times> string) list \<Rightarrow> bool" where
  "answers env cs ks \<longleftrightarrow> (\<exists>k. ks = take k (map call_key cs)) \<and> ((\<forall>w. \<not> aborted env w) \<longrightarrow> ks = map call_key cs)"

abbreviation (input) any :: "'w run \<Rightarrow> bool" where
  "any \<equiv> (\<lambda>_. True)"

lemma any_rule: "ensures any m (\<lambda>_. any) any"
  by (simp add: ensures_def split: prod.split sum.split)

lemma bind_any: "(\<And>a. ensures any (f a) Q any) \<Longrightarrow> ensures any (bind_io m f) Q any"
  by (rule ensures_bind [OF any_rule])

lemma any_return: "Q a \<Longrightarrow> ensures any (return_io a) (\<lambda>a _. Q a) any"
  by (simp add: ensures_def return_io_def)

lemma emit_result_key: "ensures any (emit_result env f) (\<lambda>r _. result_key r = call_key (final_call f)) any"
  unfolding emit_result_def Let_def by (rule bind_any, rule bind_any, rule any_return, rule result_key_of)

lemma answers_Nil: "answers env [] []"
  by (simp add: answers_def)

lemma answers_Cons: "answers env cs ks \<Longrightarrow> answers env (c # cs) (call_key c # ks)"
  unfolding answers_def by (metis list.simps(9) take_Suc_Cons)

lemma answers_stop: "aborted env w \<Longrightarrow> answers env (c # cs) [call_key c]"
  unfolding answers_def by (metis One_nat_def list.simps(9) take0 take_Suc_Cons)

lemma truncated_answers:
  "ensures any (failToolCallsFromTruncatedMessage env cs) (\<lambda>rs _. map result_key rs = map call_key cs) any"
proof (induction cs)
  case Nil
  show ?case unfolding failToolCallsFromTruncatedMessage.simps by (rule any_return) simp
next
  case (Cons c cs)
  show ?case unfolding failToolCallsFromTruncatedMessage.simps Let_def
    apply (rule bind_any, rule bind_any)
    apply (rule ensures_bind, rule emit_result_key)
    apply (rule ensures_fact [where P = any, simplified])
    apply (rule ensures_bind, rule Cons.IH)
    apply (rule ensures_fact [where P = any, simplified])
    apply (rule any_return)
    apply (simp add: not_executed_def)
    done
qed

section \<open>A batch in sequence\<close>

lemma finalize_call: "ensures any (finalizeExecutedToolCall env a p x) (\<lambda>f _. final_call f = prepared_call p) any"
  unfolding finalizeExecutedToolCall_def Let_def
  apply (rule ensures_catch [where R = any])
   apply (rule bind_any, rule bind_any)
   apply (rule any_return)
   apply (simp split: option.split prod.split)
  apply (rule any_return)
  apply simp
  done

lemma run_prepared_call: "ensures any (run_prepared env a p) (\<lambda>f _. final_call f = prepared_call p) any"
  unfolding run_prepared_def by (rule bind_any, rule finalize_call)

lemma prepare_call:
  "ensures any (prepareToolCall env a c) (\<lambda>r _. \<forall>p. r = Prepared p \<longrightarrow> prepared_call p = c) any"
  unfolding ensures_def using prepareToolCall_call by (fastforce split: prod.split sum.split)

lemma any_fact: "(F \<Longrightarrow> ensures any m Q E) \<Longrightarrow> ensures (\<lambda>_. F) m Q E"
  by (auto simp: ensures_def)

lemma settle_sequential_call: "ensures any (settle_sequential env a c) (\<lambda>f _. final_call f = c) any"
proof -
  have go: "ensures any (case r of
        Immediate r \<Rightarrow> return_io \<lparr>final_call = c, final_result = r, final_isError = True\<rparr>
      | Prepared p \<Rightarrow> bind_io (gate_io tryAcceptToolCall env) (\<lambda>accepted.
          if accepted then run_prepared env a p
          else bind_io (exhausted_io env) (\<lambda>l. return_io (out_of_budget c l)))) (\<lambda>f _. final_call f = c) any"
    if "\<forall>p. r = Prepared p \<longrightarrow> prepared_call p = c" for r
  proof (cases r)
    case (Immediate x)
    show ?thesis unfolding Immediate preparation.case by (rule any_return) simp
  next
    case (Prepared p)
    then have "ensures any (run_prepared env a p) (\<lambda>f _. final_call f = c) any" using run_prepared_call [of env a p] that by simp
    then show ?thesis
      unfolding Prepared preparation.case
      by - (rule bind_any, rule ensures_if, assumption, rule bind_any, rule any_return, simp add: out_of_budget_def not_executed_def)
  qed
  show ?thesis
    unfolding settle_sequential_def by (rule ensures_bind, rule prepare_call, rule any_fact, rule go)
qed

lemma aborted_read: "ensures any (is_aborted env) (\<lambda>stop _. stop \<longrightarrow> (\<exists>w. aborted env w)) any"
  by (auto simp: ensures_def is_aborted_def read_io_def)

lemma sequential_answers:
  "ensures any (executeToolCallsSequential env a cs) (\<lambda>batch _. answers env cs (map (result_key \<circ> snd) batch)) any"
proof (induction cs)
  case Nil
  show ?case unfolding executeToolCallsSequential.simps by (rule any_return) (simp add: answers_Nil)
next
  case (Cons c cs)
  show ?case unfolding executeToolCallsSequential.simps
    apply (rule bind_any)
    apply (rule ensures_bind, rule settle_sequential_call, rule any_fact)
    apply (rule bind_any)
    apply (rule ensures_bind, rule emit_result_key, rule any_fact)
    apply (rule ensures_bind, rule aborted_read, rule any_fact)
    apply (rule ensures_if)
     apply (rule any_return, auto intro: answers_stop) [1]
    apply (rule ensures_bind, rule Cons.IH, rule any_fact)
    apply (rule any_return, simp add: answers_Cons)
    done
qed

section \<open>A batch in parallel\<close>

fun entry_call :: "entry \<Rightarrow> tool_call" where
  "entry_call (Settled f) = final_call f"
| "entry_call (Deferred p) = prepared_call p"

lemma prepare_entry_call: "ensures any (prepare_entry env a c) (\<lambda>e _. entry_call e = c) any"
proof -
  have settled: "ensures any (bind_io (emitToolExecutionEnd env f) (\<lambda>_. return_io (Settled f))) (\<lambda>e _. entry_call e = c) any"
    if "final_call f = c" for f
    by (rule bind_any, rule any_return) (simp add: that)
  have go: "ensures any (case r of
        Immediate x \<Rightarrow>
          bind_io (emitToolExecutionEnd env \<lparr>final_call = c, final_result = x, final_isError = True\<rparr>)
            (\<lambda>_. return_io (Settled \<lparr>final_call = c, final_result = x, final_isError = True\<rparr>))
      | Prepared p \<Rightarrow>
          bind_io (gate_io tryAcceptToolCall env) (\<lambda>accepted.
            if accepted then return_io (Deferred p)
            else bind_io (exhausted_io env) (\<lambda>l.
              bind_io (emitToolExecutionEnd env (out_of_budget c l)) (\<lambda>_. return_io (Settled (out_of_budget c l))))))
      (\<lambda>e _. entry_call e = c) any"
    if "\<forall>p. r = Prepared p \<longrightarrow> prepared_call p = c" for r
  proof (cases r)
    case (Immediate x)
    show ?thesis unfolding Immediate preparation.case by (rule settled) simp
  next
    case (Prepared p)
    show ?thesis
      unfolding Prepared preparation.case
      apply (rule bind_any, rule ensures_if)
       apply (rule any_return, use that Prepared in simp)
      apply (rule bind_any, rule settled)
      apply (simp add: out_of_budget_def not_executed_def)
      done
  qed
  show ?thesis
    unfolding prepare_entry_def Let_def by (rule ensures_bind, rule prepare_call, rule any_fact, rule go)
qed

lemma entries_answers:
  "ensures any (prepare_entries env a cs) (\<lambda>es _. answers env cs (map (call_key \<circ> entry_call) es)) any"
proof (induction cs)
  case Nil
  show ?case unfolding prepare_entries.simps by (rule any_return) (simp add: answers_Nil)
next
  case (Cons c cs)
  show ?case unfolding prepare_entries.simps
    apply (rule bind_any)
    apply (rule ensures_bind, rule prepare_entry_call, rule any_fact)
    apply (rule ensures_bind, rule aborted_read, rule any_fact)
    apply (rule ensures_if)
     apply (rule any_return, auto intro: answers_stop) [1]
    apply (rule ensures_bind, rule Cons.IH, rule any_fact)
    apply (rule any_return, simp add: answers_Cons)
    done
qed

lemma settle_entry_call: "ensures any (settle_entry env a e) (\<lambda>f _. final_call f = entry_call e) any"
proof (cases e)
  case (Settled f)
  show ?thesis unfolding settle_entry_def Settled entry.case by (rule any_return) simp
next
  case (Deferred p)
  show ?thesis
    unfolding settle_entry_def Deferred entry.case settle_deferred_def
    apply (rule bind_any, rule ensures_bind [where R = "\<lambda>f _. final_call f = prepared_call p"])
     apply (rule ensures_if, rule any_return, simp, rule run_prepared_call)
    apply (rule any_fact, rule bind_any, rule any_return, simp)
    done
qed

text \<open>The settled calls: indices of entries with their outcomes, all those of the order among them.\<close>

definition settled_of :: "entry list \<Rightarrow> (nat \<times> finalized) list \<Rightarrow> bool" where
  "settled_of es settled \<longleftrightarrow> (\<forall>(i, f) \<in> set settled. final_call f = entry_call (es ! i))"

lemma settle_entries_settles:
  assumes "settled_of es settled"
  shows "ensures any (settle_entries env a es order settled)
    (\<lambda>fs _. settled_of es fs \<and> fst ` set fs = fst ` set settled \<union> set order) any"
  using assms
proof (induction order arbitrary: settled)
  case Nil
  then show ?case unfolding settle_entries.simps by - (rule any_return, simp)
next
  case (Cons i order)
  show ?case unfolding settle_entries.simps
    apply (rule ensures_bind, rule settle_entry_call, rule any_fact)
    apply (rule ensures_post, rule Cons.IH)
    using Cons.prems apply (auto simp: settled_of_def)
    done
qed

lemma source_order_calls:
  assumes "settled_of es settled" and "fst ` set settled = {0..<length es}"
  shows "map final_call (in_source_order (length es) settled) = map entry_call es"
proof -
  have one: "map final_call (case al_get i settled of None \<Rightarrow> [] | Some f \<Rightarrow> [f]) = [entry_call (es ! i)]" if i: "i < length es" for i
  proof -
    have "al_get i settled \<noteq> None" using assms(2) i by (simp add: al_get_None_iff)
    then obtain f where f: "al_get i settled = Some f" by blast
    then show ?thesis using assms(1) al_get_SomeD [OF f] by (auto simp: settled_of_def)
  qed
  have "map final_call (in_source_order (length es) settled) = concat (map (\<lambda>i. [entry_call (es ! i)]) [0..<length es])"
    unfolding in_source_order_def map_concat map_map comp_def
    by (rule arg_cong [where f = concat], rule map_cong) (simp_all add: one)
  also have "\<dots> = map (\<lambda>i. entry_call (es ! i)) [0..<length es]" by (simp add: concat_map_singleton)
  also have "\<dots> = map entry_call es" by (rule nth_equalityI) simp_all
  finally show ?thesis .
qed

lemma emit_results_keys:
  "ensures any (emit_results env fs) (\<lambda>batch _. map (result_key \<circ> snd) batch = map (call_key \<circ> final_call) fs) any"
proof (induction fs)
  case Nil
  show ?case unfolding emit_results.simps by (rule any_return) simp
next
  case (Cons f fs)
  show ?case unfolding emit_results.simps
    apply (rule ensures_bind, rule emit_result_key, rule any_fact)
    apply (rule ensures_bind, rule Cons.IH, rule any_fact)
    apply (rule any_return, simp)
    done
qed

lemma completion_order_all: "set (completion_order n xs) = {0..<n}"
  by (auto simp: completion_order_def Let_def)

lemma parallel_answers:
  "ensures any (executeToolCallsParallel env a cs) (\<lambda>batch _. answers env cs (map (result_key \<circ> snd) batch)) any"
proof -
  have order: "ensures any (read_io (\<lambda>s. completion_order n (completion env n (world s)))) (\<lambda>order _. set order = {0..<n}) any" for n
    by (rule ensures_pre, rule ensures_read) (simp add: completion_order_all)
  have keys: "map (call_key \<circ> final_call) (in_source_order (length es) settled) = map (call_key \<circ> entry_call) es"
    if "settled_of es settled" "fst ` set settled = {0..<length es}" for es settled
    using source_order_calls [OF that] by (metis map_map)
  have settled: "ensures any (settle_entries env a es order []) (\<lambda>fs _. settled_of es fs \<and> fst ` set fs = {0..<length es}) any"
    if "set order = {0..<length es}" for es order
    using settle_entries_settles [of es "[]" env a order] that by (simp add: settled_of_def)
  show ?thesis
    unfolding executeToolCallsParallel_def
    apply (rule ensures_bind, rule entries_answers, rule any_fact)
    apply (rule ensures_bind, rule order, rule any_fact)
    apply (rule ensures_bind, rule settled, assumption, rule any_fact)
    apply (rule ensures_post, rule emit_results_keys)
    apply (simp add: keys)
    done
qed

section \<open>The batch of an answer\<close>

lemma execute_answers:
  "ensures any (executeToolCalls env a)
    (\<lambda>x _. answers env (block_calls (assistant_content a)) (map result_key (fst x))) any"
  unfolding executeToolCalls_def Let_def
  apply (rule bind_any)
  apply (rule ensures_bind, rule ensures_if, rule sequential_answers, rule parallel_answers)
  apply (rule any_fact, rule any_return, simp)
  done

lemma push_all_messages:
  "context_messages (currentContext (fold (\<lambda>r s. push_new (g r) (push_context (g r) s)) xs s)) =
     context_messages (currentContext s) @ map g xs"
  "newMessages (fold (\<lambda>r s. push_new (g r) (push_context (g r) s)) xs s) = newMessages s @ map g xs"
  by (induction xs arbitrary: s) (simp_all add: push_new_def push_context_def)

text \<open>
  C13: The tool calls of an answer and their results: the results that a batch produces belong, in order and by identifier
  and name, to the first calls of the answer, each with one result, and to all of them when the run is never aborted; so
  it is whether the calls run in sequence or in parallel and in whatever order they settle, whether they are unknown, blocked,
  invalid, out of budget, failing or cut off. The context and the new messages grow by exactly these results.
\<close>
theorem every_call_is_answered:
  assumes "run_tools env a s = (Inr rs, s')"
  shows "(\<exists>k. map result_key rs = take k (map call_key (block_calls (assistant_content a)))) \<and>
    ((\<forall>w. \<not> aborted env w) \<longrightarrow> map result_key rs = map call_key (block_calls (assistant_content a))) \<and>
    context_messages (currentContext s') = context_messages (currentContext s) @ map ToolResult rs \<and>
    newMessages s' = newMessages s @ map ToolResult rs"
proof -
  let ?cs = "block_calls (assistant_content a)" and ?c = "currentContext s" and ?ns = "newMessages s"
  let ?batch = "if ?cs = [] then return_io no_results
       else if stopReason a = LengthStop then bind_io (failToolCallsFromTruncatedMessage env ?cs) (\<lambda>rs. return_io (rs, False))
       else executeToolCalls env a"
  have truncated: "ensures any (bind_io (failToolCallsFromTruncatedMessage env ?cs) (\<lambda>rs. return_io (rs, False)))
      (\<lambda>x _. answers env ?cs (map result_key (fst x))) any"
    by (rule ensures_bind, rule truncated_answers, rule any_fact, rule any_return) (auto simp: answers_def intro: exI [of _ "length ?cs"])
  have empty: "ensures any (return_io no_results) (\<lambda>x _. answers env ?cs (map result_key (fst x))) any" if "?cs = []"
    by (rule any_return) (simp add: that no_results_def answers_Nil)
  have keys: "ensures any ?batch (\<lambda>x _. answers env ?cs (map result_key (fst x))) any"
    by (rule ensures_if, rule empty, assumption, rule ensures_if, rule truncated, rule execute_answers)
  have held: "keeps (holds_messages ?c ?ns) ?batch"
    by (intro io_rules)
  obtain x s1 where x: "?batch s = (Inr x, s1)"
    using assms unfolding run_tools_def Let_def bind_io_def by (auto split: prod.splits sum.splits)
  obtain rs' over where x': "x = (rs', over)" by force
  have "answers env ?cs (map result_key rs')" using ensures_return [OF keys TrueI x] x' by simp
  moreover have "holds_messages ?c ?ns s1" by (rule keepsD [OF held _ x]) (simp add: holds_messages_def)
  moreover have "rs = rs' \<and> s' = fold (\<lambda>r s. push_new (ToolResult r) (push_context (ToolResult r) s)) rs (s1\<lparr>hasMoreToolCalls := \<not> over\<rparr>)"
    using assms x x' unfolding run_tools_def Let_def bind_io_def by (auto simp: update_io_def return_io_def)
  ultimately show ?thesis by (auto simp: answers_def holds_messages_def push_all_messages)
qed

lemma example_batch:
  "case run_tools example_env (example_answer [CallBlock example_call] ToolUseStop) example_run of (Inr rs, _) \<Rightarrow> length rs = 1 | _ \<Rightarrow> False"
  by code_simp

theorem every_call_is_answered_witness:
  "\<exists>rs s'. run_tools example_env (example_answer [CallBlock example_call] ToolUseStop) example_run = (Inr rs, s') \<and>
    map result_key rs = [(''1'', ''echo'')] \<and> newMessages s' = map ToolResult rs"
proof -
  let ?a = "example_answer [CallBlock example_call] ToolUseStop"
  obtain rs s' where run: "run_tools example_env ?a example_run = (Inr rs, s')"
    using example_batch by (auto split: prod.splits sum.splits)
  have "\<forall>w. \<not> aborted example_env w" by (simp add: example_env_def)
  moreover have "map call_key (block_calls (assistant_content ?a)) = [(''1'', ''echo'')]"
    by (simp add: example_answer_def example_call_def call_key_def)
  moreover have "newMessages example_run = []" by (simp add: example_run_def initial_run_def)
  ultimately show ?thesis using every_call_is_answered [OF run] run by auto
qed

end
