(* ===== verification/Transcript_Props.thy ===== *)
theory Transcript_Props imports Transcript begin

text \<open>
  Replaying system messages. A table of tools lists every tool under its own name, once; a lookup after a system message is
  determined by what the message adds and removes. From this follow: a system message with the changes to a tool set makes
  it the current one, a collapsed transcript has the same prompt and tools, and tools that are anchored where they were
  added amount to the current ones.
\<close>

section \<open>Tables of tools\<close>

definition table_ok :: "tool_table \<Rightarrow> bool" where
  "table_ok t \<longleftrightarrow> distinct (al_keys t) \<and> (\<forall>(n, d) \<in> set t. n = tool_name d)"

lemma set_al_set: "set (al_set k v m) \<subseteq> insert (k, v) (set m)"
  by (induction k v m rule: al_set.induct) auto

lemma set_al_delete: "set (al_delete k m) \<subseteq> set m"
  by (induction k m rule: al_delete.induct) auto

lemma table_ok_Nil [inv_intros]: "table_ok []"
  by (simp add: table_ok_def)

lemma table_ok_set [inv_intros]: "table_ok t \<Longrightarrow> table_ok (al_set (tool_name d) d t)"
  using set_al_set [of "tool_name d" d t] by (auto simp: table_ok_def)

lemma table_ok_delete [inv_intros]: "table_ok t \<Longrightarrow> table_ok (al_delete n t)"
  using set_al_delete [of n t] by (auto simp: table_ok_def)

lemma table_ok_sets [inv_intros]: "table_ok t \<Longrightarrow> table_ok (fold (\<lambda>d. al_set (tool_name d) d) ds t)"
  by (induction ds arbitrary: t) (simp_all add: table_ok_set)

lemma table_ok_deletes [inv_intros]: "table_ok t \<Longrightarrow> table_ok (fold al_delete ns t)"
  by (induction ns arbitrary: t) (simp_all add: table_ok_delete)

lemma table_ok_replay [inv_intros]: "table_ok t \<Longrightarrow> table_ok (replay_tools m t)"
  by (simp add: replay_tools_def table_ok_sets table_ok_deletes)

lemma table_ok_current [inv_intros]: "table_ok t \<Longrightarrow> table_ok (current_table messages t)"
  by (induction messages t rule: current_table.induct) (simp_all add: table_ok_replay)

lemma current_ok: "table_ok (current_table messages [])"
  by (intro inv_intros)

lemma table_okD:
  assumes "table_ok t"
  shows "al_get n t = Some d \<Longrightarrow> tool_name d = n \<and> d \<in> set (map snd t)" and "d \<in> set (map snd t) \<Longrightarrow> al_get (tool_name d) t = Some d"
    and "distinct (map tool_name (map snd t))"
proof -
  show "tool_name d = n \<and> d \<in> set (map snd t)" if "al_get n t = Some d"
    using assms al_get_SomeD [OF that] by (force simp: table_ok_def)
  show "al_get (tool_name d) t = Some d" if "d \<in> set (map snd t)"
    using assms that by (force simp: table_ok_def al_get_Some_iff)
  have "map tool_name (map snd t) = al_keys t"
    unfolding map_map by (rule map_cong [OF refl]) (use assms in \<open>auto simp: table_ok_def\<close>)
  then show "distinct (map tool_name (map snd t))" using assms by (simp only: table_ok_def)
qed

lemma distinct_tools:
  assumes "distinct (map tool_name ds)" and "d \<in> set ds" and "e \<in> set ds" and "tool_name d = tool_name e"
  shows "d = e"
  using assms by (auto simp: distinct_map inj_on_def)

text \<open>Setting tools of distinct new names appends them.\<close>

lemma sets_append:
  "distinct (map tool_name ds) \<Longrightarrow> (\<forall>d \<in> set ds. tool_name d \<notin> set (al_keys t)) \<Longrightarrow>
    fold (\<lambda>d. al_set (tool_name d) d) ds t = t @ map (\<lambda>d. (tool_name d, d)) ds"
proof (induction ds arbitrary: t)
  case (Cons d ds)
  have "al_set (tool_name d) d t = t @ [(tool_name d, d)]" using Cons.prems(2) by (simp add: al_set_new)
  moreover have "fold (\<lambda>d. al_set (tool_name d) d) ds (t @ [(tool_name d, d)]) =
      (t @ [(tool_name d, d)]) @ map (\<lambda>d. (tool_name d, d)) ds"
    by (rule Cons.IH) (use Cons.prems in \<open>auto, metis imageI\<close>)
  ultimately show ?case by simp
qed simp

lemma tool_map_distinct: "distinct (map tool_name ds) \<Longrightarrow> tool_map ds = map (\<lambda>d. (tool_name d, d)) ds"
  unfolding tool_map_def using sets_append [of ds "[]"] by simp

lemma tool_map_table: "table_ok t \<Longrightarrow> tool_map (map snd t) = t"
proof -
  assume t: "table_ok t"
  have "tool_map (map snd t) = map (\<lambda>d. (tool_name d, d)) (map snd t)" by (rule tool_map_distinct [OF table_okD(3) [OF t]])
  also have "\<dots> = t" unfolding map_map by (rule map_idI) (use t in \<open>auto simp: table_ok_def\<close>)
  finally show ?thesis .
qed

lemma table_ok_tool_map [inv_intros]: "table_ok (tool_map ds)"
  unfolding tool_map_def by (intro inv_intros)

lemma al_get_tool_map: "distinct (map tool_name ds) \<Longrightarrow> al_get n (tool_map ds) = Some d \<longleftrightarrow> d \<in> set ds \<and> tool_name d = n"
proof -
  assume "distinct (map tool_name ds)"
  then have "tool_map ds = map (\<lambda>d. (tool_name d, d)) ds" and "distinct (al_keys (map (\<lambda>d. (tool_name d, d)) ds))"
    by (simp_all add: tool_map_distinct comp_def)
  then show ?thesis by (auto simp: al_get_Some_iff)
qed

lemma al_get_deletes: "table_ok t \<Longrightarrow> al_get n (fold al_delete ns t) = (if n \<in> set ns then None else al_get n t)"
proof (induction ns arbitrary: t)
  case (Cons k ns)
  have "al_get n (al_delete k t) = (if n = k then None else al_get n t)" using Cons.prems by (simp add: table_ok_def)
  then show ?case using Cons.IH [OF table_ok_delete [OF Cons.prems, of k]] by auto
qed simp

lemma al_get_sets:
  "distinct (map tool_name ds) \<Longrightarrow>
    al_get n (fold (\<lambda>d. al_set (tool_name d) d) ds t) =
      (case al_get n (tool_map ds) of Some d \<Rightarrow> Some d | None \<Rightarrow> al_get n t)"
proof (induction ds arbitrary: t)
  case (Cons d ds)
  have "al_get (tool_name d) (tool_map ds) = None"
    using Cons.prems by (auto simp: tool_map_distinct al_get_None_iff image_iff)
  then show ?case using Cons.prems by (auto simp: Cons.IH tool_map_distinct split: option.splits)
qed (simp add: tool_map_def)

lemma al_get_replay:
  assumes "table_ok t" and "distinct (map tool_name (toolsAdded m))"
  shows "al_get n (replay_tools m t) = (case al_get n (tool_map (toolsAdded m)) of Some d \<Rightarrow> Some d
    | None \<Rightarrow> if n \<in> set (toolsRemoved m) then None else al_get n t)"
  unfolding replay_tools_def al_get_sets [OF assms(2)] al_get_deletes [OF assms(1)] ..

lemma current_table_append: "current_table (xs @ ys) t = current_table ys (current_table xs t)"
  by (induction xs t rule: current_table.induct) simp_all

lemma current_table_no_system: "\<forall>m \<in> set xs. \<not> is_system m \<Longrightarrow> current_table xs t = t"
  by (induction xs t rule: current_table.induct) simp_all

lemma same_table_same_tools:
  assumes "table_ok t" and "table_ok u" and "\<And>n. al_get n t = al_get n u"
  shows "set (map snd t) = set (map snd u)"
  using table_okD [OF assms(1)] table_okD [OF assms(2)] assms(3) by (metis subsetI subset_antisym)

section \<open>The changes to a tool set\<close>

lemma changes_replay:
  assumes "table_ok t" and "distinct (map tool_name tools)" and "getToolStateChanges (map snd t) tools = (added, removed)"
    and "toolsAdded m = added" and "toolsRemoved m = removed"
  shows "al_get n (replay_tools m t) = al_get n (tool_map tools)"
proof -
  have added: "toolsAdded m = filter (differs_in t) tools"
    and removed: "toolsRemoved m = map tool_name (filter (differs_in (tool_map tools)) (map snd t))"
    using assms by (auto simp: getToolStateChanges_def tool_map_table)
  have "distinct (map tool_name (toolsAdded m))" using assms(2) by (simp add: added distinct_map_filter)
  note get = al_get_replay [OF assms(1) this] al_get_tool_map [OF this]
  show ?thesis
  proof (cases "al_get n (tool_map tools)")
    case None
    then have "al_get n (tool_map (toolsAdded m)) \<noteq> Some d" for d
      unfolding get(2) using al_get_tool_map [OF assms(2), of n d] by (simp add: added)
    then have "al_get n (tool_map (toolsAdded m)) = None" by (cases "al_get n (tool_map (toolsAdded m))") auto
    moreover have "n \<in> set (toolsRemoved m)" if "al_get n t = Some d" for d
      using table_okD(1) [OF assms(1) that] None by (auto simp: removed differs_in_def)
    ultimately show ?thesis unfolding get(1) using None by (cases "al_get n t") auto
  next
    case (Some d)
    then have d: "d \<in> set tools" "tool_name d = n" using al_get_tool_map [OF assms(2)] by auto
    show ?thesis
    proof (cases "differs_in t d")
      case True
      then have "al_get n (tool_map (toolsAdded m)) = Some d" unfolding get(2) using d by (simp add: added)
      then show ?thesis unfolding get(1) using Some by simp
    next
      case False
      then have t: "al_get n t = Some d" using d(2) by (auto simp: differs_in_def declarationsEqual_def split: option.splits)
      have "al_get n (tool_map (toolsAdded m)) = None"
      proof (cases "al_get n (tool_map (toolsAdded m))")
        case (Some e)
        then have e: "e \<in> set tools" "tool_name e = n" "differs_in t e" unfolding get(2) by (simp_all add: added)
        then have "e = d" using distinct_tools [OF assms(2) e(1) d(1)] d(2) by simp
        then show ?thesis using e(3) False by simp
      qed
      moreover have "n \<notin> set (toolsRemoved m)"
      proof
        assume "n \<in> set (toolsRemoved m)"
        then obtain e where e: "e \<in> set (map snd t)" "tool_name e = n" "differs_in (tool_map tools) e" by (auto simp: removed)
        then have "e = d" using table_okD(2) [OF assms(1) e(1)] t by simp
        then show False using e(3) Some d(2) by (simp add: differs_in_def declarationsEqual_def)
      qed
      ultimately show ?thesis unfolding get(1) using t Some by simp
    qed
  qed
qed

text \<open>No changes means that the current tools are the wanted ones.\<close>

lemma no_changes:
  assumes "table_ok t" and "distinct (map tool_name tools)" and "getToolStateChanges (map snd t) tools = ([], [])"
  shows "al_get n t = al_get n (tool_map tools)"
  using changes_replay [OF assms, of "\<lparr>system_content = Plain [], sections = [], toolsAdded = [], toolsRemoved = [], system_timestamp = 0\<rparr>" n]
  by (simp add: replay_tools_def)

lemma changes_take_effect:
  assumes "distinct (map tool_name tools)" and "getToolStateChanges (getCurrentTools messages) tools = (toolsAdded m, toolsRemoved m)"
  shows "set (getCurrentTools (messages @ [System m])) = set tools"
proof -
  let ?t = "current_table messages []"
  have "set (map snd (replay_tools m ?t)) = set (map snd (tool_map tools))"
    by (rule same_table_same_tools [OF table_ok_replay [OF current_ok] table_ok_tool_map])
      (rule changes_replay [OF current_ok assms(1) assms(2) [unfolded getCurrentTools_def] refl refl])
  then show ?thesis by (simp add: getCurrentTools_def current_table_append tool_map_distinct [OF assms(1)] comp_def)
qed

section \<open>The collapsed transcript\<close>

lemma replay_section_distinct: "distinct (al_keys ss) \<Longrightarrow> distinct (al_keys (replay_section x ss))"
  by (cases "(x, ss)" rule: replay_section.cases) simp_all

lemma replay_sections_distinct: "distinct (al_keys ss) \<Longrightarrow> distinct (al_keys (fold replay_section xs ss))"
  by (induction xs arbitrary: ss) (simp_all add: replay_section_distinct)

lemma replay_sections_same:
  "distinct (al_keys (ts @ ss)) \<Longrightarrow> fold replay_section (map (\<lambda>(n, t). (n, Some t)) ss) ts = ts @ ss"
proof (induction ss arbitrary: ts)
  case (Cons x ss)
  obtain n t where x: "x = (n, t)" by force
  have "al_set n t ts = ts @ [(n, t)]" using Cons.prems by (simp add: x al_set_new)
  moreover have "fold replay_section (map (\<lambda>(n, t). (n, Some t)) ss) (ts @ [(n, t)]) = (ts @ [(n, t)]) @ ss"
    by (rule Cons.IH) (use Cons.prems in \<open>simp add: x\<close>)
  ultimately show ?case by (simp add: x)
qed simp

lemma replay_prompt_shape:
  assumes "replay_prompt messages (texts, ss, time) = (texts', ss', time')" and "[] \<notin> set texts" and "distinct (al_keys ss)"
  shows "[] \<notin> set texts' \<and> distinct (al_keys ss')"
  using assms
  by (induction messages "(texts, ss, time)" arbitrary: texts ss time rule: replay_prompt.induct)
    (auto simp: Let_def replay_sections_distinct split: if_splits)

lemma replay_prompt_no_system: "\<forall>m \<in> set messages. \<not> is_system m \<Longrightarrow> replay_prompt messages acc = acc"
  by (induction messages acc rule: replay_prompt.induct) simp_all

lemma join_Nil_iff: "[] \<notin> set ts \<Longrightarrow> join sep ts = [] \<longleftrightarrow> ts = []"
  by (cases "(sep, ts)" rule: join.cases) auto

lemma current_table_rest: "current_table (System m # filter (\<lambda>m. \<not> is_system m) messages) [] = replay_tools m []"
  by (simp add: current_table_no_system)

lemma replay_tools_fresh:
  "table_ok t \<Longrightarrow> toolsAdded m = map snd t \<Longrightarrow> toolsRemoved m = [] \<Longrightarrow> replay_tools m [] = t"
  using tool_map_table [of t] by (simp add: replay_tools_def tool_map_def)

lemma collapse_current:
  assumes "getCurrentSystemMessage messages = Some h"
  shows "getCurrentSystemMessage (System h # filter (\<lambda>m. \<not> is_system m) messages) = Some h"
    and "getCurrentTools (System h # filter (\<lambda>m. \<not> is_system m) messages) = getCurrentTools messages"
proof -
  let ?rest = "filter (\<lambda>m. \<not> is_system m) messages"
  obtain texts ss time where r: "replay_prompt messages ([], [], None) = (texts, ss, time)" by (metis prod_cases3)
  have shape: "[] \<notin> set texts" "distinct (al_keys ss)" using replay_prompt_shape [OF r] by simp_all
  have h: "h = \<lparr>system_content = Plain (join blank_line texts), sections = map (\<lambda>(n, t). (n, Some t)) ss,
      toolsAdded = getCurrentTools messages, toolsRemoved = [], system_timestamp = (case time of None \<Rightarrow> 0 | Some n \<Rightarrow> n)\<rparr>"
    and some: "\<not> (time = None \<and> getCurrentTools messages = [])"
    using assms by (auto simp: getCurrentSystemMessage_def r Let_def split: if_splits)
  have "replay_tools h [] = current_table messages []"
    by (rule replay_tools_fresh [OF current_ok]) (simp_all add: h getCurrentTools_def)
  then show tools: "getCurrentTools (System h # ?rest) = getCurrentTools messages"
    by (simp only: getCurrentTools_def current_table_rest)
  have "replay_prompt (System h # ?rest) ([], [], None) =
      (if join blank_line texts = [] then [] else [join blank_line texts], ss, Some (system_timestamp h))"
    using replay_sections_same [of "[]" ss] shape(2) by (simp add: h Let_def replay_prompt_no_system)
  then show "getCurrentSystemMessage (System h # ?rest) = Some h"
    unfolding getCurrentSystemMessage_def tools by (simp add: h Let_def)
qed

lemma collapse_none:
  assumes "getCurrentSystemMessage messages = None"
  shows "\<forall>m \<in> set messages. \<not> is_system m"
proof -
  have "time \<noteq> None \<Longrightarrow> replay_prompt ms (texts, ss, time) = (a, b, c) \<Longrightarrow> c \<noteq> None" for ms texts ss time a b c
    by (induction ms "(texts, ss, time)" arbitrary: texts ss time rule: replay_prompt.induct) (auto simp: Let_def)
  then have "replay_prompt ms (texts, ss, time) = (a, b, None) \<Longrightarrow> \<forall>m \<in> set ms. \<not> is_system m" for ms texts ss time a b
  proof (induction ms "(texts, ss, time)" arbitrary: texts ss time rule: replay_prompt.induct)
    case (2 m messages texts ss time)
    then show ?case by (simp add: Let_def split: option.splits) blast+
  qed auto
  moreover obtain texts ss time where r: "replay_prompt messages ([], [], None) = (texts, ss, time)" by (metis prod_cases3)
  moreover have "time = None" using assms by (simp add: getCurrentSystemMessage_def r Let_def split: if_splits)
  ultimately show ?thesis by blast
qed

text \<open>
  C38: Collapsing the system messages of a transcript into one, for an interface that takes only one, changes nothing that
  matters: the current system message and so the prompt text, the current tools, and the other messages with their order
  stay the same; at most the first message is a system message, and collapsing again does nothing.
\<close>
theorem collapse_keeps_prompt_and_tools:
  fixes messages :: "message list"
  defines "collapsed \<equiv> collapseSystemMessages messages"
  shows "getCurrentSystemMessage collapsed = getCurrentSystemMessage messages \<and>
    getCurrentSystemPrompt collapsed = getCurrentSystemPrompt messages \<and> getCurrentTools collapsed = getCurrentTools messages \<and>
    filter (\<lambda>m. \<not> is_system m) collapsed = filter (\<lambda>m. \<not> is_system m) messages \<and>
    list_all (\<lambda>m. \<not> is_system m) (withoutInitialSystemMessage collapsed) \<and> collapseSystemMessages collapsed = collapsed"
proof (cases "getCurrentSystemMessage messages")
  case None
  have "filter (\<lambda>m. \<not> is_system m) messages = messages" using collapse_none [OF None] by (simp add: filter_id_conv)
  then have "collapsed = messages" by (simp add: collapsed_def collapseSystemMessages_def None)
  moreover have "getInitialSystemMessage messages = None"
    using collapse_none [OF None] by (cases messages rule: getInitialSystemMessage.cases) auto
  ultimately show ?thesis
    using collapse_none [OF None] collapsed_def by (simp add: withoutInitialSystemMessage_def list_all_iff)
next
  case (Some h)
  have c: "collapsed = System h # filter (\<lambda>m. \<not> is_system m) messages"
    by (simp add: collapsed_def collapseSystemMessages_def Some Let_def)
  note current = collapse_current [OF Some]
  have "collapseSystemMessages collapsed = collapsed"
    unfolding c collapseSystemMessages_def current(1) by (simp add: Let_def)
  moreover have "getCurrentSystemPrompt collapsed = getCurrentSystemPrompt messages"
    unfolding c getCurrentSystemPrompt_def current(1) Some ..
  moreover have "list_all (\<lambda>m. \<not> is_system m) (withoutInitialSystemMessage collapsed)"
    by (simp add: c withoutInitialSystemMessage_def list_all_iff)
  ultimately show ?thesis using current Some c by simp
qed

section \<open>Anchored additions\<close>

lemma added_again_False:
  "added_again ts declared = (False, declared') \<Longrightarrow>
    distinct (map tool_name ts) \<and> (\<forall>t \<in> set ts. tool_name t \<notin> set declared) \<and> set declared' = set declared \<union> tool_name ` set ts"
proof (induction ts arbitrary: declared)
  case (Cons t ts)
  then have t: "tool_name t \<notin> set declared" "added_again ts (tool_name t # declared) = (False, declared')"
    by (auto split: if_splits)
  show ?case using Cons.IH [OF t(2)] t(1) by auto
qed simp

definition added_tools :: "message list \<Rightarrow> tool_declaration list" where
  "added_tools messages = concat (map (\<lambda>m. case m of System s \<Rightarrow> toolsAdded s | _ \<Rightarrow> []) messages)"

lemma additive_table:
  "\<not> non_additive messages declared \<Longrightarrow> set declared = set (al_keys t) \<Longrightarrow>
    current_table messages t = t @ map (\<lambda>d. (tool_name d, d)) (added_tools messages)"
proof (induction messages declared arbitrary: t rule: non_additive.induct)
  case (2 m messages declared)
  obtain again declared' where a: "added_again (toolsAdded m) declared = (again, declared')" by force
  have m: "toolsRemoved m = []" "\<not> again" "\<not> non_additive messages declared'"
    using "2.prems"(1) by (auto simp: a split: if_splits)
  have IH: "set declared' = set (al_keys u) \<Longrightarrow> current_table messages u = u @ map (\<lambda>d. (tool_name d, d)) (added_tools messages)" for u
    using "2.IH" [OF _ a [symmetric] m(2,3)] m(1) by simp
  have table: "replay_tools m t = t @ map (\<lambda>d. (tool_name d, d)) (toolsAdded m)"
    using added_again_False [of "toolsAdded m" declared declared'] a m(1,2) "2.prems"(2)
    by (simp add: replay_tools_def) (rule sets_append, auto)
  have "set declared' = set (al_keys (replay_tools m t))"
    using added_again_False [of "toolsAdded m" declared declared'] a m(2) "2.prems"(2) table by (auto simp: image_iff)
  then have "current_table messages (replay_tools m t) = replay_tools m t @ map (\<lambda>d. (tool_name d, d)) (added_tools messages)"
    by (intro IH)
  moreover have "added_tools (System m # messages) = toolsAdded m @ added_tools messages" by (simp add: added_tools_def)
  ultimately show ?case using table by simp
qed (simp_all add: added_tools_def)

text \<open>
  When additions are anchored where they were made, the tools of the request and those that later system messages add
  are together the current tools, in the same order; otherwise the request carries the current tools itself.
\<close>
theorem anchored_tools_are_current:
  fixes messages :: "message list"
  defines "rest \<equiv> withoutInitialSystemMessage messages"
  shows "case resolveTranscriptTools messages supports of (requestTools, anchored) \<Rightarrow>
    getCurrentTools messages = requestTools @ (if anchored then added_tools rest else [])"
proof (cases "supports \<and> \<not> hasNonAdditiveToolChanges messages")
  case True
  then have "current_table messages [] = map (\<lambda>d. (tool_name d, d)) (added_tools messages)"
    using additive_table [of messages "[]" "[]"] by (simp add: hasNonAdditiveToolChanges_def)
  then have "getCurrentTools messages = added_tools messages" by (simp add: getCurrentTools_def comp_def)
  moreover have "added_tools messages = (case getInitialSystemMessage messages of None \<Rightarrow> [] | Some m \<Rightarrow> toolsAdded m) @ added_tools rest"
    by (cases messages rule: getInitialSystemMessage.cases) (simp_all add: rest_def withoutInitialSystemMessage_def added_tools_def)
  ultimately show ?thesis using True by (simp add: resolveTranscriptTools_def Let_def)
next
  case False
  then have "resolveTranscriptTools messages supports = (getCurrentTools messages, False)"
    by (auto simp: resolveTranscriptTools_def Let_def)
  then show ?thesis by simp
qed

end
