(* ===== verification/Agent_Loop_Tools.thy ===== *)
theory Agent_Loop_Tools imports Agent_Loop_Example Transcript_Props begin

text \<open>
  The tools of the context are declared to the model: what the loop adds to the messages it is about to send makes the
  current tools of the transcript the tools of the context.
\<close>

lemma last_system_index_Some:
  "last_system_index ms = Some i \<Longrightarrow> \<exists>m. i < length ms \<and> ms ! i = System m \<and> (\<forall>x \<in> set (drop (Suc i) ms). \<not> is_system x)"
proof (induction ms arbitrary: i)
  case (Cons x ms)
  show ?case
  proof (cases "last_system_index ms")
    case None
    then have i: "i = 0" and x: "is_system x" using Cons.prems by (auto split: if_splits)
    have "\<forall>y \<in> set ms. \<not> is_system y" using None by (induction ms) (auto split: option.splits if_splits)
    then show ?thesis using i x by (cases x) auto
  next
    case (Some j)
    then have "i = Suc j" using Cons.prems by simp
    then show ?thesis using Cons.IH [OF Some] by auto
  qed
qed simp

lemma last_system_index_None: "last_system_index ms = None \<Longrightarrow> \<forall>x \<in> set ms. \<not> is_system x"
  by (induction ms) (auto split: option.splits if_splits)

lemma declared_system_Some:
  "declared_system ms = Some (i, m) \<Longrightarrow> i < length ms \<and> ms ! i = System m \<and> (\<forall>x \<in> set (drop (Suc i) ms). \<not> is_system x)"
  using last_system_index_Some [of ms i] by (auto simp: declared_system_def split: option.splits message.splits dest: last_system_index_Some)

lemma declared_system_None: "declared_system ms = None \<Longrightarrow> \<forall>x \<in> set ms. \<not> is_system x"
proof (cases "last_system_index ms")
  case None
  then show ?thesis by (rule last_system_index_None)
next
  case (Some i)
  assume "declared_system ms = None"
  then show ?thesis using last_system_index_Some [OF Some] Some by (auto simp: declared_system_def)
qed

text \<open>Replaying messages whose last system message is replaced.\<close>

lemma table_replaced:
  assumes "i < length ms" and "\<forall>x \<in> set (drop (Suc i) ms). \<not> is_system x"
  shows "current_table (xs @ ms[i := System m]) t = replay_tools m (current_table (xs @ take i ms) t)"
  by (simp add: upd_conv_take_nth_drop [OF assms(1)] current_table_append current_table_no_system [OF assms(2)])

lemma replay_unchanged: "replay_tools (withToolChanges m ([], [])) t = t"
  by (simp add: replay_tools_def withToolChanges_def)

lemma unchanged_message: "toolsAdded m = [] \<Longrightarrow> toolsRemoved m = [] \<Longrightarrow> withToolChanges m ([], []) = m"
  by (simp add: withToolChanges_def)

lemma changed_tools:
  assumes "distinct (map tool_name tools)" and "getToolStateChanges (map snd t) tools = changes" and "table_ok t"
  shows "set (map snd (replay_tools (withToolChanges m changes) t)) = set tools"
proof -
  have "set (map snd (replay_tools (withToolChanges m changes) t)) = set (map snd (tool_map tools))"
  proof (rule same_table_same_tools [OF table_ok_replay [OF assms(3)] table_ok_tool_map])
    fix n
    show "al_get n (replay_tools (withToolChanges m changes) t) = al_get n (tool_map tools)"
      by (rule changes_replay [OF assms(3,1)]) (simp_all add: withToolChanges_def assms(2))
  qed
  then show ?thesis by (simp add: tool_map_distinct [OF assms(1)] comp_def)
qed

lemma unchanged_tools:
  assumes "distinct (map tool_name tools)" and "getToolStateChanges (map snd t) tools = ([], [])" and "table_ok t"
  shows "set (map snd t) = set tools"
  using changed_tools [OF assms, of m] by (simp add: replay_unchanged)

lemma filter_replaced:
  assumes "i < length ms" and "ms ! i = System m"
  shows "filter (\<lambda>x. \<not> is_system x) (ms[i := System m']) = filter (\<lambda>x. \<not> is_system x) ms"
proof -
  have "ms = take i ms @ System m # drop (Suc i) ms" using id_take_nth_drop [OF assms(1)] assms(2) by simp
  then have "filter (\<lambda>x. \<not> is_system x) ms = filter (\<lambda>x. \<not> is_system x) (take i ms) @ filter (\<lambda>x. \<not> is_system x) (drop (Suc i) ms)"
    by (metis filter.simps(2) filter_append is_system.simps(1))
  then show ?thesis by (simp add: upd_conv_take_nth_drop [OF assms(1)])
qed

lemma update_goes_first:
  assumes "\<forall>x \<in> set ms. \<not> is_system x"
  shows "(case find_index (\<lambda>m. \<not> is_system m) ms of None \<Rightarrow> length ms | Some i \<Rightarrow> i) = 0"
  using assms by (cases ms) auto

text \<open>
  C40: Whatever the transcript, the prompts and the tools, as long as no two tools of the context share a name: after the
  messages that the loop is about to add, with the tool changes it declares in them, the current tools of the transcript
  are exactly the tools of the context, and the messages that are not system messages are the ones it was given.
\<close>
theorem declared_tools_are_current:
  assumes "distinct (map tool_name (map declared_tool (context_tools c)))"
  shows "set (getCurrentTools (context_messages c @ declareToolChanges time c pending)) = set (map declared_tool (context_tools c)) \<and>
    filter (\<lambda>m. \<not> is_system m) (declareToolChanges time c pending) = filter (\<lambda>m. \<not> is_system m) pending"
proof (cases "declared_system pending")
  case None
  let ?tools = "map declared_tool (context_tools c)" and ?t = "current_table (context_messages c) []"
  let ?changes = "getToolStateChanges (map snd ?t) ?tools"
  have none: "\<forall>x \<in> set pending. \<not> is_system x" by (rule declared_system_None [OF None])
  have current: "getCurrentTools (context_messages c @ pending) = map snd ?t"
    by (simp add: getCurrentTools_def current_table_append current_table_no_system [OF none])
  show ?thesis
  proof (cases "?changes = ([], [])")
    case True
    have "declareToolChanges time c pending = pending" unfolding declareToolChanges_def None Let_def by (simp add: current True)
    then show ?thesis using unchanged_tools [OF assms True current_ok] by (simp add: current)
  next
    case False
    let ?m = "withToolChanges \<lparr>system_content = Plain [], sections = [], toolsAdded = [], toolsRemoved = [], system_timestamp = time\<rparr> ?changes"
    have declared: "declareToolChanges time c pending = System ?m # pending"
      unfolding declareToolChanges_def None Let_def by (simp add: current False update_goes_first [OF none])
    have "map snd (current_table (context_messages c @ System ?m # pending) []) = map snd (replay_tools ?m ?t)"
      by (simp add: current_table_append current_table_no_system [OF none])
    then show ?thesis using changed_tools [OF assms refl current_ok] unfolding declared getCurrentTools_def by simp
  qed
next
  case (Some x)
  obtain i m where x: "x = (i, m)" by force
  note found = declared_system_Some [OF Some [unfolded x]]
  let ?tools = "map declared_tool (context_tools c)" and ?t = "current_table (context_messages c @ take i pending) []"
  let ?changes = "getToolStateChanges (map snd ?t) ?tools"
  have current: "getCurrentTools (context_messages c @ pending[i := System (withToolChanges m ([], []))]) = map snd ?t"
    unfolding getCurrentTools_def using found by (simp add: table_replaced replay_unchanged)
  have by_case: "declareToolChanges time c pending =
      (if ?changes = ([], []) \<and> toolsAdded m = [] \<and> toolsRemoved m = [] then pending
       else (pending[i := System (withToolChanges m ([], []))])[i := System (withToolChanges m ?changes)])"
    unfolding declareToolChanges_def Some x Let_def option.case prod.case current ..
  show ?thesis
  proof (cases "?changes = ([], []) \<and> toolsAdded m = [] \<and> toolsRemoved m = []")
    case True
    have declared: "declareToolChanges time c pending = pending" unfolding by_case if_P [OF True] ..
    have m: "withToolChanges m ([], []) = m" by (rule unchanged_message) (use True in simp_all)
    have "pending[i := System (withToolChanges m ([], []))] = pending" by (metis found list_update_id m)
    then have "getCurrentTools (context_messages c @ pending) = map snd ?t" using current by simp
    then show ?thesis using unchanged_tools [OF assms conjunct1 [OF True] current_ok] by (simp add: declared)
  next
    case False
    have declared: "declareToolChanges time c pending = pending[i := System (withToolChanges m ?changes)]"
      unfolding by_case if_not_P [OF False] list_update_overwrite ..
    have "getCurrentTools (context_messages c @ pending[i := System (withToolChanges m ?changes)]) =
        map snd (replay_tools (withToolChanges m ?changes) ?t)"
      unfolding getCurrentTools_def using found by (simp add: table_replaced)
    then show ?thesis using changed_tools [OF assms refl current_ok] filter_replaced [of i pending m] found unfolding declared by simp
  qed
qed

theorem declared_tools_are_current_witness:
  "set (getCurrentTools ([] @ declareToolChanges 5 \<lparr>context_messages = [], context_tools = [example_tool]\<rparr> [example_prompt])) =
    {declared_tool example_tool}"
  using declared_tools_are_current [of "\<lparr>context_messages = [], context_tools = [example_tool]\<rparr>" 5 "[example_prompt]"] by simp

end
