(* ===== verification/Hook_Runtime.thy ===== *)
theory Hook_Runtime imports Json begin

text \<open>
  Declarative hooks (\<open>coding-agent/src/core/hooks\<close>: \<open>types.ts\<close>, \<open>runtime.ts\<close>, \<open>command-handler.ts\<close>,
  \<open>http-handler.ts\<close>): the decision a hook prints, the handlers for commands and HTTP endpoints, and the runtime that asks
  the handlers of an event in order. A handler acts on a world \<open>'w\<close>. \<open>JSON.parse\<close> and \<open>String\<close> are the arguments
  \<open>parse\<close> and \<open>str\<close>. The process of a command is the list of what it does until its timer fires; the timer is always
  the last event, and the first event that settles the outcome decides.
\<close>

section \<open>Types\<close>

datatype hook_event = On_Tool_Call | On_Tool_Result | On_Session_Start | On_Turn_End | On_Before_Compact

fun event_name :: "hook_event \<Rightarrow> string" where
  "event_name On_Tool_Call = ''tool_call''"
| "event_name On_Tool_Result = ''tool_result''"
| "event_name On_Session_Start = ''session_start''"
| "event_name On_Turn_End = ''turn_end''"
| "event_name On_Before_Compact = ''session_before_compact''"

definition HOOK_EVENT_NAMES :: "hook_event list" where
  "HOOK_EVENT_NAMES = [On_Tool_Call, On_Tool_Result, On_Session_Start, On_Turn_End, On_Before_Compact]"

datatype hook_config =
    CommandHook (config_matcher: "string option") (config_command: string) (config_timeout: "jsnum option")
  | HttpHook (config_matcher: "string option") (config_url: string) (config_timeout: "jsnum option")

datatype verdict = HookAllow | HookBlock | HookAsk

record hook_decision =
  verdict :: verdict
  verdict_reason :: "string option"

record hook_payload =
  payload_type :: hook_event
  payload_toolName :: "string option"
  payload_toolCallId :: "string option"
  payload_input :: "json option"
  payload_reason :: "string option"

datatype hook_outcome =
    HookOk (outcome_decision: "hook_decision option") (outcome_warning: "string option")
  | HookFailed (failure_warning: string)

record 'w hook_handler =
  matchesTool :: "(string \<Rightarrow> bool) option"
  hook_execute :: "hook_payload \<Rightarrow> 'w \<Rightarrow> hook_outcome throws \<times> 'w"

definition DEFAULT_HOOK_TIMEOUT_MS :: int where
  "DEFAULT_HOOK_TIMEOUT_MS = 10000"

definition MAX_HOOK_TIMEOUT_MS :: int where
  "MAX_HOOK_TIMEOUT_MS = 60000"

definition timeout_of :: "hook_config \<Rightarrow> jsnum" where
  "timeout_of config = (case config_timeout config of None \<Rightarrow> JInt DEFAULT_HOOK_TIMEOUT_MS | Some t \<Rightarrow> t)"

section \<open>The decision that a hook prints\<close>

definition MAX_HOOK_OUTPUT_CHARS :: nat where
  "MAX_HOOK_OUTPUT_CHARS = 1000000"

definition truncate_ref :: "string \<Rightarrow> string" where
  "truncate_ref t = (if 200 < length t then take 200 t @ ''...'' else t)"

fun verdict_of :: "json \<Rightarrow> verdict option" where
  "verdict_of (JStr t) =
     (if t = ''allow'' then Some HookAllow else if t = ''block'' then Some HookBlock else if t = ''ask'' then Some HookAsk else None)"
| "verdict_of _ = None"

definition reason_of :: "json option \<Rightarrow> string option" where
  "reason_of r = (case r of Some (JStr t) \<Rightarrow> if t = [] then None else Some t | _ \<Rightarrow> None)"

definition parseHookDecisionOutput :: "(string \<Rightarrow> json throws) \<Rightarrow> (json \<Rightarrow> string) \<Rightarrow> string \<Rightarrow> hook_outcome" where
  "parseHookDecisionOutput parse str t =
     (let trimmed = trim t in
      if trimmed = [] then HookOk None None
      else case parse trimmed of
        Inl _ \<Rightarrow> HookOk None (Some (''hook output was not valid JSON: '' @ truncate_ref trimmed))
      | Inr (JObj parsed) \<Rightarrow>
          (case al_get ''decision'' parsed of
             None \<Rightarrow> HookOk None None
           | Some d \<Rightarrow>
               (case verdict_of d of
                  None \<Rightarrow> HookOk None (Some (''hook output had an unknown decision: '' @ truncate_ref (str d)))
                | Some v \<Rightarrow> HookOk (Some \<lparr>verdict = v, verdict_reason = reason_of (al_get ''reason'' parsed)\<rparr>) None))
      | Inr _ \<Rightarrow> HookOk None (Some (''hook output was not a JSON object: '' @ truncate_ref trimmed)))"

section \<open>Commands\<close>

datatype process_event =
    Stdout string
  | Stderr string
  | SpawnFailed string
  | Closed "int option"
  | TimerFired

record hook_process =
  child_stdout :: string
  child_stderr :: string
  settled :: "hook_outcome option"

definition idle_process :: hook_process where
  "idle_process = \<lparr>child_stdout = [], child_stderr = [], settled = None\<rparr>"

definition settle :: "hook_outcome \<Rightarrow> hook_process \<Rightarrow> hook_process" where
  "settle out p = (if settled p = None then p\<lparr>settled := Some out\<rparr> else p)"

definition keep_output :: "string \<Rightarrow> string \<Rightarrow> string" where
  "keep_output kept chunk = (if length kept < MAX_HOOK_OUTPUT_CHARS then kept @ chunk else kept)"

text \<open>The first string that is not empty: the operator \<open>||\<close>.\<close>

fun first_text :: "string list \<Rightarrow> string" where
  "first_text [] = []"
| "first_text (t # ts) = (if t = [] then first_text ts else t)"

definition exit_outcome :: "(string \<Rightarrow> json throws) \<Rightarrow> (json \<Rightarrow> string) \<Rightarrow> hook_config \<Rightarrow> int option \<Rightarrow> hook_process \<Rightarrow> hook_outcome" where
  "exit_outcome parse str config code p =
     (case code of
        None \<Rightarrow> HookFailed (''hook terminated by a signal: '' @ truncate_ref (config_command config))
      | Some c \<Rightarrow>
          if c = 0 then parseHookDecisionOutput parse str (child_stdout p)
          else if c = 2 then HookOk (Some \<lparr>verdict = HookBlock,
            verdict_reason = Some (first_text [trim (child_stderr p), trim (child_stdout p), ''blocked by hook (exit 2)''])\<rparr>) None
          else HookFailed (''hook exited with exit code '' @ str (JNum (JInt c)) @ '': '' @
            first_text [trim (child_stderr p), trim (child_stdout p), truncate_ref (config_command config)]))"

fun process_step :: "(string \<Rightarrow> json throws) \<Rightarrow> (json \<Rightarrow> string) \<Rightarrow> hook_config \<Rightarrow> process_event \<Rightarrow> hook_process \<Rightarrow> hook_process" where
  "process_step parse str config (Stdout chunk) p = p\<lparr>child_stdout := keep_output (child_stdout p) chunk\<rparr>"
| "process_step parse str config (Stderr chunk) p = p\<lparr>child_stderr := keep_output (child_stderr p) chunk\<rparr>"
| "process_step parse str config (SpawnFailed message) p = settle (HookFailed (''hook failed to spawn: '' @ message)) p"
| "process_step parse str config (Closed code) p = settle (exit_outcome parse str config code p) p"
| "process_step parse str config TimerFired p =
     settle (HookFailed (''hook timed out after '' @ str (JNum (timeout_of config)) @ ''ms: '' @ truncate_ref (config_command config))) p"

definition run_process :: "(string \<Rightarrow> json throws) \<Rightarrow> (json \<Rightarrow> string) \<Rightarrow> hook_config \<Rightarrow> process_event list \<Rightarrow> hook_process" where
  "run_process parse str config evs = fold (process_step parse str config) (evs @ [TimerFired]) idle_process"

definition commandHookHandler ::
  "(string \<Rightarrow> json throws) \<Rightarrow> (json \<Rightarrow> string) \<Rightarrow> (string \<Rightarrow> hook_payload \<Rightarrow> 'w \<Rightarrow> process_event list throws \<times> 'w) \<Rightarrow>
   hook_config \<Rightarrow> 'w hook_handler" where
  "commandHookHandler parse str spawn config = \<lparr>matchesTool = None, hook_execute = (\<lambda>payload w.
     case spawn (config_command config) payload w of
       (Inl e, w') \<Rightarrow> (Inl e, w')
     | (Inr evs, w') \<Rightarrow> (Inr (the (settled (run_process parse str config evs))), w'))\<rparr>"

section \<open>HTTP endpoints\<close>

datatype http_reply = Replied nat "string throws" | RequestFailed string

definition lower_char :: "char \<Rightarrow> char" where
  "lower_char c = (if of_char c \<in> {65..90 :: nat} then char_of (of_char c + 32 :: nat) else c)"

definition timed_out_text :: "string \<Rightarrow> bool" where
  "timed_out_text message \<longleftrightarrow>
     (\<exists>p \<in> set [''timeout'', ''timed out'', ''abort'']. string_includes (map lower_char message) p)"

definition request_failure :: "(json \<Rightarrow> string) \<Rightarrow> hook_config \<Rightarrow> string \<Rightarrow> hook_outcome" where
  "request_failure str config message =
     (if timed_out_text message then HookFailed (''hook timed out after '' @ str (JNum (timeout_of config)) @ ''ms'')
      else HookFailed (''hook request failed: '' @ message))"

definition reply_outcome :: "(string \<Rightarrow> json throws) \<Rightarrow> (json \<Rightarrow> string) \<Rightarrow> hook_config \<Rightarrow> http_reply \<Rightarrow> hook_outcome" where
  "reply_outcome parse str config reply =
     (case reply of
        RequestFailed message \<Rightarrow> request_failure str config message
      | Replied status body \<Rightarrow>
          if \<not> (200 \<le> status \<and> status \<le> 299) then HookFailed (''hook endpoint returned HTTP '' @ show_nat status)
          else (case body of
            Inl message \<Rightarrow> request_failure str config message
          | Inr t \<Rightarrow> parseHookDecisionOutput parse str t))"

definition httpHookHandler ::
  "(string \<Rightarrow> json throws) \<Rightarrow> (json \<Rightarrow> string) \<Rightarrow> (string \<Rightarrow> hook_payload \<Rightarrow> 'w \<Rightarrow> http_reply \<times> 'w) \<Rightarrow> hook_config \<Rightarrow> 'w hook_handler" where
  "httpHookHandler parse str fetch config = \<lparr>matchesTool = None, hook_execute = (\<lambda>payload w.
     case fetch (config_url config) payload w of (reply, w') \<Rightarrow> (Inr (reply_outcome parse str config reply), w'))\<rparr>"

section \<open>The runtime\<close>

definition accepted :: "'w hook_handler \<Rightarrow> string option \<Rightarrow> bool" where
  "accepted handler tool \<longleftrightarrow>
     (case matchesTool handler of None \<Rightarrow> True | Some f \<Rightarrow> (case tool of None \<Rightarrow> True | Some n \<Rightarrow> f n))"

type_synonym 'w hook_runtime = "(hook_event \<times> 'w hook_handler list) list"

definition add_entry :: "hook_event \<times> 'w hook_handler \<Rightarrow> 'w hook_runtime \<Rightarrow> 'w hook_runtime" where
  "add_entry entry byEvent =
     (case al_get (fst entry) byEvent of
        Some handlers \<Rightarrow> al_set (fst entry) (handlers @ [snd entry]) byEvent
      | None \<Rightarrow> al_set (fst entry) [snd entry] byEvent)"

definition createHookRuntime :: "(hook_event \<times> 'w hook_handler) list \<Rightarrow> 'w hook_runtime" where
  "createHookRuntime entries = fold add_entry entries []"

definition handlersFor :: "'w hook_runtime \<Rightarrow> hook_event \<Rightarrow> 'w hook_handler list" where
  "handlersFor byEvent ev = (case al_get ev byEvent of None \<Rightarrow> [] | Some handlers \<Rightarrow> handlers)"

definition hasHandlers :: "'w hook_runtime \<Rightarrow> hook_event \<Rightarrow> bool" where
  "hasHandlers byEvent ev \<longleftrightarrow> 0 < length (handlersFor byEvent ev)"

text \<open>The reason why an outcome blocks a call, if it does.\<close>

definition outcome_block :: "hook_outcome \<Rightarrow> string option" where
  "outcome_block out =
     (case out of
        HookFailed warning \<Rightarrow> Some warning
      | HookOk None _ \<Rightarrow> None
      | HookOk (Some d) _ \<Rightarrow>
          if verdict d = HookBlock
          then Some (case verdict_reason d of None \<Rightarrow> ''blocked by a declarative hook'' | Some r \<Rightarrow> r)
          else None)"

fun decide_handlers :: "'w hook_handler list \<Rightarrow> string \<Rightarrow> hook_payload \<Rightarrow> 'w \<Rightarrow> string option throws \<times> 'w" where
  "decide_handlers [] tool payload w = (Inr None, w)"
| "decide_handlers (h # hs) tool payload w =
     (if \<not> accepted h (Some tool) then decide_handlers hs tool payload w
      else case hook_execute h payload w of
        (Inl e, w') \<Rightarrow> (Inl e, w')
      | (Inr out, w') \<Rightarrow>
          (case outcome_block out of
             Some reason \<Rightarrow> (Inr (Some reason), w')
           | None \<Rightarrow> decide_handlers hs tool payload w'))"

definition decideToolCall :: "'w hook_runtime \<Rightarrow> string \<Rightarrow> hook_payload \<Rightarrow> 'w \<Rightarrow> string option throws \<times> 'w" where
  "decideToolCall byEvent tool payload = decide_handlers (handlersFor byEvent On_Tool_Call) tool payload"

fun observe_handlers :: "'w hook_handler list \<Rightarrow> hook_payload \<Rightarrow> 'w \<Rightarrow> unit throws \<times> 'w" where
  "observe_handlers [] payload w = (Inr (), w)"
| "observe_handlers (h # hs) payload w =
     (if \<not> accepted h (payload_toolName payload) then observe_handlers hs payload w
      else case hook_execute h payload w of
        (Inl e, w') \<Rightarrow> (Inl e, w')
      | (Inr _, w') \<Rightarrow> observe_handlers hs payload w')"

definition emitObserve :: "'w hook_runtime \<Rightarrow> hook_event \<Rightarrow> hook_payload \<Rightarrow> 'w \<Rightarrow> unit throws \<times> 'w" where
  "emitObserve byEvent ev payload = observe_handlers (handlersFor byEvent ev) payload"

end
