(* ===== verification/Hook_Config.thy ===== *)
theory Hook_Config imports Hook_Runtime begin

text \<open>
  The loader of the declarative hooks (\<open>core/hooks/loader.ts\<close>): the matcher grammar, the strict validation of the
  \<open>hooks\<close> settings, and the assembly of the runtime. \<open>protocol\<close> stands for \<open>URL.canParse\<close> and the protocol of
  the parsed URL. The fields of a settings object are its own properties in their order.
\<close>

section \<open>Matchers\<close>

text \<open>\<open>split\<close> at every \<open>|\<close> and every comma.\<close>

fun split_names :: "string \<Rightarrow> string \<Rightarrow> string list" where
  "split_names acc [] = [rev acc]"
| "split_names acc (c # cs) =
     (if c = CHR ''|'' \<or> c = CHR '','' then rev acc # split_names [] cs else split_names (c # acc) cs)"

definition name_char :: "char \<Rightarrow> bool" where
  "name_char c \<longleftrightarrow> of_char c \<in> {65..90 :: nat} \<union> {97..122} \<union> {48..57} \<or> c = CHR ''_'' \<or> c = CHR ''-''"

definition tool_name_ok :: "string \<Rightarrow> bool" where
  "tool_name_ok n \<longleftrightarrow> n \<noteq> [] \<and> list_all name_char n"

definition matcher_names :: "string \<Rightarrow> string list" where
  "matcher_names matcher = filter (\<lambda>n. n \<noteq> []) (map trim (split_names [] matcher))"

definition parseMatcher :: "string \<Rightarrow> (string \<Rightarrow> bool) throws" where
  "parseMatcher matcher =
     (let names = matcher_names matcher in
      if names = [] \<or> \<not> list_all tool_name_ok names
      then Inl (''invalid matcher \"'' @ matcher @ ''\" (expected exact tool names joined by \"|\" or \",\")'')
      else Inr (\<lambda>tool. tool \<in> set names))"

section \<open>Settings\<close>

definition config_path :: "hook_event \<Rightarrow> nat \<Rightarrow> string" where
  "config_path ev index = ''hooks.'' @ event_name ev @ ''['' @ show_nat index @ '']''"

text \<open>A positive number up to the cap; the bits of a positive binary64 are ordered as the numbers are.\<close>

fun timeout_ok :: "jsnum \<Rightarrow> bool" where
  "timeout_ok (JInt i) \<longleftrightarrow> 0 < i \<and> i \<le> MAX_HOOK_TIMEOUT_MS"
| "timeout_ok (JFrac w) \<longleftrightarrow> num_is_finite (JFrac w) \<and> \<not> bit w 63 \<and> w \<le> 0x40ED4C0000000000"

definition check_fields :: "string \<Rightarrow> string list \<Rightarrow> (string \<times> json) list \<Rightarrow> unit throws" where
  "check_fields path allowed props =
     (case find (\<lambda>k. k \<notin> set allowed) (map fst props) of
        Some k \<Rightarrow> Inl (path @ '': unknown field \"'' @ k @ ''\" (a mistyped key would silently drop policy)'')
      | None \<Rightarrow> Inr ())"

definition matcher_field :: "string \<Rightarrow> (string \<times> json) list \<Rightarrow> string option throws" where
  "matcher_field path props =
     (case al_get ''matcher'' props of
        None \<Rightarrow> Inr None
      | Some (JStr matcher) \<Rightarrow> bind_throws (parseMatcher matcher) (\<lambda>_. Inr (Some matcher))
      | Some _ \<Rightarrow> Inl (path @ '': \"matcher\" must be a string''))"

definition timeout_field :: "string \<Rightarrow> (string \<times> json) list \<Rightarrow> jsnum option throws" where
  "timeout_field path props =
     (let refused = Inl (path @ '': \"timeoutMs\" must be a number between 1 and 60000'') in
      case al_get ''timeoutMs'' props of
        None \<Rightarrow> Inr None
      | Some (JNum n) \<Rightarrow> if timeout_ok n then Inr (Some n) else refused
      | Some _ \<Rightarrow> refused)"

definition command_field :: "string \<Rightarrow> (string \<times> json) list \<Rightarrow> string throws" where
  "command_field path props =
     (let refused = Inl (path @ '': \"command\" must be a non-empty string'') in
      case al_get ''command'' props of
        Some (JStr command) \<Rightarrow> if trim command = [] then refused else Inr command
      | _ \<Rightarrow> refused)"

definition url_field :: "(string \<Rightarrow> string option) \<Rightarrow> string \<Rightarrow> (string \<times> json) list \<Rightarrow> string throws" where
  "url_field protocol path props =
     (let refused = Inl (path @ '': \"url\" must be an http(s) URL'') in
      case al_get ''url'' props of
        Some (JStr url) \<Rightarrow> if protocol url = Some ''http:'' \<or> protocol url = Some ''https:'' then Inr url else refused
      | _ \<Rightarrow> refused)"

definition parseHandlerConfig :: "(string \<Rightarrow> string option) \<Rightarrow> hook_event \<Rightarrow> nat \<Rightarrow> json \<Rightarrow> hook_config throws" where
  "parseHandlerConfig protocol ev index raw =
     (let path = config_path ev index in
      case raw of
        JObj props \<Rightarrow>
          (let kind = al_get ''type'' props in
           if kind \<noteq> Some (JStr ''command'') \<and> kind \<noteq> Some (JStr ''http'')
           then Inl (path @ '': \"type\" must be \"command\" or \"http\"'')
           else
             (let is_command = (kind = Some (JStr ''command'')) in
              bind_throws (check_fields path (if is_command then [''type'', ''matcher'', ''command'', ''timeoutMs'']
                else [''type'', ''matcher'', ''url'', ''timeoutMs'']) props) (\<lambda>_.
              bind_throws (matcher_field path props) (\<lambda>matcher.
              bind_throws (timeout_field path props) (\<lambda>timeout.
                if is_command
                then bind_throws (command_field path props) (\<lambda>command. Inr (CommandHook matcher command timeout))
                else bind_throws (url_field protocol path props) (\<lambda>url. Inr (HttpHook matcher url timeout)))))))
      | _ \<Rightarrow> Inl (path @ '': expected an object''))"

fun parse_configs :: "(string \<Rightarrow> string option) \<Rightarrow> hook_event \<Rightarrow> nat \<Rightarrow> json list \<Rightarrow> hook_config list throws" where
  "parse_configs protocol ev index [] = Inr []"
| "parse_configs protocol ev index (raw # raws) =
     bind_throws (parseHandlerConfig protocol ev index raw) (\<lambda>config.
     bind_throws (parse_configs protocol ev (Suc index) raws) (\<lambda>configs. Inr (config # configs)))"

type_synonym hooks_settings = "(hook_event \<times> hook_config list) list"

definition event_of_name :: "string \<Rightarrow> hook_event option" where
  "event_of_name key = find (\<lambda>ev. event_name ev = key) HOOK_EVENT_NAMES"

definition parse_event :: "(string \<Rightarrow> string option) \<Rightarrow> string \<times> json \<Rightarrow> hooks_settings \<Rightarrow> hooks_settings throws" where
  "parse_event protocol entry parsed =
     (case event_of_name (fst entry) of
        None \<Rightarrow> Inl (''hooks.\"'' @ fst entry @ ''\": unknown hook event (v1 supports '' @
          join '', '' (map event_name HOOK_EVENT_NAMES) @ '')'')
      | Some ev \<Rightarrow>
          (case snd entry of
             JArr raws \<Rightarrow> bind_throws (parse_configs protocol ev 0 raws) (\<lambda>configs. Inr (al_set ev configs parsed))
           | _ \<Rightarrow> Inl (''hooks.'' @ event_name ev @ '': expected an array of handler configs'')))"

definition parseHookSettings :: "(string \<Rightarrow> string option) \<Rightarrow> json \<Rightarrow> hooks_settings throws" where
  "parseHookSettings protocol raw =
     (case raw of
        JObj entries \<Rightarrow> fold_throws (parse_event protocol) entries []
      | _ \<Rightarrow> Inl ''hooks: expected an object keyed by event name'')"

section \<open>The runtime of the settings\<close>

type_synonym 'w handler_factory = "hook_config \<Rightarrow> hook_event \<Rightarrow> 'w hook_handler"

definition defaultHookHandlerFactory ::
  "(hook_config \<Rightarrow> 'w hook_handler) \<Rightarrow> (hook_config \<Rightarrow> 'w hook_handler) \<Rightarrow> 'w handler_factory" where
  "defaultHookHandlerFactory command http config ev =
     (case config of CommandHook _ _ _ \<Rightarrow> command config | HttpHook _ _ _ \<Rightarrow> http config)"

definition with_matcher :: "hook_config \<Rightarrow> 'w hook_handler \<Rightarrow> 'w hook_handler throws" where
  "with_matcher config handler =
     (case config_matcher config of
        None \<Rightarrow> Inr handler
      | Some matcher \<Rightarrow>
          if matcher = [] then Inr handler
          else bind_throws (parseMatcher matcher) (\<lambda>f. Inr (handler\<lparr>matchesTool := Some f\<rparr>)))"

fun load_configs :: "'w handler_factory \<Rightarrow> hook_event \<Rightarrow> hook_config list \<Rightarrow> (hook_event \<times> 'w hook_handler) list throws" where
  "load_configs create ev [] = Inr []"
| "load_configs create ev (config # configs) =
     bind_throws (with_matcher config (create config ev)) (\<lambda>handler.
     bind_throws (load_configs create ev configs) (\<lambda>entries. Inr ((ev, handler) # entries)))"

fun load_events :: "'w handler_factory \<Rightarrow> hooks_settings \<Rightarrow> hook_event list \<Rightarrow> (hook_event \<times> 'w hook_handler) list throws" where
  "load_events create settings [] = Inr []"
| "load_events create settings (ev # evs) =
     bind_throws (case al_get ev settings of None \<Rightarrow> Inr [] | Some configs \<Rightarrow> load_configs create ev configs) (\<lambda>here.
     bind_throws (load_events create settings evs) (\<lambda>entries. Inr (here @ entries)))"

definition loadHookRuntime :: "'w handler_factory \<Rightarrow> hooks_settings option \<Rightarrow> 'w hook_runtime option throws" where
  "loadHookRuntime create settings =
     (case settings of
        None \<Rightarrow> Inr None
      | Some settings \<Rightarrow>
          bind_throws (load_events create settings HOOK_EVENT_NAMES) (\<lambda>entries.
            Inr (if entries = [] then None else Some (createHookRuntime entries))))"

end
