(* ===== verification/Tool_Session.thy ===== *)
theory Tool_Session imports Perm_Gate Hook_Config Agent_Loop begin

text \<open>
  The tool hooks that a coding session installs on its agent (\<open>core/agent-session.ts\<close>, \<open>_installAgentToolHooks\<close>), with
  the part of the extension runner they call (\<open>core/extensions/runner.ts\<close>): before a call, the extensions, the
  declarative hooks and the permission gate; after it, the evidence of the contract, the extensions and the observers.
  Extensions, hooks and the host act on the world of the session. What the session looks up when a call comes, its
  extensions, contracts and responders, is a function of that world. A thrown value is the message of its error.
\<close>

section \<open>The world of a session\<close>

record ('s, 'o) session_world =
  store_state :: 's
  prepared_calls :: "json prepared_operations"
  last_failure :: "(string \<times> jsnum) option"
  outside :: 'o

text \<open>A handler of \<open>tool_call\<close> may change the input in place: it returns what the input is afterwards.\<close>

type_synonym 'w call_handler = "string \<Rightarrow> string \<Rightarrow> json \<Rightarrow> 'w \<Rightarrow> (before_result option \<times> json) throws \<times> 'w"

record result_event =
  event_content :: "block list option"
  event_details :: "json option"
  event_isError :: bool
  event_usage :: "json option"

record result_patch =
  patch_content :: "block list option"
  patch_details :: "json option"
  patch_isError :: "bool option"
  patch_usage :: "json option"

type_synonym 'w result_handler = "string \<Rightarrow> string \<Rightarrow> json \<Rightarrow> result_event \<Rightarrow> 'w \<Rightarrow> result_patch option throws \<times> 'w"

record 'w extension =
  on_tool_call :: "'w call_handler list"
  on_tool_result :: "'w result_handler list"

record ('e, 'w) evidence_sink =
  sink_record :: "string \<Rightarrow> 'e list \<Rightarrow> 'w \<Rightarrow> unit throws \<times> 'w"
  sink_diagnostic :: "string \<Rightarrow> string \<Rightarrow> 'w \<Rightarrow> 'w"

record ('e, 's, 'o) tool_session =
  extensions_of :: "('s, 'o) session_world \<Rightarrow> ('s, 'o) session_world extension list"
  emit_error :: "string \<Rightarrow> ('s, 'o) session_world \<Rightarrow> ('s, 'o) session_world"
  hook_runtime :: "('s, 'o) session_world hook_runtime option"
  permission_gate :: "(json, tool_outcome, 'e, 's) gate_options option"
  contract_of :: "('s, 'o) session_world \<Rightarrow> string \<Rightarrow> (json, tool_outcome, 'e) tool_contract option"
  responder_of :: "('s, 'o) session_world \<Rightarrow> permission_responder option"
  tui_of :: "('s, 'o) session_world \<Rightarrow> select_ui option"
  sink :: "('e, ('s, 'o) session_world) evidence_sink option"
  kind_of :: "'e \<Rightarrow> evidence_kind"
  normalize_images :: "block list \<Rightarrow> ('s, 'o) session_world \<Rightarrow> block list option throws \<times> ('s, 'o) session_world"
  compare_locale :: "string \<Rightarrow> string \<Rightarrow> int"
  js_stringify :: "json \<Rightarrow> string"
  js_string :: "json \<Rightarrow> string"

section \<open>Extensions\<close>

text \<open>The last result that a handler returns; a blocking one ends the round.\<close>

fun emit_call_handlers :: "'w call_handler list \<Rightarrow> tool_call \<Rightarrow> before_result option \<Rightarrow> json \<Rightarrow> 'w \<Rightarrow> (before_result option \<times> json) throws \<times> 'w" where
  "emit_call_handlers [] c result args w = (Inr (result, args), w)"
| "emit_call_handlers (h # hs) c result args w =
     (case h (call_name c) (call_id c) args w of
        (Inl e, w') \<Rightarrow> (Inl e, w')
      | (Inr (None, args'), w') \<Rightarrow> emit_call_handlers hs c result args' w'
      | (Inr (Some r, args'), w') \<Rightarrow>
          if before_block r then (Inr (Some r, args'), w') else emit_call_handlers hs c (Some r) args' w')"

definition emitToolCall :: "'w extension list \<Rightarrow> tool_call \<Rightarrow> json \<Rightarrow> 'w \<Rightarrow> (before_result option \<times> json) throws \<times> 'w" where
  "emitToolCall exts c args w = emit_call_handlers (concat (map on_tool_call exts)) c None args w"

definition call_handlers_present :: "'w extension list \<Rightarrow> bool" where
  "call_handlers_present exts \<longleftrightarrow> (\<exists>ext \<in> set exts. 0 < length (on_tool_call ext))"

definition result_handlers_present :: "'w extension list \<Rightarrow> bool" where
  "result_handlers_present exts \<longleftrightarrow> (\<exists>ext \<in> set exts. 0 < length (on_tool_result ext))"

definition patch_event :: "result_patch \<Rightarrow> result_event \<Rightarrow> result_event" where
  "patch_event p ev =
     \<lparr>event_content = or_else (patch_content p) (event_content ev), event_details = or_else (patch_details p) (event_details ev),
      event_isError = (case patch_isError p of None \<Rightarrow> event_isError ev | Some e \<Rightarrow> e),
      event_usage = or_else (patch_usage p) (event_usage ev)\<rparr>"

definition patch_modifies :: "result_patch \<Rightarrow> bool" where
  "patch_modifies p \<longleftrightarrow> patch_content p \<noteq> None \<or> patch_details p \<noteq> None \<or> patch_isError p \<noteq> None \<or> patch_usage p \<noteq> None"

text \<open>A handler that throws is reported and skipped.\<close>

fun emit_result_handlers ::
  "(string \<Rightarrow> 'w \<Rightarrow> 'w) \<Rightarrow> 'w result_handler list \<Rightarrow> tool_call \<Rightarrow> json \<Rightarrow> result_event \<Rightarrow> bool \<Rightarrow> 'w \<Rightarrow> (result_event \<times> bool) \<times> 'w" where
  "emit_result_handlers err [] c args ev modified w = ((ev, modified), w)"
| "emit_result_handlers err (h # hs) c args ev modified w =
     (case h (call_name c) (call_id c) args ev w of
        (Inl e, w') \<Rightarrow> emit_result_handlers err hs c args ev modified (err e w')
      | (Inr None, w') \<Rightarrow> emit_result_handlers err hs c args ev modified w'
      | (Inr (Some p), w') \<Rightarrow> emit_result_handlers err hs c args (patch_event p ev) (modified \<or> patch_modifies p) w')"

definition emitToolResult :: "(string \<Rightarrow> 'w \<Rightarrow> 'w) \<Rightarrow> 'w extension list \<Rightarrow> tool_call \<Rightarrow> json \<Rightarrow> result_event \<Rightarrow> 'w \<Rightarrow> result_event option \<times> 'w" where
  "emitToolResult err exts c args ev w =
     (case emit_result_handlers err (concat (map on_tool_result exts)) c args ev False w of
        ((ev', modified), w') \<Rightarrow> (if modified then Some ev' else None, w'))"

section \<open>Before a call\<close>

definition hook_payload_of :: "hook_event \<Rightarrow> string \<Rightarrow> string \<Rightarrow> json \<Rightarrow> hook_payload" where
  "hook_payload_of ev tool i args = \<lparr>payload_type = ev, payload_toolName = Some tool, payload_toolCallId = Some i,
     payload_input = Some args, payload_reason = None\<rparr>"

definition blocking :: "string option \<Rightarrow> before_result" where
  "blocking why = \<lparr>before_block = True, before_reason = why, before_terminate = False\<rparr>"

text \<open>The options of the gate for this call: contracts and the responder are those of the session now.\<close>

definition session_gate ::
  "('e, 's, 'o) tool_session \<Rightarrow> (json, tool_outcome, 'e, 's) gate_options \<Rightarrow> ('s, 'o) session_world \<Rightarrow> (json, tool_outcome, 'e, 's) gate_options" where
  "session_gate ses gate w = gate\<lparr>getContract := contract_of ses w,
     getResponder := Some (or_else (responder_of ses w) (map_option createInteractiveResponder (tui_of ses w)))\<rparr>"

definition gate_step ::
  "('e, 's, 'o) tool_session \<Rightarrow> tool_call \<Rightarrow> json \<Rightarrow> ('s, 'o) session_world \<Rightarrow> before_result option throws \<times> ('s, 'o) session_world" where
  "gate_step ses c args w =
     (case permission_gate ses of
        None \<Rightarrow> (Inr None, w)
      | Some gate \<Rightarrow>
          (case evaluateToolCall (compare_locale ses) (js_stringify ses) (call_name c) args (session_gate ses gate w)
              (store_state w, prepared_calls w) of
             (r, s, prep) \<Rightarrow>
               (bind_throws r (\<lambda>d. Inr (if blocked d then Some (blocking (reason d)) else None)),
                w\<lparr>store_state := s, prepared_calls := prep\<rparr>)))"

definition hooks_step ::
  "('e, 's, 'o) tool_session \<Rightarrow> tool_call \<Rightarrow> json \<Rightarrow> ('s, 'o) session_world \<Rightarrow> before_result option throws \<times> ('s, 'o) session_world" where
  "hooks_step ses c args w =
     (case hook_runtime ses of
        None \<Rightarrow> (Inr None, w)
      | Some runtime \<Rightarrow>
          if hasHandlers runtime On_Tool_Call
          then (case decideToolCall runtime (call_name c) (hook_payload_of On_Tool_Call (call_name c) (call_id c) args) w of
                  (r, w') \<Rightarrow> (bind_throws r (\<lambda>why. Inr (map_option (\<lambda>t. blocking (Some t)) why)), w'))
          else (Inr None, w))"

definition extensions_step ::
  "('e, 's, 'o) tool_session \<Rightarrow> tool_call \<Rightarrow> json \<Rightarrow> ('s, 'o) session_world \<Rightarrow> (before_result option \<times> json) throws \<times> ('s, 'o) session_world" where
  "extensions_step ses c args w =
     (if call_handlers_present (extensions_of ses w)
      then (case emitToolCall (extensions_of ses w) c args w of
              (r, w') \<Rightarrow> (bind_throws r (\<lambda>(result, args'). Inr (case result of
                 Some b \<Rightarrow> if before_block b then Some b else None | None \<Rightarrow> None, args')), w'))
      else (Inr (None, args), w))"

definition session_beforeToolCall ::
  "('e, 's, 'o) tool_session \<Rightarrow> assistant_message \<Rightarrow> tool_call \<Rightarrow> json \<Rightarrow> agent_context \<Rightarrow> ('s, 'o) session_world \<Rightarrow>
   (before_result option \<times> json) throws \<times> ('s, 'o) session_world" where
  "session_beforeToolCall ses a c args context w =
     (case extensions_step ses c args w of
        (Inl e, w1) \<Rightarrow> (Inl e, w1)
      | (Inr (Some b, args1), w1) \<Rightarrow> (Inr (Some b, args1), w1)
      | (Inr (None, args1), w1) \<Rightarrow>
          (case hooks_step ses c args1 w1 of
             (Inl e, w2) \<Rightarrow> (Inl e, w2)
           | (Inr (Some b), w2) \<Rightarrow> (Inr (Some b, args1), w2)
           | (Inr None, w2) \<Rightarrow>
               (case gate_step ses c args1 w2 of
                  (Inl e, w3) \<Rightarrow> (Inl e, w3)
                | (Inr b, w3) \<Rightarrow> (Inr (b, args1), w3))))"

section \<open>After a call\<close>

definition property :: "string \<Rightarrow> json option \<Rightarrow> json option" where
  "property k v = (case v of Some (JObj props) \<Rightarrow> al_get k props | _ \<Rightarrow> None)"

text \<open>The operator \<open>??\<close>: the second value when the first is null or undefined.\<close>

definition if_nullish :: "json option \<Rightarrow> json option \<Rightarrow> json option" where
  "if_nullish v other = (case v of None \<Rightarrow> other | Some JNull \<Rightarrow> other | Some x \<Rightarrow> Some x)"

definition exit_code :: "json option \<Rightarrow> jsnum option" where
  "exit_code details =
     (case if_nullish (property ''exitCode'' (property ''execution'' details)) (property ''exitCode'' details) of
        Some (JNum n) \<Rightarrow> if num_zero n then None else Some n
      | _ \<Rightarrow> None)"

definition failed_command :: "(json \<Rightarrow> string) \<Rightarrow> string \<Rightarrow> json \<Rightarrow> string" where
  "failed_command str tool args =
     (if tool = ''test''
      then trim ((case if_nullish (property ''executable'' (Some args)) None of None \<Rightarrow> ''test'' | Some v \<Rightarrow> str v) @ '' '' @
        (case property ''args'' (Some args) of
           Some (JArr xs) \<Rightarrow> join '' '' (map (\<lambda>x. case x of JNull \<Rightarrow> [] | _ \<Rightarrow> str x) xs)
         | _ \<Rightarrow> []))
      else (case if_nullish (property ''command'' (Some args)) None of None \<Rightarrow> tool | Some v \<Rightarrow> str v))"

definition rememberFailure :: "(json \<Rightarrow> string) \<Rightarrow> string \<Rightarrow> json \<Rightarrow> tool_outcome \<Rightarrow> ('s, 'o) session_world \<Rightarrow> ('s, 'o) session_world" where
  "rememberFailure str tool args result w =
     (if tool \<notin> {''bash'', ''test'', ''powershell''} then w
      else case exit_code (outcome_details result) of
        None \<Rightarrow> w
      | Some code \<Rightarrow> w\<lparr>last_failure := Some (take 200 (failed_command str tool args), code)\<rparr>)"

definition capture_evidence ::
  "('e, 's, 'o) tool_session \<Rightarrow> string \<Rightarrow> json \<Rightarrow> tool_outcome \<Rightarrow> ('s, 'o) session_world \<Rightarrow> ('s, 'o) session_world" where
  "capture_evidence ses tool args result w =
     (case (sink ses, contract_of ses w tool) of
        (Some to, Some contract) \<Rightarrow>
          (let records = capture (evidence contract) args result;
               stored =
                 (if \<not> list_all (\<lambda>r. kind_of ses r \<in> emits (evidence contract)) records
                  then (Inl ''Evidence capture emitted a kind not declared by its tool contract'', w)
                  else if records \<noteq> [] then sink_record to tool records w
                  else (Inr (), w)) in
           case stored of
             (Inr _, w') \<Rightarrow> w'
           | (Inl e, w') \<Rightarrow> sink_diagnostic to tool e w')
      | _ \<Rightarrow> w)"

definition observe_step ::
  "('e, 's, 'o) tool_session \<Rightarrow> tool_call \<Rightarrow> json \<Rightarrow> ('s, 'o) session_world \<Rightarrow> unit throws \<times> ('s, 'o) session_world" where
  "observe_step ses c args w =
     (case hook_runtime ses of
        None \<Rightarrow> (Inr (), w)
      | Some runtime \<Rightarrow>
          if hasHandlers runtime On_Tool_Result
          then emitObserve runtime On_Tool_Result (hook_payload_of On_Tool_Result (call_name c) (call_id c) args) w
          else (Inr (), w))"

definition session_afterToolCall ::
  "('e, 's, 'o) tool_session \<Rightarrow> assistant_message \<Rightarrow> tool_call \<Rightarrow> json \<Rightarrow> tool_outcome \<Rightarrow> bool \<Rightarrow> agent_context \<Rightarrow> ('s, 'o) session_world \<Rightarrow>
   after_result option throws \<times> ('s, 'o) session_world" where
  "session_afterToolCall ses a c args result failed context w =
     (let w1 = capture_evidence ses (call_name c) args result (rememberFailure (js_string ses) (call_name c) args result w);
          (hooked, w2) =
            (if result_handlers_present (extensions_of ses w1)
             then emitToolResult (emit_error ses) (extensions_of ses w1) c args
               \<lparr>event_content = outcome_content result, event_details = outcome_details result, event_isError = failed,
                event_usage = outcome_usage result\<rparr> w1
             else (None, w1)) in
      case observe_step ses c args w2 of
        (Inl e, w3) \<Rightarrow> (Inl e, w3)
      | (Inr _, w3) \<Rightarrow>
          (let content = (case or_else (case hooked of None \<Rightarrow> None | Some ev \<Rightarrow> event_content ev) (outcome_content result) of
                 None \<Rightarrow> [] | Some bs \<Rightarrow> bs) in
           case normalize_images ses content w3 of
             (Inl e, w4) \<Rightarrow> (Inl e, w4)
           | (Inr normalized, w4) \<Rightarrow>
               (if hooked = None \<and> normalized = None then (Inr None, w4)
                else (Inr (Some \<lparr>after_content = Some (case normalized of None \<Rightarrow> content | Some bs \<Rightarrow> bs),
                  after_details = (case hooked of None \<Rightarrow> None | Some ev \<Rightarrow> event_details ev),
                  after_usage = (case hooked of None \<Rightarrow> None | Some ev \<Rightarrow> event_usage ev),
                  after_isError = Some (case hooked of None \<Rightarrow> failed | Some ev \<Rightarrow> event_isError ev),
                  after_terminate = None\<rparr>), w4))))"

end
