(* ===== verification/Hook_Props.thy ===== *)
theory Hook_Props imports Hook_Config begin

text \<open>
  What the declarative hooks guarantee: the runtime holds the handlers of an event in order, a call passes only handlers
  that ran and did not block, a command lets a call pass only by ending with code 0 in time, and settings that load turn
  every entry into a handler.
\<close>

section \<open>The runtime\<close>

lemma handlersFor_add: "handlersFor (add_entry entry m) ev = handlersFor m ev @ (if fst entry = ev then [snd entry] else [])"
  by (auto simp: handlersFor_def add_entry_def split: option.split)

lemma handlersFor_create: "handlersFor (createHookRuntime entries) ev = map snd (filter (\<lambda>entry. fst entry = ev) entries)"
proof -
  have "handlersFor (fold add_entry entries m) ev = handlersFor m ev @ map snd (filter (\<lambda>entry. fst entry = ev) entries)" for m
    by (induction entries arbitrary: m) (simp_all add: handlersFor_add)
  then show ?thesis by (simp add: createHookRuntime_def handlersFor_def)
qed

text \<open>The handler ran on the payload, in some world, and its outcome does not block.\<close>

definition let_pass :: "'w hook_handler \<Rightarrow> hook_payload \<Rightarrow> bool" where
  "let_pass h payload \<longleftrightarrow> (\<exists>w out w'. hook_execute h payload w = (Inr out, w') \<and> outcome_block out = None)"

lemma decide_handlers_pass:
  "decide_handlers hs tool payload w = (Inr None, w') \<Longrightarrow> h \<in> set hs \<Longrightarrow> accepted h (Some tool) \<Longrightarrow> let_pass h payload"
proof (induction hs arbitrary: w)
  case (Cons g hs)
  show ?case
  proof (cases "accepted g (Some tool)")
    case False
    then show ?thesis using Cons by (auto split: if_splits)
  next
    case True
    then obtain out w1 where g: "hook_execute g payload w = (Inr out, w1)" "outcome_block out = None"
      "decide_handlers hs tool payload w1 = (Inr None, w')"
      using Cons.prems(1) by (auto split: prod.splits sum.splits option.splits)
    then have "let_pass g payload" unfolding let_pass_def by blast
    then show ?thesis using Cons.IH [OF g(3)] Cons.prems(2,3) by auto
  qed
qed simp

section \<open>The process of a command\<close>

fun settles :: "process_event \<Rightarrow> bool" where
  "settles (Stdout _) = False"
| "settles (Stderr _) = False"
| "settles _ = True"

fun stdout_chunks :: "process_event list \<Rightarrow> string list" where
  "stdout_chunks [] = []"
| "stdout_chunks (Stdout chunk # evs) = chunk # stdout_chunks evs"
| "stdout_chunks (_ # evs) = stdout_chunks evs"

definition kept_output :: "string list \<Rightarrow> string" where
  "kept_output chunks = fold (\<lambda>chunk kept. keep_output kept chunk) chunks []"

lemma settled_fixed: "settled p = Some out \<Longrightarrow> settled (fold (process_step parse str config) evs p) = Some out"
proof (induction evs arbitrary: p)
  case (Cons ev evs)
  then show ?case by (cases ev) (simp_all add: settle_def)
qed simp

lemma unsettled_pre:
  "list_all (\<lambda>ev. \<not> settles ev) pre \<Longrightarrow> settled p = None \<Longrightarrow>
   settled (fold (process_step parse str config) pre p) = None \<and>
   child_stdout (fold (process_step parse str config) pre p) = fold (\<lambda>chunk kept. keep_output kept chunk) (stdout_chunks pre) (child_stdout p)"
proof (induction pre arbitrary: p)
  case (Cons ev pre)
  then show ?case by (cases ev) (simp_all add: settle_def)
qed simp

text \<open>The outcome is the one of the first event that settles, in the state that the events before it leave.\<close>

lemma settled_first:
  obtains pre ev post where "evs @ [TimerFired] = pre @ ev # post" and "list_all (\<lambda>ev. \<not> settles ev) pre" and "settles ev"
    and "settled (run_process parse str config evs) =
      settled (process_step parse str config ev (fold (process_step parse str config) pre idle_process))"
proof -
  have "\<exists>ev \<in> set (evs @ [TimerFired]). settles ev" by simp
  then obtain pre ev post where split: "evs @ [TimerFired] = pre @ ev # post" "\<forall>e \<in> set pre. \<not> settles e" "settles ev"
    by (metis split_list_first_prop)
  let ?p = "fold (process_step parse str config) pre idle_process"
  have "settled ?p = None" using unsettled_pre [of pre idle_process] split(2) by (simp add: list_all_iff idle_process_def)
  then obtain out where "settled (process_step parse str config ev ?p) = Some out"
    using split(3) by (cases ev) (simp_all add: settle_def)
  then have "settled (run_process parse str config evs) = settled (process_step parse str config ev ?p)"
    unfolding run_process_def split(1) by (simp add: settled_fixed)
  then show thesis using that split by (auto simp: list_all_iff)
qed

definition process_passes :: "(string \<Rightarrow> json throws) \<Rightarrow> (json \<Rightarrow> string) \<Rightarrow> process_event list \<Rightarrow> bool" where
  "process_passes parse str evs \<longleftrightarrow>
     (\<exists>pre post. evs = pre @ Closed (Some 0) # post \<and> list_all (\<lambda>ev. \<not> settles ev) pre \<and>
        outcome_block (parseHookDecisionOutput parse str (kept_output (stdout_chunks pre))) = None)"

lemma process_outcome_pass:
  assumes "outcome_block (the (settled (run_process parse str config evs))) = None"
  shows "process_passes parse str evs"
proof -
  obtain pre ev post where split: "evs @ [TimerFired] = pre @ ev # post" "list_all (\<lambda>ev. \<not> settles ev) pre" "settles ev"
    and out: "settled (run_process parse str config evs) =
      settled (process_step parse str config ev (fold (process_step parse str config) pre idle_process))"
    by (rule settled_first)
  let ?p = "fold (process_step parse str config) pre idle_process"
  have p: "settled ?p = None" "child_stdout ?p = kept_output (stdout_chunks pre)"
    using unsettled_pre [OF split(2), of idle_process] by (simp_all add: idle_process_def kept_output_def)
  have ev: "ev = Closed (Some 0)"
  proof (cases ev)
    case (Closed code)
    then show ?thesis using assms out p(1)
      by (cases code) (auto simp: settle_def exit_outcome_def outcome_block_def split: if_splits)
  qed (use assms out p(1) split(3) in \<open>simp_all add: settle_def outcome_block_def\<close>)
  then have "outcome_block (parseHookDecisionOutput parse str (kept_output (stdout_chunks pre))) = None"
    using assms out p by (simp add: settle_def exit_outcome_def)
  moreover obtain post' where "evs = pre @ Closed (Some 0) # post'"
    using split(1) ev by (cases post rule: rev_cases) auto
  ultimately show ?thesis using split(2) by (auto simp: process_passes_def)
qed

text \<open>What is kept of an output: a prefix that exceeds the cap by less than one chunk.\<close>

lemma kept_output_bound:
  assumes "\<And>chunk. chunk \<in> set chunks \<Longrightarrow> length chunk \<le> n"
  shows "length (kept_output chunks) \<le> MAX_HOOK_OUTPUT_CHARS + n \<and> (\<exists>rest. concat chunks = kept_output chunks @ rest)"
proof -
  have "length (fold (\<lambda>chunk kept. keep_output kept chunk) chunks kept) \<le> MAX_HOOK_OUTPUT_CHARS + n \<and>
      (\<exists>rest. kept @ concat chunks = fold (\<lambda>chunk kept. keep_output kept chunk) chunks kept @ rest)"
    if "length kept \<le> MAX_HOOK_OUTPUT_CHARS + n" for kept
    using that assms
  proof (induction chunks arbitrary: kept)
    case (Cons chunk chunks)
    have "length (keep_output kept chunk) \<le> MAX_HOOK_OUTPUT_CHARS + n"
      using Cons.prems(1) Cons.prems(2) [of chunk] by (simp add: keep_output_def)
    from Cons.IH [OF this] Cons.prems(2)
    have bound: "length (fold (\<lambda>chunk kept. keep_output kept chunk) chunks (keep_output kept chunk)) \<le> MAX_HOOK_OUTPUT_CHARS + n"
      and "\<exists>rest. keep_output kept chunk @ concat chunks =
        fold (\<lambda>chunk kept. keep_output kept chunk) chunks (keep_output kept chunk) @ rest" by simp_all
    then obtain rest where rest: "keep_output kept chunk @ concat chunks =
        fold (\<lambda>chunk kept. keep_output kept chunk) chunks (keep_output kept chunk) @ rest" by blast
    have capped: "fold (\<lambda>chunk kept. keep_output kept chunk) xs kept = kept" if "\<not> length kept < MAX_HOOK_OUTPUT_CHARS" for xs
      using that by (induction xs) (simp_all add: keep_output_def)
    show ?case
    proof (cases "length kept < MAX_HOOK_OUTPUT_CHARS")
      case True
      then show ?thesis using bound rest by (simp add: keep_output_def)
    next
      case False
      then show ?thesis using capped [OF False, of "chunk # chunks"] Cons.prems(1) by simp
    qed
  qed simp
  from this [of "[]"] show ?thesis by (simp add: kept_output_def)
qed

text \<open>
  A decision that does not fit is lost: what follows the chunk that reaches the cap is dropped, and when what is kept is
  not JSON the hook decided nothing, so a command that ends with code 0 does not block.
\<close>

lemma cut_output_decides_nothing:
  assumes "parse (trim (kept_output chunks)) = Inl e"
  shows "outcome_block (parseHookDecisionOutput parse str (kept_output chunks)) = None"
  using assms by (simp add: parseHookDecisionOutput_def Let_def outcome_block_def)

text \<open>Two places where the code accepts more than its texts say: a status other than 200, and a timeout below 1.\<close>

lemma no_content_passes: "reply_outcome parse str config (Replied 204 (Inr [])) = HookOk None None"
  by (simp add: reply_outcome_def parseHookDecisionOutput_def)

lemma half_a_millisecond: "timeout_ok (JFrac 0x3FE0000000000000)"
  by code_simp

section \<open>The loader\<close>

definition applies_to :: "hook_config \<Rightarrow> string \<Rightarrow> bool" where
  "applies_to config tool \<longleftrightarrow> (case config_matcher config of None \<Rightarrow> True | Some matcher \<Rightarrow> tool \<in> set (matcher_names matcher))"

lemma parse_configs_nth:
  "parse_configs protocol ev index raws = Inr configs \<Longrightarrow>
   length configs = length raws \<and> (\<forall>i < length raws. parseHandlerConfig protocol ev (index + i) (raws ! i) = Inr (configs ! i))"
proof (induction raws arbitrary: index configs)
  case (Cons raw raws)
  then obtain config rest where parts: "parseHandlerConfig protocol ev index raw = Inr config"
    "parse_configs protocol ev (Suc index) raws = Inr rest" "configs = config # rest"
    by (auto simp: bind_throws_eq_Inr)
  show ?case
    using Cons.IH [OF parts(2)] parts(1,3) by (auto simp: nth_Cons split: nat.split)
qed simp

lemma parse_configs_mem:
  assumes "parse_configs protocol ev 0 raws = Inr configs" and "raw \<in> set raws"
  shows "\<exists>i config. parseHandlerConfig protocol ev i raw = Inr config \<and> config \<in> set configs"
  using parse_configs_nth [OF assms(1)] assms(2) by (metis in_set_conv_nth)

lemma event_name_inject: "event_name a = event_name b \<Longrightarrow> a = b"
  by (cases a; cases b) simp_all

lemma event_of_name_iff: "event_of_name key = Some ev \<longleftrightarrow> key = event_name ev"
  by (cases ev) (auto simp: event_of_name_def HOOK_EVENT_NAMES_def)

lemma parse_events_get:
  "fold_throws (parse_event protocol) entries parsed = Inr settings \<Longrightarrow> distinct (map fst entries) \<Longrightarrow>
   al_get ev settings =
     (case al_get (event_name ev) entries of
        None \<Rightarrow> al_get ev parsed
      | Some (JArr raws) \<Rightarrow> Some (projr (parse_configs protocol ev 0 raws))
      | Some _ \<Rightarrow> None) \<and>
   (\<forall>raws. al_get (event_name ev) entries = Some (JArr raws) \<longrightarrow> parse_configs protocol ev 0 raws \<noteq> Inl (projl (parse_configs protocol ev 0 raws)))"
proof (induction entries arbitrary: parsed)
  case (Cons entry entries)
  obtain key v where entry: "entry = (key, v)" by (cases entry)
  from Cons.prems(1) obtain parsed' where one: "parse_event protocol entry parsed = Inr parsed'"
    and rest: "fold_throws (parse_event protocol) entries parsed' = Inr settings"
    by (auto simp: bind_throws_eq_Inr)
  from one obtain ev' raws configs where ev': "event_of_name key = Some ev'" "v = JArr raws"
    "parse_configs protocol ev' 0 raws = Inr configs" "parsed' = al_set ev' configs parsed"
    unfolding entry by (auto simp: parse_event_def bind_throws_eq_Inr split: option.splits json.splits)
  have key: "key = event_name ev'" using ev'(1) by (simp add: event_of_name_iff)
  note IH = Cons.IH [OF rest]
  show ?case
  proof (cases "ev = ev'")
    case True
    have "al_get (event_name ev) entries = None"
      using Cons.prems(2) True entry key by (simp add: map_simps map_of_eq_None_iff)
    then show ?thesis using IH Cons.prems(2) True entry key ev' by simp
  next
    case False
    then have "event_name ev \<noteq> key" using key event_name_inject by blast
    moreover have "al_get ev parsed' = al_get ev parsed" using False ev'(4) by simp
    ultimately show ?thesis using IH entry Cons.prems(2) by (simp split: option.split json.split)
  qed
qed simp

lemma parsed_settings:
  assumes "parseHookSettings protocol (JObj entries) = Inr settings" and "distinct (map fst entries)"
    and "al_get (event_name ev) entries = Some (JArr raws)"
  obtains configs where "al_get ev settings = Some configs" and "parse_configs protocol ev 0 raws = Inr configs"
proof -
  have "fold_throws (parse_event protocol) entries [] = Inr settings" using assms(1) by (simp add: parseHookSettings_def)
  from parse_events_get [OF this assms(2), of ev] assms(3)
  have "al_get ev settings = Some (projr (parse_configs protocol ev 0 raws))"
    and "parse_configs protocol ev 0 raws \<noteq> Inl (projl (parse_configs protocol ev 0 raws))" by simp_all
  then show thesis using that by (cases "parse_configs protocol ev 0 raws") simp_all
qed

lemma load_configs_mem:
  "load_configs create ev configs = Inr entries \<Longrightarrow> config \<in> set configs \<Longrightarrow>
   \<exists>h. with_matcher config (create config ev) = Inr h \<and> (ev, h) \<in> set entries"
  by (induction configs arbitrary: entries) (auto simp: bind_throws_eq_Inr)

lemma load_events_mem:
  "load_events create settings evs = Inr entries \<Longrightarrow> ev \<in> set evs \<Longrightarrow> al_get ev settings = Some configs \<Longrightarrow> config \<in> set configs \<Longrightarrow>
   \<exists>h. with_matcher config (create config ev) = Inr h \<and> (ev, h) \<in> set entries"
proof (induction evs arbitrary: entries)
  case (Cons e evs)
  then obtain here rest where parts: "entries = here @ rest" "load_events create settings evs = Inr rest"
    "(case al_get e settings of None \<Rightarrow> Inr [] | Some configs \<Rightarrow> load_configs create e configs) = Inr here"
    by (auto simp: bind_throws_eq_Inr)
  show ?case
  proof (cases "e = ev")
    case True
    then show ?thesis using parts load_configs_mem [of create ev configs here config] Cons.prems(3,4) by auto
  next
    case False
    then show ?thesis using Cons.IH [OF parts(2)] Cons.prems(2-4) parts(1) by auto
  qed
qed simp

lemma with_matcher_accepts:
  assumes "with_matcher config handler = Inr h" and "matchesTool handler = None" and "applies_to config tool"
  shows "accepted h (Some tool) \<and> hook_execute h = hook_execute handler"
  using assms by (auto simp: with_matcher_def applies_to_def accepted_def parseMatcher_def Let_def split: option.splits if_splits)

text \<open>Settings that load ask every handler that applies.\<close>

lemma configured_hook_asked:
  assumes "parseHookSettings protocol (JObj entries) = Inr settings" and "distinct (map fst entries)"
    and "al_get ''tool_call'' entries = Some (JArr raws)" and "raw \<in> set raws"
    and "loadHookRuntime create (Some settings) = Inr (Some runtime)" and "\<And>config ev. matchesTool (create config ev) = None"
    and "decideToolCall runtime tool payload w = (Inr None, w')"
  shows "\<exists>i config. parseHandlerConfig protocol On_Tool_Call i raw = Inr config \<and>
    (applies_to config tool \<longrightarrow> let_pass (create config On_Tool_Call) payload)"
proof -
  obtain configs where configs: "al_get On_Tool_Call settings = Some configs" "parse_configs protocol On_Tool_Call 0 raws = Inr configs"
    by (rule parsed_settings [OF assms(1,2), of On_Tool_Call raws]) (use assms(3) in simp_all)
  obtain i config where config: "parseHandlerConfig protocol On_Tool_Call i raw = Inr config" "config \<in> set configs"
    using parse_configs_mem [OF configs(2) assms(4)] by blast
  obtain runtime_entries where load: "load_events create settings HOOK_EVENT_NAMES = Inr runtime_entries"
    "runtime = createHookRuntime runtime_entries"
    using assms(5) by (auto simp: loadHookRuntime_def bind_throws_eq_Inr split: if_splits)
  obtain h where h: "with_matcher config (create config On_Tool_Call) = Inr h" "(On_Tool_Call, h) \<in> set runtime_entries"
    using load_events_mem [OF load(1) _ configs(1) config(2)] by (auto simp: HOOK_EVENT_NAMES_def)
  have "let_pass (create config On_Tool_Call) payload" if "applies_to config tool"
  proof -
    have here: "h \<in> set (handlersFor runtime On_Tool_Call)" using h(2) load(2) by (force simp: handlersFor_create)
    from with_matcher_accepts [OF h(1) assms(6) that]
    have "accepted h (Some tool)" and same: "hook_execute h = hook_execute (create config On_Tool_Call)" by simp_all
    then have "let_pass h payload"
      using decide_handlers_pass [OF assms(7) [unfolded decideToolCall_def] here] by simp
    then show ?thesis by (simp add: let_pass_def same)
  qed
  then show ?thesis using config(1) by blast
qed

text \<open>The command or the endpoint of a hook let the call pass.\<close>

definition config_passes ::
  "(string \<Rightarrow> json throws) \<Rightarrow> (json \<Rightarrow> string) \<Rightarrow> (string \<Rightarrow> hook_payload \<Rightarrow> 'w \<Rightarrow> process_event list throws \<times> 'w) \<Rightarrow>
   (string \<Rightarrow> hook_payload \<Rightarrow> 'w \<Rightarrow> http_reply \<times> 'w) \<Rightarrow> hook_config \<Rightarrow> hook_payload \<Rightarrow> bool" where
  "config_passes parse str spawn fetch config payload \<longleftrightarrow>
     (case config of
        CommandHook _ command _ \<Rightarrow> (\<exists>w evs w'. spawn command payload w = (Inr evs, w') \<and> process_passes parse str evs)
      | HttpHook _ url _ \<Rightarrow> (\<exists>w status t w'. fetch url payload w = (Replied status (Inr t), w') \<and> 200 \<le> status \<and> status \<le> 299 \<and>
          outcome_block (parseHookDecisionOutput parse str t) = None))"

lemma default_handler_passes:
  assumes "let_pass (defaultHookHandlerFactory (commandHookHandler parse str spawn) (httpHookHandler parse str fetch) config ev) payload"
  shows "config_passes parse str spawn fetch config payload"
proof (cases config)
  case (CommandHook matcher command timeout)
  then obtain w out w' where run: "hook_execute (commandHookHandler parse str spawn config) payload w = (Inr out, w')"
    "outcome_block out = None"
    using assms by (auto simp: let_pass_def defaultHookHandlerFactory_def)
  obtain r w1 where "spawn command payload w = (r, w1)" by force
  with run obtain evs where evs: "spawn command payload w = (Inr evs, w')"
    "outcome_block (the (settled (run_process parse str config evs))) = None"
    using CommandHook by (cases r) (auto simp: commandHookHandler_def)
  from process_outcome_pass [OF evs(2)] evs(1) CommandHook show ?thesis unfolding config_passes_def by auto
next
  case (HttpHook matcher url timeout)
  then obtain w out w' where run: "hook_execute (httpHookHandler parse str fetch config) payload w = (Inr out, w')"
    "outcome_block out = None"
    using assms by (auto simp: let_pass_def defaultHookHandlerFactory_def)
  obtain reply w1 where reply: "fetch url payload w = (reply, w1)" by force
  with run HttpHook have "outcome_block (reply_outcome parse str config reply) = None" by (simp add: httpHookHandler_def)
  then obtain status t where "reply = Replied status (Inr t)" "200 \<le> status" "status \<le> 299"
    "outcome_block (parseHookDecisionOutput parse str t) = None"
    by (auto simp: reply_outcome_def request_failure_def outcome_block_def split: http_reply.splits if_splits sum.splits)
  with reply HttpHook show ?thesis by (auto simp: config_passes_def)
qed


lemma default_handler_open: "matchesTool (defaultHookHandlerFactory (commandHookHandler parse str spawn) (httpHookHandler parse str fetch) config ev) = None"
  by (cases config) (simp_all add: defaultHookHandlerFactory_def commandHookHandler_def httpHookHandler_def)


definition example_settings :: "(string \<times> json) list" where
  "example_settings = [(''tool_call'', JArr [JObj [(''type'', JStr ''command''), (''matcher'', JStr ''bash, write''), (''command'', JStr ''check'')]])]"

definition example_payload :: hook_payload where
  "example_payload = \<lparr>payload_type = On_Tool_Call, payload_toolName = Some ''bash'', payload_toolCallId = Some ''1'',
     payload_input = Some (JObj []), payload_reason = None\<rparr>"

definition example_spawn :: "string \<Rightarrow> hook_payload \<Rightarrow> unit \<Rightarrow> process_event list throws \<times> unit" where
  "example_spawn command payload w = (Inr [Closed (Some 0)], w)"

definition example_fetch :: "string \<Rightarrow> hook_payload \<Rightarrow> unit \<Rightarrow> http_reply \<times> unit" where
  "example_fetch url payload w = (RequestFailed [], w)"

definition example_runtime :: "unit hook_runtime" where
  "example_runtime =
     (case parseHookSettings (\<lambda>_. None) (JObj example_settings) of
        Inl _ \<Rightarrow> []
      | Inr settings \<Rightarrow>
          (case loadHookRuntime (defaultHookHandlerFactory (commandHookHandler (\<lambda>_. Inl []) (\<lambda>_. []) example_spawn)
              (httpHookHandler (\<lambda>_. Inl []) (\<lambda>_. []) example_fetch)) (Some settings) of
             Inr (Some runtime) \<Rightarrow> runtime
           | _ \<Rightarrow> []))"


end
