(* ===== verification/Tool_Session_Props.thy ===== *)
theory Tool_Session_Props imports Tool_Session Hook_Props Agent_Loop_Calls begin

text \<open>
  The tool hooks of a session in a run of the loop: nothing is executed that the permission gate and the declarative hooks
  did not let pass, with the arguments it is executed with.
\<close>

lemma decide_without_handlers: "\<not> hasHandlers runtime On_Tool_Call \<Longrightarrow> decideToolCall runtime tool payload w = (Inr None, w)"
  by (simp add: hasHandlers_def decideToolCall_def)

lemma hooks_step_pass:
  assumes "hooks_step ses c args w = (Inr None, w')" and "hook_runtime ses = Some runtime"
  shows "decideToolCall runtime (call_name c) (hook_payload_of On_Tool_Call (call_name c) (call_id c) args) w = (Inr None, w')"
  using assms decide_without_handlers
  by (auto simp: hooks_step_def bind_throws_eq_Inr split: if_splits prod.splits)

lemma gate_step_pass:
  assumes "gate_step ses c args w = (Inr None, w')" and "permission_gate ses = Some gate"
  obtains d s prep where "evaluateToolCall (compare_locale ses) (js_stringify ses) (call_name c) args (session_gate ses gate w)
    (store_state w, prepared_calls w) = (Inr d, s, prep)" and "\<not> blocked d"
  using assms by (auto simp: gate_step_def bind_throws_eq_Inr split: prod.splits if_splits)

lemma gate_step_blocks: "gate_step ses c args w = (Inr (Some b), w') \<Longrightarrow> before_block b"
  by (auto simp: gate_step_def bind_throws_eq_Inr blocking_def split: prod.splits option.splits if_splits)

lemma hooks_step_blocks: "hooks_step ses c args w = (Inr (Some b), w') \<Longrightarrow> before_block b"
  by (auto simp: hooks_step_def bind_throws_eq_Inr blocking_def split: prod.splits option.splits if_splits)

lemma extensions_step_blocks: "extensions_step ses c args w = (Inr (Some b, args'), w') \<Longrightarrow> before_block b"
  by (auto simp: extensions_step_def bind_throws_eq_Inr split: prod.splits option.splits if_splits)

text \<open>A call that the hook of the session does not block: every check passed on the arguments it leaves.\<close>

lemma session_hook_passes:
  assumes "session_beforeToolCall ses a c args context w = (Inr (before, args'), w')" and "\<not> blocks_call before"
  obtains w1 w2 where "hooks_step ses c args' w1 = (Inr None, w2)" and "gate_step ses c args' w2 = (Inr None, w')"
proof -
  obtain r w1 where ext: "extensions_step ses c args w = (r, w1)" by force
  obtain x args1 where r: "r = Inr (x, args1)" using assms(1) ext by (cases r) (auto simp: session_beforeToolCall_def)
  have x: "x = None"
    using assms ext r extensions_step_blocks by (cases x) (fastforce simp: session_beforeToolCall_def blocks_call_def)+
  obtain h w2 where hooks: "hooks_step ses c args1 w1 = (h, w2)" by force
  obtain g w3 where gate: "gate_step ses c args1 w2 = (g, w3)" by force
  obtain y where h: "h = Inr y" using assms(1) ext r x hooks by (cases h) (auto simp: session_beforeToolCall_def)
  have y: "y = None"
    using assms ext r x hooks h hooks_step_blocks by (cases y) (fastforce simp: session_beforeToolCall_def blocks_call_def)+
  obtain z where g: "g = Inr z" using assms(1) ext r x hooks h y gate by (cases g) (auto simp: session_beforeToolCall_def)
  have "z = None"
    using assms ext r x hooks h y gate g gate_step_blocks
    by (cases z) (fastforce simp: session_beforeToolCall_def blocks_call_def)+
  then have "hooks_step ses c args' w1 = (Inr None, w2)" "gate_step ses c args' w2 = (Inr None, w')"
    using assms(1) ext r x hooks h y gate g by (auto simp: session_beforeToolCall_def)
  then show thesis by (rule that)
qed

text \<open>
  The gate lets the call run in this world: the configuration loaded, and the rules and the mode allow it, or they ask and the
  responder allowed it.
\<close>

definition permitted :: "('e, 's, 'o) tool_session \<Rightarrow> (json, tool_outcome, 'e, 's) gate_options \<Rightarrow> string \<Rightarrow> json \<Rightarrow> ('s, 'o) session_world \<Rightarrow> bool" where
  "permitted ses gate n args w \<longleftrightarrow>
     (let contract = resolveToolContract (js_stringify ses) (contract_of ses w) n;
          snap = fst (opt_snapshot gate (store_state w)); s1 = snd (opt_snapshot gate (store_state w));
          res = gate_resolution (compare_locale ses) contract n args (getMode gate s1) (snap_rules snap) in
      snap_errors snap = [] \<and>
      (res_behavior res = Allow \<or>
       res_behavior res = Ask \<and>
         (\<exists>r req answer. current_responder (session_gate ses gate w) = Some r \<and> req_toolName req = n \<and> r req = Inr answer \<and> allow answer)))"

definition passes_hooks :: "('e, 's, 'o) tool_session \<Rightarrow> string \<Rightarrow> string \<Rightarrow> json \<Rightarrow> ('s, 'o) session_world \<Rightarrow> bool" where
  "passes_hooks ses n i args w \<longleftrightarrow>
     (case hook_runtime ses of
        None \<Rightarrow> True
      | Some runtime \<Rightarrow> (\<exists>w0. decideToolCall runtime n (hook_payload_of On_Tool_Call n i args) w0 = (Inr None, w)))"

lemma session_gate_fields:
  "opt_snapshot (session_gate ses gate w) = opt_snapshot gate" "getMode (session_gate ses gate w) = getMode gate"
  "getContract (session_gate ses gate w) = contract_of ses w"
  by (simp_all add: session_gate_def)

lemma session_hook_permits:
  assumes "session_beforeToolCall ses a c args context w = (Inr (before, args'), w')" and "\<not> blocks_call before"
    and "permission_gate ses = Some gate"
  shows "\<exists>v. permitted ses gate (call_name c) args' v \<and> passes_hooks ses (call_name c) (call_id c) args' v"
proof -
  obtain w1 w2 where steps: "hooks_step ses c args' w1 = (Inr None, w2)" "gate_step ses c args' w2 = (Inr None, w')"
    by (rule session_hook_passes [OF assms(1,2)])
  obtain d s prep where "evaluateToolCall (compare_locale ses) (js_stringify ses) (call_name c) args' (session_gate ses gate w2)
      (store_state w2, prepared_calls w2) = (Inr d, s, prep)" "\<not> blocked d"
    by (rule gate_step_pass [OF steps(2) assms(3)])
  from gate_unblocked [OF this] have "permitted ses gate (call_name c) args' w2"
    by (simp add: permitted_def session_gate_fields Let_def)
  moreover have "passes_hooks ses (call_name c) (call_id c) args' w2"
    using hooks_step_pass [OF steps(1)] by (auto simp: passes_hooks_def split: option.split)
  ultimately show ?thesis by blast
qed

lemma run_permits:
  assumes "beforeToolCall env = session_beforeToolCall ses" and "permission_gate ses = Some gate"
    and "runAgentLoop env prompts (initial_run w c b md level) = Some (r, s)" and "Executed n i args \<in> set (log s)"
  shows "\<exists>v. permitted ses gate n args v \<and> passes_hooks ses n i args v"
proof -
  have "loop_invariant.accounted env (\<lambda>_ _. True) {} s" by (rule loop_invariant.run_accounted [OF any_world TrueI assms(3)])
  then obtain a where "checked env (\<lambda>_ _. True) n i args a"
    using assms(4) unfolding loop_invariant.accounted_def [OF any_world] by blast
  then obtain tc t where "call_id tc = i" "call_name tc = n" "passed env (\<lambda>_ _. True) a tc t args" by (auto simp: checked_def)
  then show ?thesis using assms(1,2) session_hook_permits by (fastforce simp: passed_def)
qed

text \<open>No answer and no rule lifts plan mode.\<close>

lemma plan_not_permitted:
  assumes "isPlanModeDenied (capabilities (resolveToolContract (js_stringify ses) (contract_of ses w) n))"
    and "\<And>s. getMode gate s = Plan"
  shows "\<not> permitted ses gate n args w"
  using assms by (auto simp: permitted_def gate_resolution_def resolveWithMode_def Let_def split: if_splits)

section \<open>An example\<close>

definition example_gate :: "permission_mode \<Rightarrow> (json, tool_outcome, unit, unit) gate_options" where
  "example_gate mode = \<lparr>getContract = (\<lambda>_. None), opt_snapshot = (\<lambda>s. (\<lparr>snap_rules = [], snap_modes = Map.empty, snap_errors = []\<rparr>, s)),
     opt_apply = (\<lambda>_ s. (Inr (), s)), getMode = (\<lambda>_. mode), responder = None, getResponder = None\<rparr>"

definition example_session :: "permission_mode \<Rightarrow> (unit, unit, nat) tool_session" where
  "example_session mode = \<lparr>extensions_of = (\<lambda>_. []), emit_error = (\<lambda>_ w. w), hook_runtime = None, permission_gate = Some (example_gate mode),
     contract_of = (\<lambda>_ _. None), responder_of = (\<lambda>_. None), tui_of = (\<lambda>_. None), sink = None, kind_of = (\<lambda>_. Ev_Manual),
     normalize_images = (\<lambda>_ w. (Inr None, w)), compare_locale = (\<lambda>_ _. 0), js_stringify = (\<lambda>_. []), js_string = (\<lambda>_. [])\<rparr>"

definition example_session_env :: "permission_mode \<Rightarrow> (unit, nat) session_world env" where
  "example_session_env mode =
     \<lparr>listener = (\<lambda>_ w. (Inr (), w)), now = (\<lambda>w. (0, w)), aborted = (\<lambda>_. False),
      getSteeringMessages = (\<lambda>w. (Inr [], w)), getFollowUpMessages = (\<lambda>w. (Inr [], w)),
      prepareNextTurn = (\<lambda>_ w. (Inr None, w)), prepareRequest = (\<lambda>_ _ _ w. (Inr None, w)),
      finishTurn = (\<lambda>_ w. (Inr None, w)), shouldStopAfterTurn = (\<lambda>_ w. (Inr False, w)),
      beforeToolCall = session_beforeToolCall (example_session mode), afterToolCall = session_afterToolCall (example_session mode),
      transformContext = (\<lambda>ms w. (Inr ms, w)), convertToLlm = (\<lambda>ms w. (Inr ms, w)), getApiKey = (\<lambda>_ w. (Inr None, w)),
      apiKey = None, stream = (\<lambda>_ _ _ _ w. case example_stream (outside w) of (r, n) \<Rightarrow> (r, w\<lparr>outside := n\<rparr>)),
      prepareArguments = (\<lambda>_ args w. (Inr args, w)), validateToolArguments = (\<lambda>_ c. Inr (call_arguments c)),
      execute_tool = (\<lambda>_ _ _ w. (([], Inr example_outcome), w)), completion = (\<lambda>_ _. []), toolExecution = ParallelMode\<rparr>"

definition example_session_run :: "(unit, nat) session_world run" where
  "example_session_run = initial_run \<lparr>store_state = (), prepared_calls = Map.empty, last_failure = None, outside = 0\<rparr>
     \<lparr>context_messages = [], context_tools = [example_tool]\<rparr> None
     \<lparr>model_id = ''model'', model_api = ''api'', model_provider = ''provider'', model_input = []\<rparr> None"

definition example_session_result :: "permission_mode \<Rightarrow> (message list throws \<times> (unit, nat) session_world run) option" where
  "example_session_result mode = runAgentLoop (example_session_env mode) [example_prompt] example_session_run"

definition example_log :: "permission_mode \<Rightarrow> asked list" where
  "example_log mode = (case example_session_result mode of Some (_, s) \<Rightarrow> log s | None \<Rightarrow> [])"

lemma example_log_values:
  "Executed ''echo'' ''1'' (JObj []) \<in> set (example_log BypassPermissions)" "length (example_log Plan) = 2"
  by code_simp+

lemma example_log_run:
  assumes "0 < length (example_log mode)"
  obtains r s where "runAgentLoop (example_session_env mode) [example_prompt] example_session_run = Some (r, s)" and "log s = example_log mode"
  using assms by (auto simp: example_log_def example_session_result_def split: option.splits)

section \<open>Properties\<close>

text \<open>
  C1: The gate is the last word on every execution. In a run whose hook is the one a session with a permission gate installs,
  whatever tool is executed, with whatever arguments, was let through by the gate for exactly this tool and these arguments,
  after the extensions had changed them: the permission configuration loaded without an error, and the rules and the mode
  allow the call, or they ask and the responder of the session allowed it; and the declarative hooks had let the same call
  pass. No extension and no hook that allows a call takes the place of the gate.
\<close>
theorem executions_are_permitted:
  assumes "beforeToolCall env = session_beforeToolCall ses" and "permission_gate ses = Some gate"
    and "runAgentLoop env prompts (initial_run w c b md level) = Some (r, s)" and "Executed n i args \<in> set (log s)"
  shows "\<exists>v. permitted ses gate n args v \<and> passes_hooks ses n i args v"
  using assms by (rule run_permits)

theorem executions_are_permitted_witness:
  "\<exists>v. permitted (example_session BypassPermissions) (example_gate BypassPermissions) ''echo'' (JObj []) v \<and>
     passes_hooks (example_session BypassPermissions) ''echo'' ''1'' (JObj []) v"
proof -
  have "0 < length (example_log BypassPermissions)" using example_log_values(1) by auto
  then obtain r s where run: "runAgentLoop (example_session_env BypassPermissions) [example_prompt] example_session_run = Some (r, s)"
    and log: "log s = example_log BypassPermissions" by (rule example_log_run)
  show ?thesis
    by (rule executions_are_permitted [OF _ _ run [unfolded example_session_run_def]])
      (simp_all add: example_session_env_def example_session_def log example_log_values)
qed

text \<open>
  C11: Plan mode holds for a whole run. When the gate of a session is in plan mode and the contract of a tool has a capability
  that plan mode denies, or the tool has no contract, no run of the loop executes that tool: no answer of the model, no
  extension, hook, rule or responder changes this.
\<close>
theorem plan_mode_run:
  assumes "beforeToolCall env = session_beforeToolCall ses" and "permission_gate ses = Some gate"
    and "\<And>s. getMode gate s = Plan"
    and "\<And>w. isPlanModeDenied (capabilities (resolveToolContract (js_stringify ses) (contract_of ses w) n))"
    and "runAgentLoop env prompts (initial_run w c b md level) = Some (r, s)"
  shows "Executed n i args \<notin> set (log s)"
  using run_permits [OF assms(1,2,5)] plan_not_permitted [OF assms(4,3)] by blast

theorem plan_mode_run_witness: "Executed ''echo'' ''1'' (JObj []) \<notin> set (example_log Plan)"
proof -
  have "0 < length (example_log Plan)" by (simp add: example_log_values)
  then obtain r s where run: "runAgentLoop (example_session_env Plan) [example_prompt] example_session_run = Some (r, s)"
    and log: "log s = example_log Plan" by (rule example_log_run)
  have "Executed ''echo'' ''1'' (JObj []) \<notin> set (log s)"
    by (rule plan_mode_run [OF _ _ _ _ run [unfolded example_session_run_def], where ses = "example_session Plan" and gate = "example_gate Plan"])
      (simp_all add: example_session_env_def example_session_def example_gate_def resolveToolContract_def UNCLASSIFIED_def
        ALL_CAPABILITIES_def isPlanModeDenied_def PLAN_MODE_DENIED_CAPABILITIES_def)
  then show ?thesis by (simp add: log)
qed

end
