(* ===== verification/Agent.thy ===== *)
theory Agent imports Agent_Loop begin

text \<open>
  The stateful agent (\<open>packages/agent/src/agent.ts\<close>): its transcript, its queues, its budget, and the runs of the loop it
  starts. The callbacks of its options are functions of the agent itself, which they may change through its methods; they
  are collected in an \<open>env\<close> whose listener is all subscribed listeners in order. \<open>createLoopConfig\<close> puts the agent's own
  parts in the place of the listener, the abort signal and the two queues.

  A budget controller is an object that several agents may hold: the agent's own one is a value of its state, the shared one
  is named, and what a run spends is written back to both. A maintenance request recorded during a run is counted when the
  run ends. \<open>activeRun\<close> is whether the run was aborted. The last result of a method that runs is what it did: the events
  that the agent processed, and what was asked.
\<close>

section \<open>Queues\<close>

datatype queue_mode = AllMessages | OneAtATime

record message_queue =
  queued :: "message list"
  queue_mode :: queue_mode

definition enqueue :: "message \<Rightarrow> message_queue \<Rightarrow> message_queue" where
  "enqueue m q = q\<lparr>queued := queued q @ [m]\<rparr>"

definition hasItems :: "message_queue \<Rightarrow> bool" where
  "hasItems q \<longleftrightarrow> 0 < length (queued q)"

definition peek :: "message_queue \<Rightarrow> message list" where
  "peek q = (if queue_mode q = AllMessages then queued q else case queued q of [] \<Rightarrow> [] | m # _ \<Rightarrow> [m])"

definition drain :: "message_queue \<Rightarrow> message list \<times> message_queue" where
  "drain q = (peek q, q\<lparr>queued := drop (length (peek q)) (queued q)\<rparr>)"

definition clear_queue :: "message_queue \<Rightarrow> message_queue" where
  "clear_queue q = q\<lparr>queued := []\<rparr>"

section \<open>The state\<close>

datatype controller_ref = OwnController controller | SharedController | ComposedController controller

record 'w agent =
  agent_messages :: "message list"
  agent_tools :: "agent_tool list"
  agent_model :: target_model
  agent_thinkingLevel :: string
  isStreaming :: bool
  streamingMessage :: "message option"
  pendingToolCalls :: "string set"
  agent_error :: "string option"
  steeringQueue :: message_queue
  followUpQueue :: message_queue
  activeRun :: "bool option"
  budgetPolicy :: "budget_policy option"
  session_budget :: bool
  sharedBudget :: "budget option"
  budgetController :: "controller_ref option"
  maintenance :: nat
  skipInitialSteeringPoll :: bool
  agent_world :: 'w

record agent_options =
  option_systemPrompt :: "string option"
  option_messages :: "message list"
  option_tools :: "agent_tool list"
  option_model :: "target_model option"
  option_thinkingLevel :: "string option"
  option_steeringMode :: "queue_mode option"
  option_followUpMode :: "queue_mode option"
  option_runBudget :: "budget_policy option"
  option_session_budget :: bool
  option_sharedBudget :: "budget option"

definition DEFAULT_MODEL :: target_model where
  "DEFAULT_MODEL = \<lparr>model_id = ''unknown'', model_api = ''unknown'', model_provider = ''unknown'', model_input = []\<rparr>"

definition initial_transcript :: "string option \<Rightarrow> agent_tool list \<Rightarrow> message list \<Rightarrow> message list" where
  "initial_transcript systemPrompt tools ms =
     (case createInitialSystemMessage systemPrompt (map declared_tool tools) of
        None \<Rightarrow> ms
      | Some m \<Rightarrow> if ms \<noteq> [] \<and> is_system (hd ms) then ms else System m # ms)"

definition new_queue :: "queue_mode option \<Rightarrow> message_queue" where
  "new_queue mode = \<lparr>queued = [], queue_mode = (case mode of None \<Rightarrow> OneAtATime | Some m \<Rightarrow> m)\<rparr>"

definition new_agent :: "agent_options \<Rightarrow> 'w \<Rightarrow> 'w agent" where
  "new_agent opts w =
     \<lparr>agent_messages = initial_transcript (option_systemPrompt opts) (option_tools opts) (option_messages opts),
      agent_tools = option_tools opts,
      agent_model = (case option_model opts of None \<Rightarrow> DEFAULT_MODEL | Some m \<Rightarrow> m),
      agent_thinkingLevel = (case option_thinkingLevel opts of None \<Rightarrow> ''off'' | Some l \<Rightarrow> l),
      isStreaming = False, streamingMessage = None, pendingToolCalls = {}, agent_error = None,
      steeringQueue = new_queue (option_steeringMode opts), followUpQueue = new_queue (option_followUpMode opts),
      activeRun = None, budgetPolicy = option_runBudget opts, session_budget = option_session_budget opts,
      sharedBudget = option_sharedBudget opts, budgetController = None, maintenance = 0, skipInitialSteeringPoll = False,
      agent_world = w\<rparr>"

section \<open>Methods that do not run\<close>

definition steer :: "message \<Rightarrow> 'w agent \<Rightarrow> 'w agent" where
  "steer m a = a\<lparr>steeringQueue := enqueue m (steeringQueue a)\<rparr>"

definition followUp :: "message \<Rightarrow> 'w agent \<Rightarrow> 'w agent" where
  "followUp m a = a\<lparr>followUpQueue := enqueue m (followUpQueue a)\<rparr>"

definition clearSteeringQueue :: "'w agent \<Rightarrow> 'w agent" where
  "clearSteeringQueue a = a\<lparr>steeringQueue := clear_queue (steeringQueue a)\<rparr>"

definition clearFollowUpQueue :: "'w agent \<Rightarrow> 'w agent" where
  "clearFollowUpQueue a = a\<lparr>followUpQueue := clear_queue (followUpQueue a)\<rparr>"

definition clearAllQueues :: "'w agent \<Rightarrow> 'w agent" where
  "clearAllQueues a = clearFollowUpQueue (clearSteeringQueue a)"

definition hasQueuedMessages :: "'w agent \<Rightarrow> bool" where
  "hasQueuedMessages a \<longleftrightarrow> hasItems (steeringQueue a) \<or> hasItems (followUpQueue a)"

definition peekQueuedMessages :: "'w agent \<Rightarrow> message list" where
  "peekQueuedMessages a = (if 0 < length (peek (steeringQueue a)) then peek (steeringQueue a) else peek (followUpQueue a))"

definition abort :: "'w agent \<Rightarrow> 'w agent" where
  "abort a = a\<lparr>activeRun := map_option (\<lambda>_. True) (activeRun a)\<rparr>"

definition set_queue_modes :: "queue_mode \<Rightarrow> queue_mode \<Rightarrow> 'w agent \<Rightarrow> 'w agent" where
  "set_queue_modes steering followUps a =
     a\<lparr>steeringQueue := (steeringQueue a)\<lparr>queue_mode := steering\<rparr>, followUpQueue := (followUpQueue a)\<lparr>queue_mode := followUps\<rparr>\<rparr>"

definition reset :: "'w agent \<Rightarrow> unit throws \<times> 'w agent" where
  "reset a =
     (if activeRun a \<noteq> None then (Inl ''Agent is already processing. Wait for completion before resetting.'', a)
      else (Inr (), clearSteeringQueue (clearFollowUpQueue (a\<lparr>
        agent_messages := (case getCurrentSystemMessage (agent_messages a) of None \<Rightarrow> [] | Some m \<Rightarrow> [System m]),
        isStreaming := False, streamingMessage := None, pendingToolCalls := {}, agent_error := None\<rparr>))))"

section \<open>Budgets\<close>

text \<open>The controller that a reference stands for, and what it becomes when it is used.\<close>

definition controller_of :: "'w agent \<Rightarrow> budget option" where
  "controller_of a =
     (case budgetController a of
        None \<Rightarrow> None
      | Some (OwnController c) \<Rightarrow> Some (Stock c)
      | Some SharedController \<Rightarrow> sharedBudget a
      | Some (ComposedController c) \<Rightarrow> map_option (Composite (Stock c)) (sharedBudget a))"

definition store_controller :: "budget option \<Rightarrow> 'w agent \<Rightarrow> 'w agent" where
  "store_controller b a =
     (case (budgetController a, b) of
        (Some (OwnController _), Some (Stock c)) \<Rightarrow> a\<lparr>budgetController := Some (OwnController c)\<rparr>
      | (Some SharedController, Some shared) \<Rightarrow> a\<lparr>sharedBudget := Some shared\<rparr>
      | (Some (ComposedController _), Some (Composite (Stock c) shared)) \<Rightarrow>
          a\<lparr>budgetController := Some (ComposedController c), sharedBudget := Some shared\<rparr>
      | _ \<Rightarrow> a)"

definition agent_budgetUsage :: "'w agent \<Rightarrow> budget_usage option" where
  "agent_budgetUsage a = map_option budget_usage_of (controller_of a)"

definition createBudgetController :: "'w agent clock \<Rightarrow> 'w agent \<Rightarrow> controller_ref option \<times> 'w agent" where
  "createBudgetController clock a =
     (case budgetPolicy a of
        None \<Rightarrow> (if sharedBudget a = None then None else Some SharedController, a)
      | Some p \<Rightarrow>
          (case createRunBudgetController p clock a of
             (c, a') \<Rightarrow> (Some (if sharedBudget a = None then OwnController c else ComposedController c), a')))"

text \<open>During a run the loop holds the controller: the record is made when it ends.\<close>

definition recordMaintenance :: "'w agent \<Rightarrow> 'w agent" where
  "recordMaintenance a =
     (if activeRun a \<noteq> None then a\<lparr>maintenance := Suc (maintenance a)\<rparr>
      else store_controller (map_option recordMaintenanceRequest (controller_of a)) a)"

section \<open>Events\<close>

fun reduce_event :: "agent_event \<Rightarrow> 'w agent \<Rightarrow> 'w agent" where
  "reduce_event (MessageStart m) a = a\<lparr>streamingMessage := Some m\<rparr>"
| "reduce_event (MessageUpdate m _) a = a\<lparr>streamingMessage := Some m\<rparr>"
| "reduce_event (MessageEnd m) a = a\<lparr>streamingMessage := None, agent_messages := agent_messages a @ [m]\<rparr>"
| "reduce_event (ToolExecutionStart i _ _) a = a\<lparr>pendingToolCalls := insert i (pendingToolCalls a)\<rparr>"
| "reduce_event (ToolExecutionEnd i _ _ _) a = a\<lparr>pendingToolCalls := pendingToolCalls a - {i}\<rparr>"
| "reduce_event (TurnEnd m _) a =
     (case errorMessage m of None \<Rightarrow> a | Some e \<Rightarrow> if e = [] then a else a\<lparr>agent_error := Some e\<rparr>)"
| "reduce_event (AgentEnd _ _) a = a\<lparr>streamingMessage := None\<rparr>"
| "reduce_event _ a = a"

definition processEvents :: "'w agent env \<Rightarrow> agent_event \<Rightarrow> 'w agent \<Rightarrow> unit throws \<times> 'w agent" where
  "processEvents callbacks ev a =
     (let a' = reduce_event ev a in
      if activeRun a' = None then (Inl ''Agent listener invoked outside active run'', a')
      else listener callbacks ev a')"

text \<open>The events processed, up to the first one whose listener throws.\<close>

fun process_all :: "'w agent env \<Rightarrow> agent_event list \<Rightarrow> 'w agent \<Rightarrow> unit throws \<times> 'w agent \<times> agent_event list" where
  "process_all callbacks [] a = (Inr (), a, [])"
| "process_all callbacks (ev # evs) a =
     (case processEvents callbacks ev a of
        (Inl e, a') \<Rightarrow> (Inl e, a', [ev])
      | (Inr _, a') \<Rightarrow> (case process_all callbacks evs a' of (r, a'', done') \<Rightarrow> (r, a'', ev # done')))"

section \<open>Runs\<close>

definition drain_steering :: "'w agent \<Rightarrow> message list throws \<times> 'w agent" where
  "drain_steering a =
     (if skipInitialSteeringPoll a then (Inr [], a\<lparr>skipInitialSteeringPoll := False\<rparr>)
      else (case drain (steeringQueue a) of (ms, q) \<Rightarrow> (Inr ms, a\<lparr>steeringQueue := q\<rparr>)))"

definition drain_followUps :: "'w agent \<Rightarrow> message list throws \<times> 'w agent" where
  "drain_followUps a = (case drain (followUpQueue a) of (ms, q) \<Rightarrow> (Inr ms, a\<lparr>followUpQueue := q\<rparr>))"

definition createLoopConfig :: "'w agent env \<Rightarrow> 'w agent env" where
  "createLoopConfig callbacks = callbacks\<lparr>listener := processEvents callbacks, aborted := (\<lambda>a. activeRun a = Some True),
     getSteeringMessages := drain_steering, getFollowUpMessages := drain_followUps\<rparr>"

definition createContextSnapshot :: "'w agent \<Rightarrow> agent_context" where
  "createContextSnapshot a = \<lparr>context_messages = agent_messages a, context_tools = agent_tools a\<rparr>"

definition agent_reasoning :: "'w agent \<Rightarrow> string option" where
  "agent_reasoning a = (if agent_thinkingLevel a = ''off'' then None else Some (agent_thinkingLevel a))"

definition start_state :: "bool \<Rightarrow> 'w agent \<Rightarrow> 'w agent run" where
  "start_state skip a = initial_run (a\<lparr>skipInitialSteeringPoll := skip\<rparr>) (createContextSnapshot a) (controller_of a) (agent_model a) (agent_reasoning a)"

definition begin_run :: "'w agent \<Rightarrow> 'w agent" where
  "begin_run a = a\<lparr>activeRun := Some False, isStreaming := True, streamingMessage := None, agent_error := None\<rparr>"

definition finishRun :: "'w agent \<Rightarrow> 'w agent" where
  "finishRun a = a\<lparr>isStreaming := False, streamingMessage := None, pendingToolCalls := {}, activeRun := None\<rparr>"

definition failure_events :: "assistant_message \<Rightarrow> agent_event list" where
  "failure_events m = [MessageStart (Assistant m), MessageEnd (Assistant m), TurnEnd m [], AgentEnd [Assistant m] None]"

definition handleRunFailure :: "'w agent env \<Rightarrow> string \<Rightarrow> 'w agent \<Rightarrow> unit throws \<times> 'w agent \<times> agent_event list" where
  "handleRunFailure callbacks e a =
     (case now callbacks a of (time, a') \<Rightarrow>
        process_all callbacks (failure_events \<lparr>assistant_content = [TextBlock [] None], assistant_api = model_api (agent_model a),
          assistant_provider = model_provider (agent_model a), assistant_model = model_id (agent_model a),
          stopReason = (if activeRun a = Some True then AbortedStop else ErrorStop), errorMessage = Some e,
          assistant_timestamp = time, assistant_rest = JNull\<rparr>) a')"

text \<open>What a run spent goes back to the controllers, with the maintenance recorded meanwhile.\<close>

definition settle_budget :: "budget option \<Rightarrow> 'w agent \<Rightarrow> 'w agent" where
  "settle_budget b a = (store_controller (map_option (recordMaintenanceRequest ^^ maintenance a) b) a)\<lparr>maintenance := 0\<rparr>"

record report =
  processed :: "agent_event list"
  asked_for :: "asked list"

definition no_report :: report where
  "no_report = \<lparr>processed = [], asked_for = []\<rparr>"

type_synonym 'w outcome = "unit throws \<times> 'w agent \<times> report"

definition runWithLifecycle ::
  "'w agent env \<Rightarrow> ('w agent \<Rightarrow> (message list throws \<times> 'w agent run) option) \<Rightarrow> 'w agent \<Rightarrow> 'w outcome option" where
  "runWithLifecycle callbacks executor a =
     (if activeRun a \<noteq> None then Some (Inl ''Agent is already processing.'', a, no_report)
      else case executor (begin_run a) of
        None \<Rightarrow> None
      | Some (Inr _, s) \<Rightarrow>
          Some (Inr (), finishRun (settle_budget (runBudget s) (world s)), \<lparr>processed = emitted s, asked_for = log s\<rparr>)
      | Some (Inl e, s) \<Rightarrow>
          (case handleRunFailure callbacks e (world s) of
             (r, a', evs) \<Rightarrow>
               Some (r, finishRun (settle_budget (runBudget s) a'), \<lparr>processed = emitted s @ evs, asked_for = log s\<rparr>)))"

definition runPromptMessages :: "'w agent env \<Rightarrow> message list \<Rightarrow> bool \<Rightarrow> 'w agent \<Rightarrow> 'w outcome option" where
  "runPromptMessages callbacks ms skip =
     runWithLifecycle callbacks (\<lambda>a. runAgentLoop (createLoopConfig callbacks) ms (start_state skip a))"

definition runContinuation :: "'w agent env \<Rightarrow> 'w agent \<Rightarrow> 'w outcome option" where
  "runContinuation callbacks =
     runWithLifecycle callbacks (\<lambda>a. runAgentLoopContinue (createLoopConfig callbacks) (start_state False a))"

datatype prompt_input = PromptText string "block list" | PromptMessage message | PromptMessages "message list"

definition normalizePromptInput :: "'w agent clock \<Rightarrow> prompt_input \<Rightarrow> 'w agent \<Rightarrow> message list \<times> 'w agent" where
  "normalizePromptInput clock given a =
     (case given of
        PromptMessages ms \<Rightarrow> (ms, a)
      | PromptMessage m \<Rightarrow> ([m], a)
      | PromptText t images \<Rightarrow>
          (case clock a of (time, a') \<Rightarrow> ([User \<lparr>user_content = Blocks (TextBlock t None # images), user_timestamp = time\<rparr>], a')))"

definition ensure_controller :: "'w agent clock \<Rightarrow> 'w agent \<Rightarrow> 'w agent" where
  "ensure_controller clock a =
     (if budgetController a = None
      then (case createBudgetController clock a of (c, a') \<Rightarrow> a'\<lparr>budgetController := c\<rparr>) else a)"

definition prompt :: "'w agent env \<Rightarrow> prompt_input \<Rightarrow> 'w agent \<Rightarrow> 'w outcome option" where
  "prompt callbacks given a =
     (if activeRun a \<noteq> None
      then Some (Inl ''Agent is already processing a prompt. Use steer() or followUp() to queue messages, or wait for completion.'', a, no_report)
      else
        (let a1 = (if session_budget a then ensure_controller (now callbacks) a
               else case createBudgetController (now callbacks) a of (c, a') \<Rightarrow> a'\<lparr>budgetController := c\<rparr>) in
         case normalizePromptInput (now callbacks) given a1 of (ms, a2) \<Rightarrow> runPromptMessages callbacks ms False a2))"

definition continue :: "'w agent env \<Rightarrow> 'w agent \<Rightarrow> 'w outcome option" where
  "continue callbacks a =
     (if activeRun a \<noteq> None
      then Some (Inl ''Agent is already processing. Wait for completion before continuing.'', a, no_report)
      else
        (let a1 = ensure_controller (now callbacks) a; ms = agent_messages a1 in
         if ms = [] \<or> list_all is_system ms then Some (Inl ''No messages to continue from'', a1, no_report)
         else if is_assistant (last ms)
         then
           (case drain (steeringQueue a1) of (steering, q) \<Rightarrow>
              let a2 = a1\<lparr>steeringQueue := q\<rparr> in
              if steering \<noteq> [] then runPromptMessages callbacks steering True a2
              else (case drain (followUpQueue a2) of (followUps, q') \<Rightarrow>
                let a3 = a2\<lparr>followUpQueue := q'\<rparr> in
                if followUps \<noteq> [] then runPromptMessages callbacks followUps False a3
                else Some (Inl ''Cannot continue from message role: assistant'', a3, no_report)))
         else runContinuation callbacks a1))"

end
