(* ===== verification/Agent_Props.thy ===== *)
theory Agent_Props imports Agent Agent_Loop_Run Agent_Loop_Worlds Agent_Loop_Budget Agent_Loop_Example begin

text \<open>
  What the agent guarantees around the runs of its loop. Callbacks may use the methods of the agent, which leave its
  transcript, its run and its controllers alone: the locale \<open>polite\<close> is that contract, and a \<open>sublocale\<close> of the invariants
  of the loop. It is interpreted on callbacks that act on the outside and call the agent's methods from its listener.
\<close>

section \<open>Polite callbacks\<close>

text \<open>The parts of the agent that only its own code writes.\<close>

definition same_core :: "'w agent \<Rightarrow> 'w agent \<Rightarrow> bool" where
  "same_core a a' \<longleftrightarrow> agent_messages a' = agent_messages a \<and> (activeRun a' = None) = (activeRun a = None) \<and>
     budgetController a' = budgetController a \<and> sharedBudget a' = sharedBudget a \<and> budgetPolicy a' = budgetPolicy a \<and>
     session_budget a' = session_budget a \<and> isStreaming a' = isStreaming a \<and> streamingMessage a' = streamingMessage a \<and>
     pendingToolCalls a' = pendingToolCalls a"

lemma same_core_refl [simp]: "same_core a a"
  by (simp add: same_core_def)

lemma same_core_trans: "same_core a b \<Longrightarrow> same_core b c \<Longrightarrow> same_core a c"
  by (simp add: same_core_def)

locale polite =
  fixes callbacks :: "'w agent env"
  assumes listener: "same_core a (snd (listener callbacks ev a))"
    and now: "same_core a (snd (now callbacks a))"
    and prepareNextTurn: "same_core a (snd (prepareNextTurn callbacks t a))"
    and prepareRequest: "same_core a (snd (prepareRequest callbacks c md level a))"
    and finishTurn: "same_core a (snd (finishTurn callbacks t a))"
    and shouldStopAfterTurn: "same_core a (snd (shouldStopAfterTurn callbacks t a))"
    and beforeToolCall: "same_core a (snd (beforeToolCall callbacks m tc args c a))"
    and afterToolCall: "same_core a (snd (afterToolCall callbacks m tc args out err c a))"
    and transformContext: "same_core a (snd (transformContext callbacks ms a))"
    and convertToLlm: "same_core a (snd (convertToLlm callbacks ms a))"
    and getApiKey: "same_core a (snd (getApiKey callbacks provider a))"
    and stream: "same_core a (snd (stream callbacks md ms thinking key a))"
    and prepareArguments: "same_core a (snd (prepareArguments callbacks tool raw a))"
    and execute_tool: "same_core a (snd (execute_tool callbacks tool i args a))"

text \<open>During a run: the transcript is the one it began with, and the messages whose end was announced.\<close>

definition running :: "'w agent \<Rightarrow> agent_event list \<Rightarrow> 'w agent \<Rightarrow> bool" where
  "running a0 evs a \<longleftrightarrow> agent_messages a = agent_messages a0 @ ended_messages evs \<and> activeRun a \<noteq> None \<and>
     budgetController a = budgetController a0 \<and> sharedBudget a = sharedBudget a0 \<and> budgetPolicy a = budgetPolicy a0 \<and>
     session_budget a = session_budget a0"

lemma running_same: "running a0 evs a \<Longrightarrow> same_core a a' \<Longrightarrow> running a0 evs a'"
  by (simp add: running_def same_core_def)

lemma running_reduce: "running a0 evs a \<Longrightarrow> running a0 (evs @ [ev]) (reduce_event ev a)"
  by (cases ev) (auto simp: running_def split: option.splits)

lemma same_core_drain: "same_core a (snd (drain_steering a))" "same_core a (snd (drain_followUps a))"
  by (simp_all add: drain_steering_def drain_followUps_def same_core_def split: prod.split)

context polite begin

lemma running_process: "running a0 evs a \<Longrightarrow> running a0 (evs @ [ev]) (snd (processEvents callbacks ev a))"
  using running_reduce [of a0 evs a ev] running_same [OF running_reduce listener, of a0 evs a ev ev]
  by (auto simp: processEvents_def Let_def)

lemma running_all:
  "running a0 evs a \<Longrightarrow> process_all callbacks more_evs a = (r, a', did) \<Longrightarrow> running a0 (evs @ did) a'"
proof (induction more_evs arbitrary: evs a did r a')
  case (Cons ev more_evs)
  obtain r1 a1 where one: "processEvents callbacks ev a = (r1, a1)" by force
  have a1: "running a0 (evs @ [ev]) a1" using running_process [OF Cons.prems(1), of ev] one by simp
  show ?case
  proof (cases r1)
    case (Inl e)
    then show ?thesis using Cons.prems(2) one a1 by auto
  next
    case (Inr u)
    obtain r2 a2 did2 where rest: "process_all callbacks more_evs a1 = (r2, a2, did2)" by (metis prod_cases3)
    then show ?thesis using Cons.prems(2) one Inr Cons.IH [OF a1 rest] by auto
  qed
qed simp

end

sublocale polite \<subseteq> loop: loop_invariant "createLoopConfig callbacks" "running a0" for a0
proof unfold_locales
  fix evs a ev
  assume "running a0 evs a"
  then show "running a0 (evs @ [ev]) (snd (Agent_Loop.listener (createLoopConfig callbacks) ev a))"
    using running_process by (simp add: createLoopConfig_def)
qed (simp_all add: createLoopConfig_def, (erule running_same, rule now prepareNextTurn prepareRequest finishTurn
  shouldStopAfterTurn beforeToolCall afterToolCall transformContext convertToLlm getApiKey stream prepareArguments execute_tool
  same_core_drain)+)

section \<open>Callbacks on the outside\<close>

datatype api_call = Steer message | FollowUp message | ClearSteering | ClearFollowUps | ClearAll | Abort | RecordMaintenance

fun call_api :: "api_call \<Rightarrow> 'w agent \<Rightarrow> 'w agent" where
  "call_api (Steer m) a = steer m a"
| "call_api (FollowUp m) a = followUp m a"
| "call_api ClearSteering a = clearSteeringQueue a"
| "call_api ClearFollowUps a = clearFollowUpQueue a"
| "call_api ClearAll a = clearAllQueues a"
| "call_api Abort a = abort a"
| "call_api RecordMaintenance a = recordMaintenance a"

text \<open>An action of the outside, on the agent; and a listener that also calls the agent's methods, while a run is active.\<close>

definition on_world :: "('w \<Rightarrow> 'a \<times> 'w) \<Rightarrow> 'w agent \<Rightarrow> 'a \<times> 'w agent" where
  "on_world f a = (case f (agent_world a) of (r, w) \<Rightarrow> (r, a\<lparr>agent_world := w\<rparr>))"

definition embed :: "(agent_event \<Rightarrow> 'w \<Rightarrow> api_call list) \<Rightarrow> 'w env \<Rightarrow> 'w agent env" where
  "embed calls env =
     \<lparr>listener = (\<lambda>ev a. if activeRun a = None then on_world (listener env ev) a
        else on_world (listener env ev) (fold call_api (calls ev (agent_world a)) a)),
      now = on_world (now env), aborted = (\<lambda>a. aborted env (agent_world a)),
      getSteeringMessages = on_world (getSteeringMessages env), getFollowUpMessages = on_world (getFollowUpMessages env),
      prepareNextTurn = (\<lambda>t. on_world (prepareNextTurn env t)), prepareRequest = (\<lambda>c md level. on_world (prepareRequest env c md level)),
      finishTurn = (\<lambda>t. on_world (finishTurn env t)), shouldStopAfterTurn = (\<lambda>t. on_world (shouldStopAfterTurn env t)),
      beforeToolCall = (\<lambda>m tc args c. on_world (beforeToolCall env m tc args c)),
      afterToolCall = (\<lambda>m tc args out err c. on_world (afterToolCall env m tc args out err c)),
      transformContext = (\<lambda>ms. on_world (transformContext env ms)), convertToLlm = (\<lambda>ms. on_world (convertToLlm env ms)),
      getApiKey = (\<lambda>provider. on_world (getApiKey env provider)), apiKey = apiKey env,
      stream = (\<lambda>md ms level key. on_world (stream env md ms level key)),
      prepareArguments = (\<lambda>tool raw. on_world (prepareArguments env tool raw)), validateToolArguments = validateToolArguments env,
      execute_tool = (\<lambda>tool i args. on_world (execute_tool env tool i args)),
      completion = (\<lambda>n a. completion env n (agent_world a)), toolExecution = toolExecution env\<rparr>"

lemma same_core_on_world: "same_core a (snd (on_world f a))"
  by (simp add: on_world_def same_core_def split_beta)

lemma same_core_call: "activeRun a \<noteq> None \<Longrightarrow> same_core a (call_api call a)"
  by (cases call) (simp_all add: same_core_def steer_def followUp_def clearSteeringQueue_def clearFollowUpQueue_def
    clearAllQueues_def abort_def recordMaintenance_def)

lemma same_core_calls: "activeRun a \<noteq> None \<Longrightarrow> same_core a (fold call_api calls a)"
proof (induction calls arbitrary: a)
  case (Cons call calls)
  have one: "same_core a (call_api call a)" by (rule same_core_call [OF Cons.prems])
  then have "activeRun (call_api call a) \<noteq> None" using Cons.prems by (simp add: same_core_def)
  from Cons.IH [OF this] one show ?case by (auto intro: same_core_trans)
qed simp

interpretation embedded: polite "embed calls env" for calls :: "agent_event \<Rightarrow> 'w \<Rightarrow> api_call list" and env :: "'w env"
proof
  fix a :: "'w agent" and ev
  show "same_core a (snd (listener (embed calls env) ev a))"
    using same_core_on_world same_core_calls same_core_trans by (fastforce simp: embed_def)
qed (simp_all add: embed_def same_core_on_world)

section \<open>Runs of the agent\<close>

definition idle :: "'w agent \<Rightarrow> bool" where
  "idle a \<longleftrightarrow> activeRun a = None \<and> \<not> isStreaming a \<and> streamingMessage a = None \<and> pendingToolCalls a = {}"

lemma store_controller_same [simp]:
  "agent_messages (store_controller b a) = agent_messages a" "activeRun (store_controller b a) = activeRun a"
  "budgetPolicy (store_controller b a) = budgetPolicy a" "session_budget (store_controller b a) = session_budget a"
  "isStreaming (store_controller b a) = isStreaming a" "streamingMessage (store_controller b a) = streamingMessage a"
  "pendingToolCalls (store_controller b a) = pendingToolCalls a"
  by (auto simp: store_controller_def split: option.splits controller_ref.splits budget.splits)

lemma finish_settle:
  "idle (finishRun (settle_budget b a))" "agent_messages (finishRun (settle_budget b a)) = agent_messages a"
  "budgetPolicy (finishRun (settle_budget b a)) = budgetPolicy a" "session_budget (finishRun (settle_budget b a)) = session_budget a"
  by (simp_all add: idle_def finishRun_def settle_budget_def)

text \<open>What a method that may run leaves behind, relative to the agent it began with.\<close>

definition grown :: "'w agent \<Rightarrow> 'w outcome \<Rightarrow> bool" where
  "grown a = (\<lambda>(r, a', rep). idle a' \<and> agent_messages a' = agent_messages a @ ended_messages (processed rep) \<and>
     (r = Inr () \<longrightarrow> (\<exists>evs ms stop. processed rep = evs @ [AgentEnd ms stop] \<and> (stop \<noteq> None \<longrightarrow> ms = ended_messages (processed rep)))))"

lemma grownI:
  "idle a' \<Longrightarrow> agent_messages a' = agent_messages a @ ended_messages (processed rep) \<Longrightarrow>
   (r = Inr () \<Longrightarrow> \<exists>evs ms stop. processed rep = evs @ [AgentEnd ms stop] \<and> (stop \<noteq> None \<longrightarrow> ms = ended_messages (processed rep))) \<Longrightarrow>
   grown a (r, a', rep)"
  by (simp add: grown_def)

lemma process_all_done: "process_all callbacks evs a = (Inr (), a', did) \<Longrightarrow> did = evs"
proof (induction evs arbitrary: a did)
  case (Cons ev evs)
  obtain r1 a1 where one: "processEvents callbacks ev a = (r1, a1)" by force
  obtain r2 a2 did2 where rest: "process_all callbacks evs a1 = (r2, a2, did2)" by (metis prod_cases3)
  show ?case using Cons.prems Cons.IH [of a1 did2] one rest by (cases r1) auto
qed simp

context polite begin

lemma handle_failure:
  assumes "running a0 evs a" and "handleRunFailure callbacks e a = (r, a', did)"
  shows "running a0 (evs @ did) a'" and "r = Inr () \<Longrightarrow> \<exists>m. did = failure_events m"
proof -
  obtain time a1 where clock: "now callbacks a = (time, a1)" by force
  have "running a0 evs a1" using running_same [OF assms(1), of a1] local.now [of a] clock by simp
  then show "running a0 (evs @ did) a'"
    using assms(2) clock by (auto simp: handleRunFailure_def intro: running_all)
  show "\<exists>m. did = failure_events m" if "r = Inr ()"
    using assms(2) clock that by (auto simp: handleRunFailure_def dest: process_all_done)
qed

lemma lifecycle_grows:
  assumes "activeRun a = None"
    and "\<And>r s. executor (begin_run a) = Some (r, s) \<Longrightarrow> running (begin_run a) (emitted s) (world s)"
    and "\<And>ms s. executor (begin_run a) = Some (Inr ms, s) \<Longrightarrow>
      \<exists>evs stop. emitted s = evs @ [AgentEnd ms stop] \<and> ms = ended_messages (emitted s)"
    and "runWithLifecycle callbacks executor a = Some out"
  shows "grown a out"
proof -
  obtain r s where run: "executor (begin_run a) = Some (r, s)"
    using assms(1,4) by (auto simp: runWithLifecycle_def split: option.splits)
  have messages: "agent_messages (begin_run a) = agent_messages a" by (simp add: begin_run_def)
  note running = assms(2) [OF run]
  show ?thesis
  proof (cases r)
    case (Inr ms)
    then have out: "out = (Inr (), finishRun (settle_budget (runBudget s) (world s)), \<lparr>processed = emitted s, asked_for = log s\<rparr>)"
      using assms(1,4) run by (simp add: runWithLifecycle_def)
    show ?thesis unfolding out
      by (rule grownI) (use running messages assms(3) [OF run [unfolded Inr]] in \<open>auto simp: finish_settle running_def\<close>)
  next
    case (Inl e)
    obtain r2 a2 evs where fail: "handleRunFailure callbacks e (world s) = (r2, a2, evs)" by (metis prod_cases3)
    have out: "out = (r2, finishRun (settle_budget (runBudget s) a2), \<lparr>processed = emitted s @ evs, asked_for = log s\<rparr>)"
      using assms(1,4) run Inl fail by (simp add: runWithLifecycle_def)
    note after = handle_failure [OF running fail]
    show ?thesis unfolding out
    proof (rule grownI)
      assume "r2 = Inr ()"
      then obtain m where "evs = failure_events m" using after(2) by blast
      then have "emitted s @ evs = (emitted s @ butlast (failure_events m)) @ [AgentEnd [Assistant m] None]"
        by (simp add: failure_events_def)
      then show "\<exists>evs' ms stop. processed \<lparr>processed = emitted s @ evs, asked_for = log s\<rparr> = evs' @ [AgentEnd ms stop] \<and>
          (stop \<noteq> None \<longrightarrow> ms = ended_messages (processed \<lparr>processed = emitted s @ evs, asked_for = log s\<rparr>))"
        by (metis report.select_convs(1))
    qed (use after(1) messages in \<open>auto simp: finish_settle running_def\<close>)
  qed
qed

lemma loop_result:
  assumes "starts_once callbacks"
    and "runAgentLoop (createLoopConfig callbacks) ms (start_state skip a) = Some (r, s) \<or>
      runAgentLoopContinue (createLoopConfig callbacks) (start_state skip a) = Some (r, s)"
    and "activeRun a \<noteq> None"
  shows "running a (emitted s) (world s)"
    and "r = Inr new \<Longrightarrow> \<exists>evs stop. emitted s = evs @ [AgentEnd new stop] \<and> new = ended_messages (emitted s)"
proof -
  have init: "running a [] (a\<lparr>skipInitialSteeringPoll := skip\<rparr>)"
    using assms(3) by (simp add: running_def ended_messages_def)
  show "running a (emitted s) (world s)" by (rule loop.run_inv [OF init assms(2) [unfolded start_state_def]])
  have "starts_once (createLoopConfig callbacks)" using assms(1) by (simp add: starts_once_def createLoopConfig_def)
  from run_life [OF this start_state_def assms(2)]
  show "\<exists>evs stop. emitted s = evs @ [AgentEnd new stop] \<and> new = ended_messages (emitted s)" if "r = Inr new"
    using that by auto
qed

lemma prompt_messages_grow:
  assumes "starts_once callbacks" and "activeRun a = None" and "runPromptMessages callbacks ms skip a = Some out"
  shows "grown a out"
proof (rule lifecycle_grows [OF assms(2) _ _ assms(3) [unfolded runPromptMessages_def]])
  have active: "activeRun (begin_run a) \<noteq> None" by (simp add: begin_run_def)
  fix r s assume run: "runAgentLoop (createLoopConfig callbacks) ms (start_state skip (begin_run a)) = Some (r, s)"
  show "running (begin_run a) (emitted s) (world s)" by (rule loop_result(1) [OF assms(1) disjI1 [OF run] active])
next
  have active: "activeRun (begin_run a) \<noteq> None" by (simp add: begin_run_def)
  fix new s assume run: "runAgentLoop (createLoopConfig callbacks) ms (start_state skip (begin_run a)) = Some (Inr new, s)"
  show "\<exists>evs stop. emitted s = evs @ [AgentEnd new stop] \<and> new = ended_messages (emitted s)"
    by (rule loop_result(2) [OF assms(1) disjI1 [OF run] active refl])
qed

lemma continuation_grows:
  assumes "starts_once callbacks" and "activeRun a = None" and "runContinuation callbacks a = Some out"
  shows "grown a out"
proof (rule lifecycle_grows [OF assms(2) _ _ assms(3) [unfolded runContinuation_def]])
  have active: "activeRun (begin_run a) \<noteq> None" by (simp add: begin_run_def)
  fix r s assume run: "runAgentLoopContinue (createLoopConfig callbacks) (start_state False (begin_run a)) = Some (r, s)"
  show "running (begin_run a) (emitted s) (world s)" by (rule loop_result(1) [OF assms(1) disjI2 [OF run] active])
next
  have active: "activeRun (begin_run a) \<noteq> None" by (simp add: begin_run_def)
  fix new s assume run: "runAgentLoopContinue (createLoopConfig callbacks) (start_state False (begin_run a)) = Some (Inr new, s)"
  show "\<exists>evs stop. emitted s = evs @ [AgentEnd new stop] \<and> new = ended_messages (emitted s)"
    by (rule loop_result(2) [OF assms(1) disjI2 [OF run] active refl])
qed

end

section \<open>Prompting and continuing\<close>

text \<open>Up to the controllers, the queues and the outside.\<close>

definition same_transcript :: "'w agent \<Rightarrow> 'w agent \<Rightarrow> bool" where
  "same_transcript a a' \<longleftrightarrow> agent_messages a' = agent_messages a \<and> activeRun a' = None \<and> (idle a \<longrightarrow> idle a')"

lemma grown_from: "same_transcript a a' \<Longrightarrow> grown a' out \<Longrightarrow> grown a out"
  by (auto simp: grown_def same_transcript_def)

lemma same_transcript_queues:
  "same_transcript a a' \<Longrightarrow> same_transcript a (a'\<lparr>steeringQueue := q\<rparr>)"
  "same_transcript a a' \<Longrightarrow> same_transcript a (a'\<lparr>followUpQueue := q\<rparr>)"
  "same_transcript a a' \<Longrightarrow> same_transcript a (a'\<lparr>budgetController := c\<rparr>)"
  by (auto simp: same_transcript_def idle_def)

lemma same_transcript_core: "same_transcript a a' \<Longrightarrow> same_core a' a'' \<Longrightarrow> same_transcript a a''"
  by (auto simp: same_transcript_def same_core_def idle_def)

lemma grown_refused: "idle a \<Longrightarrow> same_transcript a a' \<Longrightarrow> grown a (Inl e, a', no_report)"
  by (auto simp: grown_def same_transcript_def no_report_def ended_messages_def)

context polite begin

lemma createBudgetController_core: "same_core a (snd (createBudgetController (now callbacks) a))"
  using local.now [of a] by (simp add: createBudgetController_def createRunBudgetController_def split_beta split: option.split)

lemma same_transcript_create:
  "same_transcript a a' \<Longrightarrow> createBudgetController (now callbacks) a' = (c, a'') \<Longrightarrow> same_transcript a (a''\<lparr>budgetController := c\<rparr>)"
  using createBudgetController_core [of a'] same_transcript_core by (auto intro!: same_transcript_queues)

lemma same_transcript_ensure: "same_transcript a a' \<Longrightarrow> same_transcript a (ensure_controller (now callbacks) a')"
  using same_transcript_create by (auto simp: ensure_controller_def split: prod.split)

lemma same_transcript_normalize:
  "same_transcript a a' \<Longrightarrow> normalizePromptInput (now callbacks) given a' = (ms, a'') \<Longrightarrow> same_transcript a a''"
  using local.now [of a'] same_transcript_core
  by (auto simp: normalizePromptInput_def split: prompt_input.splits prod.splits)

lemma same_transcript_self: "idle a \<Longrightarrow> same_transcript a a"
  by (simp add: same_transcript_def idle_def)

lemma prompt_grows:
  assumes "starts_once callbacks" and "idle a" and "prompt callbacks given a = Some out"
  shows "grown a out"
proof -
  have idle: "activeRun a = None" using assms(2) by (simp add: idle_def)
  define a1 where "a1 = (if session_budget a then ensure_controller (now callbacks) a
    else case createBudgetController (now callbacks) a of (c, a') \<Rightarrow> a'\<lparr>budgetController := c\<rparr>)"
  have a1: "same_transcript a a1"
    using same_transcript_ensure same_transcript_create same_transcript_self [OF assms(2)]
    by (auto simp: a1_def split: prod.split)
  obtain ms a2 where a2: "normalizePromptInput (now callbacks) given a1 = (ms, a2)" by force
  have same: "same_transcript a a2" by (rule same_transcript_normalize [OF a1 a2])
  then have inactive: "activeRun a2 = None" by (simp add: same_transcript_def)
  have "runPromptMessages callbacks ms False a2 = Some out"
    using assms(3) idle a2 by (simp add: prompt_def a1_def [symmetric])
  from grown_from [OF same prompt_messages_grow [OF assms(1) inactive this]] show ?thesis .
qed

lemma continue_grows:
  assumes "starts_once callbacks" and "idle a" and "continue callbacks a = Some out"
  shows "grown a out"
proof -
  have idle: "activeRun a = None" using assms(2) by (simp add: idle_def)
  define a1 where "a1 = ensure_controller (now callbacks) a"
  have a1: "same_transcript a a1" unfolding a1_def by (rule same_transcript_ensure [OF same_transcript_self [OF assms(2)]])
  obtain steering q where steering: "drain (steeringQueue a1) = (steering, q)" by force
  define a2 where "a2 = a1\<lparr>steeringQueue := q\<rparr>"
  obtain followUps q' where followUps: "drain (followUpQueue a2) = (followUps, q')" by force
  define a3 where "a3 = a2\<lparr>followUpQueue := q'\<rparr>"
  have a2: "same_transcript a a2" and a3: "same_transcript a a3"
    unfolding a3_def a2_def using a1 by (simp_all add: same_transcript_queues)
  have inactive: "activeRun a1 = None" "activeRun a2 = None" "activeRun a3 = None"
    using a1 a2 a3 by (simp_all add: same_transcript_def)
  let ?ms = "agent_messages a1"
  have out: "Some out =
      (if ?ms = [] \<or> list_all is_system ?ms then Some (Inl ''No messages to continue from'', a1, no_report)
       else if is_assistant (last ?ms)
       then (if steering \<noteq> [] then runPromptMessages callbacks steering True a2
             else if followUps \<noteq> [] then runPromptMessages callbacks followUps False a3
             else Some (Inl ''Cannot continue from message role: assistant'', a3, no_report))
       else runContinuation callbacks a1)"
    using assms(3) [symmetric] idle steering followUps
    by (simp add: continue_def Let_def a1_def [symmetric] a2_def [symmetric] a3_def [symmetric])
  consider "out = (Inl ''No messages to continue from'', a1, no_report)" | "runPromptMessages callbacks steering True a2 = Some out"
    | "runPromptMessages callbacks followUps False a3 = Some out"
    | "out = (Inl ''Cannot continue from message role: assistant'', a3, no_report)" | "runContinuation callbacks a1 = Some out"
    using out by (auto split: if_splits)
  then show ?thesis
  proof cases
    case 1
    then show ?thesis using grown_refused [OF assms(2) a1] by simp
  next
    case 2
    then show ?thesis using prompt_messages_grow [OF assms(1) inactive(2)] grown_from [OF a2] by blast
  next
    case 3
    then show ?thesis using prompt_messages_grow [OF assms(1) inactive(3)] grown_from [OF a3] by blast
  next
    case 4
    then show ?thesis using grown_refused [OF assms(2) a3] by simp
  next
    case 5
    then show ?thesis using continuation_grows [OF assms(1) inactive(1)] grown_from [OF a1] by blast
  qed
qed

end

section \<open>An example\<close>

definition example_options :: agent_options where
  "example_options = \<lparr>option_systemPrompt = Some ''Be brief.'', option_messages = [], option_tools = [example_tool],
     option_model = None, option_thinkingLevel = None, option_steeringMode = None, option_followUpMode = None,
     option_runBudget = Some example_policy, option_session_budget = True, option_sharedBudget = None\<rparr>"

definition example_agent :: "nat agent" where
  "example_agent = new_agent example_options 0"

text \<open>When the first tool ends, its listener queues a follow-up.\<close>

definition example_callbacks :: "nat agent env" where
  "example_callbacks = embed (\<lambda>ev _. case ev of ToolExecutionEnd _ _ _ _ \<Rightarrow> [FollowUp example_prompt] | _ \<Rightarrow> []) example_env"

definition example_prompted :: "nat outcome option" where
  "example_prompted = prompt example_callbacks (PromptMessages [example_prompt]) example_agent"

definition example_after :: "nat agent" where
  "example_after = (case example_prompted of Some (_, a, _) \<Rightarrow> a | None \<Rightarrow> example_agent)"

definition example_report :: report where
  "example_report = (case example_prompted of Some (_, _, rep) \<Rightarrow> rep | None \<Rightarrow> no_report)"

lemma example_prompt_evaluates:
  "case example_prompted of Some (Inr _, a, rep) \<Rightarrow> length (agent_messages a) = 7 \<and> length (asked_for rep) = 4 | _ \<Rightarrow> False"
  by code_simp

lemma example_prompt_returns:
  "prompt example_callbacks (PromptMessages [example_prompt]) example_agent = Some (Inr (), example_after, example_report)"
  using example_prompt_evaluates
  by (auto simp: example_after_def example_report_def example_prompted_def split: option.splits prod.splits sum.splits)

lemma example_callbacks_once: "starts_once example_callbacks"
  unfolding starts_once_def example_callbacks_def example_env_def embed_def on_world_def example_stream_def
  by (auto split: if_splits prod.splits)

lemma example_polite: "polite example_callbacks"
  unfolding example_callbacks_def by (rule embedded.polite_axioms)

lemma example_idle: "idle example_agent"
  by (simp add: idle_def example_agent_def new_agent_def)

section \<open>Properties\<close>

text \<open>
  C8: A prompt or a continuation of an idle agent, however it ends, leaves the agent idle: no run, nothing streaming, no tool
  call pending. Its transcript is the one it had, followed by exactly the messages whose end the agent announced to its
  listeners, in that order: those of a run that fails are kept, and the message that reports the failure follows them. When
  the call returns, the last thing announced was the end of the run, and unless the run failed with the messages it added.
  The callbacks may use every method of the agent that queues, aborts or records.
\<close>
theorem agent_transcript_grows:
  assumes "polite callbacks" and "starts_once callbacks" and "idle a"
    and "prompt callbacks given a = Some (r, a', rep) \<or> continue callbacks a = Some (r, a', rep)"
  shows "idle a' \<and> agent_messages a' = agent_messages a @ ended_messages (processed rep) \<and>
    (r = Inr () \<longrightarrow> (\<exists>evs ms stop. processed rep = evs @ [AgentEnd ms stop] \<and> (stop \<noteq> None \<longrightarrow> ms = ended_messages (processed rep))))"
  using polite.prompt_grows [OF assms(1-3), of given "(r, a', rep)"] polite.continue_grows [OF assms(1-3), of "(r, a', rep)"] assms(4)
  by (auto simp: grown_def)

theorem agent_transcript_grows_witness:
  "idle example_after \<and> agent_messages example_after = agent_messages example_agent @ ended_messages (processed example_report)"
  using agent_transcript_grows [OF example_polite example_callbacks_once example_idle
    disjI1 [OF example_prompt_returns]] by blast

end
