(* ===== verification/Agent_Budget.thy ===== *)
theory Agent_Budget imports Agent_Props begin

text \<open>
  The budgets of an agent over its life: whatever is prompted, continued, queued and reset, the requests and the calls of all
  its runs together stay within a shared controller, and within its own one when its scope is the session. The locale
  \<open>ledger\<close> is what the agent relies on: what is left of the controllers of a budget bounds what a run asks for. It is
  interpreted on the requests and on the calls of the loop.
\<close>

section \<open>The shape of a budget\<close>

fun bare :: "budget \<Rightarrow> budget" where
  "bare (Stock c) = Stock \<lparr>policy = policy c, usage = \<lparr>providerRequests = 0, toolCalls = 0, maintenanceRequests = 0, startedAt = 0\<rparr>\<rparr>"
| "bare (Composite p s) = Composite (bare p) (bare s)"

lemma bare_begin: "tryBeginProviderRequest clock b w = ((ok, b'), w') \<Longrightarrow> bare b' = bare b"
proof (induction b arbitrary: ok b' w w')
  case (Stock c)
  then show ?case by (auto simp: count_request_def split: prod.splits if_splits)
next
  case (Composite p q)
  obtain okp p' w2 where p: "\<And>w1. either_blocks blocksProviderRequest clock p q w = (False, w1) \<Longrightarrow> tryBeginProviderRequest clock p w1 = ((okp, p'), w2)"
    by (cases "tryBeginProviderRequest clock p (snd (either_blocks blocksProviderRequest clock p q w))") (metis prod.collapse snd_conv)
  obtain oks q' w3 where q: "tryBeginProviderRequest clock q w2 = ((oks, q'), w3)" by (metis prod.collapse)
  show ?case using Composite.prems p q Composite.IH(1) [OF p] Composite.IH(2) [OF q]
    by (auto split: prod.splits if_splits)
qed

lemma bare_accept: "tryAcceptToolCall clock b w = ((ok, b'), w') \<Longrightarrow> bare b' = bare b"
proof (induction b arbitrary: ok b' w w')
  case (Stock c)
  then show ?case by (auto simp: count_call_def split: prod.splits if_splits)
next
  case (Composite p q)
  obtain okp p' w2 where p: "\<And>w1. either_blocks blocksToolCall clock p q w = (False, w1) \<Longrightarrow> tryAcceptToolCall clock p w1 = ((okp, p'), w2)"
    by (cases "tryAcceptToolCall clock p (snd (either_blocks blocksToolCall clock p q w))") (metis prod.collapse snd_conv)
  obtain oks q' w3 where q: "tryAcceptToolCall clock q w2 = ((oks, q'), w3)" by (metis prod.collapse)
  show ?case using Composite.prems p q Composite.IH(1) [OF p] Composite.IH(2) [OF q]
    by (auto split: prod.splits if_splits)
qed

lemma bare_maintenance [simp]: "bare (recordMaintenanceRequest b) = bare b"
  by (induction b) (simp_all add: count_maintenance_def)

interpretation shapes: metered "\<lambda>b. if bare b = shape then Some 0 else None" False False 0 0 clock for shape clock
  by unfold_locales (auto dest: bare_begin bare_accept split: if_splits)

lemma run_shape:
  assumes "runAgentLoop env prompts (initial_run w c (Some b) md level) = Some (r, s) \<or>
    runAgentLoopContinue env (initial_run w c (Some b) md level) = Some (r, s)"
  shows "\<exists>b'. runBudget s = Some b' \<and> bare b' = bare b"
proof -
  have whole: "(if bare b = bare b then Some 0 else None) = Some (0 :: nat)" by simp
  have "spent (\<lambda>b'. if bare b' = bare b then Some 0 else None) (kind False False) 0 0 s"
    using assms [unfolded runAgentLoop_def runAgentLoopContinue_def]
    by (elim disjE) (erule shapes.run_metered [OF refl keeps_books_start_prompts started_run(1) whole started_run(2)]
      shapes.run_metered [OF refl keeps_books_start_continue started_run(1) whole started_run(2)])+
  then show ?thesis by (auto simp: spent_def split: if_splits)
qed

lemma leaves_maintenance: "leaves (recordMaintenanceRequest b) = map count_maintenance (leaves b)"
  by (induction b) simp_all

section \<open>A ledger\<close>

locale ledger =
  fixes left :: "nat \<Rightarrow> budget \<Rightarrow> nat option" and count :: "asked list \<Rightarrow> nat" and callbacks :: "'w agent env"
  assumes run: "runAgentLoop (createLoopConfig callbacks) prompts (initial_run a c (Some b) md level) = Some (r, s) \<or>
      runAgentLoopContinue (createLoopConfig callbacks) (initial_run a c (Some b) md level) = Some (r, s) \<Longrightarrow> left i b = Some n \<Longrightarrow>
      \<exists>b' n'. runBudget s = Some b' \<and> left i b' = Some n' \<and> count (log s) + n' \<le> n"
    and own: "left 0 (Composite (Stock ct) sh) = left 0 (Stock ct)"
    and shared: "left (Suc i) (Composite (Stock ct) sh) = left i sh"
    and maintained: "left i (recordMaintenanceRequest b) = left i b"
    and count_Nil: "count [] = 0"
    and count_append: "count (xs @ ys) = count xs + count ys"

interpretation requests_ledger: ledger requests_left_at count_requests callbacks for callbacks :: "'w agent env"
proof
  fix i b
  show "requests_left_at i (recordMaintenanceRequest b) = requests_left_at i b"
    by (simp add: requests_left_at_def leaves_maintenance count_maintenance_def)
qed (erule (1) run_meter(1), simp_all add: requests_left_at_def count_requests_def count_asked_def)

interpretation calls_ledger: ledger calls_left_at count_executions callbacks for callbacks :: "'w agent env"
proof
  fix i b
  show "calls_left_at i (recordMaintenanceRequest b) = calls_left_at i b"
    by (simp add: calls_left_at_def leaves_maintenance count_maintenance_def)
qed (erule (1) run_meter(2), simp_all add: calls_left_at_def count_executions_def count_asked_def)

section \<open>The controllers of an agent\<close>

definition consistent :: "'w agent \<Rightarrow> bool" where
  "consistent a \<longleftrightarrow>
     (case budgetController a of
        None \<Rightarrow> True
      | Some (OwnController _) \<Rightarrow> sharedBudget a = None
      | Some SharedController \<Rightarrow> sharedBudget a \<noteq> None \<and> budgetPolicy a = None
      | Some (ComposedController _) \<Rightarrow> sharedBudget a \<noteq> None)"

lemma consistent_controller: "consistent a \<Longrightarrow> (controller_of a = None) = (budgetController a = None)"
  by (auto simp: consistent_def controller_of_def split: option.splits controller_ref.splits)

definition same_budget :: "'w agent \<Rightarrow> 'w agent \<Rightarrow> bool" where
  "same_budget a a' \<longleftrightarrow> budgetController a' = budgetController a \<and> sharedBudget a' = sharedBudget a \<and> budgetPolicy a' = budgetPolicy a \<and>
     session_budget a' = session_budget a"

lemma same_budget_refl [simp]: "same_budget a a"
  by (simp add: same_budget_def)

lemma same_budget_controller: "same_budget a a' \<Longrightarrow> controller_of a' = controller_of a \<and> consistent a' = consistent a"
  by (simp add: same_budget_def controller_of_def consistent_def split: option.split controller_ref.split)

lemma same_core_budget: "same_core a a' \<Longrightarrow> same_budget a a'"
  by (simp add: same_core_def same_budget_def)

definition own_controller :: "'w agent \<Rightarrow> controller option" where
  "own_controller a =
     (case budgetController a of Some (OwnController c) \<Rightarrow> Some c | Some (ComposedController c) \<Rightarrow> Some c | _ \<Rightarrow> None)"

lemma bare_Stock: "bare b = bare (Stock c) \<Longrightarrow> \<exists>c'. b = Stock c'"
  by (cases b) simp_all

lemma bare_Composite: "bare b = bare (Composite (Stock c) sh) \<Longrightarrow> \<exists>c' sh'. b = Composite (Stock c') sh' \<and> bare sh' = bare sh"
proof (cases b)
  case (Composite p q)
  then show "bare b = bare (Composite (Stock c) sh) \<Longrightarrow> \<exists>c' sh'. b = Composite (Stock c') sh' \<and> bare sh' = bare sh"
    using bare_Stock [of p c] by auto
qed simp

definition spends :: "(nat \<Rightarrow> budget \<Rightarrow> nat option) \<Rightarrow> nat \<Rightarrow> 'w agent \<Rightarrow> 'w agent \<Rightarrow> bool" where
  "spends left k a a' \<longleftrightarrow>
     (\<forall>i sh n. sharedBudget a = Some sh \<longrightarrow> left i sh = Some n \<longrightarrow>
        (\<exists>sh' n'. sharedBudget a' = Some sh' \<and> left i sh' = Some n' \<and> k + n' \<le> n)) \<and>
     (\<forall>c n. own_controller a = Some c \<longrightarrow> left 0 (Stock c) = Some n \<longrightarrow>
        (\<exists>c' n'. own_controller a' = Some c' \<and> left 0 (Stock c') = Some n' \<and> k + n' \<le> n))"

lemma spends_same: "same_budget a a' \<Longrightarrow> spends left 0 a a'"
  by (auto simp: spends_def same_budget_def own_controller_def)

text \<open>What is put back has the shape of what was taken.\<close>

definition kept :: "'w agent \<Rightarrow> 'w agent \<Rightarrow> bool" where
  "kept a a' \<longleftrightarrow> consistent a' \<and> budgetPolicy a' = budgetPolicy a \<and> session_budget a' = session_budget a \<and>
     (budgetController a' = None) = (budgetController a = None) \<and> (sharedBudget a' = None) = (sharedBudget a = None)"

lemma store_kept:
  assumes "consistent a" and "controller_of a = Some b" and "bare b' = bare b"
  shows "kept a (store_controller (Some b') a)"
proof (cases "budgetController a")
  case None
  then show ?thesis using assms by (simp add: controller_of_def)
next
  case (Some ref)
  show ?thesis
  proof (cases ref)
    case (OwnController c)
    then have "b = Stock c" using assms(2) Some by (simp add: controller_of_def)
    then obtain c' where "b' = Stock c'" using assms(3) bare_Stock by blast
    then show ?thesis using assms(1) Some OwnController by (simp add: store_controller_def kept_def consistent_def)
  next
    case SharedController
    then show ?thesis using assms(1) Some by (simp add: store_controller_def kept_def consistent_def)
  next
    case (ComposedController c)
    then obtain sh where "b = Composite (Stock c) sh" using assms(2) Some by (auto simp: controller_of_def)
    then obtain c' sh' where "b' = Composite (Stock c') sh'" using assms(3) bare_Composite by blast
    then show ?thesis using assms(1) Some ComposedController by (auto simp: store_controller_def kept_def consistent_def)
  qed
qed

context ledger begin

lemma store_spends:
  assumes "consistent a" and "controller_of a = Some b" and "bare b' = bare b"
    and less: "\<And>i n. left i b = Some n \<Longrightarrow> \<exists>n'. left i b' = Some n' \<and> k + n' \<le> n"
  shows "spends left k a (store_controller (Some b') a)"
proof (cases "budgetController a")
  case None
  then show ?thesis using assms by (simp add: controller_of_def)
next
  case (Some ref)
  show ?thesis
  proof (cases ref)
    case (OwnController c)
    then have b: "b = Stock c" using assms(2) Some by (simp add: controller_of_def)
    then obtain c' where "b' = Stock c'" using assms(3) bare_Stock by blast
    then show ?thesis using assms(1) Some OwnController less b
      by (simp add: spends_def store_controller_def own_controller_def consistent_def)
  next
    case SharedController
    then have b: "sharedBudget a = Some b" using assms(2) Some by (simp add: controller_of_def)
    then show ?thesis using Some SharedController less by (simp add: spends_def store_controller_def own_controller_def)
  next
    case (ComposedController c)
    then obtain sh where b: "b = Composite (Stock c) sh" "sharedBudget a = Some sh" using assms(2) Some by (auto simp: controller_of_def)
    then obtain c' sh' where b': "b' = Composite (Stock c') sh'" using assms(3) bare_Composite by blast
    have "\<exists>n'. left i sh' = Some n' \<and> k + n' \<le> n" if "left i sh = Some n" for i n
      using less [of "Suc i" n] that b b' by (simp add: shared)
    moreover have "\<exists>n'. left 0 (Stock c') = Some n' \<and> k + n' \<le> n" if "left 0 (Stock c) = Some n" for n
      using less [of 0 n] that b b' by (simp add: own)
    ultimately show ?thesis using Some ComposedController b b' by (simp add: spends_def store_controller_def own_controller_def)
  qed
qed

lemma maintained_times: "left i ((recordMaintenanceRequest ^^ k) b) = left i b" "bare ((recordMaintenanceRequest ^^ k) b) = bare b"
  by (induction k) (simp_all add: maintained)

end

section \<open>A run\<close>

lemma settled_fields:
  "kept a (finishRun (a'\<lparr>maintenance := 0\<rparr>)) = kept a a'" "spends left k a (finishRun (a'\<lparr>maintenance := 0\<rparr>)) = spends left k a a'"
  by (simp_all add: kept_def consistent_def spends_def own_controller_def finishRun_def split: option.split controller_ref.split)

lemma from_same:
  assumes "same_budget a v"
  shows "kept v a' \<Longrightarrow> kept a a'" "spends left k v a' \<Longrightarrow> spends left k a a'"
  using assms by (simp_all add: kept_def same_budget_def spends_def own_controller_def)

lemma running_budget: "running (begin_run a) evs v \<Longrightarrow> same_budget a v"
  by (simp add: running_def same_budget_def begin_run_def)

lemma begin_run_budget: "same_budget a (begin_run a)"
  by (simp add: same_budget_def begin_run_def)

locale agent_ledger = polite callbacks + ledger left count callbacks
  for callbacks :: "'w agent env" and left :: "nat \<Rightarrow> budget \<Rightarrow> nat option" and count :: "asked list \<Rightarrow> nat"
begin

text \<open>A run whose controller is \<open>b\<close> used it up to \<open>B\<close>.\<close>

definition used :: "nat \<Rightarrow> budget option \<Rightarrow> budget option \<Rightarrow> bool" where
  "used k b B \<longleftrightarrow> (\<forall>b0. b = Some b0 \<longrightarrow> (\<exists>b'. B = Some b' \<and> bare b' = bare b0 \<and>
     (\<forall>i n. left i b0 = Some n \<longrightarrow> (\<exists>n'. left i b' = Some n' \<and> k + n' \<le> n))))"

lemma settle_run:
  assumes "same_budget a v" and "consistent a" and "used k (controller_of a) B"
  shows "kept a (finishRun (settle_budget B v)) \<and> (budgetController a \<noteq> None \<longrightarrow> spends left k a (finishRun (settle_budget B v)))"
proof (cases "controller_of a")
  case None
  then have "budgetController a = None" using consistent_controller [OF assms(2)] by simp
  moreover from this have "budgetController v = None" using assms(1) by (simp add: same_budget_def)
  ultimately show ?thesis
    using assms(1,2) by (simp add: settle_budget_def settled_fields store_controller_def kept_def same_budget_def consistent_def finishRun_def)
next
  case (Some b)
  obtain b' where b': "B = Some b'" "bare b' = bare b"
    "\<And>i n. left i b = Some n \<Longrightarrow> \<exists>n'. left i b' = Some n' \<and> k + n' \<le> n"
    using assms(3) Some by (auto simp: used_def)
  let ?b = "(recordMaintenanceRequest ^^ maintenance v) b'"
  have v: "controller_of v = Some b" "consistent v" using same_budget_controller [OF assms(1)] Some assms(2) by simp_all
  have shape: "bare ?b = bare b" using b'(2) by (simp add: maintained_times)
  have less: "\<And>i n. left i b = Some n \<Longrightarrow> \<exists>n'. left i ?b = Some n' \<and> k + n' \<le> n" using b'(3) by (simp add: maintained_times)
  have "kept v (store_controller (Some ?b) v)" by (rule store_kept [OF v(2,1) shape])
  moreover have "spends left k v (store_controller (Some ?b) v)" by (rule store_spends [OF v(2,1) shape less])
  ultimately show ?thesis using from_same [OF assms(1)] by (simp add: settle_budget_def settled_fields b'(1))
qed

lemma lifecycle_budget:
  assumes "activeRun a = None" and "consistent a"
    and "\<And>r s. executor (begin_run a) = Some (r, s) \<Longrightarrow>
      running (begin_run a) (emitted s) (world s) \<and> used (count (log s)) (controller_of a) (runBudget s)"
    and "runWithLifecycle callbacks executor a = Some (res, a', rep)"
  shows "kept a a' \<and> activeRun a' = None \<and> (budgetController a \<noteq> None \<longrightarrow> spends left (count (asked_for rep)) a a')"
proof -
  obtain r s where run: "executor (begin_run a) = Some (r, s)"
    using assms(1,4) by (auto simp: runWithLifecycle_def split: option.splits)
  note running = conjunct1 [OF assms(3) [OF run]] and used = conjunct2 [OF assms(3) [OF run]]
  obtain v evs where v: "running (begin_run a) evs v" "a' = finishRun (settle_budget (runBudget s) v)" "asked_for rep = log s"
  proof (cases r)
    case (Inr ms)
    then have "a' = finishRun (settle_budget (runBudget s) (world s))" "asked_for rep = log s"
      using assms(1,4) run by (auto simp: runWithLifecycle_def)
    then show thesis by (rule that [OF running])
  next
    case (Inl e)
    obtain r2 a2 did where fail: "handleRunFailure callbacks e (world s) = (r2, a2, did)" by (metis prod_cases3)
    have "running (begin_run a) (emitted s @ did) a2" by (rule handle_failure(1) [OF running fail])
    moreover have "a' = finishRun (settle_budget (runBudget s) a2)" "asked_for rep = log s"
      using assms(1,4) run Inl fail by (auto simp: runWithLifecycle_def)
    ultimately show thesis by (rule that)
  qed
  have "activeRun a' = None" unfolding v(2) by (simp add: finishRun_def)
  then show ?thesis
    using settle_run [OF running_budget [OF v(1)] assms(2) used] unfolding v(2,3) by blast
qed

lemma loop_used:
  assumes "runAgentLoop (createLoopConfig callbacks) ms (start_state skip (begin_run a)) = Some (r, s) \<or>
      runAgentLoopContinue (createLoopConfig callbacks) (start_state skip (begin_run a)) = Some (r, s)"
  shows "running (begin_run a) (emitted s) (world s) \<and> used (count (log s)) (controller_of a) (runBudget s)"
proof
  have init: "running (begin_run a) [] ((begin_run a)\<lparr>skipInitialSteeringPoll := skip\<rparr>)"
    by (simp add: running_def ended_messages_def begin_run_def)
  show "running (begin_run a) (emitted s) (world s)" by (rule loop.run_inv [OF init assms [unfolded start_state_def]])
  show "used (count (log s)) (controller_of a) (runBudget s)"
    unfolding used_def
  proof (intro allI impI)
    fix b
    assume "controller_of a = Some b"
    then have b: "controller_of (begin_run a) = Some b" using same_budget_controller [OF begin_run_budget, of a] by (elim conjE) (erule trans)
    note loop = assms [unfolded start_state_def b]
    obtain b' where b': "runBudget s = Some b'" "bare b' = bare b" using run_shape [OF loop] by blast
    have "\<exists>n'. left i b' = Some n' \<and> count (log s) + n' \<le> n" if "left i b = Some n" for i n
      using run [OF loop that] b'(1) by auto
    then show "\<exists>b'. runBudget s = Some b' \<and> bare b' = bare b \<and>
        (\<forall>i n. left i b = Some n \<longrightarrow> (\<exists>n'. left i b' = Some n' \<and> count (log s) + n' \<le> n))"
      using b' by blast
  qed
qed

lemma prompt_messages_budget:
  assumes "activeRun a = None" and "consistent a" and "runPromptMessages callbacks ms skip a = Some (res, a', rep)"
  shows "kept a a' \<and> activeRun a' = None \<and> (budgetController a \<noteq> None \<longrightarrow> spends left (count (asked_for rep)) a a')"
  by (rule lifecycle_budget [OF assms(1,2) loop_used [OF disjI1] assms(3) [unfolded runPromptMessages_def]])

lemma continuation_budget:
  assumes "activeRun a = None" and "consistent a" and "runContinuation callbacks a = Some (res, a', rep)"
  shows "kept a a' \<and> activeRun a' = None \<and> (budgetController a \<noteq> None \<longrightarrow> spends left (count (asked_for rep)) a a')"
  by (rule lifecycle_budget [OF assms(1,2) loop_used [OF disjI2] assms(3) [unfolded runContinuation_def]])

end

section \<open>The life of an agent\<close>

datatype agent_action = Prompt prompt_input | Continue | Api api_call | Reset

text \<open>An action of the host between two runs, and what it asked for.\<close>

fun act :: "'w agent env \<Rightarrow> agent_action \<Rightarrow> 'w agent \<Rightarrow> ('w agent \<times> asked list) option" where
  "act callbacks (Prompt given) a = map_option (\<lambda>(r, a', rep). (a', asked_for rep)) (prompt callbacks given a)"
| "act callbacks Continue a = map_option (\<lambda>(r, a', rep). (a', asked_for rep)) (continue callbacks a)"
| "act callbacks (Api call) a = Some (call_api call a, [])"
| "act callbacks Reset a = Some (snd (reset a), [])"

fun act_all :: "'w agent env \<Rightarrow> agent_action list \<Rightarrow> 'w agent \<Rightarrow> ('w agent \<times> asked list) option" where
  "act_all callbacks [] a = Some (a, [])"
| "act_all callbacks (x # xs) a =
     (case act callbacks x a of
        None \<Rightarrow> None
      | Some (a', l) \<Rightarrow> map_option (\<lambda>(a'', l'). (a'', l @ l')) (act_all callbacks xs a'))"

definition fresh_controller :: "budget_policy \<Rightarrow> int \<Rightarrow> controller" where
  "fresh_controller p t = \<lparr>policy = p, usage = \<lparr>providerRequests = 0, toolCalls = 0, maintenanceRequests = 0, startedAt = t\<rparr>\<rparr>"

context ledger begin

text \<open>A controller for the whole session starts with \<open>m\<close>, and is created once.\<close>

definition session_limit :: "nat \<Rightarrow> 'w agent \<Rightarrow> bool" where
  "session_limit m a \<longleftrightarrow> session_budget a \<and> (\<exists>p. budgetPolicy a = Some p \<and> (\<forall>t. left 0 (Stock (fresh_controller p t)) = Some m))"

definition own_allowance :: "nat \<Rightarrow> 'w agent \<Rightarrow> nat option" where
  "own_allowance m a =
     (if budgetController a = None then Some m else case own_controller a of None \<Rightarrow> None | Some c \<Rightarrow> left 0 (Stock c))"

definition accounts :: "nat \<Rightarrow> nat \<Rightarrow> 'w agent \<Rightarrow> 'w agent \<Rightarrow> bool" where
  "accounts m k a a' \<longleftrightarrow> consistent a' \<and> budgetPolicy a' = budgetPolicy a \<and> session_budget a' = session_budget a \<and>
     (\<forall>i sh n. sharedBudget a = Some sh \<longrightarrow> left i sh = Some n \<longrightarrow>
        (\<exists>sh' n'. sharedBudget a' = Some sh' \<and> left i sh' = Some n' \<and> k + n' \<le> n)) \<and>
     (session_limit m a \<longrightarrow> (\<forall>n. own_allowance m a = Some n \<longrightarrow> (\<exists>n'. own_allowance m a' = Some n' \<and> k + n' \<le> n)))"

lemma accounts_trans:
  assumes "accounts m k a b" and "accounts m k' b c"
  shows "accounts m (k + k') a c"
proof -
  have limit: "session_limit m b = session_limit m a" using assms(1) by (simp add: accounts_def session_limit_def)
  have "\<exists>sh' n'. sharedBudget c = Some sh' \<and> left i sh' = Some n' \<and> k + k' + n' \<le> n"
    if here: "sharedBudget a = Some sh" "left i sh = Some n" for i sh n
  proof -
    obtain sh1 n1 where one: "sharedBudget b = Some sh1" "left i sh1 = Some n1" "k + n1 \<le> n"
      using assms(1) here unfolding accounts_def by blast
    then obtain sh2 n2 where "sharedBudget c = Some sh2" "left i sh2 = Some n2" "k' + n2 \<le> n1"
      using assms(2) unfolding accounts_def by blast
    then show ?thesis using one(3) by auto
  qed
  moreover have "\<exists>n'. own_allowance m c = Some n' \<and> k + k' + n' \<le> n" if here: "session_limit m a" "own_allowance m a = Some n" for n
  proof -
    obtain n1 where one: "own_allowance m b = Some n1" "k + n1 \<le> n" using assms(1) here unfolding accounts_def by blast
    then obtain n2 where "own_allowance m c = Some n2" "k' + n2 \<le> n1"
      using assms(2) here(1) limit unfolding accounts_def by blast
    then show ?thesis using one(2) by auto
  qed
  ultimately show ?thesis using assms by (simp add: accounts_def)
qed

lemma accounts_same: "consistent a \<Longrightarrow> same_budget a a' \<Longrightarrow> accounts m 0 a a'"
  using same_budget_controller [of a a']
  by (auto simp: accounts_def same_budget_def own_allowance_def own_controller_def)

lemma accounts_spend:
  assumes "kept a a'" and "budgetController a \<noteq> None \<Longrightarrow> spends left k a a'"
    and "budgetController a = None \<Longrightarrow> budgetPolicy a = None \<and> sharedBudget a = None"
  shows "accounts m k a a'"
proof (cases "budgetController a")
  case None
  then show ?thesis using assms(1,3) by (simp add: accounts_def kept_def session_limit_def)
next
  case (Some ref)
  then have "spends left k a a'" and "budgetController a' \<noteq> None" using assms(1,2) by (simp_all add: kept_def)
  then show ?thesis
    using assms(1) Some by (auto simp: accounts_def kept_def spends_def own_allowance_def split: option.splits)
qed

end

context agent_ledger begin

lemma create_accounts:
  assumes "consistent a" and "createBudgetController (now callbacks) a = (c, a')" and "session_budget a \<longrightarrow> budgetController a = None"
  shows "accounts m 0 a (a'\<lparr>budgetController := c\<rparr>) \<and>
    (c = None \<longrightarrow> budgetPolicy a' = None \<and> sharedBudget a' = None)"
proof -
  have same: "same_budget a a'" using createBudgetController_core [of a] assms(2) same_core_budget by force
  have c: "c = (case budgetPolicy a of
      None \<Rightarrow> if sharedBudget a = None then None else Some SharedController
    | Some p \<Rightarrow> Some (if sharedBudget a = None then OwnController (fresh_controller p (fst (now callbacks a)))
        else ComposedController (fresh_controller p (fst (now callbacks a)))))"
    using assms(2)
    by (auto simp: createBudgetController_def createRunBudgetController_def fresh_controller_def split: option.splits prod.splits if_splits)
  have "consistent (a'\<lparr>budgetController := c\<rparr>)"
    using same by (auto simp: c consistent_def same_budget_def split: option.splits)
  moreover have "own_allowance m (a'\<lparr>budgetController := c\<rparr>) = Some m" if "session_limit m a"
    using that by (auto simp: own_allowance_def own_controller_def c session_limit_def)
  moreover have "own_allowance m a = Some m" if "session_limit m a"
    using that assms(3) by (simp add: own_allowance_def session_limit_def)
  moreover have "c = None \<longrightarrow> budgetPolicy a' = None \<and> sharedBudget a' = None"
    using same by (auto simp: c same_budget_def split: option.splits if_splits)
  ultimately show ?thesis using same by (auto simp: accounts_def same_budget_def)
qed

lemma ensure_accounts:
  assumes "consistent a"
  shows "accounts m 0 a (ensure_controller (now callbacks) a) \<and>
    (budgetController (ensure_controller (now callbacks) a) = None \<longrightarrow>
      budgetPolicy (ensure_controller (now callbacks) a) = None \<and> sharedBudget (ensure_controller (now callbacks) a) = None)"
proof (cases "budgetController a")
  case None
  obtain c a' where create: "createBudgetController (now callbacks) a = (c, a')" by force
  show ?thesis using create_accounts [OF assms create] None create by (simp add: ensure_controller_def)
next
  case (Some ref)
  then show ?thesis using accounts_same [OF assms same_budget_refl] by (simp add: ensure_controller_def)
qed

lemma create_inactive: "activeRun a = None \<Longrightarrow> createBudgetController (now callbacks) a = (c, a') \<Longrightarrow> activeRun a' = None"
  using createBudgetController_core [of a] by (simp add: same_core_def)

lemma ensure_inactive: "activeRun a = None \<Longrightarrow> activeRun (ensure_controller (now callbacks) a) = None"
  using create_inactive [of a] by (cases "createBudgetController (now callbacks) a") (simp add: ensure_controller_def)

lemma normalize_core: "normalizePromptInput (now callbacks) given a = (ms, a') \<Longrightarrow> same_core a a'"
  using local.now [of a] by (auto simp: normalizePromptInput_def split: prompt_input.splits prod.splits)

text \<open>A run from an agent whose controller was made sure of.\<close>

lemma accounts_run:
  assumes "accounts m 0 a b" and "same_budget b b'" and "activeRun b' = None"
    and "budgetController b = None \<longrightarrow> budgetPolicy b = None \<and> sharedBudget b = None"
    and "consistent b' \<Longrightarrow> kept b' a' \<and> activeRun a' = None \<and> (budgetController b' \<noteq> None \<longrightarrow> spends left k b' a')"
  shows "accounts m k a a' \<and> activeRun a' = None"
proof -
  have b: "consistent b" using assms(1) by (simp add: accounts_def)
  then have b': "consistent b'" using same_budget_controller [OF assms(2)] by simp
  have "accounts m k b' a'"
    by (rule accounts_spend) (use assms(2,4) assms(5) [OF b'] in \<open>simp_all add: same_budget_def\<close>)
  then have "accounts m k b a'" using accounts_trans [OF accounts_same [OF b assms(2)], of m k a'] by simp
  then show ?thesis using accounts_trans [OF assms(1), of k a'] assms(5) [OF b'] by simp
qed

lemma prompt_accounts:
  assumes "activeRun a = None" and "consistent a" and "prompt callbacks given a = Some (r, a', rep)"
  shows "accounts m (count (asked_for rep)) a a' \<and> activeRun a' = None"
proof -
  define b where "b = (if session_budget a then ensure_controller (now callbacks) a
    else case createBudgetController (now callbacks) a of (c, a') \<Rightarrow> a'\<lparr>budgetController := c\<rparr>)"
  have b: "accounts m 0 a b \<and> (budgetController b = None \<longrightarrow> budgetPolicy b = None \<and> sharedBudget b = None) \<and> activeRun b = None"
  proof (cases "session_budget a")
    case True
    then show ?thesis using ensure_accounts [OF assms(2), of m] ensure_inactive [OF assms(1)] by (simp add: b_def)
  next
    case False
    obtain c a1 where create: "createBudgetController (now callbacks) a = (c, a1)" by force
    then show ?thesis
      using False create_accounts [OF assms(2) create, of m] create_inactive [OF assms(1) create] by (simp add: b_def)
  qed
  obtain ms b' where b': "normalizePromptInput (now callbacks) given b = (ms, b')" by force
  have core: "same_core b b'" by (rule normalize_core [OF b'])
  have inactive: "activeRun b' = None" using core b by (simp add: same_core_def)
  have run: "runPromptMessages callbacks ms False b' = Some (r, a', rep)"
    using assms(1,3) b' by (simp add: prompt_def b_def [symmetric])
  show ?thesis
    by (rule accounts_run [OF _ same_core_budget [OF core] inactive _ prompt_messages_budget [OF inactive _ run]]) (use b in auto)
qed

lemma continue_accounts:
  assumes "activeRun a = None" and "consistent a" and "continue callbacks a = Some (r, a', rep)"
  shows "accounts m (count (asked_for rep)) a a' \<and> activeRun a' = None"
proof -
  define b where "b = ensure_controller (now callbacks) a"
  have b: "accounts m 0 a b" "budgetController b = None \<longrightarrow> budgetPolicy b = None \<and> sharedBudget b = None"
    using ensure_accounts [OF assms(2), of m] by (simp_all add: b_def)
  have inactive: "activeRun b = None" unfolding b_def by (rule ensure_inactive [OF assms(1)])
  have consistent: "consistent b" using b(1) by (simp add: accounts_def)
  define b2 where "b2 = b\<lparr>steeringQueue := snd (drain (steeringQueue b))\<rparr>"
  define b3 where "b3 = b2\<lparr>followUpQueue := snd (drain (followUpQueue b2))\<rparr>"
  have same: "same_budget b b2" "same_budget b b3" by (simp_all add: b2_def b3_def same_budget_def)
  have idle: "activeRun b2 = None" "activeRun b3 = None" using inactive by (simp_all add: b2_def b3_def)
  have refused: "accounts m 0 a b" "accounts m 0 a b3"
    using b(1) accounts_trans [OF b(1) accounts_same [OF consistent same(2)]] by simp_all
  let ?ms = "agent_messages b"
  have out: "Some (r, a', rep) =
      (if ?ms = [] \<or> list_all is_system ?ms then Some (Inl ''No messages to continue from'', b, no_report)
       else if is_assistant (last ?ms)
       then (if fst (drain (steeringQueue b)) \<noteq> [] then runPromptMessages callbacks (fst (drain (steeringQueue b))) True b2
             else if fst (drain (followUpQueue b2)) \<noteq> [] then runPromptMessages callbacks (fst (drain (followUpQueue b2))) False b3
             else Some (Inl ''Cannot continue from message role: assistant'', b3, no_report))
       else runContinuation callbacks b)"
    using assms(3) [symmetric] assms(1)
    by (simp add: continue_def Let_def b_def [symmetric] b2_def [symmetric] b3_def [symmetric] split_beta)
  consider "a' = b" "rep = no_report" | "runPromptMessages callbacks (fst (drain (steeringQueue b))) True b2 = Some (r, a', rep)"
    | "runPromptMessages callbacks (fst (drain (followUpQueue b2))) False b3 = Some (r, a', rep)"
    | "a' = b3" "rep = no_report" | "runContinuation callbacks b = Some (r, a', rep)"
    using out by (auto split: if_splits)
  then show ?thesis
  proof cases
    case 1
    then show ?thesis using refused(1) inactive by (simp add: no_report_def count_Nil)
  next
    case 2
    show ?thesis by (rule accounts_run [OF b(1) same(1) idle(1) b(2) prompt_messages_budget [OF idle(1) _ 2]])
  next
    case 3
    show ?thesis by (rule accounts_run [OF b(1) same(2) idle(2) b(2) prompt_messages_budget [OF idle(2) _ 3]])
  next
    case 4
    then show ?thesis using refused(2) idle(2) by (simp add: no_report_def count_Nil)
  next
    case 5
    show ?thesis by (rule accounts_run [OF b(1) same_budget_refl inactive b(2) continuation_budget [OF inactive _ 5]])
  qed
qed

lemma api_accounts:
  assumes "activeRun a = None" and "consistent a"
  shows "accounts m 0 a (call_api call a) \<and> activeRun (call_api call a) = None"
proof (cases "call = RecordMaintenance")
  case False
  then have "same_budget a (call_api call a) \<and> activeRun (call_api call a) = None"
    using assms(1) by (cases call) (simp_all add: same_budget_def steer_def followUp_def clearSteeringQueue_def clearFollowUpQueue_def
      clearAllQueues_def abort_def)
  then show ?thesis using accounts_same [OF assms(2)] by blast
next
  case True
  show ?thesis
  proof (cases "controller_of a")
    case None
    then have "recordMaintenance a = a"
      using assms(1) consistent_controller [OF assms(2)] by (simp add: recordMaintenance_def store_controller_def)
    then show ?thesis using True accounts_same [OF assms(2) same_budget_refl] assms(1) by simp
  next
    case (Some b)
    have store: "recordMaintenance a = store_controller (Some (recordMaintenanceRequest b)) a"
      using assms(1) Some by (simp add: recordMaintenance_def)
    have "kept a (recordMaintenance a)" unfolding store by (rule store_kept [OF assms(2) Some]) simp
    moreover have "spends left 0 a (recordMaintenance a)" unfolding store by (rule store_spends [OF assms(2) Some]) (simp_all add: maintained)
    moreover have "budgetController a \<noteq> None" using Some consistent_controller [OF assms(2)] by simp
    ultimately have "accounts m 0 a (recordMaintenance a)" by (intro accounts_spend) auto
    then show ?thesis using True assms(1) by (simp add: store)
  qed
qed

lemma act_accounts:
  assumes "activeRun a = None" and "consistent a" and "act callbacks x a = Some (a', l)"
  shows "accounts m (count l) a a' \<and> activeRun a' = None"
proof (cases x)
  case (Prompt given)
  then show ?thesis using assms(3) prompt_accounts [OF assms(1,2), of given] by auto
next
  case Continue
  then show ?thesis using assms(3) continue_accounts [OF assms(1,2)] by auto
next
  case (Api call)
  then show ?thesis using assms(3) api_accounts [OF assms(1,2)] by (auto simp: count_Nil)
next
  case Reset
  then have "same_budget a a'" "activeRun a' = None" "l = []"
    using assms(1,3) by (auto simp: reset_def same_budget_def clearSteeringQueue_def clearFollowUpQueue_def)
  then show ?thesis using accounts_same [OF assms(2)] by (simp add: count_Nil)
qed

lemma act_all_accounts:
  "activeRun a = None \<Longrightarrow> consistent a \<Longrightarrow> act_all callbacks xs a = Some (a', l) \<Longrightarrow> accounts m (count l) a a'"
proof (induction xs arbitrary: a l)
  case Nil
  then show ?case using accounts_same [OF Nil.prems(2) same_budget_refl] by (simp add: count_Nil)
next
  case (Cons x xs)
  obtain a1 l1 l2 where one: "act callbacks x a = Some (a1, l1)" and rest: "act_all callbacks xs a1 = Some (a', l2)" and l: "l = l1 @ l2"
    using Cons.prems(3) by (auto split: option.splits)
  have a1: "accounts m (count l1) a a1" "activeRun a1 = None" using act_accounts [OF Cons.prems(1,2) one, of m] by simp_all
  then have "consistent a1" by (simp add: accounts_def)
  from accounts_trans [OF a1(1) Cons.IH [OF a1(2) this rest]] show ?case by (simp add: l count_append)
qed

lemma life_accounts:
  assumes "act_all callbacks xs (new_agent opts w) = Some (a', l)"
  shows "option_sharedBudget opts = Some sh \<Longrightarrow> left i sh = Some n \<Longrightarrow> count l \<le> n"
    and "option_session_budget opts \<Longrightarrow> option_runBudget opts = Some p \<Longrightarrow>
      (\<And>t. left 0 (Stock (fresh_controller p t)) = Some n) \<Longrightarrow> count l \<le> n"
proof -
  have new: "activeRun (new_agent opts w) = None" "consistent (new_agent opts w)" by (simp_all add: new_agent_def consistent_def)
  note acc = act_all_accounts [OF new assms, unfolded accounts_def]
  show "count l \<le> n" if here: "option_sharedBudget opts = Some sh" "left i sh = Some n"
  proof -
    have "sharedBudget (new_agent opts w) = Some sh" using here(1) by (simp add: new_agent_def)
    then obtain n' where "count l + n' \<le> n" using acc [of 0] here(2) by blast
    then show ?thesis by simp
  qed
  show "count l \<le> n" if here: "option_session_budget opts" "option_runBudget opts = Some p"
    "\<And>t. left 0 (Stock (fresh_controller p t)) = Some n"
  proof -
    have "session_limit n (new_agent opts w)" using here by (simp add: session_limit_def new_agent_def)
    moreover have "own_allowance n (new_agent opts w) = Some n" by (simp add: own_allowance_def new_agent_def)
    ultimately obtain n' where "count l + n' \<le> n" using acc [of n] by blast
    then show ?thesis by simp
  qed
qed

end

interpretation embedded_requests: agent_ledger "embed calls env" requests_left_at count_requests
  for calls :: "agent_event \<Rightarrow> 'w \<Rightarrow> api_call list" and env :: "'w env"
  by (intro agent_ledger.intro embedded.polite_axioms requests_ledger.ledger_axioms)

interpretation embedded_calls: agent_ledger "embed calls env" calls_left_at count_executions
  for calls :: "agent_event \<Rightarrow> 'w \<Rightarrow> api_call list" and env :: "'w env"
  by (intro agent_ledger.intro embedded.polite_axioms calls_ledger.ledger_axioms)

text \<open>Without an active run the controller of the last prompt still counts maintenance.\<close>

lemma maintenance_after_run:
  assumes "activeRun a = None" and "budgetController a = Some (OwnController c)"
  shows "budgetController (recordMaintenance a) = Some (OwnController (count_maintenance c))"
  using assms by (simp add: recordMaintenance_def controller_of_def store_controller_def)

section \<open>Properties\<close>

lemma fresh_left:
  "maxProviderRequests p = Some m \<Longrightarrow> requests_left_at 0 (Stock (fresh_controller p t)) = Some (nat m)"
  "maxToolCalls p = Some m \<Longrightarrow> calls_left_at 0 (Stock (fresh_controller p t)) = Some (nat m)"
  by (simp_all add: requests_left_at_def calls_left_at_def fresh_controller_def)

text \<open>
  C4: The budget of an agent holds over its whole life. Whatever sequence of prompts, continuations, resets and other calls
  its host makes, between runs and during them, and however the runs end: all requests made of the model together stay within
  what every controller of the shared budget had left when the agent was created, and so do all executions of tools; and when
  the budget of the agent is one for the whole session, they stay within the limits of its policy: no later prompt starts it
  over.
\<close>
theorem agent_life_within_budget:
  assumes "polite callbacks" and "act_all callbacks xs (new_agent opts w) = Some (a, l)"
  shows "(\<forall>sh. option_sharedBudget opts = Some sh \<longrightarrow>
      (\<forall>i n. requests_left_at i sh = Some n \<longrightarrow> count_requests l \<le> n) \<and> (\<forall>i n. calls_left_at i sh = Some n \<longrightarrow> count_executions l \<le> n)) \<and>
    (\<forall>p. option_session_budget opts \<longrightarrow> option_runBudget opts = Some p \<longrightarrow>
      (\<forall>m. maxProviderRequests p = Some m \<longrightarrow> count_requests l \<le> nat m) \<and> (\<forall>m. maxToolCalls p = Some m \<longrightarrow> count_executions l \<le> nat m))"
proof -
  have requests: "agent_ledger callbacks requests_left_at count_requests"
    by (intro agent_ledger.intro assms(1) requests_ledger.ledger_axioms)
  have calls: "agent_ledger callbacks calls_left_at count_executions"
    by (intro agent_ledger.intro assms(1) calls_ledger.ledger_axioms)
  show ?thesis
    using agent_ledger.life_accounts [OF requests assms(2)] agent_ledger.life_accounts [OF calls assms(2)] fresh_left by blast
qed

theorem agent_life_within_budget_witness: "count_requests (asked_for example_report) \<le> 5"
proof -
  have "act_all example_callbacks [Prompt (PromptMessages [example_prompt])] (new_agent example_options 0) =
      Some (example_after, asked_for example_report)"
    using example_prompt_returns by (simp add: example_agent_def)
  from agent_life_within_budget [OF example_polite this]
  have "count_requests (asked_for example_report) \<le> nat 5"
    by (simp add: example_options_def example_policy_def)
  then show ?thesis by simp
qed

lemma limited_left:
  assumes "maxProviderRequests (policy c) = Some m" and "c \<in> set (leaves b)"
  shows "\<exists>n. requests_left b = Some n"
  using assms by (auto simp: requests_left_def)

text \<open>
  C15: A prompt always comes back. An idle agent whose policy limits the requests of a prompt returns from every prompt, idle
  again, whatever the model answers, the tools do, and the callbacks queue while it runs.
\<close>
theorem agent_prompt_returns:
  assumes "polite callbacks" and "idle a" and "\<not> session_budget a"
    and "budgetPolicy a = Some p" and "maxProviderRequests p = Some m"
  shows "\<exists>r a' rep. prompt callbacks given a = Some (r, a', rep) \<and> idle a'"
proof -
  obtain c b where create: "createBudgetController (now callbacks) a = (c, b)" by force
  have same: "same_core a b" using polite.createBudgetController_core [OF assms(1), of a] create by simp
  define d where "d = b\<lparr>budgetController := c\<rparr>"
  obtain ms e where e: "normalizePromptInput (now callbacks) given d = (ms, e)" by force
  have core: "same_core d e" using polite.now [OF assms(1), of d] e
    by (auto simp: normalizePromptInput_def split: prompt_input.splits prod.splits)
  obtain ct where c: "c = Some (if sharedBudget a = None then OwnController ct else ComposedController ct)" "policy ct = p"
    using create assms(4) by (auto simp: createBudgetController_def createRunBudgetController_def split: prod.splits if_splits)
  have fields: "budgetController e = c" "sharedBudget e = sharedBudget a" "activeRun e = None"
    using core same assms(2) by (simp_all add: d_def same_core_def idle_def)
  obtain ctl where ctl: "controller_of e = Some ctl" "ct \<in> set (leaves ctl)"
    using fields c by (cases "sharedBudget a") (simp_all add: controller_of_def)
  obtain n where n: "requests_left ctl = Some n" using limited_left [OF _ ctl(2)] c(2) assms(5) by blast
  have held: "controller_of (begin_run e) = Some ctl"
    using ctl(1) same_budget_controller [OF begin_run_budget, of e] by (elim conjE) (erule trans)
  have "\<exists>r s. runAgentLoop (createLoopConfig callbacks) ms (start_state False (begin_run e)) = Some (r, s)"
    unfolding runAgentLoop_def start_state_def held by (rule then_loop_ends [OF n keeps_books_start_prompts])
  then obtain r s where run: "runAgentLoop (createLoopConfig callbacks) ms (start_state False (begin_run e)) = Some (r, s)" by blast
  have "prompt callbacks given a = runPromptMessages callbacks ms False e"
    using assms(2,3) create e by (simp add: prompt_def idle_def d_def)
  also have "\<exists>out. \<dots> = Some out"
    using fields(3) run by (cases r) (simp_all add: runPromptMessages_def runWithLifecycle_def split: prod.split)
  finally obtain r' a' rep where out: "prompt callbacks given a = Some (r', a', rep)" by (metis prod_cases3)
  moreover have "idle a'"
    using out assms(2,3) create e fields(3) run
    by (cases r) (auto simp: prompt_def idle_def d_def runPromptMessages_def runWithLifecycle_def finishRun_def split: prod.splits)
  ultimately show ?thesis by blast
qed

theorem agent_prompt_returns_witness:
  "\<exists>r a' rep. prompt example_callbacks (PromptText ''hi'' []) (example_agent\<lparr>session_budget := False\<rparr>) = Some (r, a', rep) \<and> idle a'"
  by (rule agent_prompt_returns [OF example_polite, where p = example_policy and m = 5])
    (simp_all add: idle_def example_agent_def new_agent_def example_options_def example_policy_def)

end
