(* ===== verification/Spec2Isabelle.thy ===== *)
theory Spec2Isabelle imports Perm_Gate Bash_Segments Codec Session_Fork_Props Lane_Props Durable_Delta Delta_Codec Delta_Safety
  Transform_Props Agent_Loop_Run Agent_Loop_Budget Agent_Loop_Results Agent_Loop_Tools Tool_Session_Props Agent_Budget begin

text \<open>
  Verification development for apex-code, a coding agent in TypeScript; all paths below are under \<open>packages/\<close>.

  The program has layers that this development covers in part. The agent package runs the conversation: an agent
  (\<open>agent/src/agent.ts\<close>) starts runs of the agent loop (\<open>agent-loop.ts\<close>) under a budget
  (\<open>run-budget.ts\<close>); a run asks a model, whose provider gets a transcript rewritten for it
  (\<open>ai/src/utils/transcript.ts\<close>, \<open>ai/src/api/transform-messages.ts\<close>), and executes the tools it calls. The
  coding agent decides which calls may run (\<open>coding-agent/src/core/hooks\<close>, \<open>core/permissions\<close>,
  \<open>core/tools\<close>). The agent package also keeps a session as a tree of entries with typed values beside it
  (\<open>agent/src/harness/session\<close>) and publishes a snapshot of what runs (\<open>harness/runtime/reducer.ts\<close>). The
  durable package is the transactional store of the next harness (\<open>durable/src\<close>), whose documents change by the
  deltas of Chord (\<open>chord/src/delta\<close>). The protocol package carries messages between client and server as framed
  CBOR (\<open>protocol/src\<close>). A call of a tool is validated by the loop, then shown to the extensions, which may change its
  arguments, to the declarative hooks, and to the permission gate, which asks the contract of the tool for its operation
  and rules, the stores for the rules of eight sources, and the responder for an answer; only then the budget counts it
  and it is executed.

  Conventions. A call that throws returns \<open>Inl\<close> of the error message, one that returns gives \<open>Inr\<close>.
  A \<open>Map\<close> or a plain object used as one is an association list in insertion order (\<open>al_get\<close>,
  \<open>al_set\<close>, \<open>al_delete\<close> of Prelude). Strings are lists of code units up to 255. Arrays that the code
  changes in place are passed and returned; the aliasing that the sources rule out by cloning has no counterpart. A
  loop over data is structural recursion or a function with a measure; a walk along pointers that nothing makes
  acyclic is a partial function whose \<open>None\<close> means that it does not end.

  Theories, in the order of the program.

  Prelude, Json: throwing calls, strings, ordered maps, arrays; JavaScript numbers and JSON values.

  Permissions. Perm_Rules models \<open>rules.ts\<close>: rules, sources, precedence, \<open>resolvePermission\<close>; its
  lemmas give the rule that decides and when the order of rules does not matter. Perm_Contract models
  \<open>tools/contract.ts\<close> and path operations. Perm_Modes models \<open>modes.ts\<close>: the overlay of a mode on a
  resolution, and the choice of the mode at start. Perm_Store models \<open>store.ts\<close>: the file, in-memory and derived
  stores with what an untrusted project, a source without authority and a delegated child can change. Perm_Gate
  models \<open>gate.ts\<close>, the interactive responder and configured commands: when a call is let through, what is
  remembered, what happens without a responder.

  The shell tool. Bash_Grammar models the segmentation of a command, its read-only check and rule matching
  (\<open>tools/shell-operation.ts\<close>, \<open>bash-readonly.ts\<close> and the permission part of the shell tool);
  Bash_Segments specifies, as inductive grammars, what text is inert for the shell (no operator, substitution or file
  redirection outside quotes) and proves that a decomposed command is a row of inert pieces and operators whose trimmed
  pieces are the segments, that segments are single commands, that an allow rule covers all of them, and that the rule
  generated for a call matches it.

  Protocol. Utf models the text codecs of the host. Cbor models the strict CBOR encoder and decoder, with the
  limits as arguments, and Cbor_Roundtrip proves that decoding inverts encoding and that whatever is accepted is
  within the limits. Framing models length-prefixed frames; Stream_Decoder states, as a locale, what a decoder fed by
  chunks owes to its stream; Frame_Stream and Codec interpret it for the frame decoder and the message decoder. The
  TypeBox validation of a message is the argument \<open>matches\<close> of the message codec.

  Agent session. Session_Values models \<open>types.ts\<close>, \<open>values.ts\<close> and \<open>commit.ts\<close>: entries,
  usage rows, addresses of scalar and list values, writes, and the preparation of a commit. Session_Store models
  \<open>in-memory-storage-state.ts\<close>: the materialised maps, the validation of a commit, its application and the
  reads. Session_Commit proves, in the locale \<open>commit_store\<close>, that a store which takes every fitting write takes a
  validated commit, and interprets it on the state; Session_Props has the branch walk, and what a transaction writes as
  functions of its writes (\<open>entries_written\<close>, \<open>value_written\<close> and so on) that the new state is shown to hold. Session_Fork
  has the fork of a session with the specification of its tip and ancestry (\<open>lineage\<close>, \<open>fork_tip\<close>), Session_Fork_Props
  when it succeeds, its consistency, and what becomes of every value (\<open>fork_keeps\<close>, \<open>fork_data\<close>).

  Agent lane. Lane_Reducer models the lane snapshot and its reducer; Lane_Props has its runs as the inductive relation
  \<open>lane_steps\<close>, the bracket of a run, and the table of running tools as a refinement of a map.

  Durable store, \<open>storage/memory.ts\<close> with \<open>types.ts\<close>. Durable_Index: binary search and sorted arrays, equal
  to their filters. Durable_Store: records, the state of \<open>MemoryStorage\<close>, the checks of a batch, the application of
  records and of document commands, \<open>commit\<close>, \<open>mintId\<close>, \<open>close\<close>. Durable_Inv and
  Durable_Records: the invariant of tables and indexes and its preservation by every record write.
  Durable_Documents, Durable_Actions, Durable_Batch and Durable_Commit: the same for document commands, first one, then
  the batch, where the counts that the check computed bound the live documents of every address. Durable_Props: the
  invariant over every sequence of operations (\<open>durable_steps\<close>), and the freshness of minted identifiers.
  Durable_Reads: point reads, paged scans, walks along parent conversations, documents at a point of their history.
  Durable_Scan: a retained document replays
  without a corruption error, and, in the locale \<open>paged_scan\<close> interpreted on the three scans, following the
  cursors enumerates the index.

  Chord deltas, \<open>chord/src/delta/index.ts\<close>. Delta_Apply models operations, their validation and the two appliers,
  Delta_Diff the structural difference, Delta_Codec the codec that names paths by identifiers. A JSON value is a tree: the
  aliasing of containers and the recording tracker are not modelled. Delta_Paths and Delta_Diff_Props hold the algebra of
  paths and of single operations; Delta_Sync proves that a difference applies to the new value, Delta_Safety that
  operations of an untrusted party leave well-formed values, Durable_Delta that a committed difference is read back.

  Transcripts. Transcript models messages and the tools and prompt that system messages declare, Transform_Messages the
  rewriting of a transcript for a model. Transcript_Props and Transform_Props: replaying a collapsed transcript gives the same
  prompt and tools, and what a provider receives is settled, every call answered before the next turn.

  The agent loop. Run_Budget models the budget controllers, Budget_Props bounds families of runs through the locale
  \<open>bounded_gate\<close>; Tool_Errors models the counts of repeated failures. Agent_Loop models \<open>agent-loop.ts\<close> as actions
  on the state of a run, where an action returns a value or throws; the callbacks, the model, the tools, the listener and
  the clock are functions of a world, collected in the record \<open>env\<close>. An awaited action runs to its end, and calls in
  parallel settle in an order that the world chooses. The field \<open>log\<close> records what was asked of the outside for the
  statements. The loop itself, \<open>iterate\<close>, is a partial function: \<open>None\<close> means that it goes on for ever.
  Agent_Loop_Rules has the rules of \<open>ensures\<close> and \<open>keeps\<close>; Agent_Loop_Events and Agent_Loop_Run the life cycle
  of the events; Agent_Loop_Books and Agent_Loop_Budget, with the locale \<open>metered\<close>, that a run stays within its budget
  and that a budget of requests ends it; Agent_Loop_Worlds the locale \<open>loop_invariant\<close>, an invariant of the world that
  every callback keeps; Agent_Loop_Calls what was checked before an execution; Agent_Loop_Results that every call gets one
  result; Agent_Loop_Tools that declared tools are current. Agent_Loop_Example runs the loop.

  Hooks. Hook_Runtime models the declarative hooks: the decision a hook prints, the process of a command and the reply of an
  endpoint, and the runtime; Hook_Config models the validation of their settings; Hook_Props proves that they fail closed.
  Tool_Session models what a session does before and after a call of a tool, and Tool_Session_Props proves, for whole runs of
  the loop, that nothing is executed that the gate did not let pass with these arguments, and that plan mode holds.

  The agent. Agent models \<open>agent.ts\<close>: queues, budgets, events, prompts, continuations, failures. Its callbacks are an
  \<open>env\<close> whose world is the agent itself. Agent_Props states in the locale \<open>polite\<close>, a sublocale of
  \<open>loop_invariant\<close>, what callbacks may do, interprets it on callbacks that use the methods of the agent, and proves
  that the transcript grows by what was announced and that the agent ends idle. Agent_Budget follows the controllers through
  any sequence of prompts with the locale \<open>ledger\<close>, interpreted on requests and on calls.

  Fuel and bounds. The CBOR decoder and the command scanner recurse over their input, whose length bounds them.
  \<open>scan_all\<close> is a client that reads pages with fuel; the length of the index plus one is enough for pages of any
  positive size. Numbers are integers where the source keeps them safe integers; the CBOR encoder and decoder and
  \<open>mintId\<close> check that range as the code does. In a store that satisfies its invariant the branch walk of a
  session ends; the walks of the durable store along parents are stated as partial functions, since the store does not
  check parents. A run of the loop whose budget limits requests is proved to end; no fuel is needed.

  Not modelled. Model providers, terminal user interface, RPC and editor modes, package manager, MCP and LSP clients,
  telemetry and the transports of client and server: input, output and callbacks of the host around third party services;
  extensions beyond the two tool events. The persistent storages (JSON lines, SQLite): files, locks and SQL; the in-memory
  stores of the same contracts are modelled. The drivers of the next harness (\<open>harness/runtime/drive\<close>,
  \<open>lane.ts\<close>), the rest of \<open>agent-session.ts\<close>, delegation: promises, timers and abort signals over many
  services. Of the agent, assignments to its state from outside during a run, and other holders of a shared budget acting
  during a run. Chord: proxies, services and the tracker. Message schemas of the protocol are a parameter, since TypeBox
  interprets them. Not yet modelled though within reach: the model context built from a session branch, and the cut
  points of compaction.
\<close>

end
